(* ===== verification/SO_Prelude.thy ===== *)
theory SO_Prelude
  imports Main "HOL-Library.Word" "HOL-Library.Monad_Syntax"
begin

text \<open>
  Shared ground of the development: the integer types of the C sources at their width, the
  little-endian byte encoding the target (AArch64) uses for them, the memory accesses the code
  makes through pointers, and the generic list and option lemmas the component theories use.

  A C function that can go wrong in the language itself (a read or write outside its object, a use
  of a freed block, an uninitialised variable that decides a branch) is modelled by a function into
  an \<open>option\<close> type: \<open>None\<close> is that undefined behaviour, \<open>Some\<close> a normal return. The error
  codes of the API are ordinary values. The \<open>do\<close> notation of \<open>Monad_Syntax\<close> sequences such
  functions.
\<close>

unbundle bit_operations_syntax

named_theorems fault_simps \<open>how a memory access of the model resolves\<close>
named_theorems state_frame \<open>which fields of the state an operation leaves alone\<close>

type_synonym byte = "8 word"
type_synonym u16 = "16 word"
type_synonym u32 = "32 word"
type_synonym u64 = "64 word"

lemma unat_less_2p: "unat (w :: 'a::len word) < 2 ^ LENGTH('a)"
  by (fact unsigned_less)

section \<open>Little-endian encoding\<close>

primrec le_encode :: "nat \<Rightarrow> nat \<Rightarrow> byte list" where
  "le_encode 0 x = []"
| "le_encode (Suc n) x = of_nat x # le_encode n (x div 256)"

primrec le_decode :: "byte list \<Rightarrow> nat" where
  "le_decode [] = 0"
| "le_decode (b # bs) = unat b + 256 * le_decode bs"

lemma length_le_encode [simp]: "length (le_encode n x) = n"
  by (induction n arbitrary: x) auto

lemma le_decode_less: "le_decode bs < 256 ^ length bs"
proof (induction bs)
  case Nil
  show ?case by simp
next
  case (Cons b bs)
  have "unat b < 256" using unat_less_2p [of b] by simp
  with Cons show ?case by simp
qed

lemma le_decode_encode: "x < 256 ^ n \<Longrightarrow> le_decode (le_encode n x) = x"
proof (induction n arbitrary: x)
  case 0
  then show ?case by simp
next
  case (Suc n)
  have "x div 256 < 256 ^ n" using Suc.prems by (simp add: less_mult_imp_div_less mult.commute)
  then have "le_decode (le_encode n (x div 256)) = x div 256" by (rule Suc.IH)
  then show ?case by (simp add: unat_of_nat)
qed

lemma le_encode_decode: "le_encode (length bs) (le_decode bs) = bs"
proof (induction bs)
  case Nil
  show ?case by simp
next
  case (Cons b bs)
  have b: "unat b < 256" using unat_less_2p [of b] by simp
  have z: "(256 :: byte) = 0" by simp
  have "(of_nat (unat b + 256 * le_decode bs) :: byte) = b"
    by (simp only: of_nat_add of_nat_mult of_nat_numeral z of_nat_unat ucast_id mult_zero_left add_0_right)
  with Cons b show ?case by simp
qed

text \<open>Big-endian numbers of the cryptographic code.\<close>

definition be_encode :: "nat \<Rightarrow> nat \<Rightarrow> byte list" where
  "be_encode n x = rev (le_encode n x)"

definition be_decode :: "byte list \<Rightarrow> nat" where
  "be_decode bs = le_decode (rev bs)"

lemma length_be_encode [simp]: "length (be_encode n x) = n"
  by (simp add: be_encode_def)

lemma be_decode_less: "be_decode bs < 256 ^ length bs"
  using le_decode_less [of "rev bs"] by (simp add: be_decode_def)

lemma be_encode_decode: "be_encode (length bs) (be_decode bs) = bs"
  using le_encode_decode [of "rev bs"] by (simp add: be_encode_def be_decode_def)

lemma be_decode_snoc [simp]: "be_decode [] = 0" "be_decode (bs @ [b]) = 256 * be_decode bs + unat b"
  by (simp_all add: be_decode_def)

text \<open>Machine integers of the sources as they lie in memory.\<close>

definition put_u64 :: "u64 \<Rightarrow> byte list" where
  "put_u64 v = le_encode 8 (unat v)"

definition put_u32 :: "u32 \<Rightarrow> byte list" where
  "put_u32 v = le_encode 4 (unat v)"

definition get_u64 :: "byte list \<Rightarrow> u64" where
  "get_u64 bs = of_nat (le_decode (take 8 bs))"

definition get_u32 :: "byte list \<Rightarrow> u32" where
  "get_u32 bs = of_nat (le_decode (take 4 bs))"

lemma length_put [simp]: "length (put_u64 v) = 8" "length (put_u32 w) = 4"
  by (simp_all add: put_u64_def put_u32_def)

lemma get_put_u64 [simp]: "get_u64 (put_u64 v @ rest) = v"
proof -
  have "unat v < 256 ^ 8" using unat_less_2p [of v] by simp
  then show ?thesis by (simp add: get_u64_def put_u64_def le_decode_encode)
qed

lemma get_put_u32 [simp]: "get_u32 (put_u32 v @ rest) = v"
proof -
  have "unat v < 256 ^ 4" using unat_less_2p [of v] by simp
  then show ?thesis by (simp add: get_u32_def put_u32_def le_decode_encode)
qed

lemmas get_put_whole [simp] = get_put_u64 [where rest = "[]", simplified]
  get_put_u32 [where rest = "[]", simplified]

lemma put_u64_inject [simp]: "put_u64 v = put_u64 w \<longleftrightarrow> v = w"
  by (metis get_put_whole(1))

lemma put_u32_inject [simp]: "put_u32 v = put_u32 w \<longleftrightarrow> v = w"
  by (metis get_put_whole(2))

section \<open>Memory accesses through a pointer\<close>

text \<open>
  A pointer to a buffer of the caller is \<open>None\<close> for \<open>NULL\<close> and otherwise the bytes of the
  buffer. The accesses below fail (\<open>None\<close>) where C leaves the behaviour undefined.
\<close>

type_synonym buffer = "byte list option"

definition deref_byte :: "buffer \<Rightarrow> byte option" where
  "deref_byte p = (case p of Some (b # bs) \<Rightarrow> Some b | _ \<Rightarrow> None)"

definition deref_u64 :: "buffer \<Rightarrow> u64 option" where
  "deref_u64 p = (case p of Some bs \<Rightarrow> (if 8 \<le> length bs then Some (get_u64 bs) else None) | None \<Rightarrow> None)"

definition deref_u32 :: "buffer \<Rightarrow> u32 option" where
  "deref_u32 p = (case p of Some bs \<Rightarrow> (if 4 \<le> length bs then Some (get_u32 bs) else None) | None \<Rightarrow> None)"

text \<open>\<open>n\<close> bytes read from the start of a buffer.\<close>

definition read_bytes :: "buffer \<Rightarrow> nat \<Rightarrow> byte list option" where
  "read_bytes p n = (if n = 0 then Some []
     else case p of Some bs \<Rightarrow> (if n \<le> length bs then Some (take n bs) else None) | None \<Rightarrow> None)"

text \<open>\<open>memcpy\<close> of the bytes \<open>src\<close> to the start of a buffer.\<close>

definition write_bytes :: "buffer \<Rightarrow> byte list \<Rightarrow> buffer option" where
  "write_bytes p src = (if src = [] then Some p
     else case p of Some bs \<Rightarrow> (if length src \<le> length bs then Some (Some (src @ drop (length src) bs)) else None)
      | None \<Rightarrow> None)"

text \<open>\<open>memcmp (p, q, n) == 0\<close>.\<close>

definition memcmp_eq :: "buffer \<Rightarrow> buffer \<Rightarrow> nat \<Rightarrow> bool option" where
  "memcmp_eq p q n = do {
     a \<leftarrow> read_bytes p n;
     b \<leftarrow> read_bytes q n;
     Some (a = b) }"

lemma deref_put [fault_simps]:
  "deref_u64 (Some (put_u64 v)) = Some v" "deref_u32 (Some (put_u32 w)) = Some w"
  "deref_byte (Some [b]) = Some b"
  by (simp_all add: deref_u64_def deref_u32_def deref_byte_def)

lemma read_bytes_Some [fault_simps]: "n \<le> length bs \<Longrightarrow> read_bytes (Some bs) n = Some (take n bs)"
  by (simp add: read_bytes_def)

lemma read_bytes_SomeD: "read_bytes p n = Some bs \<Longrightarrow> length bs = n"
  by (auto simp: read_bytes_def split: if_splits option.splits)

lemma write_bytes_Some [fault_simps]:
  "length src \<le> length bs \<Longrightarrow> write_bytes (Some bs) src = Some (Some (src @ drop (length src) bs))"
  by (simp add: write_bytes_def)

lemma write_bytes_length:
  "write_bytes p src = Some q \<Longrightarrow> map_option length q = map_option length p"
  by (auto simp: write_bytes_def split: if_splits option.splits)

section \<open>Parts of a buffer\<close>

text \<open>The \<open>n\<close> bytes at an offset, and a write at an offset, which stays inside of the buffer or is a fault.\<close>

definition slice :: "byte list \<Rightarrow> nat \<Rightarrow> nat \<Rightarrow> byte list" where
  "slice b off n = take n (drop off b)"

definition poke :: "byte list \<Rightarrow> nat \<Rightarrow> byte list \<Rightarrow> byte list option" where
  "poke b off v = (if off + length v \<le> length b then Some (take off b @ v @ drop (off + length v) b) else None)"

lemma poke_Some:
  "off + length v \<le> length b \<Longrightarrow> \<exists>b'. poke b off v = Some b' \<and> length b' = length b"
  by (simp add: poke_def)

lemma poke_SomeD:
  assumes "poke b off v = Some b'"
  shows "length b' = length b" and "slice b' off (length v) = v"
    and "x + n \<le> off \<or> off + length v \<le> x \<Longrightarrow> slice b' x n = slice b x n"
proof -
  have b: "off + length v \<le> length b" "b' = take off b @ v @ drop (off + length v) b"
    using assms by (auto simp: poke_def split: if_splits)
  show "length b' = length b" "slice b' off (length v) = v" using b by (auto simp: slice_def)
  assume d: "x + n \<le> off \<or> off + length v \<le> x"
  show "slice b' x n = slice b x n"
  proof (cases "x + n \<le> off")
    case True
    have "slice b' x n = drop x (take (x + n) b')" by (simp add: slice_def take_drop add.commute)
    also have "take (x + n) b' = take (x + n) b" using True b by (simp add: min_def)
    finally show ?thesis by (simp add: slice_def take_drop add.commute)
  next
    case False
    then have x: "off + length v \<le> x" using d by simp
    have "drop x b' = drop (x - (off + length v)) (drop (off + length v) b)"
      using x b by simp
    also have "\<dots> = drop x b" using x by simp
    finally show ?thesis by (simp add: slice_def)
  qed
qed

section \<open>Sequencing\<close>

lemma bind_SomeE:
  assumes "Option.bind x f = Some y" and "\<And>z. x = Some z \<Longrightarrow> f z = Some y \<Longrightarrow> P"
  shows P
  using assms by (cases x) auto

section \<open>Lists\<close>

text \<open>\<open>STAILQ_REMOVE\<close> of the first element that satisfies the test.\<close>

primrec remove_first :: "('a \<Rightarrow> bool) \<Rightarrow> 'a list \<Rightarrow> 'a list" where
  "remove_first P [] = []"
| "remove_first P (x # xs) = (if P x then xs else x # remove_first P xs)"

lemma set_remove_first_subset: "set (remove_first P xs) \<subseteq> set xs"
  by (induction xs) auto

lemma remove_first_id: "(\<forall>x \<in> set xs. \<not> P x) \<Longrightarrow> remove_first P xs = xs"
  by (induction xs) auto

lemma remove_first_filter:
  "distinct (map f xs) \<Longrightarrow> remove_first (\<lambda>x. f x = k) xs = filter (\<lambda>x. f x \<noteq> k) xs"
proof (induction xs)
  case Nil
  show ?case by simp
next
  case (Cons x xs)
  have "f x = k \<Longrightarrow> filter (\<lambda>y. f y \<noteq> k) xs = xs"
    by (rule filter_True) (use Cons.prems in \<open>auto simp: image_iff\<close>)
  with Cons show ?case by auto
qed

lemma map_remove_first:
  "map f (remove_first (\<lambda>x. f x = k) xs) = remove_first (\<lambda>y. y = k) (map f xs)"
  by (induction xs) auto

lemma remove_first_eq_remove1: "remove_first (\<lambda>y. y = k) xs = remove1 k xs"
  by (induction xs) auto

lemma distinct_remove_first:
  "distinct (map f xs) \<Longrightarrow> distinct (map f (remove_first P xs))"
  by (induction xs) (auto dest: subsetD [OF set_remove_first_subset])

lemma find_eq_None_conv: "List.find P xs = None \<longleftrightarrow> (\<forall>x \<in> set xs. \<not> P x)"
  by (induction xs) auto

lemma find_SomeD: "List.find P xs = Some x \<Longrightarrow> P x \<and> x \<in> set xs"
  by (induction xs) (auto split: if_splits)

lemma find_remove_first_other:
  "(\<And>x. P x \<Longrightarrow> \<not> Q x) \<Longrightarrow> List.find Q (remove_first P xs) = List.find Q xs"
  by (induction xs) auto

lemma unat_u16_less [simp]: "unat (w :: u16) < 65536"
  using unat_less_2p [of w] by simp

lemma unat_u32_less [simp]: "unat (w :: u32) < 4294967296"
  using unat_less_2p [of w] by simp

end
