(* ===== verification/Cryptoki.thy ===== *)
theory Cryptoki
  imports SO_Prelude
begin

text \<open>
  The data of the PKCS\#11 library (\<open>libpkcs11\<close>) and of the Secure Object interface it
  stands on: the Cryptoki and \<open>SK_*\<close> types and constants the code uses, sessions, objects, the slot
  record, the global state of the library, and the allocator.

  \<^item> \<open>CK_ULONG\<close> is \<open>unsigned long\<close> of AArch64, a \<open>64 word\<close>; handles are addresses.
  \<^item> Session nodes, object nodes and find lists are blocks of an explicit heap, because their
    addresses are what the library hands out as handles.
  \<^item> Template nodes and attributes are owned by one object and never handed out, so a template is
    the list of its attributes; whether their \<open>malloc\<close> succeeds is still asked of the allocator.
\<close>

section \<open>Constants\<close>

type_synonym CK_ULONG = u64
type_synonym CK_SLOT_ID = u64
type_synonym CK_SESSION_HANDLE = u64
type_synonym CK_OBJECT_HANDLE = u64
type_synonym CK_MECHANISM_TYPE = u64
type_synonym CK_ATTRIBUTE_TYPE = u64

datatype CK_RV =
    CKR_OK | CKR_HOST_MEMORY | CKR_SLOT_ID_INVALID | CKR_GENERAL_ERROR | CKR_ARGUMENTS_BAD
  | CKR_ATTRIBUTE_SENSITIVE | CKR_ATTRIBUTE_TYPE_INVALID | CKR_ATTRIBUTE_VALUE_INVALID
  | CKR_DATA_LEN_RANGE | CKR_FUNCTION_NOT_PARALLEL | CKR_FUNCTION_NOT_SUPPORTED
  | CKR_KEY_TYPE_INCONSISTENT | CKR_KEY_FUNCTION_NOT_PERMITTED | CKR_MECHANISM_INVALID
  | CKR_MECHANISM_PARAM_INVALID | CKR_OBJECT_HANDLE_INVALID | CKR_OPERATION_ACTIVE
  | CKR_OPERATION_NOT_INITIALIZED | CKR_SESSION_HANDLE_INVALID | CKR_SESSION_PARALLEL_NOT_SUPPORTED
  | CKR_BUFFER_TOO_SMALL | CKR_CRYPTOKI_NOT_INITIALIZED | CKR_CRYPTOKI_ALREADY_INITIALIZED
  | CKR_RANDOM_NO_RNG

abbreviation (input) CK_TRUE :: byte where "CK_TRUE \<equiv> 1"
abbreviation (input) CK_FALSE :: byte where "CK_FALSE \<equiv> 0"
abbreviation (input) CK_UNAVAILABLE_INFORMATION :: u64 where "CK_UNAVAILABLE_INFORMATION \<equiv> 0xFFFFFFFFFFFFFFFF"

abbreviation (input) CKO_PUBLIC_KEY :: u64 where "CKO_PUBLIC_KEY \<equiv> 2"
abbreviation (input) CKO_PRIVATE_KEY :: u64 where "CKO_PRIVATE_KEY \<equiv> 3"
abbreviation (input) CKO_SECRET_KEY :: u64 where "CKO_SECRET_KEY \<equiv> 4"
abbreviation (input) CKK_RSA :: u64 where "CKK_RSA \<equiv> 0"

abbreviation (input) CKM_RSA_PKCS :: u64 where "CKM_RSA_PKCS \<equiv> 0x1"
abbreviation (input) CKM_MD5_RSA_PKCS :: u64 where "CKM_MD5_RSA_PKCS \<equiv> 0x5"
abbreviation (input) CKM_SHA1_RSA_PKCS :: u64 where "CKM_SHA1_RSA_PKCS \<equiv> 0x6"
abbreviation (input) CKM_SHA256_RSA_PKCS :: u64 where "CKM_SHA256_RSA_PKCS \<equiv> 0x40"
abbreviation (input) CKM_SHA384_RSA_PKCS :: u64 where "CKM_SHA384_RSA_PKCS \<equiv> 0x41"
abbreviation (input) CKM_SHA512_RSA_PKCS :: u64 where "CKM_SHA512_RSA_PKCS \<equiv> 0x42"
abbreviation (input) CKM_SHA224_RSA_PKCS :: u64 where "CKM_SHA224_RSA_PKCS \<equiv> 0x46"

abbreviation (input) CKF_TOKEN_PRESENT :: u64 where "CKF_TOKEN_PRESENT \<equiv> 1"
abbreviation (input) CKF_WRITE_PROTECTED :: u64 where "CKF_WRITE_PROTECTED \<equiv> 2"
abbreviation (input) CKF_TOKEN_INITIALIZED :: u64 where "CKF_TOKEN_INITIALIZED \<equiv> 0x400"
abbreviation (input) CKF_RW_SESSION :: u64 where "CKF_RW_SESSION \<equiv> 2"
abbreviation (input) CKF_SERIAL_SESSION :: u64 where "CKF_SERIAL_SESSION \<equiv> 4"
abbreviation (input) CKF_SIGN :: u64 where "CKF_SIGN \<equiv> 0x800"
abbreviation (input) CKF_OS_LOCKING_OK :: u64 where "CKF_OS_LOCKING_OK \<equiv> 2"
abbreviation (input) CKS_RO_PUBLIC_SESSION :: u64 where "CKS_RO_PUBLIC_SESSION \<equiv> 0"

abbreviation (input) CKA_CLASS :: u64 where "CKA_CLASS \<equiv> 0x0"
abbreviation (input) CKA_TOKEN :: u64 where "CKA_TOKEN \<equiv> 0x1"
abbreviation (input) CKA_PRIVATE :: u64 where "CKA_PRIVATE \<equiv> 0x2"
abbreviation (input) CKA_LABEL :: u64 where "CKA_LABEL \<equiv> 0x3"
abbreviation (input) CKA_APPLICATION :: u64 where "CKA_APPLICATION \<equiv> 0x10"
abbreviation (input) CKA_VALUE :: u64 where "CKA_VALUE \<equiv> 0x11"
abbreviation (input) CKA_OBJECT_ID :: u64 where "CKA_OBJECT_ID \<equiv> 0x12"
abbreviation (input) CKA_CERTIFICATE_TYPE :: u64 where "CKA_CERTIFICATE_TYPE \<equiv> 0x80"
abbreviation (input) CKA_ISSUER :: u64 where "CKA_ISSUER \<equiv> 0x81"
abbreviation (input) CKA_SERIAL_NUMBER :: u64 where "CKA_SERIAL_NUMBER \<equiv> 0x82"
abbreviation (input) CKA_AC_ISSUER :: u64 where "CKA_AC_ISSUER \<equiv> 0x83"
abbreviation (input) CKA_OWNER :: u64 where "CKA_OWNER \<equiv> 0x84"
abbreviation (input) CKA_ATTR_TYPES :: u64 where "CKA_ATTR_TYPES \<equiv> 0x85"
abbreviation (input) CKA_TRUSTED :: u64 where "CKA_TRUSTED \<equiv> 0x86"
abbreviation (input) CKA_KEY_TYPE :: u64 where "CKA_KEY_TYPE \<equiv> 0x100"
abbreviation (input) CKA_SUBJECT :: u64 where "CKA_SUBJECT \<equiv> 0x101"
abbreviation (input) CKA_ID :: u64 where "CKA_ID \<equiv> 0x102"
abbreviation (input) CKA_SENSITIVE :: u64 where "CKA_SENSITIVE \<equiv> 0x103"
abbreviation (input) CKA_ENCRYPT :: u64 where "CKA_ENCRYPT \<equiv> 0x104"
abbreviation (input) CKA_DECRYPT :: u64 where "CKA_DECRYPT \<equiv> 0x105"
abbreviation (input) CKA_WRAP :: u64 where "CKA_WRAP \<equiv> 0x106"
abbreviation (input) CKA_UNWRAP :: u64 where "CKA_UNWRAP \<equiv> 0x107"
abbreviation (input) CKA_SIGN :: u64 where "CKA_SIGN \<equiv> 0x108"
abbreviation (input) CKA_SIGN_RECOVER :: u64 where "CKA_SIGN_RECOVER \<equiv> 0x109"
abbreviation (input) CKA_VERIFY :: u64 where "CKA_VERIFY \<equiv> 0x10A"
abbreviation (input) CKA_VERIFY_RECOVER :: u64 where "CKA_VERIFY_RECOVER \<equiv> 0x10B"
abbreviation (input) CKA_DERIVE :: u64 where "CKA_DERIVE \<equiv> 0x10C"
abbreviation (input) CKA_START_DATE :: u64 where "CKA_START_DATE \<equiv> 0x110"
abbreviation (input) CKA_END_DATE :: u64 where "CKA_END_DATE \<equiv> 0x111"
abbreviation (input) CKA_MODULUS :: u64 where "CKA_MODULUS \<equiv> 0x120"
abbreviation (input) CKA_MODULUS_BITS :: u64 where "CKA_MODULUS_BITS \<equiv> 0x121"
abbreviation (input) CKA_PUBLIC_EXPONENT :: u64 where "CKA_PUBLIC_EXPONENT \<equiv> 0x122"
abbreviation (input) CKA_PRIVATE_EXPONENT :: u64 where "CKA_PRIVATE_EXPONENT \<equiv> 0x123"
abbreviation (input) CKA_PRIME_1 :: u64 where "CKA_PRIME_1 \<equiv> 0x124"
abbreviation (input) CKA_PRIME_2 :: u64 where "CKA_PRIME_2 \<equiv> 0x125"
abbreviation (input) CKA_EXPONENT_1 :: u64 where "CKA_EXPONENT_1 \<equiv> 0x126"
abbreviation (input) CKA_EXPONENT_2 :: u64 where "CKA_EXPONENT_2 \<equiv> 0x127"
abbreviation (input) CKA_COEFFICIENT :: u64 where "CKA_COEFFICIENT \<equiv> 0x128"
abbreviation (input) CKA_PRIME :: u64 where "CKA_PRIME \<equiv> 0x130"
abbreviation (input) CKA_SUBPRIME :: u64 where "CKA_SUBPRIME \<equiv> 0x131"
abbreviation (input) CKA_BASE :: u64 where "CKA_BASE \<equiv> 0x132"
abbreviation (input) CKA_PRIME_BITS :: u64 where "CKA_PRIME_BITS \<equiv> 0x133"
abbreviation (input) CKA_SUBPRIME_BITS :: u64 where "CKA_SUBPRIME_BITS \<equiv> 0x134"
abbreviation (input) CKA_VALUE_BITS :: u64 where "CKA_VALUE_BITS \<equiv> 0x160"
abbreviation (input) CKA_VALUE_LEN :: u64 where "CKA_VALUE_LEN \<equiv> 0x161"
abbreviation (input) CKA_EXTRACTABLE :: u64 where "CKA_EXTRACTABLE \<equiv> 0x162"
abbreviation (input) CKA_LOCAL :: u64 where "CKA_LOCAL \<equiv> 0x163"
abbreviation (input) CKA_NEVER_EXTRACTABLE :: u64 where "CKA_NEVER_EXTRACTABLE \<equiv> 0x164"
abbreviation (input) CKA_ALWAYS_SENSITIVE :: u64 where "CKA_ALWAYS_SENSITIVE \<equiv> 0x165"
abbreviation (input) CKA_KEY_GEN_MECHANISM :: u64 where "CKA_KEY_GEN_MECHANISM \<equiv> 0x166"
abbreviation (input) CKA_MODIFIABLE :: u64 where "CKA_MODIFIABLE \<equiv> 0x170"
abbreviation (input) CKA_ECDSA_PARAMS :: u64 where "CKA_ECDSA_PARAMS \<equiv> 0x180"
abbreviation (input) CKA_EC_POINT :: u64 where "CKA_EC_POINT \<equiv> 0x181"
abbreviation (input) CKA_ALWAYS_AUTHENTICATE :: u64 where "CKA_ALWAYS_AUTHENTICATE \<equiv> 0x202"
abbreviation (input) CKA_WRAP_WITH_TRUSTED :: u64 where "CKA_WRAP_WITH_TRUSTED \<equiv> 0x210"
abbreviation (input) CKA_WRAP_TEMPLATE :: u64 where "CKA_WRAP_TEMPLATE \<equiv> 0x40000211"
abbreviation (input) CKA_UNWRAP_TEMPLATE :: u64 where "CKA_UNWRAP_TEMPLATE \<equiv> 0x40000212"
abbreviation (input) CKA_HW_FEATURE_TYPE :: u64 where "CKA_HW_FEATURE_TYPE \<equiv> 0x300"
abbreviation (input) CKA_RESET_ON_INIT :: u64 where "CKA_RESET_ON_INIT \<equiv> 0x301"
abbreviation (input) CKA_HAS_RESET :: u64 where "CKA_HAS_RESET \<equiv> 0x302"
abbreviation (input) CKA_ALLOWED_MECHANISMS :: u64 where "CKA_ALLOWED_MECHANISMS \<equiv> 0x40000600"
abbreviation (input) CKA_VENDOR_DEFINED :: u64 where "CKA_VENDOR_DEFINED \<equiv> 0x80000000"

abbreviation (input) TEE_SLOT_ID :: u64 where "TEE_SLOT_ID \<equiv> 0"
abbreviation (input) SLOT_COUNT :: u64 where "SLOT_COUNT \<equiv> 1"
abbreviation (input) MAX_FIND_LIST_OBJECTS :: nat where "MAX_FIND_LIST_OBJECTS \<equiv> 100"

section \<open>The Secure Object interface\<close>

text \<open>Return codes of \<open>securekey_api_types.h\<close>.\<close>

datatype SK_RET_CODE =
    SKR_OK | SKR_ERR_NOT_SUPPORTED | SKR_ERR_GENERAL_ERROR | SKR_ERR_SHORT_BUFFER
  | SKR_ERR_TEE_API | SKR_ERR_TEE_COMM | SKR_ERR_ACCESS_DENIED | SKR_ERR_CANCEL
  | SKR_ERR_ACCESS_CONFLICT | SKR_ERR_EXCESS_DATA | SKR_ERR_BAD_FORMAT | SKR_ERR_BAD_PARAMETERS
  | SKR_ERR_BAD_STATE | SKR_ERR_ITEM_NOT_FOUND | SKR_ERR_NOT_IMPLEMENTED | SKR_ERR_NO_DATA
  | SKR_ERR_OUT_OF_MEMORY | SKR_ERR_BUSY | SKR_ERR_COMMUNICATION | SKR_ERR_SECURITY

type_synonym SK_OBJECT_HANDLE = u32

record SK_ATTRIBUTE =
  sk_type :: u32
  sk_value :: buffer
  sk_valueLen :: u16

abbreviation (input) SK_KEY_PAIR :: u32 where "SK_KEY_PAIR \<equiv> 0x00010000"
abbreviation (input) SK_PUBLIC_KEY :: u32 where "SK_PUBLIC_KEY \<equiv> 0x00020000"
abbreviation (input) SKK_RSA :: u32 where "SKK_RSA \<equiv> 0"
abbreviation (input) SKK_EC :: u32 where "SKK_EC \<equiv> 1"
abbreviation (input) SK_ATTR_OBJECT_TYPE :: u32 where "SK_ATTR_OBJECT_TYPE \<equiv> 0"
abbreviation (input) SK_ATTR_OBJECT_INDEX :: u32 where "SK_ATTR_OBJECT_INDEX \<equiv> 1"
abbreviation (input) SK_ATTR_OBJECT_LABEL :: u32 where "SK_ATTR_OBJECT_LABEL \<equiv> 2"
abbreviation (input) SK_ATTR_KEY_TYPE :: u32 where "SK_ATTR_KEY_TYPE \<equiv> 5"
abbreviation (input) SK_ATTR_MODULUS_BITS :: u32 where "SK_ATTR_MODULUS_BITS \<equiv> 30"
abbreviation (input) SK_ATTR_MODULUS :: u32 where "SK_ATTR_MODULUS \<equiv> 31"
abbreviation (input) SK_ATTR_PUBLIC_EXPONENT :: u32 where "SK_ATTR_PUBLIC_EXPONENT \<equiv> 32"
abbreviation (input) SK_ATTR_PRIVATE_EXPONENT :: u32 where "SK_ATTR_PRIVATE_EXPONENT \<equiv> 33"
abbreviation (input) SK_ATTR_PRIME_1 :: u32 where "SK_ATTR_PRIME_1 \<equiv> 34"
abbreviation (input) SK_ATTR_PRIME_2 :: u32 where "SK_ATTR_PRIME_2 \<equiv> 35"
abbreviation (input) SK_ATTR_EXPONENT_1 :: u32 where "SK_ATTR_EXPONENT_1 \<equiv> 36"
abbreviation (input) SK_ATTR_EXPONENT_2 :: u32 where "SK_ATTR_EXPONENT_2 \<equiv> 37"
abbreviation (input) SK_ATTR_COEFFICIENT :: u32 where "SK_ATTR_COEFFICIENT \<equiv> 38"

abbreviation (input) SKM_RSAES_PKCS1_V1_5 :: u32 where "SKM_RSAES_PKCS1_V1_5 \<equiv> 101"
abbreviation (input) SKM_RSA_PKCS_NOPAD :: u32 where "SKM_RSA_PKCS_NOPAD \<equiv> 107"
abbreviation (input) SKM_RSASSA_PKCS1_V1_5_MD5 :: u32 where "SKM_RSASSA_PKCS1_V1_5_MD5 \<equiv> 111"
abbreviation (input) SKM_RSASSA_PKCS1_V1_5_SHA1 :: u32 where "SKM_RSASSA_PKCS1_V1_5_SHA1 \<equiv> 112"
abbreviation (input) SKM_RSASSA_PKCS1_V1_5_SHA224 :: u32 where "SKM_RSASSA_PKCS1_V1_5_SHA224 \<equiv> 113"
abbreviation (input) SKM_RSASSA_PKCS1_V1_5_SHA256 :: u32 where "SKM_RSASSA_PKCS1_V1_5_SHA256 \<equiv> 114"
abbreviation (input) SKM_RSASSA_PKCS1_V1_5_SHA384 :: u32 where "SKM_RSASSA_PKCS1_V1_5_SHA384 \<equiv> 115"
abbreviation (input) SKM_RSASSA_PKCS1_V1_5_SHA512 :: u32 where "SKM_RSASSA_PKCS1_V1_5_SHA512 \<equiv> 116"
abbreviation (input) SKM_MD5 :: u32 where "SKM_MD5 \<equiv> 131"
abbreviation (input) SKM_SHA1 :: u32 where "SKM_SHA1 \<equiv> 132"
abbreviation (input) SKM_SHA224 :: u32 where "SKM_SHA224 \<equiv> 133"
abbreviation (input) SKM_SHA256 :: u32 where "SKM_SHA256 \<equiv> 134"
abbreviation (input) SKM_SHA384 :: u32 where "SKM_SHA384 \<equiv> 135"
abbreviation (input) SKM_SHA512 :: u32 where "SKM_SHA512 \<equiv> 136"
abbreviation (input) SKM_RSA_PKCS_KEY_PAIR_GEN :: u32 where "SKM_RSA_PKCS_KEY_PAIR_GEN \<equiv> 141"

text \<open>
  The function list the slot's shared library hands out. Each entry acts on the state \<open>'t\<close> of the
  world behind it (the trusted execution environment). Enumeration takes the template and the
  capacity of the caller's array and returns the handles it stored; attribute retrieval returns the
  caller's attribute array as it left it; the cryptographic operations take mechanism, key, input
  and the caller's output buffer with its 16-bit length, and return the two as they left them.
\<close>

record 't SK_FUNCTION_LIST =
  SK_EnumerateObjects_fn :: "SK_ATTRIBUTE list \<Rightarrow> nat \<Rightarrow> 't \<Rightarrow> (SK_RET_CODE \<times> SK_OBJECT_HANDLE list \<times> 't) option"
  SK_GetObjectAttribute_fn :: "SK_OBJECT_HANDLE \<Rightarrow> SK_ATTRIBUTE list \<Rightarrow> 't \<Rightarrow> (SK_RET_CODE \<times> SK_ATTRIBUTE list \<times> 't) option"
  SK_Sign_fn :: "u32 \<Rightarrow> SK_OBJECT_HANDLE \<Rightarrow> byte list \<Rightarrow> buffer \<Rightarrow> u16 \<Rightarrow> 't \<Rightarrow> (SK_RET_CODE \<times> buffer \<times> u16 \<times> 't) option"
  SK_Decrypt_fn :: "u32 \<Rightarrow> SK_OBJECT_HANDLE \<Rightarrow> byte list \<Rightarrow> buffer \<Rightarrow> u16 \<Rightarrow> 't \<Rightarrow> (SK_RET_CODE \<times> buffer \<times> u16 \<times> 't) option"
  SK_Digest_fn :: "u32 \<Rightarrow> byte list \<Rightarrow> buffer \<Rightarrow> u16 \<Rightarrow> 't \<Rightarrow> (SK_RET_CODE \<times> buffer \<times> u16 \<times> 't) option"

text \<open>
  What the documentation of \<open>SK_GetObjectAttribute\<close> (\<open>securekey_api.h\<close>, 180-198) promises for an
  object whose attributes are \<open>tok\<close>. A request names a type and either no buffer or a buffer whose
  size is in \<open>valueLen\<close>. It can be answered when the object has the attribute and the buffer, if there
  is one, is large enough; then \<open>valueLen\<close> becomes the exact length of the value, and the value is
  copied into the buffer. Otherwise the call does not return \<open>SKR_OK\<close>: a short buffer is
  \<open>SKR_ERR_SHORT_BUFFER\<close>, with the exact length in \<open>valueLen\<close>, and for an attribute the object lacks the
  trusted application reports bad parameters.
\<close>

definition sk_request :: "SK_ATTRIBUTE \<Rightarrow> bool" where
  "sk_request a = (case sk_value a of None \<Rightarrow> True | Some b \<Rightarrow> length b = unat (sk_valueLen a))"

definition sk_fits :: "(u32 \<Rightarrow> byte list option) \<Rightarrow> SK_ATTRIBUTE \<Rightarrow> bool" where
  "sk_fits tok a =
     (case tok (sk_type a) of
        None \<Rightarrow> False
      | Some v \<Rightarrow> sk_value a = None \<or> length v \<le> unat (sk_valueLen a))"

definition sk_answer :: "(u32 \<Rightarrow> byte list option) \<Rightarrow> SK_ATTRIBUTE \<Rightarrow> SK_ATTRIBUTE" where
  "sk_answer tok a =
     (case tok (sk_type a) of
        None \<Rightarrow> a
      | Some v \<Rightarrow>
         (case sk_value a of
            None \<Rightarrow> a\<lparr>sk_valueLen := of_nat (length v)\<rparr>
          | Some b \<Rightarrow>
             if length v \<le> unat (sk_valueLen a) \<and> length v \<le> length b
             then a\<lparr>sk_value := Some (v @ drop (length v) b), sk_valueLen := of_nat (length v)\<rparr>
             else a\<lparr>sk_valueLen := of_nat (length v)\<rparr>))"

section \<open>Attributes, objects and sessions\<close>

record CK_ATTRIBUTE =
  attr_type :: CK_ATTRIBUTE_TYPE
  pValue :: buffer
  ulValueLen :: u64

type_synonym template_list = "CK_ATTRIBUTE list"

text \<open>\<open>OBJECT\<close> of \<open>objects.h\<close>.\<close>

record OBJECT =
  sk_obj_handle :: SK_OBJECT_HANDLE
  obj_class :: u64
  obj_subclass :: u64
  obj_template :: template_list
  obj_slotID :: CK_SLOT_ID

record CK_SESSION_INFO =
  si_slotID :: CK_SLOT_ID
  si_state :: u64
  si_flags :: u64
  si_ulDeviceError :: u64

record CK_MECHANISM =
  mechanism :: CK_MECHANISM_TYPE
  pParameter :: buffer
  ulParameterLen :: u64

text \<open>\<open>sign_verify_context\<close> and \<open>session\<close> of \<open>sessions.h\<close>; \<open>find_list\<close> is the address of a
  block of handles, 0 for \<open>NULL\<close>.\<close>

record sign_verify_context =
  ctx_key :: CK_OBJECT_HANDLE
  ctx_mech :: CK_MECHANISM
  ctx_context :: buffer
  ctx_context_len :: u64
  ctx_multi :: bool
  ctx_recover :: bool
  ctx_active :: bool

record session =
  session_info :: CK_SESSION_INFO
  find_list :: u64
  find_count :: u64
  find_idx :: u64
  op_active :: bool
  sign_ctx :: sign_verify_context

section \<open>The heap and the global state\<close>

text \<open>
  The heap names blocks by identity: a freed block stays in the map as \<open>FreedBlk\<close>, so that a
  dangling pointer is never confused with a block allocated later, and every use of it is an
  undefined access.
\<close>

datatype block = SessionBlk session | ObjectBlk OBJECT | HandleBlk "CK_OBJECT_HANDLE list" | FreedBlk

type_synonym heap = "u64 \<rightharpoonup> block"

definition session_of :: "block option \<Rightarrow> session option" where
  "session_of b = (case b of Some (SessionBlk x) \<Rightarrow> Some x | _ \<Rightarrow> None)"

definition object_of :: "block option \<Rightarrow> OBJECT option" where
  "object_of b = (case b of Some (ObjectBlk x) \<Rightarrow> Some x | _ \<Rightarrow> None)"

definition handles_of :: "block option \<Rightarrow> CK_OBJECT_HANDLE list option" where
  "handles_of b = (case b of Some (HandleBlk x) \<Rightarrow> Some x | _ \<Rightarrow> None)"

text \<open>\<open>free\<close> of a block that is not live is undefined.\<close>

definition free_block :: "u64 \<Rightarrow> heap \<Rightarrow> heap option" where
  "free_block a m = (case m a of None \<Rightarrow> None | Some FreedBlk \<Rightarrow> None | Some _ \<Rightarrow> Some (m(a \<mapsto> FreedBlk)))"

record CK_VERSION =
  major :: byte
  minor :: byte

record CK_INFO =
  cryptokiVersion :: CK_VERSION
  ci_manufacturerID :: "byte list"
  ci_flags :: u64
  libraryDescription :: "byte list"
  libraryVersion :: CK_VERSION

text \<open>Which locking callbacks are in force: the library's own (\<open>default_locks\<close> of \<open>general.c\<close>) or
  the application's.\<close>

datatype locking = default_mutex_functions | application_mutex_functions

text \<open>
  The global variables of the library. \<open>global_lock\<close> is \<open>None\<close> for \<open>NULL\<close> and otherwise tells
  whether the mutex is held; \<open>sk_funcs\<close> and \<open>shared_lib_handle\<close> tell whether the pointers of the
  slot are set. \<open>mallocs\<close> and \<open>callbacks\<close> count the calls made to the allocator and to the
  application's mutex callbacks, and \<open>tee\<close> is the state behind the function list.
\<close>

record 't lib =
  initialized :: bool
  global_locking :: "locking option"
  global_lock :: "bool option"
  slot_id :: CK_SLOT_ID
  obj_list :: "CK_OBJECT_HANDLE list"
  sess_list :: "CK_SESSION_HANDLE list"
  sk_funcs :: bool
  shared_lib_handle :: bool
  cryptoki_info :: CK_INFO
  mem :: heap
  mallocs :: nat
  callbacks :: nat
  tee :: 't

text \<open>The library as it is loaded: static storage is zero.\<close>

definition zero_info :: CK_INFO where
  "zero_info = \<lparr>cryptokiVersion = \<lparr>major = 0, minor = 0\<rparr>, ci_manufacturerID = replicate 32 0, ci_flags = 0,
     libraryDescription = replicate 32 0, libraryVersion = \<lparr>major = 0, minor = 0\<rparr>\<rparr>"

definition initial_lib :: "'t \<Rightarrow> 't lib" where
  "initial_lib t = \<lparr>initialized = False, global_locking = None, global_lock = None, slot_id = 0,
     obj_list = [], sess_list = [], sk_funcs = False, shared_lib_handle = False,
     cryptoki_info = zero_info, mem = Map.empty, mallocs = 0, callbacks = 0, tee = t\<rparr>"

text \<open>
  What the library calls but does not contain: the allocator (its answer to the \<open>n\<close>-th call when
  the given addresses are in use, and the bytes it leaves in that block), the dynamic linker, what
  \<open>SK_GetFunctionList\<close> returns, the application's mutex callbacks (their answer to the \<open>n\<close>-th call) and the function list.
\<close>

record 't env =
  malloc :: "nat \<Rightarrow> u64 set \<Rightarrow> u64 option"
  fill :: "nat \<Rightarrow> nat \<Rightarrow> byte"
  dlopen :: bool
  dlsym :: bool
  SK_GetFunctionList_rc :: SK_RET_CODE
  app_CreateMutex :: "CK_RV \<times> bool"
  app_LockMutex :: "nat \<Rightarrow> CK_RV"
  app_UnlockMutex :: "nat \<Rightarrow> CK_RV"
  sk_fns :: "'t SK_FUNCTION_LIST"

text \<open>What ISO C promises of \<open>malloc\<close>: a block it returns is not null and is a new one.\<close>

definition malloc_ok :: "'t env \<Rightarrow> bool" where
  "malloc_ok E \<longleftrightarrow> (\<forall>n L a. malloc E n L = Some a \<longrightarrow> a \<noteq> 0 \<and> a \<notin> L)"

definition do_malloc :: "'t env \<Rightarrow> 't lib \<Rightarrow> u64 option \<times> 't lib" where
  "do_malloc E s = (malloc E (mallocs s) (dom (mem s)), s\<lparr>mallocs := Suc (mallocs s)\<rparr>)"

text \<open>A group of \<open>k\<close> allocations made before any of them is checked: whether all succeeded.\<close>

definition do_mallocs :: "'t env \<Rightarrow> nat \<Rightarrow> 't lib \<Rightarrow> bool \<times> 't lib" where
  "do_mallocs E k s =
     (list_all (\<lambda>i. malloc E (mallocs s + i) (dom (mem s)) \<noteq> None) [0..<k],
      s\<lparr>mallocs := mallocs s + k\<rparr>)"

text \<open>The contents of a block of \<open>n\<close> bytes fresh from the allocator.\<close>

definition fresh_bytes :: "'t env \<Rightarrow> 't lib \<Rightarrow> nat \<Rightarrow> byte list" where
  "fresh_bytes E s n = map (fill E (mallocs s)) [0..<n]"

lemma length_fresh_bytes [simp]: "length (fresh_bytes E s n) = n"
  by (simp add: fresh_bytes_def)

text \<open>\<open>get_global_slot_info\<close>: only slot 0 exists. The slot's fields are those of the state.\<close>

definition get_global_slot_info :: "CK_SLOT_ID \<Rightarrow> bool" where
  "get_global_slot_info slotID \<longleftrightarrow> slotID = TEE_SLOT_ID"

definition get_slot_function_list :: "'t env \<Rightarrow> 't lib \<Rightarrow> CK_SLOT_ID \<Rightarrow> 't SK_FUNCTION_LIST option" where
  "get_slot_function_list E s slotID =
     (if slotID \<noteq> TEE_SLOT_ID then None
      else if \<not> get_global_slot_info slotID then None
      else if sk_funcs s then Some (sk_fns E) else None)"

section \<open>Heap lemmas\<close>

lemma do_malloc_state: "do_malloc E s = (r, s') \<Longrightarrow> s' = s\<lparr>mallocs := Suc (mallocs s)\<rparr>"
  by (simp add: do_malloc_def)

lemma do_mallocs_state: "do_mallocs E k s = (ok, s') \<Longrightarrow> s' = s\<lparr>mallocs := mallocs s + k\<rparr>"
  by (simp add: do_mallocs_def)

lemma block_of_simps [simp]:
  "session_of (Some (SessionBlk x)) = Some x" "session_of (Some (ObjectBlk y)) = None"
  "session_of (Some (HandleBlk z)) = None" "session_of (Some FreedBlk) = None" "session_of None = None"
  "object_of (Some (SessionBlk x)) = None" "object_of (Some (ObjectBlk y)) = Some y"
  "object_of (Some (HandleBlk z)) = None" "object_of (Some FreedBlk) = None" "object_of None = None"
  "handles_of (Some (SessionBlk x)) = None" "handles_of (Some (ObjectBlk y)) = None"
  "handles_of (Some (HandleBlk z)) = Some z" "handles_of (Some FreedBlk) = None" "handles_of None = None"
  by (simp_all add: session_of_def object_of_def handles_of_def)

lemma block_of_SomeD:
  "session_of b = Some x \<Longrightarrow> b = Some (SessionBlk x)"
  "object_of b = Some y \<Longrightarrow> b = Some (ObjectBlk y)"
  "handles_of b = Some z \<Longrightarrow> b = Some (HandleBlk z)"
  by (auto simp: session_of_def object_of_def handles_of_def split: option.splits block.splits)

lemma free_block_SomeD: "free_block a m = Some m' \<Longrightarrow> m' = m(a \<mapsto> FreedBlk)"
  by (auto simp: free_block_def split: option.splits block.splits)

lemma malloc_okD:
  assumes "malloc_ok E" and "do_malloc E s = (Some a, s')"
  shows "a \<noteq> 0" and "mem s a = None"
  using assms by (auto simp: malloc_ok_def do_malloc_def)

end
