(* ===== verification/Tee_Slot.thy ===== *)
theory Tee_Slot
  imports Cryptoki
begin

text \<open>
  The only slot of the library: \<open>src/tee_slot.c\<close>. The information records are blank-padded byte
  arrays; the mechanism table is a constant of six entries.
\<close>

section \<open>Data\<close>

record CK_MECHANISM_INFO =
  ulMinKeySize :: u64
  ulMaxKeySize :: u64
  mi_flags :: u64

record CK_SLOT_INFO =
  slotDescription :: "byte list"
  sl_manufacturerID :: "byte list"
  sl_flags :: u64
  sl_hardwareVersion :: CK_VERSION
  sl_firmwareVersion :: CK_VERSION

record CK_TOKEN_INFO =
  label :: "byte list"
  tk_manufacturerID :: "byte list"
  model :: "byte list"
  serialNumber :: "byte list"
  tk_flags :: u64
  ulMaxSessionCount :: u64
  ulSessionCount :: u64
  ulMaxRwSessionCount :: u64
  ulRwSessionCount :: u64
  ulMaxPinLen :: u64
  ulMinPinLen :: u64
  ulTotalPublicMemory :: u64
  ulFreePublicMemory :: u64
  ulTotalPrivateMemory :: u64
  ulFreePrivateMemory :: u64
  tk_hardwareVersion :: CK_VERSION
  tk_firmwareVersion :: CK_VERSION
  utcTime :: "byte list"

abbreviation (input) MAX_MECHANISM_COUNT :: u64 where "MAX_MECHANISM_COUNT \<equiv> 6"

definition sign_info :: CK_MECHANISM_INFO where
  "sign_info = \<lparr>ulMinKeySize = 512, ulMaxKeySize = 2048, mi_flags = CKF_SIGN\<rparr>"

definition tee_mechanisms :: "(CK_MECHANISM_TYPE \<times> CK_MECHANISM_INFO) list" where
  "tee_mechanisms =
    [(CKM_RSA_PKCS, sign_info), (CKM_MD5_RSA_PKCS, sign_info), (CKM_SHA1_RSA_PKCS, sign_info),
     (CKM_SHA256_RSA_PKCS, sign_info), (CKM_SHA384_RSA_PKCS, sign_info), (CKM_SHA512_RSA_PKCS, sign_info)]"

text \<open>\<open>memset\<close> of a field with blanks, then \<open>strncpy\<close> of a shorter string without its terminator.\<close>

definition ascii :: "string \<Rightarrow> byte list" where
  "ascii str = map (\<lambda>c. of_nat (of_char c)) str"

definition blank_padded :: "nat \<Rightarrow> string \<Rightarrow> byte list" where
  "blank_padded n str = ascii str @ replicate (n - length str) 0x20"

section \<open>Operations\<close>

definition Get_TEE_SlotInfo :: "CK_SLOT_INFO \<Rightarrow> CK_RV \<times> CK_SLOT_INFO" where
  "Get_TEE_SlotInfo pInfo = (CKR_OK, pInfo
     \<lparr>slotDescription := blank_padded 64 ''TEE_BASED_SLOT'',
      sl_manufacturerID := blank_padded 32 ''NXP'',
      sl_flags := CKF_TOKEN_PRESENT,
      sl_hardwareVersion := \<lparr>major = 0, minor = 0\<rparr>,
      sl_firmwareVersion := \<lparr>major = 0, minor = 0\<rparr>\<rparr>)"

definition Get_TEE_TokenInfo :: "CK_TOKEN_INFO \<Rightarrow> CK_RV \<times> CK_TOKEN_INFO" where
  "Get_TEE_TokenInfo pInfo = (CKR_OK, pInfo
     \<lparr>label := blank_padded 32 ''TEE_BASED_TOKEN'',
      tk_manufacturerID := blank_padded 32 ''NXP'',
      model := blank_padded 16 [],
      serialNumber := blank_padded 16 ''1'',
      tk_flags := CKF_WRITE_PROTECTED OR CKF_TOKEN_INITIALIZED,
      ulMaxSessionCount := CK_UNAVAILABLE_INFORMATION,
      ulSessionCount := CK_UNAVAILABLE_INFORMATION,
      ulMaxRwSessionCount := CK_UNAVAILABLE_INFORMATION,
      ulRwSessionCount := CK_UNAVAILABLE_INFORMATION,
      ulMaxPinLen := 0,
      ulMinPinLen := 0,
      ulTotalPublicMemory := CK_UNAVAILABLE_INFORMATION,
      ulFreePublicMemory := CK_UNAVAILABLE_INFORMATION,
      ulTotalPrivateMemory := CK_UNAVAILABLE_INFORMATION,
      ulFreePrivateMemory := CK_UNAVAILABLE_INFORMATION,
      tk_hardwareVersion := \<lparr>major = 0, minor = 0\<rparr>,
      tk_firmwareVersion := \<lparr>major = 0, minor = 0\<rparr>,
      utcTime := replicate 16 0x30\<rparr>)"

text \<open>The caller's array and the count it passes in; \<open>None\<close> for a null array.\<close>

definition Get_TEE_MechanismList ::
    "CK_MECHANISM_TYPE list option \<Rightarrow> u64 \<Rightarrow> (CK_RV \<times> CK_MECHANISM_TYPE list option \<times> u64) option" where
  "Get_TEE_MechanismList pMechanismList count =
     (case pMechanismList of
        None \<Rightarrow> Some (CKR_OK, None, MAX_MECHANISM_COUNT)
      | Some l \<Rightarrow>
          if count < MAX_MECHANISM_COUNT then Some (CKR_BUFFER_TOO_SMALL, Some l, MAX_MECHANISM_COUNT)
          else if length l < length tee_mechanisms then None
          else Some (CKR_OK, Some (map fst tee_mechanisms @ drop (length tee_mechanisms) l), MAX_MECHANISM_COUNT))"

definition Get_TEE_MechanismInfo :: "CK_MECHANISM_TYPE \<Rightarrow> CK_MECHANISM_INFO \<Rightarrow> CK_RV \<times> CK_MECHANISM_INFO" where
  "Get_TEE_MechanismInfo ty pInfo =
     (case List.find (\<lambda>m. fst m = ty) tee_mechanisms of
        Some m \<Rightarrow> (CKR_OK, snd m)
      | None \<Rightarrow> (CKR_MECHANISM_INVALID, pInfo))"

section \<open>Properties of the slot\<close>

text \<open>
  The two-call protocol for the mechanism list works and agrees with the mechanism information.
  The size query returns a count; an array of that count is filled with as many mechanisms, all
  different; and \<open>Get_TEE_MechanismInfo\<close> accepts exactly the listed mechanisms, each usable for
  signing with keys of 512 to 2048 bits.
\<close>

theorem mechanism_list_protocol:
  "\<exists>n. Get_TEE_MechanismList None c = Some (CKR_OK, None, n) \<and>
     (\<forall>buf. length buf = unat n \<longrightarrow> (\<exists>ms. Get_TEE_MechanismList (Some buf) n = Some (CKR_OK, Some ms, n) \<and>
        length ms = unat n \<and> distinct ms \<and>
        (\<forall>ty info. fst (Get_TEE_MechanismInfo ty info) = CKR_OK \<longleftrightarrow> ty \<in> set ms) \<and>
        (\<forall>ty \<in> set ms. \<forall>info. Get_TEE_MechanismInfo ty info = (CKR_OK, sign_info)))) \<and>
     (\<forall>buf m. m < n \<longrightarrow> Get_TEE_MechanismList (Some buf) m = Some (CKR_BUFFER_TOO_SMALL, Some buf, n))"
proof (intro exI [of _ 6] conjI allI impI)
  fix buf :: "u64 list"
  assume l: "length buf = unat (6 :: u64)"
  show "\<exists>ms. Get_TEE_MechanismList (Some buf) 6 = Some (CKR_OK, Some ms, 6) \<and> length ms = unat (6 :: u64) \<and>
      distinct ms \<and> (\<forall>ty info. fst (Get_TEE_MechanismInfo ty info) = CKR_OK \<longleftrightarrow> ty \<in> set ms) \<and>
      (\<forall>ty \<in> set ms. \<forall>info. Get_TEE_MechanismInfo ty info = (CKR_OK, sign_info))"
    using l by (intro exI [of _ "map fst tee_mechanisms"])
      (auto simp: Get_TEE_MechanismList_def Get_TEE_MechanismInfo_def tee_mechanisms_def)
qed (auto simp: Get_TEE_MechanismList_def)

theorem mechanism_list_protocol_witness:
  "\<exists>ms. Get_TEE_MechanismList (Some [0, 0, 0, 0, 0, 0]) 6 = Some (CKR_OK, Some ms, 6) \<and> distinct ms"
proof -
  obtain n where n: "Get_TEE_MechanismList None 0 = Some (CKR_OK, None, n)"
    and b: "\<forall>buf. length buf = unat n \<longrightarrow> (\<exists>ms. Get_TEE_MechanismList (Some buf) n = Some (CKR_OK, Some ms, n) \<and> distinct ms)"
    using mechanism_list_protocol [of 0] by metis
  have "n = 6" using n by (simp add: Get_TEE_MechanismList_def)
  with b [rule_format, of "[0, 0, 0, 0, 0, 0]"] show ?thesis by simp
qed

end
