(* ===== verification/Sample.thy ===== *)
theory Sample
  imports Cryptoki
begin

text \<open>
  A concrete environment, for the witnesses of the development: an allocator that hands out the
  first unused multiple of 16, mutex callbacks that succeed at once, and a token that holds one
  512-bit RSA key pair under the handle 7.
\<close>

definition sample_malloc :: "nat \<Rightarrow> u64 set \<Rightarrow> u64 option" where
  "sample_malloc n L = List.find (\<lambda>a. a \<notin> L) [16, 32, 48, 64, 80, 96, 112, 128]"

definition sample_attr :: "u32 \<Rightarrow> byte list option" where
  "sample_attr ty =
     (if ty = SK_ATTR_OBJECT_TYPE then Some (put_u32 SK_KEY_PAIR)
      else if ty = SK_ATTR_KEY_TYPE then Some (put_u32 SKK_RSA)
      else if ty = SK_ATTR_OBJECT_LABEL then Some [0x6B, 0x31]
      else if ty = SK_ATTR_OBJECT_INDEX then Some (put_u32 1)
      else if ty = SK_ATTR_MODULUS then Some (replicate 64 0xA5)
      else if ty = SK_ATTR_PUBLIC_EXPONENT then Some [1, 0, 1]
      else if ty = SK_ATTR_MODULUS_BITS then Some (put_u32 512)
      else None)"

text \<open>The cryptographic entries return the input, padded or cut to 64 bytes, as the result.\<close>

definition sample_crypt :: "byte list \<Rightarrow> buffer \<Rightarrow> u16 \<Rightarrow> unit \<Rightarrow> (SK_RET_CODE \<times> buffer \<times> u16 \<times> unit) option" where
  "sample_crypt inp out n t =
     (if unat n < 64 then Some (SKR_ERR_SHORT_BUFFER, out, 64, t)
      else do { out' \<leftarrow> write_bytes out (take 64 (inp @ replicate 64 0)); Some (SKR_OK, out', 64, t) })"

text \<open>An attribute query succeeds when every request can be answered.\<close>

definition sample_attributes ::
    "SK_ATTRIBUTE list \<Rightarrow> unit \<Rightarrow> (SK_RET_CODE \<times> SK_ATTRIBUTE list \<times> unit) option" where
  "sample_attributes as t =
     Some (if list_all (sk_fits sample_attr) as then (SKR_OK, map (sk_answer sample_attr) as, t)
       else if list_all (\<lambda>a. sample_attr (sk_type a) \<noteq> None) as then (SKR_ERR_SHORT_BUFFER, as, t)
       else (SKR_ERR_BAD_PARAMETERS, as, t))"

definition sample_functions :: "unit SK_FUNCTION_LIST" where
  "sample_functions =
     \<lparr>SK_EnumerateObjects_fn = (\<lambda>as n t. Some (SKR_OK, [7], t)),
      SK_GetObjectAttribute_fn = (\<lambda>h. sample_attributes),
      SK_Sign_fn = (\<lambda>m h. sample_crypt),
      SK_Decrypt_fn = (\<lambda>m h. sample_crypt),
      SK_Digest_fn = (\<lambda>m. sample_crypt)\<rparr>"

definition sample_env :: "unit env" where
  "sample_env =
     \<lparr>malloc = sample_malloc, fill = (\<lambda>n i. 0), dlopen = True, dlsym = True, SK_GetFunctionList_rc = SKR_OK,
      app_CreateMutex = (CKR_OK, True), app_LockMutex = (\<lambda>n. CKR_OK), app_UnlockMutex = (\<lambda>n. CKR_OK),
      sk_fns = sample_functions\<rparr>"

lemma sample_malloc_ok [simp]: "malloc_ok sample_env"
  by (auto simp: malloc_ok_def sample_env_def sample_malloc_def dest: find_SomeD)

end
