(* ===== verification/Template.thy ===== *)
theory Template
  imports Sample
begin

text \<open>
  Object templates: the attribute lists of \<open>src/objects.c\<close> and the operations on them, from
  \<open>p11_is_attribute_defined\<close> to \<open>check_attr_exportability\<close>.

  A template is the list of the attributes its nodes carry, head first. The pointers to the list and
  to the node that the code checks for \<open>NULL\<close> are addresses of fields or of nodes just allocated at
  every call site, so the model takes the list and the attribute themselves. The locale
  \<open>attr_store\<close> states what the rest of the library relies on: an update is seen by the next
  lookup of its type and by no other, so a template behaves as a finite map from attribute types.
\<close>

section \<open>Attributes\<close>

definition defined_attributes :: "CK_ATTRIBUTE_TYPE list" where
  "defined_attributes =
    [CKA_CLASS, CKA_TOKEN, CKA_PRIVATE, CKA_LABEL, CKA_APPLICATION, CKA_VALUE,
     CKA_CERTIFICATE_TYPE, CKA_ISSUER, CKA_SERIAL_NUMBER, CKA_KEY_TYPE, CKA_ID, CKA_SUBJECT,
     CKA_SENSITIVE, CKA_DECRYPT, CKA_ENCRYPT, CKA_WRAP, CKA_SIGN, CKA_UNWRAP, CKA_SIGN_RECOVER,
     CKA_VERIFY, CKA_DERIVE, CKA_VERIFY_RECOVER, CKA_START_DATE, CKA_END_DATE, CKA_PRIME, CKA_BASE,
     CKA_SUBPRIME, CKA_VALUE_BITS, CKA_EXTRACTABLE, CKA_LOCAL, CKA_VALUE_LEN,
     CKA_NEVER_EXTRACTABLE, CKA_MODIFIABLE, CKA_ECDSA_PARAMS, CKA_ALWAYS_SENSITIVE, CKA_EC_POINT,
     CKA_HW_FEATURE_TYPE, CKA_RESET_ON_INIT, CKA_KEY_GEN_MECHANISM, CKA_HAS_RESET, CKA_PRIME_BITS,
     CKA_OBJECT_ID, CKA_SUBPRIME_BITS, CKA_AC_ISSUER, CKA_ATTR_TYPES, CKA_OWNER, CKA_TRUSTED,
     CKA_MODULUS_BITS, CKA_MODULUS, CKA_PUBLIC_EXPONENT, CKA_PRIVATE_EXPONENT, CKA_PRIME_2,
     CKA_EXPONENT_1, CKA_PRIME_1, CKA_COEFFICIENT, CKA_EXPONENT_2]"

definition p11_is_attribute_defined :: "CK_ATTRIBUTE_TYPE \<Rightarrow> bool" where
  "p11_is_attribute_defined ty =
     (if CKA_VENDOR_DEFINED \<le> ty then True else ty \<in> set defined_attributes)"

definition p11_template_update_attr :: "CK_ATTRIBUTE \<Rightarrow> template_list \<Rightarrow> template_list" where
  "p11_template_update_attr new tmpl =
     new # remove_first (\<lambda>a. attr_type a = attr_type new) tmpl"

definition p11_template_check_attr :: "template_list \<Rightarrow> CK_ATTRIBUTE_TYPE \<Rightarrow> CK_ATTRIBUTE option" where
  "p11_template_check_attr tmpl ty = List.find (\<lambda>a. attr_type a = ty) tmpl"

text \<open>The three shapes of default attribute: a \<open>CK_BBOOL\<close>, a \<open>CK_ULONG\<close>, an empty value.\<close>

definition bool_attr :: "CK_ATTRIBUTE_TYPE \<Rightarrow> byte \<Rightarrow> CK_ATTRIBUTE" where
  "bool_attr ty b = \<lparr>attr_type = ty, pValue = Some [b], ulValueLen = 1\<rparr>"

definition ulong_attr :: "CK_ATTRIBUTE_TYPE \<Rightarrow> u64 \<Rightarrow> CK_ATTRIBUTE" where
  "ulong_attr ty v = \<lparr>attr_type = ty, pValue = Some (put_u64 v), ulValueLen = 8\<rparr>"

definition empty_attr :: "CK_ATTRIBUTE_TYPE \<Rightarrow> CK_ATTRIBUTE" where
  "empty_attr ty = \<lparr>attr_type = ty, pValue = None, ulValueLen = 0\<rparr>"

section \<open>Default attributes\<close>

definition key_object_defaults :: "CK_ATTRIBUTE list" where
  "key_object_defaults =
    [empty_attr CKA_START_DATE, bool_attr CKA_DERIVE CK_FALSE, empty_attr CKA_END_DATE,
     bool_attr CKA_LOCAL CK_FALSE]"

definition key_object_set_default_attr ::
    "'t env \<Rightarrow> template_list \<Rightarrow> 't lib \<Rightarrow> CK_RV \<times> template_list \<times> 't lib" where
  "key_object_set_default_attr E tmpl s =
     (let (ok, s1) = do_mallocs E 8 s in
      if \<not> ok then (CKR_HOST_MEMORY, tmpl, s1)
      else (CKR_OK, fold p11_template_update_attr key_object_defaults tmpl, s1))"

definition pubk_defaults :: "CK_ATTRIBUTE list" where
  "pubk_defaults =
    [ulong_attr CKA_CLASS CKO_PUBLIC_KEY, empty_attr CKA_SUBJECT, bool_attr CKA_ENCRYPT CK_TRUE,
     bool_attr CKA_VERIFY CK_FALSE, bool_attr CKA_VERIFY_RECOVER CK_FALSE,
     bool_attr CKA_WRAP CK_FALSE, bool_attr CKA_TRUSTED CK_FALSE, empty_attr CKA_WRAP_TEMPLATE]"

definition pubk_add_default_attr ::
    "'t env \<Rightarrow> template_list \<Rightarrow> 't lib \<Rightarrow> CK_RV \<times> template_list \<times> 't lib" where
  "pubk_add_default_attr E tmpl s =
     (let (rc, tmpl1, s1) = key_object_set_default_attr E tmpl s in
      if rc \<noteq> CKR_OK then (rc, tmpl1, s1)
      else let (ok, s2) = do_mallocs E 16 s1 in
      if \<not> ok then (CKR_HOST_MEMORY, tmpl1, s2)
      else (CKR_OK, fold p11_template_update_attr pubk_defaults tmpl1, s2))"

definition rsa_pubk_defaults :: "CK_ATTRIBUTE list" where
  "rsa_pubk_defaults =
    [ulong_attr CKA_KEY_TYPE CKK_RSA, empty_attr CKA_KEY_GEN_MECHANISM,
     empty_attr CKA_ALLOWED_MECHANISMS]"

definition rsa_pubk_add_default_attr ::
    "'t env \<Rightarrow> template_list \<Rightarrow> 't lib \<Rightarrow> CK_RV \<times> template_list \<times> 't lib" where
  "rsa_pubk_add_default_attr E tmpl s =
     (let (rc, tmpl1, s1) = pubk_add_default_attr E tmpl s in
      if rc \<noteq> CKR_OK then (rc, tmpl1, s1)
      else let (ok, s2) = do_mallocs E 6 s1 in
      if \<not> ok then (CKR_HOST_MEMORY, tmpl1, s2)
      else (CKR_OK, fold p11_template_update_attr rsa_pubk_defaults tmpl1, s2))"

definition privk_defaults :: "CK_ATTRIBUTE list" where
  "privk_defaults =
    [ulong_attr CKA_CLASS CKO_PRIVATE_KEY, empty_attr CKA_SUBJECT,
     bool_attr CKA_SENSITIVE CK_TRUE, bool_attr CKA_DECRYPT CK_FALSE, bool_attr CKA_SIGN CK_TRUE,
     bool_attr CKA_SIGN_RECOVER CK_FALSE, bool_attr CKA_UNWRAP CK_FALSE,
     bool_attr CKA_EXTRACTABLE CK_FALSE, bool_attr CKA_NEVER_EXTRACTABLE CK_TRUE,
     bool_attr CKA_ALWAYS_SENSITIVE CK_TRUE, bool_attr CKA_WRAP_WITH_TRUSTED CK_FALSE,
     empty_attr CKA_UNWRAP_TEMPLATE, bool_attr CKA_ALWAYS_AUTHENTICATE CK_FALSE]"

definition privk_add_default_attr ::
    "'t env \<Rightarrow> template_list \<Rightarrow> 't lib \<Rightarrow> CK_RV \<times> template_list \<times> 't lib" where
  "privk_add_default_attr E tmpl s =
     (let (rc, tmpl1, s1) = key_object_set_default_attr E tmpl s in
      if rc \<noteq> CKR_OK then (rc, tmpl1, s1)
      else let (ok, s2) = do_mallocs E 26 s1 in
      if \<not> ok then (CKR_HOST_MEMORY, tmpl1, s2)
      else (CKR_OK, fold p11_template_update_attr privk_defaults tmpl1, s2))"

text \<open>The mechanisms an RSA private key allows, an array of \<open>CK_MECHANISM_TYPE\<close>.\<close>

definition rsa_priv_key_mechs :: "CK_MECHANISM_TYPE list" where
  "rsa_priv_key_mechs =
    [CKM_RSA_PKCS, CKM_MD5_RSA_PKCS, CKM_SHA1_RSA_PKCS, CKM_SHA224_RSA_PKCS, CKM_SHA256_RSA_PKCS,
     CKM_SHA384_RSA_PKCS, CKM_SHA512_RSA_PKCS]"

definition rsa_privk_defaults :: "CK_ATTRIBUTE list" where
  "rsa_privk_defaults =
    [ulong_attr CKA_KEY_TYPE CKK_RSA, empty_attr CKA_KEY_GEN_MECHANISM,
     \<lparr>attr_type = CKA_ALLOWED_MECHANISMS,
      pValue = Some (concat (map put_u64 rsa_priv_key_mechs)), ulValueLen = 56\<rparr>]"

definition rsa_privk_add_default_attr ::
    "'t env \<Rightarrow> template_list \<Rightarrow> 't lib \<Rightarrow> CK_RV \<times> template_list \<times> 't lib" where
  "rsa_privk_add_default_attr E tmpl s =
     (let (rc, tmpl1, s1) = privk_add_default_attr E tmpl s in
      if rc \<noteq> CKR_OK then (rc, tmpl1, s1)
      else let (ok, s2) = do_mallocs E 6 s1 in
      if \<not> ok then (CKR_HOST_MEMORY, tmpl1, s2)
      else (CKR_OK, fold p11_template_update_attr rsa_privk_defaults tmpl1, s2))"

definition common_defaults :: "CK_ATTRIBUTE list" where
  "common_defaults =
    [bool_attr CKA_TOKEN CK_TRUE, bool_attr CKA_MODIFIABLE CK_FALSE, bool_attr CKA_PRIVATE CK_FALSE]"

definition p11_template_add_default_common_attr ::
    "'t env \<Rightarrow> template_list \<Rightarrow> 't lib \<Rightarrow> CK_RV \<times> template_list \<times> 't lib" where
  "p11_template_add_default_common_attr E tmpl s =
     (let (ok, s1) = do_mallocs E 6 s in
      if \<not> ok then (CKR_HOST_MEMORY, tmpl, s1)
      else (CKR_OK, fold p11_template_update_attr common_defaults tmpl, s1))"

definition p11_template_add_default_attr ::
    "'t env \<Rightarrow> OBJECT \<Rightarrow> 't lib \<Rightarrow> CK_RV \<times> OBJECT \<times> 't lib" where
  "p11_template_add_default_attr E obj s =
     (let (rc, tmpl1, s1) = p11_template_add_default_common_attr E (obj_template obj) s in
      if rc \<noteq> CKR_OK then (rc, obj\<lparr>obj_template := tmpl1\<rparr>, s1)
      else if obj_class obj = CKO_PUBLIC_KEY then
        (if obj_subclass obj = CKK_RSA then
           let (rc2, tmpl2, s2) = rsa_pubk_add_default_attr E tmpl1 s1
           in (rc2, obj\<lparr>obj_template := tmpl2\<rparr>, s2)
         else (CKR_ATTRIBUTE_VALUE_INVALID, obj\<lparr>obj_template := tmpl1\<rparr>, s1))
      else if obj_class obj = CKO_PRIVATE_KEY then
        (if obj_subclass obj = CKK_RSA then
           let (rc2, tmpl2, s2) = rsa_privk_add_default_attr E tmpl1 s1
           in (rc2, obj\<lparr>obj_template := tmpl2\<rparr>, s2)
         else (CKR_ATTRIBUTE_VALUE_INVALID, obj\<lparr>obj_template := tmpl1\<rparr>, s1))
      else (CKR_ATTRIBUTE_VALUE_INVALID, obj\<lparr>obj_template := tmpl1\<rparr>, s1))"

section \<open>Adding and comparing attributes\<close>

text \<open>The loop of \<open>p11_template_add_attr\<close> over the attributes it is given.\<close>

primrec p11_template_add_attr ::
    "'t env \<Rightarrow> CK_ATTRIBUTE list \<Rightarrow> template_list \<Rightarrow> 't lib \<Rightarrow> (CK_RV \<times> template_list \<times> 't lib) option" where
  "p11_template_add_attr E [] tmpl s = Some (CKR_OK, tmpl, s)"
| "p11_template_add_attr E (p # ps) tmpl s =
     (if \<not> p11_is_attribute_defined (attr_type p) then p11_template_add_attr E ps tmpl s
      else let (a, s1) = do_malloc E s in
      if a = None then Some (CKR_HOST_MEMORY, tmpl, s1)
      else do {
        v \<leftarrow> (if ulValueLen p \<noteq> 0
              then do { bs \<leftarrow> read_bytes (pValue p) (unat (ulValueLen p)); Some (Some bs) }
              else Some None);
        let (n, s2) = do_malloc E s1;
        if n = None then Some (CKR_HOST_MEMORY, tmpl, s2)
        else p11_template_add_attr E ps
               (p11_template_update_attr
                  \<lparr>attr_type = attr_type p, pValue = v, ulValueLen = ulValueLen p\<rparr> tmpl) s2 })"

text \<open>The loop of \<open>p11_template_compare\<close>: \<open>n\<close> attributes are left, \<open>t1\<close> points at the next.\<close>

fun compare_loop :: "nat \<Rightarrow> CK_ATTRIBUTE list \<Rightarrow> template_list \<Rightarrow> bool option" where
  "compare_loop 0 t1 tmpl = Some True"
| "compare_loop (Suc n) [] tmpl = None"
| "compare_loop (Suc n) (a # t1) tmpl =
     (case p11_template_check_attr tmpl (attr_type a) of
        None \<Rightarrow> Some False
      | Some b \<Rightarrow>
          if ulValueLen a \<noteq> ulValueLen b then Some False
          else do {
            eq \<leftarrow> memcmp_eq (pValue a) (pValue b) (unat (ulValueLen a));
            if \<not> eq then Some False else compare_loop n t1 tmpl })"

definition p11_template_compare :: "CK_ATTRIBUTE list option \<Rightarrow> u64 \<Rightarrow> template_list \<Rightarrow> bool option" where
  "p11_template_compare t1 ulCount tmpl =
     (case t1 of None \<Rightarrow> Some False | Some ts \<Rightarrow> compare_loop (unat ulCount) ts tmpl)"

text \<open>\<open>p11_template_get_class\<close>: the class and the subclass are \<open>None\<close> while they are not assigned.\<close>

primrec get_class_loop ::
    "template_list \<Rightarrow> bool \<times> u64 option \<times> u64 option \<Rightarrow> (bool \<times> u64 option \<times> u64 option) option" where
  "get_class_loop [] acc = Some acc"
| "get_class_loop (a # tmpl) acc =
     (let (found, cls, sub) = acc in do {
        (found, cls) \<leftarrow> (if attr_type a = CKA_CLASS
                         then do { v \<leftarrow> deref_u64 (pValue a); Some (True, Some v) }
                         else Some (found, cls));
        sub \<leftarrow> (if attr_type a = CKA_CERTIFICATE_TYPE
                then do { v \<leftarrow> deref_u64 (pValue a); Some (Some v) } else Some sub);
        sub \<leftarrow> (if attr_type a = CKA_KEY_TYPE
                then do { v \<leftarrow> deref_u64 (pValue a); Some (Some v) } else Some sub);
        get_class_loop tmpl (found, cls, sub) })"

definition p11_template_get_class :: "template_list \<Rightarrow> (bool \<times> u64 option \<times> u64 option) option" where
  "p11_template_get_class tmpl = get_class_loop tmpl (False, None, None)"

definition check_rsa_privk_exportability :: "CK_ATTRIBUTE_TYPE \<Rightarrow> bool" where
  "check_rsa_privk_exportability ty =
     (ty \<notin> {CKA_PRIVATE_EXPONENT, CKA_PRIME_1, CKA_PRIME_2, CKA_EXPONENT_1, CKA_EXPONENT_2,
            CKA_COEFFICIENT})"

definition check_attr_exportability :: "template_list \<Rightarrow> CK_ATTRIBUTE_TYPE \<Rightarrow> bool option" where
  "check_attr_exportability tmpl ty = do {
     (found, cls, sub) \<leftarrow> p11_template_get_class tmpl;
     cls \<leftarrow> cls;
     if cls \<noteq> CKO_PRIVATE_KEY \<and> cls \<noteq> CKO_SECRET_KEY then Some True
     else case (p11_template_check_attr tmpl CKA_SENSITIVE, p11_template_check_attr tmpl CKA_EXTRACTABLE) of
       (Some sensitive, Some extractable) \<Rightarrow> do {
         sensitive_val \<leftarrow> deref_byte (pValue sensitive);
         extractable_val \<leftarrow> deref_byte (pValue extractable);
         if sensitive_val = CK_FALSE \<and> extractable_val = CK_TRUE then Some True
         else if cls = CKO_PRIVATE_KEY then do {
           sub \<leftarrow> sub;
           if sub = CKK_RSA then Some (check_rsa_privk_exportability ty) else Some True }
         else Some True }
     | _ \<Rightarrow> Some False }"

section \<open>A template is a finite map\<close>

locale attr_store =
  fixes upd :: "'a \<Rightarrow> 's \<Rightarrow> 's"
    and look :: "'s \<Rightarrow> 'k \<Rightarrow> 'a option"
    and key :: "'a \<Rightarrow> 'k"
    and invar :: "'s \<Rightarrow> bool"
  assumes look_upd: "look (upd a s) k = (if k = key a then Some a else look s k)"
    and invar_upd: "invar s \<Longrightarrow> invar (upd a s)"
begin

lemma look_fold_other:
  "k \<notin> key ` set as \<Longrightarrow> look (fold upd as s) k = look s k"
  by (induction as arbitrary: s) (auto simp: look_upd)

lemma look_fold_in:
  "distinct (map key as) \<Longrightarrow> a \<in> set as \<Longrightarrow> look (fold upd as s) (key a) = Some a"
proof (induction as arbitrary: s)
  case Nil
  then show ?case by simp
next
  case (Cons b as)
  show ?case
  proof (cases "a = b")
    case True
    with Cons.prems have "key a \<notin> key ` set as" by auto
    with True show ?thesis by (simp add: look_fold_other look_upd)
  next
    case False
    with Cons show ?thesis by auto
  qed
qed

lemma invar_fold: "invar s \<Longrightarrow> invar (fold upd as s)"
  by (induction as arbitrary: s) (auto simp: invar_upd)

end

definition unique_types :: "template_list \<Rightarrow> bool" where
  "unique_types tmpl \<longleftrightarrow> distinct (map attr_type tmpl)"

interpretation tmpl: attr_store p11_template_update_attr p11_template_check_attr attr_type unique_types
proof
  fix a :: CK_ATTRIBUTE and s k
  show "p11_template_check_attr (p11_template_update_attr a s) k =
          (if k = attr_type a then Some a else p11_template_check_attr s k)"
    by (auto simp: p11_template_check_attr_def p11_template_update_attr_def find_remove_first_other)
next
  fix s and a :: CK_ATTRIBUTE
  assume "unique_types s"
  then show "unique_types (p11_template_update_attr a s)"
    by (simp add: unique_types_def p11_template_update_attr_def map_remove_first
        remove_first_eq_remove1 distinct_remove_first)
qed

text \<open>
  Lengths and values agree: an attribute without a value has length 0, one with a value has that
  many bytes. Every attribute the library itself stores is of this shape.
\<close>

definition wf_attr :: "CK_ATTRIBUTE \<Rightarrow> bool" where
  "wf_attr a \<longleftrightarrow> (case pValue a of None \<Rightarrow> ulValueLen a = 0
     | Some bs \<Rightarrow> ulValueLen a \<noteq> 0 \<and> length bs = unat (ulValueLen a))"

definition wf_template :: "template_list \<Rightarrow> bool" where
  "wf_template tmpl \<longleftrightarrow> unique_types tmpl \<and> list_all wf_attr tmpl"

lemmas default_lists = key_object_defaults_def pubk_defaults_def rsa_pubk_defaults_def
  privk_defaults_def rsa_privk_defaults_def common_defaults_def

lemmas default_attrs = bool_attr_def ulong_attr_def empty_attr_def

section \<open>Behaviour of the default attributes\<close>

text \<open>The defaults a key object of the given class receives, in the order they are stored.\<close>

definition class_defaults :: "u64 \<Rightarrow> CK_ATTRIBUTE list" where
  "class_defaults cls = common_defaults @ key_object_defaults @
     (if cls = CKO_PUBLIC_KEY then pubk_defaults @ rsa_pubk_defaults
      else privk_defaults @ rsa_privk_defaults)"

lemma distinct_class_defaults: "distinct (map attr_type (class_defaults cls))"
  by (simp add: class_defaults_def default_lists default_attrs)

lemma wf_defaults: "list_all wf_attr (class_defaults cls)"
  by (simp add: class_defaults_def default_lists default_attrs wf_attr_def rsa_priv_key_mechs_def)

lemma no_certificate_default: "CKA_CERTIFICATE_TYPE \<notin> attr_type ` set (class_defaults cls)"
  by (simp add: class_defaults_def default_lists default_attrs)

lemma add_default_attr_frame:
  "p11_template_add_default_attr E obj s = (rc, obj', s') \<Longrightarrow>
     s' = s\<lparr>mallocs := mallocs s'\<rparr> \<and> obj' = obj\<lparr>obj_template := obj_template obj'\<rparr>"
  by (auto simp: p11_template_add_default_attr_def p11_template_add_default_common_attr_def
      rsa_pubk_add_default_attr_def pubk_add_default_attr_def key_object_set_default_attr_def
      rsa_privk_add_default_attr_def privk_add_default_attr_def Let_def
      split: prod.splits if_splits dest!: do_mallocs_state)

lemma add_default_attr_OK:
  assumes "p11_template_add_default_attr E obj s = (CKR_OK, obj', s')"
  shows "obj_class obj \<in> {CKO_PUBLIC_KEY, CKO_PRIVATE_KEY}" and "obj_subclass obj = CKK_RSA"
    and "obj' = obj\<lparr>obj_template := fold p11_template_update_attr (class_defaults (obj_class obj)) (obj_template obj)\<rparr>"
  using assms
  by (auto simp: p11_template_add_default_attr_def p11_template_add_default_common_attr_def
      rsa_pubk_add_default_attr_def pubk_add_default_attr_def key_object_set_default_attr_def
      rsa_privk_add_default_attr_def privk_add_default_attr_def Let_def class_defaults_def
      split: prod.splits if_splits)

text \<open>The lookup after the defaults: a default wins over an attribute that was there before.\<close>

lemma find_map_of_types:
  "List.find (\<lambda>a. attr_type a = ty) as = Some a \<Longrightarrow> a \<in> set as \<and> attr_type a = ty"
  by (drule find_SomeD) simp

lemma check_fold_defaults:
  assumes "distinct (map attr_type as)"
  shows "p11_template_check_attr (fold p11_template_update_attr as t) ty =
     (case List.find (\<lambda>a. attr_type a = ty) as of Some a \<Rightarrow> Some a | None \<Rightarrow> p11_template_check_attr t ty)"
proof (cases "List.find (\<lambda>a. attr_type a = ty) as")
  case None
  then have "ty \<notin> attr_type ` set as" by (auto simp: find_eq_None_conv)
  with None show ?thesis by (simp add: tmpl.look_fold_other)
next
  case (Some a)
  with find_map_of_types [OF Some] tmpl.look_fold_in [OF assms, of a t]
  show ?thesis by simp
qed

lemma list_all_update:
  "P a \<Longrightarrow> list_all P t \<Longrightarrow> list_all P (p11_template_update_attr a t)"
  using set_remove_first_subset [of _ t]
  by (auto simp: p11_template_update_attr_def list_all_iff)

lemma list_all_fold_update:
  "list_all P as \<Longrightarrow> list_all P t \<Longrightarrow> list_all P (fold p11_template_update_attr as t)"
  by (induction as arbitrary: t) (auto simp: list_all_update)

lemma wf_template_update: "wf_attr a \<Longrightarrow> wf_template t \<Longrightarrow> wf_template (p11_template_update_attr a t)"
  by (simp add: wf_template_def tmpl.invar_upd list_all_update)

lemma wf_template_defaults:
  "wf_template t \<Longrightarrow> wf_template (fold p11_template_update_attr (class_defaults cls) t)"
  by (simp add: wf_template_def tmpl.invar_fold list_all_fold_update wf_defaults)

lemma wf_template_Nil [simp]: "wf_template []"
  by (simp add: wf_template_def unique_types_def)

lemma wf_template_lookup: "wf_template t \<Longrightarrow> p11_template_check_attr t ty = Some a \<Longrightarrow> wf_attr a \<and> attr_type a = ty"
  unfolding p11_template_check_attr_def wf_template_def list_all_iff by (auto dest: find_SomeD)

section \<open>Adding attributes\<close>

lemma add_attr_frame:
  "p11_template_add_attr E ps t s = Some (rc, t', s') \<Longrightarrow> s' = s\<lparr>mallocs := mallocs s'\<rparr>"
proof (induction ps arbitrary: t s)
  case Nil
  then show ?case by simp
next
  case (Cons p ps)
  then show ?case
    by (fastforce simp: do_malloc_def Let_def split: if_splits bind_splits prod.splits)
qed

lemma add_attr_wf:
  "p11_template_add_attr E ps t s = Some (rc, t', s') \<Longrightarrow> wf_template t \<Longrightarrow> wf_template t'"
proof (induction ps arbitrary: t s)
  case Nil
  then show ?case by simp
next
  case (Cons p ps)
  have "wf_attr \<lparr>attr_type = attr_type p, pValue = v, ulValueLen = ulValueLen p\<rparr>"
    if "(if ulValueLen p \<noteq> 0 then do { bs \<leftarrow> read_bytes (pValue p) (unat (ulValueLen p)); Some (Some bs) }
         else Some None) = Some v" for v
    using that by (cases v) (auto simp: wf_attr_def split: if_splits bind_splits dest: read_bytes_SomeD)
  with Cons show ?case
    by (auto simp: do_malloc_def Let_def wf_template_update split: if_splits bind_splits prod.splits)
qed

text \<open>A type that is none of the added ones keeps its attribute.\<close>

lemma add_attr_other:
  "p11_template_add_attr E ps t s = Some (rc, t', s') \<Longrightarrow> ty \<notin> attr_type ` set ps \<Longrightarrow>
     p11_template_check_attr t' ty = p11_template_check_attr t ty"
  by (induction ps arbitrary: t s)
    (auto simp: do_malloc_def Let_def tmpl.look_upd split: if_splits bind_splits prod.splits)

lemma add_attr_one:
  "p11_template_add_attr E [p] t s = Some (CKR_OK, t', s') \<Longrightarrow> p11_is_attribute_defined (attr_type p) \<Longrightarrow>
   wf_attr p \<Longrightarrow> p11_template_check_attr t' (attr_type p) = Some p"
  by (auto simp: do_malloc_def Let_def tmpl.look_upd wf_attr_def read_bytes_def
      split: if_splits bind_splits prod.splits option.splits)

section \<open>Comparison\<close>

definition attr_readable :: "CK_ATTRIBUTE \<Rightarrow> bool" where
  "attr_readable a \<longleftrightarrow> read_bytes (pValue a) (unat (ulValueLen a)) \<noteq> None"

definition attr_bytes :: "CK_ATTRIBUTE \<Rightarrow> byte list" where
  "attr_bytes a = the (read_bytes (pValue a) (unat (ulValueLen a)))"

lemma wf_attr_readable: "wf_attr a \<Longrightarrow> attr_readable a"
  by (auto simp: wf_attr_def attr_readable_def read_bytes_def split: option.splits)

definition attr_matches :: "template_list \<Rightarrow> CK_ATTRIBUTE \<Rightarrow> bool" where
  "attr_matches t a \<longleftrightarrow> (case p11_template_check_attr t (attr_type a) of None \<Rightarrow> False
     | Some b \<Rightarrow> ulValueLen b = ulValueLen a \<and> attr_bytes b = attr_bytes a)"

lemma compare_loop_spec:
  "wf_template t \<Longrightarrow> n \<le> length as \<Longrightarrow> list_all attr_readable as \<Longrightarrow>
    compare_loop n as t = Some (list_all (attr_matches t) (take n as))"
proof (induction n as t rule: compare_loop.induct)
  case (3 n a as t)
  show ?case
  proof (cases "p11_template_check_attr t (attr_type a)")
    case None
    then show ?thesis by (simp add: attr_matches_def)
  next
    case (Some b)
    have "attr_readable b"
      using 3(2) Some by (simp add: wf_attr_readable wf_template_lookup)
    with Some 3 show ?thesis
      by (auto simp: attr_matches_def memcmp_eq_def attr_readable_def attr_bytes_def)
  qed
qed auto

section \<open>Class and exportability\<close>

lemma check_attr_Nil [simp]: "p11_template_check_attr [] ty = None"
  by (simp add: p11_template_check_attr_def)

lemma check_attr_Cons [simp]:
  "p11_template_check_attr (a # t) ty = (if attr_type a = ty then Some a else p11_template_check_attr t ty)"
  by (simp add: p11_template_check_attr_def)

lemma check_attr_None_iff: "p11_template_check_attr t ty = None \<longleftrightarrow> ty \<notin> attr_type ` set t"
  by (auto simp: p11_template_check_attr_def find_eq_None_conv)

text \<open>The traversal reads the class and the key type the lookup would give.\<close>

lemma get_class_loop_spec:
  assumes "unique_types t" and "p11_template_check_attr t CKA_CERTIFICATE_TYPE = None"
    and "\<And>a. a \<in> set t \<Longrightarrow> attr_type a \<in> {CKA_CLASS, CKA_KEY_TYPE} \<Longrightarrow> deref_u64 (pValue a) \<noteq> None"
  shows "get_class_loop t (f, c, k) = Some
     (f \<or> p11_template_check_attr t CKA_CLASS \<noteq> None,
      case p11_template_check_attr t CKA_CLASS of None \<Rightarrow> c | Some a \<Rightarrow> deref_u64 (pValue a),
      case p11_template_check_attr t CKA_KEY_TYPE of None \<Rightarrow> k | Some a \<Rightarrow> deref_u64 (pValue a))"
  using assms
proof (induction t arbitrary: f c k)
  case Nil
  then show ?case by simp
next
  case (Cons a t)
  have u: "unique_types t" and n: "attr_type a \<notin> attr_type ` set t"
    using Cons.prems(1) by (auto simp: unique_types_def)
  have ct: "attr_type a \<noteq> CKA_CERTIFICATE_TYPE" "p11_template_check_attr t CKA_CERTIFICATE_TYPE = None"
    using Cons.prems(2) by (auto split: if_splits)
  note IH = Cons.IH [OF u ct(2) Cons.prems(3) [OF list.set_intros(2)], simplified]
  consider "attr_type a = CKA_CLASS" | "attr_type a = CKA_KEY_TYPE"
    | "attr_type a \<notin> {CKA_CLASS, CKA_KEY_TYPE}" by blast
  then show ?case
    using Cons.prems(3) [of a] n ct(1)
    by cases (auto simp: IH check_attr_None_iff [symmetric])
qed

text \<open>The attribute types that come from the token, by the conversion in \<open>Objects\<close>.\<close>

definition mirrored_types :: "CK_ATTRIBUTE_TYPE set" where
  "mirrored_types = {CKA_CLASS, CKA_KEY_TYPE, CKA_LABEL, CKA_ID, CKA_MODULUS_BITS, CKA_MODULUS, CKA_PUBLIC_EXPONENT}"

text \<open>
  What every key object of the library looks like: it has all the defaults of its class, and beyond
  them nothing but attributes of the token.
\<close>

definition types_of :: "template_list \<Rightarrow> CK_ATTRIBUTE_TYPE set" where
  "types_of t = attr_type ` set t"

lemma check_attr_None_types: "p11_template_check_attr t ty = None \<longleftrightarrow> ty \<notin> types_of t"
  by (simp add: check_attr_None_iff types_of_def)

definition key_template :: "u64 \<Rightarrow> template_list \<Rightarrow> bool" where
  "key_template cls t \<longleftrightarrow> wf_template t \<and>
     types_of t \<subseteq> mirrored_types \<union> types_of (class_defaults cls) \<and>
     (\<forall>a \<in> set (class_defaults cls). p11_template_check_attr t (attr_type a) = Some a)"

lemma unique_lookup: "unique_types t \<Longrightarrow> a \<in> set t \<Longrightarrow> p11_template_check_attr t (attr_type a) = Some a"
  by (induction t) (auto simp: unique_types_def)

lemma key_template_none:
  assumes "key_template cls t" and "ty \<notin> mirrored_types" and "ty \<notin> types_of (class_defaults cls)"
  shows "p11_template_check_attr t ty = None"
  using assms by (auto simp: key_template_def check_attr_None_types)

lemma key_template_class:
  assumes "key_template cls t" and "cls \<in> {CKO_PUBLIC_KEY, CKO_PRIVATE_KEY}"
  shows "p11_template_check_attr t CKA_CLASS = Some (ulong_attr CKA_CLASS cls)"
    and "p11_template_check_attr t CKA_KEY_TYPE = Some (ulong_attr CKA_KEY_TYPE CKK_RSA)"
    and "p11_template_check_attr t CKA_CERTIFICATE_TYPE = None"
proof -
  have d: "a \<in> set (class_defaults cls) \<Longrightarrow> p11_template_check_attr t (attr_type a) = Some a" for a
    using assms(1) by (simp add: key_template_def)
  show "p11_template_check_attr t CKA_CLASS = Some (ulong_attr CKA_CLASS cls)"
    using d [of "ulong_attr CKA_CLASS cls"] assms(2)
    by (auto simp: class_defaults_def default_lists ulong_attr_def)
  show "p11_template_check_attr t CKA_KEY_TYPE = Some (ulong_attr CKA_KEY_TYPE CKK_RSA)"
    using d [of "ulong_attr CKA_KEY_TYPE CKK_RSA"] assms(2)
    by (auto simp: class_defaults_def default_lists ulong_attr_def)
  show "p11_template_check_attr t CKA_CERTIFICATE_TYPE = None"
    by (rule key_template_none [OF assms(1)]) (auto simp: types_of_def mirrored_types_def class_defaults_def default_lists default_attrs)
qed

lemma key_template_private:
  assumes "key_template CKO_PRIVATE_KEY t"
  shows "p11_template_check_attr t CKA_SENSITIVE = Some (bool_attr CKA_SENSITIVE CK_TRUE)"
    and "p11_template_check_attr t CKA_EXTRACTABLE = Some (bool_attr CKA_EXTRACTABLE CK_FALSE)"
    and "p11_template_check_attr t CKA_SIGN = Some (bool_attr CKA_SIGN CK_TRUE)"
    and "p11_template_check_attr t CKA_ALLOWED_MECHANISMS = Some \<lparr>attr_type = CKA_ALLOWED_MECHANISMS,
          pValue = Some (concat (map put_u64 rsa_priv_key_mechs)), ulValueLen = 56\<rparr>"
proof -
  have d: "a \<in> set (class_defaults CKO_PRIVATE_KEY) \<Longrightarrow> p11_template_check_attr t (attr_type a) = Some a" for a
    using assms by (simp add: key_template_def)
  show "p11_template_check_attr t CKA_SENSITIVE = Some (bool_attr CKA_SENSITIVE CK_TRUE)"
    using d [of "bool_attr CKA_SENSITIVE CK_TRUE"] by (simp add: class_defaults_def default_lists bool_attr_def)
  show "p11_template_check_attr t CKA_EXTRACTABLE = Some (bool_attr CKA_EXTRACTABLE CK_FALSE)"
    using d [of "bool_attr CKA_EXTRACTABLE CK_FALSE"] by (simp add: class_defaults_def default_lists bool_attr_def)
  show "p11_template_check_attr t CKA_SIGN = Some (bool_attr CKA_SIGN CK_TRUE)"
    using d [of "bool_attr CKA_SIGN CK_TRUE"] by (simp add: class_defaults_def default_lists bool_attr_def)
  show "p11_template_check_attr t CKA_ALLOWED_MECHANISMS = Some \<lparr>attr_type = CKA_ALLOWED_MECHANISMS,
          pValue = Some (concat (map put_u64 rsa_priv_key_mechs)), ulValueLen = 56\<rparr>"
    using d [of "\<lparr>attr_type = CKA_ALLOWED_MECHANISMS,
        pValue = Some (concat (map put_u64 rsa_priv_key_mechs)), ulValueLen = 56\<rparr>"]
    by (simp add: class_defaults_def rsa_privk_defaults_def)
qed

lemma key_template_public:
  "key_template CKO_PUBLIC_KEY t \<Longrightarrow> p11_template_check_attr t CKA_SIGN = None"
  by (erule key_template_none) (auto simp: types_of_def mirrored_types_def class_defaults_def default_lists default_attrs)

lemma get_class_key_template:
  assumes "key_template cls t" and "cls \<in> {CKO_PUBLIC_KEY, CKO_PRIVATE_KEY}"
  shows "p11_template_get_class t = Some (True, Some cls, Some CKK_RSA)"
proof -
  have u: "unique_types t" using assms by (simp add: key_template_def wf_template_def)
  note k = key_template_class [OF assms]
  have "deref_u64 (pValue a) \<noteq> None"
    if "a \<in> set t" "attr_type a \<in> {CKA_CLASS, CKA_KEY_TYPE}" for a
    using unique_lookup [OF u that(1)] that(2) k by (auto simp: ulong_attr_def fault_simps)
  then show ?thesis
    unfolding p11_template_get_class_def using k u
    by (subst get_class_loop_spec) (auto simp: ulong_attr_def fault_simps)
qed

lemma exportable_key_template:
  assumes "key_template cls t" and "cls \<in> {CKO_PUBLIC_KEY, CKO_PRIVATE_KEY}"
  shows "check_attr_exportability t ty =
    Some (cls = CKO_PRIVATE_KEY \<longrightarrow> check_rsa_privk_exportability ty)"
  unfolding check_attr_exportability_def get_class_key_template [OF assms]
  using assms by (auto simp: key_template_private bool_attr_def fault_simps)

lemma update_types: "types_of (p11_template_update_attr a t) \<subseteq> insert (attr_type a) (types_of t)"
  using set_remove_first_subset [of _ t] by (auto simp: types_of_def p11_template_update_attr_def)

lemma fold_update_types:
  "types_of (fold p11_template_update_attr as t) \<subseteq> types_of t \<union> types_of as"
proof (induction as arbitrary: t)
  case Nil
  then show ?case by simp
next
  case (Cons a as)
  have "types_of (a # as) = insert (attr_type a) (types_of as)" by (simp add: types_of_def)
  with Cons [of "p11_template_update_attr a t"] update_types [of a t] show ?case by auto
qed

lemma add_attr_types:
  assumes "p11_template_add_attr E ps t s = Some (rc, t', s')"
  shows "types_of t' \<subseteq> types_of ps \<union> types_of t"
proof
  fix ty
  assume "ty \<in> types_of t'"
  then have "p11_template_check_attr t' ty \<noteq> None" by (simp only: check_attr_None_types not_not)
  then show "ty \<in> types_of ps \<union> types_of t"
    using add_attr_other [OF assms, of ty] check_attr_None_types [of t ty] by (metis UnCI types_of_def)
qed

lemma key_template_defaults:
  assumes "wf_template t" and "types_of t \<subseteq> mirrored_types"
  shows "key_template cls (fold p11_template_update_attr (class_defaults cls) t)"
  unfolding key_template_def
proof (intro conjI ballI)
  show "wf_template (fold p11_template_update_attr (class_defaults cls) t)"
    using wf_template_defaults [OF assms(1)] .
  show "types_of (fold p11_template_update_attr (class_defaults cls) t)
      \<subseteq> mirrored_types \<union> types_of (class_defaults cls)"
    using fold_update_types [of "class_defaults cls" t] assms(2) by (meson Un_mono subset_refl subset_trans)
  show "p11_template_check_attr (fold p11_template_update_attr (class_defaults cls) t) (attr_type a) = Some a"
    if "a \<in> set (class_defaults cls)" for a
    using tmpl.look_fold_in [OF distinct_class_defaults that] .
qed

section \<open>Properties of templates\<close>

text \<open>
  C4: a template refines a finite map from attribute types to attributes. Seen through
  \<open>p11_template_check_attr\<close>, \<open>p11_template_update_attr\<close> is the update of that map at the type of
  the new attribute, an attribute is in the list exactly when the lookup of its type returns it, and
  the list never holds two attributes of one type.
\<close>

theorem template_refines_map:
  assumes "unique_types t"
  shows "p11_template_check_attr (p11_template_update_attr a t) =
           (p11_template_check_attr t)(attr_type a \<mapsto> a) \<and>
         unique_types (p11_template_update_attr a t) \<and>
         set (p11_template_update_attr a t) = ran ((p11_template_check_attr t)(attr_type a \<mapsto> a))"
proof (intro conjI)
  show eq: "p11_template_check_attr (p11_template_update_attr a t) =
          (p11_template_check_attr t)(attr_type a \<mapsto> a)"
    by (simp add: fun_eq_iff tmpl.look_upd)
  show u: "unique_types (p11_template_update_attr a t)" using assms by (rule tmpl.invar_upd)
  have "x \<in> ran (p11_template_check_attr (p11_template_update_attr a t)) \<longleftrightarrow> x \<in> set (p11_template_update_attr a t)" for x
    using unique_lookup [OF u, of x]
    by (auto simp: ran_def p11_template_check_attr_def dest: find_SomeD)
  then show "set (p11_template_update_attr a t) = ran ((p11_template_check_attr t)(attr_type a \<mapsto> a))"
    by (auto simp: eq)
qed

theorem template_refines_map_witness:
  "p11_template_check_attr (p11_template_update_attr (bool_attr CKA_SIGN CK_TRUE)
       [bool_attr CKA_SIGN CK_FALSE]) CKA_SIGN = Some (bool_attr CKA_SIGN CK_TRUE)"
proof -
  have "unique_types [bool_attr CKA_SIGN CK_FALSE]" by (simp add: unique_types_def)
  from template_refines_map [OF this] show ?thesis by (simp add: bool_attr_def)
qed

text \<open>The number of allocations the defaults of a class need, and whether they all succeed.\<close>

definition default_allocs :: "u64 \<Rightarrow> nat" where
  "default_allocs cls = (if cls = CKO_PUBLIC_KEY then 36 else 46)"

definition mallocs_ok :: "'t env \<Rightarrow> 't lib \<Rightarrow> nat \<Rightarrow> nat \<Rightarrow> bool" where
  "mallocs_ok E s i n \<longleftrightarrow> (\<forall>j < n. malloc E (i + j) (dom (mem s)) \<noteq> None)"

lemma do_mallocs_eq:
  "do_mallocs E k s = (mallocs_ok E s (mallocs s) k, s\<lparr>mallocs := mallocs s + k\<rparr>)"
  by (auto simp: do_mallocs_def mallocs_ok_def list_all_iff)

lemma mallocs_ok_count [simp]: "mallocs_ok E (s\<lparr>mallocs := k\<rparr>) = mallocs_ok E s"
  by (simp add: mallocs_ok_def fun_eq_iff)

lemma mallocs_ok_split: "mallocs_ok E s i (m + n) \<longleftrightarrow> mallocs_ok E s i m \<and> mallocs_ok E s (m + i) n"
proof -
  have "(\<forall>j < m + n. P j) \<longleftrightarrow> (\<forall>j < m. P j) \<and> (\<forall>j < n. P (m + j))" for P :: "nat \<Rightarrow> bool"
    by (metis add_diff_inverse_nat nat_add_left_cancel_less trans_less_add1)
  then show ?thesis by (simp add: mallocs_ok_def ac_simps)
qed

lemma default_allocs_groups:
  "mallocs_ok E s i (default_allocs cls) \<longleftrightarrow> mallocs_ok E s i 6 \<and> mallocs_ok E s (6 + i) 8 \<and>
     (if cls = CKO_PUBLIC_KEY then mallocs_ok E s (14 + i) 16 \<and> mallocs_ok E s (30 + i) 6
      else mallocs_ok E s (14 + i) 26 \<and> mallocs_ok E s (40 + i) 6)"
  using mallocs_ok_split [of E s i 6 30] mallocs_ok_split [of E s i 6 40]
    mallocs_ok_split [of E s "6 + i" 8 22] mallocs_ok_split [of E s "6 + i" 8 32]
    mallocs_ok_split [of E s "14 + i" 16 6] mallocs_ok_split [of E s "14 + i" 26 6]
  by (auto simp: default_allocs_def)

lemma default_call_results:
  "fst (rsa_pubk_add_default_attr E t s) =
     (if mallocs_ok E s (mallocs s) 8 \<and> mallocs_ok E s (8 + mallocs s) 16 \<and> mallocs_ok E s (24 + mallocs s) 6
      then CKR_OK else CKR_HOST_MEMORY)"
  "fst (rsa_privk_add_default_attr E t s) =
     (if mallocs_ok E s (mallocs s) 8 \<and> mallocs_ok E s (8 + mallocs s) 26 \<and> mallocs_ok E s (34 + mallocs s) 6
      then CKR_OK else CKR_HOST_MEMORY)"
  by (auto simp: rsa_pubk_add_default_attr_def pubk_add_default_attr_def
      key_object_set_default_attr_def rsa_privk_add_default_attr_def privk_add_default_attr_def
      do_mallocs_eq ac_simps)

lemma add_default_attr_rc:
  "fst (p11_template_add_default_attr E obj s) =
     (if \<not> mallocs_ok E s (mallocs s) 6 then CKR_HOST_MEMORY
      else if obj_class obj \<notin> {CKO_PUBLIC_KEY, CKO_PRIVATE_KEY} \<or> obj_subclass obj \<noteq> CKK_RSA
      then CKR_ATTRIBUTE_VALUE_INVALID
      else if mallocs_ok E s (mallocs s) (default_allocs (obj_class obj)) then CKR_OK
      else CKR_HOST_MEMORY)"
  using default_call_results [of E "fold p11_template_update_attr common_defaults (obj_template obj)"
      "s\<lparr>mallocs := mallocs s + 6\<rparr>"]
  unfolding p11_template_add_default_attr_def p11_template_add_default_common_attr_def
    default_allocs_groups
  by (auto simp: do_mallocs_eq Let_def ac_simps split: prod.splits)

text \<open>
  The outcome of \<open>p11_template_add_default_attr\<close> on every branch. An object that is neither an
  RSA public nor an RSA private key is refused with \<open>CKR_ATTRIBUTE_VALUE_INVALID\<close> once the common
  defaults are in; a failed allocation is \<open>CKR_HOST_MEMORY\<close>; otherwise the call succeeds and the
  template maps every default type of the class to its default value and every other type to what
  it was mapped to before.
\<close>

theorem add_default_attr_outcome:
  "case p11_template_add_default_attr E obj s of (rc, obj', s') \<Rightarrow>
     rc = (if \<not> mallocs_ok E s (mallocs s) 6 then CKR_HOST_MEMORY
           else if obj_class obj \<notin> {CKO_PUBLIC_KEY, CKO_PRIVATE_KEY} \<or> obj_subclass obj \<noteq> CKK_RSA
           then CKR_ATTRIBUTE_VALUE_INVALID
           else if mallocs_ok E s (mallocs s) (default_allocs (obj_class obj)) then CKR_OK
           else CKR_HOST_MEMORY) \<and>
     (rc = CKR_OK \<longrightarrow> obj' = obj\<lparr>obj_template := obj_template obj'\<rparr> \<and>
       (\<forall>ty. p11_template_check_attr (obj_template obj') ty =
          (case List.find (\<lambda>a. attr_type a = ty) (class_defaults (obj_class obj)) of
             Some a \<Rightarrow> Some a | None \<Rightarrow> p11_template_check_attr (obj_template obj) ty)))"
proof -
  obtain rc obj' s' where r: "p11_template_add_default_attr E obj s = (rc, obj', s')"
    by (cases "p11_template_add_default_attr E obj s")
  have "rc = CKR_OK \<Longrightarrow> p11_template_check_attr (obj_template obj') ty =
      (case List.find (\<lambda>a. attr_type a = ty) (class_defaults (obj_class obj)) of
         Some a \<Rightarrow> Some a | None \<Rightarrow> p11_template_check_attr (obj_template obj) ty)" for ty
    using add_default_attr_OK(3) [of E obj s obj' s'] r
    by (simp add: check_fold_defaults distinct_class_defaults)
  then show ?thesis
    using add_default_attr_rc [of E obj s] add_default_attr_frame [OF r] by (simp add: r)
qed

theorem add_default_attr_outcome_witness:
  "case p11_template_add_default_attr sample_env
      \<lparr>sk_obj_handle = 7, obj_class = CKO_PUBLIC_KEY, obj_subclass = CKK_RSA, obj_template = [], obj_slotID = 0\<rparr> (initial_lib ()) of
     (rc, obj', s') \<Rightarrow> rc = CKR_OK \<and> p11_template_check_attr (obj_template obj') CKA_ENCRYPT \<noteq> None"
proof -
  have "mallocs_ok sample_env (initial_lib ()) i n" for i n
    by (simp add: mallocs_ok_def sample_env_def sample_malloc_def initial_lib_def)
  then show ?thesis
    using add_default_attr_outcome [of sample_env "initial_lib ()"
      "\<lparr>sk_obj_handle = 7, obj_class = CKO_PUBLIC_KEY, obj_subclass = CKK_RSA, obj_template = [], obj_slotID = 0\<rparr>"]
    by (auto simp: class_defaults_def default_lists default_attrs split: prod.splits)
qed

text \<open>
  \<open>p11_template_compare\<close> is sound and complete on memory-safe inputs. It never reads out of
  bounds, and it answers yes exactly when each of the \<open>ulCount\<close> attributes of the search template
  is in the object's template with the same length and the same bytes; a null template never matches.
\<close>

theorem template_compare_spec:
  assumes "wf_template t" and "list_all attr_readable as" and "unat n \<le> length as"
  shows "p11_template_compare (Some as) n t = Some (\<forall>a \<in> set (take (unat n) as).
           \<exists>b. p11_template_check_attr t (attr_type a) = Some b \<and> ulValueLen b = ulValueLen a \<and>
               attr_bytes b = attr_bytes a) \<and>
         p11_template_compare None n t = Some False"
  using compare_loop_spec [OF assms(1,3,2)]
  by (auto simp: p11_template_compare_def list_all_iff attr_matches_def split: option.splits)

theorem template_compare_spec_witness:
  "p11_template_compare (Some [bool_attr CKA_SIGN CK_TRUE]) 1 [bool_attr CKA_SIGN CK_FALSE] = Some False"
proof -
  have "wf_template [bool_attr CKA_SIGN CK_FALSE]" "list_all attr_readable [bool_attr CKA_SIGN CK_TRUE]"
    by (simp_all add: wf_template_def unique_types_def wf_attr_def attr_readable_def bool_attr_def read_bytes_def)
  from template_compare_spec [OF this, of 1] show ?thesis
    by (simp add: bool_attr_def attr_bytes_def read_bytes_def)
qed

end
