(* ===== verification/Sessions.thy ===== *)
theory Sessions
  imports Sample
begin

text \<open>
  Sessions: \<open>src/sessions.c\<close>. A session handle is the address of its node, and the slot keeps the
  nodes in a list, newest first. The locale \<open>registry\<close> is the contract such a list of handles
  offers its clients (registered handles are distinct and live, an insertion adds exactly one); it
  is interpreted here for the sessions of the slot and in \<open>Objects\<close> for its objects.
\<close>

section \<open>Operations\<close>

definition get_session_list :: "'t lib \<Rightarrow> CK_SLOT_ID \<Rightarrow> CK_SESSION_HANDLE list option" where
  "get_session_list s slotID =
     (if SLOT_COUNT \<le> slotID then None
      else if get_global_slot_info slotID then Some (sess_list s) else None)"

definition initialize_session_list :: "CK_SLOT_ID \<Rightarrow> 't lib \<Rightarrow> CK_RV \<times> 't lib" where
  "initialize_session_list slotID s =
     (if get_session_list s slotID = None then (CKR_ARGUMENTS_BAD, s)
      else (CKR_OK, s\<lparr>sess_list := []\<rparr>))"

definition is_session_valid :: "'t lib \<Rightarrow> CK_SESSION_HANDLE \<Rightarrow> bool option" where
  "is_session_valid s hSession = do {
     sess \<leftarrow> session_of (mem s hSession);
     Some (case get_session_list s (si_slotID (session_info sess)) of
             None \<Rightarrow> False | Some l \<Rightarrow> hSession \<in> set l) }"

text \<open>The inner option is the pointer \<open>get_session\<close> returns, \<open>None\<close> for \<open>NULL\<close>.\<close>

definition get_session :: "'t lib \<Rightarrow> CK_SESSION_HANDLE \<Rightarrow> session option option" where
  "get_session s hSession = do {
     valid \<leftarrow> is_session_valid s hSession;
     if \<not> valid then Some None
     else do { sess \<leftarrow> session_of (mem s hSession); Some (Some sess) } }"

definition zero_context :: sign_verify_context where
  "zero_context = \<lparr>ctx_key = 0, ctx_mech = \<lparr>mechanism = 0, pParameter = None, ulParameterLen = 0\<rparr>,
     ctx_context = None, ctx_context_len = 0, ctx_multi = False, ctx_recover = False, ctx_active = False\<rparr>"

text \<open>The node as \<open>create_session\<close> initialises it after \<open>memset\<close> to zero.\<close>

definition new_session :: "CK_SLOT_ID \<Rightarrow> u64 \<Rightarrow> session" where
  "new_session slotID flags =
     \<lparr>session_info = \<lparr>si_slotID = slotID, si_state = CKS_RO_PUBLIC_SESSION, si_flags = flags,
                      si_ulDeviceError = 0\<rparr>,
      find_list = 0, find_count = 0, find_idx = 0, op_active = False, sign_ctx = zero_context\<rparr>"

text \<open>The second component is what \<open>*phSession\<close> is assigned, if anything.\<close>

definition create_session ::
    "'t env \<Rightarrow> CK_SLOT_ID \<Rightarrow> u64 \<Rightarrow> 't lib \<Rightarrow> CK_RV \<times> CK_SESSION_HANDLE option \<times> 't lib" where
  "create_session E slotID flags s =
     (let (p, s1) = do_malloc E s in
      case p of
        None \<Rightarrow> (CKR_HOST_MEMORY, None, s1)
      | Some a \<Rightarrow>
          (case get_session_list s1 slotID of
             None \<Rightarrow> (CKR_ARGUMENTS_BAD, None, s1\<lparr>mem := (mem s1)(a \<mapsto> FreedBlk)\<rparr>)
           | Some l \<Rightarrow> (CKR_OK, Some a,
               s1\<lparr>mem := (mem s1)(a \<mapsto> SessionBlk (new_session slotID flags)), sess_list := a # l\<rparr>)))"

text \<open>\<open>STAILQ_REMOVE\<close> of a node that is not in the list runs off its end.\<close>

definition delete_session :: "CK_SESSION_HANDLE \<Rightarrow> 't lib \<Rightarrow> (CK_RV \<times> 't lib) option" where
  "delete_session hSession s =
     (if hSession = 0 then Some (CKR_OK, s)
      else do {
        sess \<leftarrow> session_of (mem s hSession);
        case get_session_list s (si_slotID (session_info sess)) of
          None \<Rightarrow> Some (CKR_ARGUMENTS_BAD, s)
        | Some l \<Rightarrow>
            if hSession \<notin> set l then None
            else do {
              m \<leftarrow> free_block hSession (mem s);
              Some (CKR_OK, s\<lparr>sess_list := remove1 hSession l, mem := m\<rparr>) } })"

text \<open>The loop of \<open>destroy_session_list\<close>: unlink and free the first node until none is left.\<close>

primrec free_all :: "u64 list \<Rightarrow> heap \<Rightarrow> heap option" where
  "free_all [] m = Some m"
| "free_all (a # as) m = do { m1 \<leftarrow> free_block a m; free_all as m1 }"

definition destroy_session_list :: "CK_SLOT_ID \<Rightarrow> 't lib \<Rightarrow> (CK_RV \<times> 't lib) option" where
  "destroy_session_list slotID s =
     (case get_session_list s slotID of
        None \<Rightarrow> Some (CKR_ARGUMENTS_BAD, s)
      | Some l \<Rightarrow> do { m \<leftarrow> free_all l (mem s); Some (CKR_OK, s\<lparr>sess_list := [], mem := m\<rparr>) })"

definition get_session_info :: "'t lib \<Rightarrow> CK_SESSION_HANDLE \<Rightarrow> (CK_RV \<times> CK_SESSION_INFO) option" where
  "get_session_info s hSession = do {
     sess \<leftarrow> session_of (mem s hSession);
     Some (CKR_OK, session_info sess) }"

section \<open>The contract of a list of handles\<close>

text \<open>
  \<open>live s\<close> are the registered handles, \<open>get s h\<close> the node behind \<open>h\<close>, \<open>used s\<close> the addresses of the
  heap; \<open>ins a b s\<close> registers a new node.
\<close>

locale registry =
  fixes live :: "'s \<Rightarrow> u64 list"
    and get :: "'s \<Rightarrow> u64 \<Rightarrow> 'b option"
    and used :: "'s \<Rightarrow> u64 set"
    and ins :: "u64 \<Rightarrow> 'b \<Rightarrow> 's \<Rightarrow> 's"
  assumes live_ins: "live (ins a b s) = a # live s"
    and get_ins: "get (ins a b s) x = (if x = a then Some b else get s x)"
    and get_used: "get s x \<noteq> None \<Longrightarrow> x \<in> used s"
begin

definition wf :: "('b \<Rightarrow> bool) \<Rightarrow> 's \<Rightarrow> bool" where
  "wf ok s \<longleftrightarrow> distinct (live s) \<and> (\<forall>x \<in> set (live s). \<exists>b. get s x = Some b \<and> ok b)"

lemma wfD: "wf ok s \<Longrightarrow> x \<in> set (live s) \<Longrightarrow> \<exists>b. get s x = Some b \<and> ok b"
  by (simp add: wf_def)

lemma unused_not_live: "wf ok s \<Longrightarrow> a \<notin> used s \<Longrightarrow> a \<notin> set (live s)"
  using get_used by (fastforce simp: wf_def)

lemma wf_ins: "wf ok s \<Longrightarrow> a \<notin> set (live s) \<Longrightarrow> ok b \<Longrightarrow> wf ok (ins a b s)"
  by (auto simp: wf_def live_ins get_ins)

text \<open>A change of the state that keeps the handles and the nodes behind them keeps the contract.\<close>

lemma wf_cong:
  assumes "wf ok s" and "live s' = live s"
    and "\<And>x b. x \<in> set (live s) \<Longrightarrow> get s x = Some b \<Longrightarrow> ok b \<Longrightarrow> \<exists>b'. get s' x = Some b' \<and> ok b'"
  shows "wf ok s'"
  using assms by (fastforce simp: wf_def)

end

text \<open>A registry whose handles can be withdrawn again.\<close>

locale removable_registry = registry live get used ins
  for live :: "'s \<Rightarrow> u64 list" and get :: "'s \<Rightarrow> u64 \<Rightarrow> 'b option" and used :: "'s \<Rightarrow> u64 set"
    and ins :: "u64 \<Rightarrow> 'b \<Rightarrow> 's \<Rightarrow> 's" +
  fixes del :: "u64 \<Rightarrow> 's \<Rightarrow> 's"
  assumes live_del: "live (del a s) = remove1 a (live s)"
    and get_del: "get (del a s) x = (if x = a then None else get s x)"
begin

lemma wf_del:
  assumes "wf ok s"
  shows "wf ok (del a s)" and "set (live (del a s)) = set (live s) - {a}"
  using assms by (auto simp: wf_def live_del get_del set_remove1_eq)

lemma del_ins: "get (del a (ins a b s)) x = (if x = a then None else get s x)"
  "live (del a (ins a b s)) = live s"
  by (simp_all add: get_del get_ins live_del live_ins)

end

text \<open>The sessions of the slot.\<close>

definition insert_session :: "u64 \<Rightarrow> session \<Rightarrow> 't lib \<Rightarrow> 't lib" where
  "insert_session a x s = s\<lparr>mem := (mem s)(a \<mapsto> SessionBlk x), sess_list := a # sess_list s\<rparr>"

definition remove_session :: "u64 \<Rightarrow> 't lib \<Rightarrow> 't lib" where
  "remove_session a s = s\<lparr>sess_list := remove1 a (sess_list s), mem := (mem s)(a \<mapsto> FreedBlk)\<rparr>"

interpretation sess: removable_registry sess_list "\<lambda>s h. session_of (mem s h)" "\<lambda>s. dom (mem s)"
  insert_session remove_session
  by unfold_locales (auto simp: insert_session_def remove_session_def session_of_def split: option.splits)

section \<open>Sessions through the contract\<close>

text \<open>Every registered session belongs to the only slot.\<close>

definition in_slot :: "session \<Rightarrow> bool" where
  "in_slot x \<longleftrightarrow> si_slotID (session_info x) = TEE_SLOT_ID"

abbreviation sessions_wf :: "'t lib \<Rightarrow> bool" where
  "sessions_wf \<equiv> sess.wf in_slot"

lemma get_session_list_simp [simp]:
  "get_session_list s slotID = (if slotID = TEE_SLOT_ID then Some (sess_list s) else None)"
  by (auto simp: get_session_list_def get_global_slot_info_def word_le_nat_alt word_unat_eq_iff)

lemma is_session_valid_eq:
  "is_session_valid s h = map_option (\<lambda>x. in_slot x \<and> h \<in> set (sess_list s)) (session_of (mem s h))"
  by (cases "session_of (mem s h)") (simp_all add: is_session_valid_def in_slot_def)

lemma get_session_eq:
  "get_session s h = map_option (\<lambda>x. if in_slot x \<and> h \<in> set (sess_list s) then Some x else None)
     (session_of (mem s h))"
  by (cases "session_of (mem s h)") (simp_all add: get_session_def is_session_valid_eq)

lemma session_live:
  assumes "sessions_wf s" and "h \<in> set (sess_list s)"
  obtains x where "mem s h = Some (SessionBlk x)" and "in_slot x" and "get_session s h = Some (Some x)"
    and "is_session_valid s h = Some True"
proof -
  obtain x where "session_of (mem s h) = Some x" "in_slot x"
    using sess.wfD [OF assms] by blast
  with that assms(2) show ?thesis
    by (auto simp: get_session_eq is_session_valid_eq dest!: block_of_SomeD)
qed

lemma is_session_valid_iff:
  "is_session_valid s h = Some True \<longleftrightarrow>
     (\<exists>x. session_of (mem s h) = Some x \<and> in_slot x \<and> h \<in> set (sess_list s))"
  by (auto simp: is_session_valid_eq)

lemma get_session_valid:
  "is_session_valid s h = Some True \<Longrightarrow>
     \<exists>x. mem s h = Some (SessionBlk x) \<and> get_session s h = Some (Some x) \<and> in_slot x \<and> h \<in> set (sess_list s)"
  by (auto simp: get_session_eq is_session_valid_eq dest!: block_of_SomeD)

lemma create_session_eq:
  assumes "malloc E (mallocs s) (dom (mem s)) = Some a" and "slotID = TEE_SLOT_ID"
  shows "create_session E slotID flags s =
    (CKR_OK, Some a, insert_session a (new_session slotID flags) (s\<lparr>mallocs := Suc (mallocs s)\<rparr>))"
  using assms by (simp add: create_session_def do_malloc_def insert_session_def)

lemma delete_session_eq:
  assumes "sessions_wf s" and "h \<in> set (sess_list s)" and "h \<noteq> 0"
  shows "delete_session h s = Some (CKR_OK, remove_session h s)"
proof -
  obtain x where "mem s h = Some (SessionBlk x)" "in_slot x" using session_live [OF assms(1,2)] .
  with assms show ?thesis
    by (simp add: delete_session_def in_slot_def free_block_def remove_session_def)
qed

lemma free_all_live:
  assumes "distinct as" and "\<And>a. a \<in> set as \<Longrightarrow> m a \<noteq> None \<and> m a \<noteq> Some FreedBlk"
  shows "free_all as m = Some (\<lambda>a. if a \<in> set as then Some FreedBlk else m a)"
  using assms
proof (induction as arbitrary: m)
  case Nil
  then show ?case by simp
next
  case (Cons b as)
  have "free_block b m = Some (m(b \<mapsto> FreedBlk))"
    using Cons.prems(2) [of b] by (auto simp: free_block_def split: block.splits)
  moreover have "free_all as (m(b \<mapsto> FreedBlk)) =
      Some (\<lambda>a. if a \<in> set as then Some FreedBlk else (m(b \<mapsto> FreedBlk)) a)"
    by (rule Cons.IH) (use Cons.prems in auto)
  ultimately show ?case by (auto simp: fun_eq_iff)
qed

lemma destroy_session_list_eq:
  assumes "sessions_wf s"
  shows "destroy_session_list TEE_SLOT_ID s = Some (CKR_OK, s\<lparr>sess_list := [],
    mem := (\<lambda>a. if a \<in> set (sess_list s) then Some FreedBlk else mem s a)\<rparr>)"
proof -
  have "free_all (sess_list s) (mem s) =
      Some (\<lambda>a. if a \<in> set (sess_list s) then Some FreedBlk else mem s a)"
    by (rule free_all_live) (use assms in \<open>auto simp: sess.wf_def elim: session_live [OF assms]\<close>)
  then show ?thesis by (simp add: destroy_session_list_def)
qed

section \<open>Properties of sessions\<close>

text \<open>
  \<open>create_session\<close> on every branch. When the allocator answers and the slot exists, the call
  succeeds and hands out a handle no other session has; \<open>get_session\<close> then returns a read-only public
  session of that slot with the caller's flags, no search and no signature under way, and every
  session that was open still has the state it had. A refused call opens nothing: out of memory is
  \<open>CKR_HOST_MEMORY\<close>, an unknown slot \<open>CKR_ARGUMENTS_BAD\<close>. The session list stays well formed.
\<close>

theorem create_session_spec:
  assumes "malloc_ok E" and "sessions_wf s" and "create_session E slotID flags s = (rc, h, s')"
  shows "sessions_wf s' \<and>
    (\<forall>x \<in> set (sess_list s). get_session s' x = get_session s x) \<and>
    (case malloc E (mallocs s) (dom (mem s)) of
       None \<Rightarrow> rc = CKR_HOST_MEMORY \<and> h = None \<and> sess_list s' = sess_list s
     | Some a \<Rightarrow>
        if slotID \<noteq> TEE_SLOT_ID then rc = CKR_ARGUMENTS_BAD \<and> h = None \<and> sess_list s' = sess_list s
        else rc = CKR_OK \<and> h = Some a \<and> a \<notin> set (sess_list s) \<and> sess_list s' = a # sess_list s \<and>
             get_session s' a = Some (Some (new_session slotID flags)))"
proof (cases "malloc E (mallocs s) (dom (mem s))")
  case None
  then have "s' = s\<lparr>mallocs := Suc (mallocs s)\<rparr>" "rc = CKR_HOST_MEMORY" "h = None"
    using assms(3) by (auto simp: create_session_def do_malloc_def)
  moreover have "sessions_wf (s\<lparr>mallocs := Suc (mallocs s)\<rparr>)" using assms(2) by (simp add: sess.wf_def)
  ultimately show ?thesis using None by (simp add: get_session_eq)
next
  case (Some a)
  have new: "mem s a = None" using assms(1) Some by (auto simp: malloc_ok_def)
  have old: "x \<noteq> a" if "x \<in> set (sess_list s)" for x
    using session_live [OF assms(2) that] new by force
  show ?thesis
  proof (cases "slotID = TEE_SLOT_ID")
    case True
    let ?s1 = "s\<lparr>mallocs := Suc (mallocs s)\<rparr>"
    have s': "s' = insert_session a (new_session slotID flags) ?s1" and "rc = CKR_OK" "h = Some a"
      using create_session_eq [OF Some True, of flags] assms(3) by simp_all
    have wf1: "sessions_wf ?s1" using assms(2) by (simp add: sess.wf_def)
    have "sessions_wf s'" unfolding s'
      by (rule sess.wf_ins [OF wf1]) (use old True in \<open>auto simp: in_slot_def new_session_def\<close>)
    with s' \<open>rc = CKR_OK\<close> \<open>h = Some a\<close> Some True old show ?thesis
      by (auto simp: insert_session_def get_session_eq in_slot_def new_session_def)
  next
    case False
    then have s': "s' = s\<lparr>mallocs := Suc (mallocs s), mem := (mem s)(a \<mapsto> FreedBlk)\<rparr>"
      and "rc = CKR_ARGUMENTS_BAD" "h = None"
      using assms(3) Some by (auto simp: create_session_def do_malloc_def)
    have "sessions_wf s'"
      by (rule sess.wf_cong [OF assms(2)]) (use old in \<open>auto simp: s'\<close>)
    with s' \<open>rc = CKR_ARGUMENTS_BAD\<close> \<open>h = None\<close> Some False old show ?thesis
      by (auto simp: get_session_eq)
  qed
qed

theorem create_session_spec_witness:
  "\<exists>s'. create_session sample_env TEE_SLOT_ID 4 (initial_lib ()) = (CKR_OK, Some 16, s') \<and>
        get_session s' 16 = Some (Some (new_session TEE_SLOT_ID 4))"
proof -
  obtain rc h s' where c: "create_session sample_env TEE_SLOT_ID 4 (initial_lib ()) = (rc, h, s')"
    by (cases "create_session sample_env TEE_SLOT_ID 4 (initial_lib ())")
  have m: "malloc sample_env (mallocs (initial_lib ())) (dom (mem (initial_lib ()))) = Some 16"
    by (simp add: sample_env_def sample_malloc_def initial_lib_def)
  have "sessions_wf (initial_lib ())" by (simp add: sess.wf_def initial_lib_def)
  from create_session_spec [OF sample_malloc_ok this c] m c show ?thesis by auto
qed

text \<open>
  \<open>delete_session\<close> of an open session succeeds, closes exactly that session and frees its node;
  every other open session keeps its state and stays valid, and the list stays well formed. Together
  with \<open>create_session\<close> it restores the list of open sessions.
\<close>

theorem delete_session_spec:
  assumes "sessions_wf s" and "h \<in> set (sess_list s)" and "h \<noteq> 0"
  shows "\<exists>s'. delete_session h s = Some (CKR_OK, s') \<and> sessions_wf s' \<and>
    sess_list s' = remove1 h (sess_list s) \<and> h \<notin> set (sess_list s') \<and> mem s' h = Some FreedBlk \<and>
    (\<forall>x \<in> set (sess_list s) - {h}. get_session s' x = get_session s x \<and> is_session_valid s' x = Some True)"
proof (intro exI conjI ballI)
  show "delete_session h s = Some (CKR_OK, remove_session h s)" using delete_session_eq [OF assms] .
  show "sessions_wf (remove_session h s)" using sess.wf_del(1) [OF assms(1)] .
  show "sess_list (remove_session h s) = remove1 h (sess_list s)" by (simp add: remove_session_def)
  show "h \<notin> set (sess_list (remove_session h s))" using sess.wf_del(2) [OF assms(1), of h] by simp
  show "mem (remove_session h s) h = Some FreedBlk" by (simp add: remove_session_def)
next
  fix x
  assume x: "x \<in> set (sess_list s) - {h}"
  then obtain y where y: "mem s x = Some (SessionBlk y)" "in_slot y" "get_session s x = Some (Some y)"
    using session_live [OF assms(1)] by blast
  have "x \<in> set (sess_list (remove_session h s))" using sess.wf_del(2) [OF assms(1), of h] x by simp
  then obtain z where z: "mem (remove_session h s) x = Some (SessionBlk z)"
      "get_session (remove_session h s) x = Some (Some z)" "is_session_valid (remove_session h s) x = Some True"
    using session_live [OF sess.wf_del(1) [OF assms(1)]] by blast
  moreover have "z = y" using x y(1) z(1) by (simp add: remove_session_def)
  ultimately show "get_session (remove_session h s) x = get_session s x"
    and "is_session_valid (remove_session h s) x = Some True" using y by simp_all
qed

theorem delete_session_spec_witness:
  "\<exists>s'. delete_session 16 (insert_session 16 (new_session TEE_SLOT_ID 4) (initial_lib ())) = Some (CKR_OK, s') \<and>
        sess_list s' = []"
proof -
  let ?s = "insert_session 16 (new_session TEE_SLOT_ID 4) (initial_lib ())"
  have "sessions_wf ?s"
    by (simp add: sess.wf_def insert_session_def initial_lib_def in_slot_def new_session_def)
  moreover have "sess_list ?s = [16]" by (simp add: insert_session_def initial_lib_def)
  ultimately show ?thesis using delete_session_spec [of ?s 16] by auto
qed

end
