(* ===== verification/Objects.thy ===== *)
theory Objects
  imports Template Sessions
begin

text \<open>
  Token objects: \<open>src/objects.c\<close> from \<open>map_sk_to_pkcs_attr\<close> on. The library mirrors the keys the
  Secure Object library enumerates as a list of object nodes, each with the template built from the
  attributes it reads back; searches and attribute queries work on this mirror only.
\<close>

section \<open>From Secure Object attributes to Cryptoki attributes\<close>

text \<open>The attribute a call yields when its allocation succeeds; a result \<open>None\<close> goes with an error code.\<close>

definition alloc_attr :: "'t env \<Rightarrow> CK_ATTRIBUTE \<Rightarrow> 't lib \<Rightarrow> CK_RV \<times> CK_ATTRIBUTE option \<times> 't lib" where
  "alloc_attr E a s =
     (let (p, s1) = do_malloc E s in
      if p = None then (CKR_HOST_MEMORY, None, s1) else (CKR_OK, Some a, s1))"

definition copy_attr ::
    "'t env \<Rightarrow> CK_ATTRIBUTE_TYPE \<Rightarrow> SK_ATTRIBUTE \<Rightarrow> 't lib \<Rightarrow> (CK_RV \<times> CK_ATTRIBUTE option \<times> 't lib) option" where
  "copy_attr E ty sk s =
     (let (p, s1) = do_malloc E s in
      if p = None then Some (CKR_HOST_MEMORY, None, s1)
      else do {
        bs \<leftarrow> read_bytes (sk_value sk) (unat (sk_valueLen sk));
        Some (CKR_OK, Some \<lparr>attr_type = ty, pValue = Some bs, ulValueLen = ucast (sk_valueLen sk)\<rparr>, s1) })"

definition map_sk_to_pkcs_attr ::
    "'t env \<Rightarrow> SK_ATTRIBUTE \<Rightarrow> 't lib \<Rightarrow> (CK_RV \<times> CK_ATTRIBUTE option \<times> 't lib) option" where
  "map_sk_to_pkcs_attr E sk s =
     (if sk_type sk = SK_ATTR_OBJECT_TYPE then do {
        sk_obj_type \<leftarrow> deref_u32 (sk_value sk);
        if sk_obj_type = SK_KEY_PAIR then Some (alloc_attr E (ulong_attr CKA_CLASS CKO_PRIVATE_KEY) s)
        else if sk_obj_type = SK_PUBLIC_KEY then Some (alloc_attr E (ulong_attr CKA_CLASS CKO_PUBLIC_KEY) s)
        else Some (CKR_ATTRIBUTE_TYPE_INVALID, None, s) }
      else if sk_type sk = SK_ATTR_KEY_TYPE then do {
        sk_key_type \<leftarrow> deref_u32 (sk_value sk);
        if sk_key_type = SKK_RSA then Some (alloc_attr E (ulong_attr CKA_KEY_TYPE CKK_RSA) s)
        else Some (CKR_ATTRIBUTE_TYPE_INVALID, None, s) }
      else if sk_type sk = SK_ATTR_OBJECT_LABEL then copy_attr E CKA_LABEL sk s
      else if sk_type sk = SK_ATTR_OBJECT_INDEX then copy_attr E CKA_ID sk s
      else if sk_type sk = SK_ATTR_MODULUS_BITS then
        (let (p, s1) = do_malloc E s in
         if p = None then Some (CKR_HOST_MEMORY, None, s1)
         else do {
           bits \<leftarrow> deref_u32 (sk_value sk);
           Some (CKR_OK, Some (ulong_attr CKA_MODULUS_BITS (ucast bits)), s1) })
      else if sk_type sk = SK_ATTR_MODULUS then copy_attr E CKA_MODULUS sk s
      else if sk_type sk = SK_ATTR_PUBLIC_EXPONENT then copy_attr E CKA_PUBLIC_EXPONENT sk s
      else Some (CKR_ATTRIBUTE_TYPE_INVALID, None, s))"

section \<open>Searching\<close>

text \<open>Whether the node at \<open>a\<close> is a hit; a search without a template takes every node.\<close>

definition node_matches :: "heap \<Rightarrow> CK_ATTRIBUTE list option \<Rightarrow> u64 \<Rightarrow> u64 \<Rightarrow> bool option" where
  "node_matches m pTemplate ulCount a = do {
     obj \<leftarrow> object_of (m a);
     if ulCount \<noteq> 0 then p11_template_compare pTemplate ulCount (obj_template obj) else Some True }"

text \<open>The loop of \<open>find_matching_objects\<close>: \<open>i\<close> hits are stored in the array \<open>dst\<close>.\<close>

primrec find_loop ::
    "(u64 \<Rightarrow> bool option) \<Rightarrow> u64 list \<Rightarrow> nat \<Rightarrow> CK_OBJECT_HANDLE list \<Rightarrow> (CK_OBJECT_HANDLE list \<times> nat) option" where
  "find_loop P [] i dst = Some (dst, i)"
| "find_loop P (a # as) i dst = do {
     hit \<leftarrow> P a;
     if \<not> hit then find_loop P as i dst
     else if i < length dst then
       (if MAX_FIND_LIST_OBJECTS < Suc i then Some (dst[i := a], Suc i)
        else find_loop P as (Suc i) (dst[i := a]))
     else None }"

text \<open>\<open>object_handle\<close> is the address of the array; a block that is not live has no writable entry.\<close>

definition find_matching_objects ::
    "u64 \<Rightarrow> CK_OBJECT_HANDLE list \<Rightarrow> CK_ATTRIBUTE list option \<Rightarrow> u64 \<Rightarrow> heap \<Rightarrow> (CK_RV \<times> u64 \<times> heap) option" where
  "find_matching_objects object_handle objs pTemplate ulCount m =
     (let dst = (case handles_of (m object_handle) of Some l \<Rightarrow> l | None \<Rightarrow> []) in do {
        (dst', i) \<leftarrow> find_loop (node_matches m pTemplate ulCount) objs 0 dst;
        Some (CKR_OK, of_nat i,
              case handles_of (m object_handle) of
                Some l \<Rightarrow> m(object_handle \<mapsto> HandleBlk dst') | None \<Rightarrow> m) })"

section \<open>The list of objects\<close>

definition get_object_list :: "'t lib \<Rightarrow> CK_SLOT_ID \<Rightarrow> CK_OBJECT_HANDLE list option" where
  "get_object_list s slotID =
     (if SLOT_COUNT \<le> slotID then None
      else if get_global_slot_info slotID then Some (obj_list s) else None)"

definition initialize_object_list :: "CK_SLOT_ID \<Rightarrow> 't lib \<Rightarrow> CK_RV \<times> 't lib" where
  "initialize_object_list slotID s =
     (if get_object_list s slotID = None then (CKR_ARGUMENTS_BAD, s)
      else (CKR_OK, s\<lparr>obj_list := []\<rparr>))"

text \<open>The template nodes go with the object that owns them.\<close>

definition destroy_object_list :: "CK_SLOT_ID \<Rightarrow> 't lib \<Rightarrow> (CK_RV \<times> 't lib) option" where
  "destroy_object_list slotID s =
     (case get_object_list s slotID of
        None \<Rightarrow> Some (CKR_ARGUMENTS_BAD, s)
      | Some l \<Rightarrow> do { m \<leftarrow> free_all l (mem s); Some (CKR_OK, s\<lparr>obj_list := [], mem := m\<rparr>) })"

definition is_object_handle_valid :: "'t lib \<Rightarrow> CK_OBJECT_HANDLE \<Rightarrow> CK_SLOT_ID \<Rightarrow> bool" where
  "is_object_handle_valid s hObject slotID =
     (case get_object_list s slotID of None \<Rightarrow> False | Some l \<Rightarrow> hObject \<in> set l)"

section \<open>Attribute values\<close>

text \<open>One turn of the loop of \<open>get_attr_value\<close>: the caller's attribute and \<open>ret\<close> afterwards.\<close>

definition get_attr_step :: "template_list \<Rightarrow> CK_ATTRIBUTE \<Rightarrow> CK_RV \<Rightarrow> (CK_ATTRIBUTE \<times> CK_RV) option" where
  "get_attr_step t a ret = do {
     flag \<leftarrow> check_attr_exportability t (attr_type a);
     if \<not> flag then Some (a\<lparr>ulValueLen := CK_UNAVAILABLE_INFORMATION\<rparr>, CKR_ATTRIBUTE_SENSITIVE)
     else case p11_template_check_attr t (attr_type a) of
       None \<Rightarrow> Some (a\<lparr>ulValueLen := CK_UNAVAILABLE_INFORMATION\<rparr>, CKR_ATTRIBUTE_TYPE_INVALID)
     | Some attr \<Rightarrow>
         if pValue a = None then Some (a\<lparr>ulValueLen := ulValueLen attr\<rparr>, ret)
         else if ulValueLen attr \<le> ulValueLen a then do {
           bs \<leftarrow> read_bytes (pValue attr) (unat (ulValueLen attr));
           v \<leftarrow> write_bytes (pValue a) bs;
           Some (a\<lparr>pValue := v, ulValueLen := ulValueLen attr\<rparr>, ret) }
         else Some (a\<lparr>ulValueLen := CK_UNAVAILABLE_INFORMATION\<rparr>, CKR_BUFFER_TOO_SMALL) }"

fun get_attr_loop ::
    "template_list \<Rightarrow> nat \<Rightarrow> CK_ATTRIBUTE list \<Rightarrow> CK_RV \<Rightarrow> (CK_RV \<times> CK_ATTRIBUTE list) option" where
  "get_attr_loop t 0 as ret = Some (ret, as)"
| "get_attr_loop t (Suc n) [] ret = None"
| "get_attr_loop t (Suc n) (a # as) ret = do {
     (a', ret') \<leftarrow> get_attr_step t a ret;
     (rc, as') \<leftarrow> get_attr_loop t n as ret';
     Some (rc, a' # as') }"

definition get_attr_value ::
    "'t lib \<Rightarrow> CK_SESSION_HANDLE \<Rightarrow> CK_OBJECT_HANDLE \<Rightarrow> CK_ATTRIBUTE list option \<Rightarrow> u64 \<Rightarrow>
     (CK_RV \<times> CK_ATTRIBUTE list option) option" where
  "get_attr_value s hSession hObject pTemplate ulCount =
     (case pTemplate of
        None \<Rightarrow> Some (CKR_ARGUMENTS_BAD, None)
      | Some as \<Rightarrow>
          if ulCount = 0 then Some (CKR_ARGUMENTS_BAD, pTemplate)
          else do {
            valid \<leftarrow> is_session_valid s hSession;
            if \<not> valid then Some (CKR_SESSION_HANDLE_INVALID, pTemplate)
            else do {
              p \<leftarrow> get_session s hSession;
              case p of
                None \<Rightarrow> Some (CKR_SESSION_HANDLE_INVALID, pTemplate)
              | Some sess \<Rightarrow>
                  if \<not> is_object_handle_valid s hObject (si_slotID (session_info sess))
                  then Some (CKR_OBJECT_HANDLE_INVALID, pTemplate)
                  else do {
                    obj \<leftarrow> object_of (mem s hObject);
                    (rc, as') \<leftarrow> get_attr_loop (obj_template obj) (unat ulCount) as CKR_OK;
                    Some (rc, Some as') } } })"

section \<open>Mirroring the token\<close>

definition rsa_pub_attr_type :: "u32 list" where
  "rsa_pub_attr_type = [SK_ATTR_OBJECT_LABEL, SK_ATTR_OBJECT_INDEX, SK_ATTR_MODULUS,
     SK_ATTR_PUBLIC_EXPONENT, SK_ATTR_MODULUS_BITS]"

definition rsa_priv_attr_type :: "u32 list" where
  "rsa_priv_attr_type = [SK_ATTR_OBJECT_LABEL, SK_ATTR_OBJECT_INDEX, SK_ATTR_MODULUS,
     SK_ATTR_PUBLIC_EXPONENT]"

text \<open>The call of \<open>SK_GetObjectAttribute\<close> on an array of attributes, which keeps its length.\<close>

definition sk_get_attributes ::
    "'t SK_FUNCTION_LIST \<Rightarrow> SK_OBJECT_HANDLE \<Rightarrow> SK_ATTRIBUTE list \<Rightarrow> 't lib \<Rightarrow>
     (SK_RET_CODE \<times> SK_ATTRIBUTE list \<times> 't lib) option" where
  "sk_get_attributes fns h as s = do {
     (ret, as', t) \<leftarrow> SK_GetObjectAttribute_fn fns h as (tee s);
     if length as' = length as then Some (ret, as', s\<lparr>tee := t\<rparr>) else None }"

text \<open>
  One turn of the second loop of \<open>object_add_template\<close>, over the lengths the first call returned:
  an attribute the token does not have is skipped, another is read into a fresh buffer, converted
  and added.
\<close>

definition add_template_step ::
    "'t env \<Rightarrow> 't SK_FUNCTION_LIST \<Rightarrow> SK_ATTRIBUTE \<Rightarrow> OBJECT \<Rightarrow> 't lib \<Rightarrow> (CK_RV \<times> OBJECT \<times> 't lib) option" where
  "add_template_step E fns a obj s =
     (if sk_valueLen a = 0xFFFF then Some (CKR_OK, obj, s)
      else let (p, s1) = do_malloc E s in
      if p = None then Some (CKR_HOST_MEMORY, obj, s1)
      else do {
        (ret, bs, s2) \<leftarrow> sk_get_attributes fns (sk_obj_handle obj)
          [\<lparr>sk_type = sk_type a, sk_value = Some (fresh_bytes E s (unat (sk_valueLen a))),
            sk_valueLen = sk_valueLen a\<rparr>] s1;
        if ret \<noteq> SKR_OK then Some (CKR_GENERAL_ERROR, obj, s2)
        else do {
          (rc, ck, s3) \<leftarrow> map_sk_to_pkcs_attr E (hd bs) s2;
          case ck of
            None \<Rightarrow> Some (CKR_GENERAL_ERROR, obj, s3)
          | Some ck_attr \<Rightarrow> do {
              (rc, tmpl, s4) \<leftarrow> p11_template_add_attr E [ck_attr] (obj_template obj) s3;
              Some (rc, obj\<lparr>obj_template := tmpl\<rparr>, s4) } } })"

primrec add_template_loop ::
    "'t env \<Rightarrow> 't SK_FUNCTION_LIST \<Rightarrow> SK_ATTRIBUTE list \<Rightarrow> OBJECT \<Rightarrow> 't lib \<Rightarrow> (CK_RV \<times> OBJECT \<times> 't lib) option" where
  "add_template_loop E fns [] obj s = Some (CKR_OK, obj, s)"
| "add_template_loop E fns (a # as) obj s = do {
     (rc, obj', s') \<leftarrow> add_template_step E fns a obj s;
     if rc \<noteq> CKR_OK then Some (rc, obj', s') else add_template_loop E fns as obj' s' }"

definition object_add_template ::
    "'t env \<Rightarrow> OBJECT \<Rightarrow> u32 list \<Rightarrow> 't lib \<Rightarrow> (CK_RV \<times> OBJECT \<times> 't lib) option" where
  "object_add_template E obj sk_attr_type s =
     (case get_slot_function_list E s (obj_slotID obj) of
        None \<Rightarrow> Some (CKR_ARGUMENTS_BAD, obj, s)
      | Some fns \<Rightarrow> do {
          (ret, as, s1) \<leftarrow> sk_get_attributes fns (sk_obj_handle obj)
            (map (\<lambda>ty. \<lparr>sk_type = ty, sk_value = None, sk_valueLen = 0\<rparr>) sk_attr_type) s;
          if ret \<noteq> SKR_OK then Some (CKR_GENERAL_ERROR, obj, s1)
          else add_template_loop E fns as obj s1 })"

text \<open>The node after \<open>memset\<close> and the assignments to its handle and slot.\<close>

definition new_object :: "SK_OBJECT_HANDLE \<Rightarrow> CK_SLOT_ID \<Rightarrow> OBJECT" where
  "new_object hObject slotID = \<lparr>sk_obj_handle = hObject, obj_class = 0, obj_subclass = 0,
     obj_template = [], obj_slotID = slotID\<rparr>"

definition create_key_object ::
    "u32 list \<Rightarrow> 't env \<Rightarrow> SK_OBJECT_HANDLE \<Rightarrow> CK_SLOT_ID \<Rightarrow> 't lib \<Rightarrow> (CK_RV \<times> u64 option \<times> 't lib) option" where
  "create_key_object types E hObject slotID s =
     (let (p, s1) = do_malloc E s in
      case p of
        None \<Rightarrow> Some (CKR_HOST_MEMORY, None, s1)
      | Some a \<Rightarrow> do {
          (rc, obj, s2) \<leftarrow> object_add_template E (new_object hObject slotID) types
             (s1\<lparr>mem := (mem s1)(a \<mapsto> ObjectBlk (new_object hObject slotID))\<rparr>);
          if rc \<noteq> CKR_OK then Some (rc, None, s2\<lparr>mem := (mem s2)(a \<mapsto> FreedBlk)\<rparr>)
          else Some (CKR_OK, Some a, s2\<lparr>mem := (mem s2)(a \<mapsto> ObjectBlk obj)\<rparr>) })"

definition create_rsa_pub_key_object ::
    "'t env \<Rightarrow> SK_OBJECT_HANDLE \<Rightarrow> CK_SLOT_ID \<Rightarrow> 't lib \<Rightarrow> (CK_RV \<times> u64 option \<times> 't lib) option" where
  "create_rsa_pub_key_object = create_key_object rsa_pub_attr_type"

definition create_rsa_priv_key_object ::
    "'t env \<Rightarrow> SK_OBJECT_HANDLE \<Rightarrow> CK_SLOT_ID \<Rightarrow> 't lib \<Rightarrow> (CK_RV \<times> u64 option \<times> 't lib) option" where
  "create_rsa_priv_key_object = create_key_object rsa_priv_attr_type"

text \<open>
  What \<open>get_all_token_objects\<close> does with a node \<open>create\<close> made: class and subclass, the defaults, and
  the insertion at the head of the list. When the defaults fail, the node stays allocated and
  unlisted.
\<close>

definition publish_object :: "'t env \<Rightarrow> u64 \<Rightarrow> CK_RV \<times> u64 option \<times> 't lib \<Rightarrow> (CK_RV \<times> 't lib) option" where
  "publish_object E cls r =
     (case r of (rc, p, s1) \<Rightarrow>
       (case (rc, p) of
          (CKR_OK, Some a) \<Rightarrow> do {
            obj \<leftarrow> object_of (mem s1 a);
            let (rc2, obj2, s2) = p11_template_add_default_attr E
                  (obj\<lparr>obj_class := cls, obj_subclass := CKK_RSA\<rparr>) s1;
            let s3 = s2\<lparr>mem := (mem s2)(a \<mapsto> ObjectBlk obj2)\<rparr>;
            if rc2 \<noteq> CKR_OK then Some (rc2, s3)
            else Some (CKR_OK, s3\<lparr>obj_list := a # obj_list s3\<rparr>) }
        | _ \<Rightarrow> Some (rc, s1)))"

definition add_rsa_pub_key :: "'t env \<Rightarrow> SK_OBJECT_HANDLE \<Rightarrow> CK_SLOT_ID \<Rightarrow> 't lib \<Rightarrow> (CK_RV \<times> 't lib) option" where
  "add_rsa_pub_key E h slotID s = do {
     r \<leftarrow> create_rsa_pub_key_object E h slotID s;
     publish_object E CKO_PUBLIC_KEY r }"

definition add_rsa_priv_key :: "'t env \<Rightarrow> SK_OBJECT_HANDLE \<Rightarrow> CK_SLOT_ID \<Rightarrow> 't lib \<Rightarrow> (CK_RV \<times> 't lib) option" where
  "add_rsa_priv_key E h slotID s = do {
     r \<leftarrow> create_rsa_priv_key_object E h slotID s;
     publish_object E CKO_PRIVATE_KEY r }"

text \<open>The \<open>switch\<close> over the type of object and key: a pair gives two objects, other keys none.\<close>

definition mirror_keys ::
    "'t env \<Rightarrow> CK_SLOT_ID \<Rightarrow> SK_OBJECT_HANDLE \<Rightarrow> u32 \<Rightarrow> u32 \<Rightarrow> 't lib \<Rightarrow> (CK_RV \<times> 't lib) option" where
  "mirror_keys E slotID h obj_type key_type s =
     (if obj_type = SK_KEY_PAIR then
        (if key_type = SKK_RSA then do {
           (rc, s1) \<leftarrow> add_rsa_pub_key E h slotID s;
           if rc \<noteq> CKR_OK then Some (rc, s1) else add_rsa_priv_key E h slotID s1 }
         else Some (CKR_OK, s))
      else if obj_type = SK_PUBLIC_KEY then
        (if key_type = SKK_RSA then add_rsa_pub_key E h slotID s else Some (CKR_OK, s))
      else Some (CKR_OK, s))"

text \<open>
  One turn of the loop over the handles. \<open>ot\<close> and \<open>kt\<close> are the bytes of the local variables
  \<open>obj_type\<close> and \<open>key_type\<close>, which keep their contents from turn to turn.
\<close>

definition mirror_object ::
    "'t env \<Rightarrow> 't SK_FUNCTION_LIST \<Rightarrow> CK_SLOT_ID \<Rightarrow> SK_OBJECT_HANDLE \<Rightarrow> byte list \<Rightarrow> byte list \<Rightarrow> 't lib \<Rightarrow>
     (CK_RV \<times> byte list \<times> byte list \<times> 't lib) option" where
  "mirror_object E fns slotID h ot kt s = do {
     (ret, as, s1) \<leftarrow> sk_get_attributes fns h
       [\<lparr>sk_type = SK_ATTR_OBJECT_TYPE, sk_value = Some ot, sk_valueLen = 4\<rparr>,
        \<lparr>sk_type = SK_ATTR_KEY_TYPE, sk_value = Some kt, sk_valueLen = 4\<rparr>] s;
     if ret \<noteq> SKR_OK then Some (CKR_GENERAL_ERROR, ot, kt, s1)
     else do {
       obj_type \<leftarrow> deref_u32 (sk_value (as ! 0));
       key_type \<leftarrow> deref_u32 (sk_value (as ! 1));
       (rc, s2) \<leftarrow> mirror_keys E slotID h obj_type key_type s1;
       Some (rc, put_u32 obj_type, put_u32 key_type, s2) } }"

primrec mirror_loop ::
    "'t env \<Rightarrow> 't SK_FUNCTION_LIST \<Rightarrow> CK_SLOT_ID \<Rightarrow> SK_OBJECT_HANDLE list \<Rightarrow> byte list \<Rightarrow> byte list \<Rightarrow> 't lib \<Rightarrow>
     (CK_RV \<times> 't lib) option" where
  "mirror_loop E fns slotID [] ot kt s = Some (CKR_OK, s)"
| "mirror_loop E fns slotID (h # hs) ot kt s = do {
     (rc, ot', kt', s1) \<leftarrow> mirror_object E fns slotID h ot kt s;
     if rc \<noteq> CKR_OK then Some (rc, s1) else mirror_loop E fns slotID hs ot' kt' s1 }"

definition get_all_token_objects :: "'t env \<Rightarrow> CK_SLOT_ID \<Rightarrow> 't lib \<Rightarrow> (CK_RV \<times> 't lib) option" where
  "get_all_token_objects E slotID s =
     (case get_slot_function_list E s slotID of
        None \<Rightarrow> Some (CKR_ARGUMENTS_BAD, s)
      | Some fns \<Rightarrow> do {
          (ret, objs, t) \<leftarrow> SK_EnumerateObjects_fn fns [] MAX_FIND_LIST_OBJECTS (tee s);
          if ret \<noteq> SKR_OK then Some (CKR_GENERAL_ERROR, s\<lparr>tee := t\<rparr>)
          else if MAX_FIND_LIST_OBJECTS < length objs then None
          else mirror_loop E fns slotID objs (fresh_bytes E s 4) (fresh_bytes E s 4) (s\<lparr>tee := t\<rparr>) })"

section \<open>Searching: what the loop computes\<close>

lemma find_loop_bounded:
  assumes "\<And>a. a \<in> set as \<Longrightarrow> P a = Some (p a)"
    and "i + length (filter p as) \<le> MAX_FIND_LIST_OBJECTS" and "length dst = MAX_FIND_LIST_OBJECTS"
  shows "find_loop P as i dst =
    Some (take i dst @ filter p as @ drop (i + length (filter p as)) dst, i + length (filter p as))"
  using assms
proof (induction as arbitrary: i dst)
  case Nil
  then show ?case by simp
next
  case (Cons a as)
  show ?case
  proof (cases "p a")
    case False
    with Cons show ?thesis by simp
  next
    case True
    then have i: "i < length dst" "Suc i \<le> MAX_FIND_LIST_OBJECTS" using Cons.prems(2,3) by auto
    have "find_loop P as (Suc i) (dst[i := a]) =
        Some (take (Suc i) (dst[i := a]) @ filter p as @ drop (Suc i + length (filter p as)) (dst[i := a]),
              Suc i + length (filter p as))"
      by (rule Cons.IH) (use Cons.prems True in auto)
    with Cons.prems(1) [of a] True i show ?thesis
      by (simp add: take_Suc_conv_app_nth upd_conv_take_nth_drop add.commute)
  qed
qed

lemma find_loop_overflow:
  assumes "\<And>a. a \<in> set as \<Longrightarrow> P a = Some (p a)"
    and "length dst < i + length (filter p as)" and "i \<le> length dst" and "length dst \<le> MAX_FIND_LIST_OBJECTS"
  shows "find_loop P as i dst = None"
  using assms
proof (induction as arbitrary: i dst)
  case Nil
  then show ?case by simp
next
  case (Cons a as)
  show ?case
  proof (cases "p a")
    case False
    with Cons show ?thesis by simp
  next
    case True
    have "find_loop P as (Suc i) (dst[i := a]) = None" if "i < length dst"
      by (rule Cons.IH) (use Cons.prems True that in auto)
    with Cons.prems(1) [of a] Cons.prems(4) True show ?thesis by auto
  qed
qed

section \<open>The objects of the slot\<close>

lemma get_object_list_simp [simp]:
  "get_object_list s slotID = (if slotID = TEE_SLOT_ID then Some (obj_list s) else None)"
  by (auto simp: get_object_list_def get_global_slot_info_def word_le_nat_alt word_unat_eq_iff)

definition insert_object :: "u64 \<Rightarrow> OBJECT \<Rightarrow> 't lib \<Rightarrow> 't lib" where
  "insert_object a x s = s\<lparr>mem := (mem s)(a \<mapsto> ObjectBlk x), obj_list := a # obj_list s\<rparr>"

interpretation obj: registry obj_list "\<lambda>s h. object_of (mem s h)" "\<lambda>s. dom (mem s)" insert_object
  by unfold_locales (auto simp: insert_object_def object_of_def split: option.splits)

text \<open>Every listed object is an RSA key whose template has the shape of its class.\<close>

definition key_object :: "OBJECT \<Rightarrow> bool" where
  "key_object x \<longleftrightarrow> obj_class x \<in> {CKO_PUBLIC_KEY, CKO_PRIVATE_KEY} \<and> obj_subclass x = CKK_RSA \<and>
     obj_slotID x = TEE_SLOT_ID \<and> key_template (obj_class x) (obj_template x)"

abbreviation objects_wf :: "'t lib \<Rightarrow> bool" where
  "objects_wf \<equiv> obj.wf key_object"

lemma object_live:
  assumes "objects_wf s" and "h \<in> set (obj_list s)"
  obtains x where "mem s h = Some (ObjectBlk x)" and "key_object x"
  using obj.wfD [OF assms] by (auto dest: block_of_SomeD)

section \<open>Attribute queries: the reference\<close>

definition rsa_secret_types :: "CK_ATTRIBUTE_TYPE set" where
  "rsa_secret_types = {CKA_PRIVATE_EXPONENT, CKA_PRIME_1, CKA_PRIME_2, CKA_EXPONENT_1, CKA_EXPONENT_2,
     CKA_COEFFICIENT}"

text \<open>What the PKCS\#11 rules of \<open>C_GetAttributeValue\<close> ask for one attribute of a key.\<close>

definition attr_answer :: "OBJECT \<Rightarrow> CK_ATTRIBUTE \<Rightarrow> CK_ATTRIBUTE \<times> CK_RV" where
  "attr_answer x a =
     (if obj_class x = CKO_PRIVATE_KEY \<and> attr_type a \<in> rsa_secret_types
      then (a\<lparr>ulValueLen := CK_UNAVAILABLE_INFORMATION\<rparr>, CKR_ATTRIBUTE_SENSITIVE)
      else case p11_template_check_attr (obj_template x) (attr_type a) of
        None \<Rightarrow> (a\<lparr>ulValueLen := CK_UNAVAILABLE_INFORMATION\<rparr>, CKR_ATTRIBUTE_TYPE_INVALID)
      | Some b \<Rightarrow>
         (case pValue a of
            None \<Rightarrow> (a\<lparr>ulValueLen := ulValueLen b\<rparr>, CKR_OK)
          | Some buf \<Rightarrow>
              if ulValueLen b \<le> ulValueLen a
              then (a\<lparr>pValue := Some (attr_bytes b @ drop (unat (ulValueLen b)) buf), ulValueLen := ulValueLen b\<rparr>, CKR_OK)
              else (a\<lparr>ulValueLen := CK_UNAVAILABLE_INFORMATION\<rparr>, CKR_BUFFER_TOO_SMALL)))"

definition last_error :: "CK_RV \<Rightarrow> CK_RV list \<Rightarrow> CK_RV" where
  "last_error = foldl (\<lambda>r e. if e = CKR_OK then r else e)"

text \<open>The caller's buffer is as long as it says.\<close>

definition attr_writable :: "CK_ATTRIBUTE \<Rightarrow> bool" where
  "attr_writable a \<longleftrightarrow> (case pValue a of None \<Rightarrow> True | Some buf \<Rightarrow> unat (ulValueLen a) \<le> length buf)"

lemma wf_attr_bytes:
  assumes "wf_attr a"
  shows "read_bytes (pValue a) (unat (ulValueLen a)) = Some (attr_bytes a)"
    and "length (attr_bytes a) = unat (ulValueLen a)"
proof -
  show r: "read_bytes (pValue a) (unat (ulValueLen a)) = Some (attr_bytes a)"
    using wf_attr_readable [OF assms] by (simp add: attr_readable_def attr_bytes_def)
  show "length (attr_bytes a) = unat (ulValueLen a)" using read_bytes_SomeD [OF r] .
qed

lemma get_attr_step_key:
  assumes "key_object x" and "attr_writable a"
  shows "get_attr_step (obj_template x) a ret =
    Some (fst (attr_answer x a), last_error ret [snd (attr_answer x a)])"
proof -
  have kt: "key_template (obj_class x) (obj_template x)"
    and cls: "obj_class x \<in> {CKO_PUBLIC_KEY, CKO_PRIVATE_KEY}" and wf: "wf_template (obj_template x)"
    using assms(1) by (auto simp: key_object_def key_template_def)
  have e: "check_attr_exportability (obj_template x) (attr_type a) =
      Some (\<not> (obj_class x = CKO_PRIVATE_KEY \<and> attr_type a \<in> rsa_secret_types))"
    using exportable_key_template [OF kt cls]
    by (auto simp: check_rsa_privk_exportability_def rsa_secret_types_def)
  show ?thesis
  proof (cases "p11_template_check_attr (obj_template x) (attr_type a)")
    case None
    then show ?thesis unfolding get_attr_step_def e by (auto simp: attr_answer_def last_error_def)
  next
    case (Some b)
    then have b: "wf_attr b" using wf_template_lookup [OF wf] by blast
    show ?thesis
      unfolding get_attr_step_def e using Some assms(2) wf_attr_bytes [OF b]
      by (auto simp: attr_answer_def last_error_def attr_writable_def write_bytes_def word_le_nat_alt
          split: option.splits)
  qed
qed

lemma get_attr_loop_key:
  assumes "key_object x"
  shows "n \<le> length as \<Longrightarrow> list_all attr_writable (take n as) \<Longrightarrow>
    get_attr_loop (obj_template x) n as ret =
      Some (last_error ret (map (snd \<circ> attr_answer x) (take n as)),
            map (fst \<circ> attr_answer x) (take n as) @ drop n as)"
  by (induction "obj_template x" n as ret rule: get_attr_loop.induct)
    (auto simp: get_attr_step_key assms last_error_def)

lemma get_attr_value_key:
  assumes "is_session_valid s hS = Some True" and "h \<in> set (obj_list s)"
    and "mem s h = Some (ObjectBlk x)" and "key_object x"
    and "n \<noteq> 0" and "unat n \<le> length as" and "list_all attr_writable (take (unat n) as)"
  shows "get_attr_value s hS h (Some as) n =
    Some (last_error CKR_OK (map (snd \<circ> attr_answer x) (take (unat n) as)),
          Some (map (fst \<circ> attr_answer x) (take (unat n) as) @ drop (unat n) as))"
proof -
  obtain y where "get_session s hS = Some (Some y)" "in_slot y"
    using get_session_valid [OF assms(1)] by blast
  with assms show ?thesis
    by (simp add: get_attr_value_def is_object_handle_valid_def in_slot_def get_attr_loop_key)
qed

section \<open>Mirroring the token: frame and invariant\<close>

text \<open>
  The part of the state that filling the mirror leaves alone, and what it may do to the rest: the
  heap changes only at addresses that were new.
\<close>

definition core ::
    "'t lib \<Rightarrow> bool \<times> locking option \<times> bool option \<times> u64 \<times> u64 list \<times> bool \<times> bool \<times> CK_INFO \<times> nat" where
  "core s = (initialized s, global_locking s, global_lock s, slot_id s, sess_list s, sk_funcs s,
     shared_lib_handle s, cryptoki_info s, callbacks s)"

definition grows :: "'t lib \<Rightarrow> 't lib \<Rightarrow> bool" where
  "grows s s' \<longleftrightarrow> core s' = core s \<and> (\<forall>a \<in> dom (mem s). mem s' a = mem s a)"

definition quiet :: "'t lib \<Rightarrow> 't lib \<Rightarrow> bool" where
  "quiet s s' \<longleftrightarrow> core s' = core s \<and> mem s' = mem s \<and> obj_list s' = obj_list s"

lemma grows_refl [simp]: "grows s s"
  by (simp add: grows_def)

lemma quiet_refl [simp]: "quiet s s"
  by (simp add: quiet_def)

lemma grows_trans: "grows s s' \<Longrightarrow> grows s' s'' \<Longrightarrow> grows s s''"
  unfolding grows_def by (metis domIff)

lemma quiet_trans: "quiet s s' \<Longrightarrow> quiet s' s'' \<Longrightarrow> quiet s s''"
  by (simp add: quiet_def)

lemma quiet_grows: "quiet s s' \<Longrightarrow> grows s s'"
  by (simp add: quiet_def grows_def)

lemma quiet_frame: "quiet s s' \<Longrightarrow> mem s' = mem s \<and> obj_list s' = obj_list s \<and> sk_funcs s' = sk_funcs s"
  by (simp add: quiet_def core_def)

lemma grows_dom: "grows s s' \<Longrightarrow> dom (mem s) \<subseteq> dom (mem s')"
  unfolding grows_def by (metis domIff subsetI)

lemma core_updates [simp]:
  "core (s\<lparr>mallocs := k\<rparr>) = core s" "core (s\<lparr>tee := t\<rparr>) = core s"
  "core (s\<lparr>mem := m\<rparr>) = core s" "core (s\<lparr>obj_list := l\<rparr>) = core s"
  by (simp_all add: core_def)

lemma quiet_mallocs: "s' = s\<lparr>mallocs := mallocs s'\<rparr> \<Longrightarrow> quiet s s'"
  unfolding quiet_def by (metis core_updates(1) lib.select_convs(5,10) lib.surjective lib.update_convs(11))

lemma do_malloc_quiet: "do_malloc E s = (p, s') \<Longrightarrow> quiet s s'"
  by (auto simp: do_malloc_def quiet_def)

lemma sk_get_attributes_quiet: "sk_get_attributes fns h as s = Some (ret, as', s') \<Longrightarrow> quiet s s' \<and> length as' = length as"
  by (auto simp: sk_get_attributes_def quiet_def split: bind_splits prod.splits if_splits)

lemma alloc_attr_quiet: "alloc_attr E a s = (rc, ck, s') \<Longrightarrow> quiet s s' \<and> (\<forall>c. ck = Some c \<longrightarrow> c = a)"
  by (auto simp: alloc_attr_def Let_def split: prod.splits if_splits dest: do_malloc_quiet)

lemma copy_attr_quiet:
  "copy_attr E ty sk s = Some (rc, ck, s') \<Longrightarrow> quiet s s' \<and> (\<forall>c. ck = Some c \<longrightarrow> attr_type c = ty)"
  by (auto simp: copy_attr_def Let_def split: prod.splits if_splits bind_splits dest: do_malloc_quiet)

lemma map_sk_quiet:
  assumes "map_sk_to_pkcs_attr E sk s = Some (rc, ck, s')"
  shows "quiet s s' \<and> (\<forall>c. ck = Some c \<longrightarrow> attr_type c \<in> mirrored_types)"
  using assms unfolding map_sk_to_pkcs_attr_def
  by (auto simp: mirrored_types_def ulong_attr_def Let_def split: if_splits bind_splits prod.splits
      dest!: alloc_attr_quiet copy_attr_quiet dest: do_malloc_quiet)

text \<open>A template under construction: well formed, with attributes of the token only.\<close>

definition partial_key :: "OBJECT \<Rightarrow> OBJECT \<Rightarrow> bool" where
  "partial_key x y \<longleftrightarrow> y = x\<lparr>obj_template := obj_template y\<rparr> \<and>
     (wf_template (obj_template x) \<and> types_of (obj_template x) \<subseteq> mirrored_types \<longrightarrow>
      wf_template (obj_template y) \<and> types_of (obj_template y) \<subseteq> mirrored_types)"

lemma partial_key_add:
  assumes "p11_template_add_attr E [c] (obj_template x) s = Some (rc, t, s')" and "attr_type c \<in> mirrored_types"
  shows "partial_key x (x\<lparr>obj_template := t\<rparr>)" and "quiet s s'"
proof -
  show "partial_key x (x\<lparr>obj_template := t\<rparr>)"
    using assms(2) add_attr_wf [OF assms(1)] add_attr_types [OF assms(1)]
    by (auto simp: partial_key_def types_of_def [of "[c]"])
  show "quiet s s'" using add_attr_frame [OF assms(1)] by (rule quiet_mallocs)
qed

lemma partial_key_trans: "partial_key x y \<Longrightarrow> partial_key y z \<Longrightarrow> partial_key x z"
  by (cases x; cases y; cases z) (auto simp: partial_key_def)

lemma add_template_step_partial:
  assumes "add_template_step E fns a obj s = Some (rc, obj', s')"
  shows "partial_key obj obj' \<and> quiet s s'"
proof (cases "sk_valueLen a = 0xFFFF \<or> fst (do_malloc E s) = None")
  case True
  then show ?thesis
    using assms by (auto simp: add_template_step_def partial_key_def split: if_splits prod.splits
        dest: do_malloc_quiet)
next
  case False
  obtain p s1 where m: "do_malloc E s = (Some p, s1)" using False by (cases "do_malloc E s") auto
  from False assms m obtain ret bs s2 where g: "sk_get_attributes fns (sk_obj_handle obj)
        [\<lparr>sk_type = sk_type a, sk_value = Some (fresh_bytes E s (unat (sk_valueLen a))),
          sk_valueLen = sk_valueLen a\<rparr>] s1 = Some (ret, bs, s2)"
    by (auto simp: add_template_step_def split: bind_splits)
  have q2: "quiet s s2"
    using quiet_trans [OF do_malloc_quiet [OF m]] sk_get_attributes_quiet [OF g] by blast
  show ?thesis
  proof (cases "ret = SKR_OK")
    case no: False
    with False assms m g q2 show ?thesis by (auto simp: add_template_step_def partial_key_def)
  next
    case ok: True
    with False assms m g obtain rc3 ck s3 where k: "map_sk_to_pkcs_attr E (hd bs) s2 = Some (rc3, ck, s3)"
      by (auto simp: add_template_step_def split: bind_splits)
    have q3: "quiet s s3" using quiet_trans [OF q2] map_sk_quiet [OF k] by blast
    show ?thesis
    proof (cases ck)
      case None
      with ok False assms m g k q3 show ?thesis by (auto simp: add_template_step_def partial_key_def)
    next
      case (Some c)
      with ok False assms m g k obtain t where
          "p11_template_add_attr E [c] (obj_template obj) s3 = Some (rc, t, s')" "obj' = obj\<lparr>obj_template := t\<rparr>"
        by (auto simp: add_template_step_def simp del: p11_template_add_attr.simps split: bind_splits)
      with partial_key_add [of E c obj s3 rc t s'] map_sk_quiet [OF k] Some quiet_trans [OF q3]
      show ?thesis by blast
    qed
  qed
qed

lemma add_template_loop_partial:
  "add_template_loop E fns as obj s = Some (rc, obj', s') \<Longrightarrow> partial_key obj obj' \<and> quiet s s'"
proof (induction as arbitrary: obj s)
  case Nil
  then show ?case by (simp add: partial_key_def)
next
  case (Cons a as)
  then obtain rc1 obj1 s1 where "add_template_step E fns a obj s = Some (rc1, obj1, s1)"
    by (auto split: bind_splits)
  with Cons add_template_step_partial [OF this] show ?case
    by (auto split: if_splits intro: partial_key_trans quiet_trans)
qed

lemma object_add_template_partial:
  "object_add_template E obj types s = Some (rc, obj', s') \<Longrightarrow> partial_key obj obj' \<and> quiet s s'"
  unfolding object_add_template_def
  by (auto simp: partial_key_def split: option.splits bind_splits if_splits prod.splits
      dest!: sk_get_attributes_quiet add_template_loop_partial intro: quiet_trans)

text \<open>A node that is made is new, and it holds a template with nothing but mirrored attributes.\<close>

lemma create_key_object_spec:
  assumes "malloc_ok E" and "create_key_object types E h slotID s = Some (rc, p, s')"
  shows "grows s s' \<and> obj_list s' = obj_list s \<and>
    (case p of None \<Rightarrow> rc \<noteq> CKR_OK
     | Some a \<Rightarrow> rc = CKR_OK \<and> a \<notin> dom (mem s) \<and>
        (\<exists>x. mem s' a = Some (ObjectBlk x) \<and> partial_key (new_object h slotID) x))"
proof -
  obtain q s1 where m: "do_malloc E s = (q, s1)" by (cases "do_malloc E s")
  note d = do_malloc_quiet [OF m]
  show ?thesis
  proof (cases q)
    case None
    with assms(2) m d show ?thesis by (auto simp: create_key_object_def quiet_grows quiet_frame)
  next
    case (Some a)
    have new: "mem s a = None" using malloc_okD(2) [OF assms(1)] m Some by blast
    let ?s1 = "s1\<lparr>mem := (mem s1)(a \<mapsto> ObjectBlk (new_object h slotID))\<rparr>"
    from assms(2) m Some obtain rc2 obj s2 where
        o: "object_add_template E (new_object h slotID) types ?s1 = Some (rc2, obj, s2)"
      by (auto simp: create_key_object_def split: bind_splits)
    with assms(2) m Some new d object_add_template_partial [OF o] show ?thesis
      by (auto simp: create_key_object_def grows_def quiet_def split: if_splits)
  qed
qed

lemma grows_block:
  assumes "grows s s'"
  shows "session_of (mem s a) = Some x \<Longrightarrow> session_of (mem s' a) = Some x"
    and "object_of (mem s a) = Some y \<Longrightarrow> object_of (mem s' a) = Some y"
    and "handles_of (mem s a) = Some z \<Longrightarrow> handles_of (mem s' a) = Some z"
  using assms [unfolded grows_def, THEN conjunct2, rule_format, of a]
  by (auto simp: domIff dest!: block_of_SomeD)

lemma objects_wf_grows: "objects_wf s \<Longrightarrow> obj_list s' = obj_list s \<Longrightarrow> grows s s' \<Longrightarrow> objects_wf s'"
  by (erule obj.wf_cong) (auto dest: grows_block)

lemma sessions_wf_grows: "sessions_wf s \<Longrightarrow> grows s s' \<Longrightarrow> sessions_wf s'"
  by (erule sess.wf_cong) (auto simp: grows_def [THEN iffD1, THEN conjunct1] dest: grows_block, simp add: grows_def core_def)

lemma key_object_defaults_added:
  assumes "partial_key (new_object h TEE_SLOT_ID) x" and "cls \<in> {CKO_PUBLIC_KEY, CKO_PRIVATE_KEY}"
    and "p11_template_add_default_attr E (x\<lparr>obj_class := cls, obj_subclass := CKK_RSA\<rparr>) s = (CKR_OK, y, s')"
  shows "key_object y \<and> obj_class y = cls \<and> sk_obj_handle y = h"
proof -
  have x: "x = (new_object h TEE_SLOT_ID)\<lparr>obj_template := obj_template x\<rparr>"
    and wf: "wf_template (obj_template x)" "types_of (obj_template x) \<subseteq> mirrored_types"
    using assms(1) by (auto simp: partial_key_def new_object_def types_of_def [of "[]"])
  have y: "y = x\<lparr>obj_class := cls, obj_subclass := CKK_RSA,
      obj_template := fold p11_template_update_attr (class_defaults cls) (obj_template x)\<rparr>"
    using add_default_attr_OK(3) [OF assms(3)] by simp
  have "sk_obj_handle x = h" "obj_slotID x = TEE_SLOT_ID" by (subst x, simp add: new_object_def)+
  with y assms(2) key_template_defaults [OF wf] show ?thesis by (simp add: key_object_def)
qed

text \<open>Adding one key: a new well-formed object of the class at the head of the list, or an error.\<close>

definition key_added :: "SK_OBJECT_HANDLE \<Rightarrow> u64 \<Rightarrow> 't lib \<Rightarrow> CK_RV \<Rightarrow> 't lib \<Rightarrow> bool" where
  "key_added h cls s rc s' \<longleftrightarrow> objects_wf s' \<and> grows s s' \<and>
     (if rc \<noteq> CKR_OK then obj_list s' = obj_list s
      else \<exists>a x. a \<notin> dom (mem s) \<and> obj_list s' = a # obj_list s \<and> mem s' a = Some (ObjectBlk x) \<and>
             key_object x \<and> obj_class x = cls \<and> sk_obj_handle x = h)"

lemma publish_object_spec:
  assumes "objects_wf s" and "grows s s1" and "obj_list s1 = obj_list s"
    and "case p of None \<Rightarrow> rc \<noteq> CKR_OK | Some a \<Rightarrow> rc = CKR_OK \<and> a \<notin> dom (mem s) \<and>
        (\<exists>x. mem s1 a = Some (ObjectBlk x) \<and> partial_key (new_object h TEE_SLOT_ID) x)"
    and "cls \<in> {CKO_PUBLIC_KEY, CKO_PRIVATE_KEY}"
    and "publish_object E cls (rc, p, s1) = Some (rc', s')"
  shows "key_added h cls s rc' s'"
proof -
  have keep: "objects_wf s''" if "obj_list s'' = obj_list s" "grows s s''" for s'' :: "'a lib"
    using that by (rule objects_wf_grows [OF assms(1)])
  show ?thesis
  proof (cases p)
    case None
    with assms show ?thesis by (cases rc) (auto simp: publish_object_def key_added_def keep)
  next
    case (Some a)
    then obtain x where x: "rc = CKR_OK" "a \<notin> dom (mem s)" "mem s1 a = Some (ObjectBlk x)"
        "partial_key (new_object h TEE_SLOT_ID) x"
      using assms(4) by auto
    let ?y = "x\<lparr>obj_class := cls, obj_subclass := CKK_RSA\<rparr>"
    obtain rc2 y s2 where d: "p11_template_add_default_attr E ?y s1 = (rc2, y, s2)"
      by (cases "p11_template_add_default_attr E ?y s1")
    have f: "quiet s1 s2" and yx: "y = ?y\<lparr>obj_template := obj_template y\<rparr>"
      using add_default_attr_frame [OF d] by (auto intro: quiet_mallocs)
    let ?s3 = "s2\<lparr>mem := (mem s2)(a \<mapsto> ObjectBlk y)\<rparr>"
    have g3: "grows s ?s3" and l3: "obj_list ?s3 = obj_list s"
      using assms(2,3) f x(2) by (auto simp: grows_def quiet_def)
    show ?thesis
    proof (cases "rc2 = CKR_OK")
      case False
      with assms(6) Some x d g3 l3 show ?thesis by (auto simp: publish_object_def key_added_def keep)
    next
      case True
      then have s': "s' = insert_object a y s2" and "rc' = CKR_OK"
        using assms(6) Some x d by (auto simp: publish_object_def insert_object_def)
      have ko: "key_object y" "obj_class y = cls" "sk_obj_handle y = h"
        using key_object_defaults_added [OF x(4) assms(5)] d True by auto
      have "objects_wf s2" "a \<notin> set (obj_list s2)"
        using keep [of s2] assms(2,3) f obj.unused_not_live [OF assms(1) x(2)]
        by (auto simp: grows_def quiet_def)
      then have "objects_wf s'" unfolding s' using ko(1) by (rule obj.wf_ins)
      with s' \<open>rc' = CKR_OK\<close> ko x(2) g3 l3 show ?thesis
        by (auto simp: insert_object_def key_added_def grows_def)
    qed
  qed
qed

lemma mirror_key_spec:
  assumes "malloc_ok E" and "objects_wf s" and "cls \<in> {CKO_PUBLIC_KEY, CKO_PRIVATE_KEY}"
    and "create_key_object types E h TEE_SLOT_ID s = Some r" and "publish_object E cls r = Some (rc', s')"
  shows "key_added h cls s rc' s'"
proof -
  obtain rc p s1 where r: "r = (rc, p, s1)" by (cases r)
  note c = create_key_object_spec [OF assms(1) assms(4) [unfolded r]]
  show ?thesis
    by (rule publish_object_spec [OF assms(2) _ _ _ assms(3) assms(5) [unfolded r]]) (use c in auto)
qed

lemma add_rsa_key_added:
  assumes "malloc_ok E" and "objects_wf s"
  shows "add_rsa_pub_key E h TEE_SLOT_ID s = Some (rc, s') \<Longrightarrow> key_added h CKO_PUBLIC_KEY s rc s'"
    and "add_rsa_priv_key E h TEE_SLOT_ID s = Some (rc, s') \<Longrightarrow> key_added h CKO_PRIVATE_KEY s rc s'"
proof -
  show "add_rsa_pub_key E h TEE_SLOT_ID s = Some (rc, s') \<Longrightarrow> key_added h CKO_PUBLIC_KEY s rc s'"
    unfolding add_rsa_pub_key_def create_rsa_pub_key_object_def
    by (erule bind_SomeE, rule mirror_key_spec [OF assms]) auto
  show "add_rsa_priv_key E h TEE_SLOT_ID s = Some (rc, s') \<Longrightarrow> key_added h CKO_PRIVATE_KEY s rc s'"
    unfolding add_rsa_priv_key_def create_rsa_priv_key_object_def
    by (erule bind_SomeE, rule mirror_key_spec [OF assms]) auto
qed

text \<open>Filling the mirror keeps the objects well formed and disturbs nothing else.\<close>

lemma key_addedD: "key_added h cls s rc s' \<Longrightarrow> objects_wf s' \<and> grows s s'"
  by (simp add: key_added_def)

lemma mirror_keys_keep:
  assumes "malloc_ok E" and "objects_wf s" and "mirror_keys E TEE_SLOT_ID h obj_type key_type s = Some (rc, s')"
  shows "objects_wf s' \<and> grows s s'"
proof -
  have "objects_wf s' \<and> grows s s'"
    if p: "add_rsa_pub_key E h TEE_SLOT_ID s = Some (rc1, s1)"
      and q: "(if rc1 \<noteq> CKR_OK then Some (rc1, s1) else add_rsa_priv_key E h TEE_SLOT_ID s1) = Some (rc, s')" for rc1 s1
  proof -
    note k = key_addedD [OF add_rsa_key_added(1) [OF assms(1,2) p]]
    show ?thesis
      using q k key_addedD [OF add_rsa_key_added(2) [OF assms(1), of s1 h rc s']] grows_trans [of s s1 s']
      by (cases "rc1 = CKR_OK") auto
  qed
  with assms key_addedD [OF add_rsa_key_added(1) [OF assms(1,2)]] show ?thesis
    by (auto simp: mirror_keys_def split: if_splits bind_splits)
qed

lemma mirror_object_keeps:
  assumes "malloc_ok E" and "objects_wf s" and "mirror_object E fns TEE_SLOT_ID h ot kt s = Some (rc, ot', kt', s')"
  shows "objects_wf s' \<and> grows s s'"
proof -
  from assms(3) obtain ret as s1 where g: "sk_get_attributes fns h
       [\<lparr>sk_type = SK_ATTR_OBJECT_TYPE, sk_value = Some ot, sk_valueLen = 4\<rparr>,
        \<lparr>sk_type = SK_ATTR_KEY_TYPE, sk_value = Some kt, sk_valueLen = 4\<rparr>] s = Some (ret, as, s1)"
    by (auto simp: mirror_object_def split: bind_splits)
  have q: "quiet s s1" using sk_get_attributes_quiet [OF g] by simp
  have wf1: "objects_wf s1" and g1: "grows s s1"
    using q objects_wf_grows [OF assms(2)] by (auto simp: quiet_grows quiet_frame)
  have "s' = s1 \<or> (\<exists>ot kt. mirror_keys E TEE_SLOT_ID h ot kt s1 = Some (rc, s'))"
    using assms(3) by (auto simp: mirror_object_def g split: if_splits bind_splits)
  then show ?thesis using wf1 g1 mirror_keys_keep [OF assms(1) wf1] grows_trans [OF g1] by blast
qed

lemma mirror_loop_keeps:
  "malloc_ok E \<Longrightarrow> objects_wf s \<Longrightarrow> mirror_loop E fns TEE_SLOT_ID hs ot kt s = Some (rc, s') \<Longrightarrow>
   objects_wf s' \<and> grows s s'"
proof (induction hs arbitrary: ot kt s)
  case Nil
  then show ?case by simp
next
  case (Cons h hs)
  from Cons.prems(3) obtain rc1 ot1 kt1 s1 where
      m: "mirror_object E fns TEE_SLOT_ID h ot kt s = Some (rc1, ot1, kt1, s1)"
    by (auto split: bind_splits)
  note k = mirror_object_keeps [OF Cons.prems(1,2) m]
  show ?case
    using Cons.prems(3) m k Cons.IH [OF Cons.prems(1), of s1 ot1 kt1] grows_trans [of s s1 s']
    by (auto split: if_splits)
qed

lemma get_all_token_objects_keeps:
  assumes "malloc_ok E" and "objects_wf s" and "get_all_token_objects E TEE_SLOT_ID s = Some (rc, s')"
  shows "objects_wf s' \<and> grows s s'"
proof -
  have t: "objects_wf (s\<lparr>tee := t\<rparr>)" "grows s (s\<lparr>tee := t\<rparr>)" for t
    using assms(2) by (auto simp: grows_def obj.wf_def)
  show ?thesis
    using assms(3) t assms(2) mirror_loop_keeps [OF assms(1) t(1)] grows_trans [OF t(2)]
    by (fastforce simp: get_all_token_objects_def split: option.splits bind_splits if_splits)
qed

end
