(* ===== verification/Object_Mirror.thy ===== *)
theory Object_Mirror
  imports Objects
begin

text \<open>
  What the mirror of the token holds. A token whose attribute queries follow their documentation is
  reflected completely and exactly by \<open>get_all_token_objects\<close>; the properties of searches and of
  attribute queries on the mirrored objects follow, with a concrete state for their witnesses.
\<close>

section \<open>The mirror of an honest token\<close>

text \<open>
  A token whose attribute queries behave as documented, for a table \<open>tok\<close> of attributes per object: a
  query all of whose requests can be answered returns \<open>SKR_OK\<close> and the answers, any other query returns
  an error, and of what it leaves in the attributes then only their number is known. The objects of \<open>hs\<close>
  have a type and a key type, and lengths that the 16-bit length field can express.
\<close>

definition honest_token ::
    "'t SK_FUNCTION_LIST \<Rightarrow> (SK_OBJECT_HANDLE \<Rightarrow> u32 \<Rightarrow> byte list option) \<Rightarrow> bool" where
  "honest_token fns tok \<longleftrightarrow>
     (\<forall>h as t. list_all sk_request as \<longrightarrow>
        (\<exists>ret as' t'. SK_GetObjectAttribute_fn fns h as t = Some (ret, as', t') \<and> length as' = length as \<and>
           (if list_all (sk_fits (tok h)) as then ret = SKR_OK \<and> as' = map (sk_answer (tok h)) as
            else ret \<noteq> SKR_OK)))"

definition storable :: "(u32 \<Rightarrow> byte list option) \<Rightarrow> bool" where
  "storable tok \<longleftrightarrow> (\<forall>ty v. tok ty = Some v \<longrightarrow> length v < 0xFFFF) \<and>
     (\<forall>v. tok SK_ATTR_MODULUS_BITS = Some v \<longrightarrow> length v = 4)"

text \<open>The Cryptoki type and attribute a Secure Object attribute of a key becomes.\<close>

definition ck_type :: "u32 \<Rightarrow> CK_ATTRIBUTE_TYPE" where
  "ck_type ty = (if ty = SK_ATTR_OBJECT_LABEL then CKA_LABEL else if ty = SK_ATTR_OBJECT_INDEX then CKA_ID
     else if ty = SK_ATTR_MODULUS then CKA_MODULUS else if ty = SK_ATTR_PUBLIC_EXPONENT then CKA_PUBLIC_EXPONENT
     else CKA_MODULUS_BITS)"

definition mirrored_attr :: "u32 \<Rightarrow> byte list \<Rightarrow> CK_ATTRIBUTE" where
  "mirrored_attr ty v =
     (if ty = SK_ATTR_MODULUS_BITS then ulong_attr CKA_MODULUS_BITS (ucast (get_u32 v))
      else \<lparr>attr_type = ck_type ty, pValue = (if v = [] then None else Some v), ulValueLen = of_nat (length v)\<rparr>)"

definition mirrored_map ::
    "(u32 \<Rightarrow> byte list option) \<Rightarrow> u32 list \<Rightarrow> (CK_ATTRIBUTE_TYPE \<rightharpoonup> CK_ATTRIBUTE) \<Rightarrow> (CK_ATTRIBUTE_TYPE \<rightharpoonup> CK_ATTRIBUTE)" where
  "mirrored_map tok types m =
     fold (\<lambda>ty f. case tok ty of None \<Rightarrow> f | Some v \<Rightarrow> f(ck_type ty \<mapsto> mirrored_attr ty v)) types m"

text \<open>An allocation failed.\<close>

definition out_of_memory :: "'t env \<Rightarrow> 't lib \<Rightarrow> bool" where
  "out_of_memory E s \<longleftrightarrow> (\<exists>n L. n < mallocs s \<and> L \<subseteq> dom (mem s) \<and> malloc E n L = None)"

lemma out_of_memory_malloc: "do_malloc E s = (None, s') \<Longrightarrow> out_of_memory E s'"
  unfolding out_of_memory_def
  by (rule exI [of _ "mallocs s"], rule exI [of _ "dom (mem s)"]) (auto simp: do_malloc_def)

lemma of_nat_u64_eq_0: "n < 65536 \<Longrightarrow> (of_nat n :: u64) = 0 \<longleftrightarrow> n = 0"
  by (simp add: word_unat_eq_iff unat_of_nat take_bit_nat_eq_self)

lemma ucast_of_nat_u16: "n < 65536 \<Longrightarrow> (ucast (of_nat n :: u16) :: u64) = of_nat n"
  by (simp add: word_unat_eq_iff unat_of_nat unsigned_ucast_eq take_bit_nat_eq_self)

lemma unat_of_nat_u16: "n < 65536 \<Longrightarrow> unat (of_nat n :: u16) = n"
  by (simp add: unat_of_nat take_bit_nat_eq_self)

lemma of_nat_u16_max: "n < 65535 \<Longrightarrow> (of_nat n :: u16) \<noteq> 0xFFFF"
  by (simp add: word_unat_eq_iff unat_of_nat take_bit_nat_eq_self)

text \<open>Adding a single attribute whose value can be read.\<close>

lemma add_attr_single:
  assumes "p11_is_attribute_defined (attr_type c)" and "read_bytes (pValue c) (unat (ulValueLen c)) = Some bs"
  shows "\<exists>rc t' s'. p11_template_add_attr E [c] t s = Some (rc, t', s') \<and>
    (rc \<noteq> CKR_OK \<longrightarrow> out_of_memory E s') \<and>
    (rc = CKR_OK \<longrightarrow> p11_template_check_attr t' = (p11_template_check_attr t)(attr_type c \<mapsto>
       \<lparr>attr_type = attr_type c, pValue = (if ulValueLen c = 0 then None else Some bs), ulValueLen = ulValueLen c\<rparr>))"
proof -
  obtain p s1 where m1: "do_malloc E s = (p, s1)" by (cases "do_malloc E s")
  obtain q s2 where m2: "do_malloc E s1 = (q, s2)" by (cases "do_malloc E s1")
  show ?thesis
    using assms m1 m2 out_of_memory_malloc [of E s s1] out_of_memory_malloc [of E s1 s2]
    by (cases p; cases q) (auto simp: fun_eq_iff tmpl.look_upd)
qed

definition reads_as :: "u32 \<Rightarrow> byte list \<Rightarrow> CK_ATTRIBUTE \<Rightarrow> bool" where
  "reads_as ty v c \<longleftrightarrow> attr_type c = ck_type ty \<and>
     (\<exists>bs. read_bytes (pValue c) (unat (ulValueLen c)) = Some bs \<and>
        mirrored_attr ty v = \<lparr>attr_type = ck_type ty, pValue = (if ulValueLen c = 0 then None else Some bs),
             ulValueLen = ulValueLen c\<rparr>)"

lemma copy_attr_reads:
  assumes "length v < 65536" and "ty \<noteq> SK_ATTR_MODULUS_BITS"
  shows "\<exists>rc ck s'. copy_attr E (ck_type ty) \<lparr>sk_type = ty, sk_value = Some v, sk_valueLen = of_nat (length v)\<rparr> s
      = Some (rc, ck, s') \<and> (case ck of None \<Rightarrow> out_of_memory E s' | Some c \<Rightarrow> reads_as ty v c)"
proof -
  obtain p s1 where m: "do_malloc E s = (p, s1)" by (cases "do_malloc E s")
  show ?thesis
    using assms m out_of_memory_malloc [of E s s1]
    by (cases p) (auto simp: copy_attr_def reads_as_def mirrored_attr_def unat_of_nat_u16 ucast_of_nat_u16
        read_bytes_def of_nat_u64_eq_0 unat_of_nat take_bit_nat_eq_self)
qed

lemma ck_type_simps [simp]:
  "ck_type SK_ATTR_OBJECT_LABEL = CKA_LABEL" "ck_type SK_ATTR_OBJECT_INDEX = CKA_ID"
  "ck_type SK_ATTR_MODULUS = CKA_MODULUS" "ck_type SK_ATTR_PUBLIC_EXPONENT = CKA_PUBLIC_EXPONENT"
  "ck_type SK_ATTR_MODULUS_BITS = CKA_MODULUS_BITS"
  by (simp_all add: ck_type_def)

lemma ck_type_defined: "p11_is_attribute_defined (ck_type ty)"
  by (simp add: ck_type_def p11_is_attribute_defined_def defined_attributes_def)

lemma map_sk_reads:
  assumes "storable tok" and "tok ty = Some v" and "ty \<in> set rsa_pub_attr_type"
  shows "\<exists>rc ck s'. map_sk_to_pkcs_attr E \<lparr>sk_type = ty, sk_value = Some v, sk_valueLen = of_nat (length v)\<rparr> s
      = Some (rc, ck, s') \<and> (case ck of None \<Rightarrow> out_of_memory E s' | Some c \<Rightarrow> reads_as ty v c)"
proof (cases "ty = SK_ATTR_MODULUS_BITS")
  case True
  then have v: "length v = 4" using assms(1,2) by (auto simp: storable_def)
  obtain p s1 where m: "do_malloc E s = (p, s1)" by (cases "do_malloc E s")
  show ?thesis
    using True v m out_of_memory_malloc [of E s s1]
    by (cases p) (auto simp: map_sk_to_pkcs_attr_def reads_as_def mirrored_attr_def deref_u32_def
        ulong_attr_def read_bytes_def)
next
  case False
  have "length v < 65536" using assms(1,2) by (fastforce simp: storable_def)
  from copy_attr_reads [OF this False, of E s] assms(3) False show ?thesis
    by (auto simp: map_sk_to_pkcs_attr_def rsa_pub_attr_type_def)
qed

text \<open>A query of an honest token, in the state of the library.\<close>

lemma honest_query:
  assumes "honest_token fns tok" and "list_all sk_request as"
  obtains ret as' t where "sk_get_attributes fns h as s = Some (ret, as', s\<lparr>tee := t\<rparr>)"
    and "if list_all (sk_fits (tok h)) as then ret = SKR_OK \<and> as' = map (sk_answer (tok h)) as else ret \<noteq> SKR_OK"
proof -
  from assms obtain ret as' t where "SK_GetObjectAttribute_fn fns h as (tee s) = Some (ret, as', t)"
      "length as' = length as"
      "if list_all (sk_fits (tok h)) as then ret = SKR_OK \<and> as' = map (sk_answer (tok h)) as else ret \<noteq> SKR_OK"
    unfolding honest_token_def by blast
  with that [of ret as' t] show ?thesis by (simp add: sk_get_attributes_def)
qed

text \<open>One turn of the loop adds the attribute the token has.\<close>

lemma add_template_step_honest:
  assumes "honest_token fns tok" and "storable (tok (sk_obj_handle obj))" and "ty \<in> set rsa_pub_attr_type"
    and "tok (sk_obj_handle obj) ty = Some v"
  shows "\<exists>rc obj' s'. add_template_step E fns
      (sk_answer (tok (sk_obj_handle obj)) \<lparr>sk_type = ty, sk_value = None, sk_valueLen = 0\<rparr>) obj s = Some (rc, obj', s') \<and>
    (rc \<noteq> CKR_OK \<longrightarrow> out_of_memory E s') \<and>
    (rc = CKR_OK \<longrightarrow> p11_template_check_attr (obj_template obj') =
       mirrored_map (tok (sk_obj_handle obj)) [ty] (p11_template_check_attr (obj_template obj)))"
proof -
  have len: "length v < 65535" using assms(2,4) by (auto simp: storable_def)
  then have len2: "unat (of_nat (length v) :: u16) = length v" by (simp add: unat_of_nat_u16)
  obtain p s1 where m: "do_malloc E s = (p, s1)" by (cases "do_malloc E s")
  show ?thesis
  proof (cases p)
    case None
    with assms(4) m len out_of_memory_malloc [of E s s1] show ?thesis
      by (simp add: add_template_step_def sk_answer_def of_nat_u16_max)
  next
    case (Some a)
    let ?q = "\<lparr>sk_type = ty, sk_value = Some (fresh_bytes E s (length v)), sk_valueLen = of_nat (length v)\<rparr> :: SK_ATTRIBUTE"
    let ?b = "\<lparr>sk_type = ty, sk_value = Some v, sk_valueLen = of_nat (length v)\<rparr> :: SK_ATTRIBUTE"
    have "list_all sk_request [?q]" using len2 by (simp add: sk_request_def)
    with assms(1) obtain ret as' t where g: "sk_get_attributes fns (sk_obj_handle obj) [?q] s1 = Some (ret, as', s1\<lparr>tee := t\<rparr>)"
      "if list_all (sk_fits (tok (sk_obj_handle obj))) [?q] then ret = SKR_OK \<and> as' = map (sk_answer (tok (sk_obj_handle obj))) [?q]
       else ret \<noteq> SKR_OK"
      by (rule honest_query)
    then have g: "sk_get_attributes fns (sk_obj_handle obj) [?q] s1 = Some (SKR_OK, [?b], s1\<lparr>tee := t\<rparr>)"
      using assms(4) len2 by (simp add: sk_fits_def sk_answer_def)
    obtain rc ck s2 where k: "map_sk_to_pkcs_attr E ?b (s1\<lparr>tee := t\<rparr>) = Some (rc, ck, s2)"
      and c: "case ck of None \<Rightarrow> out_of_memory E s2 | Some c \<Rightarrow> reads_as ty v c"
      using map_sk_reads [OF assms(2,4,3)] by blast
    note step = add_template_step_def sk_answer_def assms(4) of_nat_u16_max len len2 m Some g k
    show ?thesis
    proof (cases ck)
      case None
      with c show ?thesis by (simp add: step)
    next
      case (Some x)
      then obtain bs where x: "attr_type x = ck_type ty" "read_bytes (pValue x) (unat (ulValueLen x)) = Some bs"
          "mirrored_attr ty v = \<lparr>attr_type = ck_type ty, pValue = (if ulValueLen x = 0 then None else Some bs),
             ulValueLen = ulValueLen x\<rparr>"
        using c by (auto simp: reads_as_def)
      from add_attr_single [of x bs E "obj_template obj" s2] x ck_type_defined [of ty] show ?thesis
        by (auto simp: step Some mirrored_map_def simp del: p11_template_add_attr.simps)
    qed
  qed
qed

lemma partial_key_handle: "partial_key x y \<Longrightarrow> sk_obj_handle y = sk_obj_handle x"
  by (cases x; cases y) (simp add: partial_key_def)

text \<open>An object of the token lacks one of the attributes.\<close>

definition incomplete :: "(u32 \<Rightarrow> byte list option) \<Rightarrow> u32 list \<Rightarrow> bool" where
  "incomplete tok types \<longleftrightarrow> (\<exists>ty \<in> set types. tok ty = None)"

lemma add_template_loop_honest:
  assumes "honest_token fns tok" and "storable (tok (sk_obj_handle obj))" and "set types \<subseteq> set rsa_pub_attr_type"
    and "\<not> incomplete (tok (sk_obj_handle obj)) types"
  shows "\<exists>rc obj' s'. add_template_loop E fns
      (map (\<lambda>ty. sk_answer (tok (sk_obj_handle obj)) \<lparr>sk_type = ty, sk_value = None, sk_valueLen = 0\<rparr>) types) obj s
        = Some (rc, obj', s') \<and>
    (rc \<noteq> CKR_OK \<longrightarrow> out_of_memory E s') \<and>
    (rc = CKR_OK \<longrightarrow> p11_template_check_attr (obj_template obj') =
       mirrored_map (tok (sk_obj_handle obj)) types (p11_template_check_attr (obj_template obj)))"
  using assms(2-4)
proof (induction types arbitrary: obj s)
  case Nil
  then show ?case by (simp add: mirrored_map_def)
next
  case (Cons ty types)
  have ty: "ty \<in> set rsa_pub_attr_type" using Cons.prems(2) by simp
  obtain v where v: "tok (sk_obj_handle obj) ty = Some v" using Cons.prems(3) by (auto simp: incomplete_def)
  from add_template_step_honest [OF assms(1) Cons.prems(1) ty v, of E s]
  obtain rc1 obj1 s1 where st: "add_template_step E fns
      (sk_answer (tok (sk_obj_handle obj)) \<lparr>sk_type = ty, sk_value = None, sk_valueLen = 0\<rparr>) obj s = Some (rc1, obj1, s1)"
    and e: "rc1 \<noteq> CKR_OK \<longrightarrow> out_of_memory E s1"
    and t: "rc1 = CKR_OK \<longrightarrow> p11_template_check_attr (obj_template obj1) =
       mirrored_map (tok (sk_obj_handle obj)) [ty] (p11_template_check_attr (obj_template obj))"
    by blast
  have h: "sk_obj_handle obj1 = sk_obj_handle obj"
    using add_template_step_partial [OF st] by (simp add: partial_key_handle)
  have sub: "set types \<subseteq> set rsa_pub_attr_type" "\<not> incomplete (tok (sk_obj_handle obj1)) types"
    using Cons.prems(2,3) h by (auto simp: incomplete_def)
  from Cons.IH [of obj1, OF _ sub, of s1] Cons.prems(1) st e t h show ?case
    by (cases "rc1 = CKR_OK") (auto simp: mirrored_map_def)
qed

lemma object_add_template_honest:
  assumes "honest_token (sk_fns E) tok" and "storable (tok (sk_obj_handle obj))"
    and "set types \<subseteq> set rsa_pub_attr_type" and "sk_funcs s" and "obj_slotID obj = TEE_SLOT_ID"
  shows "\<exists>rc obj' s'. object_add_template E obj types s = Some (rc, obj', s') \<and>
    (rc \<noteq> CKR_OK \<longrightarrow> out_of_memory E s' \<or> incomplete (tok (sk_obj_handle obj)) types) \<and>
    (rc = CKR_OK \<longrightarrow> \<not> incomplete (tok (sk_obj_handle obj)) types \<and> p11_template_check_attr (obj_template obj') =
       mirrored_map (tok (sk_obj_handle obj)) types (p11_template_check_attr (obj_template obj)))"
proof -
  let ?tok = "tok (sk_obj_handle obj)"
  let ?qs = "map (\<lambda>ty. \<lparr>sk_type = ty, sk_value = None, sk_valueLen = 0\<rparr> :: SK_ATTRIBUTE) types"
  have f: "get_slot_function_list E s (obj_slotID obj) = Some (sk_fns E)"
    using assms(4,5) by (simp add: get_slot_function_list_def get_global_slot_info_def)
  have fits: "list_all (sk_fits ?tok) ?qs \<longleftrightarrow> \<not> incomplete ?tok types"
    by (auto simp: list_all_iff sk_fits_def incomplete_def split: option.splits)
  have "list_all sk_request ?qs" by (simp add: list_all_iff sk_request_def)
  with assms(1) obtain ret as' t where
      q: "sk_get_attributes (sk_fns E) (sk_obj_handle obj) ?qs s = Some (ret, as', s\<lparr>tee := t\<rparr>)"
        "if list_all (sk_fits ?tok) ?qs then ret = SKR_OK \<and> as' = map (sk_answer ?tok) ?qs else ret \<noteq> SKR_OK"
    by (rule honest_query)
  show ?thesis
  proof (cases "incomplete ?tok types")
    case True
    with f q fits show ?thesis by (simp add: object_add_template_def)
  next
    case False
    with f q fits add_template_loop_honest [OF assms(1-3) False, of E "s\<lparr>tee := t\<rparr>"] show ?thesis
      by (simp add: object_add_template_def comp_def)
  qed
qed

text \<open>The attributes an object of a class mirrors, and that it does.\<close>

definition class_types :: "u64 \<Rightarrow> u32 list" where
  "class_types cls = (if cls = CKO_PUBLIC_KEY
     then [SK_ATTR_OBJECT_LABEL, SK_ATTR_OBJECT_INDEX, SK_ATTR_MODULUS, SK_ATTR_PUBLIC_EXPONENT, SK_ATTR_MODULUS_BITS]
     else [SK_ATTR_OBJECT_LABEL, SK_ATTR_OBJECT_INDEX, SK_ATTR_MODULUS, SK_ATTR_PUBLIC_EXPONENT])"

lemma class_types_code:
  "class_types CKO_PUBLIC_KEY = rsa_pub_attr_type" "class_types CKO_PRIVATE_KEY = rsa_priv_attr_type"
  by (simp_all add: class_types_def rsa_pub_attr_type_def rsa_priv_attr_type_def)

definition key_mirrors :: "(SK_OBJECT_HANDLE \<Rightarrow> u32 \<Rightarrow> byte list option) \<Rightarrow> OBJECT \<Rightarrow> bool" where
  "key_mirrors tok x \<longleftrightarrow> (\<forall>ty \<in> set (class_types (obj_class x)).
     p11_template_check_attr (obj_template x) (ck_type ty) =
       map_option (mirrored_attr ty) (tok (sk_obj_handle x) ty))"

lemma mirrored_map_other:
  "k \<notin> ck_type ` set types \<Longrightarrow> mirrored_map tok types m k = m k"
  by (induction types arbitrary: m) (auto simp: mirrored_map_def split: option.splits)

lemma mirrored_map_in:
  "distinct (map ck_type types) \<Longrightarrow> ty \<in> set types \<Longrightarrow> m (ck_type ty) = None \<Longrightarrow>
     mirrored_map tok types m (ck_type ty) = map_option (mirrored_attr ty) (tok ty)"
proof (induction types arbitrary: m)
  case Nil
  then show ?case by simp
next
  case (Cons t types)
  show ?case
  proof (cases "t = ty")
    case True
    with Cons.prems(1) have "ck_type ty \<notin> ck_type ` set types" by auto
    with True Cons.prems(3) mirrored_map_other [OF this, of tok] show ?thesis
      by (simp add: mirrored_map_def split: option.splits)
  next
    case False
    let ?m = "case tok t of None \<Rightarrow> m | Some v \<Rightarrow> m(ck_type t \<mapsto> mirrored_attr t v)"
    have "ck_type ty \<noteq> ck_type t" using False Cons.prems by (auto simp: image_iff)
    with Cons.prems(3) have "?m (ck_type ty) = None" by (auto split: option.splits)
    with False Cons.prems Cons.IH [of ?m] show ?thesis by (simp add: mirrored_map_def)
  qed
qed

lemma mirrored_map_lookup:
  assumes "ty \<in> set (class_types cls)"
  shows "mirrored_map tok (class_types cls) (p11_template_check_attr []) (ck_type ty) =
    map_option (mirrored_attr ty) (tok ty)"
proof (rule mirrored_map_in [OF _ assms])
  show "distinct (map ck_type (class_types cls))"
    by (simp add: class_types_def rsa_pub_attr_type_def rsa_priv_attr_type_def)
qed simp

lemma mirrored_not_default: "ck_type ty \<notin> attr_type ` set (class_defaults cls)"
  by (simp add: ck_type_def class_defaults_def default_lists default_attrs)

lemma class_types_subset: "set (class_types cls) \<subseteq> set rsa_pub_attr_type"
  by (auto simp: class_types_def rsa_pub_attr_type_def rsa_priv_attr_type_def)

lemma do_mallocs_out_of_memory: "do_mallocs E k s = (False, s') \<Longrightarrow> out_of_memory E s'"
  unfolding do_mallocs_def out_of_memory_def list_all_iff by fastforce

lemma default_attr_out_of_memory:
  assumes "p11_template_add_default_attr E x s = (rc, y, s')" and "rc \<noteq> CKR_OK"
    and "obj_class x \<in> {CKO_PUBLIC_KEY, CKO_PRIVATE_KEY}" and "obj_subclass x = CKK_RSA"
  shows "out_of_memory E s'"
  using assms
  by (auto simp: p11_template_add_default_attr_def p11_template_add_default_common_attr_def
      rsa_pubk_add_default_attr_def pubk_add_default_attr_def key_object_set_default_attr_def
      rsa_privk_add_default_attr_def privk_add_default_attr_def Let_def
      split: prod.splits if_splits intro: do_mallocs_out_of_memory)

lemma out_of_memory_mem:
  assumes "out_of_memory E s" and "dom (mem s) \<subseteq> dom m"
  shows "out_of_memory E (s\<lparr>mem := m\<rparr>)"
proof -
  obtain n L where "n < mallocs s" "L \<subseteq> dom (mem s)" "malloc E n L = None"
    using assms(1) by (auto simp: out_of_memory_def simp del: not_None_eq)
  with assms(2) show ?thesis
    unfolding out_of_memory_def by (intro exI [of _ n] exI [of _ L]) auto
qed

text \<open>Making and listing one key of an honest token.\<close>

lemma create_publish_honest:
  assumes "malloc_ok E" and "honest_token (sk_fns E) tok" and "storable (tok h)" and "sk_funcs s"
    and "cls \<in> {CKO_PUBLIC_KEY, CKO_PRIVATE_KEY}"
  shows "\<exists>r rc s'. create_key_object (class_types cls) E h TEE_SLOT_ID s = Some r \<and>
    publish_object E cls r = Some (rc, s') \<and>
    (rc \<noteq> CKR_OK \<longrightarrow> out_of_memory E s' \<or> incomplete (tok h) (class_types cls)) \<and>
    (rc = CKR_OK \<longrightarrow> \<not> incomplete (tok h) (class_types cls) \<and> (\<exists>x. mem s' (hd (obj_list s')) = Some (ObjectBlk x) \<and> key_mirrors tok x))"
proof -
  obtain q s1 where m: "do_malloc E s = (q, s1)" by (cases "do_malloc E s")
  show ?thesis
  proof (cases q)
    case None
    with m out_of_memory_malloc [of E s s1] show ?thesis
      by (auto simp: create_key_object_def publish_object_def)
  next
    case (Some a)
    let ?x0 = "new_object h TEE_SLOT_ID"
    let ?s1 = "s1\<lparr>mem := (mem s1)(a \<mapsto> ObjectBlk ?x0)\<rparr>"
    have f: "sk_funcs ?s1" using assms(4) m by (auto simp: do_malloc_def)
    have st: "storable (tok (sk_obj_handle ?x0))" "obj_slotID ?x0 = TEE_SLOT_ID" "sk_obj_handle ?x0 = h"
        "obj_template ?x0 = []"
      using assms(3) by (simp_all add: new_object_def)
    from object_add_template_honest [OF assms(2) st(1) class_types_subset [of cls] f st(2)]
    obtain rc2 x s2 where o: "object_add_template E ?x0 (class_types cls) ?s1 = Some (rc2, x, s2)"
      and e: "rc2 \<noteq> CKR_OK \<longrightarrow> out_of_memory E s2 \<or> incomplete (tok h) (class_types cls)"
      and t: "rc2 = CKR_OK \<longrightarrow> \<not> incomplete (tok h) (class_types cls) \<and> p11_template_check_attr (obj_template x) =
          mirrored_map (tok h) (class_types cls) (p11_template_check_attr [])"
      unfolding st by blast
    note c = create_key_object_def [of "class_types cls" E h TEE_SLOT_ID s, unfolded m Some, simplified, unfolded o, simplified]
    show ?thesis
    proof (cases "rc2 = CKR_OK")
      case False
      with c e out_of_memory_mem [of E s2 "(mem s2)(a \<mapsto> FreedBlk)"] show ?thesis
        by (cases rc2) (auto simp: publish_object_def)
    next
      case True
      have hx: "sk_obj_handle x = h" using object_add_template_partial [OF o] st(3) partial_key_handle by metis
      let ?s2 = "s2\<lparr>mem := (mem s2)(a \<mapsto> ObjectBlk x)\<rparr>" and ?y = "x\<lparr>obj_class := cls, obj_subclass := CKK_RSA\<rparr>"
      obtain rc3 y s3 where d: "p11_template_add_default_attr E ?y ?s2 = (rc3, y, s3)"
        by (cases "p11_template_add_default_attr E ?y ?s2")
      have pub: "publish_object E cls (CKR_OK, Some a, ?s2) = Some (if rc3 \<noteq> CKR_OK
          then (rc3, s3\<lparr>mem := (mem s3)(a \<mapsto> ObjectBlk y)\<rparr>)
          else (CKR_OK, s3\<lparr>mem := (mem s3)(a \<mapsto> ObjectBlk y), obj_list := a # obj_list s3\<rparr>))"
        by (simp add: publish_object_def d)
      have oom: "out_of_memory E (s3\<lparr>mem := (mem s3)(a \<mapsto> ObjectBlk y)\<rparr>)" if "rc3 \<noteq> CKR_OK"
        using default_attr_out_of_memory [OF d that] assms(5) by (intro out_of_memory_mem) auto
      have "key_mirrors tok y" if "rc3 = CKR_OK"
        using add_default_attr_OK(3) [OF d [unfolded that]] True t hx
        by (auto simp: key_mirrors_def tmpl.look_fold_other mirrored_not_default mirrored_map_lookup)
      with c True t pub oom show ?thesis by auto
    qed
  qed
qed

text \<open>
  The objects of the list as pairs of class and token handle, and the pairs an object of the token
  contributes, newest first.
\<close>

definition object_view :: "'t lib \<Rightarrow> (u64 \<times> SK_OBJECT_HANDLE) list" where
  "object_view s = map (\<lambda>a. case object_of (mem s a) of
     Some x \<Rightarrow> (obj_class x, sk_obj_handle x) | None \<Rightarrow> (0, 0)) (obj_list s)"

definition token_keys :: "(SK_OBJECT_HANDLE \<Rightarrow> u32 \<Rightarrow> byte list option) \<Rightarrow> SK_OBJECT_HANDLE \<Rightarrow> (u64 \<times> SK_OBJECT_HANDLE) list" where
  "token_keys tok h =
     (if tok h SK_ATTR_KEY_TYPE \<noteq> Some (put_u32 SKK_RSA) then []
      else if tok h SK_ATTR_OBJECT_TYPE = Some (put_u32 SK_KEY_PAIR) then [(CKO_PRIVATE_KEY, h), (CKO_PUBLIC_KEY, h)]
      else if tok h SK_ATTR_OBJECT_TYPE = Some (put_u32 SK_PUBLIC_KEY) then [(CKO_PUBLIC_KEY, h)]
      else [])"

text \<open>An object of the token that says what it is.\<close>

definition typed :: "(u32 \<Rightarrow> byte list option) \<Rightarrow> bool" where
  "typed tok \<longleftrightarrow> (\<exists>ot kt. tok SK_ATTR_OBJECT_TYPE = Some (put_u32 ot) \<and> tok SK_ATTR_KEY_TYPE = Some (put_u32 kt))"

definition all_mirror :: "(SK_OBJECT_HANDLE \<Rightarrow> u32 \<Rightarrow> byte list option) \<Rightarrow> 't lib \<Rightarrow> bool" where
  "all_mirror tok s \<longleftrightarrow> (\<forall>a \<in> set (obj_list s). \<forall>x. mem s a = Some (ObjectBlk x) \<longrightarrow> key_mirrors tok x)"

text \<open>
  The step from \<open>s\<close> to \<open>s'\<close> listed the keys \<open>ks\<close>: everything stays well formed and mirrored, or the
  allocator has failed, or one of the keys is incomplete (\<open>bad\<close>).
\<close>

definition mirrored_step ::
    "'t env \<Rightarrow> (SK_OBJECT_HANDLE \<Rightarrow> u32 \<Rightarrow> byte list option) \<Rightarrow> bool \<Rightarrow> (u64 \<times> SK_OBJECT_HANDLE) list \<Rightarrow> 't lib \<Rightarrow> CK_RV \<Rightarrow> 't lib \<Rightarrow> bool" where
  "mirrored_step E tok bad ks s rc s' \<longleftrightarrow> objects_wf s' \<and> grows s s' \<and> (rc \<noteq> CKR_OK \<longrightarrow> out_of_memory E s' \<or> bad) \<and>
     (rc = CKR_OK \<longrightarrow> \<not> bad \<and> object_view s' = ks @ object_view s \<and> (all_mirror tok s \<longrightarrow> all_mirror tok s'))"

lemma grows_listed:
  assumes "objects_wf s" and "grows s s'" and "a \<in> set (obj_list s)"
  shows "mem s' a = mem s a"
proof -
  obtain x where "mem s a = Some (ObjectBlk x)" using object_live [OF assms(1,3)] .
  then have "a \<in> dom (mem s)" by blast
  with assms(2) show ?thesis by (simp add: grows_def)
qed

lemma object_view_grows:
  assumes "objects_wf s" and "grows s s'" and "obj_list s' = as @ obj_list s"
  shows "object_view s' = map (\<lambda>a. case object_of (mem s' a) of
     Some x \<Rightarrow> (obj_class x, sk_obj_handle x) | None \<Rightarrow> (0, 0)) as @ object_view s"
  using assms(3) grows_listed [OF assms(1,2)] by (simp add: object_view_def)

lemma key_added_mirrored:
  assumes "key_added h cls s rc s'" and "objects_wf s" and "rc \<noteq> CKR_OK \<longrightarrow> out_of_memory E s' \<or> bad"
    and "rc = CKR_OK \<longrightarrow> \<not> bad \<and> (\<exists>x. mem s' (hd (obj_list s')) = Some (ObjectBlk x) \<and> key_mirrors tok x)"
  shows "mirrored_step E tok bad [(cls, h)] s rc s'"
proof (cases "rc = CKR_OK")
  case False
  with assms show ?thesis by (simp add: mirrored_step_def key_added_def)
next
  case True
  then obtain a x where a: "obj_list s' = a # obj_list s" "mem s' a = Some (ObjectBlk x)"
      "obj_class x = cls" "sk_obj_handle x = h"
    using assms(1) by (auto simp: key_added_def)
  have g: "grows s s'" "objects_wf s'" using assms(1) by (auto simp: key_added_def)
  have v: "object_view s' = [(cls, h)] @ object_view s"
    using object_view_grows [OF assms(2) g(1), of "[a]"] a by simp
  have "all_mirror tok s \<Longrightarrow> all_mirror tok s'" 
    using a assms(4) True grows_listed [OF assms(2) g(1)] by (auto simp: all_mirror_def)
  with g v True assms(4) show ?thesis by (simp add: mirrored_step_def)
qed

lemma mirrored_step_trans:
  assumes "mirrored_step E tok bad ks s CKR_OK s1" and "mirrored_step E tok bad' ks' s1 rc s'"
  shows "mirrored_step E tok (bad \<or> bad') (ks' @ ks) s rc s'"
  using assms grows_trans [of s s1 s'] by (auto simp: mirrored_step_def)

lemma add_rsa_key_honest:
  assumes "malloc_ok E" and "honest_token (sk_fns E) tok" and "storable (tok h)" and "sk_funcs s" and "objects_wf s"
  shows "\<exists>rc s'. add_rsa_pub_key E h TEE_SLOT_ID s = Some (rc, s') \<and> mirrored_step E tok (incomplete (tok h) rsa_pub_attr_type) [(CKO_PUBLIC_KEY, h)] s rc s'"
    and "\<exists>rc s'. add_rsa_priv_key E h TEE_SLOT_ID s = Some (rc, s') \<and> mirrored_step E tok (incomplete (tok h) rsa_priv_attr_type) [(CKO_PRIVATE_KEY, h)] s rc s'"
proof -
  obtain r rc s' where "create_key_object rsa_pub_attr_type E h TEE_SLOT_ID s = Some r"
      "publish_object E CKO_PUBLIC_KEY r = Some (rc, s')"
      and k: "rc \<noteq> CKR_OK \<longrightarrow> out_of_memory E s' \<or> incomplete (tok h) rsa_pub_attr_type"
      "rc = CKR_OK \<longrightarrow> \<not> incomplete (tok h) rsa_pub_attr_type \<and> (\<exists>x. mem s' (hd (obj_list s')) = Some (ObjectBlk x) \<and> key_mirrors tok x)"
    using create_publish_honest [OF assms(1-4), of CKO_PUBLIC_KEY] unfolding class_types_code by blast
  then have a: "add_rsa_pub_key E h TEE_SLOT_ID s = Some (rc, s')"
    by (simp add: add_rsa_pub_key_def create_rsa_pub_key_object_def)
  with key_added_mirrored [OF add_rsa_key_added(1) [OF assms(1,5) a] assms(5) k]
  show "\<exists>rc s'. add_rsa_pub_key E h TEE_SLOT_ID s = Some (rc, s') \<and> mirrored_step E tok (incomplete (tok h) rsa_pub_attr_type) [(CKO_PUBLIC_KEY, h)] s rc s'"
    by blast
  obtain r rc s' where "create_key_object rsa_priv_attr_type E h TEE_SLOT_ID s = Some r"
      "publish_object E CKO_PRIVATE_KEY r = Some (rc, s')"
      and k: "rc \<noteq> CKR_OK \<longrightarrow> out_of_memory E s' \<or> incomplete (tok h) rsa_priv_attr_type"
      "rc = CKR_OK \<longrightarrow> \<not> incomplete (tok h) rsa_priv_attr_type \<and> (\<exists>x. mem s' (hd (obj_list s')) = Some (ObjectBlk x) \<and> key_mirrors tok x)"
    using create_publish_honest [OF assms(1-4), of CKO_PRIVATE_KEY] unfolding class_types_code by blast
  then have a: "add_rsa_priv_key E h TEE_SLOT_ID s = Some (rc, s')"
    by (simp add: add_rsa_priv_key_def create_rsa_priv_key_object_def)
  with key_added_mirrored [OF add_rsa_key_added(2) [OF assms(1,5) a] assms(5) k]
  show "\<exists>rc s'. add_rsa_priv_key E h TEE_SLOT_ID s = Some (rc, s') \<and> mirrored_step E tok (incomplete (tok h) rsa_priv_attr_type) [(CKO_PRIVATE_KEY, h)] s rc s'"
    by blast
qed

text \<open>A key of the token that is mirrored but lacks an attribute the mirror asks for.\<close>

definition incomplete_key :: "(SK_OBJECT_HANDLE \<Rightarrow> u32 \<Rightarrow> byte list option) \<Rightarrow> SK_OBJECT_HANDLE \<Rightarrow> bool" where
  "incomplete_key tok h \<longleftrightarrow> token_keys tok h \<noteq> [] \<and> incomplete (tok h) rsa_pub_attr_type"

lemma incomplete_priv: "incomplete tok rsa_pub_attr_type \<or> incomplete tok rsa_priv_attr_type \<longleftrightarrow> incomplete tok rsa_pub_attr_type"
  by (auto simp: incomplete_def rsa_pub_attr_type_def rsa_priv_attr_type_def)

lemma mirror_keys_honest:
  assumes "malloc_ok E" and "honest_token (sk_fns E) tok" and "storable (tok h)" and "sk_funcs s" and "objects_wf s"
    and "tok h SK_ATTR_OBJECT_TYPE = Some (put_u32 ot)" and "tok h SK_ATTR_KEY_TYPE = Some (put_u32 kt)"
  shows "\<exists>rc s'. mirror_keys E TEE_SLOT_ID h ot kt s = Some (rc, s') \<and>
    mirrored_step E tok (incomplete_key tok h) (token_keys tok h) s rc s'"
proof -
  let ?bad = "incomplete (tok h) rsa_pub_attr_type"
  have none: "mirrored_step E tok False [] s CKR_OK s" using assms(5) by (simp add: mirrored_step_def)
  from add_rsa_key_honest(1) [OF assms(1-5)] obtain rc1 s1 where
      p: "add_rsa_pub_key E h TEE_SLOT_ID s = Some (rc1, s1)" "mirrored_step E tok ?bad [(CKO_PUBLIC_KEY, h)] s rc1 s1"
    by blast
  have f: "sk_funcs s1" "objects_wf s1" using p(2) assms(4) by (auto simp: mirrored_step_def grows_def core_def)
  from add_rsa_key_honest(2) [OF assms(1-3) f] obtain rc2 s2 where
      q: "add_rsa_priv_key E h TEE_SLOT_ID s1 = Some (rc2, s2)"
        "mirrored_step E tok (incomplete (tok h) rsa_priv_attr_type) [(CKO_PRIVATE_KEY, h)] s1 rc2 s2"
    by blast
  have pq: "mirrored_step E tok ?bad [(CKO_PRIVATE_KEY, h), (CKO_PUBLIC_KEY, h)] s rc2 s2" if "rc1 = CKR_OK"
    using mirrored_step_trans [OF p(2) [unfolded that] q(2)] by (simp add: incomplete_priv)
  have err: "mirrored_step E tok ?bad ks s rc1 s1" if "rc1 \<noteq> CKR_OK" for ks
    using p(2) that by (simp add: mirrored_step_def)
  show ?thesis
    using none p q pq err
    by (auto simp: mirror_keys_def token_keys_def incomplete_key_def assms(6,7) split: if_splits)
qed

lemma sk_answer_buffer:
  "tok ty = Some (put_u32 v) \<Longrightarrow> length b = 4 \<Longrightarrow>
   sk_answer tok \<lparr>sk_type = ty, sk_value = Some b, sk_valueLen = 4\<rparr> =
     \<lparr>sk_type = ty, sk_value = Some (put_u32 v), sk_valueLen = 4\<rparr>"
  by (simp add: sk_answer_def)

lemma typed_query:
  assumes "honest_token fns tok" and "length ot = 4" and "length kt = 4"
    and "tok h SK_ATTR_OBJECT_TYPE = Some (put_u32 oty)" and "tok h SK_ATTR_KEY_TYPE = Some (put_u32 kty)"
  obtains t where "sk_get_attributes fns h
       [\<lparr>sk_type = SK_ATTR_OBJECT_TYPE, sk_value = Some ot, sk_valueLen = 4\<rparr>,
        \<lparr>sk_type = SK_ATTR_KEY_TYPE, sk_value = Some kt, sk_valueLen = 4\<rparr>] s =
      Some (SKR_OK, [\<lparr>sk_type = SK_ATTR_OBJECT_TYPE, sk_value = Some (put_u32 oty), sk_valueLen = 4\<rparr>,
        \<lparr>sk_type = SK_ATTR_KEY_TYPE, sk_value = Some (put_u32 kty), sk_valueLen = 4\<rparr>], s\<lparr>tee := t\<rparr>)"
proof -
  let ?qs = "[\<lparr>sk_type = SK_ATTR_OBJECT_TYPE, sk_value = Some ot, sk_valueLen = 4\<rparr>,
        \<lparr>sk_type = SK_ATTR_KEY_TYPE, sk_value = Some kt, sk_valueLen = 4\<rparr>] :: SK_ATTRIBUTE list"
  have "list_all sk_request ?qs" using assms(2,3) by (simp add: sk_request_def)
  with assms(1) obtain ret as' t where "sk_get_attributes fns h ?qs s = Some (ret, as', s\<lparr>tee := t\<rparr>)"
      "if list_all (sk_fits (tok h)) ?qs then ret = SKR_OK \<and> as' = map (sk_answer (tok h)) ?qs else ret \<noteq> SKR_OK"
    by (rule honest_query)
  moreover have "list_all (sk_fits (tok h)) ?qs" using assms(4,5) by (simp add: sk_fits_def)
  ultimately show ?thesis using assms(2-5) that [of t] by (simp add: sk_answer_buffer)
qed

lemma mirror_loop_honest:
  assumes "malloc_ok E" and "honest_token (sk_fns E) tok"
  shows "sk_funcs s \<Longrightarrow> objects_wf s \<Longrightarrow> \<forall>h \<in> set hs. storable (tok h) \<and> typed (tok h) \<Longrightarrow>
    length ot = 4 \<Longrightarrow> length kt = 4 \<Longrightarrow>
    \<exists>rc s'. mirror_loop E (sk_fns E) TEE_SLOT_ID hs ot kt s = Some (rc, s') \<and>
      mirrored_step E tok (\<exists>h \<in> set hs. incomplete_key tok h) (concat (map (token_keys tok) (rev hs))) s rc s'"
proof (induction hs arbitrary: ot kt s)
  case Nil
  then show ?case by (simp add: mirrored_step_def)
next
  case (Cons h hs)
  obtain oty kty where t: "tok h SK_ATTR_OBJECT_TYPE = Some (put_u32 oty)" "tok h SK_ATTR_KEY_TYPE = Some (put_u32 kty)"
    using Cons.prems(3) by (auto simp: typed_def)
  obtain t0 where g: "sk_get_attributes (sk_fns E) h
       [\<lparr>sk_type = SK_ATTR_OBJECT_TYPE, sk_value = Some ot, sk_valueLen = 4\<rparr>,
        \<lparr>sk_type = SK_ATTR_KEY_TYPE, sk_value = Some kt, sk_valueLen = 4\<rparr>] s =
      Some (SKR_OK, [\<lparr>sk_type = SK_ATTR_OBJECT_TYPE, sk_value = Some (put_u32 oty), sk_valueLen = 4\<rparr>,
        \<lparr>sk_type = SK_ATTR_KEY_TYPE, sk_value = Some (put_u32 kty), sk_valueLen = 4\<rparr>], s\<lparr>tee := t0\<rparr>)"
    using typed_query [OF assms(2) Cons.prems(4,5) t] .
  let ?s = "s\<lparr>tee := t0\<rparr>"
  have sto: "storable (tok h)" using Cons.prems(3) by simp
  have s: "sk_funcs ?s" "objects_wf ?s" using Cons.prems(1,2) by (simp_all add: obj.wf_def)
  from mirror_keys_honest [OF assms sto s t] obtain rc1 s1 where
      k: "mirror_keys E TEE_SLOT_ID h oty kty ?s = Some (rc1, s1)"
        "mirrored_step E tok (incomplete_key tok h) (token_keys tok h) ?s rc1 s1"
    by blast
  have k2: "mirrored_step E tok (incomplete_key tok h) (token_keys tok h) s rc1 s1"
    using k(2) by (simp add: mirrored_step_def grows_def core_def object_view_def all_mirror_def)
  have o: "mirror_object E (sk_fns E) TEE_SLOT_ID h ot kt s = Some (rc1, put_u32 oty, put_u32 kty, s1)"
    using g k(1) by (simp add: mirror_object_def fault_simps)
  have f: "sk_funcs s1" "objects_wf s1" using k2 Cons.prems(1) by (auto simp: mirrored_step_def grows_def core_def)
  from Cons.IH [OF f, of "put_u32 oty" "put_u32 kty"] Cons.prems(3) obtain rc2 s2 where
      r: "mirror_loop E (sk_fns E) TEE_SLOT_ID hs (put_u32 oty) (put_u32 kty) s1 = Some (rc2, s2)"
      "mirrored_step E tok (\<exists>h \<in> set hs. incomplete_key tok h) (concat (map (token_keys tok) (rev hs))) s1 rc2 s2"
    by auto
  show ?case
  proof (cases "rc1 = CKR_OK")
    case True
    with o r k2 mirrored_step_trans [OF k2 [unfolded True] r(2)] show ?thesis by simp
  next
    case False
    with o k2 show ?thesis by (auto simp: mirrored_step_def)
  qed
qed

section \<open>A concrete state\<close>

text \<open>An open session at 16 and the two objects of a key pair at 32 and 48.\<close>

definition sample_object :: "u64 \<Rightarrow> OBJECT" where
  "sample_object cls = \<lparr>sk_obj_handle = 7, obj_class = cls, obj_subclass = CKK_RSA,
     obj_template = \<lparr>attr_type = CKA_MODULUS, pValue = Some (replicate 64 0xA5), ulValueLen = 64\<rparr> # class_defaults cls,
     obj_slotID = TEE_SLOT_ID\<rparr>"

definition sample_lib :: "unit lib" where
  "sample_lib = (initial_lib ())\<lparr>initialized := True, sk_funcs := True, shared_lib_handle := True,
     sess_list := [16], obj_list := [32, 48],
     mem := [16 \<mapsto> SessionBlk (new_session TEE_SLOT_ID 4), 32 \<mapsto> ObjectBlk (sample_object CKO_PRIVATE_KEY),
             48 \<mapsto> ObjectBlk (sample_object CKO_PUBLIC_KEY)]\<rparr>"

lemma sample_key_object: "cls \<in> {CKO_PUBLIC_KEY, CKO_PRIVATE_KEY} \<Longrightarrow> key_object (sample_object cls)"
proof -
  assume cls: "cls \<in> {CKO_PUBLIC_KEY, CKO_PRIVATE_KEY}"
  have m: "CKA_MODULUS \<notin> attr_type ` set (class_defaults cls)"
    by (simp add: class_defaults_def default_lists default_attrs)
  have wf: "wf_template (obj_template (sample_object cls))"
    using distinct_class_defaults [of cls] wf_defaults [of cls] m
    by (simp add: sample_object_def wf_template_def unique_types_def wf_attr_def)
  have u: "unique_types (obj_template (sample_object cls))" using wf by (simp add: wf_template_def)
  from cls wf unique_lookup [OF u] show ?thesis
    by (auto simp: key_object_def key_template_def sample_object_def mirrored_types_def types_of_def)
qed

lemma sample_objects_wf [simp]: "objects_wf sample_lib"
  using sample_key_object [of CKO_PRIVATE_KEY] sample_key_object [of CKO_PUBLIC_KEY]
  by (simp add: obj.wf_def sample_lib_def)

lemma sample_sessions_wf [simp]: "sessions_wf sample_lib"
  by (simp add: sess.wf_def sample_lib_def in_slot_def new_session_def)

lemma sample_session_valid: "is_session_valid sample_lib 16 = Some True"
  by (simp add: is_session_valid_eq sample_lib_def in_slot_def new_session_def)

lemma sample_honest: "honest_token (sk_fns sample_env) (\<lambda>h. sample_attr)"
  by (simp add: honest_token_def sample_env_def sample_functions_def sample_attributes_def)

lemma sample_storable: "storable sample_attr" "typed sample_attr"
  by (auto simp: storable_def typed_def sample_attr_def split: if_splits)

section \<open>Properties of objects\<close>

text \<open>
  C3: the mirror is complete and exact. When the token answers attribute queries as documented and
  enumerates at most \<open>MAX_FIND_LIST_OBJECTS\<close> objects, \<open>get_all_token_objects\<close> returns. When it succeeds,
  the list of objects has grown by exactly a private and a public object for every RSA key pair of the
  token and a public object for every RSA public key, in order, newest first, each with the token's
  label, identifier, modulus, public exponent and modulus size. It fails only if an allocation failed or
  one of those RSA keys lacks one of these five attributes, and then it always fails: a single
  incomplete key makes the whole mirror fail, although \<open>object_add_template\<close> means to skip what a key
  lacks. Sessions and objects that existed are untouched.
\<close>

theorem token_mirror_complete:
  assumes "malloc_ok E" and "honest_token (sk_fns E) tok" and "sk_funcs s" and "objects_wf s"
    and "SK_EnumerateObjects_fn (sk_fns E) [] MAX_FIND_LIST_OBJECTS (tee s) = Some (SKR_OK, hs, t)"
    and "length hs \<le> MAX_FIND_LIST_OBJECTS" and "\<forall>h \<in> set hs. storable (tok h) \<and> typed (tok h)"
  shows "\<exists>rc s'. get_all_token_objects E TEE_SLOT_ID s = Some (rc, s') \<and> objects_wf s' \<and> grows s s' \<and>
    (rc \<noteq> CKR_OK \<longrightarrow> out_of_memory E s' \<or>
       (\<exists>h \<in> set hs. token_keys tok h \<noteq> [] \<and> (\<exists>ty \<in> set (class_types CKO_PUBLIC_KEY). tok h ty = None))) \<and>
    (rc = CKR_OK \<longrightarrow>
       (\<forall>h \<in> set hs. token_keys tok h \<noteq> [] \<longrightarrow> (\<forall>ty \<in> set (class_types CKO_PUBLIC_KEY). tok h ty \<noteq> None)) \<and>
       object_view s' = concat (map (token_keys tok) (rev hs)) @ object_view s \<and>
       (all_mirror tok s \<longrightarrow> all_mirror tok s'))"
proof -
  have "objects_wf (s\<lparr>tee := t\<rparr>)" using assms(4) by (simp add: obj.wf_def)
  from mirror_loop_honest [OF assms(1,2) _ this assms(7), of "fresh_bytes E s 4" "fresh_bytes E s 4"] assms(3)
  obtain rc s' where l: "mirror_loop E (sk_fns E) TEE_SLOT_ID hs (fresh_bytes E s 4) (fresh_bytes E s 4) (s\<lparr>tee := t\<rparr>) = Some (rc, s')"
    "mirrored_step E tok (\<exists>h \<in> set hs. incomplete_key tok h) (concat (map (token_keys tok) (rev hs))) (s\<lparr>tee := t\<rparr>) rc s'" by auto
  have "get_all_token_objects E TEE_SLOT_ID s = Some (rc, s')"
    using assms(3,5,6) l(1)
    by (simp add: get_all_token_objects_def get_slot_function_list_def get_global_slot_info_def)
  moreover have "objects_wf s'" "grows s s'" using l(2) by (auto simp: mirrored_step_def grows_def core_def)
  moreover have "rc \<noteq> CKR_OK \<longrightarrow> out_of_memory E s' \<or>
       (\<exists>h \<in> set hs. token_keys tok h \<noteq> [] \<and> (\<exists>ty \<in> set (class_types CKO_PUBLIC_KEY). tok h ty = None))"
    using l(2) unfolding mirrored_step_def incomplete_key_def incomplete_def class_types_code by blast
  moreover have "rc = CKR_OK \<longrightarrow>
       (\<forall>h \<in> set hs. token_keys tok h \<noteq> [] \<longrightarrow> (\<forall>ty \<in> set (class_types CKO_PUBLIC_KEY). tok h ty \<noteq> None))"
    using l(2) unfolding mirrored_step_def incomplete_key_def incomplete_def class_types_code by (simp, blast)
  moreover have "rc = CKR_OK \<longrightarrow> object_view s' = concat (map (token_keys tok) (rev hs)) @ object_view s \<and>
       (all_mirror tok s \<longrightarrow> all_mirror tok s')"
    using l(2) by (simp add: mirrored_step_def object_view_def all_mirror_def)
  ultimately show ?thesis by blast
qed

lemma sample_mirror_OK:
  "\<exists>s'. get_all_token_objects sample_env TEE_SLOT_ID ((initial_lib ())\<lparr>sk_funcs := True\<rparr>) = Some (CKR_OK, s')"
  by (simp add: get_all_token_objects_def get_slot_function_list_def get_global_slot_info_def initial_lib_def
    sample_env_def sample_functions_def sample_attributes_def mirror_object_def sk_get_attributes_def sk_fits_def
    sk_answer_def sample_attr_def fresh_bytes_def mirror_keys_def add_rsa_pub_key_def add_rsa_priv_key_def
    create_rsa_pub_key_object_def create_rsa_priv_key_object_def create_key_object_def publish_object_def
    do_malloc_def sample_malloc_def object_add_template_def new_object_def rsa_pub_attr_type_def rsa_priv_attr_type_def
    add_template_step_def map_sk_to_pkcs_attr_def copy_attr_def read_bytes_def deref_u32_def fault_simps
    p11_template_add_default_attr_def p11_template_add_default_common_attr_def rsa_pubk_add_default_attr_def
    pubk_add_default_attr_def key_object_set_default_attr_def rsa_privk_add_default_attr_def
    privk_add_default_attr_def do_mallocs_def list_all_iff ulong_attr_def)

theorem token_mirror_complete_witness:
  "\<exists>s'. get_all_token_objects sample_env TEE_SLOT_ID ((initial_lib ())\<lparr>sk_funcs := True\<rparr>) = Some (CKR_OK, s') \<and>
     object_view s' = [(CKO_PRIVATE_KEY, 7), (CKO_PUBLIC_KEY, 7)] \<and> all_mirror (\<lambda>h. sample_attr) s'"
proof -
  let ?s = "(initial_lib ())\<lparr>sk_funcs := True\<rparr>"
  have "SK_EnumerateObjects_fn (sk_fns sample_env) [] MAX_FIND_LIST_OBJECTS (tee ?s) = Some (SKR_OK, [7], ())"
    by (simp add: sample_env_def sample_functions_def)
  moreover have "objects_wf ?s" "all_mirror (\<lambda>h. sample_attr) ?s" "object_view ?s = []"
    by (simp_all add: obj.wf_def initial_lib_def all_mirror_def object_view_def)
  moreover have "token_keys (\<lambda>h. sample_attr) 7 = [(CKO_PRIVATE_KEY, 7), (CKO_PUBLIC_KEY, 7)]"
    by (simp add: token_keys_def sample_attr_def)
  ultimately show ?thesis
    using token_mirror_complete [OF sample_malloc_ok sample_honest, of ?s "[7]"] sample_storable sample_mirror_OK by auto
qed

text \<open>Whether an object is a hit of a search, from its template.\<close>

definition object_hit :: "'t lib \<Rightarrow> CK_ATTRIBUTE list \<Rightarrow> u64 \<Rightarrow> CK_OBJECT_HANDLE \<Rightarrow> bool" where
  "object_hit s as n a = (n = 0 \<or> (case object_of (mem s a) of None \<Rightarrow> False
     | Some x \<Rightarrow> list_all (attr_matches (obj_template x)) (take (unat n) as)))"

lemma node_matches_listed:
  assumes "objects_wf s" and "a \<in> set (obj_list s)" and "list_all attr_readable as" and "unat n \<le> length as"
  shows "node_matches (mem s) (Some as) n a = Some (object_hit s as n a)"
proof -
  obtain x where x: "mem s a = Some (ObjectBlk x)" "key_object x" using object_live [OF assms(1,2)] .
  then have "wf_template (obj_template x)" by (auto simp: key_object_def key_template_def)
  with x assms(3,4) show ?thesis
    by (simp add: node_matches_def object_hit_def p11_template_compare_def compare_loop_spec)
qed

lemma find_matching_objects_eq:
  assumes "objects_wf s" and "list_all attr_readable as" and "unat n \<le> length as"
    and "mem s fl = Some (HandleBlk dst)" and "length dst = MAX_FIND_LIST_OBJECTS"
  shows "find_matching_objects fl (obj_list s) (Some as) n (mem s) =
    (let hits = filter (object_hit s as n) (obj_list s) in
     if length hits \<le> MAX_FIND_LIST_OBJECTS
     then Some (CKR_OK, of_nat (length hits), (mem s)(fl \<mapsto> HandleBlk (hits @ drop (length hits) dst)))
     else None)"
proof -
  note nm = node_matches_listed [OF assms(1) _ assms(2,3)]
  show ?thesis
  proof (cases "length (filter (object_hit s as n) (obj_list s)) \<le> MAX_FIND_LIST_OBJECTS")
    case True
    with find_loop_bounded [of "obj_list s" "node_matches (mem s) (Some as) n" "object_hit s as n" 0 dst, OF nm] assms(4,5)
    show ?thesis by (simp add: find_matching_objects_def Let_def)
  next
    case False
    with find_loop_overflow [of "obj_list s" "node_matches (mem s) (Some as) n" "object_hit s as n" dst 0, OF nm] assms(4,5)
    show ?thesis by (simp add: find_matching_objects_def Let_def)
  qed
qed

text \<open>
  C23: \<open>find_matching_objects\<close> stores exactly the handles of the objects that match the template, in the
  order of the list, and counts them, as long as at most \<open>MAX_FIND_LIST_OBJECTS\<close> match. With more
  matches it writes one entry past the end of the array, because the limit is tested after the
  write with \<open>>\<close>.
\<close>

theorem find_matching_objects_spec:
  assumes "objects_wf s" and "list_all attr_readable as" and "unat n \<le> length as"
    and "mem s fl = Some (HandleBlk dst)" and "length dst = MAX_FIND_LIST_OBJECTS"
  shows "find_matching_objects fl (obj_list s) (Some as) n (mem s) =
    (let hits = filter (object_hit s as n) (obj_list s) in
     if length hits \<le> MAX_FIND_LIST_OBJECTS
     then Some (CKR_OK, of_nat (length hits), (mem s)(fl \<mapsto> HandleBlk (hits @ drop (length hits) dst)))
     else None)"
  using assms by (rule find_matching_objects_eq)

theorem find_matching_objects_spec_witness:
  "\<exists>m. find_matching_objects 64 [32, 48] (Some [ulong_attr CKA_CLASS CKO_PUBLIC_KEY]) 1
     ((mem sample_lib)(64 \<mapsto> HandleBlk (replicate 100 0))) = Some (CKR_OK, 1, m)"
proof -
  let ?s = "sample_lib\<lparr>mem := (mem sample_lib)(64 \<mapsto> HandleBlk (replicate 100 0))\<rparr>"
  let ?as = "[ulong_attr CKA_CLASS CKO_PUBLIC_KEY]"
  have "objects_wf ?s"
    using sample_key_object [of CKO_PRIVATE_KEY] sample_key_object [of CKO_PUBLIC_KEY]
    by (simp add: obj.wf_def sample_lib_def)
  moreover have "list_all attr_readable ?as"
    by (simp add: attr_readable_def ulong_attr_def read_bytes_def)
  moreover have "filter (object_hit ?s ?as 1) (obj_list ?s) = [48]"
    by (simp add: object_hit_def sample_lib_def sample_object_def attr_matches_def attr_bytes_def
        class_defaults_def default_lists default_attrs read_bytes_def)
  moreover have "obj_list ?s = [32, 48]" by (simp add: sample_lib_def)
  ultimately show ?thesis
    using find_matching_objects_spec [of ?s ?as 1 64 "replicate 100 0"] by simp
qed

text \<open>
  C22: \<open>get_attr_value\<close> answers a request for any number of attributes of a listed key with a valid
  session attribute by attribute as PKCS\#11 prescribes (sensitive, unknown, size query, copy, short
  buffer), leaves the attributes beyond \<open>ulCount\<close> alone, writes only inside the caller's buffers, and
  returns the last error, or \<open>CKR_OK\<close> if there was none.
\<close>

theorem get_attr_value_refines:
  assumes "objects_wf s" and "is_session_valid s hS = Some True" and "h \<in> set (obj_list s)"
    and "n \<noteq> 0" and "unat n \<le> length as" and "list_all attr_writable (take (unat n) as)"
  shows "\<exists>x. mem s h = Some (ObjectBlk x) \<and> get_attr_value s hS h (Some as) n =
    Some (last_error CKR_OK (map (snd \<circ> attr_answer x) (take (unat n) as)),
          Some (map (fst \<circ> attr_answer x) (take (unat n) as) @ drop (unat n) as))"
proof -
  obtain x where x: "mem s h = Some (ObjectBlk x)" "key_object x" using object_live [OF assms(1,3)] .
  with get_attr_value_key [OF assms(2,3) x assms(4-6)] show ?thesis by blast
qed

theorem get_attr_value_refines_witness:
  "get_attr_value sample_lib 16 48 (Some [\<lparr>attr_type = CKA_MODULUS, pValue = None, ulValueLen = 0\<rparr>]) 1 =
     Some (CKR_OK, Some [\<lparr>attr_type = CKA_MODULUS, pValue = None, ulValueLen = 64\<rparr>])"
proof -
  have "mem sample_lib 48 = Some (ObjectBlk (sample_object CKO_PUBLIC_KEY))" by (simp add: sample_lib_def)
  with get_attr_value_refines [OF sample_objects_wf sample_session_valid, of 48 1
      "[\<lparr>attr_type = CKA_MODULUS, pValue = None, ulValueLen = 0\<rparr>]"] show ?thesis
    by (simp add: sample_lib_def attr_writable_def attr_answer_def sample_object_def last_error_def)
qed




end
