(* ===== verification/General.thy ===== *)
theory General
  imports Tee_Slot Object_Mirror
begin

text \<open>
  The global lock, the initialisation of the slot and the general-purpose entry points:
  \<open>src/general.c\<close> and \<open>src/p11_general.c\<close>.

  The model follows one thread: the lock is \<open>Some True\<close> between \<open>p11_global_lock\<close> and
  \<open>p11_global_unlock\<close>. The library's own mutex is an error-checking \<open>pthread\<close> mutex tried in a loop, so
  locking it while it is held, or unlocking it while it is free, never returns (\<open>None\<close>). The
  application's callbacks are tried until they answer \<open>CKR_OK\<close>, which may be never either.
\<close>

section \<open>The lock\<close>

record CK_C_INITIALIZE_ARGS =
  CreateMutex :: bool
  DestroyMutex :: bool
  LockMutex :: bool
  UnlockMutex :: bool
  ia_flags :: u64
  pReserved :: bool

text \<open>\<open>create_mutex\<close>, \<open>lock_mutex\<close> and \<open>unlock_mutex\<close> on the library's mutex.\<close>

definition create_mutex :: "'t env \<Rightarrow> 't lib \<Rightarrow> CK_RV \<times> 't lib" where
  "create_mutex E s =
     (let (p, s1) = do_malloc E s in
      if p = None then (CKR_GENERAL_ERROR, s1) else (CKR_OK, s1\<lparr>global_lock := Some False\<rparr>))"

definition lock_mutex :: "bool option \<Rightarrow> CK_RV \<times> bool option" where
  "lock_mutex p = (case p of None \<Rightarrow> (CKR_OK, None)
     | Some held \<Rightarrow> if held then (CKR_GENERAL_ERROR, p) else (CKR_OK, Some True))"

definition unlock_mutex :: "bool \<Rightarrow> CK_RV \<times> bool" where
  "unlock_mutex held = (if held then (CKR_OK, False) else (CKR_GENERAL_ERROR, held))"

text \<open>\<open>while (f () != CKR_OK);\<close> for a callback whose \<open>n\<close>-th answer is \<open>f n\<close>: the number of calls made.\<close>

partial_function (option) spin :: "(nat \<Rightarrow> CK_RV) \<Rightarrow> nat \<Rightarrow> nat option" where
  "spin f n = (if f n = CKR_OK then Some (Suc n) else spin f (Suc n))"

definition p11_global_lock :: "'t env \<Rightarrow> 't lib \<Rightarrow> 't lib option" where
  "p11_global_lock E s =
     (case (global_lock s, global_locking s) of
        (None, _) \<Rightarrow> Some s
      | (_, None) \<Rightarrow> Some s
      | (Some held, Some default_mutex_functions) \<Rightarrow>
          (let (rv, p) = lock_mutex (Some held) in
           if rv = CKR_OK then Some (s\<lparr>global_lock := p\<rparr>) else None)
      | (Some held, Some application_mutex_functions) \<Rightarrow> do {
          n \<leftarrow> spin (app_LockMutex E) (callbacks s);
          Some (s\<lparr>global_lock := Some True, callbacks := n\<rparr>) })"

text \<open>\<open>__p11_global_unlock (lock)\<close>: the lock afterwards and the number of callbacks made.\<close>

definition unlock_given :: "'t env \<Rightarrow> bool option \<Rightarrow> 't lib \<Rightarrow> (bool option \<times> nat) option" where
  "unlock_given E lock s =
     (case (lock, global_locking s) of
        (None, _) \<Rightarrow> Some (None, callbacks s)
      | (_, None) \<Rightarrow> Some (lock, callbacks s)
      | (Some held, Some default_mutex_functions) \<Rightarrow>
          (let (rv, p) = unlock_mutex held in
           if rv = CKR_OK then Some (Some p, callbacks s) else None)
      | (Some held, Some application_mutex_functions) \<Rightarrow> do {
          n \<leftarrow> spin (app_UnlockMutex E) (callbacks s);
          Some (Some False, n) })"

definition p11_global_unlock :: "'t env \<Rightarrow> 't lib \<Rightarrow> 't lib option" where
  "p11_global_unlock E s = do {
     (lock, n) \<leftarrow> unlock_given E (global_lock s) s;
     Some (s\<lparr>global_lock := lock, callbacks := n\<rparr>) }"

text \<open>The four function pointers as the bits of \<open>functions_map\<close>.\<close>

definition functions_map :: "CK_C_INITIALIZE_ARGS \<Rightarrow> nat" where
  "functions_map a = (if CreateMutex a then 1 else 0) + (if DestroyMutex a then 2 else 0) +
     (if LockMutex a then 4 else 0) + (if UnlockMutex a then 8 else 0)"

definition choose_locking :: "CK_C_INITIALIZE_ARGS \<Rightarrow> locking option" where
  "choose_locking a =
     (if ia_flags a AND CKF_OS_LOCKING_OK = 0
      then (if functions_map a = 0 then None else Some application_mutex_functions)
      else Some default_mutex_functions)"

definition p11_init_lock :: "'t env \<Rightarrow> CK_C_INITIALIZE_ARGS option \<Rightarrow> 't lib \<Rightarrow> CK_RV \<times> 't lib" where
  "p11_init_lock E pInitArgs s =
     (if global_lock s \<noteq> None then (CKR_OK, s)
      else case pInitArgs of
        None \<Rightarrow> (CKR_OK, s\<lparr>global_locking := None\<rparr>)
      | Some a \<Rightarrow>
          if pReserved a then (CKR_ARGUMENTS_BAD, s\<lparr>global_locking := None\<rparr>)
          else if functions_map a \<noteq> 0 \<and> functions_map a \<noteq> 15 then (CKR_ARGUMENTS_BAD, s\<lparr>global_locking := None\<rparr>)
          else let s1 = s\<lparr>global_locking := choose_locking a\<rparr> in
            (case choose_locking a of
               None \<Rightarrow> (CKR_OK, s1)
             | Some default_mutex_functions \<Rightarrow> create_mutex E s1
             | Some application_mutex_functions \<Rightarrow>
                 (let (rv, made) = app_CreateMutex E in
                  (rv, if made then s1\<lparr>global_lock := Some False\<rparr> else s1))))"

definition p11_free_lock :: "'t env \<Rightarrow> 't lib \<Rightarrow> 't lib option" where
  "p11_free_lock E s =
     (case global_lock s of
        None \<Rightarrow> Some s
      | Some held \<Rightarrow> do {
          (lock, n) \<leftarrow> unlock_given E (Some held) (s\<lparr>global_lock := None\<rparr>);
          Some (s\<lparr>global_lock := None, callbacks := n\<rparr>) })"

section \<open>The slot\<close>

definition pkcs_lib_init :: "'t lib \<Rightarrow> 't lib" where
  "pkcs_lib_init s = s\<lparr>initialized := True\<rparr>"

definition pkcs_lib_finish :: "'t lib \<Rightarrow> 't lib" where
  "pkcs_lib_finish s = s\<lparr>initialized := False\<rparr>"

definition is_lib_initialized :: "'t lib \<Rightarrow> bool" where
  "is_lib_initialized s = initialized s"

text \<open>The result is the \<open>int\<close> the function returns, as a truth value.\<close>

definition get_function_list :: "'t env \<Rightarrow> CK_SLOT_ID \<Rightarrow> 't lib \<Rightarrow> bool \<times> 't lib" where
  "get_function_list E slotID s =
     (if \<not> dlsym E then (False, s)
      else if \<not> get_global_slot_info slotID then (False, s)
      else if SK_GetFunctionList_rc E \<noteq> SKR_OK then (False, s)
      else (True, s\<lparr>sk_funcs := True\<rparr>))"

definition destroy_slot :: "CK_SLOT_ID \<Rightarrow> 't lib \<Rightarrow> (CK_RV \<times> 't lib) option" where
  "destroy_slot slotID s =
     (if slotID \<noteq> TEE_SLOT_ID then Some (CKR_GENERAL_ERROR, s)
      else if \<not> get_global_slot_info slotID then Some (CKR_GENERAL_ERROR, s)
      else do {
        (rc, s1) \<leftarrow> destroy_object_list slotID s;
        if rc \<noteq> CKR_OK then Some (CKR_GENERAL_ERROR, s1)
        else do {
          (rc, s2) \<leftarrow> destroy_session_list slotID s1;
          if rc \<noteq> CKR_OK then Some (CKR_GENERAL_ERROR, s2) else Some (CKR_OK, s2) } })"

definition initialize_slot :: "'t env \<Rightarrow> CK_SLOT_ID \<Rightarrow> 't lib \<Rightarrow> CK_RV \<times> 't lib" where
  "initialize_slot E slotID s =
     (if slotID \<noteq> TEE_SLOT_ID then (CKR_ARGUMENTS_BAD, s)
      else if \<not> get_global_slot_info slotID then (CKR_GENERAL_ERROR, s)
      else if \<not> dlopen E then (CKR_GENERAL_ERROR, s)
      else let (ok, s1) = get_function_list E slotID (s\<lparr>shared_lib_handle := True\<rparr>) in
        if \<not> ok then (CKR_GENERAL_ERROR, s1)
        else let (rc, s2) = initialize_object_list slotID s1 in
          if rc \<noteq> CKR_OK then (CKR_GENERAL_ERROR, s2)
          else let (rc, s3) = initialize_session_list slotID s2 in
            if rc \<noteq> CKR_OK then (CKR_GENERAL_ERROR, s3) else (CKR_OK, s3))"

section \<open>General-purpose entry points\<close>

text \<open>The loop over the slots runs once.\<close>

definition C_Initialize :: "'t env \<Rightarrow> CK_C_INITIALIZE_ARGS option \<Rightarrow> 't lib \<Rightarrow> (CK_RV \<times> 't lib) option" where
  "C_Initialize E pInitArgs s =
     (if is_lib_initialized s then Some (CKR_CRYPTOKI_ALREADY_INITIALIZED, s)
      else let (rc, s1) = p11_init_lock E pInitArgs s in
      if rc \<noteq> CKR_OK then Some (rc, s1)
      else do {
        s2 \<leftarrow> p11_global_lock E s1;
        let (rc, s4) = initialize_slot E TEE_SLOT_ID (pkcs_lib_init s2);
        (rc, s5) \<leftarrow> (if rc \<noteq> CKR_OK then do { s5 \<leftarrow> p11_free_lock E s4; Some (CKR_GENERAL_ERROR, s5) }
                    else Some (rc, s4));
        s6 \<leftarrow> p11_global_unlock E s5;
        Some (rc, s6) })"

definition C_Finalize :: "'t env \<Rightarrow> bool \<Rightarrow> 't lib \<Rightarrow> (CK_RV \<times> 't lib) option" where
  "C_Finalize E reserved s =
     (if reserved then Some (CKR_ARGUMENTS_BAD, s)
      else do {
        s1 \<leftarrow> p11_global_lock E s;
        (rc, s2) \<leftarrow>
          (if \<not> is_lib_initialized s1 then Some (CKR_CRYPTOKI_NOT_INITIALIZED, s1)
           else do { (rc, s2) \<leftarrow> destroy_slot TEE_SLOT_ID s1; Some (rc, pkcs_lib_finish s2) });
        s3 \<leftarrow> p11_free_lock E s2;
        Some (rc, s3) })"

text \<open>
  The frame of every other entry point: take the lock, refuse when the library is not initialised,
  do the work, release the lock. \<open>refused\<close> is the result of a refusal: the error code and the caller's
  output parameters as they were.
\<close>

definition api_call ::
    "'t env \<Rightarrow> 'r \<Rightarrow> ('t lib \<Rightarrow> ('r \<times> 't lib) option) \<Rightarrow> 't lib \<Rightarrow> ('r \<times> 't lib) option" where
  "api_call E refused body s = do {
     s1 \<leftarrow> p11_global_lock E s;
     (r, s2) \<leftarrow> (if \<not> is_lib_initialized s1 then Some (refused, s1) else body s1);
     s3 \<leftarrow> p11_global_unlock E s2;
     Some (r, s3) }"

definition filled_info :: "CK_INFO \<Rightarrow> CK_INFO" where
  "filled_info i = i
     \<lparr>cryptokiVersion := \<lparr>major = 2, minor = 40\<rparr>, ci_manufacturerID := blank_padded 32 ''NXP'', ci_flags := 0,
      libraryDescription := blank_padded 32 ''libpkcs11'', libraryVersion := \<lparr>major = 1, minor = 0\<rparr>\<rparr>"

definition get_info_body :: "'t lib \<Rightarrow> ((CK_RV \<times> CK_INFO option) \<times> 't lib) option" where
  "get_info_body s =
     (let i = cryptoki_info s;
          i' = (if hd (ci_manufacturerID i) = 0 then filled_info i else i)
      in Some ((CKR_OK, Some i'), s\<lparr>cryptoki_info := i'\<rparr>))"

definition C_GetInfo :: "'t env \<Rightarrow> CK_INFO option \<Rightarrow> 't lib \<Rightarrow> ((CK_RV \<times> CK_INFO option) \<times> 't lib) option" where
  "C_GetInfo E pInfo s =
     (if pInfo = None then Some ((CKR_ARGUMENTS_BAD, None), s)
      else api_call E (CKR_CRYPTOKI_NOT_INITIALIZED, pInfo) get_info_body s)"

definition C_GetFunctionStatus :: "CK_SESSION_HANDLE \<Rightarrow> CK_RV" where
  "C_GetFunctionStatus hSession = CKR_FUNCTION_NOT_PARALLEL"

definition C_CancelFunction :: "CK_SESSION_HANDLE \<Rightarrow> CK_RV" where
  "C_CancelFunction hSession = CKR_FUNCTION_NOT_PARALLEL"

section \<open>The lock returns\<close>

lemma spin_returns:
  assumes "f m = CKR_OK" and "n \<le> m"
  shows "\<exists>k. spin f n = Some k \<and> n < k \<and> k \<le> Suc m"
  using assms(2)
proof (induction "m - n" arbitrary: n)
  case 0
  then have "n = m" by simp
  with assms(1) show ?case by (subst spin.simps) simp
next
  case (Suc d)
  show ?case
  proof (cases "f n = CKR_OK")
    case True
    with Suc.prems show ?thesis by (subst spin.simps) simp
  next
    case False
    have "d = m - Suc n" "Suc n \<le> m" using Suc.hyps(2) by auto
    with Suc.hyps(1) obtain k where "spin f (Suc n) = Some k" "Suc n < k" "k \<le> Suc m" by blast
    with False show ?thesis by (subst spin.simps) simp
  qed
qed

text \<open>The application's mutex callbacks answer \<open>CKR_OK\<close> again and again.\<close>

definition callbacks_progress :: "'t env \<Rightarrow> bool" where
  "callbacks_progress E \<longleftrightarrow> (\<forall>n. \<exists>m \<ge> n. app_LockMutex E m = CKR_OK) \<and> (\<forall>n. \<exists>m \<ge> n. app_UnlockMutex E m = CKR_OK)"

lemma spin_lock: "callbacks_progress E \<Longrightarrow> \<exists>k. spin (app_LockMutex E) n = Some k"
  using spin_returns by (metis callbacks_progress_def)

lemma spin_unlock: "callbacks_progress E \<Longrightarrow> \<exists>k. spin (app_UnlockMutex E) n = Some k"
  using spin_returns by (metis callbacks_progress_def)

text \<open>Between two calls of the library: nobody holds the lock, and a lock has locking functions.\<close>

definition lock_idle :: "'t lib \<Rightarrow> bool" where
  "lock_idle s \<longleftrightarrow> global_lock s \<noteq> Some True \<and> (global_lock s \<noteq> None \<longrightarrow> global_locking s \<noteq> None)"

definition relock :: "bool option \<Rightarrow> nat \<Rightarrow> 't lib \<Rightarrow> 't lib" where
  "relock l n s = s\<lparr>global_lock := l, callbacks := n\<rparr>"

lemma relock_simps [simp]:
  "initialized (relock l n s) = initialized s" "global_lock (relock l n s) = l"
  "global_locking (relock l n s) = global_locking s" "callbacks (relock l n s) = n"
  "sess_list (relock l n s) = sess_list s" "obj_list (relock l n s) = obj_list s"
  "sk_funcs (relock l n s) = sk_funcs s" "mem (relock l n s) = mem s" "tee (relock l n s) = tee s"
  "mallocs (relock l n s) = mallocs s" "cryptoki_info (relock l n s) = cryptoki_info s"
  "relock l n (relock l' n' s) = relock l n s"
  by (simp_all add: relock_def)

lemma relock_same: "relock (global_lock s) (callbacks s) s = s"
  by (simp add: relock_def)

text \<open>The three situations between calls: no lock, the library's lock, the application's lock.\<close>

lemma lock_idle_cases:
  assumes "lock_idle s"
  obtains "global_lock s = None"
  | "global_lock s = Some False" "global_locking s = Some default_mutex_functions"
  | "global_lock s = Some False" "global_locking s = Some application_mutex_functions"
proof -
  consider "global_lock s = None" | "global_lock s = Some False" "global_locking s \<noteq> None"
    using assms by (cases "global_lock s") (auto simp: lock_idle_def)
  then show ?thesis
  proof cases
    case 2
    then obtain l where "global_locking s = Some l" by blast
    with 2 that(2,3) show ?thesis by (cases l) auto
  qed (use that in blast)
qed

lemma lock_total:
  assumes "callbacks_progress E" and "lock_idle s"
  shows "\<exists>n. p11_global_lock E s = Some (relock (map_option (\<lambda>_. True) (global_lock s)) n s)"
  using assms(2)
proof (cases rule: lock_idle_cases)
  case 1
  with relock_same [of s] show ?thesis
    by (intro exI [of _ "callbacks s"]) (simp add: p11_global_lock_def)
next
  case 2
  then show ?thesis
    by (intro exI [of _ "callbacks s"]) (simp add: p11_global_lock_def lock_mutex_def relock_def)
next
  case 3
  obtain k where "spin (app_LockMutex E) (callbacks s) = Some k" using spin_lock [OF assms(1)] by blast
  with 3 show ?thesis by (intro exI [of _ k]) (simp add: p11_global_lock_def relock_def)
qed

lemma unlock_total:
  assumes "callbacks_progress E" and "lock_idle s" and "global_lock s' = map_option (\<lambda>_. True) (global_lock s)"
    and "global_locking s' = global_locking s"
  shows "\<exists>n. p11_global_unlock E s' = Some (relock (global_lock s) n s')"
  using assms(2)
proof (cases rule: lock_idle_cases)
  case 1
  with assms(3) show ?thesis
    by (intro exI [of _ "callbacks s'"]) (simp add: p11_global_unlock_def unlock_given_def relock_def)
next
  case 2
  with assms(3,4) show ?thesis
    by (intro exI [of _ "callbacks s'"]) (simp add: p11_global_unlock_def unlock_given_def unlock_mutex_def relock_def)
next
  case 3
  obtain k where "spin (app_UnlockMutex E) (callbacks s') = Some k" using spin_unlock [OF assms(1)] by blast
  with 3 assms(3,4) show ?thesis
    by (intro exI [of _ k]) (simp add: p11_global_unlock_def unlock_given_def relock_def)
qed

section \<open>The contract of an entry point\<close>

text \<open>
  The body of an entry point works under the lock, does not touch it and keeps the library's
  invariant, which does not look at the lock. Then the entry point returns whenever its body does,
  refuses before initialisation, keeps the invariant, and leaves the lock as it was.
\<close>

locale api_body =
  fixes inv :: "'t lib \<Rightarrow> bool" and body :: "'t lib \<Rightarrow> ('r \<times> 't lib) option"
  assumes inv_relock: "inv (relock l n s) \<longleftrightarrow> inv s"
    and keeps_inv: "inv s \<Longrightarrow> initialized s \<Longrightarrow> body s = Some (r, s') \<Longrightarrow> inv s'"
    and keeps_lock: "inv s \<Longrightarrow> initialized s \<Longrightarrow> body s = Some (r, s') \<Longrightarrow>
      global_lock s' = global_lock s \<and> global_locking s' = global_locking s"
begin

lemma refused_before_init:
  assumes "callbacks_progress E" and "lock_idle s" and "\<not> initialized s"
  shows "\<exists>n. api_call E refused body s = Some (refused, relock (global_lock s) n s)"
proof -
  obtain n where l: "p11_global_lock E s = Some (relock (map_option (\<lambda>_. True) (global_lock s)) n s)"
    using lock_total [OF assms(1,2)] by blast
  obtain n' where "p11_global_unlock E (relock (map_option (\<lambda>_. True) (global_lock s)) n s) =
      Some (relock (global_lock s) n' s)"
    using unlock_total [OF assms(1,2), of "relock (map_option (\<lambda>_. True) (global_lock s)) n s"] by auto
  with l assms(3) show ?thesis by (auto simp: api_call_def is_lib_initialized_def)
qed

text \<open>The entry point of an initialised library is its body, run on a state that differs in the lock only.\<close>

lemma runs_body:
  assumes "callbacks_progress E" and "lock_idle s" and "initialized s" and "inv s"
    and "\<And>l n. \<exists>r s'. body (relock l n s) = Some (r, s') \<and> Q r s'"
  shows "\<exists>r s' n. api_call E refused body s = Some (r, relock (global_lock s) n s') \<and> Q r s'"
proof -
  obtain n where l: "p11_global_lock E s = Some (relock (map_option (\<lambda>_. True) (global_lock s)) n s)"
    using lock_total [OF assms(1,2)] by blast
  let ?s1 = "relock (map_option (\<lambda>_. True) (global_lock s)) n s"
  obtain r s2 where b: "body ?s1 = Some (r, s2)" and q: "Q r s2" using assms(5) by blast
  have k: "global_lock s2 = map_option (\<lambda>_. True) (global_lock s)" "global_locking s2 = global_locking s"
    using keeps_lock [OF _ _ b] assms(3,4) inv_relock by simp_all
  obtain n' where "p11_global_unlock E s2 = Some (relock (global_lock s) n' s2)"
    using unlock_total [OF assms(1,2) k] by blast
  with l b q assms(3) show ?thesis by (auto simp: api_call_def is_lib_initialized_def)
qed

lemma runs_body_eq:
  assumes "callbacks_progress E" and "lock_idle s" and "initialized s" and "inv s"
    and "\<And>l n. body (relock l n s) = Some (r, relock l n t)"
  shows "\<exists>n. api_call E refused body s = Some (r, relock (global_lock s) n t)"
proof -
  have "\<exists>r' s'. body (relock l n s) = Some (r', s') \<and> r' = r \<and> (\<exists>l n. s' = relock l n t)" for l n
    using assms(5) by blast
  from runs_body [OF assms(1-4) this, of refused] show ?thesis by auto
qed

lemma faults_with_body:
  assumes "callbacks_progress E" and "lock_idle s" and "initialized s" and "\<And>l n. body (relock l n s) = None"
  shows "api_call E refused body s = None"
  using lock_total [OF assms(1,2)] assms(3,4) by (auto simp: api_call_def is_lib_initialized_def)

lemma keeps:
  assumes "callbacks_progress E" and "lock_idle s" and "inv s" and "api_call E refused body s = Some (r, s')"
  shows "inv s' \<and> lock_idle s'"
proof -
  obtain n where l: "p11_global_lock E s = Some (relock (map_option (\<lambda>_. True) (global_lock s)) n s)"
    using lock_total [OF assms(1,2)] by blast
  let ?s1 = "relock (map_option (\<lambda>_. True) (global_lock s)) n s"
  obtain s2 where b: "(if \<not> initialized s then Some (refused, ?s1) else body ?s1) = Some (r, s2)"
      and u: "p11_global_unlock E s2 = Some s'"
    using assms(4) l by (auto simp: api_call_def is_lib_initialized_def split: bind_splits)
  have i: "inv ?s1" using assms(3) inv_relock by simp
  have k: "global_lock s2 = map_option (\<lambda>_. True) (global_lock s)" "global_locking s2 = global_locking s"
    using b keeps_lock [OF i, of r s2] by (auto split: if_splits)
  have "inv s2" using b i keeps_inv [OF i, of r s2] by (auto split: if_splits)
  moreover obtain n' where "s' = relock (global_lock s) n' s2"
    using unlock_total [OF assms(1,2) k] u by auto
  ultimately show ?thesis using assms(2) inv_relock k(2) by (simp add: lock_idle_def)
qed

end

end
