(* ===== verification/Crypto.thy ===== *)
theory Crypto
  imports Object_Mirror
begin

text \<open>
  Signing: \<open>src/crypto.c\<close>. The context of a signature lives in the session; \<open>hSession\<close> and \<open>sess\<close> of
  the C functions name the same node, so the model takes the handle and reads and writes the node in
  the heap. The 64-bit lengths of Cryptoki meet the 16-bit lengths of the Secure Object interface
  here: an argument is truncated, and the \<open>(uint16_t *)\<close> cast of an output length replaces its low
  half (little-endian) only.
\<close>

abbreviation (input) MAX_RSA_KEYLEN :: nat where "MAX_RSA_KEYLEN \<equiv> 512"
abbreviation (input) MAX_HASH_LEN :: nat where "MAX_HASH_LEN \<equiv> 64"

section \<open>Starting a signature\<close>

text \<open>The first \<open>n\<close> entries of an array of \<open>CK_ULONG\<close>.\<close>

fun read_ulongs :: "nat \<Rightarrow> byte list \<Rightarrow> u64 list option" where
  "read_ulongs 0 bs = Some []"
| "read_ulongs (Suc n) bs =
     (if 8 \<le> length bs then do { vs \<leftarrow> read_ulongs n (drop 8 bs); Some (get_u64 bs # vs) } else None)"

definition sign_mechanisms :: "CK_MECHANISM_TYPE list" where
  "sign_mechanisms = [CKM_RSA_PKCS, CKM_MD5_RSA_PKCS, CKM_SHA1_RSA_PKCS, CKM_SHA256_RSA_PKCS,
     CKM_SHA384_RSA_PKCS, CKM_SHA512_RSA_PKCS]"

definition query_attr :: "CK_ATTRIBUTE_TYPE \<Rightarrow> CK_ATTRIBUTE" where
  "query_attr ty = \<lparr>attr_type = ty, pValue = None, ulValueLen = 0\<rparr>"

text \<open>The checks of \<open>sign_init\<close> once the attributes of the key are read.\<close>

definition sign_checks :: "CK_MECHANISM \<Rightarrow> CK_ATTRIBUTE list \<Rightarrow> CK_RV option" where
  "sign_checks mech attr = do {
     sign \<leftarrow> deref_byte (pValue (attr ! 0));
     if sign \<noteq> CK_TRUE then Some CKR_KEY_FUNCTION_NOT_PERMITTED
     else do {
       mechs \<leftarrow> (case pValue (attr ! 1) of
                  None \<Rightarrow> None | Some bs \<Rightarrow> read_ulongs (unat (ulValueLen (attr ! 1)) div 8) bs);
       if mechanism mech \<notin> set mechs then Some CKR_MECHANISM_INVALID
       else if mechanism mech \<in> set sign_mechanisms then
         (if ulParameterLen mech \<noteq> 0 then Some CKR_MECHANISM_PARAM_INVALID
          else do {
            keytype \<leftarrow> deref_u64 (pValue (attr ! 2));
            if keytype \<noteq> CKK_RSA then Some CKR_KEY_TYPE_INCONSISTENT
            else do {
              cls \<leftarrow> deref_u64 (pValue (attr ! 3));
              if cls \<noteq> CKO_PRIVATE_KEY then Some CKR_KEY_FUNCTION_NOT_PERMITTED else Some CKR_OK } })
       else Some CKR_MECHANISM_INVALID } }"

text \<open>The three queries of \<open>sign_init\<close>: the attributes of the key, or the error they end in.\<close>

definition sign_attributes ::
    "'t env \<Rightarrow> CK_SESSION_HANDLE \<Rightarrow> CK_OBJECT_HANDLE \<Rightarrow> 't lib \<Rightarrow> ((CK_RV + CK_ATTRIBUTE list) \<times> 't lib) option" where
  "sign_attributes E hSession key s = do {
     (rc, p0) \<leftarrow> get_attr_value s hSession key (Some (map query_attr [CKA_SIGN, CKA_ALLOWED_MECHANISMS, CKA_KEY_TYPE, CKA_CLASS])) 1;
     if rc \<noteq> CKR_OK then Some (Inl CKR_KEY_FUNCTION_NOT_PERMITTED, s)
     else do {
       (rc, p1) \<leftarrow> get_attr_value s hSession key (Some (map query_attr [CKA_ALLOWED_MECHANISMS, CKA_KEY_TYPE, CKA_CLASS])) 3;
       if rc \<noteq> CKR_OK then Some (Inl rc, s)
       else do {
         as0 \<leftarrow> p0;
         as1 \<leftarrow> p1;
         let (obj_mechanisms, s1) = do_malloc E s;
         if obj_mechanisms = None then Some (Inl CKR_HOST_MEMORY, s1)
         else do {
           (rc, p2) \<leftarrow> get_attr_value s1 hSession key (Some
             [(as0 ! 0)\<lparr>pValue := Some [CK_FALSE]\<rparr>,
              (as1 ! 0)\<lparr>pValue := Some (fresh_bytes E s (unat (ulValueLen (as1 ! 0))))\<rparr>,
              (as1 ! 1)\<lparr>pValue := Some (fresh_bytes E s 8)\<rparr>,
              (as1 ! 2)\<lparr>pValue := Some (fresh_bytes E s 8)\<rparr>]) 4;
           if rc \<noteq> CKR_OK then Some (Inl rc, s1)
           else do { as2 \<leftarrow> p2; Some (Inr as2, s1) } } } } }"

definition sign_init ::
    "'t env \<Rightarrow> CK_SESSION_HANDLE \<Rightarrow> CK_MECHANISM \<Rightarrow> bool \<Rightarrow> CK_OBJECT_HANDLE \<Rightarrow> 't lib \<Rightarrow> (CK_RV \<times> 't lib) option" where
  "sign_init E hSession mech recover_mode key s = do {
     sess \<leftarrow> session_of (mem s hSession);
     if ctx_active (sign_ctx sess) then Some (CKR_OPERATION_ACTIVE, s)
     else do {
       (r, s1) \<leftarrow> sign_attributes E hSession key s;
       case r of
         Inl rc \<Rightarrow> Some (rc, s1)
       | Inr attr \<Rightarrow> do {
           rc \<leftarrow> sign_checks mech attr;
           if rc \<noteq> CKR_OK then Some (rc, s1)
           else Some (CKR_OK, s1\<lparr>mem := (mem s1)(hSession \<mapsto> SessionBlk (sess\<lparr>sign_ctx := (sign_ctx sess)
             \<lparr>ctx_key := key,
              ctx_mech := \<lparr>mechanism = mechanism mech, pParameter = None, ulParameterLen = ulParameterLen mech\<rparr>,
              ctx_context := None, ctx_context_len := 0, ctx_multi := False, ctx_active := True,
              ctx_recover := recover_mode\<rparr>\<rparr>))\<rparr>) } } }"

section \<open>Signing\<close>

text \<open>What the \<open>(uint16_t *)\<close> cast leaves of a 64-bit length when the callee stores \<open>v\<close>.\<close>

definition store_low16 :: "u64 \<Rightarrow> u16 \<Rightarrow> u64" where
  "store_low16 old v = (old AND NOT 0xFFFF) OR ucast v"

text \<open>
  The local array \<open>data\<close> of \<open>rsa_sign_pkcs\<close> after the padding loop and the copy: the index arithmetic is
  that of \<open>CK_ULONG\<close>, and a write outside the array is undefined.
\<close>

definition padded_block :: "u64 \<Rightarrow> byte list \<Rightarrow> byte list option" where
  "padded_block req_sig_len d =
     (let padding_len = req_sig_len - 3 - of_nat (length d);
          i = (if 2 \<le> padding_len + 2 then unat (padding_len + 2) else 2)
      in if i + 1 + length d \<le> MAX_RSA_KEYLEN
         then Some ([0, 1] @ replicate (i - 2) 0xFF @ [0] @ d) else None)"

text \<open>The modulus length of the key of the context, by a size query.\<close>

definition required_length :: "'t lib \<Rightarrow> CK_SESSION_HANDLE \<Rightarrow> CK_OBJECT_HANDLE \<Rightarrow> (CK_RV \<times> u64) option" where
  "required_length s hSession key = do {
     (rc, p) \<leftarrow> get_attr_value s hSession key (Some [query_attr CKA_MODULUS]) 1;
     as \<leftarrow> p;
     Some (rc, ulValueLen (as ! 0)) }"

definition rsa_sign_pkcs ::
    "'t env \<Rightarrow> CK_SESSION_HANDLE \<Rightarrow> session \<Rightarrow> buffer \<Rightarrow> u64 \<Rightarrow> buffer \<Rightarrow> u64 \<Rightarrow> 't lib \<Rightarrow>
     ((CK_RV \<times> buffer \<times> u64) \<times> 't lib) option" where
  "rsa_sign_pkcs E hSession sess pData ulDataLen pSignature sigLen s = do {
     (rc, req_sig_len) \<leftarrow> required_length s hSession (ctx_key (sign_ctx sess));
     if rc \<noteq> CKR_OK then Some ((rc, pSignature, sigLen), s)
     else if pSignature = None then Some ((CKR_OK, None, req_sig_len), s)
     else if sigLen < req_sig_len then Some ((CKR_BUFFER_TOO_SMALL, pSignature, sigLen), s)
     else if req_sig_len - 11 < ulDataLen then Some ((CKR_DATA_LEN_RANGE, pSignature, sigLen), s)
     else do {
       d \<leftarrow> read_bytes pData (unat ulDataLen);
       block \<leftarrow> padded_block req_sig_len d;
       case get_slot_function_list E s (si_slotID (session_info sess)) of
         None \<Rightarrow> Some ((CKR_ARGUMENTS_BAD, pSignature, sigLen), s)
       | Some fns \<Rightarrow> do {
           obj \<leftarrow> object_of (mem s (ctx_key (sign_ctx sess)));
           inp \<leftarrow> read_bytes (Some (block @ fresh_bytes E s (MAX_RSA_KEYLEN - length block)))
                    (unat (ucast req_sig_len :: u16));
           (ret, out, n, t) \<leftarrow> SK_Decrypt_fn fns SKM_RSA_PKCS_NOPAD (sk_obj_handle obj) inp pSignature (ucast sigLen) (tee s);
           Some ((if ret \<noteq> SKR_OK then CKR_GENERAL_ERROR else CKR_OK, out, store_low16 sigLen n), s\<lparr>tee := t\<rparr>) } } }"

text \<open>The Secure Object mechanisms of the hash-based signature mechanisms: signature and digest.\<close>

definition hash_mechanisms :: "CK_MECHANISM_TYPE \<Rightarrow> (u32 \<times> u32) option" where
  "hash_mechanisms m =
     (if m = CKM_MD5_RSA_PKCS then Some (SKM_RSASSA_PKCS1_V1_5_MD5, SKM_MD5)
      else if m = CKM_SHA1_RSA_PKCS then Some (SKM_RSASSA_PKCS1_V1_5_SHA1, SKM_SHA1)
      else if m = CKM_SHA256_RSA_PKCS then Some (SKM_RSASSA_PKCS1_V1_5_SHA256, SKM_SHA256)
      else if m = CKM_SHA384_RSA_PKCS then Some (SKM_RSASSA_PKCS1_V1_5_SHA384, SKM_SHA384)
      else if m = CKM_SHA512_RSA_PKCS then Some (SKM_RSASSA_PKCS1_V1_5_SHA512, SKM_SHA512)
      else None)"

definition rsa_hash_sign_pkcs ::
    "'t env \<Rightarrow> CK_SESSION_HANDLE \<Rightarrow> session \<Rightarrow> buffer \<Rightarrow> u64 \<Rightarrow> buffer \<Rightarrow> u64 \<Rightarrow> 't lib \<Rightarrow>
     ((CK_RV \<times> buffer \<times> u64) \<times> 't lib) option" where
  "rsa_hash_sign_pkcs E hSession sess pData ulDataLen pSignature sigLen s = do {
     (rc, req_sig_len) \<leftarrow> required_length s hSession (ctx_key (sign_ctx sess));
     if rc \<noteq> CKR_OK then Some ((rc, pSignature, sigLen), s)
     else if pSignature = None then Some ((CKR_OK, None, req_sig_len), s)
     else if sigLen < req_sig_len then Some ((CKR_BUFFER_TOO_SMALL, pSignature, sigLen), s)
     else case get_slot_function_list E s (si_slotID (session_info sess)) of
       None \<Rightarrow> Some ((CKR_ARGUMENTS_BAD, pSignature, sigLen), s)
     | Some fns \<Rightarrow>
        (case hash_mechanisms (mechanism (ctx_mech (sign_ctx sess))) of
           None \<Rightarrow> Some ((CKR_MECHANISM_INVALID, pSignature, sigLen), s)
         | Some (signType, digestType) \<Rightarrow> do {
             obj \<leftarrow> object_of (mem s (ctx_key (sign_ctx sess)));
             inp \<leftarrow> read_bytes pData (unat (ucast ulDataLen :: u16));
             (ret, hash, n, t) \<leftarrow> SK_Digest_fn fns digestType inp (Some (fresh_bytes E s MAX_HASH_LEN))
                (of_nat MAX_HASH_LEN) (tee s);
             if ret \<noteq> SKR_OK then Some ((CKR_GENERAL_ERROR, pSignature, sigLen), s\<lparr>tee := t\<rparr>)
             else do {
               digest \<leftarrow> read_bytes hash (unat (ucast (store_low16 (of_nat MAX_HASH_LEN) n) :: u16));
               (ret, out, n, t) \<leftarrow> SK_Sign_fn fns signType (sk_obj_handle obj) digest pSignature (ucast sigLen) t;
               Some ((if ret \<noteq> SKR_OK then CKR_GENERAL_ERROR else CKR_OK, out, store_low16 sigLen n), s\<lparr>tee := t\<rparr>) } }) }"

text \<open>The context after a signature that is over.\<close>

definition cleared_context :: "sign_verify_context \<Rightarrow> sign_verify_context" where
  "cleared_context ctx = ctx\<lparr>ctx_key := 0, ctx_mech := \<lparr>mechanism = 0, pParameter = None, ulParameterLen = 0\<rparr>,
     ctx_multi := False, ctx_active := False, ctx_recover := False, ctx_context_len := 0, ctx_context := None\<rparr>"

text \<open>Whether \<open>sign\<close> keeps the signature open: a size query that succeeded, or a short buffer.\<close>

definition keeps_open :: "CK_RV \<Rightarrow> buffer \<Rightarrow> bool" where
  "keeps_open rc pSignature \<longleftrightarrow> (rc = CKR_OK \<and> pSignature = None) \<or> rc = CKR_BUFFER_TOO_SMALL"

definition sign ::
    "'t env \<Rightarrow> CK_SESSION_HANDLE \<Rightarrow> buffer \<Rightarrow> u64 \<Rightarrow> buffer \<Rightarrow> u64 \<Rightarrow> 't lib \<Rightarrow>
     ((CK_RV \<times> buffer \<times> u64) \<times> 't lib) option" where
  "sign E hSession pData ulDataLen pSignature sigLen s = do {
     sess \<leftarrow> session_of (mem s hSession);
     if \<not> ctx_active (sign_ctx sess) then Some ((CKR_OPERATION_NOT_INITIALIZED, pSignature, sigLen), s)
     else if mechanism (ctx_mech (sign_ctx sess)) \<notin> set sign_mechanisms
     then Some ((CKR_MECHANISM_INVALID, pSignature, sigLen), s)
     else do {
       ((rc, out, n), s1) \<leftarrow>
         (if mechanism (ctx_mech (sign_ctx sess)) = CKM_RSA_PKCS
          then rsa_sign_pkcs E hSession sess pData ulDataLen pSignature sigLen s
          else rsa_hash_sign_pkcs E hSession sess pData ulDataLen pSignature sigLen s);
       if keeps_open rc pSignature then Some ((rc, out, n), s1)
       else Some ((rc, out, n), s1\<lparr>mem := (mem s1)(hSession \<mapsto>
              SessionBlk (sess\<lparr>sign_ctx := cleared_context (sign_ctx sess)\<rparr>))\<rparr>) } }"

section \<open>The encryption block\<close>

lemma unat_of_nat_u64: "n < 2 ^ 64 \<Longrightarrow> unat (of_nat n :: u64) = n"
  by (simp add: unat_of_nat take_bit_nat_eq_self)

lemma unat_sub_le: "(b :: 'a::len word) \<le> a \<Longrightarrow> unat (a - b) = unat a - unat b"
  by (simp add: unat_sub)

lemma padded_block_eq:
  assumes "11 \<le> unat k" and "unat k \<le> MAX_RSA_KEYLEN" and "length d \<le> unat k - 11"
  shows "padded_block k d = Some ([0, 1] @ replicate (unat k - 3 - length d) 0xFF @ [0] @ d)"
proof -
  have d: "unat (of_nat (length d) :: u64) = length d" using assms by (intro unat_of_nat_u64) simp
  have "unat (k - 3) = unat k - 3" using assms by (subst unat_sub_le) (auto simp: word_le_nat_alt)
  then have p: "unat (k - 3 - of_nat (length d)) = unat k - 3 - length d"
    using assms d by (subst unat_sub_le) (auto simp: word_le_nat_alt)
  then have q: "unat (k - 3 - of_nat (length d) + 2) = unat k - 3 - length d + 2"
    using assms by (subst unat_word_ariths(1)) (simp add: p)
  show ?thesis
    using assms p q by (simp add: padded_block_def Let_def word_le_nat_alt)
qed

section \<open>What a key answers\<close>

lemma required_length_key:
  assumes "is_session_valid s hS = Some True" and "h \<in> set (obj_list s)" and "mem s h = Some (ObjectBlk x)"
    and "key_object x" and "p11_template_check_attr (obj_template x) CKA_MODULUS = Some b"
  shows "required_length s hS h = Some (CKR_OK, ulValueLen b)"
proof -
  have "get_attr_value s hS h (Some [query_attr CKA_MODULUS]) 1 =
      Some (CKR_OK, Some [(query_attr CKA_MODULUS)\<lparr>ulValueLen := ulValueLen b\<rparr>])"
    using get_attr_value_key [OF assms(1-4), of 1 "[query_attr CKA_MODULUS]"] assms(5)
    by (simp add: query_attr_def attr_writable_def attr_answer_def rsa_secret_types_def last_error_def)
  then show ?thesis by (simp add: required_length_def)
qed

text \<open>Reading an array of \<open>CK_ULONG\<close> back.\<close>

lemma read_ulongs_put: "read_ulongs (length vs) (concat (map put_u64 vs) @ rest) = Some vs"
  by (induction vs) simp_all

lemma sign_attributes_private:
  assumes "is_session_valid s hS = Some True" and "h \<in> set (obj_list s)" and "mem s h = Some (ObjectBlk x)"
    and "key_object x" and "obj_class x = CKO_PRIVATE_KEY"
  shows "sign_attributes E hS h s =
    (let (p, s1) = do_malloc E s in
     Some (if p = None then Inl CKR_HOST_MEMORY
           else Inr [bool_attr CKA_SIGN CK_TRUE,
                     \<lparr>attr_type = CKA_ALLOWED_MECHANISMS, pValue = Some (concat (map put_u64 rsa_priv_key_mechs)), ulValueLen = 56\<rparr>,
                     ulong_attr CKA_KEY_TYPE CKK_RSA, ulong_attr CKA_CLASS CKO_PRIVATE_KEY], s1))"
proof -
  have kt: "key_template CKO_PRIVATE_KEY (obj_template x)" using assms(4,5) by (simp add: key_object_def)
  note look = key_template_private [OF kt] key_template_class [OF kt, simplified]
  note ans = attr_answer_def assms(5) look rsa_secret_types_def query_attr_def attr_writable_def last_error_def
    bool_attr_def ulong_attr_def attr_bytes_def read_bytes_def
  have v: "is_session_valid (snd (do_malloc E s)) hS = Some True" "h \<in> set (obj_list (snd (do_malloc E s)))"
      "mem (snd (do_malloc E s)) h = Some (ObjectBlk x)"
    using assms(1-3) by (auto simp: do_malloc_def is_session_valid_eq)
  have 1: "get_attr_value s hS h (Some (map query_attr [CKA_SIGN, CKA_ALLOWED_MECHANISMS, CKA_KEY_TYPE, CKA_CLASS])) 1 =
      Some (CKR_OK, Some [(query_attr CKA_SIGN)\<lparr>ulValueLen := 1\<rparr>, query_attr CKA_ALLOWED_MECHANISMS,
        query_attr CKA_KEY_TYPE, query_attr CKA_CLASS])"
    by (subst get_attr_value_key [OF assms(1-4)]) (simp_all add: ans)
  have 2: "get_attr_value s hS h (Some (map query_attr [CKA_ALLOWED_MECHANISMS, CKA_KEY_TYPE, CKA_CLASS])) 3 =
      Some (CKR_OK, Some [(query_attr CKA_ALLOWED_MECHANISMS)\<lparr>ulValueLen := 56\<rparr>,
        (query_attr CKA_KEY_TYPE)\<lparr>ulValueLen := 8\<rparr>, (query_attr CKA_CLASS)\<lparr>ulValueLen := 8\<rparr>])"
    by (subst get_attr_value_key [OF assms(1-4)]) (simp_all add: ans)
  have 3: "get_attr_value (snd (do_malloc E s)) hS h (Some
             [(query_attr CKA_SIGN)\<lparr>ulValueLen := 1, pValue := Some [CK_FALSE]\<rparr>,
              (query_attr CKA_ALLOWED_MECHANISMS)\<lparr>ulValueLen := 56, pValue := Some (fresh_bytes E s 56)\<rparr>,
              (query_attr CKA_KEY_TYPE)\<lparr>ulValueLen := 8, pValue := Some (fresh_bytes E s 8)\<rparr>,
              (query_attr CKA_CLASS)\<lparr>ulValueLen := 8, pValue := Some (fresh_bytes E s 8)\<rparr>]) 4 =
      Some (CKR_OK, Some [bool_attr CKA_SIGN CK_TRUE,
         \<lparr>attr_type = CKA_ALLOWED_MECHANISMS, pValue = Some (concat (map put_u64 rsa_priv_key_mechs)), ulValueLen = 56\<rparr>,
         ulong_attr CKA_KEY_TYPE CKK_RSA, ulong_attr CKA_CLASS CKO_PRIVATE_KEY])"
    by (subst get_attr_value_key [OF v assms(4)]) (simp_all add: ans rsa_priv_key_mechs_def)
  show ?thesis
    unfolding sign_attributes_def 1 2 using 3
    by (simp add: Let_def split_beta query_attr_def)
qed

lemma sign_checks_private:
  "sign_checks mech [bool_attr CKA_SIGN CK_TRUE,
      \<lparr>attr_type = CKA_ALLOWED_MECHANISMS, pValue = Some (concat (map put_u64 rsa_priv_key_mechs)), ulValueLen = 56\<rparr>,
      ulong_attr CKA_KEY_TYPE CKK_RSA, ulong_attr CKA_CLASS CKO_PRIVATE_KEY] =
   Some (if mechanism mech \<notin> set sign_mechanisms then CKR_MECHANISM_INVALID
         else if ulParameterLen mech \<noteq> 0 then CKR_MECHANISM_PARAM_INVALID else CKR_OK)"
proof -
  have "length rsa_priv_key_mechs = 7" by (simp add: rsa_priv_key_mechs_def)
  then have "read_ulongs 7 (concat (map put_u64 rsa_priv_key_mechs)) = Some rsa_priv_key_mechs"
    using read_ulongs_put [of rsa_priv_key_mechs "[]"] by simp
  moreover have "set sign_mechanisms \<subseteq> set rsa_priv_key_mechs"
    by (simp add: sign_mechanisms_def rsa_priv_key_mechs_def)
  ultimately show ?thesis
    by (auto simp: sign_checks_def bool_attr_def ulong_attr_def fault_simps)
qed

lemma sign_attributes_public:
  assumes "is_session_valid s hS = Some True" and "h \<in> set (obj_list s)" and "mem s h = Some (ObjectBlk x)"
    and "key_object x" and "obj_class x = CKO_PUBLIC_KEY"
  shows "sign_attributes E hS h s = Some (Inl CKR_KEY_FUNCTION_NOT_PERMITTED, s)"
proof -
  have "p11_template_check_attr (obj_template x) CKA_SIGN = None"
    using assms(4,5) key_template_public by (simp add: key_object_def)
  then have "get_attr_value s hS h (Some (map query_attr [CKA_SIGN, CKA_ALLOWED_MECHANISMS, CKA_KEY_TYPE, CKA_CLASS])) 1 =
      Some (CKR_ATTRIBUTE_TYPE_INVALID, Some [(query_attr CKA_SIGN)\<lparr>ulValueLen := CK_UNAVAILABLE_INFORMATION\<rparr>,
        query_attr CKA_ALLOWED_MECHANISMS, query_attr CKA_KEY_TYPE, query_attr CKA_CLASS])"
    by (subst get_attr_value_key [OF assms(1-4)])
      (simp_all add: attr_answer_def assms(5) query_attr_def attr_writable_def last_error_def)
  then show ?thesis by (simp add: sign_attributes_def)
qed

section \<open>Properties of signing\<close>

text \<open>The context a successful \<open>sign_init\<close> stores.\<close>

definition started_context :: "CK_MECHANISM \<Rightarrow> bool \<Rightarrow> CK_OBJECT_HANDLE \<Rightarrow> sign_verify_context" where
  "started_context mech recover_mode key =
     \<lparr>ctx_key = key, ctx_mech = \<lparr>mechanism = mechanism mech, pParameter = None, ulParameterLen = 0\<rparr>,
      ctx_context = None, ctx_context_len = 0, ctx_multi = False, ctx_recover = recover_mode, ctx_active = True\<rparr>"

lemma started_context_eq:
  "ulParameterLen mech = 0 \<Longrightarrow> ctx\<lparr>ctx_key := key,
     ctx_mech := \<lparr>mechanism = mechanism mech, pParameter = None, ulParameterLen = 0\<rparr>,
     ctx_context := None, ctx_context_len := 0, ctx_multi := False, ctx_active := True,
     ctx_recover := recover_mode\<rparr> = started_context mech recover_mode key"
  by (cases ctx) (simp add: started_context_def)

text \<open>
  the outcome of \<open>sign_init\<close> for every listed key and every mechanism. It never faults. A running
  signature is refused with \<open>CKR_OPERATION_ACTIVE\<close>, a public key with
  \<open>CKR_KEY_FUNCTION_NOT_PERMITTED\<close>, a mechanism the slot does not offer with
  \<open>CKR_MECHANISM_INVALID\<close>, a mechanism parameter with \<open>CKR_MECHANISM_PARAM_INVALID\<close>; otherwise, unless
  memory is short, the context of the session is the started one for that key and mechanism. A refused
  call changes nothing but the allocator.
\<close>

theorem sign_init_outcome:
  assumes "objects_wf s" and "is_session_valid s hS = Some True" and "mem s hS = Some (SessionBlk sess)"
    and "key \<in> set (obj_list s)" and "mem s key = Some (ObjectBlk x)"
  shows "\<exists>rc s'. sign_init E hS mech recover_mode key s = Some (rc, s') \<and>
    rc = (if ctx_active (sign_ctx sess) then CKR_OPERATION_ACTIVE
          else if obj_class x \<noteq> CKO_PRIVATE_KEY then CKR_KEY_FUNCTION_NOT_PERMITTED
          else if malloc E (mallocs s) (dom (mem s)) = None then CKR_HOST_MEMORY
          else if mechanism mech \<notin> set sign_mechanisms then CKR_MECHANISM_INVALID
          else if ulParameterLen mech \<noteq> 0 then CKR_MECHANISM_PARAM_INVALID else CKR_OK) \<and>
    s' = s\<lparr>mallocs := mallocs s',
       mem := (if rc = CKR_OK
               then (mem s)(hS \<mapsto> SessionBlk (sess\<lparr>sign_ctx := started_context mech recover_mode key\<rparr>))
               else mem s)\<rparr>"
proof -
  obtain y where "mem s key = Some (ObjectBlk y)" and ky: "key_object y" using object_live [OF assms(1,4)] .
  then have kx: "key_object x" using assms(5) by simp
  show ?thesis
  proof (cases "ctx_active (sign_ctx sess) \<or> obj_class x \<noteq> CKO_PRIVATE_KEY")
    case True
    have "obj_class x \<noteq> CKO_PRIVATE_KEY \<Longrightarrow> obj_class x = CKO_PUBLIC_KEY" using kx by (simp add: key_object_def)
    with True sign_attributes_public [OF assms(2,4,5) kx] assms(3) show ?thesis by (auto simp: sign_init_def)
  next
    case False
    note sa = sign_attributes_private [OF assms(2,4,5) kx, of E]
    show ?thesis
    proof (cases "malloc E (mallocs s) (dom (mem s))")
      case None
      with False sa assms(3) show ?thesis by (simp add: sign_init_def do_malloc_def)
    next
      case (Some a)
      with False sa assms(3) show ?thesis
        by (simp add: sign_init_def do_malloc_def sign_checks_private started_context_eq)
    qed
  qed
qed

theorem sign_init_outcome_witness:
  "\<exists>s'. sign_init sample_env 16 \<lparr>mechanism = CKM_SHA256_RSA_PKCS, pParameter = None, ulParameterLen = 0\<rparr> False 32 sample_lib
      = Some (CKR_OK, s')"
proof -
  have "mem sample_lib 16 = Some (SessionBlk (new_session TEE_SLOT_ID 4))"
    "mem sample_lib 32 = Some (ObjectBlk (sample_object CKO_PRIVATE_KEY))" "32 \<in> set (obj_list sample_lib)"
    by (simp_all add: sample_lib_def)
  moreover have "malloc sample_env (mallocs sample_lib) (dom (mem sample_lib)) = Some 64"
    by (simp add: sample_env_def sample_malloc_def sample_lib_def initial_lib_def)
  ultimately show ?thesis
    using sign_init_outcome [OF sample_objects_wf sample_session_valid, of "new_session TEE_SLOT_ID 4" 32
        "sample_object CKO_PRIVATE_KEY" sample_env "\<lparr>mechanism = CKM_SHA256_RSA_PKCS, pParameter = None, ulParameterLen = 0\<rparr>" False]
    by (auto simp: new_session_def zero_context_def sample_object_def sign_mechanisms_def)
qed

text \<open>The session \<open>hS\<close> with its signature closed.\<close>

definition close_signature :: "CK_SESSION_HANDLE \<Rightarrow> session \<Rightarrow> 't lib \<Rightarrow> 't lib" where
  "close_signature hS sess s = s\<lparr>mem := (mem s)(hS \<mapsto> SessionBlk (sess\<lparr>sign_ctx := cleared_context (sign_ctx sess)\<rparr>))\<rparr>"

lemma read_bytes_prefix: "length b = m \<Longrightarrow> read_bytes (Some (b @ r)) m = Some b"
  by (auto simp: read_bytes_def)

lemma rsa_sign_pkcs_eq:
  assumes "required_length s hS (ctx_key (sign_ctx sess)) = Some (CKR_OK, k)" and "in_slot sess" and "sk_funcs s"
    and "mem s (ctx_key (sign_ctx sess)) = Some (ObjectBlk x)" and "11 \<le> unat k" and "unat k \<le> MAX_RSA_KEYLEN"
    and "read_bytes pData (unat n) = Some d" and "n \<le> k - 11" and "pSignature \<noteq> None" and "k \<le> sigLen"
  shows "rsa_sign_pkcs E hS sess pData n pSignature sigLen s =
    (case SK_Decrypt_fn (sk_fns E) SKM_RSA_PKCS_NOPAD (sk_obj_handle x)
        ([0, 1] @ replicate (unat k - 3 - length d) 0xFF @ [0] @ d) pSignature (ucast sigLen) (tee s) of
       None \<Rightarrow> None
     | Some (ret, out, m, t) \<Rightarrow>
         Some ((if ret \<noteq> SKR_OK then CKR_GENERAL_ERROR else CKR_OK, out, store_low16 sigLen m), s\<lparr>tee := t\<rparr>))"
proof -
  have "length d = unat n" using read_bytes_SomeD [OF assms(7)] .
  moreover have "unat (k - 11) = unat k - 11" using assms(5) by (subst unat_sub_le) (auto simp: word_le_nat_alt)
  ultimately have d: "length d \<le> unat k - 11" using assms(8) by (simp add: word_le_nat_alt)
  define bl where "bl = [0, 1] @ replicate (unat k - 3 - length d) (0xFF :: byte) @ [0] @ d"
  have b: "padded_block k d = Some bl" using padded_block_eq [OF assms(5,6) d] by (simp add: bl_def)
  have "length bl = unat k" using d assms(5) by (simp add: bl_def)
  moreover have "unat (ucast k :: u16) = unat k"
    using assms(6) by (simp add: unsigned_ucast_eq take_bit_nat_eq_self)
  ultimately have rb: "read_bytes (Some (bl @ fresh_bytes E s (MAX_RSA_KEYLEN - length bl))) (unat (ucast k :: u16)) = Some bl"
    by (simp add: read_bytes_prefix)
  have fl: "get_slot_function_list E s (si_slotID (session_info sess)) = Some (sk_fns E)"
    using assms(2,3) by (simp add: get_slot_function_list_def get_global_slot_info_def in_slot_def)
  show ?thesis
    unfolding bl_def [symmetric]
    by (cases "SK_Decrypt_fn (sk_fns E) SKM_RSA_PKCS_NOPAD (sk_obj_handle x) bl pSignature (ucast sigLen) (tee s)")
      (simp_all add: rsa_sign_pkcs_def assms(1,4,7,9) leD [OF assms(8)] leD [OF assms(10)] b fl rb split_beta)
qed

text \<open>
  C21: raw RSA signatures (\<open>CKM_RSA_PKCS\<close>) with a key of 11 to 512 bytes, on every branch. The size query
  returns the modulus length and a short buffer \<open>CKR_BUFFER_TOO_SMALL\<close>, both leaving the signature open;
  data longer than the modulus length minus 11 is \<open>CKR_DATA_LEN_RANGE\<close>; otherwise the token is asked
  for the private-key operation on exactly the PKCS\#1 v1.5 block type 1 of the data,
  \<open>00 01 FF ... FF 00\<close> followed by the data, as long as the modulus and with at least eight bytes \<open>FF\<close>,
  and the signature is closed whatever the token answers.
\<close>

theorem sign_raw_spec:
  assumes "objects_wf s" and "is_session_valid s hS = Some True" and "mem s hS = Some (SessionBlk sess)"
    and "ctx_active (sign_ctx sess)" and "mechanism (ctx_mech (sign_ctx sess)) = CKM_RSA_PKCS"
    and "ctx_key (sign_ctx sess) \<in> set (obj_list s)" and "mem s (ctx_key (sign_ctx sess)) = Some (ObjectBlk x)"
    and "p11_template_check_attr (obj_template x) CKA_MODULUS = Some b" and "k = ulValueLen b"
    and "11 \<le> unat k" and "unat k \<le> MAX_RSA_KEYLEN" and "sk_funcs s" and "read_bytes pData (unat n) = Some d"
  shows "sign E hS pData n pSignature sigLen s =
    (if pSignature = None then Some ((CKR_OK, None, k), s)
     else if sigLen < k then Some ((CKR_BUFFER_TOO_SMALL, pSignature, sigLen), s)
     else if unat k - 11 < unat n then Some ((CKR_DATA_LEN_RANGE, pSignature, sigLen), close_signature hS sess s)
     else case SK_Decrypt_fn (sk_fns E) SKM_RSA_PKCS_NOPAD (sk_obj_handle x)
            ([0, 1] @ replicate (unat k - 3 - length d) 0xFF @ [0] @ d) pSignature (ucast sigLen) (tee s) of
       None \<Rightarrow> None
     | Some (ret, out, m, t) \<Rightarrow> Some ((if ret \<noteq> SKR_OK then CKR_GENERAL_ERROR else CKR_OK, out, store_low16 sigLen m),
                                 close_signature hS sess (s\<lparr>tee := t\<rparr>)))"
proof -
  obtain y where "mem s (ctx_key (sign_ctx sess)) = Some (ObjectBlk y)" "key_object y"
    using object_live [OF assms(1,6)] .
  then have "key_object x" using assms(7) by simp
  from required_length_key [OF assms(2,6,7) this assms(8)]
  have r: "required_length s hS (ctx_key (sign_ctx sess)) = Some (CKR_OK, k)" by (simp add: assms(9))
  have slot: "in_slot sess" using get_session_valid [OF assms(2)] assms(3) by auto
  have k11: "unat (k - 11) = unat k - 11" using assms(10) by (subst unat_sub_le) (auto simp: word_le_nat_alt)
  have m: "CKM_RSA_PKCS \<in> set sign_mechanisms" by (simp add: sign_mechanisms_def)
  note sg = sign_def assms(3-5) m keeps_open_def close_signature_def
  consider "pSignature = None \<or> sigLen < k \<or> unat k - 11 < unat n" | "pSignature \<noteq> None" "k \<le> sigLen" "n \<le> k - 11"
    using k11 by (force simp: word_le_nat_alt word_less_nat_alt)
  then show ?thesis
  proof cases
    case 1
    then show ?thesis using r k11 by (auto simp: sg rsa_sign_pkcs_def word_less_nat_alt)
  next
    case 2
    have "\<not> sigLen < k" using 2(2) by (rule leD)
    moreover have "\<not> unat k - 11 < unat n" using 2(3) k11 by (simp add: word_le_nat_alt not_less)
    moreover note rs = rsa_sign_pkcs_eq [OF r slot assms(12,7,10,11,13) 2(3,1,2), of E]
    ultimately show ?thesis
    proof (cases "SK_Decrypt_fn (sk_fns E) SKM_RSA_PKCS_NOPAD (sk_obj_handle x)
            ([0, 1] @ replicate (unat k - 3 - length d) 0xFF @ [0] @ d) pSignature (ucast sigLen) (tee s)")
      case None
      then have "rsa_sign_pkcs E hS sess pData n pSignature sigLen s = None" unfolding rs by (simp only: option.case)
      with None \<open>\<not> sigLen < k\<close> \<open>\<not> unat k - 11 < unat n\<close> 2(1) show ?thesis
        by (simp only: sg if_False if_True option.case block_of_simps bind.simps not_True_eq_False simp_thms)
    next
      case (Some q)
      obtain ret out m t where q: "q = (ret, out, m, t)" by (cases q)
      have "rsa_sign_pkcs E hS sess pData n pSignature sigLen s = Some ((if ret \<noteq> SKR_OK then CKR_GENERAL_ERROR
          else CKR_OK, out, store_low16 sigLen m), s\<lparr>tee := t\<rparr>)" unfolding rs Some q by (simp only: option.case prod.case)
      with Some q \<open>\<not> sigLen < k\<close> \<open>\<not> unat k - 11 < unat n\<close> 2(1) show ?thesis
        unfolding Some q by (cases pSignature) (simp_all add: sg)
    qed
  qed
qed

theorem sign_raw_spec_witness:
  "sign sample_env 16 (Some [1, 2, 3]) 3 None 0
     (sample_lib\<lparr>mem := (mem sample_lib)(16 \<mapsto> SessionBlk ((new_session TEE_SLOT_ID 4)
        \<lparr>sign_ctx := started_context \<lparr>mechanism = CKM_RSA_PKCS, pParameter = None, ulParameterLen = 0\<rparr> False 32\<rparr>))\<rparr>)
   = Some ((CKR_OK, None, 64), sample_lib\<lparr>mem := (mem sample_lib)(16 \<mapsto> SessionBlk ((new_session TEE_SLOT_ID 4)
        \<lparr>sign_ctx := started_context \<lparr>mechanism = CKM_RSA_PKCS, pParameter = None, ulParameterLen = 0\<rparr> False 32\<rparr>))\<rparr>)"
proof -
  let ?sess = "(new_session TEE_SLOT_ID 4)
        \<lparr>sign_ctx := started_context \<lparr>mechanism = CKM_RSA_PKCS, pParameter = None, ulParameterLen = 0\<rparr> False 32\<rparr>"
  let ?s = "sample_lib\<lparr>mem := (mem sample_lib)(16 \<mapsto> SessionBlk ?sess)\<rparr>"
  have "objects_wf ?s"
    using sample_key_object [of CKO_PRIVATE_KEY] sample_key_object [of CKO_PUBLIC_KEY]
    by (simp add: obj.wf_def sample_lib_def)
  moreover have "is_session_valid ?s 16 = Some True"
    by (simp add: is_session_valid_eq sample_lib_def in_slot_def new_session_def)
  moreover have "mem ?s 16 = Some (SessionBlk ?sess)" "sk_funcs ?s" "ctx_key (sign_ctx ?sess) \<in> set (obj_list ?s)"
      "mem ?s (ctx_key (sign_ctx ?sess)) = Some (ObjectBlk (sample_object CKO_PRIVATE_KEY))"
      "ctx_active (sign_ctx ?sess)" "mechanism (ctx_mech (sign_ctx ?sess)) = CKM_RSA_PKCS"
    by (simp_all add: sample_lib_def started_context_def)
  moreover have "p11_template_check_attr (obj_template (sample_object CKO_PRIVATE_KEY)) CKA_MODULUS =
      Some \<lparr>attr_type = CKA_MODULUS, pValue = Some (replicate 64 0xA5), ulValueLen = 64\<rparr>"
    by (simp add: sample_object_def)
  ultimately show ?thesis
    using sign_raw_spec [of ?s 16 ?sess "sample_object CKO_PRIVATE_KEY" _ 64 "Some [1, 2, 3]" 3 "[1, 2, 3]" sample_env None 0]
    by (simp add: read_bytes_def)
qed

lemma rsa_sign_frame:
  "rsa_sign_pkcs E hS sess pData n pSig len s = Some (r, s') \<Longrightarrow> quiet s s'"
  by (auto simp: rsa_sign_pkcs_def quiet_def split: bind_splits if_splits option.splits prod.splits)

lemma rsa_hash_sign_frame:
  "rsa_hash_sign_pkcs E hS sess pData n pSig len s = Some (r, s') \<Longrightarrow> quiet s s'"
  by (auto simp: rsa_hash_sign_pkcs_def quiet_def split: bind_splits if_splits option.splits prod.splits)

lemma sign_frame:
  assumes "mem s hS = Some (SessionBlk sess)" and "sign E hS pData n pSig len s = Some ((rc, out, m), s')"
  shows "core s' = core s \<and> obj_list s' = obj_list s \<and>
    (if \<not> ctx_active (sign_ctx sess) then rc = CKR_OPERATION_NOT_INITIALIZED \<and> s' = s \<and> out = pSig \<and> m = len
     else mem s' = (if mechanism (ctx_mech (sign_ctx sess)) \<notin> set sign_mechanisms \<or> keeps_open rc pSig then mem s
            else (mem s)(hS \<mapsto> SessionBlk (sess\<lparr>sign_ctx := cleared_context (sign_ctx sess)\<rparr>))))"
proof (cases "ctx_active (sign_ctx sess) \<and> mechanism (ctx_mech (sign_ctx sess)) \<in> set sign_mechanisms")
  case False
  with assms show ?thesis by (auto simp: sign_def split: if_splits)
next
  case True
  let ?r = "if mechanism (ctx_mech (sign_ctx sess)) = CKM_RSA_PKCS
          then rsa_sign_pkcs E hS sess pData n pSig len s else rsa_hash_sign_pkcs E hS sess pData n pSig len s"
  obtain s1 where r: "?r = Some ((rc, out, m), s1)"
    and s': "s' = (if keeps_open rc pSig then s1
        else s1\<lparr>mem := (mem s1)(hS \<mapsto> SessionBlk (sess\<lparr>sign_ctx := cleared_context (sign_ctx sess)\<rparr>))\<rparr>)"
    using assms True by (auto simp: sign_def split: bind_splits if_splits)
  have "quiet s s1" using r by (auto split: if_splits dest: rsa_sign_frame rsa_hash_sign_frame)
  with s' True show ?thesis by (auto simp: quiet_def)
qed

text \<open>
  C20: the life cycle of a signature, for every mechanism, key and token. \<open>sign\<close> changes no object, no
  other session and no field of the session but its signature context. A call without an open signature
  is refused with \<open>CKR_OPERATION_NOT_INITIALIZED\<close>, and one whose context has a mechanism other than the six
  RSA mechanisms with \<open>CKR_MECHANISM_INVALID\<close>; both change nothing, so the second leaves the context open.
  For the six mechanisms the signature stays open after a successful size query and after
  \<open>CKR_BUFFER_TOO_SMALL\<close>; any other outcome, success or error, resets every field of the context, and the
  next call of \<open>sign\<close> on the session is refused as not initialised.
\<close>

theorem sign_lifecycle:
  assumes "mem s hS = Some (SessionBlk sess)" and "sign E hS pData n pSig len s = Some ((rc, out, m), s')"
  shows "core s' = core s \<and> obj_list s' = obj_list s \<and>
    (if \<not> ctx_active (sign_ctx sess) then rc = CKR_OPERATION_NOT_INITIALIZED \<and> s' = s \<and> out = pSig \<and> m = len
     else if mechanism (ctx_mech (sign_ctx sess)) \<notin> {CKM_RSA_PKCS, CKM_MD5_RSA_PKCS, CKM_SHA1_RSA_PKCS,
         CKM_SHA256_RSA_PKCS, CKM_SHA384_RSA_PKCS, CKM_SHA512_RSA_PKCS}
     then rc = CKR_MECHANISM_INVALID \<and> s' = s \<and> out = pSig \<and> m = len
     else if rc = CKR_OK \<and> pSig = None \<or> rc = CKR_BUFFER_TOO_SMALL then mem s' = mem s
     else mem s' = (mem s)(hS \<mapsto> SessionBlk (sess\<lparr>sign_ctx :=
            \<lparr>ctx_key = 0, ctx_mech = \<lparr>mechanism = 0, pParameter = None, ulParameterLen = 0\<rparr>, ctx_context = None,
             ctx_context_len = 0, ctx_multi = False, ctx_recover = False, ctx_active = False\<rparr>\<rparr>)) \<and>
          sign E hS pData2 n2 pSig2 len2 s' = Some ((CKR_OPERATION_NOT_INITIALIZED, pSig2, len2), s'))"
proof -
  have ms: "set sign_mechanisms = {CKM_RSA_PKCS, CKM_MD5_RSA_PKCS, CKM_SHA1_RSA_PKCS,
         CKM_SHA256_RSA_PKCS, CKM_SHA384_RSA_PKCS, CKM_SHA512_RSA_PKCS}"
    by (simp add: sign_mechanisms_def)
  have c: "cleared_context (sign_ctx sess) = \<lparr>ctx_key = 0,
      ctx_mech = \<lparr>mechanism = 0, pParameter = None, ulParameterLen = 0\<rparr>, ctx_context = None,
      ctx_context_len = 0, ctx_multi = False, ctx_recover = False, ctx_active = False\<rparr>"
    by (simp add: cleared_context_def)
  show ?thesis
  proof (cases "ctx_active (sign_ctx sess) \<and> mechanism (ctx_mech (sign_ctx sess)) \<notin> set sign_mechanisms")
    case True
    with assms show ?thesis unfolding ms by (simp add: sign_def ms)
  next
    case False
    with sign_frame [OF assms] show ?thesis unfolding ms c keeps_open_def by (auto simp: sign_def)
  qed
qed

lemma sign_raw_result:
  assumes "mem s hS = Some (SessionBlk sess)" and "ctx_active (sign_ctx sess)" and "mechanism (ctx_mech (sign_ctx sess)) = CKM_RSA_PKCS"
    and "rsa_sign_pkcs E hS sess pData n pSig len s = Some (r, s1)"
  shows "\<exists>s'. sign E hS pData n pSig len s = Some (r, s')"
  using assms by (cases r) (simp add: sign_def sign_mechanisms_def)

theorem sign_lifecycle_witness:
  "\<exists>sess s'. mem s' 16 = Some (SessionBlk sess) \<and> \<not> ctx_active (sign_ctx sess) \<and>
     sign sample_env 16 (Some (replicate 60 7)) 60 (Some (replicate 64 0)) 64
      (sample_lib\<lparr>mem := (mem sample_lib)(16 \<mapsto> SessionBlk ((new_session TEE_SLOT_ID 4)
        \<lparr>sign_ctx := started_context \<lparr>mechanism = CKM_RSA_PKCS, pParameter = None, ulParameterLen = 0\<rparr> False 32\<rparr>))\<rparr>)
      = Some ((CKR_DATA_LEN_RANGE, Some (replicate 64 0), 64), s') \<and>
     sign sample_env 16 (Some [1]) 1 None 0 s' = Some ((CKR_OPERATION_NOT_INITIALIZED, None, 0), s')"
proof -
  let ?sess = "(new_session TEE_SLOT_ID 4)
        \<lparr>sign_ctx := started_context \<lparr>mechanism = CKM_RSA_PKCS, pParameter = None, ulParameterLen = 0\<rparr> False 32\<rparr>"
  let ?s = "sample_lib\<lparr>mem := (mem sample_lib)(16 \<mapsto> SessionBlk ?sess)\<rparr>"
  have v: "is_session_valid ?s 16 = Some True"
    by (simp add: is_session_valid_eq sample_lib_def in_slot_def new_session_def)
  have x: "mem ?s 16 = Some (SessionBlk ?sess)" by simp
  have o: "32 \<in> set (obj_list ?s)" "mem ?s 32 = Some (ObjectBlk (sample_object CKO_PRIVATE_KEY))"
    by (simp_all add: sample_lib_def)
  have "p11_template_check_attr (obj_template (sample_object CKO_PRIVATE_KEY)) CKA_MODULUS =
      Some \<lparr>attr_type = CKA_MODULUS, pValue = Some (replicate 64 0xA5), ulValueLen = 64\<rparr>"
    by (simp add: sample_object_def)
  from required_length_key [OF v o sample_key_object this] have r: "required_length ?s 16 32 = Some (CKR_OK, 64)" by simp
  have ctx: "ctx_active (sign_ctx ?sess)" "mechanism (ctx_mech (sign_ctx ?sess)) = CKM_RSA_PKCS" "ctx_key (sign_ctx ?sess) = 32"
    by (simp_all add: started_context_def)
  have "rsa_sign_pkcs sample_env 16 ?sess (Some (replicate 60 7)) 60 (Some (replicate 64 0)) 64 ?s =
      Some ((CKR_DATA_LEN_RANGE, Some (replicate 64 0), 64), ?s)"
    by (simp only: rsa_sign_pkcs_def ctx r) simp
  from sign_raw_result [OF x ctx(1,2) this] obtain s' where
    a: "sign sample_env 16 (Some (replicate 60 7)) 60 (Some (replicate 64 0)) 64 ?s = Some ((CKR_DATA_LEN_RANGE, Some (replicate 64 0), 64), s')"
    by blast
  from sign_lifecycle [OF x a, of "Some [1]" 1 None 0] ctx(1,2)
  have "mem s' 16 = Some (SessionBlk (?sess\<lparr>sign_ctx :=
            \<lparr>ctx_key = 0, ctx_mech = \<lparr>mechanism = 0, pParameter = None, ulParameterLen = 0\<rparr>, ctx_context = None,
             ctx_context_len = 0, ctx_multi = False, ctx_recover = False, ctx_active = False\<rparr>\<rparr>)) \<and>
        sign sample_env 16 (Some [1]) 1 None 0 s' = Some ((CKR_OPERATION_NOT_INITIALIZED, None, 0), s')"
    by simp
  with a show ?thesis by (intro exI conjI) auto
qed

text \<open>
  the hash mechanisms sign only a prefix of long data. The length handed to \<open>SK_Digest\<close> is
  truncated to 16 bits, so the signature of a message of \<open>n\<close> bytes is the signature of its first
  \<open>n mod 65536\<close> bytes, for every session, key, token and output buffer.
\<close>

theorem hash_sign_truncates:
  assumes "length d = unat n"
  shows "rsa_hash_sign_pkcs E hS sess (Some d) n pSig len s =
    rsa_hash_sign_pkcs E hS sess (Some (take (unat n mod 65536) d)) (of_nat (unat n mod 65536)) pSig len s"
proof -
  have u: "unat (ucast n :: u16) = unat n mod 65536" "unat (ucast (of_nat (unat n mod 65536) :: u64) :: u16) = unat n mod 65536"
    by (simp_all add: unsigned_ucast_eq take_bit_eq_mod unat_of_nat)
  have "read_bytes (Some d) (unat n mod 65536) =
      read_bytes (Some (take (unat n mod 65536) d)) (unat n mod 65536)"
    using assms by (simp add: read_bytes_def)
  with u show ?thesis by (simp only: rsa_hash_sign_pkcs_def)
qed

theorem hash_sign_truncates_witness:
  "rsa_hash_sign_pkcs sample_env 16 (new_session TEE_SLOT_ID 4) (Some (replicate 65537 7)) 65537 None 0 sample_lib =
   rsa_hash_sign_pkcs sample_env 16 (new_session TEE_SLOT_ID 4) (Some [7]) 1 None 0 sample_lib"
proof -
  have "length (replicate 65537 (7 :: byte)) = unat (65537 :: u64)" by (simp only: length_replicate) simp
  note t = hash_sign_truncates [OF this, of sample_env 16 "new_session TEE_SLOT_ID 4" None 0 sample_lib]
  have "unat (65537 :: u64) mod 65536 = 1" by simp
  moreover have "take 1 (replicate 65537 (7 :: byte)) = [7]" by (simp only: take_replicate) simp
  ultimately show ?thesis using t by (simp only: of_nat_1)
qed

end
