(* ===== verification/Unsupported.thy ===== *)
theory Unsupported
  imports Cryptoki
begin

text \<open>
  The entry points the library exports only to refuse: every one ignores its arguments, touches no
  state and returns a constant, \<open>CKR_FUNCTION_NOT_SUPPORTED\<close> or, for random numbers,
  \<open>CKR_RANDOM_NO_RNG\<close> (\<open>src/p11_session_slot.c\<close>, \<open>src/p11_object.c\<close>, \<open>src/p11_crypto.c\<close>).
\<close>

definition C_WaitForSlotEvent ::
    "u64 \<Rightarrow> CK_SLOT_ID option \<Rightarrow> u64 \<Rightarrow> CK_RV" where
  "C_WaitForSlotEvent flags pSlot pRserved = CKR_FUNCTION_NOT_SUPPORTED"

definition C_InitToken ::
    "CK_SLOT_ID \<Rightarrow> buffer \<Rightarrow> u64 \<Rightarrow> buffer \<Rightarrow> CK_RV" where
  "C_InitToken slotID pPin ulPinLen pLabel = CKR_FUNCTION_NOT_SUPPORTED"

definition C_InitPIN ::
    "CK_SESSION_HANDLE \<Rightarrow> buffer \<Rightarrow> u64 \<Rightarrow> CK_RV" where
  "C_InitPIN hSession pPin ulPinLen = CKR_FUNCTION_NOT_SUPPORTED"

definition C_SetPIN ::
    "CK_SESSION_HANDLE \<Rightarrow> buffer \<Rightarrow> u64 \<Rightarrow> buffer \<Rightarrow> u64 \<Rightarrow> CK_RV" where
  "C_SetPIN hSession pOldPin ulOldLen pNewPin ulNewLen = CKR_FUNCTION_NOT_SUPPORTED"

definition C_GetOperationState ::
    "CK_SESSION_HANDLE \<Rightarrow> buffer \<Rightarrow> u64 option \<Rightarrow> CK_RV" where
  "C_GetOperationState hSession pOperationState pulOperationStateLen = CKR_FUNCTION_NOT_SUPPORTED"

definition C_SetOperationState ::
    "CK_SESSION_HANDLE \<Rightarrow> buffer \<Rightarrow> u64 \<Rightarrow> CK_OBJECT_HANDLE \<Rightarrow> CK_OBJECT_HANDLE \<Rightarrow> CK_RV" where
  "C_SetOperationState hSession pOperationState ulOperationStateLen hEncryptionKey hAuthenticationKey = CKR_FUNCTION_NOT_SUPPORTED"

definition C_Login ::
    "CK_SESSION_HANDLE \<Rightarrow> u64 \<Rightarrow> buffer \<Rightarrow> u64 \<Rightarrow> CK_RV" where
  "C_Login hSession userType pPin ulPinLen = CKR_FUNCTION_NOT_SUPPORTED"

definition C_Logout ::
    "CK_SESSION_HANDLE \<Rightarrow> CK_RV" where
  "C_Logout hSession = CKR_FUNCTION_NOT_SUPPORTED"

definition C_CreateObject ::
    "CK_SESSION_HANDLE \<Rightarrow> CK_ATTRIBUTE list option \<Rightarrow> u64 \<Rightarrow> CK_OBJECT_HANDLE option \<Rightarrow> CK_RV" where
  "C_CreateObject hSession pTemplate ulCount phObject = CKR_FUNCTION_NOT_SUPPORTED"

definition C_CopyObject ::
    "CK_SESSION_HANDLE \<Rightarrow> CK_OBJECT_HANDLE \<Rightarrow> CK_ATTRIBUTE list option \<Rightarrow> u64 \<Rightarrow> CK_OBJECT_HANDLE option \<Rightarrow> CK_RV" where
  "C_CopyObject hSession hObject pTemplate ulCount phNewObject = CKR_FUNCTION_NOT_SUPPORTED"

definition C_DestroyObject ::
    "CK_SESSION_HANDLE \<Rightarrow> CK_OBJECT_HANDLE \<Rightarrow> CK_RV" where
  "C_DestroyObject hSession hObject = CKR_FUNCTION_NOT_SUPPORTED"

definition C_GetObjectSize ::
    "CK_SESSION_HANDLE \<Rightarrow> CK_OBJECT_HANDLE \<Rightarrow> u64 option \<Rightarrow> CK_RV" where
  "C_GetObjectSize hSession hObject pulSize = CKR_FUNCTION_NOT_SUPPORTED"

definition C_SetAttributeValue ::
    "CK_SESSION_HANDLE \<Rightarrow> CK_OBJECT_HANDLE \<Rightarrow> CK_ATTRIBUTE list option \<Rightarrow> u64 \<Rightarrow> CK_RV" where
  "C_SetAttributeValue hSession hObject pTemplate ulCount = CKR_FUNCTION_NOT_SUPPORTED"

definition C_EncryptInit ::
    "CK_SESSION_HANDLE \<Rightarrow> CK_MECHANISM option \<Rightarrow> CK_OBJECT_HANDLE \<Rightarrow> CK_RV" where
  "C_EncryptInit hSession pMechanism hKey = CKR_FUNCTION_NOT_SUPPORTED"

definition C_Encrypt ::
    "CK_SESSION_HANDLE \<Rightarrow> buffer \<Rightarrow> u64 \<Rightarrow> buffer \<Rightarrow> u64 option \<Rightarrow> CK_RV" where
  "C_Encrypt hSession pData ulDataLen pEncryptedData pulEncryptedDataLen = CKR_FUNCTION_NOT_SUPPORTED"

definition C_EncryptUpdate ::
    "CK_SESSION_HANDLE \<Rightarrow> buffer \<Rightarrow> u64 \<Rightarrow> buffer \<Rightarrow> u64 option \<Rightarrow> CK_RV" where
  "C_EncryptUpdate hSession pPart ulPartLen pEncryptedPart pulEncryptedPartLen = CKR_FUNCTION_NOT_SUPPORTED"

definition C_EncryptFinal ::
    "CK_SESSION_HANDLE \<Rightarrow> buffer \<Rightarrow> u64 option \<Rightarrow> CK_RV" where
  "C_EncryptFinal hSession pLastEncryptedPart pulLastEncryptedPartLen = CKR_FUNCTION_NOT_SUPPORTED"

definition C_DecryptInit ::
    "CK_SESSION_HANDLE \<Rightarrow> CK_MECHANISM option \<Rightarrow> CK_OBJECT_HANDLE \<Rightarrow> CK_RV" where
  "C_DecryptInit hSession pMechanism hKey = CKR_FUNCTION_NOT_SUPPORTED"

definition C_Decrypt ::
    "CK_SESSION_HANDLE \<Rightarrow> buffer \<Rightarrow> u64 \<Rightarrow> buffer \<Rightarrow> u64 option \<Rightarrow> CK_RV" where
  "C_Decrypt hSession pEncryptedData ulEncryptedDataLen pData pulDataLen = CKR_FUNCTION_NOT_SUPPORTED"

definition C_DecryptUpdate ::
    "CK_SESSION_HANDLE \<Rightarrow> buffer \<Rightarrow> u64 \<Rightarrow> buffer \<Rightarrow> u64 option \<Rightarrow> CK_RV" where
  "C_DecryptUpdate hSession pEncryptedPart ulEncryptedPartLen pPart pulPartLen = CKR_FUNCTION_NOT_SUPPORTED"

definition C_DecryptFinal ::
    "CK_SESSION_HANDLE \<Rightarrow> buffer \<Rightarrow> u64 option \<Rightarrow> CK_RV" where
  "C_DecryptFinal hSession pLastPart pulLastPartLen = CKR_FUNCTION_NOT_SUPPORTED"

definition C_DigestInit ::
    "CK_SESSION_HANDLE \<Rightarrow> CK_MECHANISM option \<Rightarrow> CK_RV" where
  "C_DigestInit hSession pMechanism = CKR_FUNCTION_NOT_SUPPORTED"

definition C_Digest ::
    "CK_SESSION_HANDLE \<Rightarrow> buffer \<Rightarrow> u64 \<Rightarrow> buffer \<Rightarrow> u64 option \<Rightarrow> CK_RV" where
  "C_Digest hSession pData ulDataLen pDigest pulDigestLen = CKR_FUNCTION_NOT_SUPPORTED"

definition C_DigestUpdate ::
    "CK_SESSION_HANDLE \<Rightarrow> buffer \<Rightarrow> u64 \<Rightarrow> CK_RV" where
  "C_DigestUpdate hSession pPart ulPartLen = CKR_FUNCTION_NOT_SUPPORTED"

definition C_DigestKey ::
    "CK_SESSION_HANDLE \<Rightarrow> CK_OBJECT_HANDLE \<Rightarrow> CK_RV" where
  "C_DigestKey hSession hKey = CKR_FUNCTION_NOT_SUPPORTED"

definition C_DigestFinal ::
    "CK_SESSION_HANDLE \<Rightarrow> buffer \<Rightarrow> u64 option \<Rightarrow> CK_RV" where
  "C_DigestFinal hSession pDigest pulDigestLen = CKR_FUNCTION_NOT_SUPPORTED"

definition C_SignUpdate ::
    "CK_SESSION_HANDLE \<Rightarrow> buffer \<Rightarrow> u64 \<Rightarrow> CK_RV" where
  "C_SignUpdate hSession pPart ulPartLen = CKR_FUNCTION_NOT_SUPPORTED"

definition C_SignFinal ::
    "CK_SESSION_HANDLE \<Rightarrow> buffer \<Rightarrow> u64 option \<Rightarrow> CK_RV" where
  "C_SignFinal hSession pSignature pulSignatureLen = CKR_FUNCTION_NOT_SUPPORTED"

definition C_SignRecoverInit ::
    "CK_SESSION_HANDLE \<Rightarrow> CK_MECHANISM option \<Rightarrow> CK_OBJECT_HANDLE \<Rightarrow> CK_RV" where
  "C_SignRecoverInit hSession pMechanism hKey = CKR_FUNCTION_NOT_SUPPORTED"

definition C_SignRecover ::
    "CK_SESSION_HANDLE \<Rightarrow> buffer \<Rightarrow> u64 \<Rightarrow> buffer \<Rightarrow> u64 option \<Rightarrow> CK_RV" where
  "C_SignRecover hSession pData ulDataLen pSignature pulSignatureLen = CKR_FUNCTION_NOT_SUPPORTED"

definition C_VerifyInit ::
    "CK_SESSION_HANDLE \<Rightarrow> CK_MECHANISM option \<Rightarrow> CK_OBJECT_HANDLE \<Rightarrow> CK_RV" where
  "C_VerifyInit hSession pMechanism hKey = CKR_FUNCTION_NOT_SUPPORTED"

definition C_Verify ::
    "CK_SESSION_HANDLE \<Rightarrow> buffer \<Rightarrow> u64 \<Rightarrow> buffer \<Rightarrow> u64 \<Rightarrow> CK_RV" where
  "C_Verify hSession pData ulDataLen pSignature ulSignatureLen = CKR_FUNCTION_NOT_SUPPORTED"

definition C_VerifyUpdate ::
    "CK_SESSION_HANDLE \<Rightarrow> buffer \<Rightarrow> u64 \<Rightarrow> CK_RV" where
  "C_VerifyUpdate hSession pPart ulPartLen = CKR_FUNCTION_NOT_SUPPORTED"

definition C_VerifyFinal ::
    "CK_SESSION_HANDLE \<Rightarrow> buffer \<Rightarrow> u64 \<Rightarrow> CK_RV" where
  "C_VerifyFinal hSession pSignature ulSignatureLen = CKR_FUNCTION_NOT_SUPPORTED"

definition C_VerifyRecoverInit ::
    "CK_SESSION_HANDLE \<Rightarrow> CK_MECHANISM option \<Rightarrow> CK_OBJECT_HANDLE \<Rightarrow> CK_RV" where
  "C_VerifyRecoverInit hSession pMechanism hKey = CKR_FUNCTION_NOT_SUPPORTED"

definition C_VerifyRecover ::
    "CK_SESSION_HANDLE \<Rightarrow> buffer \<Rightarrow> u64 \<Rightarrow> buffer \<Rightarrow> u64 option \<Rightarrow> CK_RV" where
  "C_VerifyRecover hSession pSignature ulSignatureLen pData pulDataLen = CKR_FUNCTION_NOT_SUPPORTED"

definition C_DigestEncryptUpdate ::
    "CK_SESSION_HANDLE \<Rightarrow> buffer \<Rightarrow> u64 \<Rightarrow> buffer \<Rightarrow> u64 option \<Rightarrow> CK_RV" where
  "C_DigestEncryptUpdate hSession pPart ulPartLen pEncryptedPart pulEncryptedPartLen = CKR_FUNCTION_NOT_SUPPORTED"

definition C_DecryptDigestUpdate ::
    "CK_SESSION_HANDLE \<Rightarrow> buffer \<Rightarrow> u64 \<Rightarrow> buffer \<Rightarrow> u64 option \<Rightarrow> CK_RV" where
  "C_DecryptDigestUpdate hSession pEncryptedPart ulEncryptedPartLen pPart pulPartLen = CKR_FUNCTION_NOT_SUPPORTED"

definition C_SignEncryptUpdate ::
    "CK_SESSION_HANDLE \<Rightarrow> buffer \<Rightarrow> u64 \<Rightarrow> buffer \<Rightarrow> u64 option \<Rightarrow> CK_RV" where
  "C_SignEncryptUpdate hSession pPart ulPartLen pEncryptedPart pulEncryptedPartLen = CKR_FUNCTION_NOT_SUPPORTED"

definition C_DecryptVerifyUpdate ::
    "CK_SESSION_HANDLE \<Rightarrow> buffer \<Rightarrow> u64 \<Rightarrow> buffer \<Rightarrow> u64 option \<Rightarrow> CK_RV" where
  "C_DecryptVerifyUpdate hSession pEncryptedPart ulEncryptedPartLen pPart pulPartLen = CKR_FUNCTION_NOT_SUPPORTED"

definition C_GenerateKey ::
    "CK_SESSION_HANDLE \<Rightarrow> CK_MECHANISM option \<Rightarrow> CK_ATTRIBUTE list option \<Rightarrow> u64 \<Rightarrow> CK_OBJECT_HANDLE option \<Rightarrow> CK_RV" where
  "C_GenerateKey hSession pMechanism pTemplate ulCount phKey = CKR_FUNCTION_NOT_SUPPORTED"

definition C_GenerateKeyPair ::
    "CK_SESSION_HANDLE \<Rightarrow> CK_MECHANISM option \<Rightarrow> CK_ATTRIBUTE list option \<Rightarrow> u64 \<Rightarrow> CK_ATTRIBUTE list option \<Rightarrow> u64 \<Rightarrow> CK_OBJECT_HANDLE option \<Rightarrow> CK_OBJECT_HANDLE option \<Rightarrow> CK_RV" where
  "C_GenerateKeyPair hSession pMechanism pPublicKeyTemplate ulPublicKeyAttributeCount pPrivateKeyTemplate ulPrivateKeyAttributeCount phPublicKey phPrivateKey = CKR_FUNCTION_NOT_SUPPORTED"

definition C_WrapKey ::
    "CK_SESSION_HANDLE \<Rightarrow> CK_MECHANISM option \<Rightarrow> CK_OBJECT_HANDLE \<Rightarrow> CK_OBJECT_HANDLE \<Rightarrow> buffer \<Rightarrow> u64 option \<Rightarrow> CK_RV" where
  "C_WrapKey hSession pMechanism hWrappingKey hKey pWrappedKey pulWrappedKeyLen = CKR_FUNCTION_NOT_SUPPORTED"

definition C_UnwrapKey ::
    "CK_SESSION_HANDLE \<Rightarrow> CK_MECHANISM option \<Rightarrow> CK_OBJECT_HANDLE \<Rightarrow> buffer \<Rightarrow> u64 \<Rightarrow> CK_ATTRIBUTE list option \<Rightarrow> u64 \<Rightarrow> CK_OBJECT_HANDLE option \<Rightarrow> CK_RV" where
  "C_UnwrapKey hSession pMechanism hUnwrappingKey pWrappedKey ulWrappedKeyLen pTemplate ulAttributeCount phKey = CKR_FUNCTION_NOT_SUPPORTED"

definition C_DeriveKey ::
    "CK_SESSION_HANDLE \<Rightarrow> CK_MECHANISM option \<Rightarrow> CK_OBJECT_HANDLE \<Rightarrow> CK_ATTRIBUTE list option \<Rightarrow> u64 \<Rightarrow> CK_OBJECT_HANDLE option \<Rightarrow> CK_RV" where
  "C_DeriveKey hSession pMechanism hBaseKey pTemplate ulAttributeCount phKey = CKR_FUNCTION_NOT_SUPPORTED"

definition C_SeedRandom ::
    "CK_SESSION_HANDLE \<Rightarrow> buffer \<Rightarrow> u64 \<Rightarrow> CK_RV" where
  "C_SeedRandom hSession pSeed ulSeedLen = CKR_RANDOM_NO_RNG"

definition C_GenerateRandom ::
    "CK_SESSION_HANDLE \<Rightarrow> buffer \<Rightarrow> u64 \<Rightarrow> CK_RV" where
  "C_GenerateRandom hSession RandomData ulRandomLen = CKR_RANDOM_NO_RNG"

end
