(* ===== verification/P11_Api.thy ===== *)
theory P11_Api
  imports General Crypto Unsupported
begin

text \<open>
  The entry points of the library that do something: slots and sessions
  (\<open>src/p11_session_slot.c\<close>), objects (\<open>src/p11_object.c\<close>) and signatures (\<open>src/p11_crypto.c\<close>).

  Each is an \<open>api_call\<close> (lock, check that the library is initialised, unlock) around a body, named
  after the function. A result is the return code with the caller's output parameters as the call
  left them; a null output pointer is \<open>None\<close>.
\<close>

section \<open>Slots\<close>

definition get_slot_list_body ::
    "CK_SLOT_ID list option \<Rightarrow> u64 option \<Rightarrow> 't lib \<Rightarrow> ((CK_RV \<times> CK_SLOT_ID list option \<times> u64 option) \<times> 't lib) option" where
  "get_slot_list_body pSlotList pulCount s =
     (case pulCount of
        None \<Rightarrow> Some ((CKR_ARGUMENTS_BAD, pSlotList, None), s)
      | Some count \<Rightarrow>
         (case pSlotList of
            None \<Rightarrow> Some ((CKR_OK, None, Some SLOT_COUNT), s)
          | Some l \<Rightarrow>
              if SLOT_COUNT \<le> count then
                (case l of [] \<Rightarrow> None
                 | x # xs \<Rightarrow> Some ((CKR_OK, Some (TEE_SLOT_ID # xs), Some SLOT_COUNT), s\<lparr>slot_id := TEE_SLOT_ID\<rparr>))
              else Some ((CKR_BUFFER_TOO_SMALL, Some l, Some SLOT_COUNT), s)))"

definition C_GetSlotList ::
    "'t env \<Rightarrow> bool \<Rightarrow> CK_SLOT_ID list option \<Rightarrow> u64 option \<Rightarrow> 't lib \<Rightarrow>
     ((CK_RV \<times> CK_SLOT_ID list option \<times> u64 option) \<times> 't lib) option" where
  "C_GetSlotList E tokenPresent pSlotList pulCount =
     api_call E (CKR_CRYPTOKI_NOT_INITIALIZED, pSlotList, pulCount) (get_slot_list_body pSlotList pulCount)"

text \<open>The queries whose only state is the caller's record.\<close>

definition info_body :: "'i option \<Rightarrow> CK_SLOT_ID \<Rightarrow> ('i \<Rightarrow> CK_RV \<times> 'i) \<Rightarrow> 't lib \<Rightarrow> ((CK_RV \<times> 'i option) \<times> 't lib) option" where
  "info_body pInfo slotID get s =
     (case pInfo of
        None \<Rightarrow> Some ((CKR_ARGUMENTS_BAD, None), s)
      | Some i \<Rightarrow>
          if slotID = TEE_SLOT_ID then (let (rc, i') = get i in Some ((rc, Some i'), s))
          else Some ((CKR_SLOT_ID_INVALID, Some i), s))"

definition C_GetSlotInfo ::
    "'t env \<Rightarrow> CK_SLOT_ID \<Rightarrow> CK_SLOT_INFO option \<Rightarrow> 't lib \<Rightarrow> ((CK_RV \<times> CK_SLOT_INFO option) \<times> 't lib) option" where
  "C_GetSlotInfo E slotID pInfo =
     api_call E (CKR_CRYPTOKI_NOT_INITIALIZED, pInfo) (info_body pInfo slotID Get_TEE_SlotInfo)"

definition C_GetTokenInfo ::
    "'t env \<Rightarrow> CK_SLOT_ID \<Rightarrow> CK_TOKEN_INFO option \<Rightarrow> 't lib \<Rightarrow> ((CK_RV \<times> CK_TOKEN_INFO option) \<times> 't lib) option" where
  "C_GetTokenInfo E slotID pInfo =
     api_call E (CKR_CRYPTOKI_NOT_INITIALIZED, pInfo) (info_body pInfo slotID Get_TEE_TokenInfo)"

definition C_GetMechanismInfo ::
    "'t env \<Rightarrow> CK_SLOT_ID \<Rightarrow> CK_MECHANISM_TYPE \<Rightarrow> CK_MECHANISM_INFO option \<Rightarrow> 't lib \<Rightarrow>
     ((CK_RV \<times> CK_MECHANISM_INFO option) \<times> 't lib) option" where
  "C_GetMechanismInfo E slotID ty pInfo =
     api_call E (CKR_CRYPTOKI_NOT_INITIALIZED, pInfo) (info_body pInfo slotID (Get_TEE_MechanismInfo ty))"

definition get_mechanism_list_body ::
    "CK_SLOT_ID \<Rightarrow> CK_MECHANISM_TYPE list option \<Rightarrow> u64 option \<Rightarrow> 't lib \<Rightarrow>
     ((CK_RV \<times> CK_MECHANISM_TYPE list option \<times> u64 option) \<times> 't lib) option" where
  "get_mechanism_list_body slotID pMechanismList pulCount s =
     (case pulCount of
        None \<Rightarrow> Some ((CKR_ARGUMENTS_BAD, pMechanismList, None), s)
      | Some count \<Rightarrow>
          if slotID = TEE_SLOT_ID then do {
            (rc, l, n) \<leftarrow> Get_TEE_MechanismList pMechanismList count;
            Some ((rc, l, Some n), s) }
          else Some ((CKR_SLOT_ID_INVALID, pMechanismList, pulCount), s))"

definition C_GetMechanismList ::
    "'t env \<Rightarrow> CK_SLOT_ID \<Rightarrow> CK_MECHANISM_TYPE list option \<Rightarrow> u64 option \<Rightarrow> 't lib \<Rightarrow>
     ((CK_RV \<times> CK_MECHANISM_TYPE list option \<times> u64 option) \<times> 't lib) option" where
  "C_GetMechanismList E slotID pMechanismList pulCount =
     api_call E (CKR_CRYPTOKI_NOT_INITIALIZED, pMechanismList, pulCount)
       (get_mechanism_list_body slotID pMechanismList pulCount)"

section \<open>Sessions\<close>

text \<open>\<open>phSession\<close> is \<open>None\<close> for a null pointer and otherwise the value it points at.\<close>

definition open_session_body ::
    "'t env \<Rightarrow> CK_SLOT_ID \<Rightarrow> u64 \<Rightarrow> CK_SESSION_HANDLE option \<Rightarrow> 't lib \<Rightarrow> ((CK_RV \<times> CK_SESSION_HANDLE option) \<times> 't lib) option" where
  "open_session_body E slotID flags phSession s =
     (if phSession = None then Some ((CKR_ARGUMENTS_BAD, None), s)
      else if flags AND CKF_RW_SESSION \<noteq> 0 then Some ((CKR_ARGUMENTS_BAD, phSession), s)
      else if flags AND CKF_SERIAL_SESSION = 0 then Some ((CKR_SESSION_PARALLEL_NOT_SUPPORTED, phSession), s)
      else if slotID \<noteq> TEE_SLOT_ID then Some ((CKR_SLOT_ID_INVALID, phSession), s)
      else let (rc, h, s1) = create_session E slotID flags s in
        Some ((rc, if h = None then phSession else h), s1))"

definition C_OpenSession ::
    "'t env \<Rightarrow> CK_SLOT_ID \<Rightarrow> u64 \<Rightarrow> CK_SESSION_HANDLE option \<Rightarrow> 't lib \<Rightarrow> ((CK_RV \<times> CK_SESSION_HANDLE option) \<times> 't lib) option" where
  "C_OpenSession E slotID flags phSession =
     api_call E (CKR_CRYPTOKI_NOT_INITIALIZED, phSession) (open_session_body E slotID flags phSession)"

definition close_session_body :: "CK_SESSION_HANDLE \<Rightarrow> 't lib \<Rightarrow> (CK_RV \<times> 't lib) option" where
  "close_session_body hSession s = do {
     valid \<leftarrow> is_session_valid s hSession;
     if \<not> valid then Some (CKR_SESSION_HANDLE_INVALID, s) else delete_session hSession s }"

definition C_CloseSession :: "'t env \<Rightarrow> CK_SESSION_HANDLE \<Rightarrow> 't lib \<Rightarrow> (CK_RV \<times> 't lib) option" where
  "C_CloseSession E hSession = api_call E CKR_CRYPTOKI_NOT_INITIALIZED (close_session_body hSession)"

definition C_CloseAllSessions :: "'t env \<Rightarrow> CK_SLOT_ID \<Rightarrow> 't lib \<Rightarrow> (CK_RV \<times> 't lib) option" where
  "C_CloseAllSessions E slotID = api_call E CKR_CRYPTOKI_NOT_INITIALIZED (destroy_session_list slotID)"

definition get_session_info_body ::
    "CK_SESSION_HANDLE \<Rightarrow> CK_SESSION_INFO option \<Rightarrow> 't lib \<Rightarrow> ((CK_RV \<times> CK_SESSION_INFO option) \<times> 't lib) option" where
  "get_session_info_body hSession pInfo s = do {
     valid \<leftarrow> is_session_valid s hSession;
     if \<not> valid then Some ((CKR_SESSION_HANDLE_INVALID, pInfo), s)
     else if pInfo = None then Some ((CKR_ARGUMENTS_BAD, None), s)
     else do { (rc, i) \<leftarrow> get_session_info s hSession; Some ((rc, Some i), s) } }"

definition C_GetSessionInfo ::
    "'t env \<Rightarrow> CK_SESSION_HANDLE \<Rightarrow> CK_SESSION_INFO option \<Rightarrow> 't lib \<Rightarrow> ((CK_RV \<times> CK_SESSION_INFO option) \<times> 't lib) option" where
  "C_GetSessionInfo E hSession pInfo =
     api_call E (CKR_CRYPTOKI_NOT_INITIALIZED, pInfo) (get_session_info_body hSession pInfo)"

section \<open>Objects\<close>

definition get_attribute_value_body ::
    "CK_SESSION_HANDLE \<Rightarrow> CK_OBJECT_HANDLE \<Rightarrow> CK_ATTRIBUTE list option \<Rightarrow> u64 \<Rightarrow> 't lib \<Rightarrow>
     ((CK_RV \<times> CK_ATTRIBUTE list option) \<times> 't lib) option" where
  "get_attribute_value_body hSession hObject pTemplate ulCount s = do {
     r \<leftarrow> get_attr_value s hSession hObject pTemplate ulCount;
     Some (r, s) }"

definition C_GetAttributeValue ::
    "'t env \<Rightarrow> CK_SESSION_HANDLE \<Rightarrow> CK_OBJECT_HANDLE \<Rightarrow> CK_ATTRIBUTE list option \<Rightarrow> u64 \<Rightarrow> 't lib \<Rightarrow>
     ((CK_RV \<times> CK_ATTRIBUTE list option) \<times> 't lib) option" where
  "C_GetAttributeValue E hSession hObject pTemplate ulCount =
     api_call E (CKR_CRYPTOKI_NOT_INITIALIZED, pTemplate)
       (get_attribute_value_body hSession hObject pTemplate ulCount)"

text \<open>
  The checks a search or a signature makes of its session: \<open>is_session_valid\<close>, then \<open>get_session\<close>; the
  continuation runs on the session's node.
\<close>

definition with_session ::
    "CK_SESSION_HANDLE \<Rightarrow> 'r \<Rightarrow> (session \<Rightarrow> 't lib \<Rightarrow> ('r \<times> 't lib) option) \<Rightarrow> 't lib \<Rightarrow> ('r \<times> 't lib) option" where
  "with_session hSession invalid k s = do {
     valid \<leftarrow> is_session_valid s hSession;
     if \<not> valid then Some (invalid, s)
     else do {
       p \<leftarrow> get_session s hSession;
       case p of None \<Rightarrow> Some (invalid, s) | Some sess \<Rightarrow> k sess s } }"

text \<open>The array of the session's search: kept if there is one, else allocated and zeroed.\<close>

definition ensure_find_list :: "'t env \<Rightarrow> session \<Rightarrow> 't lib \<Rightarrow> u64 option \<times> 't lib" where
  "ensure_find_list E sess s =
     (if find_list sess \<noteq> 0 then (Some (find_list sess), s)
      else let (p, s1) = do_malloc E s in
        (case p of
           None \<Rightarrow> (None, s1)
         | Some a \<Rightarrow> (Some a, s1\<lparr>mem := (mem s1)(a \<mapsto> HandleBlk (replicate MAX_FIND_LIST_OBJECTS 0))\<rparr>)))"

text \<open>The search of a session that has no operation open.\<close>

definition start_search ::
    "'t env \<Rightarrow> CK_SESSION_HANDLE \<Rightarrow> CK_ATTRIBUTE list option \<Rightarrow> u64 \<Rightarrow> session \<Rightarrow> 't lib \<Rightarrow> (CK_RV \<times> 't lib) option" where
  "start_search E hSession pTemplate ulCount sess s =
     (let (p, s1) = ensure_find_list E sess s in
      (case p of
         None \<Rightarrow> Some (CKR_HOST_MEMORY, s1)
       | Some fl \<Rightarrow> do {
           (rc, objCount, m) \<leftarrow> find_matching_objects fl (obj_list s1)
              (if ulCount = 0 then None else pTemplate) ulCount (mem s1);
           Some (CKR_OK, s1\<lparr>mem := m(hSession \<mapsto> SessionBlk (sess
              \<lparr>find_list := fl, find_count := objCount, find_idx := 0, op_active := True\<rparr>))\<rparr>) }))"

text \<open>The objects of the token are mirrored first, if none is yet.\<close>

definition search_session ::
    "'t env \<Rightarrow> CK_SESSION_HANDLE \<Rightarrow> CK_ATTRIBUTE list option \<Rightarrow> u64 \<Rightarrow> session \<Rightarrow> 't lib \<Rightarrow> (CK_RV \<times> 't lib) option" where
  "search_session E hSession pTemplate ulCount sess s =
     (if op_active sess then Some (CKR_OPERATION_ACTIVE, s)
      else case get_object_list s (si_slotID (session_info sess)) of
        None \<Rightarrow> Some (CKR_ARGUMENTS_BAD, s)
      | Some ol \<Rightarrow> do {
          (rc, s1) \<leftarrow> (if ol = [] then get_all_token_objects E (si_slotID (session_info sess)) s else Some (CKR_OK, s));
          if rc \<noteq> CKR_OK then Some (rc, s1) else start_search E hSession pTemplate ulCount sess s1 })"

definition find_objects_init_body ::
    "'t env \<Rightarrow> CK_SESSION_HANDLE \<Rightarrow> CK_ATTRIBUTE list option \<Rightarrow> u64 \<Rightarrow> 't lib \<Rightarrow> (CK_RV \<times> 't lib) option" where
  "find_objects_init_body E hSession pTemplate ulCount s =
     (if pTemplate = None \<and> 0 < ulCount then Some (CKR_ARGUMENTS_BAD, s)
      else with_session hSession CKR_SESSION_HANDLE_INVALID (search_session E hSession pTemplate ulCount) s)"

definition C_FindObjectsInit ::
    "'t env \<Rightarrow> CK_SESSION_HANDLE \<Rightarrow> CK_ATTRIBUTE list option \<Rightarrow> u64 \<Rightarrow> 't lib \<Rightarrow> (CK_RV \<times> 't lib) option" where
  "C_FindObjectsInit E hSession pTemplate ulCount =
     api_call E CKR_CRYPTOKI_NOT_INITIALIZED (find_objects_init_body E hSession pTemplate ulCount)"

text \<open>\<open>memcpy (phObject, find_list + find_idx, count)\<close> in entries; nothing is read when \<open>count\<close> is 0.\<close>

definition copy_handles :: "heap \<Rightarrow> u64 \<Rightarrow> nat \<Rightarrow> nat \<Rightarrow> CK_OBJECT_HANDLE list \<Rightarrow> CK_OBJECT_HANDLE list option" where
  "copy_handles m fl idx count dst =
     (if count = 0 then Some dst
      else do {
        l \<leftarrow> handles_of (m fl);
        if idx + count \<le> length l \<and> count \<le> length dst
        then Some (take count (drop idx l) @ drop count dst) else None })"

definition find_objects_body ::
    "CK_SESSION_HANDLE \<Rightarrow> CK_OBJECT_HANDLE list option \<Rightarrow> u64 \<Rightarrow> u64 option \<Rightarrow> 't lib \<Rightarrow>
     ((CK_RV \<times> CK_OBJECT_HANDLE list option \<times> u64 option) \<times> 't lib) option" where
  "find_objects_body hSession phObject ulMaxObjectCount pulObjectCount =
     with_session hSession (CKR_SESSION_HANDLE_INVALID, phObject, pulObjectCount) (\<lambda>sess s.
       if \<not> op_active sess then Some ((CKR_OPERATION_NOT_INITIALIZED, phObject, pulObjectCount), s)
       else case (phObject, pulObjectCount) of
         (Some dst, Some _) \<Rightarrow>
           (let count = min ulMaxObjectCount (find_count sess - find_idx sess) in do {
              dst' \<leftarrow> copy_handles (mem s) (find_list sess) (unat (find_idx sess)) (unat count) dst;
              Some ((CKR_OK, Some dst', Some count),
                s\<lparr>mem := (mem s)(hSession \<mapsto> SessionBlk (sess\<lparr>find_idx := find_idx sess + count\<rparr>))\<rparr>) })
       | _ \<Rightarrow> Some ((CKR_ARGUMENTS_BAD, phObject, pulObjectCount), s))"

definition C_FindObjects ::
    "'t env \<Rightarrow> CK_SESSION_HANDLE \<Rightarrow> CK_OBJECT_HANDLE list option \<Rightarrow> u64 \<Rightarrow> u64 option \<Rightarrow> 't lib \<Rightarrow>
     ((CK_RV \<times> CK_OBJECT_HANDLE list option \<times> u64 option) \<times> 't lib) option" where
  "C_FindObjects E hSession phObject ulMaxObjectCount pulObjectCount =
     api_call E (CKR_CRYPTOKI_NOT_INITIALIZED, phObject, pulObjectCount)
       (find_objects_body hSession phObject ulMaxObjectCount pulObjectCount)"

text \<open>The array is zeroed and freed, and the session keeps its address.\<close>

definition find_objects_final_body :: "CK_SESSION_HANDLE \<Rightarrow> 't lib \<Rightarrow> (CK_RV \<times> 't lib) option" where
  "find_objects_final_body hSession =
     with_session hSession CKR_SESSION_HANDLE_INVALID (\<lambda>sess s.
       if \<not> op_active sess then Some (CKR_OPERATION_NOT_INITIALIZED, s)
       else do {
         m \<leftarrow> (if find_list sess \<noteq> 0 then do {
                 l \<leftarrow> handles_of (mem s (find_list sess));
                 free_block (find_list sess) (mem s) }
               else Some (mem s));
         Some (CKR_OK, s\<lparr>mem := m(hSession \<mapsto> SessionBlk (sess\<lparr>op_active := False, find_count := 0, find_idx := 0\<rparr>))\<rparr>) })"

definition C_FindObjectsFinal :: "'t env \<Rightarrow> CK_SESSION_HANDLE \<Rightarrow> 't lib \<Rightarrow> (CK_RV \<times> 't lib) option" where
  "C_FindObjectsFinal E hSession = api_call E CKR_CRYPTOKI_NOT_INITIALIZED (find_objects_final_body hSession)"

section \<open>Signatures\<close>

definition sign_init_body ::
    "'t env \<Rightarrow> CK_SESSION_HANDLE \<Rightarrow> CK_MECHANISM option \<Rightarrow> CK_OBJECT_HANDLE \<Rightarrow> 't lib \<Rightarrow> (CK_RV \<times> 't lib) option" where
  "sign_init_body E hSession pMechanism hKey s =
     (case pMechanism of
        None \<Rightarrow> Some (CKR_MECHANISM_INVALID, s)
      | Some mech \<Rightarrow> with_session hSession CKR_SESSION_HANDLE_INVALID (\<lambda>sess s.
          if \<not> is_object_handle_valid s hKey (si_slotID (session_info sess)) then Some (CKR_OBJECT_HANDLE_INVALID, s)
          else sign_init E hSession mech False hKey s) s)"

definition C_SignInit ::
    "'t env \<Rightarrow> CK_SESSION_HANDLE \<Rightarrow> CK_MECHANISM option \<Rightarrow> CK_OBJECT_HANDLE \<Rightarrow> 't lib \<Rightarrow> (CK_RV \<times> 't lib) option" where
  "C_SignInit E hSession pMechanism hKey =
     api_call E CKR_CRYPTOKI_NOT_INITIALIZED (sign_init_body E hSession pMechanism hKey)"

definition sign_body ::
    "'t env \<Rightarrow> CK_SESSION_HANDLE \<Rightarrow> buffer \<Rightarrow> u64 \<Rightarrow> buffer \<Rightarrow> u64 option \<Rightarrow> 't lib \<Rightarrow>
     ((CK_RV \<times> buffer \<times> u64 option) \<times> 't lib) option" where
  "sign_body E hSession pData ulDataLen pSignature pulSignatureLen s =
     (case pulSignatureLen of
        None \<Rightarrow> Some ((CKR_ARGUMENTS_BAD, pSignature, None), s)
      | Some sigLen \<Rightarrow>
          if pData = None then Some ((CKR_ARGUMENTS_BAD, pSignature, pulSignatureLen), s)
          else with_session hSession (CKR_SESSION_HANDLE_INVALID, pSignature, pulSignatureLen) (\<lambda>sess s. do {
            ((rc, out, n), s1) \<leftarrow> sign E hSession pData ulDataLen pSignature sigLen s;
            Some ((rc, out, Some n), s1) }) s)"

definition C_Sign ::
    "'t env \<Rightarrow> CK_SESSION_HANDLE \<Rightarrow> buffer \<Rightarrow> u64 \<Rightarrow> buffer \<Rightarrow> u64 option \<Rightarrow> 't lib \<Rightarrow>
     ((CK_RV \<times> buffer \<times> u64 option) \<times> 't lib) option" where
  "C_Sign E hSession pData ulDataLen pSignature pulSignatureLen =
     api_call E (CKR_CRYPTOKI_NOT_INITIALIZED, pSignature, pulSignatureLen)
       (sign_body E hSession pData ulDataLen pSignature pulSignatureLen)"

end
