(* ===== verification/Library_Inv.thy ===== *)
theory Library_Inv
  imports P11_Api
begin

text \<open>
  The invariant of the whole library, that every entry point keeps it, and what follows for every
  sequence of calls: the state machine \<open>api_step\<close> has one rule per entry point, and the invariant holds
  in every state reachable from the loaded library.
\<close>

section \<open>The invariant\<close>

text \<open>
  The search of a session: its array, if it ever had one, is a live array of handles or already
  freed; between searches it is not live; during one the handles still to be returned are handles
  of listed objects.
\<close>

definition find_ok :: "heap \<Rightarrow> CK_OBJECT_HANDLE list \<Rightarrow> session \<Rightarrow> bool" where
  "find_ok m ol x \<longleftrightarrow> find_idx x \<le> find_count x \<and>
     (find_list x \<noteq> 0 \<longrightarrow> m (find_list x) = Some FreedBlk \<or>
        op_active x \<and> (\<exists>l. m (find_list x) = Some (HandleBlk l) \<and> length l = MAX_FIND_LIST_OBJECTS)) \<and>
     (find_count x \<noteq> 0 \<longrightarrow> find_list x \<noteq> 0 \<and> (\<exists>l. m (find_list x) = Some (HandleBlk l) \<and>
        unat (find_count x) \<le> MAX_FIND_LIST_OBJECTS \<and> set (take (unat (find_count x)) l) \<subseteq> set ol))"

text \<open>The signature of a session: an open one has a listed key and a supported mechanism.\<close>

definition sign_ok :: "CK_OBJECT_HANDLE list \<Rightarrow> session \<Rightarrow> bool" where
  "sign_ok ol x \<longleftrightarrow> (ctx_active (sign_ctx x) \<longrightarrow>
     ctx_key (sign_ctx x) \<in> set ol \<and> mechanism (ctx_mech (sign_ctx x)) \<in> set sign_mechanisms)"

definition sessions_ok :: "'t lib \<Rightarrow> bool" where
  "sessions_ok s \<longleftrightarrow> (\<forall>h \<in> set (sess_list s). \<forall>x. mem s h = Some (SessionBlk x) \<longrightarrow>
     find_ok (mem s) (obj_list s) x \<and> sign_ok (obj_list s) x)"

text \<open>No two sessions share an array.\<close>

definition find_lists_apart :: "'t lib \<Rightarrow> bool" where
  "find_lists_apart s \<longleftrightarrow> (\<forall>h \<in> set (sess_list s). \<forall>k \<in> set (sess_list s). \<forall>x y.
     mem s h = Some (SessionBlk x) \<and> mem s k = Some (SessionBlk y) \<and> h \<noteq> k \<and> find_list x = find_list y
       \<longrightarrow> find_list x = 0)"

definition lib_inv :: "'t lib \<Rightarrow> bool" where
  "lib_inv s \<longleftrightarrow> sessions_wf s \<and> objects_wf s \<and> 0 \<notin> set (sess_list s) \<and> sessions_ok s \<and> find_lists_apart s \<and>
     (\<not> initialized s \<longrightarrow> sess_list s = [] \<and> obj_list s = [])"

text \<open>The invariant looks at these parts of the state only.\<close>

lemma lib_inv_cong:
  fixes s s' :: "'t lib"
  assumes "lib_inv s" and "sess_list s' = sess_list s" and "obj_list s' = obj_list s" and "mem s' = mem s"
    and "initialized s' = initialized s"
  shows "lib_inv s'"
  using assms(1)
  unfolding lib_inv_def sess.wf_def obj.wf_def sessions_ok_def find_lists_apart_def assms(2-5) .

lemma lib_inv_relock: "lib_inv (relock l n s) = lib_inv s"
proof -
  have "lib_inv (relock l n s) \<Longrightarrow> lib_inv s" by (erule lib_inv_cong) simp_all
  moreover have "lib_inv s \<Longrightarrow> lib_inv (relock l n s)" by (erule lib_inv_cong) simp_all
  ultimately show ?thesis by blast
qed

lemma lib_invD:
  assumes "lib_inv s"
  shows "sessions_wf s" "objects_wf s" "0 \<notin> set (sess_list s)" "sessions_ok s" "find_lists_apart s"
  using assms by (simp_all add: lib_inv_def)

lemma lib_inv_session:
  assumes "lib_inv s" and "h \<in> set (sess_list s)" and "mem s h = Some (SessionBlk x)"
  shows "find_ok (mem s) (obj_list s) x" and "sign_ok (obj_list s) x" and "in_slot x"
proof -
  show "find_ok (mem s) (obj_list s) x" "sign_ok (obj_list s) x"
    using assms by (auto simp: lib_inv_def sessions_ok_def)
  show "in_slot x" using session_live [OF lib_invD(1) [OF assms(1)] assms(2)] assms(3) by force
qed

text \<open>An address a session's search uses is not the address of a session or an object.\<close>

lemma find_list_block:
  assumes "find_ok m ol x" and "find_list x \<noteq> 0"
  shows "session_of (m (find_list x)) = None" and "object_of (m (find_list x)) = None" and "find_list x \<in> dom m"
  using assms by (auto simp: find_ok_def)

lemma block_dom:
  "session_of (m a) = Some x \<Longrightarrow> a \<in> dom m" "object_of (m a) = Some y \<Longrightarrow> a \<in> dom m"
  by (auto dest: block_of_SomeD)

text \<open>New blocks and new objects do not disturb the sessions.\<close>

lemma find_ok_grows:
  assumes "find_ok m ol x" and "\<And>a. a \<in> dom m \<Longrightarrow> m' a = m a" and "set ol \<subseteq> set ol'"
  shows "find_ok m' ol' x"
proof -
  have "find_list x \<noteq> 0 \<Longrightarrow> m' (find_list x) = m (find_list x)"
    using find_list_block(3) [OF assms(1)] assms(2) by blast
  with assms(1,3) show ?thesis by (auto simp: find_ok_def)
qed

lemma lib_inv_grows:
  assumes "lib_inv s" and "grows s s'" and "objects_wf s'" and "set (obj_list s) \<subseteq> set (obj_list s')" and "initialized s"
  shows "lib_inv s'"
proof -
  have c: "sess_list s' = sess_list s" "initialized s' = initialized s" using assms(2) by (auto simp: grows_def core_def)
  have m: "mem s' a = mem s a" if "a \<in> dom (mem s)" for a using assms(2) that by (simp add: grows_def)
  have l: "mem s' h = mem s h" if "h \<in> set (sess_list s)" for h
    using session_live [OF lib_invD(1) [OF assms(1)] that] m by blast
  have "sessions_ok s'"
    unfolding sessions_ok_def
  proof (intro ballI allI impI)
    fix h x
    assume h: "h \<in> set (sess_list s')" "mem s' h = Some (SessionBlk x)"
    then have "h \<in> set (sess_list s)" "mem s h = Some (SessionBlk x)" using c l by auto
    from lib_inv_session [OF assms(1) this] show "find_ok (mem s') (obj_list s') x \<and> sign_ok (obj_list s') x"
      using find_ok_grows [OF _ m assms(4)] assms(4) by (auto simp: sign_ok_def)
  qed
  moreover have "find_lists_apart s'" using lib_invD(5) [OF assms(1)] c l by (auto simp: find_lists_apart_def)
  ultimately show ?thesis
    using sessions_wf_grows [OF lib_invD(1) [OF assms(1)] assms(2)] assms(3,5) c lib_invD(3) [OF assms(1)]
    by (simp add: lib_inv_def)
qed

text \<open>One session changes, and with it at most the array of its search.\<close>

definition session_moved :: "'t lib \<Rightarrow> CK_SESSION_HANDLE \<Rightarrow> session \<Rightarrow> session \<Rightarrow> 't lib \<Rightarrow> bool" where
  "session_moved s h x x' s' \<longleftrightarrow> lib_inv s \<and> h \<in> set (sess_list s) \<and> mem s h = Some (SessionBlk x) \<and>
     core s' = core s \<and> obj_list s' = obj_list s \<and> mem s' h = Some (SessionBlk x') \<and>
     (\<forall>a. a \<noteq> h \<longrightarrow> a \<noteq> find_list x' \<or> find_list x' = 0 \<longrightarrow> mem s' a = mem s a) \<and>
     (find_list x' = find_list x \<or> find_list x' \<notin> dom (mem s))"

lemma session_movedD:
  assumes "session_moved s h x x' s'"
  shows "lib_inv s" "h \<in> set (sess_list s)" "mem s h = Some (SessionBlk x)"
    "sess_list s' = sess_list s" "initialized s' = initialized s" "obj_list s' = obj_list s" "mem s' h = Some (SessionBlk x')"
    "\<And>a. a \<noteq> h \<Longrightarrow> a \<noteq> find_list x' \<or> find_list x' = 0 \<Longrightarrow> mem s' a = mem s a"
    "find_list x' = find_list x \<or> find_list x' \<notin> dom (mem s)"
  using assms by (auto simp: session_moved_def core_def)

text \<open>The other sessions and the objects stay where they are, and no other session has the array.\<close>

lemma moved_other:
  assumes "session_moved s h x x' s'" and "a \<noteq> h" and "session_of (mem s a) \<noteq> None \<or> object_of (mem s a) \<noteq> None"
  shows "mem s' a = mem s a"
proof (rule session_movedD(8) [OF assms(1,2)])
  note m = session_movedD [OF assms(1)]
  have "a \<in> dom (mem s)" using assms(3) by (auto dest: block_of_SomeD)
  then show "a \<noteq> find_list x' \<or> find_list x' = 0"
    using find_list_block [OF lib_inv_session(1) [OF m(1-3)]] m(9) assms(3) by metis
qed

lemma moved_session:
  assumes "session_moved s h x x' s'" and "k \<in> set (sess_list s)" and "k \<noteq> h" and "mem s' k = Some (SessionBlk y)"
  shows "mem s k = Some (SessionBlk y)"
  using session_live [OF lib_invD(1) [OF session_movedD(1) [OF assms(1)]] assms(2)] moved_other [OF assms(1,3)] assms(4)
  by fastforce

lemma moved_apart:
  assumes "session_moved s h x x' s'" and "k \<in> set (sess_list s)" and "k \<noteq> h" and "mem s k = Some (SessionBlk y)"
  shows "find_list y \<noteq> find_list x' \<or> find_list y = 0"
proof -
  note m = session_movedD [OF assms(1)]
  have "find_list y \<noteq> find_list x \<or> find_list y = 0"
    using lib_invD(5) [OF m(1)] m(2,3) assms(2-4) by (auto simp: find_lists_apart_def)
  then show ?thesis using m(9) find_list_block(3) [OF lib_inv_session(1) [OF m(1) assms(2,4)]] by auto
qed

lemma moved_wf:
  assumes "session_moved s h x x' s'" and "in_slot x'"
  shows "sessions_wf s'" and "objects_wf s'"
proof -
  note m = session_movedD [OF assms(1)] and other = moved_other [OF assms(1)]
  show "sessions_wf s'"
  proof (rule sess.wf_cong [OF lib_invD(1) [OF m(1)] m(4)])
    fix a b
    assume "session_of (mem s a) = Some b" "in_slot b"
    then show "\<exists>b'. session_of (mem s' a) = Some b' \<and> in_slot b'"
      using other [of a] m(7) assms(2) by (cases "a = h") simp_all
  qed
  show "objects_wf s'"
  proof (rule obj.wf_cong [OF lib_invD(2) [OF m(1)] m(6)])
    fix a b
    assume "object_of (mem s a) = Some b" "key_object b"
    moreover from this have "a \<noteq> h" using m(3) by auto
    ultimately show "\<exists>b'. object_of (mem s' a) = Some b' \<and> key_object b'" using other [of a] by simp
  qed
qed

lemma moved_sessions_ok:
  assumes "session_moved s h x x' s'" and "find_ok (mem s') (obj_list s) x'" and "sign_ok (obj_list s) x'"
  shows "sessions_ok s'"
  unfolding sessions_ok_def
proof (intro ballI allI impI)
  fix k y
  assume k: "k \<in> set (sess_list s')" "mem s' k = Some (SessionBlk y)"
  note m = session_movedD [OF assms(1)]
  show "find_ok (mem s') (obj_list s') y \<and> sign_ok (obj_list s') y"
  proof (cases "k = h")
    case True
    with k m(6,7) assms(2,3) show ?thesis by simp
  next
    case False
    have ks: "k \<in> set (sess_list s)" using k(1) m(4) by simp
    note y = moved_session [OF assms(1) ks False k(2)]
    note oky = lib_inv_session [OF m(1) ks y]
    have "mem s' (find_list y) = mem s (find_list y)" if "find_list y \<noteq> 0"
      using find_list_block [OF oky(1) that] m(3) moved_apart [OF assms(1) ks False y] that by (intro m(8)) auto
    with oky show ?thesis by (auto simp: find_ok_def m(6))
  qed
qed

lemma moved_lists_apart:
  assumes "session_moved s h x x' s'"
  shows "find_lists_apart s'"
  unfolding find_lists_apart_def
proof (intro ballI allI impI, elim conjE)
  note m = session_movedD [OF assms] and old = moved_session [OF assms] and apart = moved_apart [OF assms]
  fix k j y z
  assume k: "k \<in> set (sess_list s')" "j \<in> set (sess_list s')" "mem s' k = Some (SessionBlk y)"
    "mem s' j = Some (SessionBlk z)" "k \<noteq> j" "find_list y = find_list z"
  consider "k = h" | "j = h" | "k \<noteq> h" "j \<noteq> h" by blast
  then show "find_list y = 0"
  proof cases
    case 1
    with k m(4,7) apart old show ?thesis by (metis block.inject(1) option.inject)
  next
    case 2
    with k m(4,7) apart old show ?thesis by (metis block.inject(1) option.inject)
  next
    case 3
    with k m(4) old lib_invD(5) [OF m(1)] show ?thesis unfolding find_lists_apart_def by metis
  qed
qed

lemma lib_inv_update:
  fixes s s' :: "'t lib"
  assumes "lib_inv s" and h: "h \<in> set (sess_list s)" "mem s h = Some (SessionBlk x)"
    and s': "core s' = core s" "obj_list s' = obj_list s" "mem s' h = Some (SessionBlk x')"
    and keep: "\<And>a. a \<noteq> h \<Longrightarrow> a \<noteq> find_list x' \<or> find_list x' = 0 \<Longrightarrow> mem s' a = mem s a"
    and fl: "find_list x' = find_list x \<or> find_list x' \<notin> dom (mem s)"
    and ok: "in_slot x'" "find_ok (mem s') (obj_list s) x'" "sign_ok (obj_list s) x'"
  shows "lib_inv s'"
proof -
  have m: "session_moved s h x x' s'" using assms by (simp add: session_moved_def)
  show ?thesis
    unfolding lib_inv_def
    using moved_wf [OF m ok(1)] moved_sessions_ok [OF m ok(2,3)] moved_lists_apart [OF m] session_movedD(4-6) [OF m]
      lib_invD(3) [OF assms(1)] assms(1) by (simp add: lib_inv_def)
qed

section \<open>Every body keeps the invariant and the lock\<close>

text \<open>What a body does to the part of the state the lock lives in: nothing.\<close>

lemma core_lock: "core s' = core s \<Longrightarrow> global_lock s' = global_lock s \<and> global_locking s' = global_locking s"
  by (simp add: core_def)

lemma with_session_cases:
  assumes "with_session h invalid k s = Some (r, s')"
  obtains "s' = s" "r = invalid"
  | x where "h \<in> set (sess_list s)" "mem s h = Some (SessionBlk x)" "in_slot x" "k x s = Some (r, s')"
proof -
  from assms obtain valid where v: "is_session_valid s h = Some valid"
    by (auto simp: with_session_def split: bind_splits)
  show thesis
  proof (cases valid)
    case False
    with assms v that(1) show thesis by (simp add: with_session_def)
  next
    case True
    then obtain x where "mem s h = Some (SessionBlk x)" "get_session s h = Some (Some x)" "in_slot x" "h \<in> set (sess_list s)"
      using get_session_valid [of s h] v by auto
    with assms v True that(2) show thesis by (simp add: with_session_def)
  qed
qed

lemma slot_bodies_frame:
  "get_slot_list_body l n s = Some (r, s') \<Longrightarrow> s' = s \<or> s' = s\<lparr>slot_id := TEE_SLOT_ID\<rparr>"
  "info_body i slotID get s = Some (r2, s') \<Longrightarrow> s' = s"
  "get_mechanism_list_body slotID ms n s = Some (r3, s') \<Longrightarrow> s' = s"
  "get_session_info_body h si s = Some (r4, s') \<Longrightarrow> s' = s"
  "get_attribute_value_body h ob t c s = Some (r5, s') \<Longrightarrow> s' = s"
  by (auto simp: get_slot_list_body_def info_body_def get_mechanism_list_body_def get_session_info_body_def
      get_attribute_value_body_def Let_def split: option.splits list.splits if_splits bind_splits prod.splits)

lemma open_session_body_cases:
  assumes "open_session_body E slotID flags ph s = Some (r, s')"
  obtains "s' = s" | h rc where "create_session E TEE_SLOT_ID flags s = (rc, h, s')"
  using assms by (auto simp: open_session_body_def Let_def split: if_splits prod.splits)

lemma create_session_cases:
  assumes "malloc_ok E" and "create_session E TEE_SLOT_ID flags s = (rc, h, s')"
  obtains "s' = s\<lparr>mallocs := Suc (mallocs s)\<rparr>"
  | a where "mem s a = None" "a \<noteq> 0" "s' = insert_session a (new_session TEE_SLOT_ID flags) (s\<lparr>mallocs := Suc (mallocs s)\<rparr>)"
proof (cases "malloc E (mallocs s) (dom (mem s))")
  case None
  with assms(2) that(1) show thesis by (auto simp: create_session_def do_malloc_def)
next
  case (Some a)
  then have "mem s a = None" "a \<noteq> 0" using assms(1) by (auto simp: malloc_ok_def)
  with that(2) create_session_eq [OF Some refl, of flags] assms(2) show thesis by simp
qed

lemma lib_inv_open:
  assumes "lib_inv s" and "mem s a = None" and "a \<noteq> 0" and "initialized s"
  shows "lib_inv (insert_session a (new_session TEE_SLOT_ID flags) s)" (is "lib_inv ?s'")
proof -
  let ?x = "new_session TEE_SLOT_ID flags"
  have slot: "in_slot ?x" by (simp add: in_slot_def new_session_def)
  have g: "mem ?s' b = mem s b" if "b \<in> dom (mem s)" for b
    using that assms(2) by (auto simp: insert_session_def)
  have a: "a \<notin> set (sess_list s)"
    by (rule sess.unused_not_live [OF lib_invD(1) [OF assms(1)]]) (use assms(2) in auto)
  have old: "k \<in> set (sess_list s)" "mem s k = Some (SessionBlk y)"
    if "k \<in> set (sess_list ?s')" "k \<noteq> a" "mem ?s' k = Some (SessionBlk y)" for k y
    using that by (simp_all add: insert_session_def)
  have fresh: "find_ok m ol ?x" "sign_ok ol ?x" "find_list ?x = 0" for m ol
    by (simp_all add: find_ok_def sign_ok_def new_session_def zero_context_def)
  have new: "y = ?x" if "mem ?s' a = Some (SessionBlk y)" for y using that by (simp add: insert_session_def)
  have "sessions_wf ?s'" using sess.wf_ins [OF lib_invD(1) [OF assms(1)] a slot] .
  moreover have "objects_wf ?s'"
  proof (rule obj.wf_cong [OF lib_invD(2) [OF assms(1)]])
    show "obj_list ?s' = obj_list s" by (simp add: insert_session_def)
    show "\<exists>b'. object_of (mem ?s' y) = Some b' \<and> key_object b'" if "object_of (mem s y) = Some b" "key_object b" for y b
      using g [of y] block_dom(2) [of "mem s" y] that by simp
  qed
  moreover have "sessions_ok ?s'"
    unfolding sessions_ok_def
  proof (intro ballI allI impI)
    fix k y
    assume k: "k \<in> set (sess_list ?s')" "mem ?s' k = Some (SessionBlk y)"
    show "find_ok (mem ?s') (obj_list ?s') y \<and> sign_ok (obj_list ?s') y"
    proof (cases "k = a")
      case True
      with new k(2) fresh show ?thesis by blast
    next
      case False
      note oky = lib_inv_session [OF assms(1) old [OF k(1) False k(2)]]
      have "find_ok (mem ?s') (obj_list s) y" by (rule find_ok_grows [OF oky(1) g]) simp_all
      with oky(2) show ?thesis by (simp add: insert_session_def)
    qed
  qed
  moreover have "find_lists_apart ?s'"
    unfolding find_lists_apart_def
  proof (intro ballI allI impI, elim conjE)
    fix k j y z
    assume k: "k \<in> set (sess_list ?s')" "j \<in> set (sess_list ?s')" "mem ?s' k = Some (SessionBlk y)"
      "mem ?s' j = Some (SessionBlk z)" "k \<noteq> j" "find_list y = find_list z"
    show "find_list y = 0"
    proof (cases "k = a \<or> j = a")
      case True
      then have "y = ?x \<or> z = ?x" using new k by blast
      with k(6) fresh(3) show ?thesis by auto
    next
      case False
      with k old lib_invD(5) [OF assms(1)] show ?thesis unfolding find_lists_apart_def by metis
    qed
  qed
  ultimately show ?thesis
    using lib_invD(3) [OF assms(1)] assms(3,4) by (simp add: lib_inv_def insert_session_def)
qed

text \<open>Closing sessions removes from the list and frees session nodes only.\<close>

lemma lib_inv_close:
  fixes s s' :: "'t lib"
  assumes "lib_inv s" and "set H \<subseteq> set (sess_list s)" and "initialized s"
    and "core s' = core (s\<lparr>sess_list := sess_list s'\<rparr>)" and "obj_list s' = obj_list s"
    and "set (sess_list s') = set (sess_list s) - set H" and "distinct (sess_list s')"
    and "mem s' = (\<lambda>a. if a \<in> set H then Some FreedBlk else mem s a)"
  shows "lib_inv s'"
proof -
  have blk: "session_of (mem s a) \<noteq> None" if "a \<in> set H" for a
  proof -
    have "a \<in> set (sess_list s)" using assms(2) that by blast
    then obtain x where "mem s a = Some (SessionBlk x)" using session_live [OF lib_invD(1) [OF assms(1)]] by metis
    then show ?thesis by simp
  qed
  have init: "initialized s'" using assms(3,4) by (simp add: core_def)
  have old: "k \<in> set (sess_list s)" "mem s k = Some (SessionBlk y)" if "k \<in> set (sess_list s')" "mem s' k = Some (SessionBlk y)" for k y
    using that assms(6,8) by (auto split: if_splits)
  have "sessions_wf s'"
    using lib_invD(1) [OF assms(1)] assms(6-8) by (auto simp: sess.wf_def)
  moreover have "objects_wf s'"
  proof (rule obj.wf_cong [OF lib_invD(2) [OF assms(1)] assms(5)])
    fix a b
    assume o: "object_of (mem s a) = Some b" "key_object b"
    then have "a \<notin> set H" using blk [of a] by (auto dest!: block_of_SomeD)
    with o show "\<exists>b'. object_of (mem s' a) = Some b' \<and> key_object b'" by (simp add: assms(8))
  qed
  moreover have "sessions_ok s'"
    unfolding sessions_ok_def
  proof (intro ballI allI impI)
    fix k y
    assume k: "k \<in> set (sess_list s')" "mem s' k = Some (SessionBlk y)"
    note oky = lib_inv_session [OF assms(1) old [OF k]]
    have "mem s' (find_list y) = mem s (find_list y)" if "find_list y \<noteq> 0"
      using find_list_block(1) [OF oky(1) that] blk [of "find_list y"] by (auto simp: assms(8))
    with oky show "find_ok (mem s') (obj_list s') y \<and> sign_ok (obj_list s') y" by (auto simp: find_ok_def assms(5))
  qed
  moreover have "find_lists_apart s'"
    using lib_invD(5) [OF assms(1)] old unfolding find_lists_apart_def by metis
  ultimately show ?thesis using lib_invD(3) [OF assms(1)] assms(6) init by (simp add: lib_inv_def)
qed

lemma close_session_body_keeps:
  assumes "lib_inv s" and "initialized s" and "close_session_body h s = Some (r, s')"
  shows "lib_inv s' \<and> global_lock s' = global_lock s \<and> global_locking s' = global_locking s"
proof -
  obtain valid where v: "is_session_valid s h = Some valid"
    using assms(3) by (auto simp: close_session_body_def split: bind_splits)
  show ?thesis
  proof (cases valid)
    case False
    with assms v show ?thesis by (simp add: close_session_body_def)
  next
    case True
    then have h: "h \<in> set (sess_list s)" using v get_session_valid [of s h] by auto
    then have "h \<noteq> 0" using lib_invD(3) [OF assms(1)] by auto
    from delete_session_eq [OF lib_invD(1) [OF assms(1)] h this] assms(3) v True
    have s': "s' = remove_session h s" by (simp add: close_session_body_def)
    have d: "distinct (sess_list s)" using lib_invD(1) [OF assms(1)] by (simp add: sess.wf_def)
    have "lib_inv s'"
      by (rule lib_inv_close [OF assms(1), of "[h]"])
        (use h d assms(2) in \<open>auto simp: s' remove_session_def core_def fun_eq_iff set_remove1_eq\<close>)
    then show ?thesis by (simp add: s' remove_session_def)
  qed
qed

lemma destroy_session_list_keeps:
  assumes "lib_inv s" and "initialized s" and "destroy_session_list slotID s = Some (r, s')"
  shows "lib_inv s' \<and> global_lock s' = global_lock s \<and> global_locking s' = global_locking s"
proof (cases "slotID = TEE_SLOT_ID")
  case False
  with assms show ?thesis by (simp add: destroy_session_list_def)
next
  case True
  have s': "s' = s\<lparr>sess_list := [], mem := (\<lambda>a. if a \<in> set (sess_list s) then Some FreedBlk else mem s a)\<rparr>"
    using destroy_session_list_eq [OF lib_invD(1) [OF assms(1)]] assms(3) True by simp
  have "lib_inv s'"
    by (rule lib_inv_close [OF assms(1), of "sess_list s"]) (use assms(2) in \<open>auto simp: s' core_def\<close>)
  then show ?thesis by (simp add: s')
qed

lemma open_session_body_keeps:
  assumes "malloc_ok E" and "lib_inv s" and "initialized s" and "open_session_body E slotID flags ph s = Some (r, s')"
  shows "lib_inv s' \<and> global_lock s' = global_lock s \<and> global_locking s' = global_locking s"
  using assms(4)
proof (cases rule: open_session_body_cases)
  case 1
  with assms(2) show ?thesis by simp
next
  case (2 h rc)
  have m: "lib_inv (s\<lparr>mallocs := Suc (mallocs s)\<rparr>)" by (rule lib_inv_cong [OF assms(2)]) simp_all
  from assms(1) 2 show ?thesis
  proof (cases rule: create_session_cases)
    case 1
    with m show ?thesis by simp
  next
    case (2 a)
    with lib_inv_open [OF m, of a flags] assms(3) show ?thesis by (simp add: insert_session_def)
  qed
qed

lemma find_loop_inv:
  "find_loop P as i dst = Some (dst', i') \<Longrightarrow> i \<le> length dst \<Longrightarrow>
     i' \<le> length dst' \<and> length dst' = length dst \<and> set (take i' dst') \<subseteq> set (take i dst) \<union> set as"
proof (induction as arbitrary: i dst)
  case Nil
  then show ?case by simp
next
  case (Cons a as)
  obtain hit where hit: "P a = Some hit" using Cons.prems(1) by (auto split: bind_splits)
  show ?case
  proof (cases hit)
    case False
    then have "find_loop P as i dst = Some (dst', i')" using Cons.prems(1) hit by simp
    from Cons.IH [OF this Cons.prems(2)] show ?thesis by auto
  next
    case True
    then have i: "i < length dst" using Cons.prems(1) hit by (auto split: if_splits)
    have t: "set (take (Suc i) (dst[i := a])) = insert a (set (take i dst))"
      using i by (simp add: take_Suc_conv_app_nth)
    show ?thesis
    proof (cases "MAX_FIND_LIST_OBJECTS < Suc i")
      case big: True
      then have "dst' = dst[i := a]" "i' = Suc i" using Cons.prems(1) hit True i by auto
      with t i show ?thesis by auto
    next
      case False
      then have "find_loop P as (Suc i) (dst[i := a]) = Some (dst', i')" using Cons.prems(1) hit True i by simp
      from Cons.IH [OF this] t i show ?thesis by auto
    qed
  qed
qed

lemma find_loop_empty: "find_loop P as 0 [] = Some (dst', i') \<Longrightarrow> dst' = [] \<and> i' = 0"
  by (induction as) (auto split: bind_splits if_splits)

lemma get_all_grows:
  assumes "malloc_ok E" and "lib_inv s" and "initialized s" and "obj_list s = []"
    and "get_all_token_objects E TEE_SLOT_ID s = Some (rc, s')"
  shows "lib_inv s'" and "grows s s'"
proof -
  note k = get_all_token_objects_keeps [OF assms(1) lib_invD(2) [OF assms(2)] assms(5)]
  show "grows s s'" using k by simp
  show "lib_inv s'" by (rule lib_inv_grows [OF assms(2)]) (use k assms(3,4) in auto)
qed

text \<open>The end of \<open>C_FindObjectsInit\<close>, from a state whose objects are mirrored.\<close>

lemma find_init_tail_fresh:
  assumes "lib_inv s" and "h \<in> set (sess_list s)" and "mem s h = Some (SessionBlk x)" and "mem s a = None" and "a \<noteq> 0"
    and "find_matching_objects a (obj_list s) t n ((mem s)(a \<mapsto> HandleBlk (replicate MAX_FIND_LIST_OBJECTS 0))) = Some (rc, cnt, m)"
  shows "lib_inv (s\<lparr>mallocs := k, mem := m(h \<mapsto> SessionBlk (x\<lparr>find_list := a, find_count := cnt, find_idx := 0, op_active := True\<rparr>))\<rparr>)"
proof -
  let ?x = "x\<lparr>find_list := a, find_count := cnt, find_idx := 0, op_active := True\<rparr>"
  let ?P = "node_matches ((mem s)(a \<mapsto> HandleBlk (replicate MAX_FIND_LIST_OBJECTS 0))) t n"
  obtain dst i where f: "find_loop ?P (obj_list s) 0 (replicate MAX_FIND_LIST_OBJECTS 0) = Some (dst, i)"
    and m: "m = (mem s)(a \<mapsto> HandleBlk dst)" "cnt = of_nat i"
    using assms(6) by (auto simp: find_matching_objects_def split: bind_splits)
  have d: "i \<le> 100" "length dst = 100" "set (take i dst) \<subseteq> set (obj_list s)"
    using find_loop_inv [OF f] by auto
  have ah: "a \<noteq> h" using assms(3,4) by auto
  have u: "unat cnt = i" unfolding m(2) using d(1) by (simp add: unat_of_nat take_bit_nat_eq_self)
  show ?thesis
  proof (rule lib_inv_update [OF assms(1-3)])
    show "find_ok (mem (s\<lparr>mallocs := k, mem := m(h \<mapsto> SessionBlk ?x)\<rparr>)) (obj_list s) ?x"
      using ah m(1) d u assms(5) by (auto simp: find_ok_def)
    show "sign_ok (obj_list s) ?x" "in_slot ?x"
      using lib_inv_session [OF assms(1-3)] by (auto simp: sign_ok_def in_slot_def)
  qed (use m(1) ah assms(4,5) in auto)
qed

lemma find_init_tail_freed:
  assumes "lib_inv s" and "h \<in> set (sess_list s)" and "mem s h = Some (SessionBlk x)" and "\<not> op_active x" and "find_list x \<noteq> 0"
    and "find_matching_objects (find_list x) (obj_list s) t n (mem s) = Some (rc, cnt, m)"
  shows "lib_inv (s\<lparr>mem := m(h \<mapsto> SessionBlk (x\<lparr>find_list := find_list x, find_count := cnt, find_idx := 0, op_active := True\<rparr>))\<rparr>)"
proof -
  have fr: "mem s (find_list x) = Some FreedBlk"
    using lib_inv_session(1) [OF assms(1-3)] assms(4,5) by (auto simp: find_ok_def)
  then have m: "m = mem s" "cnt = 0"
    using assms(6) by (auto simp: find_matching_objects_def split: bind_splits dest: find_loop_empty)
  let ?x = "x\<lparr>find_list := find_list x, find_count := cnt, find_idx := 0, op_active := True\<rparr>"
  have fh: "find_list x \<noteq> h" using fr assms(3) by auto
  show ?thesis
  proof (rule lib_inv_update [OF assms(1-3)])
    show "find_ok (mem (s\<lparr>mem := m(h \<mapsto> SessionBlk ?x)\<rparr>)) (obj_list s) ?x"
      using fr m fh by (auto simp: find_ok_def)
    show "sign_ok (obj_list s) ?x" "in_slot ?x"
      using lib_inv_session [OF assms(1-3)] by (auto simp: sign_ok_def in_slot_def)
  qed (use m fh in auto)
qed

lemma start_search_keeps:
  fixes s s' :: "'t lib"
  assumes "malloc_ok E" and "lib_inv s" and h: "h \<in> set (sess_list s)" "mem s h = Some (SessionBlk x)"
    and "\<not> op_active x" and "start_search E h t n x s = Some (r, s')"
  shows "lib_inv s' \<and> core s' = core s"
proof (cases "find_list x = 0")
  case False
  then obtain rc cnt m where f: "find_matching_objects (find_list x) (obj_list s) (if n = 0 then None else t) n (mem s) = Some (rc, cnt, m)"
    and s': "s' = s\<lparr>mem := m(h \<mapsto> SessionBlk (x\<lparr>find_list := find_list x, find_count := cnt, find_idx := 0, op_active := True\<rparr>))\<rparr>"
    using assms(6) by (auto simp: start_search_def ensure_find_list_def split: bind_splits)
  show ?thesis using find_init_tail_freed [OF assms(2) h assms(5) False f] by (simp add: s' core_def)
next
  case True
  show ?thesis
  proof (cases "malloc E (mallocs s) (dom (mem s))")
    case None
    then have "s' = s\<lparr>mallocs := Suc (mallocs s)\<rparr>"
      using assms(6) True by (simp add: start_search_def ensure_find_list_def do_malloc_def)
    moreover have "lib_inv (s\<lparr>mallocs := Suc (mallocs s)\<rparr>)" by (rule lib_inv_cong [OF assms(2)]) simp_all
    ultimately show ?thesis by (simp add: core_def)
  next
    case (Some a)
    then have a: "mem s a = None" "a \<noteq> 0" using assms(1) by (auto simp: malloc_ok_def)
    obtain rc cnt m where f: "find_matching_objects a (obj_list s) (if n = 0 then None else t) n
          ((mem s)(a \<mapsto> HandleBlk (replicate MAX_FIND_LIST_OBJECTS 0))) = Some (rc, cnt, m)"
      and s': "s' = s\<lparr>mallocs := Suc (mallocs s),
          mem := m(h \<mapsto> SessionBlk (x\<lparr>find_list := a, find_count := cnt, find_idx := 0, op_active := True\<rparr>))\<rparr>"
      using assms(6) True Some by (auto simp: start_search_def ensure_find_list_def do_malloc_def split: bind_splits)
    show ?thesis using find_init_tail_fresh [OF assms(2) h a f] by (simp add: s' core_def)
  qed
qed

lemma search_session_keeps:
  fixes s s' :: "'t lib"
  assumes "malloc_ok E" and "lib_inv s" and "initialized s" and h: "h \<in> set (sess_list s)" "mem s h = Some (SessionBlk x)"
    and "in_slot x" and "search_session E h t n x s = Some (r, s')"
  shows "lib_inv s' \<and> core s' = core s"
proof (cases "op_active x")
  case True
  with assms show ?thesis by (simp add: search_session_def)
next
  case False
  have slot: "si_slotID (session_info x) = TEE_SLOT_ID" using assms(6) by (simp add: in_slot_def)
  then obtain rc s1 where g: "(if obj_list s = [] then get_all_token_objects E TEE_SLOT_ID s else Some (CKR_OK, s)) = Some (rc, s1)"
    and k: "(if rc \<noteq> CKR_OK then Some (rc, s1) else start_search E h t n x s1) = Some (r, s')"
    using assms(7) False unfolding search_session_def get_object_list_def slot
    by (auto simp: get_global_slot_info_def split: bind_splits)
  have s1: "lib_inv s1 \<and> grows s s1"
    using g get_all_grows [OF assms(1-3)] assms(2) by (auto simp: grows_def split: if_splits)
  then have c: "core s1 = core s" "mem s1 h = mem s h" using h(2) by (auto simp: grows_def domI)
  then have "h \<in> set (sess_list s1)" "mem s1 h = Some (SessionBlk x)" using h by (auto simp: core_def)
  from start_search_keeps [OF assms(1) _ this False, of t n r s'] k s1 c(1) show ?thesis by (auto split: if_splits)
qed

lemma find_objects_init_body_keeps:
  assumes "malloc_ok E" and "lib_inv s" and "initialized s" and "find_objects_init_body E h t n s = Some (r, s')"
  shows "lib_inv s' \<and> core s' = core s"
proof (cases "t = None \<and> 0 < n")
  case True
  with assms show ?thesis by (simp add: find_objects_init_body_def)
next
  case False
  then have "with_session h CKR_SESSION_HANDLE_INVALID (search_session E h t n) s = Some (r, s')"
    using assms(4) by (auto simp: find_objects_init_body_def split: if_splits)
  then show ?thesis
    by (cases rule: with_session_cases) (use assms(2) search_session_keeps [OF assms(1-3)] in auto)
qed

lemma advance_le: "(c :: 'a::len word) \<le> n - i \<Longrightarrow> i \<le> n \<Longrightarrow> i + c \<le> n"
proof -
  assume "c \<le> n - i" "i \<le> n"
  then have "unat i + unat c \<le> unat n" by (simp add: word_le_nat_alt unat_sub)
  moreover have "unat n < 2 ^ LENGTH('a)" by (rule unsigned_less)
  moreover from calculation have "unat i + unat c < 2 ^ LENGTH('a)" by linarith
  ultimately show ?thesis by (simp add: word_le_nat_alt unat_word_ariths)
qed

lemma find_objects_body_keeps:
  assumes "lib_inv s" and "find_objects_body h ob mx n s = Some (r, s')"
  shows "lib_inv s' \<and> core s' = core s"
  using assms(2) unfolding find_objects_body_def
proof (cases rule: with_session_cases)
  case 1
  with assms(1) show ?thesis by simp
next
  case (2 x)
  define c where "c = min mx (find_count x - find_idx x)"
  consider "s' = s" | "s' = s\<lparr>mem := (mem s)(h \<mapsto> SessionBlk (x\<lparr>find_idx := find_idx x + c\<rparr>))\<rparr>"
    using 2(4) by (auto simp: c_def Let_def split: if_splits option.splits bind_splits)
  then show ?thesis
  proof cases
    case 1
    with assms(1) show ?thesis by simp
  next
    case s': 2
    note ok = lib_inv_session [OF assms(1) 2(1,2)]
    have le: "find_idx x \<le> find_count x" using ok(1) by (simp add: find_ok_def)
    have c: "c \<le> find_count x - find_idx x" by (simp add: c_def)
    then have "find_idx x + c \<le> find_count x"
      using le by (metis advance_le)
    moreover have "find_list x \<noteq> h" if "find_list x \<noteq> 0"
      using find_list_block(1) [OF ok(1) that] 2(2) by auto
    ultimately have "lib_inv s'"
      by (intro lib_inv_update [OF assms(1) 2(1,2), of s' "x\<lparr>find_idx := find_idx x + c\<rparr>"])
        (use ok in \<open>auto simp: s' core_def find_ok_def sign_ok_def in_slot_def\<close>)
    then show ?thesis by (simp add: s' core_def)
  qed
qed

lemma find_objects_final_body_keeps:
  assumes "lib_inv s" and "find_objects_final_body h s = Some (r, s')"
  shows "lib_inv s' \<and> core s' = core s"
  using assms(2) unfolding find_objects_final_body_def
proof (cases rule: with_session_cases)
  case 1
  with assms(1) show ?thesis by simp
next
  case (2 x)
  let ?x = "x\<lparr>op_active := False, find_count := 0, find_idx := 0\<rparr>"
  have m: "free_block a m = Some m' \<Longrightarrow> m'(h \<mapsto> b) = m(a \<mapsto> FreedBlk, h \<mapsto> b)" for a m m' b
    by (drule free_block_SomeD) simp
  consider "s' = s" | "find_list x = 0" "s' = s\<lparr>mem := (mem s)(h \<mapsto> SessionBlk ?x)\<rparr>"
    | "find_list x \<noteq> 0" "s' = s\<lparr>mem := (mem s)(find_list x \<mapsto> FreedBlk, h \<mapsto> SessionBlk ?x)\<rparr>"
  proof (cases "op_active x")
    case False
    with 2(4) that(1) show thesis by simp
  next
    case active: True
    show thesis
    proof (cases "find_list x = 0")
      case True
      with active 2(4) that(2) show thesis by simp
    next
      case False
      with active 2(4) obtain m' where "free_block (find_list x) (mem s) = Some m'"
          "s' = s\<lparr>mem := m'(h \<mapsto> SessionBlk ?x)\<rparr>"
        by (simp split: bind_splits)
      with False that(3) m show thesis by simp
    qed
  qed
  then show ?thesis
  proof cases
    case 1
    with assms(1) show ?thesis by simp
  next
    case s': 2
    have "lib_inv s'"
      by (intro lib_inv_update [OF assms(1) 2(1,2), of s' ?x])
        (use lib_inv_session [OF assms(1) 2(1,2)] in \<open>auto simp: s' core_def find_ok_def sign_ok_def in_slot_def\<close>)
    then show ?thesis by (simp add: s' core_def)
  next
    case s': 3
    note ok = lib_inv_session [OF assms(1) 2(1,2)]
    have "find_list x \<noteq> h" using find_list_block(1) [OF ok(1) s'(1)] 2(2) by auto
    then have "lib_inv s'"
      by (intro lib_inv_update [OF assms(1) 2(1,2), of s' ?x])
        (use ok in \<open>auto simp: s' core_def find_ok_def sign_ok_def in_slot_def\<close>)
    then show ?thesis by (simp add: s' core_def)
  qed
qed

lemma sign_attributes_quiet: "sign_attributes E h key s = Some (r, s') \<Longrightarrow> quiet s s'"
  by (auto simp: sign_attributes_def do_malloc_def quiet_def Let_def split: bind_splits if_splits option.splits prod.splits)

lemma sign_checks_mechanism:
  "sign_checks mech attr = Some CKR_OK \<Longrightarrow> mechanism mech \<in> set sign_mechanisms"
  by (auto simp: sign_checks_def split: bind_splits if_splits)

lemma sign_init_cases:
  assumes "mem s h = Some (SessionBlk x)" and "sign_init E h mech rec key s = Some (rc, s')"
  obtains "quiet s s'"
  | s1 c where "quiet s s1" "ctx_key c = key" "mechanism (ctx_mech c) \<in> set sign_mechanisms"
      "s' = s1\<lparr>mem := (mem s1)(h \<mapsto> SessionBlk (x\<lparr>sign_ctx := c\<rparr>))\<rparr>"
proof (cases "ctx_active (sign_ctx x)")
  case True
  with assms that(1) show thesis by (simp add: sign_init_def)
next
  case False
  then obtain r s1 where a: "sign_attributes E h key s = Some (r, s1)"
    using assms by (auto simp: sign_init_def split: bind_splits)
  note q = sign_attributes_quiet [OF a]
  show thesis
  proof (cases r)
    case (Inl e)
    with assms False a q that(1) show thesis by (simp add: sign_init_def)
  next
    case (Inr attr)
    with assms False a obtain c where c: "sign_checks mech attr = Some c" by (auto simp: sign_init_def split: bind_splits)
    show thesis
    proof (cases "c = CKR_OK")
      case False
      with assms \<open>\<not> ctx_active (sign_ctx x)\<close> a Inr c q that(1) show thesis by (simp add: sign_init_def)
    next
      case True
      have "s' = s1\<lparr>mem := (mem s1)(h \<mapsto> SessionBlk (x\<lparr>sign_ctx := (sign_ctx x)
          \<lparr>ctx_key := key,
           ctx_mech := \<lparr>mechanism = mechanism mech, pParameter = None, ulParameterLen = ulParameterLen mech\<rparr>,
           ctx_context := None, ctx_context_len := 0, ctx_multi := False, ctx_active := True,
           ctx_recover := rec\<rparr>\<rparr>))\<rparr>"
        using assms False a Inr c True by (simp add: sign_init_def)
      then show thesis by (rule that(2) [OF q, rotated 2]) (use sign_checks_mechanism c True in simp_all)
    qed
  qed
qed

lemma lib_inv_quiet: "lib_inv s \<Longrightarrow> quiet s s' \<Longrightarrow> lib_inv s'"
  by (rule lib_inv_cong) (auto simp: quiet_def core_def)

text \<open>Only the signature context of one session changes.\<close>

lemma lib_inv_sign_ctx:
  fixes s s' :: "'t lib"
  assumes "lib_inv s" and h: "h \<in> set (sess_list s)" "mem s h = Some (SessionBlk x)"
    and "core s' = core s" and "obj_list s' = obj_list s" and m: "mem s' = (mem s)(h \<mapsto> SessionBlk (x\<lparr>sign_ctx := c\<rparr>))"
    and "sign_ok (obj_list s) (x\<lparr>sign_ctx := c\<rparr>)"
  shows "lib_inv s'"
proof -
  note ok = lib_inv_session [OF assms(1) h]
  have "find_list x \<noteq> h" if "find_list x \<noteq> 0" using find_list_block(1) [OF ok(1) that] h(2) by auto
  then have "find_ok (mem s') (obj_list s) (x\<lparr>sign_ctx := c\<rparr>)" using ok(1) by (auto simp: find_ok_def m)
  then show ?thesis
    by (intro lib_inv_update [OF assms(1) h assms(4,5), of "x\<lparr>sign_ctx := c\<rparr>"])
      (use ok(3) assms(7) in \<open>auto simp: m in_slot_def\<close>)
qed

lemma sign_init_body_keeps:
  assumes "lib_inv s" and "sign_init_body E h mech key s = Some (r, s')"
  shows "lib_inv s' \<and> core s' = core s"
proof (cases mech)
  case None
  with assms show ?thesis by (simp add: sign_init_body_def)
next
  case (Some mc)
  let ?k = "\<lambda>sess s. if \<not> is_object_handle_valid s key (si_slotID (session_info sess)) then Some (CKR_OBJECT_HANDLE_INVALID, s)
          else sign_init E h mc False key s"
  have "with_session h CKR_SESSION_HANDLE_INVALID ?k s = Some (r, s')" using assms(2) Some by (simp add: sign_init_body_def)
  then show ?thesis
  proof (cases rule: with_session_cases)
    case 1
    with assms(1) show ?thesis by simp
  next
    case (2 x)
    show ?thesis
    proof (cases "is_object_handle_valid s key (si_slotID (session_info x))")
      case False
      with 2(4) assms(1) show ?thesis by simp
    next
      case True
      then have key: "key \<in> set (obj_list s)"
        by (auto simp: is_object_handle_valid_def get_object_list_def split: option.splits if_splits)
      from True 2(4) have i: "sign_init E h mc False key s = Some (r, s')" by simp
      show ?thesis
      proof (cases rule: sign_init_cases [OF 2(2) i])
        case 1
        with assms(1) lib_inv_quiet show ?thesis by (auto simp: quiet_def)
      next
        case s1: (2 s1 c)
        have "lib_inv s'"
          by (rule lib_inv_sign_ctx [OF assms(1) 2(1,2), of _ c])
            (use s1 key in \<open>auto simp: quiet_def sign_ok_def core_def\<close>)
        with s1 show ?thesis by (auto simp: quiet_def core_def)
      qed
    qed
  qed
qed

lemma sign_body_keeps:
  assumes "lib_inv s" and "sign_body E h pData n pSig len s = Some (r, s')"
  shows "lib_inv s' \<and> core s' = core s"
proof (cases "len = None \<or> pData = None")
  case True
  with assms show ?thesis by (auto simp: sign_body_def split: option.splits)
next
  case False
  then obtain k d where k: "len = Some k" "pData = Some d" by (cases len; cases pData) simp_all
  have "with_session h (CKR_SESSION_HANDLE_INVALID, pSig, len) (\<lambda>sess s. do {
            ((rc, out, n), s1) \<leftarrow> sign E h pData n pSig k s;
            Some ((rc, out, Some n), s1) }) s = Some (r, s')"
    using assms(2) k by (simp add: sign_body_def)
  then show ?thesis
  proof (cases rule: with_session_cases)
    case 1
    with assms(1) show ?thesis by simp
  next
    case (2 x)
    then obtain rc out m where "sign E h pData n pSig k s = Some ((rc, out, m), s')" by (auto split: bind_splits)
    note f = sign_frame [OF 2(2) this]
    have same: "lib_inv s'" if "mem s' = mem s" by (rule lib_inv_cong [OF assms(1)]) (use f that in \<open>auto simp: core_def\<close>)
    have "lib_inv s'" if "mem s' \<noteq> mem s"
      by (rule lib_inv_sign_ctx [OF assms(1) 2(1,2), of _ "cleared_context (sign_ctx x)"])
        (use f that in \<open>auto simp: sign_ok_def cleared_context_def split: if_splits\<close>)
    with same f show ?thesis by blast
  qed
qed

section \<open>The entry points meet the contract\<close>

text \<open>The invariant under which an entry point runs: the library's, in an environment whose allocator is sound.\<close>

definition api_inv :: "'t env \<Rightarrow> 't lib \<Rightarrow> bool" where
  "api_inv E s \<longleftrightarrow> malloc_ok E \<and> lib_inv s"

lemma api_bodyI:
  assumes "\<And>s r s'. malloc_ok E \<Longrightarrow> lib_inv s \<Longrightarrow> initialized s \<Longrightarrow> body s = Some (r, s') \<Longrightarrow>
     lib_inv s' \<and> global_lock s' = global_lock s \<and> global_locking s' = global_locking s"
  shows "api_body (api_inv E) body"
proof
  show "api_inv E (relock l n s) \<longleftrightarrow> api_inv E s" for l n s by (simp add: api_inv_def lib_inv_relock)
qed (use assms in \<open>auto simp: api_inv_def\<close>)

lemma api_bodyI_core:
  assumes "\<And>s r s'. malloc_ok E \<Longrightarrow> lib_inv s \<Longrightarrow> initialized s \<Longrightarrow> body s = Some (r, s') \<Longrightarrow>
     lib_inv s' \<and> core s' = core s"
  shows "api_body (api_inv E) body"
  by (rule api_bodyI) (use assms core_lock in blast)

interpretation get_info: api_body "api_inv E" get_info_body for E
  by (rule api_bodyI, rule conjI, erule lib_inv_cong) (auto simp: get_info_body_def Let_def)

interpretation get_slot_list: api_body "api_inv E" "get_slot_list_body l n" for E l n
  by (rule api_bodyI, rule conjI, erule lib_inv_cong) (auto dest: slot_bodies_frame(1))

interpretation info: api_body "api_inv E" "info_body i slotID get" for E i slotID get
  by (rule api_bodyI) (auto dest: slot_bodies_frame(2))

interpretation get_mechanism_list: api_body "api_inv E" "get_mechanism_list_body slotID l n" for E slotID l n
  by (rule api_bodyI) (auto dest: slot_bodies_frame(3))

interpretation open_session: api_body "api_inv E" "open_session_body E slotID flags ph" for E slotID flags ph
  by (rule api_bodyI) (rule open_session_body_keeps)

interpretation close_session: api_body "api_inv E" "close_session_body h" for E h
  by (rule api_bodyI) (rule close_session_body_keeps)

interpretation close_all_sessions: api_body "api_inv E" "destroy_session_list slotID" for E slotID
  by (rule api_bodyI) (rule destroy_session_list_keeps)

interpretation get_session_info: api_body "api_inv E" "get_session_info_body h i" for E h i
  by (rule api_bodyI) (auto dest: slot_bodies_frame(4))

interpretation get_attribute_value: api_body "api_inv E" "get_attribute_value_body h ob t c" for E h ob t c
  by (rule api_bodyI) (auto dest: slot_bodies_frame(5))

interpretation find_objects_init: api_body "api_inv E" "find_objects_init_body E h t n" for E h t n
  by (rule api_bodyI_core) (rule find_objects_init_body_keeps)

interpretation find_objects: api_body "api_inv E" "find_objects_body h ob mx n" for E h ob mx n
  by (rule api_bodyI_core) (rule find_objects_body_keeps)

interpretation find_objects_final: api_body "api_inv E" "find_objects_final_body h" for E h
  by (rule api_bodyI_core) (rule find_objects_final_body_keeps)

interpretation sign_init: api_body "api_inv E" "sign_init_body E h mech key" for E h mech key
  by (rule api_bodyI_core) (rule sign_init_body_keeps)

interpretation sign: api_body "api_inv E" "sign_body E h pData n pSig len" for E h pData n pSig len
  by (rule api_bodyI_core) (rule sign_body_keeps)

end
