(* ===== verification/Api_Machine.thy ===== *)
theory Api_Machine
  imports Library_Inv
begin

text \<open>
  The library as a state machine. \<open>api_step\<close> has one rule per entry point that can change the state;
  the invariant of \<open>Library_Inv\<close> and the idle lock hold in every state that calls can reach from the
  loaded library. \<open>Api_Protocol\<close> states what an application sees of it.
\<close>

section \<open>Initialisation and finalisation\<close>

lemma lib_inv_empty: "sess_list s = [] \<Longrightarrow> obj_list s = [] \<Longrightarrow> lib_inv s"
  by (simp add: lib_inv_def sess.wf_def obj.wf_def sessions_ok_def find_lists_apart_def)

lemma p11_init_lock_frame:
  assumes "p11_init_lock E a s = (rc, s')" and "lock_idle s"
  shows "lock_idle s' \<and> initialized s' = initialized s \<and> sess_list s' = sess_list s \<and> obj_list s' = obj_list s \<and>
    mem s' = mem s \<and> (\<exists>l g k. s' = s\<lparr>global_lock := l, global_locking := g, mallocs := k\<rparr>)"
proof (cases "global_lock s = None")
  case False
  with assms show ?thesis
    by (auto simp: p11_init_lock_def intro!: exI [of _ "global_lock s"] exI [of _ "global_locking s"] exI [of _ "mallocs s"])
next
  case True
  have "\<exists>l g k. s' = s\<lparr>global_lock := l, global_locking := g, mallocs := k\<rparr> \<and> l \<noteq> Some True \<and> (l \<noteq> None \<longrightarrow> g \<noteq> None)"
  proof (cases a)
    case None
    then have "s' = s\<lparr>global_locking := None\<rparr>" using assms(1) True by (simp add: p11_init_lock_def)
    then show ?thesis using True
      by (intro exI [of _ None] exI [of _ None] exI [of _ "mallocs s"]) simp
  next
    case (Some c)
    let ?bad = "pReserved c \<or> functions_map c \<noteq> 0 \<and> functions_map c \<noteq> 15"
    have "s' = s\<lparr>global_lock := global_lock s', global_locking := global_locking s', mallocs := mallocs s'\<rparr> \<and>
        global_lock s' \<noteq> Some True \<and> (global_lock s' \<noteq> None \<longrightarrow> global_locking s' \<noteq> None)"
    proof (cases ?bad)
      case bad: True
      then have "s' = s\<lparr>global_locking := None\<rparr>"
        using assms(1) True Some by (cases "pReserved c") (simp_all add: p11_init_lock_def)
      with True show ?thesis by simp
    next
      case good: False
      show ?thesis
      proof (cases "choose_locking c")
        case None
        then have "s' = s\<lparr>global_locking := None\<rparr>" using assms(1) True Some good by (simp add: p11_init_lock_def split: if_splits)
        with True show ?thesis by simp
      next
        case l: (Some l)
        let ?s1 = "s\<lparr>global_locking := Some l\<rparr>"
        have "s' \<in> {?s1, ?s1\<lparr>mallocs := Suc (mallocs s)\<rparr>, ?s1\<lparr>mallocs := Suc (mallocs s), global_lock := Some False\<rparr>,
            ?s1\<lparr>global_lock := Some False\<rparr>}"
          using assms(1) True Some good l
          by (cases l; cases "app_CreateMutex E"; cases "malloc E (mallocs s) (dom (mem s))")
            (auto simp: p11_init_lock_def create_mutex_def do_malloc_def Let_def split: if_splits)
        with True show ?thesis by auto
      qed
    qed
    then show ?thesis by blast
  qed
  then show ?thesis by (auto simp: lock_idle_def)
qed


text \<open>The slot's pointers are set as far as the loader got; the lists are made empty.\<close>

lemma initialize_slot_cases:
  "initialize_slot E TEE_SLOT_ID s =
     (if \<not> dlopen E then (CKR_GENERAL_ERROR, s)
      else if \<not> dlsym E \<or> SK_GetFunctionList_rc E \<noteq> SKR_OK then (CKR_GENERAL_ERROR, s\<lparr>shared_lib_handle := True\<rparr>)
      else (CKR_OK, s\<lparr>shared_lib_handle := True, sk_funcs := True, obj_list := [], sess_list := []\<rparr>))"
  by (simp add: initialize_slot_def get_function_list_def initialize_object_list_def initialize_session_list_def
      get_object_list_def get_session_list_def get_global_slot_info_def)

definition slot_loaded :: "'t env \<Rightarrow> bool" where
  "slot_loaded E \<longleftrightarrow> dlopen E \<and> dlsym E \<and> SK_GetFunctionList_rc E = SKR_OK"

definition marked :: "'t env \<Rightarrow> 't lib \<Rightarrow> 't lib" where
  "marked E s = s\<lparr>initialized := True, shared_lib_handle := shared_lib_handle s \<or> dlopen E,
     sk_funcs := sk_funcs s \<or> slot_loaded E\<rparr>"

lemma initialize_slot_marked:
  assumes "sess_list s = []" and "obj_list s = []"
  shows "initialize_slot E TEE_SLOT_ID (pkcs_lib_init s) = (if slot_loaded E then CKR_OK else CKR_GENERAL_ERROR, marked E s)"
  using assms by (cases s) (auto simp: initialize_slot_cases slot_loaded_def marked_def pkcs_lib_init_def)

lemma free_lock_held:
  assumes "callbacks_progress E" and "lock_idle s" and "global_lock s' = map_option (\<lambda>_. True) (global_lock s)"
    and "global_locking s' = global_locking s"
  shows "\<exists>n. p11_free_lock E s' = Some (relock None n s')"
  using assms(2)
proof (cases rule: lock_idle_cases)
  case 1
  with assms(3) relock_same [of s'] show ?thesis by (intro exI [of _ "callbacks s'"]) (simp add: p11_free_lock_def)
next
  case 2
  with assms(3,4) show ?thesis
    by (intro exI [of _ "callbacks s'"]) (simp add: p11_free_lock_def unlock_given_def unlock_mutex_def relock_def)
next
  case 3
  obtain k where "spin (app_UnlockMutex E) (callbacks s') = Some k" using spin_unlock [OF assms(1)] by blast
  with 3 assms(3,4) show ?thesis by (intro exI [of _ k]) (simp add: p11_free_lock_def unlock_given_def relock_def)
qed

text \<open>\<open>C_Initialize\<close> once the lock is made: it returns, and the slot decides the outcome.\<close>

lemma C_Initialize_outcome:
  assumes "callbacks_progress E" and "lock_idle s" and "lib_inv s" and "\<not> initialized s"
    and i: "p11_init_lock E a s = (rc, s1)"
  shows "\<exists>n. C_Initialize E a s = Some (if rc \<noteq> CKR_OK then (rc, s1)
     else if slot_loaded E then (CKR_OK, relock (global_lock s1) n (marked E s1))
     else (CKR_GENERAL_ERROR, relock None n (marked E s1)))"
proof (cases "rc = CKR_OK")
  case False
  with assms show ?thesis by (simp add: C_Initialize_def is_lib_initialized_def)
next
  case True
  note f = p11_init_lock_frame [OF i assms(2)]
  have e: "sess_list s1 = []" "obj_list s1 = []" using f assms(3,4) by (auto simp: lib_inv_def)
  let ?l = "map_option (\<lambda>_. True) (global_lock s1)"
  obtain n where l: "p11_global_lock E s1 = Some (relock ?l n s1)"
    using lock_total [OF assms(1)] f by blast
  let ?s4 = "marked E (relock ?l n s1)"
  have sl: "initialize_slot E TEE_SLOT_ID (pkcs_lib_init (relock ?l n s1)) = (if slot_loaded E then CKR_OK else CKR_GENERAL_ERROR, ?s4)"
    by (rule initialize_slot_marked) (simp_all add: e)
  have k: "global_lock ?s4 = ?l" "global_locking ?s4 = global_locking s1" by (simp_all add: marked_def)
  have m: "relock x y ?s4 = relock x y (marked E s1)" for x y by (simp add: marked_def relock_def)
  show ?thesis
  proof (cases "slot_loaded E")
    case ok: True
    obtain n' where "p11_global_unlock E ?s4 = Some (relock (global_lock s1) n' ?s4)"
      using unlock_total [OF assms(1) _ k] f by blast
    then show ?thesis using True ok i l sl assms(4) m
      by (intro exI [of _ n']) (simp add: C_Initialize_def is_lib_initialized_def)
  next
    case bad: False
    obtain n' where fr: "p11_free_lock E ?s4 = Some (relock None n' ?s4)"
      using free_lock_held [OF assms(1) _ k] f by blast
    have "p11_global_unlock E (relock None n' ?s4) = Some (relock None n' ?s4)"
      by (simp add: p11_global_unlock_def unlock_given_def relock_def)
    then show ?thesis using True bad i l sl fr assms(4) m
      by (intro exI [of _ n']) (simp add: C_Initialize_def is_lib_initialized_def)
  qed
qed

lemma C_Initialize_keeps:
  assumes "callbacks_progress E" and "lock_idle s" and "lib_inv s" and "C_Initialize E a s = Some (r, s')"
  shows "lib_inv s' \<and> lock_idle s'"
proof (cases "initialized s")
  case True
  with assms show ?thesis by (simp add: C_Initialize_def is_lib_initialized_def)
next
  case False
  obtain rc s1 where i: "p11_init_lock E a s = (rc, s1)" by fastforce
  note f = p11_init_lock_frame [OF i assms(2)]
  have e: "sess_list s1 = []" "obj_list s1 = []" using f assms(3) False by (auto simp: lib_inv_def)
  obtain n where n: "C_Initialize E a s = Some (if rc \<noteq> CKR_OK then (rc, s1)
     else if slot_loaded E then (CKR_OK, relock (global_lock s1) n (marked E s1))
     else (CKR_GENERAL_ERROR, relock None n (marked E s1)))"
    using C_Initialize_outcome [OF assms(1-3) False i] by blast
  have "lib_inv s'" by (rule lib_inv_empty) (use n e assms(4) in \<open>auto simp: marked_def split: if_splits\<close>)
  moreover have "lock_idle s'" using n f assms(4) by (auto simp: marked_def lock_idle_def split: if_splits)
  ultimately show ?thesis ..
qed

text \<open>\<open>C_Finalize\<close> always returns between calls, and frees every session and every object.\<close>

definition all_freed :: "'t lib \<Rightarrow> heap" where
  "all_freed s = (\<lambda>a. if a \<in> set (sess_list s) \<union> set (obj_list s) then Some FreedBlk else mem s a)"

lemma destroy_slot_eq:
  assumes "lib_inv s"
  shows "destroy_slot TEE_SLOT_ID s = Some (CKR_OK, s\<lparr>obj_list := [], sess_list := [], mem := all_freed s\<rparr>)"
proof -
  let ?m = "\<lambda>a. if a \<in> set (obj_list s) then Some FreedBlk else mem s a"
  have ol: "mem s a \<noteq> None \<and> mem s a \<noteq> Some FreedBlk \<and> session_of (mem s a) = None" if "a \<in> set (obj_list s)" for a
    by (rule object_live [OF lib_invD(2) [OF assms] that]) simp
  have sl: "mem s a \<noteq> None \<and> mem s a \<noteq> Some FreedBlk \<and> session_of (mem s a) \<noteq> None" if "a \<in> set (sess_list s)" for a
    by (rule session_live [OF lib_invD(1) [OF assms] that]) simp
  have d: "distinct (obj_list s)" "distinct (sess_list s)"
    using lib_invD(1,2) [OF assms] by (simp_all add: obj.wf_def sess.wf_def)
  have o: "free_all (obj_list s) (mem s) = Some ?m" by (rule free_all_live [OF d(1)]) (use ol in blast)
  have "free_all (sess_list s) ?m = Some (\<lambda>a. if a \<in> set (sess_list s) then Some FreedBlk else ?m a)"
  proof (rule free_all_live [OF d(2)])
    fix a
    assume "a \<in> set (sess_list s)"
    then have "?m a = mem s a" "mem s a \<noteq> None \<and> mem s a \<noteq> Some FreedBlk" using sl ol by metis+
    then show "?m a \<noteq> None \<and> ?m a \<noteq> Some FreedBlk" by simp
  qed
  moreover have "(\<lambda>a. if a \<in> set (sess_list s) then Some FreedBlk else ?m a) = all_freed s"
    by (auto simp: all_freed_def fun_eq_iff)
  ultimately show ?thesis using o
    by (simp add: destroy_slot_def destroy_object_list_def destroy_session_list_def get_object_list_def
        get_session_list_def get_global_slot_info_def)
qed

lemma C_Finalize_outcome:
  assumes "callbacks_progress E" and "lock_idle s" and "lib_inv s"
  shows "\<exists>n. C_Finalize E False s = Some (if initialized s
     then (CKR_OK, relock None n (s\<lparr>initialized := False, obj_list := [], sess_list := [], mem := all_freed s\<rparr>))
     else (CKR_CRYPTOKI_NOT_INITIALIZED, relock None n s))"
proof -
  let ?l = "map_option (\<lambda>_. True) (global_lock s)"
  obtain n where l: "p11_global_lock E s = Some (relock ?l n s)" using lock_total [OF assms(1,2)] by blast
  let ?s1 = "relock ?l n s"
  let ?s2 = "if initialized s then pkcs_lib_finish (?s1\<lparr>obj_list := [], sess_list := [], mem := all_freed ?s1\<rparr>) else ?s1"
  have d: "destroy_slot TEE_SLOT_ID ?s1 = Some (CKR_OK, ?s1\<lparr>obj_list := [], sess_list := [], mem := all_freed ?s1\<rparr>)"
    by (rule destroy_slot_eq) (simp add: lib_inv_relock assms(3))
  have "global_lock ?s2 = ?l" "global_locking ?s2 = global_locking s" by (simp_all add: pkcs_lib_finish_def)
  then obtain n' where "p11_free_lock E ?s2 = Some (relock None n' ?s2)" using free_lock_held [OF assms(1,2)] by blast
  moreover have "all_freed ?s1 = all_freed s" by (simp add: all_freed_def fun_eq_iff)
  ultimately show ?thesis using l d
    by (intro exI [of _ n'], cases "initialized s")
      (simp_all add: C_Finalize_def is_lib_initialized_def pkcs_lib_finish_def relock_def)
qed

lemma C_Finalize_keeps:
  assumes "callbacks_progress E" and "lock_idle s" and "lib_inv s" and "C_Finalize E reserved s = Some (r, s')"
  shows "lib_inv s' \<and> lock_idle s'"
proof (cases reserved)
  case True
  with assms show ?thesis by (simp add: C_Finalize_def)
next
  case False
  then have f: "C_Finalize E False s = Some (r, s')" using assms(4) by simp
  obtain n where "C_Finalize E False s = Some (if initialized s
     then (CKR_OK, relock None n (s\<lparr>initialized := False, obj_list := [], sess_list := [], mem := all_freed s\<rparr>))
     else (CKR_CRYPTOKI_NOT_INITIALIZED, relock None n s))"
    using C_Finalize_outcome [OF assms(1-3)] by blast
  with f have "s' = (if initialized s
     then relock None n (s\<lparr>initialized := False, obj_list := [], sess_list := [], mem := all_freed s\<rparr>) else relock None n s)"
    by (auto split: if_splits)
  then show ?thesis using assms(3) by (auto simp: lib_inv_relock lock_idle_def intro: lib_inv_empty)
qed


section \<open>The state machine\<close>

inductive api_step :: "'t env \<Rightarrow> 't lib \<Rightarrow> 't lib \<Rightarrow> bool" for E :: "'t env" where
  Initialize: "C_Initialize E pInitArgs s = Some (rc, s') \<Longrightarrow> api_step E s s'"
| Finalize: "C_Finalize E reserved s = Some (rc, s') \<Longrightarrow> api_step E s s'"
| GetInfo: "C_GetInfo E info s = Some (r, s') \<Longrightarrow> api_step E s s'"
| GetSlotList: "C_GetSlotList E present l n s = Some (r, s') \<Longrightarrow> api_step E s s'"
| GetSlotInfo: "C_GetSlotInfo E slotID slot_info s = Some (r, s') \<Longrightarrow> api_step E s s'"
| GetTokenInfo: "C_GetTokenInfo E slotID token_info s = Some (r, s') \<Longrightarrow> api_step E s s'"
| GetMechanismList: "C_GetMechanismList E slotID ms n s = Some (r, s') \<Longrightarrow> api_step E s s'"
| GetMechanismInfo: "C_GetMechanismInfo E slotID ty mech_info s = Some (r, s') \<Longrightarrow> api_step E s s'"
| OpenSession: "C_OpenSession E slotID flags ph s = Some (r, s') \<Longrightarrow> api_step E s s'"
| CloseSession: "C_CloseSession E h s = Some (rc, s') \<Longrightarrow> api_step E s s'"
| CloseAllSessions: "C_CloseAllSessions E slotID s = Some (rc, s') \<Longrightarrow> api_step E s s'"
| GetSessionInfo: "C_GetSessionInfo E h session_inf s = Some (r, s') \<Longrightarrow> api_step E s s'"
| GetAttributeValue: "C_GetAttributeValue E h ob t n s = Some (r, s') \<Longrightarrow> api_step E s s'"
| FindObjectsInit: "C_FindObjectsInit E h t n s = Some (rc, s') \<Longrightarrow> api_step E s s'"
| FindObjects: "C_FindObjects E h obs mx cnt s = Some (r, s') \<Longrightarrow> api_step E s s'"
| FindObjectsFinal: "C_FindObjectsFinal E h s = Some (rc, s') \<Longrightarrow> api_step E s s'"
| SignInit: "C_SignInit E h mech key s = Some (rc, s') \<Longrightarrow> api_step E s s'"
| Sign: "C_Sign E h pData dlen pSig slen s = Some (r, s') \<Longrightarrow> api_step E s s'"

inductive reachable :: "'t env \<Rightarrow> 't lib \<Rightarrow> bool" for E :: "'t env" where
  loaded: "reachable E (initial_lib t)"
| step: "reachable E s \<Longrightarrow> api_step E s s' \<Longrightarrow> reachable E s'"

lemmas api_defs = C_GetSlotList_def C_GetSlotInfo_def C_GetTokenInfo_def C_GetMechanismList_def C_GetMechanismInfo_def
  C_OpenSession_def C_CloseSession_def C_CloseAllSessions_def C_GetSessionInfo_def C_GetAttributeValue_def
  C_FindObjectsInit_def C_FindObjects_def C_FindObjectsFinal_def C_SignInit_def C_Sign_def

lemmas api_keeps = get_slot_list.keeps info.keeps get_mechanism_list.keeps open_session.keeps close_session.keeps
  close_all_sessions.keeps get_session_info.keeps get_attribute_value.keeps find_objects_init.keeps find_objects.keeps
  find_objects_final.keeps sign_init.keeps sign.keeps

lemma api_step_keeps:
  assumes "callbacks_progress E" and "malloc_ok E" and "api_step E s s'" and "lib_inv s \<and> lock_idle s"
  shows "lib_inv s' \<and> lock_idle s'"
proof -
  have i: "lock_idle s" "api_inv E s" and f: "lib_inv s" using assms(2,4) by (simp_all add: api_inv_def)
  note k = api_keeps [OF assms(1) i, unfolded api_inv_def]
  from assms(3) show ?thesis
  proof cases
    case (Initialize a rc)
    then show ?thesis by (rule C_Initialize_keeps [OF assms(1) i(1) f])
  next
    case (Finalize reserved rc)
    then show ?thesis by (rule C_Finalize_keeps [OF assms(1) i(1) f])
  next
    case (GetInfo n r)
    then show ?thesis
      using get_info.keeps [OF assms(1) i, unfolded api_inv_def] assms(4) by (auto simp: C_GetInfo_def split: if_splits)
  qed (unfold api_defs, (drule k, simp)+)
qed

lemma reachable_keeps:
  assumes "callbacks_progress E" and "malloc_ok E" and "reachable E s"
  shows "lib_inv s \<and> lock_idle s"
  using assms(3)
proof induction
  case (loaded t)
  then show ?case by (simp add: lib_inv_empty initial_lib_def lock_idle_def)
next
  case (step s s')
  show ?case by (rule api_step_keeps [OF assms(1,2) step.hyps(2) step.IH])
qed

end
