(* ===== verification/Api_Protocol.thy ===== *)
theory Api_Protocol
  imports Api_Machine
begin

text \<open>
  What an application sees of the library across calls: the search protocol, handles, refusal
  before initialisation, initialisation and finalisation, sessions, and the safety of every
  sequence of calls. Every statement is about the entry points themselves, lock included.
\<close>

section \<open>Searches\<close>

lemma with_session_live:
  assumes "lib_inv s" and "h \<in> set (sess_list s)" and "mem s h = Some (SessionBlk x)"
  shows "with_session h invalid k (relock l n s) = k x (relock l n s)"
  using assms lib_inv_session(3) [OF assms] by (simp add: with_session_def is_session_valid_eq get_session_eq)

text \<open>A search that still has to return the handles \<open>rest\<close>.\<close>

definition pending :: "'t lib \<Rightarrow> CK_SESSION_HANDLE \<Rightarrow> CK_OBJECT_HANDLE list \<Rightarrow> bool" where
  "pending s h rest \<longleftrightarrow> h \<in> set (sess_list s) \<and> (\<exists>x l. mem s h = Some (SessionBlk x) \<and> op_active x \<and>
     mem s (find_list x) = Some (HandleBlk l) \<and> find_list x \<noteq> 0 \<and> length l = MAX_FIND_LIST_OBJECTS \<and>
     find_idx x \<le> find_count x \<and> unat (find_count x) \<le> MAX_FIND_LIST_OBJECTS \<and>
     drop (unat (find_idx x)) (take (unat (find_count x)) l) = rest)"

lemma copy_handles_pending:
  assumes "handles_of (m fl) = Some l" and "c \<le> n" and "n \<le> length l" and "i + c \<le> n" and "c \<le> length dst"
  shows "copy_handles m fl i c dst = Some (take c (drop i (take n l)) @ drop c dst)"
proof (cases "c = 0")
  case True
  then show ?thesis by (simp add: copy_handles_def)
next
  case False
  have "take c (drop i (take n l)) = take c (drop i l)" using assms(4) by (simp add: drop_take min_def)
  with False assms show ?thesis by (simp add: copy_handles_def)
qed

text \<open>One call of \<open>C_FindObjects\<close>.\<close>

lemma C_FindObjects_pending:
  assumes E: "callbacks_progress E" "malloc_ok E" and s: "lock_idle s" "lib_inv s" "initialized s"
    and p: "pending s h rest" and "unat mx \<le> length dst"
  shows "\<exists>s'. let c = min (unat mx) (length rest) in
    C_FindObjects E h (Some dst) mx (Some v) s = Some ((CKR_OK, Some (take c rest @ drop c dst), Some (of_nat c)), s') \<and>
    pending s' h (drop c rest) \<and> lock_idle s' \<and> lib_inv s' \<and> initialized s' \<and> obj_list s' = obj_list s \<and>
    sess_list s' = sess_list s"
proof -
  obtain x l where h: "h \<in> set (sess_list s)" "mem s h = Some (SessionBlk x)"
    and x: "op_active x" "mem s (find_list x) = Some (HandleBlk l)" "find_list x \<noteq> 0" "length l = 100"
      "find_idx x \<le> find_count x" "unat (find_count x) \<le> 100" "rest = drop (unat (find_idx x)) (take (unat (find_count x)) l)"
    using p by (auto simp: pending_def)
  have len: "length rest = unat (find_count x) - unat (find_idx x)" using x(4,6) by (simp add: x(7))
  have le: "unat (find_idx x) \<le> unat (find_count x)" using x(5) by (simp add: word_le_nat_alt)
  define c where "c = min (unat mx) (length rest)"
  define w where "w = min mx (find_count x - find_idx x)"
  have w: "unat w = c"
    using x(5) by (simp add: w_def c_def len unat_sub word_le_nat_alt min_def)
  have c: "c \<le> unat (find_count x) - unat (find_idx x)" "c \<le> length dst"
    using assms(7) by (auto simp: c_def len)
  have fl: "find_list x \<noteq> h" using x(2) h(2) by auto
  have inv: "api_inv E s" using s(2) E(2) by (simp add: api_inv_def)
  let ?x = "x\<lparr>find_idx := find_idx x + w\<rparr>"
  let ?t = "s\<lparr>mem := (mem s)(h \<mapsto> SessionBlk ?x)\<rparr>"
  have cp: "copy_handles (mem s) (find_list x) (unat (find_idx x)) c dst = Some (take c rest @ drop c dst)"
    unfolding x(7) by (rule copy_handles_pending) (use c x le in auto)
  have b: "find_objects_body h (Some dst) mx (Some v) (relock k n s) =
      Some ((CKR_OK, Some (take c rest @ drop c dst), Some (of_nat c)), relock k n ?t)" for k n
    unfolding find_objects_body_def with_session_live [OF s(2) h]
    using x(1) cp by (simp add: Let_def w [symmetric] w_def [symmetric]) (simp add: relock_def)
  obtain n where call: "C_FindObjects E h (Some dst) mx (Some v) s =
      Some ((CKR_OK, Some (take c rest @ drop c dst), Some (of_nat c)), relock (global_lock s) n ?t)"
    unfolding C_FindObjects_def
    using find_objects.runs_body_eq [OF E(1) s(1,3) inv b] by blast
  have i: "unat (find_idx x + w) = unat (find_idx x) + c"
    using c(1) le x(6) w by (simp add: unat_word_ariths)
  have "find_idx x + w \<le> find_count x" using i c(1) le by (simp add: word_le_nat_alt)
  then have "pending (relock (global_lock s) n ?t) h (drop c rest)"
    unfolding pending_def using h x fl i by (auto simp: add.commute)
  moreover have "lib_inv (relock (global_lock s) n ?t)" "lock_idle (relock (global_lock s) n ?t)"
    using find_objects.keeps [OF E(1) s(1) inv call [unfolded C_FindObjects_def]] by (simp_all add: api_inv_def)
  ultimately show ?thesis using call s(3)
    by (intro exI [of _ "relock (global_lock s) n ?t"]) (simp add: c_def [symmetric] Let_def)
qed

text \<open>A client that asks for \<open>k\<close> handles at a time until it gets none.\<close>

fun collect :: "'t env \<Rightarrow> CK_SESSION_HANDLE \<Rightarrow> u64 \<Rightarrow> nat \<Rightarrow> 't lib \<Rightarrow> (CK_OBJECT_HANDLE list \<times> 't lib) option" where
  "collect E h k 0 s = None"
| "collect E h k (Suc fuel) s = do {
     ((rc, out, cnt), s1) \<leftarrow> C_FindObjects E h (Some (replicate (unat k) 0)) k (Some 0) s;
     l \<leftarrow> out;
     c \<leftarrow> cnt;
     if rc \<noteq> CKR_OK then None
     else if c = 0 then Some ([], s1)
     else do { (rest, s2) \<leftarrow> collect E h k fuel s1; Some (take (unat c) l @ rest, s2) } }"

lemma collect_pending:
  assumes "callbacks_progress E" and "malloc_ok E" and "k \<noteq> 0"
  shows "lock_idle s \<Longrightarrow> lib_inv s \<Longrightarrow> initialized s \<Longrightarrow> pending s h rest \<Longrightarrow> length rest < fuel \<Longrightarrow>
    \<exists>s'. collect E h k fuel s = Some (rest, s') \<and> pending s' h [] \<and> lock_idle s' \<and> lib_inv s' \<and> initialized s' \<and>
      obj_list s' = obj_list s \<and> sess_list s' = sess_list s"
proof (induction fuel arbitrary: s rest)
  case 0
  then show ?case by simp
next
  case (Suc fuel)
  define c where "c = min (unat k) (length rest)"
  obtain s' where call: "C_FindObjects E h (Some (replicate (unat k) 0)) k (Some 0) s =
      Some ((CKR_OK, Some (take c rest @ drop c (replicate (unat k) 0)), Some (of_nat c)), s')"
    and s': "pending s' h (drop c rest)" "lock_idle s'" "lib_inv s'" "initialized s'" "obj_list s' = obj_list s" "sess_list s' = sess_list s"
    using C_FindObjects_pending [OF assms(1,2) Suc.prems(1-4), of k "replicate (unat k) 0" 0]
    by (auto simp: Let_def c_def)
  have "length rest \<le> 100" using Suc.prems(4) by (auto simp: pending_def)
  then have u: "unat (of_nat c :: u64) = c" by (simp add: unat_of_nat_u64 c_def)
  show ?case
  proof (cases "rest = []")
    case True
    then have "c = 0" by (simp add: c_def)
    with call s' True show ?thesis by simp
  next
    case False
    then have c: "0 < c" using assms(3) by (simp add: c_def unat_gt_0)
    then have nz: "(of_nat c :: u64) \<noteq> 0" using u by (metis unat_0 less_irrefl)
    have "length (drop c rest) < fuel" using Suc.prems(5) c False by (cases rest) auto
    from Suc.IH [OF s'(2,3,4,1) this] obtain s2 where
      "collect E h k fuel s' = Some (drop c rest, s2)" "pending s2 h []" "lock_idle s2" "lib_inv s2" "initialized s2"
      "obj_list s2 = obj_list s'" "sess_list s2 = sess_list s'" by blast
    with call nz u s'(5,6) show ?thesis by (simp add: c_def)
  qed
qed

text \<open>Starting a search on a session that has none, when the objects are mirrored already.\<close>

lemma node_matches_template: "node_matches m (if n = 0 then None else t) n = node_matches m t n"
  by (simp add: node_matches_def fun_eq_iff)

lemma find_matching_template:
  "find_matching_objects fl ol (if n = 0 then None else t) n m = find_matching_objects fl ol t n m"
  by (simp only: find_matching_objects_def node_matches_template)

lemma start_search_eq:
  assumes s: "lib_inv s" and h: "mem s h = Some (SessionBlk x)" and "find_list x = 0"
    and a: "malloc E (mallocs s) (dom (mem s)) = Some a" "mem s a = None"
    and t: "list_all attr_readable as" "unat n \<le> length as"
    and hits: "hits = filter (object_hit s as n) (obj_list s)" "length hits \<le> MAX_FIND_LIST_OBJECTS"
  shows "start_search E h (Some as) n x s = Some (CKR_OK, s\<lparr>mallocs := Suc (mallocs s),
    mem := (mem s)(a \<mapsto> HandleBlk (hits @ replicate (MAX_FIND_LIST_OBJECTS - length hits) 0),
      h \<mapsto> SessionBlk (x\<lparr>find_list := a, find_count := of_nat (length hits), find_idx := 0, op_active := True\<rparr>))\<rparr>)"
proof -
  let ?s = "s\<lparr>mallocs := Suc (mallocs s), mem := (mem s)(a \<mapsto> HandleBlk (replicate MAX_FIND_LIST_OBJECTS 0))\<rparr>"
  have na: "a \<notin> set (obj_list s)"
    by (rule obj.unused_not_live [OF lib_invD(2) [OF s]]) (use a(2) in auto)
  have wf: "objects_wf ?s"
    by (rule obj.wf_cong [OF lib_invD(2) [OF s]]) (use na in auto)
  have "filter (object_hit ?s as n) (obj_list s) = hits"
    unfolding hits(1) by (rule filter_cong) (use na in \<open>auto simp: object_hit_def\<close>)
  then have "find_matching_objects a (obj_list s) (Some as) n (mem ?s) =
      Some (CKR_OK, of_nat (length hits), (mem ?s)(a \<mapsto> HandleBlk (hits @ drop (length hits) (replicate MAX_FIND_LIST_OBJECTS 0))))"
    using find_matching_objects_eq [OF wf t, of a "replicate MAX_FIND_LIST_OBJECTS 0"] hits(2) by simp
  then show ?thesis using assms(3) a(1)
    by (simp add: start_search_def ensure_find_list_def do_malloc_def find_matching_template)
qed


lemma object_hit_relock: "object_hit (relock l n s) = object_hit s"
  by (simp add: object_hit_def fun_eq_iff)

lemma search_session_mirrored:
  assumes "lib_inv s" and h: "h \<in> set (sess_list s)" "mem s h = Some (SessionBlk x)" and "\<not> op_active x" and "obj_list s \<noteq> []"
  shows "find_objects_init_body E h (Some as) n (relock l m s) = start_search E h (Some as) n x (relock l m s)"
proof -
  have "si_slotID (session_info x) = TEE_SLOT_ID" using lib_inv_session(3) [OF assms(1) h] by (simp add: in_slot_def)
  then show ?thesis using assms(4,5)
    by (simp add: find_objects_init_body_def with_session_live [OF assms(1) h] search_session_def get_object_list_def
        get_global_slot_info_def)
qed

lemma C_FindObjectsInit_fresh:
  assumes E: "callbacks_progress E" "malloc_ok E" and s: "lock_idle s" "lib_inv s" "initialized s" "obj_list s \<noteq> []"
    and h: "h \<in> set (sess_list s)" "mem s h = Some (SessionBlk x)" "find_list x = 0" "\<not> op_active x"
    and t: "list_all attr_readable as" "unat n \<le> length as"
    and hits: "hits = filter (object_hit s as n) (obj_list s)" "length hits \<le> MAX_FIND_LIST_OBJECTS"
    and "malloc E (mallocs s) (dom (mem s)) = Some a"
  shows "\<exists>s1. C_FindObjectsInit E h (Some as) n s = Some (CKR_OK, s1) \<and> pending s1 h hits \<and> lock_idle s1 \<and> lib_inv s1 \<and>
    initialized s1 \<and> obj_list s1 = obj_list s \<and> sess_list s1 = sess_list s"
proof -
  have inv: "api_inv E s" using E(2) s(2) by (simp add: api_inv_def)
  have a: "mem s a = None" "a \<noteq> 0" using E(2) assms(15) by (auto simp: malloc_ok_def)
  let ?x = "x\<lparr>find_list := a, find_count := of_nat (length hits), find_idx := 0, op_active := True\<rparr>"
  let ?l = "hits @ replicate (MAX_FIND_LIST_OBJECTS - length hits) 0"
  let ?t = "s\<lparr>mallocs := Suc (mallocs s), mem := (mem s)(a \<mapsto> HandleBlk ?l, h \<mapsto> SessionBlk ?x)\<rparr>"
  have "find_objects_init_body E h (Some as) n (relock l m s) = Some (CKR_OK, relock l m ?t)" for l m
  proof -
    have "start_search E h (Some as) n x (relock l m s) = Some (CKR_OK, (relock l m s)\<lparr>mallocs := Suc (mallocs s),
        mem := (mem s)(a \<mapsto> HandleBlk ?l, h \<mapsto> SessionBlk ?x)\<rparr>)"
      using start_search_eq [of "relock l m s" h x E a as n hits] h(2,3) t hits assms(15) a(1) s(2)
      by (simp add: lib_inv_relock object_hit_relock)
    then show ?thesis unfolding search_session_mirrored [OF s(2) h(1,2,4) s(4)] by (simp add: relock_def)
  qed
  from find_objects_init.runs_body_eq [OF E(1) s(1,3) inv this] obtain m where
    init: "C_FindObjectsInit E h (Some as) n s = Some (CKR_OK, relock (global_lock s) m ?t)" (is "_ = Some (_, ?s1)")
    unfolding C_FindObjectsInit_def by blast
  have "lib_inv ?s1" "lock_idle ?s1"
    using find_objects_init.keeps [OF E(1) s(1) inv init [unfolded C_FindObjectsInit_def]] by (simp_all add: api_inv_def)
  moreover have "a \<noteq> h" using a(1) h(2) by auto
  moreover have "unat (of_nat (length hits) :: u64) = length hits" using hits(2) by (simp add: unat_of_nat_u64)
  ultimately show ?thesis using init h(1) hits(2) a(2) s(3) by (intro exI [of _ ?s1]) (simp add: pending_def)
qed

lemma C_FindObjectsFinal_pending:
  assumes E: "callbacks_progress E" "malloc_ok E" and s: "lock_idle s" "lib_inv s" "initialized s" "pending s h rest"
  shows "\<exists>s' y. C_FindObjectsFinal E h s = Some (CKR_OK, s') \<and> mem s' h = Some (SessionBlk y) \<and> \<not> op_active y \<and>
    find_list y \<noteq> 0 \<and> mem s' (find_list y) = Some FreedBlk \<and> lib_inv s' \<and> lock_idle s' \<and> initialized s' \<and>
    sess_list s' = sess_list s \<and> obj_list s' = obj_list s \<and>
    (\<forall>a. object_of (mem s a) \<noteq> None \<longrightarrow> mem s' a = mem s a)"
proof -
  obtain y l where y: "h \<in> set (sess_list s)" "mem s h = Some (SessionBlk y)" "op_active y" "find_list y \<noteq> 0"
      "mem s (find_list y) = Some (HandleBlk l)"
    using s(4) by (auto simp: pending_def)
  let ?y = "y\<lparr>op_active := False, find_count := 0, find_idx := 0\<rparr>"
  let ?u = "s\<lparr>mem := (mem s)(find_list y \<mapsto> FreedBlk, h \<mapsto> SessionBlk ?y)\<rparr>"
  have "find_objects_final_body h (relock l m s) = Some (CKR_OK, relock l m ?u)" for l m
    unfolding find_objects_final_body_def with_session_live [OF s(2) y(1,2)]
    using y by (simp add: free_block_def) (simp add: relock_def)
  moreover have inv: "api_inv E s" using E(2) s(2) by (simp add: api_inv_def)
  ultimately obtain m where fin: "C_FindObjectsFinal E h s = Some (CKR_OK, relock (global_lock s) m ?u)" (is "_ = Some (_, ?s1)")
    using find_objects_final.runs_body_eq [OF E(1) s(1,3)] unfolding C_FindObjectsFinal_def by blast
  have "lib_inv ?s1" "lock_idle ?s1"
    using find_objects_final.keeps [OF E(1) s(1) inv fin [unfolded C_FindObjectsFinal_def]] by (simp_all add: api_inv_def)
  moreover have "find_list y \<noteq> h" using y(2,5) by auto
  ultimately show ?thesis using fin y s(3) by (intro exI [of _ ?s1] exI [of _ ?y]) auto
qed

lemma sample_callbacks [simp]: "callbacks_progress sample_env"
  by (auto simp: callbacks_progress_def sample_env_def)

lemma sample_lib_inv: "lib_inv sample_lib" "lock_idle sample_lib" "initialized sample_lib"
proof -
  have "sessions_ok sample_lib"
    by (auto simp: sessions_ok_def sample_lib_def find_ok_def sign_ok_def new_session_def zero_context_def)
  moreover have "find_lists_apart sample_lib"
    by (auto simp: find_lists_apart_def sample_lib_def)
  moreover have "0 \<notin> set (sess_list sample_lib)" "initialized sample_lib" by (simp_all add: sample_lib_def)
  ultimately show "lib_inv sample_lib" "initialized sample_lib" by (simp_all add: lib_inv_def)
  show "lock_idle sample_lib" by (simp add: lock_idle_def sample_lib_def initial_lib_def)
qed

text \<open>
  C2: the search protocol is complete and exact. On a session that has not searched yet, when the
  token's objects are mirrored and at most \<open>MAX_FIND_LIST_OBJECTS\<close> of them match,
  \<open>C_FindObjectsInit\<close> succeeds (unless the allocation of the array fails, with \<open>CKR_HOST_MEMORY\<close>); a client
  that then calls \<open>C_FindObjects\<close> for any number of handles at a time until it gets none receives the
  handles of exactly the matching objects, each once and in the order of the list, after at most one
  call per match and one more; and \<open>C_FindObjectsFinal\<close> then ends the search.
\<close>

theorem search_protocol:
  assumes "callbacks_progress E" and "malloc_ok E" and "lock_idle s" and "lib_inv s" and "initialized s"
    and "h \<in> set (sess_list s)" and "mem s h = Some (SessionBlk x)" and "find_list x = 0" and "\<not> op_active x"
    and "obj_list s \<noteq> []" and "list_all attr_readable as" and "unat n \<le> length as" and "k \<noteq> 0"
    and "hits = filter (object_hit s as n) (obj_list s)" and "length hits \<le> MAX_FIND_LIST_OBJECTS" and "length hits < fuel"
  shows "if malloc E (mallocs s) (dom (mem s)) = None
    then \<exists>s1. C_FindObjectsInit E h (Some as) n s = Some (CKR_HOST_MEMORY, s1)
    else \<exists>s1 s2 s3. C_FindObjectsInit E h (Some as) n s = Some (CKR_OK, s1) \<and>
      collect E h k fuel s1 = Some (hits, s2) \<and>
      C_FindObjectsFinal E h s2 = Some (CKR_OK, s3) \<and>
      (\<exists>y. mem s3 h = Some (SessionBlk y) \<and> \<not> op_active y) \<and> sess_list s3 = sess_list s \<and> obj_list s3 = obj_list s"
proof (cases "malloc E (mallocs s) (dom (mem s))")
  case None
  have "find_objects_init_body E h (Some as) n (relock l m s) =
      Some (CKR_HOST_MEMORY, relock l m (s\<lparr>mallocs := Suc (mallocs s)\<rparr>))" for l m
    unfolding search_session_mirrored [OF assms(4,6,7,9,10)]
    using None assms(8) by (simp add: start_search_def ensure_find_list_def do_malloc_def) (simp add: relock_def)
  moreover have "api_inv E s" using assms(2,4) by (simp add: api_inv_def)
  ultimately show ?thesis using find_objects_init.runs_body_eq [OF assms(1,3,5)] None
    unfolding C_FindObjectsInit_def by (metis (no_types, lifting))
next
  case (Some a)
  obtain s1 where init: "C_FindObjectsInit E h (Some as) n s = Some (CKR_OK, s1)"
    and s1: "pending s1 h hits" "lock_idle s1" "lib_inv s1" "initialized s1" "obj_list s1 = obj_list s" "sess_list s1 = sess_list s"
    using C_FindObjectsInit_fresh [OF assms(1-5,10,6-9,11,12,14,15) Some] by blast
  obtain s2 where col: "collect E h k fuel s1 = Some (hits, s2)"
    and s2: "pending s2 h []" "lock_idle s2" "lib_inv s2" "initialized s2" "obj_list s2 = obj_list s1" "sess_list s2 = sess_list s1"
    using collect_pending [OF assms(1,2,13) s1(2,3,4,1) assms(16)] by blast
  show ?thesis using C_FindObjectsFinal_pending [OF assms(1,2) s2(2,3,4,1)] init col s1(5,6) s2(5,6) Some by auto
qed

theorem search_protocol_witness:
  "\<exists>s1 s2. C_FindObjectsInit sample_env 16 (Some [ulong_attr CKA_CLASS CKO_PUBLIC_KEY]) 1 sample_lib = Some (CKR_OK, s1) \<and>
     collect sample_env 16 1 2 s1 = Some ([48], s2)"
proof -
  let ?as = "[ulong_attr CKA_CLASS CKO_PUBLIC_KEY]"
  have "filter (object_hit sample_lib ?as 1) (obj_list sample_lib) = [48]"
    by (simp add: object_hit_def sample_lib_def sample_object_def attr_matches_def attr_bytes_def
        class_defaults_def default_lists default_attrs read_bytes_def)
  moreover have "list_all attr_readable ?as"
    by (simp add: attr_readable_def ulong_attr_def read_bytes_def)
  moreover have "malloc sample_env (mallocs sample_lib) (dom (mem sample_lib)) = Some 64"
    by (simp add: sample_env_def sample_malloc_def sample_lib_def initial_lib_def)
  moreover have "mem sample_lib 16 = Some (SessionBlk (new_session TEE_SLOT_ID 4))" "16 \<in> set (sess_list sample_lib)"
    "obj_list sample_lib \<noteq> []"
    by (simp_all add: sample_lib_def)
  ultimately show ?thesis
    using search_protocol [of sample_env sample_lib 16 "new_session TEE_SLOT_ID 4" ?as 1 1 "[48]" 2] sample_lib_inv
    by (auto simp: new_session_def)
qed

text \<open>A loop that hits something writes to the array first of all.\<close>

lemma find_loop_no_room:
  assumes "\<And>a. a \<in> set as \<Longrightarrow> P a = Some (Q a)" and "\<exists>a \<in> set as. Q a"
  shows "find_loop P as 0 [] = None"
  using assms by (induction as) auto

text \<open>
  C24: a session can search once. \<open>C_FindObjectsFinal\<close> frees the array of the search and keeps its
  address in the session, so that the next \<open>C_FindObjectsInit\<close> on the session writes the first matching
  handle into freed memory.
\<close>

theorem second_search_faults:
  assumes "callbacks_progress E" and "malloc_ok E" and "lock_idle s" and "lib_inv s" and "initialized s" and "pending s h rest"
    and "list_all attr_readable as" and "unat n \<le> length as" and "a \<in> set (obj_list s)" and "object_hit s as n a"
  shows "\<exists>s'. C_FindObjectsFinal E h s = Some (CKR_OK, s') \<and> C_FindObjectsInit E h (Some as) n s' = None"
proof -
  obtain s' y where fin: "C_FindObjectsFinal E h s = Some (CKR_OK, s')"
    and y: "mem s' h = Some (SessionBlk y)" "\<not> op_active y" "find_list y \<noteq> 0" "mem s' (find_list y) = Some FreedBlk"
    and s': "lib_inv s'" "lock_idle s'" "initialized s'" "sess_list s' = sess_list s" "obj_list s' = obj_list s"
      "\<And>a. object_of (mem s a) \<noteq> None \<Longrightarrow> mem s' a = mem s a"
    using C_FindObjectsFinal_pending [OF assms(1-6)] by blast
  have h: "h \<in> set (sess_list s')" using assms(6) s'(4) by (simp add: pending_def)
  have "object_of (mem s a) \<noteq> None"
    by (rule object_live [OF lib_invD(2) [OF assms(4)] assms(9)]) simp
  then have "object_hit s' as n a" using assms(10) s'(6) [of a] by (simp add: object_hit_def)
  then have "find_loop (node_matches (mem s') (Some as) n) (obj_list s') 0 [] = None"
    by (intro find_loop_no_room [of _ _ "object_hit s' as n"] node_matches_listed [OF lib_invD(2) [OF s'(1)] _ assms(7,8)])
      (use assms(9) s'(5) in auto)
  then have "find_matching_objects (find_list y) (obj_list s') (if n = 0 then None else Some as) n (mem s') = None"
    unfolding find_matching_template using y(4) by (simp add: find_matching_objects_def)
  then have "start_search E h (Some as) n y (relock l m s') = None" for l m
    unfolding start_search_def using y(3) by (simp add: ensure_find_list_def)
  moreover have "obj_list s' \<noteq> []" using assms(9) s'(5) by auto
  ultimately have "C_FindObjectsInit E h (Some as) n s' = None"
    unfolding C_FindObjectsInit_def
    by (intro find_objects_init.faults_with_body [OF assms(1) s'(2,3)])
      (simp add: search_session_mirrored [OF s'(1) h y(1,2)])
  with fin show ?thesis by blast
qed

text \<open>The sample library with a search that has one handle to return.\<close>

definition sample_search :: "unit lib" where
  "sample_search = sample_lib\<lparr>mem := (mem sample_lib)(64 \<mapsto> HandleBlk (48 # replicate 99 0),
     16 \<mapsto> SessionBlk ((new_session TEE_SLOT_ID 4)\<lparr>find_list := 64, find_count := 1, op_active := True\<rparr>))\<rparr>"

lemma sample_search_inv: "lib_inv sample_search" "lock_idle sample_search" "initialized sample_search"
  "pending sample_search 16 [48]"
proof -
  show "lib_inv sample_search"
    by (intro lib_inv_update [OF sample_lib_inv(1), of 16 "new_session TEE_SLOT_ID 4" sample_search
          "(new_session TEE_SLOT_ID 4)\<lparr>find_list := 64, find_count := 1, op_active := True\<rparr>"])
      (auto simp: sample_search_def sample_lib_def core_def find_ok_def sign_ok_def new_session_def zero_context_def in_slot_def)
  show "lock_idle sample_search" "initialized sample_search"
    by (simp_all add: lock_idle_def sample_search_def sample_lib_def initial_lib_def)
  show "pending sample_search 16 [48]"
    by (simp add: pending_def sample_search_def sample_lib_def new_session_def)
qed

theorem second_search_faults_witness:
  "\<exists>s'. C_FindObjectsFinal sample_env 16 sample_search = Some (CKR_OK, s') \<and> C_FindObjectsInit sample_env 16 (Some []) 0 s' = None"
  using second_search_faults [OF sample_callbacks sample_malloc_ok sample_search_inv(2,1,3,4), of "[]" 0 32]
  by (simp add: object_hit_def sample_search_def sample_lib_def)

lemma find_objects_body_handles:
  assumes iv: "lib_inv s" and b: "find_objects_body h (Some dst) mx (Some v) s = Some ((CKR_OK, Some out, Some c), s2)"
  shows "c \<le> mx \<and> unat c \<le> length out \<and> length out = length dst \<and> drop (unat c) out = drop (unat c) dst \<and>
    (\<forall>a \<in> set (take (unat c) out). is_object_handle_valid s a TEE_SLOT_ID) \<and>
    obj_list s2 = obj_list s \<and> sess_list s2 = sess_list s"
  using b
  unfolding find_objects_body_def
proof (cases rule: with_session_cases)
  case (2 x)
  note ok = lib_inv_session(1) [OF iv 2(1,2)]
  have c: "c = min mx (find_count x - find_idx x)"
    and cp: "copy_handles (mem s) (find_list x) (unat (find_idx x)) (unat c) dst = Some out"
    and s2: "obj_list s2 = obj_list s" "sess_list s2 = sess_list s"
    using 2(4) by (auto simp: Let_def split: if_splits bind_splits)
  have le: "find_idx x \<le> find_count x" using ok by (simp add: find_ok_def)
  then have cc: "unat (find_idx x) + unat c \<le> unat (find_count x)"
    using c by (simp add: word_le_nat_alt unat_sub min_def split: if_splits)
  show ?thesis
  proof (cases "unat c = 0")
    case True
    then show ?thesis using cp s2 by (simp add: copy_handles_def c)
  next
    case False
    then have "find_count x \<noteq> 0" using cc by auto
    then obtain hl where hl: "mem s (find_list x) = Some (HandleBlk hl)" "set (take (unat (find_count x)) hl) \<subseteq> set (obj_list s)"
      using ok by (auto simp: find_ok_def)
    have out: "out = take (unat c) (drop (unat (find_idx x)) hl) @ drop (unat c) dst"
      and len: "unat (find_idx x) + unat c \<le> length hl" "unat c \<le> length dst"
      using cp hl(1) False by (auto simp: copy_handles_def split: if_splits)
    have "take (unat c) out = take (unat c) (drop (unat (find_idx x)) (take (unat (find_count x)) hl))"
      using out len cc by (auto simp: drop_take min_def)
    then have "set (take (unat c) out) \<subseteq> set (obj_list s)"
      using hl(2) by (metis (no_types, lifting) in_set_dropD in_set_takeD subset_iff)
    then show ?thesis using out len s2
      by (auto simp: c is_object_handle_valid_def get_object_list_def get_global_slot_info_def)
  qed
qed simp

text \<open>
  whatever \<open>C_FindObjects\<close> returns between calls, in any state that keeps the library's invariant, are handles of mirrored objects: it
  copies at most as many handles as the caller asked for, all of them valid object handles of the
  slot, touches nothing of the caller's buffer beyond them, and changes neither the list of objects
  nor the list of sessions.
\<close>

theorem found_handles_valid:
  assumes "callbacks_progress E" and "lock_idle s" and "lib_inv s"
    and "C_FindObjects E h (Some dst) mx (Some v) s = Some ((CKR_OK, Some out, Some c), s')"
  shows "c \<le> mx \<and> unat c \<le> length out \<and> length out = length dst \<and> drop (unat c) out = drop (unat c) dst \<and>
    (\<forall>a \<in> set (take (unat c) out). is_object_handle_valid s a TEE_SLOT_ID) \<and>
    obj_list s' = obj_list s \<and> sess_list s' = sess_list s"
proof -
  obtain n where l: "p11_global_lock E s = Some (relock (map_option (\<lambda>_. True) (global_lock s)) n s)"
    using lock_total [OF assms(1,2)] by blast
  let ?s = "relock (map_option (\<lambda>_. True) (global_lock s)) n s"
  obtain s2 where b: "find_objects_body h (Some dst) mx (Some v) ?s = Some ((CKR_OK, Some out, Some c), s2)"
    and u: "p11_global_unlock E s2 = Some s'"
    using assms(4) l by (auto simp: C_FindObjects_def api_call_def is_lib_initialized_def split: bind_splits if_splits)
  have fr: "obj_list s' = obj_list s2" "sess_list s' = sess_list s2"
    using u by (auto simp: p11_global_unlock_def split: bind_splits)
  have iv: "lib_inv ?s" using assms(3) by (simp add: lib_inv_relock)
  show ?thesis using find_objects_body_handles [OF iv b] fr by (simp add: is_object_handle_valid_def get_object_list_def)
qed

theorem found_handles_valid_witness:
  "\<exists>s'. C_FindObjects sample_env 16 (Some [0, 0]) 2 (Some 0) sample_search = Some ((CKR_OK, Some [48, 0], Some 1), s') \<and>
     is_object_handle_valid sample_search 48 TEE_SLOT_ID"
proof -
  obtain s' where c: "C_FindObjects sample_env 16 (Some [0, 0]) 2 (Some 0) sample_search = Some ((CKR_OK, Some [48, 0], Some 1), s')"
    using C_FindObjects_pending [OF sample_callbacks sample_malloc_ok sample_search_inv(2,1,3,4), of 2 "[0, 0]" 0] by auto
  from found_handles_valid [OF sample_callbacks sample_search_inv(2,1) c] c show ?thesis by simp
qed

section \<open>The library from the outside\<close>

lemmas api_refused = get_slot_list.refused_before_init info.refused_before_init get_mechanism_list.refused_before_init
  open_session.refused_before_init close_session.refused_before_init close_all_sessions.refused_before_init
  get_session_info.refused_before_init get_attribute_value.refused_before_init find_objects_init.refused_before_init
  find_objects.refused_before_init find_objects_final.refused_before_init sign_init.refused_before_init
  sign.refused_before_init

text \<open>
  every entry point that needs an initialised library refuses before \<open>C_Initialize\<close> and after
  \<open>C_Finalize\<close>: it returns \<open>CKR_CRYPTOKI_NOT_INITIALIZED\<close>, leaves the caller's output parameters alone and
  changes nothing of the library (the state differs at most in how often the mutex callbacks ran).
\<close>

theorem refused_until_initialized:
  assumes "callbacks_progress E" and "lock_idle s" and "\<not> initialized s"
  shows "(\<exists>n. C_GetSlotList E present sl cnt s = Some ((CKR_CRYPTOKI_NOT_INITIALIZED, sl, cnt), relock (global_lock s) n s)) \<and>
    (\<exists>n. C_GetTokenInfo E slotID ti s = Some ((CKR_CRYPTOKI_NOT_INITIALIZED, ti), relock (global_lock s) n s)) \<and>
    (\<exists>n. C_GetMechanismList E slotID ml cnt s = Some ((CKR_CRYPTOKI_NOT_INITIALIZED, ml, cnt), relock (global_lock s) n s)) \<and>
    (\<exists>n. C_OpenSession E slotID flags ph s = Some ((CKR_CRYPTOKI_NOT_INITIALIZED, ph), relock (global_lock s) n s)) \<and>
    (\<exists>n. C_CloseSession E h s = Some (CKR_CRYPTOKI_NOT_INITIALIZED, relock (global_lock s) n s)) \<and>
    (\<exists>n. C_CloseAllSessions E slotID s = Some (CKR_CRYPTOKI_NOT_INITIALIZED, relock (global_lock s) n s)) \<and>
    (\<exists>n. C_GetSessionInfo E h si s = Some ((CKR_CRYPTOKI_NOT_INITIALIZED, si), relock (global_lock s) n s)) \<and>
    (\<exists>n. C_GetAttributeValue E h ob t k s = Some ((CKR_CRYPTOKI_NOT_INITIALIZED, t), relock (global_lock s) n s)) \<and>
    (\<exists>n. C_FindObjectsInit E h t k s = Some (CKR_CRYPTOKI_NOT_INITIALIZED, relock (global_lock s) n s)) \<and>
    (\<exists>n. C_FindObjects E h obs mx cnt s = Some ((CKR_CRYPTOKI_NOT_INITIALIZED, obs, cnt), relock (global_lock s) n s)) \<and>
    (\<exists>n. C_FindObjectsFinal E h s = Some (CKR_CRYPTOKI_NOT_INITIALIZED, relock (global_lock s) n s)) \<and>
    (\<exists>n. C_SignInit E h mech key s = Some (CKR_CRYPTOKI_NOT_INITIALIZED, relock (global_lock s) n s)) \<and>
    (\<exists>n. C_Sign E h data dl sig sgl s = Some ((CKR_CRYPTOKI_NOT_INITIALIZED, sig, sgl), relock (global_lock s) n s))"
  unfolding api_defs by (intro conjI api_refused [OF assms])

theorem refused_until_initialized_witness:
  "\<exists>n. C_OpenSession sample_env TEE_SLOT_ID 4 (Some 0) (initial_lib ()) =
     Some ((CKR_CRYPTOKI_NOT_INITIALIZED, Some 0), relock None n (initial_lib ()))"
proof -
  have "lock_idle (initial_lib ())" "\<not> initialized (initial_lib ())" "global_lock (initial_lib ()) = None"
    by (simp_all add: lock_idle_def initial_lib_def)
  with refused_until_initialized [OF sample_callbacks, of "initial_lib ()" _ _ _ TEE_SLOT_ID _ _ 4 "Some 0"] show ?thesis
    by auto
qed

text \<open>
  initialisation. When the lock can be made, \<open>C_Initialize\<close> returns; the loader decides between
  \<open>CKR_OK\<close> and \<open>CKR_GENERAL_ERROR\<close>; there are no sessions and no objects. In both cases the library
  counts as initialised: after a failure the lock is gone, yet a second \<open>C_Initialize\<close> is refused with
  \<open>CKR_CRYPTOKI_ALREADY_INITIALIZED\<close> and the application cannot retry without \<open>C_Finalize\<close>.
\<close>

theorem initialize_spec:
  assumes "callbacks_progress E" and "lock_idle s" and "lib_inv s" and "\<not> initialized s"
    and "fst (p11_init_lock E args s) = CKR_OK"
  shows "\<exists>s'. C_Initialize E args s = Some (if slot_loaded E then CKR_OK else CKR_GENERAL_ERROR, s') \<and>
    initialized s' \<and> sess_list s' = [] \<and> obj_list s' = [] \<and> lock_idle s' \<and> (\<not> slot_loaded E \<longrightarrow> global_lock s' = None) \<and>
    (slot_loaded E \<longrightarrow> sk_funcs s') \<and> C_Initialize E args' s' = Some (CKR_CRYPTOKI_ALREADY_INITIALIZED, s')"
proof -
  obtain s1 where i: "p11_init_lock E args s = (CKR_OK, s1)" using assms(5) by (cases "p11_init_lock E args s") auto
  note f = p11_init_lock_frame [OF i assms(2)]
  have e: "sess_list s1 = []" "obj_list s1 = []" using f assms(3,4) by (auto simp: lib_inv_def)
  obtain n where n: "C_Initialize E args s =
      Some (if slot_loaded E then CKR_OK else CKR_GENERAL_ERROR,
        relock (if slot_loaded E then global_lock s1 else None) n (marked E s1))" (is "_ = Some (_, ?t)")
    using C_Initialize_outcome [OF assms(1-4) i] by (auto split: if_splits)
  have "C_Initialize E args' ?t = Some (CKR_CRYPTOKI_ALREADY_INITIALIZED, ?t)"
    by (simp add: C_Initialize_def is_lib_initialized_def marked_def)
  moreover have "lock_idle ?t" using f by (auto simp: lock_idle_def marked_def)
  ultimately show ?thesis using n e by (intro exI [of _ ?t]) (simp add: marked_def)
qed

theorem initialize_spec_witness:
  "\<exists>s'. C_Initialize (sample_env\<lparr>dlopen := False\<rparr>) None (initial_lib ()) = Some (CKR_GENERAL_ERROR, s') \<and> initialized s'"
proof -
  have "callbacks_progress (sample_env\<lparr>dlopen := False\<rparr>)" by (auto simp: callbacks_progress_def sample_env_def)
  moreover have "lock_idle (initial_lib ())" "lib_inv (initial_lib ())" "\<not> initialized (initial_lib ())"
    by (simp_all add: lock_idle_def lib_inv_empty initial_lib_def)
  moreover have "fst (p11_init_lock (sample_env\<lparr>dlopen := False\<rparr>) None (initial_lib ())) = CKR_OK"
    by (simp add: p11_init_lock_def initial_lib_def)
  ultimately show ?thesis
    using initialize_spec [of "sample_env\<lparr>dlopen := False\<rparr>" "initial_lib ()" None None] by (auto simp: slot_loaded_def)
qed

text \<open>
  C25: finalisation always returns between calls. On an initialised library it succeeds, frees every
  session and every object exactly once and no other block, empties both lists, drops the lock and
  leaves the library uninitialised; on an uninitialised one it drops the lock and refuses.
\<close>

theorem finalize_spec:
  assumes "callbacks_progress E" and "lock_idle s" and "lib_inv s"
  shows "\<exists>s'. C_Finalize E False s = Some (if initialized s then CKR_OK else CKR_CRYPTOKI_NOT_INITIALIZED, s') \<and>
    \<not> initialized s' \<and> sess_list s' = [] \<and> obj_list s' = [] \<and> global_lock s' = None \<and>
    (\<forall>a. mem s' a = (if a \<in> set (sess_list s) \<union> set (obj_list s) then Some FreedBlk else mem s a))"
proof -
  obtain n where n: "C_Finalize E False s = Some (if initialized s
     then (CKR_OK, relock None n (s\<lparr>initialized := False, obj_list := [], sess_list := [], mem := all_freed s\<rparr>))
     else (CKR_CRYPTOKI_NOT_INITIALIZED, relock None n s))"
    using C_Finalize_outcome [OF assms] by blast
  show ?thesis
  proof (cases "initialized s")
    case True
    with n show ?thesis by (simp add: all_freed_def)
  next
    case False
    then have "sess_list s = []" "obj_list s = []" using assms(3) by (auto simp: lib_inv_def)
    with n False show ?thesis by simp
  qed
qed

theorem finalize_spec_witness:
  "\<exists>s'. C_Finalize sample_env False sample_lib = Some (CKR_OK, s') \<and> mem s' 48 = Some FreedBlk"
  using finalize_spec [OF sample_callbacks sample_lib_inv(2,1)] sample_lib_inv(3)
  by (auto simp: sample_lib_def)

text \<open>The calls on an open session, under the invariant.\<close>

lemma C_CloseSession_eq:
  assumes "callbacks_progress E" and "malloc_ok E" and "lock_idle s" and "lib_inv s" and "initialized s" and "h \<in> set (sess_list s)"
  shows "\<exists>n. C_CloseSession E h s = Some (CKR_OK, relock (global_lock s) n (remove_session h s))"
proof -
  have "close_session_body h (relock l m s) = Some (CKR_OK, relock l m (remove_session h s))" for l m
  proof -
    have i: "lib_inv (relock l m s)" using assms(4) by (simp add: lib_inv_relock)
    have h: "h \<in> set (sess_list (relock l m s))" "h \<noteq> 0" using assms(6) lib_invD(3) [OF assms(4)] by auto
    have "is_session_valid (relock l m s) h = Some True" by (rule session_live [OF lib_invD(1) [OF i] h(1)])
    then show ?thesis using delete_session_eq [OF lib_invD(1) [OF i] h]
      by (simp add: close_session_body_def) (simp add: remove_session_def relock_def)
  qed
  then show ?thesis
    unfolding C_CloseSession_def
    by (intro close_session.runs_body_eq [OF assms(1,3,5), of E]) (simp_all add: api_inv_def assms(2,4))
qed

lemma C_GetSessionInfo_eq:
  assumes "callbacks_progress E" and "malloc_ok E" and "lock_idle s" and "lib_inv s" and "initialized s"
    and "h \<in> set (sess_list s)" and "mem s h = Some (SessionBlk x)"
  shows "\<exists>n. C_GetSessionInfo E h (Some i) s = Some ((CKR_OK, Some (session_info x)), relock (global_lock s) n s)"
proof -
  have "get_session_info_body h (Some i) (relock l m s) = Some ((CKR_OK, Some (session_info x)), relock l m s)" for l m
    using assms(6,7) lib_inv_session(3) [OF assms(4,6,7)]
    by (simp add: get_session_info_body_def get_session_info_def is_session_valid_eq)
  then show ?thesis
    unfolding C_GetSessionInfo_def
    by (intro get_session_info.runs_body_eq [OF assms(1,3,5), of E]) (simp_all add: api_inv_def assms(2,4))
qed

lemma C_OpenSession_eq:
  assumes "callbacks_progress E" and "malloc_ok E" and "lock_idle s" and "lib_inv s" and "initialized s"
    and "flags AND CKF_RW_SESSION = 0" and "flags AND CKF_SERIAL_SESSION \<noteq> 0"
  shows "\<exists>n. C_OpenSession E TEE_SLOT_ID flags (Some v) s = Some (case malloc E (mallocs s) (dom (mem s)) of
      None \<Rightarrow> ((CKR_HOST_MEMORY, Some v), relock (global_lock s) n (s\<lparr>mallocs := Suc (mallocs s)\<rparr>))
    | Some h \<Rightarrow> ((CKR_OK, Some h),
        relock (global_lock s) n (insert_session h (new_session TEE_SLOT_ID flags) (s\<lparr>mallocs := Suc (mallocs s)\<rparr>))))"
proof -
  have inv: "api_inv E s" using assms(2,4) by (simp add: api_inv_def)
  note run = open_session.runs_body_eq [OF assms(1,3,5) inv]
  show ?thesis
  proof (cases "malloc E (mallocs s) (dom (mem s))")
    case None
    have "open_session_body E TEE_SLOT_ID flags (Some v) (relock l m s) =
        Some ((CKR_HOST_MEMORY, Some v), relock l m (s\<lparr>mallocs := Suc (mallocs s)\<rparr>))" for l m
      using None assms(6,7) by (simp add: open_session_body_def create_session_def do_malloc_def) (simp add: relock_def)
    from run [OF this] None show ?thesis unfolding C_OpenSession_def by simp
  next
    case (Some h)
    let ?t = "insert_session h (new_session TEE_SLOT_ID flags) (s\<lparr>mallocs := Suc (mallocs s)\<rparr>)"
    have "open_session_body E TEE_SLOT_ID flags (Some v) (relock l m s) = Some ((CKR_OK, Some h), relock l m ?t)" for l m
      using Some assms(6,7) create_session_eq [of E "relock l m s" h TEE_SLOT_ID flags]
      by (simp add: open_session_body_def insert_session_def relock_def)
    from run [OF this] Some show ?thesis unfolding C_OpenSession_def by simp
  qed
qed

text \<open>
  opening and closing a session through the API. For the slot and a serial, read-only request
  \<open>C_OpenSession\<close> returns: with a failed allocation \<open>CKR_HOST_MEMORY\<close>, else \<open>CKR_OK\<close> and a fresh handle
  whose session \<open>C_GetSessionInfo\<close> describes with the caller's flags; \<open>C_CloseSession\<close> of that handle
  succeeds, frees that node only, and the lists of sessions and objects are again what they were.
\<close>

theorem open_close_session:
  assumes "callbacks_progress E" and "malloc_ok E" and "lock_idle s" and "lib_inv s" and "initialized s"
    and "flags AND CKF_RW_SESSION = 0" and "flags AND CKF_SERIAL_SESSION \<noteq> 0"
  shows "case malloc E (mallocs s) (dom (mem s)) of
      None \<Rightarrow> \<exists>s1. C_OpenSession E TEE_SLOT_ID flags (Some v) s = Some ((CKR_HOST_MEMORY, Some v), s1) \<and>
        sess_list s1 = sess_list s \<and> mem s1 = mem s
    | Some h \<Rightarrow> \<exists>s1 s2 s3. C_OpenSession E TEE_SLOT_ID flags (Some v) s = Some ((CKR_OK, Some h), s1) \<and> h \<notin> set (sess_list s) \<and>
        C_GetSessionInfo E h (Some i) s1 = Some ((CKR_OK, Some \<lparr>si_slotID = TEE_SLOT_ID, si_state = CKS_RO_PUBLIC_SESSION,
          si_flags = flags, si_ulDeviceError = 0\<rparr>), s2) \<and>
        C_CloseSession E h s2 = Some (CKR_OK, s3) \<and> sess_list s3 = sess_list s \<and> obj_list s3 = obj_list s \<and>
        mem s3 = (mem s)(h \<mapsto> FreedBlk)"
proof (cases "malloc E (mallocs s) (dom (mem s))")
  case None
  with C_OpenSession_eq [OF assms, of v] show ?thesis by auto
next
  case (Some h)
  have inv: "api_inv E s" using assms(2,4) by (simp add: api_inv_def)
  let ?t = "insert_session h (new_session TEE_SLOT_ID flags) (s\<lparr>mallocs := Suc (mallocs s)\<rparr>)"
  obtain n where op: "C_OpenSession E TEE_SLOT_ID flags (Some v) s = Some ((CKR_OK, Some h), relock (global_lock s) n ?t)"
      (is "_ = Some (_, ?s1)")
    using C_OpenSession_eq [OF assms, of v] Some by auto
  have s1: "lock_idle ?s1" "lib_inv ?s1" "initialized ?s1"
    using open_session.keeps [OF assms(1,3) inv op [unfolded C_OpenSession_def]] assms(5)
    by (simp_all add: insert_session_def api_inv_def)
  have nh: "h \<notin> set (sess_list s)"
    by (rule sess.unused_not_live [OF lib_invD(1) [OF assms(4)]])
      (use Some assms(2) in \<open>auto simp: malloc_ok_def\<close>)
  obtain n2 where gi: "C_GetSessionInfo E h (Some i) ?s1 =
      Some ((CKR_OK, Some (session_info (new_session TEE_SLOT_ID flags))), relock (global_lock ?s1) n2 ?s1)" (is "_ = Some (_, ?s2)")
    using C_GetSessionInfo_eq [OF assms(1,2) s1, of h "new_session TEE_SLOT_ID flags" i] by (auto simp: insert_session_def)
  have s2: "lock_idle ?s2" "lib_inv ?s2" "initialized ?s2"
    using s1 by (auto simp: lib_inv_relock lock_idle_def)
  obtain n3 where "C_CloseSession E h ?s2 = Some (CKR_OK, relock (global_lock ?s2) n3 (remove_session h ?s2))"
    using C_CloseSession_eq [OF assms(1,2) s2, of h] by (auto simp: insert_session_def)
  with op gi nh Some show ?thesis by (simp add: remove_session_def insert_session_def new_session_def)
qed

theorem open_close_session_witness:
  "\<exists>s1. C_OpenSession sample_env TEE_SLOT_ID 4 (Some 0) sample_lib = Some ((CKR_OK, Some 64), s1)"
proof -
  have "malloc sample_env (mallocs sample_lib) (dom (mem sample_lib)) = Some 64"
    by (simp add: sample_env_def sample_malloc_def sample_lib_def initial_lib_def)
  with open_close_session [OF sample_callbacks sample_malloc_ok sample_lib_inv(2,1,3), of 4 0
      "session_info (new_session TEE_SLOT_ID 0)"] show ?thesis
    by (simp add: ex_comm) blast
qed

text \<open>
  C1: the library is safe under every sequence of calls. In every state that any sequence of entry
  points reaches from the loaded library, with any arguments, any token and any allocator and callback
  behaviour that meets its contract: the session and object lists are duplicate-free lists of live
  nodes of the right kind, sessions and objects exist only while the library is initialised, every
  search under way holds only handles of listed objects in an array no other session shares, every
  signature under way has a listed key and an offered mechanism, and no call has left the lock taken.
\<close>

theorem reachable_inv:
  assumes "callbacks_progress E" and "malloc_ok E" and "reachable E s"
  shows "lib_inv s \<and> lock_idle s"
  using assms by (rule reachable_keeps)

lemma sample_reachable: "\<exists>s. reachable sample_env s \<and> initialized s"
proof -
  let ?s = "initial_lib ()"
  have i: "p11_init_lock sample_env None ?s = (CKR_OK, ?s)" by (simp add: p11_init_lock_def initial_lib_def)
  have "lock_idle ?s" "lib_inv ?s" "\<not> initialized ?s" by (simp_all add: lock_idle_def lib_inv_empty initial_lib_def)
  moreover have "slot_loaded sample_env" by (simp add: slot_loaded_def sample_env_def)
  ultimately obtain n where "C_Initialize sample_env None ?s = Some (CKR_OK, relock (global_lock ?s) n (marked sample_env ?s))"
    using C_Initialize_outcome [OF sample_callbacks _ _ _ i] by auto
  then have "reachable sample_env (relock (global_lock ?s) n (marked sample_env ?s))"
    by (rule reachable.step [OF reachable.loaded api_step.Initialize])
  then show ?thesis by (intro exI conjI) (assumption, simp add: marked_def)
qed

theorem reachable_inv_witness: "\<exists>s. reachable sample_env s \<and> initialized s \<and> lib_inv s"
  using sample_reachable reachable_inv [OF sample_callbacks sample_malloc_ok] by blast

end
