(* ===== verification/Sk_Codec.thy ===== *)
theory Sk_Codec
  imports Cryptoki
begin

text \<open>
  How attributes cross the border between the normal world and the trusted application, byte by
  byte: \<open>get_attr_size\<close>, \<open>pack_attrs\<close> and \<open>unpack_sk_attrs\<close> of the client
  (\<open>securekey_lib/src/securekey.c\<close>), and \<open>pack_sk_attrs\<close> and \<open>unpack_sk_attrs\<close> of the trusted
  application (\<open>secure_storage_ta/ta/secure_storage_helper.c\<close>).

  A serialised list is the number of attributes, one 12-byte header per attribute (type, offset of
  the value in the buffer or 0, length) and the values, each padded to a multiple of four bytes.
  A buffer is the list of its bytes; a write or a read outside of it is a fault (\<open>None\<close>). Sizes and
  offsets are natural numbers: the 64-bit \<open>size_t\<close> and \<open>uintptr_t\<close> cannot wrap here, because they
  count at most \<open>2 ^ 32\<close> headers and values of 16-bit length; the 32-bit offset field truncates.
\<close>

section \<open>Results of the trusted execution environment\<close>

type_synonym TEE_Result = u32

abbreviation (input) TEE_SUCCESS :: u32 where "TEE_SUCCESS \<equiv> 0"
abbreviation (input) TEE_ERROR_GENERIC :: u32 where "TEE_ERROR_GENERIC \<equiv> 0xFFFF0000"
abbreviation (input) TEE_ERROR_BAD_PARAMETERS :: u32 where "TEE_ERROR_BAD_PARAMETERS \<equiv> 0xFFFF0006"
abbreviation (input) TEE_ERROR_ITEM_NOT_FOUND :: u32 where "TEE_ERROR_ITEM_NOT_FOUND \<equiv> 0xFFFF0008"
abbreviation (input) TEE_ERROR_NOT_SUPPORTED :: u32 where "TEE_ERROR_NOT_SUPPORTED \<equiv> 0xFFFF000A"
abbreviation (input) TEE_ERROR_OUT_OF_MEMORY :: u32 where "TEE_ERROR_OUT_OF_MEMORY \<equiv> 0xFFFF000C"
abbreviation (input) TEE_ERROR_SHORT_BUFFER :: u32 where "TEE_ERROR_SHORT_BUFFER \<equiv> 0xFFFF0010"

section \<open>Accesses to a byte buffer\<close>

definition peek_u32 :: "byte list \<Rightarrow> nat \<Rightarrow> u32 option" where
  "peek_u32 b off = (if off + 4 \<le> length b then Some (get_u32 (slice b off 4)) else None)"

definition ROUNDUP :: "u32 \<Rightarrow> u32 \<Rightarrow> u32" where
  "ROUNDUP v sz = (v + (sz - 1)) AND NOT (sz - 1)"

abbreviation round4 :: "u16 \<Rightarrow> nat" where
  "round4 len \<equiv> unat (ROUNDUP (ucast len) 4)"

section \<open>Writing attributes\<close>

text \<open>
  One turn of the loops of \<open>pack_attrs\<close> and \<open>pack_sk_attrs\<close>: the header of attribute number \<open>i\<close>, and its
  value at \<open>off\<close> if it has one. The result is the buffer and the offset of the next value.
\<close>

definition put_attr :: "bool \<Rightarrow> SK_ATTRIBUTE \<Rightarrow> nat \<Rightarrow> nat \<Rightarrow> byte list \<Rightarrow> (byte list \<times> nat) option" where
  "put_attr has_value a i off b = do {
     b \<leftarrow> poke b (4 + 12 * i) (put_u32 (sk_type a));
     b \<leftarrow> poke b (4 + 12 * i + 8) (put_u32 (ucast (sk_valueLen a)));
     if \<not> has_value then do {
       b \<leftarrow> poke b (4 + 12 * i + 4) (put_u32 0);
       Some (b, off) }
     else do {
       v \<leftarrow> read_bytes (sk_value a) (unat (sk_valueLen a));
       b \<leftarrow> poke b off v;
       b \<leftarrow> poke b (4 + 12 * i + 4) (put_u32 (of_nat off));
       Some (b, off + round4 (sk_valueLen a)) } }"

text \<open>The loop over the array; \<open>sel\<close> tells which attributes are written at all.\<close>

primrec pack_loop ::
    "(SK_ATTRIBUTE \<Rightarrow> bool) \<Rightarrow> (SK_ATTRIBUTE \<Rightarrow> bool) \<Rightarrow> SK_ATTRIBUTE list \<Rightarrow> nat \<Rightarrow> nat \<Rightarrow> byte list \<Rightarrow> byte list option" where
  "pack_loop sel hv [] i off b = Some b"
| "pack_loop sel hv (a # as) i off b =
     (if sel a then do { (b, off) \<leftarrow> put_attr (hv a) a i off b; pack_loop sel hv as (Suc i) off b }
      else pack_loop sel hv as (Suc i) off b)"

text \<open>The client: an attribute of length 0 has no value. \<open>attrs\<close> is \<open>None\<close> for a null pointer.\<close>

definition sends_value :: "SK_ATTRIBUTE \<Rightarrow> bool" where
  "sends_value a \<longleftrightarrow> sk_valueLen a \<noteq> 0"

definition attr_array :: "SK_ATTRIBUTE list option \<Rightarrow> u32 \<Rightarrow> SK_ATTRIBUTE list option" where
  "attr_array attrs cnt = (case attrs of
       None \<Rightarrow> (if cnt = 0 then Some [] else None)
     | Some as \<Rightarrow> if unat cnt \<le> length as then Some (take (unat cnt) as) else None)"

definition pack_attrs :: "byte list \<Rightarrow> SK_ATTRIBUTE list option \<Rightarrow> u32 \<Rightarrow> (SK_RET_CODE \<times> byte list) option" where
  "pack_attrs buffer attrs attr_cnt =
     (if buffer = [] then Some (SKR_ERR_BAD_PARAMETERS, buffer)
      else do {
        b \<leftarrow> poke buffer 0 (put_u32 attr_cnt);
        as \<leftarrow> attr_array attrs attr_cnt;
        b \<leftarrow> pack_loop (\<lambda>_. True) sends_value as 0 (4 + 12 * unat attr_cnt) b;
        Some (SKR_OK, b) })"

definition values_size :: "(SK_ATTRIBUTE \<Rightarrow> bool) \<Rightarrow> SK_ATTRIBUTE list \<Rightarrow> nat" where
  "values_size hv as = sum_list (map (\<lambda>a. if hv a then round4 (sk_valueLen a) else 0) as)"

definition get_attr_size :: "SK_ATTRIBUTE list option \<Rightarrow> u32 \<Rightarrow> nat option" where
  "get_attr_size attrs attr_cnt =
     (if attr_cnt = 0 \<or> attrs = None then Some 4
      else do {
        as \<leftarrow> attr_array attrs attr_cnt;
        Some (4 + 12 * unat attr_cnt + values_size sends_value as) })"

text \<open>
  The trusted application: only the public attribute types are written, and an attribute without
  a value or with a length that is negative as an \<open>int16_t\<close> gets the offset 0. The header is
  written at the position of the attribute in the whole array.
\<close>

definition packable :: "SK_ATTRIBUTE \<Rightarrow> bool" where
  "packable a \<longleftrightarrow> sk_type a \<in> {SK_ATTR_OBJECT_TYPE, SK_ATTR_OBJECT_INDEX, SK_ATTR_KEY_TYPE, SK_ATTR_OBJECT_LABEL,
     SK_ATTR_MODULUS_BITS, SK_ATTR_MODULUS, SK_ATTR_PUBLIC_EXPONENT}"

definition stores_value :: "SK_ATTRIBUTE \<Rightarrow> bool" where
  "stores_value a \<longleftrightarrow> sk_value a \<noteq> None \<and> 0 < sint (sk_valueLen a)"

text \<open>\<open>ok\<close> is whether \<open>TEE_Malloc\<close> answers; the block it returns is zero.\<close>

definition pack_sk_attrs :: "bool \<Rightarrow> SK_ATTRIBUTE list \<Rightarrow> (TEE_Result \<times> byte list) option" where
  "pack_sk_attrs ok attrs =
     (if attrs = [] then Some (TEE_SUCCESS, [])
      else if \<not> ok then Some (TEE_ERROR_OUT_OF_MEMORY, [])
      else do {
        let attr_pack = length (filter packable attrs);
        let bl = 4 + 12 * attr_pack + values_size stores_value (filter packable attrs);
        b \<leftarrow> poke (replicate bl 0) 0 (put_u32 (of_nat attr_pack));
        b \<leftarrow> pack_loop packable stores_value attrs 0 (4 + 12 * attr_pack) b;
        Some (TEE_SUCCESS, b) })"

section \<open>Reading attributes\<close>

text \<open>
  The trusted application keeps pointers into the buffer: \<open>ta_ptr\<close> is the offset, or \<open>None\<close> for a null
  pointer. \<open>aligned\<close> is whether the buffer is aligned to four bytes.
\<close>

record ta_attr =
  ta_type :: u32
  ta_ptr :: "nat option"
  ta_len :: u16

primrec ta_unpack_loop :: "byte list \<Rightarrow> nat \<Rightarrow> nat \<Rightarrow> (TEE_Result \<times> ta_attr list) option" where
  "ta_unpack_loop buf 0 n = Some (TEE_SUCCESS, [])"
| "ta_unpack_loop buf (Suc k) n = do {
     ty \<leftarrow> peek_u32 buf (4 + 12 * n);
     b \<leftarrow> peek_u32 buf (4 + 12 * n + 8);
     p \<leftarrow> peek_u32 buf (4 + 12 * n + 4);
     let len = ucast b;
     if p \<noteq> 0 \<and> length buf < unat p + unat (len :: u16) then Some (TEE_ERROR_BAD_PARAMETERS, [])
     else do {
       (res, as) \<leftarrow> ta_unpack_loop buf k (Suc n);
       Some (res, if res = TEE_SUCCESS
         then \<lparr>ta_type = ty, ta_ptr = (if p = 0 then None else Some (unat p)), ta_len = len\<rparr> # as else []) } }"

definition ta_unpack_sk_attrs :: "bool \<Rightarrow> bool \<Rightarrow> byte list \<Rightarrow> (TEE_Result \<times> ta_attr list) option" where
  "ta_unpack_sk_attrs ok aligned buf =
     (if buf = [] then Some (TEE_SUCCESS, [])
      else if \<not> aligned \<or> length buf < 4 then Some (TEE_ERROR_BAD_PARAMETERS, [])
      else do {
        num_attrs \<leftarrow> peek_u32 buf 0;
        if length buf - 4 < unat num_attrs * 12 then Some (TEE_ERROR_BAD_PARAMETERS, [])
        else if num_attrs \<noteq> 0 \<and> \<not> ok then Some (TEE_ERROR_OUT_OF_MEMORY, [])
        else ta_unpack_loop buf (unat num_attrs) 0 })"

text \<open>What lies behind the pointers.\<close>

definition resolve :: "byte list \<Rightarrow> ta_attr \<Rightarrow> SK_ATTRIBUTE" where
  "resolve buf t = \<lparr>sk_type = ta_type t, sk_value = map_option (\<lambda>o'. drop o' buf) (ta_ptr t), sk_valueLen = ta_len t\<rparr>"

text \<open>The client copies into the caller's buffers, as far as it gets.\<close>

primrec unpack_loop :: "byte list \<Rightarrow> nat \<Rightarrow> nat \<Rightarrow> SK_ATTRIBUTE list \<Rightarrow> (TEE_Result \<times> SK_ATTRIBUTE list) option" where
  "unpack_loop buf 0 n as = Some (TEE_SUCCESS, as)"
| "unpack_loop buf (Suc k) n as =
     (if length as \<le> n then None
      else do {
        ty \<leftarrow> peek_u32 buf (4 + 12 * n);
        b \<leftarrow> peek_u32 buf (4 + 12 * n + 8);
        p \<leftarrow> peek_u32 buf (4 + 12 * n + 4);
        let a = (as ! n)\<lparr>sk_type := ty, sk_valueLen := ucast b\<rparr>;
        if p = 0 then unpack_loop buf k (Suc n) (as[n := a])
        else if length buf < unat p + unat (sk_valueLen a) then Some (TEE_ERROR_GENERIC, as[n := a])
        else do {
          v \<leftarrow> write_bytes (sk_value a) (slice buf (unat p) (unat (sk_valueLen a)));
          unpack_loop buf k (Suc n) (as[n := a\<lparr>sk_value := v\<rparr>]) } })"

definition unpack_sk_attrs :: "bool \<Rightarrow> byte list \<Rightarrow> SK_ATTRIBUTE list \<Rightarrow> (TEE_Result \<times> SK_ATTRIBUTE list) option" where
  "unpack_sk_attrs aligned buf attrs =
     (if buf = [] then Some (TEE_SUCCESS, attrs)
      else if \<not> aligned \<or> length buf < 4 then Some (TEE_ERROR_GENERIC, attrs)
      else do {
        num_attrs \<leftarrow> peek_u32 buf 0;
        if length buf - 4 < unat num_attrs * 12 then Some (TEE_ERROR_GENERIC, attrs)
        else unpack_loop buf (unat num_attrs) 0 attrs })"

text \<open>\<open>TA_GetSKAttr\<close>: the first attribute of the type.\<close>

definition TA_GetSKAttr :: "u32 \<Rightarrow> SK_ATTRIBUTE list \<Rightarrow> SK_ATTRIBUTE option" where
  "TA_GetSKAttr ty attrs = find (\<lambda>a. sk_type a = ty) attrs"

section \<open>The padding\<close>

lemma and_not_3: "(w :: u32) AND NOT 3 = w - (w AND 3)"
proof -
  have "NOT w AND (w AND 3) = 0" by (simp add: and.assoc [symmetric])
  then have "w - (w AND 3) = w AND NOT (w AND 3)" by (rule disjunctive_diff_eq_and_not)
  also have "\<dots> = w AND NOT 3" by (simp add: bit_eq_iff bit_simps) blast
  finally show ?thesis by simp
qed

lemma unat_and_3: "unat ((w :: u32) AND 3) = unat w mod 4"
proof -
  have "w AND 3 = take_bit 2 w" by (simp add: take_bit_eq_mask mask_eq_exp_minus_1)
  then have "unat (w AND 3) = take_bit 2 (unat w)" by (simp only: unsigned_take_bit_eq)
  then show ?thesis by (simp add: take_bit_eq_mod)
qed

lemma round4_eq: "round4 len = 4 * ((unat len + 3) div 4)"
proof -
  let ?w = "(ucast len :: u32) + 3"
  have "unat (ucast len :: u32) = unat len"
    using less_trans [OF unat_u16_less [of len], of "2 ^ 32"] by (simp add: unsigned_ucast_eq take_bit_nat_eq_self)
  then have w: "unat ?w = unat len + 3"
    using less_trans [OF unat_u16_less [of len], of 4294967293] by (simp add: unat_word_ariths)
  have "?w AND 3 \<le> ?w" by (simp add: word_le_nat_alt unat_and_3)
  then have "unat (?w AND NOT 3) = unat ?w - unat ?w mod 4" by (simp only: and_not_3 unat_sub unat_and_3)
  then show ?thesis by (simp add: ROUNDUP_def w minus_mod_eq_mult_div)
qed

lemma round4_bounds: "unat len \<le> round4 len" "round4 len < unat len + 4" "0 < unat len \<Longrightarrow> 0 < round4 len"
  by (simp_all add: round4_eq)

section \<open>Buffers\<close>

lemma peek_poke:
  "poke b off v = Some b' \<Longrightarrow> length v = 4 \<Longrightarrow> peek_u32 b' off = Some (get_u32 v)"
  using poke_SomeD [of b off v b'] by (auto simp: peek_u32_def poke_def split: if_splits)

lemma peek_cong: "length b' = length b \<Longrightarrow> slice b' off 4 = slice b off 4 \<Longrightarrow> peek_u32 b' off = peek_u32 b off"
  by (simp add: peek_u32_def)

section \<open>What the loop writes\<close>

text \<open>The bytes of an attribute's value can be read.\<close>

definition value_readable :: "SK_ATTRIBUTE \<Rightarrow> bool" where
  "value_readable a \<longleftrightarrow> read_bytes (sk_value a) (unat (sk_valueLen a)) \<noteq> None"

definition value_bytes :: "SK_ATTRIBUTE \<Rightarrow> byte list" where
  "value_bytes a = (case sk_value a of None \<Rightarrow> [] | Some v \<Rightarrow> take (unat (sk_valueLen a)) v)"

lemma read_value: "value_readable a \<Longrightarrow> read_bytes (sk_value a) (unat (sk_valueLen a)) = Some (value_bytes a) \<and>
    length (value_bytes a) = unat (sk_valueLen a)"
  by (auto simp: value_readable_def value_bytes_def read_bytes_def split: if_splits option.splits)

text \<open>Attributes \<open>as\<close> stand in the buffer from header \<open>i\<close> on, their values from \<open>off\<close> on.\<close>

primrec packed :: "(SK_ATTRIBUTE \<Rightarrow> bool) \<Rightarrow> byte list \<Rightarrow> nat \<Rightarrow> nat \<Rightarrow> SK_ATTRIBUTE list \<Rightarrow> bool" where
  "packed hv b i off [] = True"
| "packed hv b i off (a # as) =
     (peek_u32 b (4 + 12 * i) = Some (sk_type a) \<and>
      peek_u32 b (4 + 12 * i + 8) = Some (ucast (sk_valueLen a)) \<and>
      peek_u32 b (4 + 12 * i + 4) = Some (if hv a then of_nat off else 0) \<and>
      (hv a \<longrightarrow> slice b off (unat (sk_valueLen a)) = value_bytes a) \<and>
      packed hv b (Suc i) (if hv a then off + round4 (sk_valueLen a) else off) as)"

text \<open>
  The part of the buffer the loop does not touch when it writes from header \<open>i\<close> to header \<open>e\<close> and
  values from \<open>off\<close> on.
\<close>

definition same_outside :: "nat \<Rightarrow> nat \<Rightarrow> nat \<Rightarrow> byte list \<Rightarrow> byte list \<Rightarrow> bool" where
  "same_outside i e off b b' \<longleftrightarrow> length b' = length b \<and>
     (\<forall>x n. x + n \<le> 4 + 12 * i \<or> 4 + 12 * e \<le> x \<and> x + n \<le> off \<longrightarrow> slice b' x n = slice b x n)"

text \<open>The type and the length of entry \<open>i\<close> of the header, and the bytes that are not theirs.\<close>

lemma put_head_ok:
  assumes "4 + 12 * i + 12 \<le> length b"
  shows "\<exists>b1 b2. poke b (4 + 12 * i) (put_u32 t) = Some b1 \<and> poke b1 (4 + 12 * i + 8) (put_u32 l) = Some b2 \<and>
    length b2 = length b \<and> peek_u32 b2 (4 + 12 * i) = Some t \<and> peek_u32 b2 (4 + 12 * i + 8) = Some l \<and>
    (\<forall>x n. x + n \<le> 4 + 12 * i \<or> 4 + 12 * i + 12 \<le> x \<longrightarrow> slice b2 x n = slice b x n)"
proof -
  obtain b1 where b1: "poke b (4 + 12 * i) (put_u32 t) = Some b1" "length b1 = length b"
    using poke_Some [of "4 + 12 * i" "put_u32 t" b] assms by auto
  obtain b2 where b2: "poke b1 (4 + 12 * i + 8) (put_u32 l) = Some b2" "length b2 = length b"
    using poke_Some [of "4 + 12 * i + 8" "put_u32 l" b1] assms b1 by auto
  note p1 = poke_SomeD [OF b1(1)] and p2 = poke_SomeD [OF b2(1)]
  have "slice b2 x n = slice b x n" if "x + n \<le> 4 + 12 * i \<or> 4 + 12 * i + 12 \<le> x" for x n
    using that p1(3) [of x n] p2(3) [of x n] by force
  moreover have "peek_u32 b2 (4 + 12 * i) = Some t"
    using peek_cong [of b2 b1 "4 + 12 * i"] p2(3) [of "4 + 12 * i" 4] peek_poke [OF b1(1)] b1 b2 by simp
  ultimately show ?thesis using b1 b2 peek_poke [OF b2(1)] by auto
qed

text \<open>The last store of an attribute: its offset, between the two words of the head.\<close>

lemma put_offset_ok:
  assumes "4 + 12 * i + 12 \<le> length b" and "peek_u32 b (4 + 12 * i) = Some t" and "peek_u32 b (4 + 12 * i + 8) = Some l"
  shows "\<exists>b'. poke b (4 + 12 * i + 4) (put_u32 v) = Some b' \<and> length b' = length b \<and>
    peek_u32 b' (4 + 12 * i) = Some t \<and> peek_u32 b' (4 + 12 * i + 8) = Some l \<and> peek_u32 b' (4 + 12 * i + 4) = Some v \<and>
    (\<forall>x n. x + n \<le> 4 + 12 * i \<or> 4 + 12 * i + 12 \<le> x \<longrightarrow> slice b' x n = slice b x n)"
proof -
  obtain b' where b': "poke b (4 + 12 * i + 4) (put_u32 v) = Some b'" "length b' = length b"
    using poke_Some [of "4 + 12 * i + 4" "put_u32 v" b] assms(1) by auto
  note p = poke_SomeD [OF b'(1)]
  have "slice b' x n = slice b x n" if "x + n \<le> 4 + 12 * i \<or> 4 + 12 * i + 12 \<le> x" for x n
    by (rule p(3)) (use that in force)
  moreover have "peek_u32 b' x = peek_u32 b x" if "x = 4 + 12 * i \<or> x = 4 + 12 * i + 8" for x
    by (rule peek_cong [OF b'(2) p(3)]) (use that in force)
  ultimately show ?thesis using b' assms(2,3) peek_poke [OF b'(1)] by auto
qed

lemma put_attr_ok:
  assumes "i < e" and "4 + 12 * e \<le> off" and "hv a \<Longrightarrow> value_readable a"
    and "off' = (if hv a then off + round4 (sk_valueLen a) else off)" and "off' \<le> length b"
  shows "\<exists>b'. put_attr (hv a) a i off b = Some (b', off') \<and> length b' = length b \<and>
    (\<forall>x n. x + n \<le> 4 + 12 * i \<or> 4 + 12 * e \<le> x \<and> x + n \<le> off \<longrightarrow> slice b' x n = slice b x n) \<and>
    peek_u32 b' (4 + 12 * i) = Some (sk_type a) \<and>
    peek_u32 b' (4 + 12 * i + 8) = Some (ucast (sk_valueLen a)) \<and>
    peek_u32 b' (4 + 12 * i + 4) = Some (if hv a then of_nat off else 0) \<and>
    (hv a \<longrightarrow> slice b' off (unat (sk_valueLen a)) = value_bytes a)"
proof -
  have off: "4 + 12 * i + 12 \<le> off" "off \<le> length b" using assms by (auto split: if_splits)
  obtain b1 b2 where b2: "poke b (4 + 12 * i) (put_u32 (sk_type a)) = Some b1"
      "poke b1 (4 + 12 * i + 8) (put_u32 (ucast (sk_valueLen a))) = Some b2" "length b2 = length b"
    and h2: "peek_u32 b2 (4 + 12 * i) = Some (sk_type a)" "peek_u32 b2 (4 + 12 * i + 8) = Some (ucast (sk_valueLen a))"
    and k2: "\<And>x n. x + n \<le> 4 + 12 * i \<or> 4 + 12 * i + 12 \<le> x \<Longrightarrow> slice b2 x n = slice b x n"
    using put_head_ok [of i b "sk_type a" "ucast (sk_valueLen a)"] off by auto
  have out: "x + n \<le> 4 + 12 * i \<or> 4 + 12 * i + 12 \<le> x" "x + n \<le> off"
    if "x + n \<le> 4 + 12 * i \<or> 4 + 12 * e \<le> x \<and> x + n \<le> off" for x n
    using that assms(1) off(1) by auto
  show ?thesis
  proof (cases "hv a")
    case False
    obtain b3 where b3: "poke b2 (4 + 12 * i + 4) (put_u32 0) = Some b3" "length b3 = length b2"
        "peek_u32 b3 (4 + 12 * i) = Some (sk_type a)" "peek_u32 b3 (4 + 12 * i + 8) = Some (ucast (sk_valueLen a))"
        "peek_u32 b3 (4 + 12 * i + 4) = Some 0"
      and k3: "\<And>x n. x + n \<le> 4 + 12 * i \<or> 4 + 12 * i + 12 \<le> x \<Longrightarrow> slice b3 x n = slice b2 x n"
      using put_offset_ok [OF _ h2, of 0] off b2(3) by auto
    have "put_attr (hv a) a i off b = Some (b3, off')" using False assms(4) b2 b3 by (simp add: put_attr_def)
    then show ?thesis using b2(3) b3 k3 [OF out(1)] k2 [OF out(1)] False by (intro exI [of _ b3]) auto
  next
    case True
    note rv = read_value [OF assms(3) [OF True]]
    have fit: "off + length (value_bytes a) \<le> length b"
      using assms(4,5) True rv round4_bounds(1) [of "sk_valueLen a"] by simp
    obtain b3 where b3: "poke b2 off (value_bytes a) = Some b3" "length b3 = length b"
      using poke_Some [of off "value_bytes a" b2] fit b2 by auto
    note p3 = poke_SomeD [OF b3(1)]
    have "peek_u32 b3 x = peek_u32 b2 x" if "x + 4 \<le> off" for x
      by (rule peek_cong) (use b2 b3 p3(3) that in auto)
    then have h3: "peek_u32 b3 (4 + 12 * i) = Some (sk_type a)" "peek_u32 b3 (4 + 12 * i + 8) = Some (ucast (sk_valueLen a))"
      using off(1) h2 by simp_all
    obtain b4 where b4: "poke b3 (4 + 12 * i + 4) (put_u32 (of_nat off)) = Some b4" "length b4 = length b3"
        "peek_u32 b4 (4 + 12 * i) = Some (sk_type a)" "peek_u32 b4 (4 + 12 * i + 8) = Some (ucast (sk_valueLen a))"
        "peek_u32 b4 (4 + 12 * i + 4) = Some (of_nat off)"
      and k4: "\<And>x n. x + n \<le> 4 + 12 * i \<or> 4 + 12 * i + 12 \<le> x \<Longrightarrow> slice b4 x n = slice b3 x n"
      using put_offset_ok [OF _ h3, of "of_nat off"] off b3(2) by auto
    have "put_attr (hv a) a i off b = Some (b4, off')" using True assms(4) b2 b3 b4 rv by (simp add: put_attr_def)
    moreover have "slice b4 off (unat (sk_valueLen a)) = value_bytes a" using k4 [of off] off(1) p3(2) rv by simp
    ultimately show ?thesis
      using b3(2) b4 k4 [OF out(1)] p3(3) [OF disjI1, OF out(2)] k2 [OF out(1)] True by (intro exI [of _ b4]) auto
  qed
qed

lemma pack_loop_ok:
  assumes "e = i + length as" and "4 + 12 * e \<le> off" and "off + values_size hv as \<le> length b"
    and "\<And>a. a \<in> set as \<Longrightarrow> hv a \<Longrightarrow> value_readable a" and "\<And>a. a \<in> set as \<Longrightarrow> sel a"
  shows "\<exists>b'. pack_loop sel hv as i off b = Some b' \<and> same_outside i e off b b' \<and> packed hv b' i off as"
  using assms
proof (induction as arbitrary: i off b)
  case Nil
  then show ?case by (simp add: same_outside_def)
next
  case (Cons a as)
  define off' where "off' = (if hv a then off + round4 (sk_valueLen a) else off)"
  have v: "off' + values_size hv as \<le> length b" using Cons.prems(3) by (simp add: values_size_def off'_def split: if_splits)
  have "i < e" "4 + 12 * e \<le> off" "hv a \<Longrightarrow> value_readable a" "off' \<le> length b"
    using Cons.prems v by auto
  note ok = put_attr_ok [of i e off hv a off' b, OF this(1-3) off'_def this(4)]
  obtain b1 where b1: "put_attr (hv a) a i off b = Some (b1, off')" "length b1 = length b"
    and fr: "\<And>x n. x + n \<le> 4 + 12 * i \<or> 4 + 12 * e \<le> x \<and> x + n \<le> off \<Longrightarrow> slice b1 x n = slice b x n"
    and hd: "peek_u32 b1 (4 + 12 * i) = Some (sk_type a)" "peek_u32 b1 (4 + 12 * i + 8) = Some (ucast (sk_valueLen a))"
      "peek_u32 b1 (4 + 12 * i + 4) = Some (if hv a then of_nat off else 0)"
      "hv a \<Longrightarrow> slice b1 off (unat (sk_valueLen a)) = value_bytes a"
    using ok by blast
  have "\<exists>b'. pack_loop sel hv as (Suc i) off' b1 = Some b' \<and> same_outside (Suc i) e off' b1 b' \<and> packed hv b' (Suc i) off' as"
    by (rule Cons.IH) (use Cons.prems v b1(2) in \<open>auto simp: off'_def\<close>)
  then obtain b' where b': "pack_loop sel hv as (Suc i) off' b1 = Some b'" "same_outside (Suc i) e off' b1 b'"
    "packed hv b' (Suc i) off' as" by blast
  have keep: "slice b' x n = slice b1 x n" if "x + n \<le> 4 + 12 * Suc i \<or> 4 + 12 * e \<le> x \<and> x + n \<le> off'" for x n
    using b'(2) that unfolding same_outside_def by blast
  have len: "length b' = length b1" using b'(2) by (simp add: same_outside_def)
  have o: "off \<le> off'" by (simp add: off'_def)
  have pk: "peek_u32 b' (4 + 12 * i + d) = peek_u32 b1 (4 + 12 * i + d)" if "d \<le> 8" for d
    using that by (intro peek_cong [OF len] keep) simp
  have "packed hv b' i off (a # as)"
    using hd pk [of 0] pk [of 4] pk [of 8] b'(3) keep [of off "unat (sk_valueLen a)"] Cons.prems(2)
      round4_bounds(1) [of "sk_valueLen a"]
    by (auto simp: off'_def [symmetric]) (simp_all add: off'_def)
  moreover have "same_outside i e off b b'"
    unfolding same_outside_def using len b1(2) keep fr o by (auto intro: trans)
  ultimately show ?case using b1(1) b'(1) Cons.prems(5) by simp
qed

end
