(* ===== verification/Sk_Channel.thy ===== *)
theory Sk_Channel
  imports Sk_Codec
begin

text \<open>
  The attribute codec as a channel: what the two writers of \<open>Sk_Codec\<close> put into a buffer is what the
  reader of the trusted application sees, the reader is safe on arbitrary bytes, and the writer of
  the trusted application overruns its block when a private attribute precedes a public one. The
  locale \<open>attr_channel\<close> states the contract once; the client's writer and the trusted application's
  writer are its two instances.
\<close>

section \<open>What the reader sees\<close>

text \<open>The reader's array for attributes whose values start at \<open>off\<close>.\<close>

primrec placed :: "(SK_ATTRIBUTE \<Rightarrow> bool) \<Rightarrow> nat \<Rightarrow> SK_ATTRIBUTE list \<Rightarrow> ta_attr list" where
  "placed hv off [] = []"
| "placed hv off (a # as) =
     \<lparr>ta_type = sk_type a, ta_ptr = (if hv a then Some off else None), ta_len = sk_valueLen a\<rparr> #
     placed hv (if hv a then off + round4 (sk_valueLen a) else off) as"

lemma ucast_u16_u32 [simp]: "(ucast (ucast (x :: u16) :: u32) :: u16) = x"
  by (simp add: ucast_down_ucast_id is_down)

lemma values_size_simps [simp]:
  "values_size hv [] = 0"
  "values_size hv (a # as) = (if hv a then round4 (sk_valueLen a) else 0) + values_size hv as"
  by (simp_all add: values_size_def)

lemma ta_unpack_loop_packed:
  assumes "packed hv b i off as" and "0 < off" and "off + values_size hv as \<le> length b" and "length b < 2 ^ 32"
  shows "ta_unpack_loop b (length as) i = Some (TEE_SUCCESS, placed hv off as)"
  using assms
proof (induction as arbitrary: i off)
  case Nil
  then show ?case by simp
next
  case (Cons a as)
  let ?off = "if hv a then off + round4 (sk_valueLen a) else off"
  have "ta_unpack_loop b (length as) (Suc i) = Some (TEE_SUCCESS, placed hv ?off as)"
    by (rule Cons.IH) (use Cons.prems in auto)
  moreover have o: "unat (of_nat off :: u32) = off" using Cons.prems(3,4) by (simp add: unat_of_nat take_bit_nat_eq_self)
  moreover have "(of_nat off :: u32) \<noteq> 0" using o Cons.prems(2) by auto
  ultimately show ?case
    using Cons.prems round4_bounds(1) [of "sk_valueLen a"] by (cases "hv a") (simp_all add: Let_def)
qed

text \<open>Two attribute structures that mean the same: type, length, and the bytes if there are any.\<close>

definition same_attr :: "(SK_ATTRIBUTE \<Rightarrow> bool) \<Rightarrow> SK_ATTRIBUTE \<Rightarrow> SK_ATTRIBUTE \<Rightarrow> bool" where
  "same_attr hv a a' \<longleftrightarrow> sk_type a' = sk_type a \<and> sk_valueLen a' = sk_valueLen a \<and>
     (if hv a then \<exists>v. sk_value a' = Some v \<and> unat (sk_valueLen a) \<le> length v \<and>
        take (unat (sk_valueLen a)) v = value_bytes a
      else sk_value a' = None)"

lemma resolve_placed:
  assumes "packed hv b i off as" and "off + values_size hv as \<le> length b"
  shows "list_all2 (same_attr hv) as (map (resolve b) (placed hv off as))"
  using assms
proof (induction as arbitrary: i off)
  case Nil
  then show ?case by simp
next
  case (Cons a as)
  let ?off = "if hv a then off + round4 (sk_valueLen a) else off"
  have "list_all2 (same_attr hv) as (map (resolve b) (placed hv ?off as))"
    by (rule Cons.IH [of "Suc i"]) (use Cons.prems in auto)
  moreover have "same_attr hv a (resolve b \<lparr>ta_type = sk_type a, ta_ptr = if hv a then Some off else None, ta_len = sk_valueLen a\<rparr>)"
    using Cons.prems round4_bounds(1) [of "sk_valueLen a"] by (auto simp: same_attr_def resolve_def slice_def split: if_splits)
  ultimately show ?case by simp
qed

section \<open>The reader is safe\<close>

definition inside :: "byte list \<Rightarrow> ta_attr \<Rightarrow> bool" where
  "inside buf t \<longleftrightarrow> (case ta_ptr t of None \<Rightarrow> True | Some o' \<Rightarrow> o' + unat (ta_len t) \<le> length buf)"

lemma ta_unpack_loop_safe:
  "4 + 12 * (n + k) \<le> length buf \<Longrightarrow>
   \<exists>res as. ta_unpack_loop buf k n = Some (res, as) \<and> res \<in> {TEE_SUCCESS, TEE_ERROR_BAD_PARAMETERS} \<and>
     list_all (inside buf) as \<and> length as = (if res = TEE_SUCCESS then k else 0)"
proof (induction k arbitrary: n)
  case 0
  then show ?case by simp
next
  case (Suc k)
  obtain res as where r: "ta_unpack_loop buf k (Suc n) = Some (res, as)"
      "res \<in> {TEE_SUCCESS, TEE_ERROR_BAD_PARAMETERS}" "list_all (inside buf) as" "length as = (if res = TEE_SUCCESS then k else 0)"
    using Suc.IH [of "Suc n"] Suc.prems by auto
  obtain ty b p where "peek_u32 buf (4 + 12 * n) = Some ty" "peek_u32 buf (4 + 12 * n + 8) = Some b"
      "peek_u32 buf (4 + 12 * n + 4) = Some p"
    using Suc.prems by (simp add: peek_u32_def)
  with r show ?case by (auto simp: Let_def inside_def [of buf "ta_attr.make _ _ _", unfolded ta_attr.make_def])
qed

lemma ta_unpack_safe:
  "\<exists>res as. ta_unpack_sk_attrs ok aligned buf = Some (res, as) \<and>
     res \<in> {TEE_SUCCESS, TEE_ERROR_BAD_PARAMETERS, TEE_ERROR_OUT_OF_MEMORY} \<and>
     list_all (inside buf) as \<and> (res \<noteq> TEE_SUCCESS \<longrightarrow> as = []) \<and>
     (res = TEE_SUCCESS \<longrightarrow> buf \<noteq> [] \<longrightarrow> peek_u32 buf 0 = Some (of_nat (length as)))"
proof (cases "buf = [] \<or> \<not> aligned \<or> length buf < 4")
  case True
  then show ?thesis by (auto simp: ta_unpack_sk_attrs_def)
next
  case False
  then obtain m where m: "peek_u32 buf 0 = Some m" by (simp add: peek_u32_def)
  show ?thesis
  proof (cases "length buf - 4 < unat m * 12 \<or> m \<noteq> 0 \<and> \<not> ok")
    case True
    with False m show ?thesis by (auto simp: ta_unpack_sk_attrs_def)
  next
    case fits: False
    then obtain res as where "ta_unpack_loop buf (unat m) 0 = Some (res, as)"
      "res \<in> {TEE_SUCCESS, TEE_ERROR_BAD_PARAMETERS}" "list_all (inside buf) as" "length as = (if res = TEE_SUCCESS then unat m else 0)"
      using ta_unpack_loop_safe [of 0 "unat m" buf] False by fastforce
    with False m fits show ?thesis by (auto simp: ta_unpack_sk_attrs_def)
  qed
qed

section \<open>The two writers\<close>

definition packed_buffer :: "(SK_ATTRIBUTE \<Rightarrow> bool) \<Rightarrow> SK_ATTRIBUTE list \<Rightarrow> byte list \<Rightarrow> bool" where
  "packed_buffer hv as b \<longleftrightarrow> peek_u32 b 0 = Some (of_nat (length as)) \<and> packed hv b 0 (4 + 12 * length as) as \<and>
     length b = 4 + 12 * length as + values_size hv as"

text \<open>Attributes whose values can be read and whose serialised form stays below 4 GiB.\<close>

definition transmissible :: "(SK_ATTRIBUTE \<Rightarrow> bool) \<Rightarrow> SK_ATTRIBUTE list \<Rightarrow> bool" where
  "transmissible hv as \<longleftrightarrow> list_all (\<lambda>a. hv a \<longrightarrow> value_readable a) as \<and> 4 + 12 * length as + values_size hv as < 2 ^ 32"

lemma transmissible_count: "transmissible hv as \<Longrightarrow> unat (of_nat (length as) :: u32) = length as"
  by (simp add: transmissible_def unat_of_nat take_bit_nat_eq_self)

text \<open>The count and the loop, on a buffer of the computed size.\<close>

lemma pack_count_loop:
  assumes "transmissible hv as" and "length b = 4 + 12 * length as + values_size hv as" and "list_all sel as"
  shows "\<exists>b0 b'. poke b 0 (put_u32 (of_nat (length as))) = Some b0 \<and>
    pack_loop sel hv as 0 (4 + 12 * length as) b0 = Some b' \<and> packed_buffer hv as b'"
proof -
  obtain b0 where b0: "poke b 0 (put_u32 (of_nat (length as))) = Some b0" "length b0 = length b"
    using poke_Some [of 0 "put_u32 (of_nat (length as))" b] assms(2) by auto
  have "\<exists>b'. pack_loop sel hv as 0 (4 + 12 * length as) b0 = Some b' \<and>
      same_outside 0 (length as) (4 + 12 * length as) b0 b' \<and> packed hv b' 0 (4 + 12 * length as) as"
    by (rule pack_loop_ok) (use assms b0 in \<open>auto simp: transmissible_def list_all_iff\<close>)
  then obtain b' where b': "pack_loop sel hv as 0 (4 + 12 * length as) b0 = Some b'"
      "same_outside 0 (length as) (4 + 12 * length as) b0 b'" "packed hv b' 0 (4 + 12 * length as) as" by blast
  have "length b' = length b0" "slice b' 0 4 = slice b0 0 4" using b'(2) by (auto simp: same_outside_def)
  then have "peek_u32 b' 0 = Some (of_nat (length as))"
    using peek_cong [of b' b0 0] peek_poke [OF b0(1)] by simp
  with b0 b' \<open>length b' = length b0\<close> assms(2) show ?thesis by (auto simp: packed_buffer_def)
qed

lemma attr_array_all: "unat (of_nat (length as) :: u32) = length as \<Longrightarrow> attr_array (Some as) (of_nat (length as)) = Some as"
  by (simp add: attr_array_def)

lemma get_attr_size_eq:
  "transmissible sends_value as \<Longrightarrow>
   get_attr_size (Some as) (of_nat (length as)) = Some (4 + 12 * length as + values_size sends_value as)"
  using transmissible_count [of sends_value as] by (auto simp: get_attr_size_def attr_array_all)

lemma pack_attrs_packed:
  assumes "transmissible sends_value as" and "length b = 4 + 12 * length as + values_size sends_value as"
  shows "\<exists>b'. pack_attrs b (Some as) (of_nat (length as)) = Some (SKR_OK, b') \<and> packed_buffer sends_value as b'"
  using pack_count_loop [OF assms, of "\<lambda>_. True"] assms(2) transmissible_count [OF assms(1)]
  by (auto simp: pack_attrs_def attr_array_all list_all_iff)

lemma pack_loop_skip: "\<not> list_ex sel as \<Longrightarrow> pack_loop sel hv as i off b = Some b"
  by (induction as arbitrary: i) auto

lemma pack_loop_append:
  "\<not> list_ex sel ys \<Longrightarrow> pack_loop sel hv (xs @ ys) i off b = pack_loop sel hv xs i off b"
  by (induction xs arbitrary: i off b) (auto simp: pack_loop_skip split: bind_splits)

text \<open>The attributes the trusted application keeps stand before all the others.\<close>

definition packable_first :: "SK_ATTRIBUTE list \<Rightarrow> bool" where
  "packable_first as \<longleftrightarrow> \<not> list_ex packable (dropWhile packable as)"

lemma packable_first_filter: "packable_first as \<Longrightarrow> filter packable as = takeWhile packable as"
proof -
  assume "packable_first as"
  then have "filter packable (dropWhile packable as) = []"
    by (simp add: packable_first_def filter_empty_conv list_ex_iff)
  then have "filter packable (takeWhile packable as @ dropWhile packable as) = takeWhile packable as"
    by (simp only: filter_append) (auto simp: filter_id_conv dest: set_takeWhileD)
  then show ?thesis by simp
qed

lemma pack_sk_attrs_packed:
  assumes "transmissible stores_value (filter packable as)" and "packable_first as" and "as \<noteq> []"
  shows "\<exists>b'. pack_sk_attrs True as = Some (TEE_SUCCESS, b') \<and> packed_buffer stores_value (filter packable as) b'"
proof -
  let ?ps = "filter packable as"
  have split: "pack_loop packable stores_value as i off b = pack_loop packable stores_value ?ps i off b" for i off b
    using pack_loop_append [of packable "dropWhile packable as" stores_value ?ps i off b] assms(2)
    by (simp add: packable_first_def packable_first_filter [OF assms(2)])
  have "list_all packable ?ps" by (simp add: list_all_iff)
  with pack_count_loop [OF assms(1), of "replicate (4 + 12 * length ?ps + values_size stores_value ?ps) 0" packable]
  show ?thesis using assms(3) by (auto simp: pack_sk_attrs_def Let_def split)
qed

lemma unpack_packed_buffer:
  assumes "packed_buffer hv as b" and "transmissible hv as"
  shows "ta_unpack_sk_attrs True True b = Some (TEE_SUCCESS, placed hv (4 + 12 * length as) as)"
    and "list_all2 (same_attr hv) as (map (resolve b) (placed hv (4 + 12 * length as) as))"
proof -
  have p: "packed hv b 0 (4 + 12 * length as) as" "peek_u32 b 0 = Some (of_nat (length as))"
    "length b = 4 + 12 * length as + values_size hv as" "length b < 2 ^ 32"
    using assms by (auto simp: packed_buffer_def transmissible_def)
  show "ta_unpack_sk_attrs True True b = Some (TEE_SUCCESS, placed hv (4 + 12 * length as) as)"
    using ta_unpack_loop_packed [OF p(1)] p transmissible_count [OF assms(2)] by (auto simp: ta_unpack_sk_attrs_def)
  show "list_all2 (same_attr hv) as (map (resolve b) (placed hv (4 + 12 * length as) as))"
    by (rule resolve_placed [OF p(1)]) (simp add: p(3))
qed

section \<open>The channel\<close>

text \<open>
  The contract both writers have with the reader: what is sent (\<open>part\<close> of the array, the attributes
  with a value being those of \<open>hv\<close>) arrives, attribute by attribute.
\<close>

locale attr_channel =
  fixes send :: "SK_ATTRIBUTE list \<Rightarrow> byte list option"
    and carries :: "SK_ATTRIBUTE list \<Rightarrow> bool"
    and part :: "SK_ATTRIBUTE list \<Rightarrow> SK_ATTRIBUTE list"
    and hv :: "SK_ATTRIBUTE \<Rightarrow> bool"
  assumes transmit: "carries as \<Longrightarrow> \<exists>b ts. send as = Some b \<and> ta_unpack_sk_attrs True True b = Some (TEE_SUCCESS, ts) \<and>
    list_all2 (same_attr hv) (part as) (map (resolve b) ts)"
begin

lemma arrives:
  assumes "carries as" and "send as = Some b" and "ta_unpack_sk_attrs True True b = Some (rc, ts)"
  shows "rc = TEE_SUCCESS" and "list_all2 (same_attr hv) (part as) (map (resolve b) ts)"
  using transmit [OF assms(1)] assms(2,3) by auto

lemma arrives_count:
  assumes "carries as" and "send as = Some b" and "ta_unpack_sk_attrs True True b = Some (rc, ts)"
  shows "length ts = length (part as)"
  using arrives(2) [OF assms] by (auto dest: list_all2_lengthD)

lemma lookup_received:
  assumes "carries as" and "send as = Some b" and "ta_unpack_sk_attrs True True b = Some (rc, ts)"
  shows "rel_option (same_attr hv) (TA_GetSKAttr ty (part as)) (TA_GetSKAttr ty (map (resolve b) ts))"
  using arrives(2) [OF assms] unfolding TA_GetSKAttr_def
  by (induction rule: list_all2_induct) (auto simp: same_attr_def)

end

text \<open>The client sends the whole array, in a block of shared memory whose contents are arbitrary.\<close>

definition client_send :: "(nat \<Rightarrow> byte) \<Rightarrow> SK_ATTRIBUTE list \<Rightarrow> byte list option" where
  "client_send junk as = do {
     sz \<leftarrow> get_attr_size (Some as) (of_nat (length as));
     (rc, b) \<leftarrow> pack_attrs (map junk [0..<sz]) (Some as) (of_nat (length as));
     if rc = SKR_OK then Some b else None }"

interpretation to_ta: attr_channel "client_send junk" "transmissible sends_value" "\<lambda>as. as" sends_value for junk
proof
  fix as assume as: "transmissible sends_value as"
  then obtain b where b: "client_send junk as = Some b" "packed_buffer sends_value as b"
    using pack_attrs_packed [OF as, of "map junk [0..<4 + 12 * length as + values_size sends_value as]"]
    by (auto simp: client_send_def get_attr_size_eq)
  then show "\<exists>b ts. client_send junk as = Some b \<and> ta_unpack_sk_attrs True True b = Some (TEE_SUCCESS, ts) \<and>
      list_all2 (same_attr sends_value) as (map (resolve b) ts)"
    using unpack_packed_buffer [OF b(2) as] by blast
qed

text \<open>The trusted application stores the attributes of public types.\<close>

definition store_send :: "SK_ATTRIBUTE list \<Rightarrow> byte list option" where
  "store_send as = do {
     (rc, b) \<leftarrow> pack_sk_attrs True as;
     if rc = TEE_SUCCESS then Some b else None }"

definition storable_list :: "SK_ATTRIBUTE list \<Rightarrow> bool" where
  "storable_list as \<longleftrightarrow> transmissible stores_value (filter packable as) \<and> packable_first as"

interpretation to_store: attr_channel store_send storable_list "filter packable" stores_value
proof
  fix as assume as: "storable_list as"
  show "\<exists>b ts. store_send as = Some b \<and> ta_unpack_sk_attrs True True b = Some (TEE_SUCCESS, ts) \<and>
      list_all2 (same_attr stores_value) (filter packable as) (map (resolve b) ts)"
  proof (cases "as = []")
    case True
    then show ?thesis by (simp add: store_send_def pack_sk_attrs_def ta_unpack_sk_attrs_def)
  next
    case False
    then obtain b where b: "store_send as = Some b" "packed_buffer stores_value (filter packable as) b"
      using pack_sk_attrs_packed [of as] as by (auto simp: store_send_def storable_list_def)
    with as unpack_packed_buffer [OF b(2)] show ?thesis by (auto simp: storable_list_def)
  qed
qed

section \<open>The header index of pack\_sk\_attrs\<close>

lemma packable_beyond:
  "\<not> packable_first as \<Longrightarrow> \<exists>j < length as. packable (as ! j) \<and> length (filter packable as) \<le> j"
proof (induction as rule: rev_induct)
  case Nil
  then show ?case by (simp add: packable_first_def)
next
  case (snoc a as)
  show ?case
  proof (cases "packable a")
    case True
    have "\<not> list_all packable as"
    proof
      assume "list_all packable as"
      then have "dropWhile packable (as @ [a]) = []" using True by (auto simp: list_all_iff)
      with snoc.prems show False by (simp add: packable_first_def)
    qed
    then have "length (filter packable as) < length as"
      by (auto simp: list_all_iff intro: length_filter_less)
    with True show ?thesis by (intro exI [of _ "length as"]) simp
  next
    case False
    have "\<not> packable_first as"
    proof
      assume "packable_first as"
      with False have "packable_first (as @ [a])"
        by (cases "\<forall>x \<in> set as. packable x") (auto simp: packable_first_def dropWhile_append)
      with snoc.prems show False by simp
    qed
    from snoc.IH [OF this] obtain j where "j < length as" "packable (as ! j)" "length (filter packable as) \<le> j" by blast
    with False show ?thesis by (intro exI [of _ j]) (simp add: nth_append)
  qed
qed

lemma put_attr_length: "put_attr v a i off b = Some (b', off') \<Longrightarrow> length b' = length b"
  by (auto simp: put_attr_def dest!: poke_SomeD(1) split: bind_splits if_splits)

lemma pack_loop_beyond:
  "j < length as \<Longrightarrow> packable (as ! j) \<Longrightarrow> length b \<le> 4 + 12 * (i + j) \<Longrightarrow>
   pack_loop packable hv as i off b = None"
proof (induction as arbitrary: i j off b)
  case Nil
  then show ?case by simp
next
  case (Cons a as)
  show ?case
  proof (cases j)
    case 0
    with Cons.prems show ?thesis by (simp add: put_attr_def poke_def)
  next
    case (Suc k)
    have "pack_loop packable hv as (Suc i) off' b' = None" if "length b' = length b" for off' b'
      by (rule Cons.IH [of k]) (use Cons.prems Suc that in auto)
    with put_attr_length show ?thesis by (auto split: bind_splits)
  qed
qed

lemma values_size_none: "\<not> list_ex hv as \<Longrightarrow> values_size hv as = 0"
  by (induction as) auto

lemma size_query_pack:
  assumes "as \<noteq> []" and "\<not> list_ex stores_value as" and "length as < 2 ^ 28"
  shows "pack_sk_attrs True as = None \<longleftrightarrow> \<not> packable_first as"
proof (cases "packable_first as")
  case True
  have n: "length (filter packable as) \<le> length as" "values_size stores_value (filter packable as) = 0"
    using assms(2) by (auto intro!: values_size_none simp: list_ex_iff)
  have "transmissible stores_value (filter packable as)"
    using n assms(2) le_less_trans [OF n(1) assms(3)] by (auto simp: transmissible_def list_all_iff list_ex_iff)
  from pack_sk_attrs_packed [OF this True assms(1)] True show ?thesis by auto
next
  case False
  then obtain j where j: "j < length as" "packable (as ! j)" "length (filter packable as) \<le> j"
    using packable_beyond by blast
  have v: "values_size stores_value (filter packable as) = 0"
    using assms(2) by (auto intro!: values_size_none simp: list_ex_iff)
  have "pack_loop packable stores_value as 0 off b = None" if "length b = 4 + 12 * length (filter packable as)" for off b
    by (rule pack_loop_beyond [OF j(1,2)]) (use that j(3) in simp)
  with False assms(1) show ?thesis
    by (auto simp: pack_sk_attrs_def Let_def v dest!: poke_SomeD(1) split: bind_splits)
qed

section \<open>Properties of the codec\<close>

definition sample_sk :: "SK_ATTRIBUTE list" where
  "sample_sk = [\<lparr>sk_type = SK_ATTR_OBJECT_TYPE, sk_value = Some (put_u32 SK_KEY_PAIR), sk_valueLen = 4\<rparr>,
     \<lparr>sk_type = SK_ATTR_MODULUS, sk_value = Some (replicate 65 0xA5), sk_valueLen = 65\<rparr>,
     \<lparr>sk_type = SK_ATTR_PRIVATE_EXPONENT, sk_value = Some (replicate 64 0x5A), sk_valueLen = 64\<rparr>]"

lemma sample_sk_readable: "list_all value_readable sample_sk"
  by (simp add: sample_sk_def value_readable_def read_bytes_def put_u32_def)

lemma sample_sk_sizes: "values_size sends_value sample_sk = 136"
  by (simp add: sample_sk_def sends_value_def ROUNDUP_def)

text \<open>
  C26: what the client sends is what the trusted application reads. For attributes whose values can be
  read, in a shared block of the size \<open>get_attr_size\<close> computes and with any contents, \<open>pack_attrs\<close> stays
  inside the block, and \<open>unpack_sk_attrs\<close> of the trusted application accepts it and yields the same
  attributes in the same order: type, length and, for a non-zero length, a pointer to the same
  bytes; so the first attribute of each type is the same on both sides.
\<close>

theorem attrs_reach_ta:
  assumes "transmissible sends_value as" and "get_attr_size (Some as) (of_nat (length as)) = Some (length b)"
  shows "\<exists>b' ts. pack_attrs b (Some as) (of_nat (length as)) = Some (SKR_OK, b') \<and> length b' = length b \<and>
    ta_unpack_sk_attrs True True b' = Some (TEE_SUCCESS, ts) \<and>
    list_all2 (same_attr sends_value) as (map (resolve b') ts) \<and>
    (\<forall>ty. rel_option (same_attr sends_value) (TA_GetSKAttr ty as) (TA_GetSKAttr ty (map (resolve b') ts)))"
proof -
  have sz: "length b = 4 + 12 * length as + values_size sends_value as"
    using assms get_attr_size_eq [OF assms(1)] by simp
  obtain b' where b': "pack_attrs b (Some as) (of_nat (length as)) = Some (SKR_OK, b')" "packed_buffer sends_value as b'"
    using pack_attrs_packed [OF assms(1) sz] by blast
  note ts = unpack_packed_buffer [OF b'(2) assms(1)]
  have snd: "client_send ((!) b) as = Some b'"
    using b'(1) by (simp add: client_send_def assms(2) map_nth)
  note to_ta.lookup_received [OF assms(1) snd ts(1)]
  with b' ts sz show ?thesis by (auto simp: packed_buffer_def)
qed

theorem attrs_reach_ta_witness:
  "\<exists>b' ts. pack_attrs (replicate 176 0xEE) (Some sample_sk) 3 = Some (SKR_OK, b') \<and> length b' = 176 \<and>
     ta_unpack_sk_attrs True True b' = Some (TEE_SUCCESS, ts) \<and>
     list_all2 (same_attr sends_value) sample_sk (map (resolve b') ts)"
proof -
  have "length sample_sk = 3" by (simp add: sample_sk_def)
  then have t: "transmissible sends_value sample_sk"
    using sample_sk_readable sample_sk_sizes by (auto simp: transmissible_def list_all_iff)
  with attrs_reach_ta [OF t, of "replicate 176 0xEE"] get_attr_size_eq [OF t] \<open>length sample_sk = 3\<close> sample_sk_sizes
  show ?thesis by auto
qed

text \<open>
  C27: whatever bytes the normal world puts into the shared buffer, \<open>unpack_sk_attrs\<close> of the trusted
  application reads only inside it and returns; every value pointer it hands out lies, with the
  whole length of the value, inside the buffer; and without success it hands out nothing.
\<close>

theorem ta_unpack_memory_safe:
  "\<exists>res as. ta_unpack_sk_attrs ok aligned buf = Some (res, as) \<and>
     res \<in> {TEE_SUCCESS, TEE_ERROR_BAD_PARAMETERS, TEE_ERROR_OUT_OF_MEMORY} \<and>
     list_all (inside buf) as \<and>
     (if res \<noteq> TEE_SUCCESS then as = [] else if buf = [] then as = [] else peek_u32 buf 0 = Some (of_nat (length as)))"
  using ta_unpack_safe [of ok aligned buf] by (fastforce simp: ta_unpack_sk_attrs_def)

text \<open>
  C28: what is stored is what comes back, and only the public part is stored. When the public
  attributes stand first in the array, \<open>pack_sk_attrs\<close> returns a buffer that \<open>unpack_sk_attrs\<close>
  reads back as exactly the attributes of public type, in order; no component of the private key
  is among them.
\<close>

theorem stored_attrs_roundtrip:
  assumes "storable_list as"
  shows "\<exists>b ts. pack_sk_attrs True as = Some (TEE_SUCCESS, b) \<and>
    ta_unpack_sk_attrs True True b = Some (TEE_SUCCESS, ts) \<and>
    list_all2 (same_attr stores_value) (filter packable as) (map (resolve b) ts) \<and>
    TA_GetSKAttr SK_ATTR_PRIVATE_EXPONENT (map (resolve b) ts) = None \<and>
    TA_GetSKAttr SK_ATTR_PRIME_1 (map (resolve b) ts) = None \<and>
    TA_GetSKAttr SK_ATTR_PRIME_2 (map (resolve b) ts) = None"
proof -
  obtain b ts where b: "store_send as = Some b" "ta_unpack_sk_attrs True True b = Some (TEE_SUCCESS, ts)"
      "list_all2 (same_attr stores_value) (filter packable as) (map (resolve b) ts)"
    using to_store.transmit [OF assms] by blast
  have "TA_GetSKAttr ty (map (resolve b) ts) = None" if "ty \<in> {SK_ATTR_PRIVATE_EXPONENT, SK_ATTR_PRIME_1, SK_ATTR_PRIME_2}" for ty
  proof -
    have "TA_GetSKAttr ty (filter packable as) = None"
      using that by (auto simp: TA_GetSKAttr_def find_None_iff packable_def)
    with to_store.lookup_received [OF assms b(1,2), of ty] show ?thesis by simp
  qed
  with b show ?thesis by (auto simp: store_send_def split: bind_splits if_splits)
qed

theorem stored_attrs_roundtrip_witness:
  "\<exists>b ts. pack_sk_attrs True sample_sk = Some (TEE_SUCCESS, b) \<and>
    ta_unpack_sk_attrs True True b = Some (TEE_SUCCESS, ts) \<and>
    TA_GetSKAttr SK_ATTR_PRIVATE_EXPONENT (map (resolve b) ts) = None"
proof -
  have "storable_list sample_sk"
    using sample_sk_readable by (simp add: storable_list_def packable_first_def packable_def sample_sk_def
        transmissible_def stores_value_def ROUNDUP_def)
  from stored_attrs_roundtrip [OF this] show ?thesis by blast
qed

text \<open>
  \<open>pack_sk_attrs\<close> allocates headers for the public attributes but writes each header at the
  position of its attribute in the whole array. For a request without value buffers (the size
  query of \<open>TA_GetObjectAttributes\<close>) it therefore stays inside its block exactly if the public
  attributes stand first: asking for a private component before a public one writes beyond the
  block, in the trusted world.
\<close>

theorem pack_sk_attrs_overflow:
  assumes "as \<noteq> []" and "\<not> list_ex stores_value as" and "length as < 2 ^ 28"
  shows "pack_sk_attrs True as = None \<longleftrightarrow> \<not> packable_first as"
  using assms by (rule size_query_pack)

theorem pack_sk_attrs_overflow_witness:
  "pack_sk_attrs True [\<lparr>sk_type = SK_ATTR_PRIVATE_EXPONENT, sk_value = None, sk_valueLen = 0\<rparr>,
     \<lparr>sk_type = SK_ATTR_MODULUS, sk_value = None, sk_valueLen = 0\<rparr>] = None"
  by (subst pack_sk_attrs_overflow) (simp_all add: stores_value_def packable_first_def packable_def)

end
