(* ===== verification/Ta_Api.thy ===== *)
theory Ta_Api
  imports Sk_Channel
begin

text \<open>
  What the trusted application stands on: the parameters of a command, and the part of the TEE
  Internal Core API it calls (persistent objects, enumerators, transient objects, operations and
  memory). The API is the operating system's and a parameter of the model: a record of functions on
  a state \<open>'s\<close>. A call that panics ends the application and is not a return.

  The predicate \<open>trusted_storage\<close> is what the GlobalPlatform specification documents of those
  functions, in terms of a view of the state: the persistent objects, the open handles with their
  positions, the running enumerations, and how many other handles and heap blocks are live. Every
  function may fail; a failed call leaves the view alone.
\<close>

section \<open>Constants\<close>

abbreviation (input) TEE_ERROR_ACCESS_CONFLICT :: u32 where "TEE_ERROR_ACCESS_CONFLICT \<equiv> 0xFFFF0003"
abbreviation (input) TEE_PARAM_TYPE_NONE :: u32 where "TEE_PARAM_TYPE_NONE \<equiv> 0"
abbreviation (input) TEE_PARAM_TYPE_VALUE_INPUT :: u32 where "TEE_PARAM_TYPE_VALUE_INPUT \<equiv> 1"
abbreviation (input) TEE_PARAM_TYPE_VALUE_OUTPUT :: u32 where "TEE_PARAM_TYPE_VALUE_OUTPUT \<equiv> 2"
abbreviation (input) TEE_PARAM_TYPE_MEMREF_INPUT :: u32 where "TEE_PARAM_TYPE_MEMREF_INPUT \<equiv> 5"
abbreviation (input) TEE_PARAM_TYPE_MEMREF_OUTPUT :: u32 where "TEE_PARAM_TYPE_MEMREF_OUTPUT \<equiv> 6"
abbreviation (input) TEE_PARAM_TYPE_MEMREF_INOUT :: u32 where "TEE_PARAM_TYPE_MEMREF_INOUT \<equiv> 7"

definition TEE_PARAM_TYPES :: "u32 \<Rightarrow> u32 \<Rightarrow> u32 \<Rightarrow> u32 \<Rightarrow> u32" where
  "TEE_PARAM_TYPES t0 t1 t2 t3 = t0 OR push_bit 4 t1 OR push_bit 8 t2 OR push_bit 12 t3"

abbreviation (input) TEE_DATA_FLAG_ACCESS_READ :: u32 where "TEE_DATA_FLAG_ACCESS_READ \<equiv> 1"
abbreviation (input) TEE_DATA_FLAG_ACCESS_WRITE :: u32 where "TEE_DATA_FLAG_ACCESS_WRITE \<equiv> 2"
abbreviation (input) TEE_DATA_FLAG_ACCESS_WRITE_META :: u32 where "TEE_DATA_FLAG_ACCESS_WRITE_META \<equiv> 4"
abbreviation (input) TEE_DATA_FLAG_SHARE_READ :: u32 where "TEE_DATA_FLAG_SHARE_READ \<equiv> 0x10"
abbreviation (input) TEE_DATA_FLAG_SHARE_WRITE :: u32 where "TEE_DATA_FLAG_SHARE_WRITE \<equiv> 0x20"
abbreviation (input) TEE_TYPE_RSA_PUBLIC_KEY :: u32 where "TEE_TYPE_RSA_PUBLIC_KEY \<equiv> 0xA0000030"
abbreviation (input) TEE_TYPE_RSA_KEYPAIR :: u32 where "TEE_TYPE_RSA_KEYPAIR \<equiv> 0xA1000030"
abbreviation (input) TEE_ATTR_RSA_MODULUS :: u32 where "TEE_ATTR_RSA_MODULUS \<equiv> 0xD0000130"
abbreviation (input) TEE_ATTR_RSA_PUBLIC_EXPONENT :: u32 where "TEE_ATTR_RSA_PUBLIC_EXPONENT \<equiv> 0xD0000230"
abbreviation (input) TEE_ATTR_RSA_PRIVATE_EXPONENT :: u32 where "TEE_ATTR_RSA_PRIVATE_EXPONENT \<equiv> 0xC0000330"
abbreviation (input) TEE_ATTR_RSA_PRIME1 :: u32 where "TEE_ATTR_RSA_PRIME1 \<equiv> 0xC0000430"
abbreviation (input) TEE_ATTR_RSA_PRIME2 :: u32 where "TEE_ATTR_RSA_PRIME2 \<equiv> 0xC0000530"
abbreviation (input) TEE_ATTR_RSA_EXPONENT1 :: u32 where "TEE_ATTR_RSA_EXPONENT1 \<equiv> 0xC0000630"
abbreviation (input) TEE_ATTR_RSA_EXPONENT2 :: u32 where "TEE_ATTR_RSA_EXPONENT2 \<equiv> 0xC0000730"
abbreviation (input) TEE_ATTR_RSA_COEFFICIENT :: u32 where "TEE_ATTR_RSA_COEFFICIENT \<equiv> 0xC0000830"
abbreviation (input) TEE_MODE_DECRYPT :: u32 where "TEE_MODE_DECRYPT \<equiv> 1"
abbreviation (input) TEE_MODE_SIGN :: u32 where "TEE_MODE_SIGN \<equiv> 2"
abbreviation (input) TEE_MODE_DIGEST :: u32 where "TEE_MODE_DIGEST \<equiv> 5"
abbreviation (input) TEE_HANDLE_NULL :: u64 where "TEE_HANDLE_NULL \<equiv> 0"

section \<open>Parameters of a command\<close>

text \<open>
  A member of \<open>TEE_Param params[4]\<close>. A memory reference is its buffer (\<open>None\<close> for a null pointer),
  its size and whether it is aligned to four bytes. Reading the wrong member of the union is undefined.
\<close>

datatype TEE_Param = NoneP | ValueP u32 u32 | MemrefP buffer nat bool

definition value_a :: "TEE_Param \<Rightarrow> u32 option" where
  "value_a p = (case p of ValueP a b \<Rightarrow> Some a | _ \<Rightarrow> None)"

definition value_b :: "TEE_Param \<Rightarrow> u32 option" where
  "value_b p = (case p of ValueP a b \<Rightarrow> Some b | _ \<Rightarrow> None)"

definition set_value_a :: "u32 \<Rightarrow> TEE_Param \<Rightarrow> TEE_Param option" where
  "set_value_a v p = (case p of ValueP a b \<Rightarrow> Some (ValueP v b) | _ \<Rightarrow> None)"

definition memref :: "TEE_Param \<Rightarrow> (buffer \<times> nat \<times> bool) option" where
  "memref p = (case p of MemrefP b n al \<Rightarrow> Some (b, n, al) | _ \<Rightarrow> None)"

text \<open>The bytes of a memory reference, as far as the application may touch them.\<close>

definition memref_bytes :: "TEE_Param \<Rightarrow> (byte list \<times> bool) option" where
  "memref_bytes p = (case p of
     MemrefP None n al \<Rightarrow> if n = 0 then Some ([], al) else None
   | MemrefP (Some b) n al \<Rightarrow> if n \<le> length b then Some (take n b, al) else None
   | _ \<Rightarrow> None)"

text \<open>The reference after the application wrote its bytes.\<close>

definition set_memref :: "byte list \<Rightarrow> TEE_Param \<Rightarrow> TEE_Param" where
  "set_memref b p = (case p of MemrefP (Some old) n al \<Rightarrow> MemrefP (Some (b @ drop (length b) old)) n al | _ \<Rightarrow> p)"

definition set_memref_size :: "nat \<Rightarrow> TEE_Param \<Rightarrow> TEE_Param" where
  "set_memref_size n p = (case p of MemrefP b _ al \<Rightarrow> MemrefP b n al | _ \<Rightarrow> p)"

text \<open>The four parameters; the operating system always passes four.\<close>

type_synonym TEE_Params = "TEE_Param list"

definition param :: "TEE_Params \<Rightarrow> nat \<Rightarrow> TEE_Param option" where
  "param ps i = (if i < length ps then Some (ps ! i) else None)"

section \<open>The API\<close>

record TEE_ObjectInfo =
  objectType :: u32
  objectSize :: u32
  dataSize :: u32

text \<open>\<open>TEE_Attribute\<close> by reference.\<close>

record TEE_Attribute =
  attributeID :: u32
  ref_buffer :: buffer
  ref_length :: u32

text \<open>
  Reading a data stream yields the bytes stored in the caller's buffer (at most as many as asked
  for); the count the API reports is their number. Objects are created without asking for a handle.
  The next object of an enumeration comes with its information and its identifier. Output buffers of
  the cryptographic functions are passed and returned as bytes with the reported size.
\<close>

record 's tee_api =
  TEE_OpenPersistentObject_fn :: "byte list \<Rightarrow> u32 \<Rightarrow> 's \<Rightarrow> TEE_Result \<times> u64 \<times> 's"
  TEE_CreatePersistentObject_fn :: "byte list \<Rightarrow> u32 \<Rightarrow> u64 \<Rightarrow> byte list \<Rightarrow> 's \<Rightarrow> TEE_Result \<times> 's"
  TEE_CloseObject_fn :: "u64 \<Rightarrow> 's \<Rightarrow> 's"
  TEE_CloseAndDeletePersistentObject_fn :: "u64 \<Rightarrow> 's \<Rightarrow> 's"
  TEE_ReadObjectData_fn :: "u64 \<Rightarrow> nat \<Rightarrow> 's \<Rightarrow> TEE_Result \<times> byte list \<times> 's"
  TEE_SeekObjectData_fn :: "u64 \<Rightarrow> nat \<Rightarrow> 's \<Rightarrow> TEE_Result \<times> 's"
  TEE_WriteObjectData_fn :: "u64 \<Rightarrow> byte list \<Rightarrow> 's \<Rightarrow> TEE_Result \<times> 's"
  TEE_GetObjectInfo1_fn :: "u64 \<Rightarrow> 's \<Rightarrow> TEE_Result \<times> TEE_ObjectInfo \<times> 's"
  TEE_AllocatePersistentObjectEnumerator_fn :: "'s \<Rightarrow> TEE_Result \<times> u64 \<times> 's"
  TEE_StartPersistentObjectEnumerator_fn :: "u64 \<Rightarrow> 's \<Rightarrow> TEE_Result \<times> 's"
  TEE_GetNextPersistentObject_fn :: "u64 \<Rightarrow> 's \<Rightarrow> TEE_Result \<times> TEE_ObjectInfo \<times> byte list \<times> 's"
  TEE_FreePersistentObjectEnumerator_fn :: "u64 \<Rightarrow> 's \<Rightarrow> 's"
  TEE_AllocateTransientObject_fn :: "u32 \<Rightarrow> u32 \<Rightarrow> 's \<Rightarrow> TEE_Result \<times> u64 \<times> 's"
  TEE_PopulateTransientObject_fn :: "u64 \<Rightarrow> TEE_Attribute list \<Rightarrow> 's \<Rightarrow> TEE_Result \<times> 's"
  TEE_GenerateKey_fn :: "u64 \<Rightarrow> u32 \<Rightarrow> TEE_Attribute list \<Rightarrow> 's \<Rightarrow> TEE_Result \<times> 's"
  TEE_GetObjectBufferAttribute_fn :: "u64 \<Rightarrow> u32 \<Rightarrow> nat \<Rightarrow> 's \<Rightarrow> TEE_Result \<times> byte list \<times> 's"
  TEE_CopyObjectAttributes1_fn :: "u64 \<Rightarrow> u64 \<Rightarrow> 's \<Rightarrow> TEE_Result \<times> 's"
  TEE_FreeTransientObject_fn :: "u64 \<Rightarrow> 's \<Rightarrow> 's"
  TEE_AllocateOperation_fn :: "u32 \<Rightarrow> u32 \<Rightarrow> u32 \<Rightarrow> 's \<Rightarrow> TEE_Result \<times> u64 \<times> 's"
  TEE_SetOperationKey_fn :: "u64 \<Rightarrow> u64 \<Rightarrow> 's \<Rightarrow> TEE_Result \<times> 's"
  TEE_DigestDoFinal_fn :: "u64 \<Rightarrow> byte list \<Rightarrow> nat \<Rightarrow> 's \<Rightarrow> TEE_Result \<times> byte list \<times> nat \<times> 's"
  TEE_AsymmetricSignDigest_fn :: "u64 \<Rightarrow> byte list \<Rightarrow> nat \<Rightarrow> 's \<Rightarrow> TEE_Result \<times> byte list \<times> nat \<times> 's"
  TEE_AsymmetricDecrypt_fn :: "u64 \<Rightarrow> byte list \<Rightarrow> nat \<Rightarrow> 's \<Rightarrow> TEE_Result \<times> byte list \<times> nat \<times> 's"
  TEE_FreeOperation_fn :: "u64 \<Rightarrow> 's \<Rightarrow> 's"
  TEE_Malloc_fn :: "nat \<Rightarrow> 's \<Rightarrow> bool \<times> 's"
  TEE_Free_fn :: "'s \<Rightarrow> 's"

text \<open>
  The clean-up at the end of the handlers: each resource is released if its variable is not null.
  The order of the sources is persistent handle, transient object, operation, heap blocks.
\<close>

definition unless_null :: "(u64 \<Rightarrow> 's \<Rightarrow> 's) \<Rightarrow> u64 \<Rightarrow> 's \<Rightarrow> 's" where
  "unless_null f h s = (if h = TEE_HANDLE_NULL then s else f h s)"

primrec frees :: "'s tee_api \<Rightarrow> nat \<Rightarrow> 's \<Rightarrow> 's" where
  "frees A 0 s = s"
| "frees A (Suc n) s = frees A n (TEE_Free_fn A s)"

definition release :: "'s tee_api \<Rightarrow> u64 \<Rightarrow> u64 \<Rightarrow> u64 \<Rightarrow> nat \<Rightarrow> 's \<Rightarrow> 's" where
  "release A pObject tObject operation n s =
     frees A n (unless_null (TEE_FreeOperation_fn A) operation
       (unless_null (TEE_FreeTransientObject_fn A) tObject
         (unless_null (TEE_CloseObject_fn A) pObject s)))"

section \<open>The documented behaviour\<close>

record tee_object =
  obj_info_type :: u32
  obj_info_size :: u32
  obj_data :: "byte list"

record tee_store =
  st_objects :: "byte list \<rightharpoonup> tee_object"
  st_handles :: "u64 \<rightharpoonup> byte list \<times> nat"
  st_enums :: "u64 \<rightharpoonup> byte list list"
  st_others :: "u64 set"
  st_blocks :: nat

text \<open>A fresh handle is not null and not in use.\<close>

definition fresh_handle :: "tee_store \<Rightarrow> u64 \<Rightarrow> bool" where
  "fresh_handle v h \<longleftrightarrow> h \<noteq> TEE_HANDLE_NULL \<and> h \<notin> dom (st_handles v) \<and> h \<notin> dom (st_enums v) \<and> h \<notin> st_others v"

definition info_of :: "tee_object \<Rightarrow> TEE_ObjectInfo" where
  "info_of x = \<lparr>objectType = obj_info_type x, objectSize = obj_info_size x, dataSize = of_nat (length (obj_data x))\<rparr>"

text \<open>A data stream after writing at a position.\<close>

definition overwritten :: "byte list \<Rightarrow> nat \<Rightarrow> byte list \<Rightarrow> byte list" where
  "overwritten d pos v = take pos d @ replicate (pos - length d) 0 @ v @ drop (pos + length v) d"

definition opens_objects :: "'s tee_api \<Rightarrow> ('s \<Rightarrow> tee_store) \<Rightarrow> bool" where
  "opens_objects A view \<longleftrightarrow>
     (\<forall>i fl s rc h s'. TEE_OpenPersistentObject_fn A i fl s = (rc, h, s') \<longrightarrow>
        (if rc = TEE_SUCCESS then i \<in> dom (st_objects (view s)) \<and> fresh_handle (view s) h \<and>
             view s' = (view s)\<lparr>st_handles := (st_handles (view s))(h \<mapsto> (i, 0))\<rparr>
         else view s' = view s \<and> (rc = TEE_ERROR_ITEM_NOT_FOUND \<longrightarrow> i \<notin> dom (st_objects (view s)))))"

definition closes_objects :: "'s tee_api \<Rightarrow> ('s \<Rightarrow> tee_store) \<Rightarrow> bool" where
  "closes_objects A view \<longleftrightarrow>
     (\<forall>h s. h \<in> dom (st_handles (view s)) \<longrightarrow>
        view (TEE_CloseObject_fn A h s) = (view s)\<lparr>st_handles := (st_handles (view s))(h := None)\<rparr>) \<and>
     (\<forall>h i p s. st_handles (view s) h = Some (i, p) \<longrightarrow>
        view (TEE_CloseAndDeletePersistentObject_fn A h s) =
          (view s)\<lparr>st_handles := (st_handles (view s))(h := None), st_objects := (st_objects (view s))(i := None)\<rparr>)"

text \<open>
  Creation without the overwrite flag fails if the identifier is taken. The type and size of the new
  object are those of the object whose attributes it copies.
\<close>

definition creates_objects :: "'s tee_api \<Rightarrow> ('s \<Rightarrow> tee_store) \<Rightarrow> bool" where
  "creates_objects A view \<longleftrightarrow>
     (\<forall>i fl a d s rc s'. TEE_CreatePersistentObject_fn A i fl a d s = (rc, s') \<longrightarrow>
        (if rc = TEE_SUCCESS then i \<notin> dom (st_objects (view s)) \<and>
             (\<exists>x. obj_data x = d \<and> view s' = (view s)\<lparr>st_objects := (st_objects (view s))(i \<mapsto> x)\<rparr>)
         else view s' = view s))"

text \<open>
  The data stream of an open object: reading and writing move the position, a failed read delivers
  nothing and does not claim that the object is missing.
\<close>

definition reads_data :: "'s tee_api \<Rightarrow> ('s \<Rightarrow> tee_store) \<Rightarrow> bool" where
  "reads_data A view \<longleftrightarrow>
     (\<forall>h n s rc d s' i p x. TEE_ReadObjectData_fn A h n s = (rc, d, s') \<longrightarrow>
        st_handles (view s) h = Some (i, p) \<longrightarrow> st_objects (view s) i = Some x \<longrightarrow>
        rc \<noteq> TEE_ERROR_ITEM_NOT_FOUND \<and> d = (if rc = TEE_SUCCESS then slice (obj_data x) p n else []) \<and>
        view s' = (view s)\<lparr>st_handles := (st_handles (view s))(h \<mapsto> (i, p + length d))\<rparr>)"

definition seeks_data :: "'s tee_api \<Rightarrow> ('s \<Rightarrow> tee_store) \<Rightarrow> bool" where
  "seeks_data A view \<longleftrightarrow>
     (\<forall>h q s rc s' i p. TEE_SeekObjectData_fn A h q s = (rc, s') \<longrightarrow> st_handles (view s) h = Some (i, p) \<longrightarrow>
        view s' = (if rc = TEE_SUCCESS then (view s)\<lparr>st_handles := (st_handles (view s))(h \<mapsto> (i, q))\<rparr> else view s))"

definition writes_data :: "'s tee_api \<Rightarrow> ('s \<Rightarrow> tee_store) \<Rightarrow> bool" where
  "writes_data A view \<longleftrightarrow>
     (\<forall>h w s rc s' i p x. TEE_WriteObjectData_fn A h w s = (rc, s') \<longrightarrow>
        st_handles (view s) h = Some (i, p) \<longrightarrow> st_objects (view s) i = Some x \<longrightarrow>
        view s' = (if rc = TEE_SUCCESS
          then (view s)\<lparr>st_handles := (st_handles (view s))(h \<mapsto> (i, p + length w)),
                 st_objects := (st_objects (view s))(i \<mapsto> x\<lparr>obj_data := overwritten (obj_data x) p w\<rparr>)\<rparr>
          else view s))"

definition informs :: "'s tee_api \<Rightarrow> ('s \<Rightarrow> tee_store) \<Rightarrow> bool" where
  "informs A view \<longleftrightarrow>
     (\<forall>h s rc info s' i p x. TEE_GetObjectInfo1_fn A h s = (rc, info, s') \<longrightarrow>
        st_handles (view s) h = Some (i, p) \<longrightarrow> st_objects (view s) i = Some x \<longrightarrow>
        view s' = view s \<and> (rc = TEE_SUCCESS \<longrightarrow> info = info_of x))"

text \<open>
  An enumeration that was started yields every object there was at its start exactly once, in some
  order, and then reports that there is no more. (The application changes no object meanwhile.)
\<close>

definition starts_enumerations :: "'s tee_api \<Rightarrow> ('s \<Rightarrow> tee_store) \<Rightarrow> bool" where
  "starts_enumerations A view \<longleftrightarrow>
     (\<forall>s rc e s'. TEE_AllocatePersistentObjectEnumerator_fn A s = (rc, e, s') \<longrightarrow>
        (if rc = TEE_SUCCESS then fresh_handle (view s) e \<and> view s' = (view s)\<lparr>st_enums := (st_enums (view s))(e \<mapsto> [])\<rparr>
         else view s' = view s)) \<and>
     (\<forall>e s rc s'. TEE_StartPersistentObjectEnumerator_fn A e s = (rc, s') \<longrightarrow> e \<in> dom (st_enums (view s)) \<longrightarrow>
        (if rc = TEE_SUCCESS then (\<exists>is. distinct is \<and> set is = dom (st_objects (view s)) \<and>
             view s' = (view s)\<lparr>st_enums := (st_enums (view s))(e \<mapsto> is)\<rparr>)
         else view s' = view s)) \<and>
     (\<forall>e s. e \<in> dom (st_enums (view s)) \<longrightarrow>
        view (TEE_FreePersistentObjectEnumerator_fn A e s) = (view s)\<lparr>st_enums := (st_enums (view s))(e := None)\<rparr>)"

definition enumerates_objects :: "'s tee_api \<Rightarrow> ('s \<Rightarrow> tee_store) \<Rightarrow> bool" where
  "enumerates_objects A view \<longleftrightarrow>
     (\<forall>e s rc info i s' is. TEE_GetNextPersistentObject_fn A e s = (rc, info, i, s') \<longrightarrow> st_enums (view s) e = Some is \<longrightarrow>
        (if rc = TEE_SUCCESS then (\<exists>is'. is = i # is' \<and> view s' = (view s)\<lparr>st_enums := (st_enums (view s))(e \<mapsto> is')\<rparr> \<and>
             (\<forall>x. st_objects (view s) i = Some x \<longrightarrow> info = info_of x))
         else view s' = view s \<and> (rc = TEE_ERROR_ITEM_NOT_FOUND \<longrightarrow> is = [])))"

text \<open>A call that yields a new transient object or operation.\<close>

definition allocates :: "('s \<Rightarrow> TEE_Result \<times> u64 \<times> 's) \<Rightarrow> ('s \<Rightarrow> tee_store) \<Rightarrow> bool" where
  "allocates f view \<longleftrightarrow> (\<forall>s rc h s'. f s = (rc, h, s') \<longrightarrow>
     (if rc = TEE_SUCCESS then fresh_handle (view s) h \<and> view s' = (view s)\<lparr>st_others := insert h (st_others (view s))\<rparr>
      else view s' = view s))"

definition releases :: "(u64 \<Rightarrow> 's \<Rightarrow> 's) \<Rightarrow> ('s \<Rightarrow> tee_store) \<Rightarrow> bool" where
  "releases f view \<longleftrightarrow> (\<forall>h s. h \<in> st_others (view s) \<longrightarrow> view (f h s) = (view s)\<lparr>st_others := st_others (view s) - {h}\<rparr>)"

definition manages_handles :: "'s tee_api \<Rightarrow> ('s \<Rightarrow> tee_store) \<Rightarrow> bool" where
  "manages_handles A view \<longleftrightarrow>
     (\<forall>ty sz. allocates (TEE_AllocateTransientObject_fn A ty sz) view) \<and>
     (\<forall>al md sz. allocates (TEE_AllocateOperation_fn A al md sz) view) \<and>
     releases (TEE_FreeTransientObject_fn A) view \<and> releases (TEE_FreeOperation_fn A) view"

text \<open>The functions on keys and operations touch neither storage nor handles.\<close>

definition silent :: "('s \<Rightarrow> 'r \<times> 's) \<Rightarrow> ('s \<Rightarrow> tee_store) \<Rightarrow> bool" where
  "silent f view \<longleftrightarrow> (\<forall>s. view (snd (f s)) = view s)"

definition computes :: "'s tee_api \<Rightarrow> ('s \<Rightarrow> tee_store) \<Rightarrow> bool" where
  "computes A view \<longleftrightarrow>
     (\<forall>h as. silent (TEE_PopulateTransientObject_fn A h as) view) \<and>
     (\<forall>h n as. silent (TEE_GenerateKey_fn A h n as) view) \<and>
     (\<forall>h ai n s. view (snd (snd (TEE_GetObjectBufferAttribute_fn A h ai n s))) = view s) \<and>
     (\<forall>h k. silent (TEE_CopyObjectAttributes1_fn A h k) view) \<and>
     (\<forall>h k. silent (TEE_SetOperationKey_fn A h k) view) \<and>
     (\<forall>h b n s. view (snd (snd (snd (TEE_DigestDoFinal_fn A h b n s)))) = view s) \<and>
     (\<forall>h b n s. view (snd (snd (snd (TEE_AsymmetricSignDigest_fn A h b n s)))) = view s) \<and>
     (\<forall>h b n s. view (snd (snd (snd (TEE_AsymmetricDecrypt_fn A h b n s)))) = view s)"

definition allocates_memory :: "'s tee_api \<Rightarrow> ('s \<Rightarrow> tee_store) \<Rightarrow> bool" where
  "allocates_memory A view \<longleftrightarrow>
     (\<forall>n s ok s'. TEE_Malloc_fn A n s = (ok, s') \<longrightarrow>
        view s' = (if ok then (view s)\<lparr>st_blocks := Suc (st_blocks (view s))\<rparr> else view s)) \<and>
     (\<forall>s. 0 < st_blocks (view s) \<longrightarrow> view (TEE_Free_fn A s) = (view s)\<lparr>st_blocks := st_blocks (view s) - 1\<rparr>)"

definition trusted_storage :: "'s tee_api \<Rightarrow> ('s \<Rightarrow> tee_store) \<Rightarrow> bool" where
  "trusted_storage A view \<longleftrightarrow> opens_objects A view \<and> closes_objects A view \<and> creates_objects A view \<and>
     reads_data A view \<and> seeks_data A view \<and> writes_data A view \<and> informs A view \<and> starts_enumerations A view \<and>
     enumerates_objects A view \<and> manages_handles A view \<and> computes A view \<and> allocates_memory A view"

end
