(* ===== verification/Ta_Objects.thy ===== *)
theory Ta_Objects
  imports Ta_Api
begin

text \<open>
  The object commands of the trusted application: the counter of object identifiers
  (\<open>secure_storage_db.c\<close>), creation (\<open>secure_storage_create.c\<close>, \<open>secure_storage_rsa.c\<close>), key
  generation (\<open>secure_storage_generate.c\<close>), search (\<open>secure_storage_find.c\<close>), and erasure and attribute
  retrieval (\<open>secure_storage_common.c\<close>). A handler returns the result code, the parameters as it
  leaves them and the state of the TEE; \<open>None\<close> is an access outside of a buffer or through a null
  pointer.
\<close>

section \<open>Helpers\<close>

text \<open>\<open>TA_CompareSKAttr\<close>.\<close>

definition TA_CompareSKAttr :: "SK_ATTRIBUTE \<Rightarrow> SK_ATTRIBUTE \<Rightarrow> bool option" where
  "TA_CompareSKAttr a1 a2 =
     (if sk_type a1 \<noteq> sk_type a2 then Some False
      else if sk_valueLen a1 \<noteq> sk_valueLen a2 then Some False
      else memcmp_eq (sk_value a1) (sk_value a2) (unat (sk_valueLen a1)))"

text \<open>
  \<open>unpack_sk_attrs\<close> with its allocation: the array is asked for only after the checks of the
  buffer, and given back when a value lies outside of it.
\<close>

definition unpack_attrs :: "'s tee_api \<Rightarrow> bool \<Rightarrow> byte list \<Rightarrow> 's \<Rightarrow> (TEE_Result \<times> ta_attr list \<times> 's) option" where
  "unpack_attrs A aligned buf s =
     (if ta_unpack_sk_attrs False aligned buf = Some (TEE_ERROR_OUT_OF_MEMORY, [])
      then do {
        let (ok, s) = TEE_Malloc_fn A (24 * unat (get_u32 buf)) s;
        (res, attrs) \<leftarrow> ta_unpack_sk_attrs ok aligned buf;
        Some (res, attrs, if ok \<and> res \<noteq> TEE_SUCCESS then TEE_Free_fn A s else s) }
      else do {
        (res, attrs) \<leftarrow> ta_unpack_sk_attrs True aligned buf;
        Some (res, attrs, s) })"

text \<open>\<open>pack_sk_attrs\<close> with its allocation.\<close>

definition pack_data :: "'s tee_api \<Rightarrow> SK_ATTRIBUTE list \<Rightarrow> 's \<Rightarrow> (TEE_Result \<times> byte list \<times> 's) option" where
  "pack_data A attrs s =
     (if attrs = [] then Some (TEE_SUCCESS, [], s)
      else do {
        let (ok, s) = TEE_Malloc_fn A (4 + 12 * length (filter packable attrs) + values_size stores_value (filter packable attrs)) s;
        (res, data) \<leftarrow> pack_sk_attrs ok attrs;
        Some (res, data, s) })"

text \<open>How many blocks an array or a buffer stands for: an empty one was not allocated.\<close>

definition blk :: "'a list \<Rightarrow> nat" where
  "blk xs = (if xs = [] then 0 else 1)"

section \<open>The object database\<close>

text \<open>\<open>db_obj_id\<close>, with its terminating zero.\<close>

definition db_obj_id :: "byte list" where
  "db_obj_id = [0x6F, 0x62, 0x6A, 0x5F, 0x64, 0x62, 0]"

definition get_obj_db_id_size :: nat where
  "get_obj_db_id_size = length db_obj_id"

definition TA_OpenDatabase :: "'s tee_api \<Rightarrow> 's \<Rightarrow> TEE_Result \<times> 's" where
  "TA_OpenDatabase A s =
     (let (ret, hObject, s) = TEE_OpenPersistentObject_fn A db_obj_id
            (TEE_DATA_FLAG_SHARE_READ OR TEE_DATA_FLAG_ACCESS_READ) s in
      if ret = TEE_SUCCESS then (ret, TEE_CloseObject_fn A hObject s)
      else if ret \<noteq> TEE_ERROR_ITEM_NOT_FOUND then (ret, s)
      else TEE_CreatePersistentObject_fn A db_obj_id TEE_DATA_FLAG_ACCESS_WRITE TEE_HANDLE_NULL (put_u32 0) s)"

text \<open>
  \<open>TA_GetNextObjectID\<close>; \<open>next_obj_id\<close> is the caller's variable before and after. Bytes that are not
  read stay those of \<open>obj_id = 0\<close>.
\<close>

definition TA_GetNextObjectID :: "'s tee_api \<Rightarrow> u32 \<Rightarrow> 's \<Rightarrow> TEE_Result \<times> u32 \<times> 's" where
  "TA_GetNextObjectID A next_obj_id s =
     (let (ret, hObject, s) = TEE_OpenPersistentObject_fn A db_obj_id
            (TEE_DATA_FLAG_ACCESS_WRITE OR TEE_DATA_FLAG_SHARE_WRITE OR TEE_DATA_FLAG_ACCESS_READ OR TEE_DATA_FLAG_SHARE_READ) s in
      if ret \<noteq> TEE_SUCCESS then (ret, next_obj_id, s)
      else
        let out = (\<lambda>s. unless_null (TEE_CloseObject_fn A) hObject s);
            (ret, d, s) = TEE_ReadObjectData_fn A hObject 4 s in
        if ret \<noteq> TEE_SUCCESS \<and> length d \<noteq> 4 then (ret, next_obj_id, out s)
        else
          let obj_id = get_u32 (d @ drop (length d) (put_u32 0));
              (ret, s) = TEE_SeekObjectData_fn A hObject 0 s in
          if ret \<noteq> TEE_SUCCESS then (ret, obj_id, out s)
          else
            let (ret, s) = TEE_WriteObjectData_fn A hObject (put_u32 (obj_id + 1)) s in
            (ret, obj_id, out s))"

section \<open>Creation\<close>

text \<open>\<open>TEE_InitRefAttribute\<close> on entry \<open>i\<close> of the array, for the attribute of a type if there is one.\<close>

definition ref_attr :: "u32 \<Rightarrow> SK_ATTRIBUTE \<Rightarrow> TEE_Attribute" where
  "ref_attr i a = \<lparr>attributeID = i, ref_buffer = sk_value a, ref_length = ucast (sk_valueLen a)\<rparr>"

definition zero_attr :: TEE_Attribute where
  "zero_attr = \<lparr>attributeID = 0, ref_buffer = None, ref_length = 0\<rparr>"

definition fill_ref :: "SK_ATTRIBUTE list \<Rightarrow> nat \<times> u32 \<times> u32 \<Rightarrow> TEE_Attribute list \<times> nat \<Rightarrow> TEE_Attribute list \<times> nat" where
  "fill_ref attrs e st = (case (e, st) of ((i, sk, tid), (ts, n)) \<Rightarrow>
     (case TA_GetSKAttr sk attrs of None \<Rightarrow> (ts, n) | Some a \<Rightarrow> (ts[i := ref_attr tid a], Suc n)))"

definition rsa_pubkey_entries :: "(nat \<times> u32 \<times> u32) list" where
  "rsa_pubkey_entries = [(0, SK_ATTR_MODULUS, TEE_ATTR_RSA_MODULUS),
     (1, SK_ATTR_PUBLIC_EXPONENT, TEE_ATTR_RSA_PUBLIC_EXPONENT)]"

definition rsa_keypair_entries :: "(nat \<times> u32 \<times> u32) list" where
  "rsa_keypair_entries = rsa_pubkey_entries @ [(2, SK_ATTR_PRIVATE_EXPONENT, TEE_ATTR_RSA_PRIVATE_EXPONENT),
     (3, SK_ATTR_PRIME_1, TEE_ATTR_RSA_PRIME1), (4, SK_ATTR_PRIME_2, TEE_ATTR_RSA_PRIME2),
     (5, SK_ATTR_EXPONENT_1, TEE_ATTR_RSA_EXPONENT1), (6, SK_ATTR_EXPONENT_2, TEE_ATTR_RSA_EXPONENT2),
     (7, SK_ATTR_COEFFICIENT, TEE_ATTR_RSA_COEFFICIENT)]"

text \<open>The array (zero from the allocator) and the number of attributes found.\<close>

definition fill_rsa_keypair_tee_attr :: "SK_ATTRIBUTE list \<Rightarrow> TEE_Attribute list \<times> nat" where
  "fill_rsa_keypair_tee_attr attrs = fold (fill_ref attrs) rsa_keypair_entries (replicate 8 zero_attr, 0)"

definition fill_rsa_pubkey_tee_attr :: "SK_ATTRIBUTE list \<Rightarrow> TEE_Attribute list \<times> nat" where
  "fill_rsa_pubkey_tee_attr attrs = fold (fill_ref attrs) rsa_pubkey_entries (replicate 2 zero_attr, 0)"

text \<open>
  \<open>TA_GetTEEObjectTypeAndAttr\<close> returns the attribute array passed to the API, object type and
  object size; the array was allocated exactly if the call succeeds.
\<close>

definition rsa_object ::
    "'s tee_api \<Rightarrow> SK_ATTRIBUTE list \<Rightarrow> u32 \<Rightarrow> nat \<Rightarrow> TEE_Attribute list \<times> nat \<Rightarrow> 's \<Rightarrow>
     (TEE_Result \<times> TEE_Attribute list \<times> u32 \<times> u32 \<times> 's) option" where
  "rsa_object A attrs obj_type n filled s =
     (case TA_GetSKAttr SK_ATTR_KEY_TYPE attrs of
        None \<Rightarrow> Some (TEE_ERROR_BAD_PARAMETERS, [], 0, 0, s)
      | Some k \<Rightarrow> do {
          key_type \<leftarrow> deref_u32 (sk_value k);
          if key_type = SKK_RSA then
            (case TA_GetSKAttr SK_ATTR_MODULUS_BITS attrs of
               None \<Rightarrow> Some (TEE_ERROR_BAD_PARAMETERS, [], 0, 0, s)
             | Some z \<Rightarrow> do {
                 obj_size \<leftarrow> deref_u32 (sk_value z);
                 let (ok, s) = TEE_Malloc_fn A (24 * n) s;
                 if \<not> ok then Some (TEE_ERROR_OUT_OF_MEMORY, [], 0, 0, s)
                 else Some (TEE_SUCCESS, take (snd filled) (fst filled), obj_type, obj_size, s) })
          else if key_type = SKK_EC then Some (TEE_ERROR_NOT_SUPPORTED, [], 0, 0, s)
          else Some (TEE_ERROR_BAD_PARAMETERS, [], 0, 0, s) })"

definition TA_GetTEEObjectTypeAndAttr ::
    "'s tee_api \<Rightarrow> SK_ATTRIBUTE list \<Rightarrow> 's \<Rightarrow> (TEE_Result \<times> TEE_Attribute list \<times> u32 \<times> u32 \<times> 's) option" where
  "TA_GetTEEObjectTypeAndAttr A attrs s =
     (case TA_GetSKAttr SK_ATTR_OBJECT_TYPE attrs of
        None \<Rightarrow> Some (TEE_ERROR_BAD_PARAMETERS, [], 0, 0, s)
      | Some t \<Rightarrow> do {
          sk_obj_type \<leftarrow> deref_u32 (sk_value t);
          if sk_obj_type = SK_KEY_PAIR
          then rsa_object A attrs TEE_TYPE_RSA_KEYPAIR 8 (fill_rsa_keypair_tee_attr attrs) s
          else if sk_obj_type = SK_PUBLIC_KEY
          then rsa_object A attrs TEE_TYPE_RSA_PUBLIC_KEY 2 (fill_rsa_pubkey_tee_attr attrs) s
          else Some (TEE_ERROR_BAD_PARAMETERS, [], 0, 0, s) })"

text \<open>
  The common end of creation and generation: pack the attributes, take an identifier, create the
  object. It returns the data buffer too, which the caller frees.
\<close>

definition store_object ::
    "'s tee_api \<Rightarrow> SK_ATTRIBUTE list \<Rightarrow> u64 \<Rightarrow> 's \<Rightarrow> (TEE_Result \<times> u32 \<times> byte list \<times> 's) option" where
  "store_object A attrs tObject s = do {
     (res, data, s) \<leftarrow> pack_data A attrs s;
     if res \<noteq> TEE_SUCCESS then Some (res, 0, data, s)
     else do {
       let (res, next_obj_id, s) = TA_GetNextObjectID A 0 s;
       if res \<noteq> TEE_SUCCESS then Some (res, next_obj_id, data, s)
       else do {
         let (res, s) = TEE_CreatePersistentObject_fn A (put_u32 next_obj_id)
               (TEE_DATA_FLAG_ACCESS_WRITE OR TEE_DATA_FLAG_ACCESS_READ) tObject data s;
         Some (res, next_obj_id, data, s) } } }"

text \<open>
  \<open>TA_CreateObject\<close> from the unpacked attributes on, with the release of what it acquires itself, and
  the whole handler.
\<close>

definition create_from_attrs :: "'s tee_api \<Rightarrow> SK_ATTRIBUTE list \<Rightarrow> 's \<Rightarrow> (TEE_Result \<times> u32 \<times> 's) option" where
  "create_from_attrs A attrs s = do {
     (res, tee_attrs, obj_type, obj_size, s) \<leftarrow> TA_GetTEEObjectTypeAndAttr A attrs s;
     if res \<noteq> TEE_SUCCESS then Some (res, 0, s)
     else do {
       let (res, tObject, s) = TEE_AllocateTransientObject_fn A obj_type obj_size s;
       if res \<noteq> TEE_SUCCESS then Some (res, 0, release A 0 0 0 1 s)
       else do {
         let (res, s) = TEE_PopulateTransientObject_fn A tObject tee_attrs s;
         if res \<noteq> TEE_SUCCESS then Some (res, 0, release A 0 tObject 0 1 s)
         else do {
           (res, next_obj_id, data, s) \<leftarrow> store_object A attrs tObject s;
           Some (res, next_obj_id, release A 0 tObject 0 (1 + blk data) s) } } } }"

definition TA_CreateObject :: "'s tee_api \<Rightarrow> u32 \<Rightarrow> TEE_Params \<Rightarrow> 's \<Rightarrow> (TEE_Result \<times> TEE_Params \<times> 's) option" where
  "TA_CreateObject A param_types params s =
     (if param_types \<noteq> TEE_PARAM_TYPES TEE_PARAM_TYPE_MEMREF_INPUT TEE_PARAM_TYPE_VALUE_OUTPUT
           TEE_PARAM_TYPE_NONE TEE_PARAM_TYPE_NONE
      then Some (TEE_ERROR_BAD_PARAMETERS, params, s)
      else do {
        p0 \<leftarrow> param params 0;
        (buf, al) \<leftarrow> memref_bytes p0;
        (res, ts, s) \<leftarrow> unpack_attrs A al buf s;
        if res \<noteq> TEE_SUCCESS then Some (res, params, s)
        else do {
          (res, next_obj_id, s) \<leftarrow> create_from_attrs A (map (resolve buf) ts) s;
          let s = frees A (blk ts) s;
          if res \<noteq> TEE_SUCCESS then Some (res, params, s)
          else do {
            p1 \<leftarrow> param params 1;
            p1 \<leftarrow> set_value_a next_obj_id p1;
            Some (res, params[1 := p1], s) } } })"

section \<open>Key generation\<close>

abbreviation (input) MAX_KEY_SIZE_BYTES :: nat where "MAX_KEY_SIZE_BYTES \<equiv> 512"

definition sk_attr_of :: "u32 \<Rightarrow> byte list \<Rightarrow> SK_ATTRIBUTE" where
  "sk_attr_of ty v = \<lparr>sk_type = ty, sk_value = Some v, sk_valueLen = of_nat (length v)\<rparr>"

text \<open>
  \<open>TA_GenerateRSAKeyPair\<close> appends to the caller's array; a copy of an input attribute points to the
  same bytes. Without a modulus size it returns at once and the unpacked array stays allocated.
\<close>

definition TA_GenerateRSAKeyPair ::
    "'s tee_api \<Rightarrow> bool \<Rightarrow> byte list \<Rightarrow> SK_ATTRIBUTE list \<Rightarrow> 's \<Rightarrow>
     (TEE_Result \<times> u64 \<times> SK_ATTRIBUTE list \<times> 's) option" where
  "TA_GenerateRSAKeyPair A al buf attrs s = do {
     (res, ts, s) \<leftarrow> unpack_attrs A al buf s;
     let in_attrs = map (resolve buf) ts;
     if res \<noteq> TEE_SUCCESS then Some (res, TEE_HANDLE_NULL, attrs, s)
     else
       (case TA_GetSKAttr SK_ATTR_MODULUS_BITS in_attrs of
          None \<Rightarrow> Some (TEE_ERROR_BAD_PARAMETERS, TEE_HANDLE_NULL, attrs, s)
        | Some z \<Rightarrow> do {
            obj_size \<leftarrow> deref_u32 (sk_value z);
            let attrs = attrs @ [z];
            let (res, tObject, s) = TEE_AllocateTransientObject_fn A TEE_TYPE_RSA_KEYPAIR obj_size s;
            if res \<noteq> TEE_SUCCESS then Some (res, TEE_HANDLE_NULL, attrs, frees A (blk ts) s)
            else do {
              let exp_attrs = (case TA_GetSKAttr SK_ATTR_PUBLIC_EXPONENT in_attrs of
                    None \<Rightarrow> [] | Some e \<Rightarrow> [ref_attr TEE_ATTR_RSA_PUBLIC_EXPONENT e]);
              let (res, s) = TEE_GenerateKey_fn A tObject obj_size exp_attrs s;
              if res \<noteq> TEE_SUCCESS then Some (res, tObject, attrs, frees A (blk ts) s)
              else do {
                let (res, modulus, s) = TEE_GetObjectBufferAttribute_fn A tObject TEE_ATTR_RSA_MODULUS MAX_KEY_SIZE_BYTES s;
                if res \<noteq> TEE_SUCCESS then Some (res, tObject, attrs, frees A (blk ts) s)
                else do {
                  let attrs = attrs @ [sk_attr_of SK_ATTR_MODULUS modulus];
                  let (res, pub_exp, s) =
                        TEE_GetObjectBufferAttribute_fn A tObject TEE_ATTR_RSA_PUBLIC_EXPONENT MAX_KEY_SIZE_BYTES s;
                  if res \<noteq> TEE_SUCCESS then Some (res, tObject, attrs, frees A (blk ts) s)
                  else do {
                    let attrs = attrs @ [sk_attr_of SK_ATTR_PUBLIC_EXPONENT pub_exp];
                    let attrs = (case TA_GetSKAttr SK_ATTR_OBJECT_INDEX in_attrs of None \<Rightarrow> attrs | Some x \<Rightarrow> attrs @ [x]);
                    let attrs = (case TA_GetSKAttr SK_ATTR_OBJECT_LABEL in_attrs of None \<Rightarrow> attrs | Some l \<Rightarrow> attrs @ [l]);
                    Some (res, tObject, attrs, frees A (blk ts) s) } } } } }) }"

definition TA_GenerateKeyPair :: "'s tee_api \<Rightarrow> u32 \<Rightarrow> TEE_Params \<Rightarrow> 's \<Rightarrow> (TEE_Result \<times> TEE_Params \<times> 's) option" where
  "TA_GenerateKeyPair A param_types params s =
     (if param_types \<noteq> TEE_PARAM_TYPES TEE_PARAM_TYPE_VALUE_INPUT TEE_PARAM_TYPE_MEMREF_INPUT
           TEE_PARAM_TYPE_VALUE_OUTPUT TEE_PARAM_TYPE_NONE
      then Some (TEE_ERROR_BAD_PARAMETERS, params, s)
      else do {
        p0 \<leftarrow> param params 0;
        mech \<leftarrow> value_a p0;
        if mech \<noteq> SKM_RSA_PKCS_KEY_PAIR_GEN then Some (TEE_ERROR_BAD_PARAMETERS, params, s)
        else do {
          p1 \<leftarrow> param params 1;
          (buf, al) \<leftarrow> memref_bytes p1;
          (res, tObject, attrs, s) \<leftarrow> TA_GenerateRSAKeyPair A al buf
            [sk_attr_of SK_ATTR_OBJECT_TYPE (put_u32 SK_KEY_PAIR), sk_attr_of SK_ATTR_KEY_TYPE (put_u32 SKK_RSA)] s;
          if res \<noteq> TEE_SUCCESS then Some (res, params, release A 0 tObject 0 0 s)
          else do {
            (res, next_obj_id, data, s) \<leftarrow> store_object A attrs tObject s;
            let s = release A 0 tObject 0 (blk data) s;
            if res \<noteq> TEE_SUCCESS then Some (res, params, s)
            else do {
              p2 \<leftarrow> param params 2;
              p2 \<leftarrow> set_value_a next_obj_id p2;
              Some (res, params[2 := p2], s) } } } })"

section \<open>Search\<close>

text \<open>\<open>memcpy(&obj[cnt], obj_id, sizeof(uint32_t))\<close>.\<close>

definition put_handle :: "byte list \<Rightarrow> nat \<Rightarrow> byte list \<Rightarrow> byte list option" where
  "put_handle obj cnt obj_id = do { v \<leftarrow> read_bytes (Some obj_id) 4; poke obj (4 * cnt) v }"

text \<open>The 64-byte identifier buffer keeps what a shorter identifier does not overwrite.\<close>

definition id_buffer :: "byte list \<Rightarrow> byte list \<Rightarrow> byte list" where
  "id_buffer i old = i @ drop (length i) old"

text \<open>
  The loops of \<open>TA_FindAllObjects\<close> and \<open>TA_FindAttrMatchObjects\<close>. They return the result of the last
  call, the output array and the count; an enumeration that never ends makes them undefined.
\<close>

partial_function (option) find_all_loop ::
    "'s tee_api \<Rightarrow> u64 \<Rightarrow> nat \<Rightarrow> byte list \<Rightarrow> nat \<Rightarrow> byte list \<Rightarrow> 's \<Rightarrow> (TEE_Result \<times> byte list \<times> nat \<times> 's) option" where
  "find_all_loop A ehandle max_obj_cnt obj cnt obj_id s =
     (let (res, info, i, s) = TEE_GetNextPersistentObject_fn A ehandle s in
      if res \<noteq> TEE_SUCCESS then Some (res, obj, cnt, s)
      else if length i \<noteq> 4 then find_all_loop A ehandle max_obj_cnt obj cnt (id_buffer i obj_id) s
      else do {
        obj \<leftarrow> put_handle obj cnt (id_buffer i obj_id);
        if max_obj_cnt \<le> Suc cnt then Some (res, obj, Suc cnt, s)
        else find_all_loop A ehandle max_obj_cnt obj (Suc cnt) (id_buffer i obj_id) s })"

text \<open>
  The common frame of the two functions: allocate and start an enumerator, run the loop, map the end
  of the enumeration to success, free the enumerator. \<open>None\<close> in the count means that \<open>*obj_cnt\<close> was
  not written.
\<close>

definition with_enumerator ::
    "'s tee_api \<Rightarrow> (u64 \<Rightarrow> 's \<Rightarrow> (TEE_Result \<times> byte list \<times> nat \<times> 's) option) \<Rightarrow> byte list \<Rightarrow> 's \<Rightarrow>
     (TEE_Result \<times> byte list \<times> nat option \<times> 's) option" where
  "with_enumerator A loop obj s =
     (let (res, ehandle, s) = TEE_AllocatePersistentObjectEnumerator_fn A s in
      if res \<noteq> TEE_SUCCESS then Some (res, obj, None, s)
      else
        let (res, s) = TEE_StartPersistentObjectEnumerator_fn A ehandle s in
        if res \<noteq> TEE_SUCCESS then Some (res, obj, None, unless_null (TEE_FreePersistentObjectEnumerator_fn A) ehandle s)
        else do {
          (res, obj, cnt, s) \<leftarrow> loop ehandle s;
          let res = (if res = TEE_ERROR_ITEM_NOT_FOUND then TEE_SUCCESS else res);
          let s = unless_null (TEE_FreePersistentObjectEnumerator_fn A) ehandle s;
          Some (res, obj, if res = TEE_SUCCESS then Some cnt else None, s) })"

definition TA_FindAllObjects ::
    "'s tee_api \<Rightarrow> byte list \<Rightarrow> nat \<Rightarrow> 's \<Rightarrow> (TEE_Result \<times> byte list \<times> nat option \<times> 's) option" where
  "TA_FindAllObjects A obj max_obj_cnt s =
     with_enumerator A (\<lambda>e. find_all_loop A e max_obj_cnt obj 0 (replicate 64 0)) obj s"

text \<open>The comparison loop of \<open>match_attr_obj\<close>, from \<open>*match\<close>.\<close>

primrec match_loop :: "SK_ATTRIBUTE list \<Rightarrow> SK_ATTRIBUTE list \<Rightarrow> bool \<Rightarrow> bool option" where
  "match_loop obj_attrs [] m = Some m"
| "match_loop obj_attrs (a # as) m =
     (case TA_GetSKAttr (sk_type a) obj_attrs of
        None \<Rightarrow> Some False
      | Some b \<Rightarrow> do { m \<leftarrow> TA_CompareSKAttr a b; if m then match_loop obj_attrs as m else Some False })"

text \<open>
  \<open>match_attr_obj\<close>: read the data stream of the object, allocate a block for the attribute array,
  unpack (which replaces the address of that block by that of its own array), compare.
\<close>

definition match_attr_obj ::
    "'s tee_api \<Rightarrow> SK_ATTRIBUTE list \<Rightarrow> byte list \<Rightarrow> TEE_ObjectInfo \<Rightarrow> 's \<Rightarrow> (TEE_Result \<times> bool \<times> 's) option" where
  "match_attr_obj A attrs obj_id info s = do {
     i \<leftarrow> read_bytes (Some obj_id) 4;
     let (res, hObject, s) = TEE_OpenPersistentObject_fn A i (TEE_DATA_FLAG_ACCESS_READ OR TEE_DATA_FLAG_SHARE_READ) s;
     if res \<noteq> TEE_SUCCESS then Some (res, False, s)
     else do {
       let (ok, s) = TEE_Malloc_fn A (unat (dataSize info)) s;
       if \<not> ok then Some (TEE_ERROR_OUT_OF_MEMORY, False, release A hObject 0 0 0 s)
       else do {
         let (res, d, s) = TEE_ReadObjectData_fn A hObject (unat (dataSize info)) s;
         if res \<noteq> TEE_SUCCESS \<and> length d \<noteq> unat (dataSize info) then Some (res, False, release A hObject 0 0 1 s)
         else do {
           obj_attr_cnt \<leftarrow> deref_u32 (Some (d @ drop (length d) (replicate (unat (dataSize info)) 0)));
           let (ok, s) = TEE_Malloc_fn A (24 * unat obj_attr_cnt) s;
           if \<not> ok then Some (TEE_ERROR_OUT_OF_MEMORY, False, release A hObject 0 0 1 s)
           else do {
             (res, ts, s) \<leftarrow> unpack_attrs A True d s;
             if res \<noteq> TEE_SUCCESS then Some (res, False, release A hObject 0 0 2 s)
             else do {
               m \<leftarrow> match_loop (map (resolve d) ts) attrs False;
               Some (res, m, release A hObject 0 0 (1 + blk ts) s) } } } } } }"

partial_function (option) find_match_loop ::
    "'s tee_api \<Rightarrow> SK_ATTRIBUTE list \<Rightarrow> u64 \<Rightarrow> nat \<Rightarrow> byte list \<Rightarrow> nat \<Rightarrow> byte list \<Rightarrow> 's \<Rightarrow>
     (TEE_Result \<times> byte list \<times> nat \<times> 's) option" where
  "find_match_loop A attrs ehandle max_obj_cnt obj cnt obj_id s =
     (let (res, info, i, s) = TEE_GetNextPersistentObject_fn A ehandle s in
      if res \<noteq> TEE_SUCCESS then Some (res, obj, cnt, s)
      else if length i = get_obj_db_id_size
      then find_match_loop A attrs ehandle max_obj_cnt obj cnt (id_buffer i obj_id) s
      else do {
        (res, m, s) \<leftarrow> match_attr_obj A attrs (id_buffer i obj_id) info s;
        if res \<noteq> TEE_SUCCESS then Some (res, obj, cnt, s)
        else if \<not> m then find_match_loop A attrs ehandle max_obj_cnt obj cnt (id_buffer i obj_id) s
        else do {
          obj \<leftarrow> put_handle obj cnt (id_buffer i obj_id);
          if max_obj_cnt \<le> Suc cnt then Some (res, obj, Suc cnt, s)
          else find_match_loop A attrs ehandle max_obj_cnt obj (Suc cnt) (id_buffer i obj_id) s } })"

declare find_all_loop.simps [code] find_match_loop.simps [code]

definition TA_FindAttrMatchObjects ::
    "'s tee_api \<Rightarrow> SK_ATTRIBUTE list \<Rightarrow> byte list \<Rightarrow> nat \<Rightarrow> 's \<Rightarrow> (TEE_Result \<times> byte list \<times> nat option \<times> 's) option" where
  "TA_FindAttrMatchObjects A attrs obj max_obj_cnt s =
     with_enumerator A (\<lambda>e. find_match_loop A attrs e max_obj_cnt obj 0 (replicate 64 0)) obj s"

definition TA_FindObjects :: "'s tee_api \<Rightarrow> u32 \<Rightarrow> TEE_Params \<Rightarrow> 's \<Rightarrow> (TEE_Result \<times> TEE_Params \<times> 's) option" where
  "TA_FindObjects A param_types params s =
     (if param_types \<noteq> TEE_PARAM_TYPES TEE_PARAM_TYPE_MEMREF_INPUT TEE_PARAM_TYPE_MEMREF_OUTPUT
           TEE_PARAM_TYPE_VALUE_OUTPUT TEE_PARAM_TYPE_NONE
      then Some (TEE_ERROR_BAD_PARAMETERS, params, s)
      else do {
        p1 \<leftarrow> param params 1;
        (obj, al_obj) \<leftarrow> memref_bytes p1;
        let max_obj_cnt = length obj div 4;
        p0 \<leftarrow> param params 0;
        (buf, al) \<leftarrow> memref_bytes p0;
        (res, ts, s) \<leftarrow> unpack_attrs A al buf s;
        if res \<noteq> TEE_SUCCESS then Some (res, params, s)
        else do {
          (res, obj, obj_cnt, s) \<leftarrow>
            (if ts = [] then TA_FindAllObjects A obj max_obj_cnt s
             else TA_FindAttrMatchObjects A (map (resolve buf) ts) obj max_obj_cnt s);
          let s = release A 0 0 0 (blk ts) s;
          let params = params[1 := set_memref obj p1];
          if res \<noteq> TEE_SUCCESS then Some (res, params, s)
          else do {
            p2 \<leftarrow> param params 2;
            p2 \<leftarrow> set_value_a (case obj_cnt of None \<Rightarrow> 0 | Some n \<Rightarrow> of_nat n) p2;
            Some (res, params[2 := p2], s) } } })"

section \<open>Erasure and attribute retrieval\<close>

definition TA_EraseObject :: "'s tee_api \<Rightarrow> u32 \<Rightarrow> TEE_Params \<Rightarrow> 's \<Rightarrow> (TEE_Result \<times> TEE_Params \<times> 's) option" where
  "TA_EraseObject A param_types params s =
     (if param_types \<noteq> TEE_PARAM_TYPES TEE_PARAM_TYPE_VALUE_INPUT TEE_PARAM_TYPE_NONE
           TEE_PARAM_TYPE_NONE TEE_PARAM_TYPE_NONE
      then Some (TEE_ERROR_BAD_PARAMETERS, params, s)
      else do {
        p0 \<leftarrow> param params 0;
        obj_id \<leftarrow> value_a p0;
        let (res, pObject, s) = TEE_OpenPersistentObject_fn A (put_u32 obj_id) TEE_DATA_FLAG_ACCESS_WRITE_META s;
        if res \<noteq> TEE_SUCCESS then Some (res, params, s)
        else Some (res, params, TEE_CloseAndDeletePersistentObject_fn A pObject s) })"

text \<open>
  The loop of \<open>TA_GetObjectAttributes\<close>: the requested attributes hold pointers into the shared
  buffer, which it fills, and lengths, which it updates; \<open>res_attr\<close> is the last error.
\<close>

fun answer_loop :: "SK_ATTRIBUTE list \<Rightarrow> ta_attr list \<Rightarrow> byte list \<Rightarrow> TEE_Result \<Rightarrow>
    (byte list \<times> ta_attr list \<times> TEE_Result) option" where
  "answer_loop obj_attrs [] buf res_attr = Some (buf, [], res_attr)"
| "answer_loop obj_attrs (t # ts) buf res_attr =
     (case TA_GetSKAttr (ta_type t) obj_attrs of
        None \<Rightarrow> do {
          (buf, ts, r) \<leftarrow> answer_loop obj_attrs ts buf TEE_ERROR_BAD_PARAMETERS;
          Some (buf, t # ts, r) }
      | Some m \<Rightarrow>
         (case ta_ptr t of
            None \<Rightarrow> do {
              (buf, ts, r) \<leftarrow> answer_loop obj_attrs ts buf res_attr;
              Some (buf, t\<lparr>ta_len := sk_valueLen m\<rparr> # ts, r) }
          | Some p \<Rightarrow>
              if ta_len t < sk_valueLen m then do {
                (buf, ts, r) \<leftarrow> answer_loop obj_attrs ts buf TEE_ERROR_SHORT_BUFFER;
                Some (buf, t\<lparr>ta_len := 0xFFFF\<rparr> # ts, r) }
              else do {
                v \<leftarrow> read_bytes (sk_value m) (unat (sk_valueLen m));
                buf \<leftarrow> poke buf p v;
                (buf, ts, r) \<leftarrow> answer_loop obj_attrs ts buf res_attr;
                Some (buf, t\<lparr>ta_len := sk_valueLen m\<rparr> # ts, r) }))"

text \<open>Filling and serialising the answer in the shared buffer, once the object's attributes are known.\<close>

definition answer_attrs ::
    "'s tee_api \<Rightarrow> SK_ATTRIBUTE list \<Rightarrow> ta_attr list \<Rightarrow> byte list \<Rightarrow> 's \<Rightarrow> (TEE_Result \<times> byte list \<times> byte list \<times> 's) option" where
  "answer_attrs A obj_attrs ts buf s = do {
     (buf, ts, res_attr) \<leftarrow> answer_loop obj_attrs ts buf TEE_SUCCESS;
     (res, data_out, s) \<leftarrow> pack_data A (map (resolve buf) ts) s;
     if res \<noteq> TEE_SUCCESS then Some (res, buf, data_out, s)
     else if length buf < length data_out then Some (TEE_ERROR_SHORT_BUFFER, buf, data_out, s)
     else do {
       buf \<leftarrow> poke buf 0 data_out;
       Some (if res_attr \<noteq> TEE_SUCCESS then res_attr else res, buf, data_out, s) } }"

text \<open>
  \<open>TA_GetObjectAttributes\<close> once the object is open: it returns the result, the shared buffer and how
  many blocks its variables \<open>data\<close>, \<open>obj_attrs\<close> and \<open>data_out\<close> point to at the clean-up.
\<close>

definition answer_object ::
    "'s tee_api \<Rightarrow> u64 \<Rightarrow> ta_attr list \<Rightarrow> byte list \<Rightarrow> 's \<Rightarrow> (TEE_Result \<times> byte list \<times> nat \<times> 's) option" where
  "answer_object A pObject ts buf s =
     (let (res, info, s) = TEE_GetObjectInfo1_fn A pObject s in
      if res \<noteq> TEE_SUCCESS then Some (res, buf, 0, s)
      else let (ok, s) = TEE_Malloc_fn A (unat (dataSize info)) s in
      if \<not> ok then Some (TEE_ERROR_OUT_OF_MEMORY, buf, 0, s)
      else let (res, d, s) = TEE_ReadObjectData_fn A pObject (unat (dataSize info)) s in
      if res \<noteq> TEE_SUCCESS \<or> length d \<noteq> unat (dataSize info) then Some (res, buf, 1, s)
      else do {
        obj_attr_cnt \<leftarrow> deref_u32 (Some d);
        let (ok, s) = TEE_Malloc_fn A (24 * unat obj_attr_cnt) s;
        if \<not> ok then Some (TEE_ERROR_OUT_OF_MEMORY, buf, 1, s)
        else do {
          (res, os, s) \<leftarrow> unpack_attrs A True d s;
          if res \<noteq> TEE_SUCCESS then Some (res, buf, 2, s)
          else do {
            (res, buf, data_out, s) \<leftarrow> answer_attrs A (map (resolve d) os) ts buf s;
            Some (res, buf, 1 + blk os + blk data_out, s) } } })"

definition TA_GetObjectAttributes :: "'s tee_api \<Rightarrow> u32 \<Rightarrow> TEE_Params \<Rightarrow> 's \<Rightarrow> (TEE_Result \<times> TEE_Params \<times> 's) option" where
  "TA_GetObjectAttributes A param_types params s =
     (if param_types \<noteq> TEE_PARAM_TYPES TEE_PARAM_TYPE_VALUE_INPUT TEE_PARAM_TYPE_MEMREF_INOUT
           TEE_PARAM_TYPE_NONE TEE_PARAM_TYPE_NONE
      then Some (TEE_ERROR_BAD_PARAMETERS, params, s)
      else do {
        p1 \<leftarrow> param params 1;
        (buf, al) \<leftarrow> memref_bytes p1;
        (res, ts, s) \<leftarrow> unpack_attrs A al buf s;
        if res \<noteq> TEE_SUCCESS then Some (res, params, s)
        else do {
          p0 \<leftarrow> param params 0;
          obj_id \<leftarrow> value_a p0;
          let (res, pObject, s) = TEE_OpenPersistentObject_fn A (put_u32 obj_id)
                (TEE_DATA_FLAG_ACCESS_READ OR TEE_DATA_FLAG_SHARE_READ) s;
          if res \<noteq> TEE_SUCCESS then Some (res, params, release A 0 0 0 (blk ts) s)
          else do {
            (res, buf, n, s) \<leftarrow> answer_object A pObject ts buf s;
            Some (res, params[1 := set_memref buf p1], release A pObject 0 0 (blk ts + n) s) } } })"

end
