(* ===== verification/Ta_Crypto.thy ===== *)
theory Ta_Crypto
  imports Ta_Objects
begin

text \<open>
  The cryptographic commands of the trusted application (\<open>secure_storage_crypto.c\<close>) and its entry
  points (\<open>secure_storage_entry.c\<close>).
\<close>

section \<open>Mechanisms\<close>

definition digest_algorithm :: "u32 \<Rightarrow> (u32 \<times> nat) option" where
  "digest_algorithm m =
     (if m = SKM_MD5 then Some (0x50000001, 16) else if m = SKM_SHA1 then Some (0x50000002, 20)
      else if m = SKM_SHA224 then Some (0x50000003, 28) else if m = SKM_SHA256 then Some (0x50000004, 32)
      else if m = SKM_SHA384 then Some (0x50000005, 48) else if m = SKM_SHA512 then Some (0x50000006, 64)
      else None)"

definition sign_algorithm :: "u32 \<Rightarrow> u32 option" where
  "sign_algorithm m =
     (if m = SKM_RSASSA_PKCS1_V1_5_MD5 then Some 0x70001830 else if m = SKM_RSASSA_PKCS1_V1_5_SHA1 then Some 0x70002830
      else if m = SKM_RSASSA_PKCS1_V1_5_SHA224 then Some 0x70003830
      else if m = SKM_RSASSA_PKCS1_V1_5_SHA256 then Some 0x70004830
      else if m = SKM_RSASSA_PKCS1_V1_5_SHA384 then Some 0x70005830
      else if m = SKM_RSASSA_PKCS1_V1_5_SHA512 then Some 0x70006830 else None)"

definition decrypt_algorithm :: "u32 \<Rightarrow> u32 option" where
  "decrypt_algorithm m =
     (if m = SKM_RSAES_PKCS1_V1_5 then Some 0x60000130 else if m = SKM_RSA_PKCS_NOPAD then Some 0x60000030 else None)"

section \<open>The commands\<close>

text \<open>The output of a cryptographic function: the bytes it wrote and the size it reports.\<close>

definition put_output :: "byte list \<Rightarrow> nat \<Rightarrow> TEE_Param \<Rightarrow> TEE_Param" where
  "put_output r n p = set_memref_size n (set_memref r p)"

definition TA_DigestData :: "'s tee_api \<Rightarrow> u32 \<Rightarrow> TEE_Params \<Rightarrow> 's \<Rightarrow> (TEE_Result \<times> TEE_Params \<times> 's) option" where
  "TA_DigestData A param_types params s =
     (if param_types \<noteq> TEE_PARAM_TYPES TEE_PARAM_TYPE_VALUE_INPUT TEE_PARAM_TYPE_MEMREF_INPUT
           TEE_PARAM_TYPE_MEMREF_OUTPUT TEE_PARAM_TYPE_NONE
      then Some (TEE_ERROR_BAD_PARAMETERS, params, s)
      else do {
        p0 \<leftarrow> param params 0;
        mech \<leftarrow> value_a p0;
        (case digest_algorithm mech of
           None \<Rightarrow> Some (TEE_ERROR_BAD_PARAMETERS, params, s)
         | Some (algorithm, digest_size) \<Rightarrow> do {
             p2 \<leftarrow> param params 2;
             (out, n, al) \<leftarrow> memref p2;
             if out = None then Some (TEE_SUCCESS, params[2 := set_memref_size digest_size p2], s)
             else if n < digest_size then Some (TEE_ERROR_SHORT_BUFFER, params, s)
             else do {
               let (res, operation, s) = TEE_AllocateOperation_fn A algorithm TEE_MODE_DIGEST 0 s;
               if res \<noteq> TEE_SUCCESS then Some (res, params, s)
               else do {
                 p1 \<leftarrow> param params 1;
                 (inp, al1) \<leftarrow> memref_bytes p1;
                 let (res, r, m, s) = TEE_DigestDoFinal_fn A operation inp n s;
                 Some (res, params[2 := put_output r m p2], release A 0 0 operation 0 s) } } }) })"

text \<open>
  \<open>TA_SignDigest\<close> and \<open>TA_DecryptData\<close> differ in the table of algorithms, the mode and the final
  call \<open>run\<close>: open the key, size query, copy the key to a transient object, allocate an
  operation, set its key, run it.
\<close>

definition key_operation ::
    "'s tee_api \<Rightarrow> (u32 \<Rightarrow> u32 option) \<Rightarrow> u32 \<Rightarrow> (u64 \<Rightarrow> byte list \<Rightarrow> nat \<Rightarrow> 's \<Rightarrow> TEE_Result \<times> byte list \<times> nat \<times> 's) \<Rightarrow>
     u32 \<Rightarrow> TEE_Params \<Rightarrow> 's \<Rightarrow> (TEE_Result \<times> TEE_Params \<times> 's) option" where
  "key_operation A alg mode run param_types params s =
     (if param_types \<noteq> TEE_PARAM_TYPES TEE_PARAM_TYPE_VALUE_INPUT TEE_PARAM_TYPE_MEMREF_INPUT
           TEE_PARAM_TYPE_MEMREF_OUTPUT TEE_PARAM_TYPE_NONE
      then Some (TEE_ERROR_BAD_PARAMETERS, params, s)
      else do {
        p0 \<leftarrow> param params 0;
        obj_id \<leftarrow> value_a p0;
        mech \<leftarrow> value_b p0;
        p2 \<leftarrow> param params 2;
        (out, n, al) \<leftarrow> memref p2;
        let (res, pObject, s) = TEE_OpenPersistentObject_fn A (put_u32 obj_id)
              (TEE_DATA_FLAG_ACCESS_READ OR TEE_DATA_FLAG_SHARE_READ) s;
        if res \<noteq> TEE_SUCCESS then Some (res, params, s)
        else do {
          let (res, info, s) = TEE_GetObjectInfo1_fn A pObject s;
          if res \<noteq> TEE_SUCCESS then Some (res, params, release A pObject 0 0 0 s)
          else if out = None
          then Some (res, params[2 := set_memref_size (unat (objectSize info)) p2], release A pObject 0 0 0 s)
          else do {
            let (res, tObject, s) = TEE_AllocateTransientObject_fn A (objectType info) (objectSize info) s;
            if res \<noteq> TEE_SUCCESS then Some (res, params, release A pObject 0 0 0 s)
            else do {
              let (res, s) = TEE_CopyObjectAttributes1_fn A tObject pObject s;
              if res \<noteq> TEE_SUCCESS then Some (res, params, release A pObject tObject 0 0 s)
              else
                (case alg mech of
                   None \<Rightarrow> Some (TEE_ERROR_BAD_PARAMETERS, params, release A pObject tObject 0 0 s)
                 | Some algorithm \<Rightarrow> do {
                     let (res, operation, s) = TEE_AllocateOperation_fn A algorithm mode (objectSize info) s;
                     if res \<noteq> TEE_SUCCESS then Some (res, params, release A pObject tObject 0 0 s)
                     else do {
                       let (res, s) = TEE_SetOperationKey_fn A operation tObject s;
                       if res \<noteq> TEE_SUCCESS then Some (res, params, release A pObject tObject operation 0 s)
                       else do {
                         p1 \<leftarrow> param params 1;
                         (inp, al1) \<leftarrow> memref_bytes p1;
                         let (res, r, m, s) = run operation inp n s;
                         Some (res, params[2 := put_output r m p2], release A pObject tObject operation 0 s) } } }) } } } })"

definition TA_SignDigest :: "'s tee_api \<Rightarrow> u32 \<Rightarrow> TEE_Params \<Rightarrow> 's \<Rightarrow> (TEE_Result \<times> TEE_Params \<times> 's) option" where
  "TA_SignDigest A = key_operation A sign_algorithm TEE_MODE_SIGN (TEE_AsymmetricSignDigest_fn A)"

definition TA_DecryptData :: "'s tee_api \<Rightarrow> u32 \<Rightarrow> TEE_Params \<Rightarrow> 's \<Rightarrow> (TEE_Result \<times> TEE_Params \<times> 's) option" where
  "TA_DecryptData A = key_operation A decrypt_algorithm TEE_MODE_DECRYPT (TEE_AsymmetricDecrypt_fn A)"

section \<open>Entry points\<close>

abbreviation (input) TEE_CREATE_OBJECT :: u32 where "TEE_CREATE_OBJECT \<equiv> 1"
abbreviation (input) TEE_FIND_OBJECTS :: u32 where "TEE_FIND_OBJECTS \<equiv> 2"
abbreviation (input) TEE_GET_OBJ_ATTRIBUTES :: u32 where "TEE_GET_OBJ_ATTRIBUTES \<equiv> 3"
abbreviation (input) TEE_ERASE_OBJECT :: u32 where "TEE_ERASE_OBJECT \<equiv> 4"
abbreviation (input) TEE_SIGN_DIGEST :: u32 where "TEE_SIGN_DIGEST \<equiv> 5"
abbreviation (input) TEE_DECRYPT_DATA :: u32 where "TEE_DECRYPT_DATA \<equiv> 6"
abbreviation (input) TEE_DIGEST_DATA :: u32 where "TEE_DIGEST_DATA \<equiv> 7"
abbreviation (input) TEE_GENERATE_KEYPAIR :: u32 where "TEE_GENERATE_KEYPAIR \<equiv> 8"

definition TA_CreateEntryPoint :: "'s tee_api \<Rightarrow> 's \<Rightarrow> TEE_Result \<times> 's" where
  "TA_CreateEntryPoint A s = TA_OpenDatabase A s"

definition TA_OpenSessionEntryPoint :: "u32 \<Rightarrow> TEE_Result" where
  "TA_OpenSessionEntryPoint param_types =
     (if param_types \<noteq> TEE_PARAM_TYPES TEE_PARAM_TYPE_NONE TEE_PARAM_TYPE_NONE TEE_PARAM_TYPE_NONE TEE_PARAM_TYPE_NONE
      then TEE_ERROR_BAD_PARAMETERS else TEE_SUCCESS)"

definition TA_InvokeCommandEntryPoint ::
    "'s tee_api \<Rightarrow> u32 \<Rightarrow> u32 \<Rightarrow> TEE_Params \<Rightarrow> 's \<Rightarrow> (TEE_Result \<times> TEE_Params \<times> 's) option" where
  "TA_InvokeCommandEntryPoint A cmd_id param_types params s =
     (if cmd_id = TEE_CREATE_OBJECT then TA_CreateObject A param_types params s
      else if cmd_id = TEE_FIND_OBJECTS then TA_FindObjects A param_types params s
      else if cmd_id = TEE_GET_OBJ_ATTRIBUTES then TA_GetObjectAttributes A param_types params s
      else if cmd_id = TEE_ERASE_OBJECT then TA_EraseObject A param_types params s
      else if cmd_id = TEE_SIGN_DIGEST then TA_SignDigest A param_types params s
      else if cmd_id = TEE_DECRYPT_DATA then TA_DecryptData A param_types params s
      else if cmd_id = TEE_DIGEST_DATA then TA_DigestData A param_types params s
      else if cmd_id = TEE_GENERATE_KEYPAIR then TA_GenerateKeyPair A param_types params s
      else Some (TEE_ERROR_BAD_PARAMETERS, params, s))"

end
