(* ===== verification/Ta_Storage.thy ===== *)
theory Ta_Storage
  imports Ta_Crypto
begin

text \<open>
  What the object commands do to the storage, over every trusted storage (\<open>trusted_storage\<close> of
  \<open>Ta_Api\<close>): the effect of each API call on the view, the identifier counter of the database, and the
  commands that create, generate and erase objects. Each lemma describes the whole handler, on every
  result code: which object appears under which identifier, and that handles and heap blocks are
  given back.
\<close>

section \<open>What a call does to the view\<close>

text \<open>Everything but the objects and the number of heap blocks.\<close>

definition same_handles :: "tee_store \<Rightarrow> tee_store \<Rightarrow> bool" where
  "same_handles v v' \<longleftrightarrow> st_handles v' = st_handles v \<and> st_enums v' = st_enums v \<and> st_others v' = st_others v"

lemma same_handles_refl [simp]: "same_handles v v"
  by (simp add: same_handles_def)

lemma same_handles_trans [trans]: "same_handles u v \<Longrightarrow> same_handles v w \<Longrightarrow> same_handles u w"
  by (simp add: same_handles_def)

lemma fresh_handle_undo:
  assumes "fresh_handle v h"
  shows "(st_handles v)(h := None) = st_handles v" and "(st_enums v)(h := None) = st_enums v"
    and "st_others v - {h} = st_others v" and "h \<noteq> TEE_HANDLE_NULL"
  using assms by (auto simp: fresh_handle_def fun_eq_iff dom_def)

lemma trusted_storageD:
  assumes "trusted_storage A view"
  shows "opens_objects A view" "closes_objects A view" "creates_objects A view" "reads_data A view" "seeks_data A view"
    "writes_data A view" "informs A view" "starts_enumerations A view" "enumerates_objects A view" "manages_handles A view"
    "computes A view" "allocates_memory A view"
  using assms by (simp_all add: trusted_storage_def)

lemma storage_open:
  assumes "trusted_storage A view" and "TEE_OpenPersistentObject_fn A i fl s = (rc, h, s')"
  shows "rc \<noteq> TEE_SUCCESS \<Longrightarrow> view s' = view s"
    and "rc = TEE_SUCCESS \<Longrightarrow> i \<in> dom (st_objects (view s))"
    and "rc = TEE_SUCCESS \<Longrightarrow> fresh_handle (view s) h"
    and "rc = TEE_SUCCESS \<Longrightarrow> view s' = (view s)\<lparr>st_handles := (st_handles (view s))(h \<mapsto> (i, 0))\<rparr>"
    and "rc = TEE_ERROR_ITEM_NOT_FOUND \<Longrightarrow> i \<notin> dom (st_objects (view s))"
  using trusted_storageD(1) [OF assms(1)] assms(2) unfolding opens_objects_def by (simp_all split: if_splits)

lemma storage_close:
  assumes "trusted_storage A view" and "h \<in> dom (st_handles (view s))"
  shows "view (TEE_CloseObject_fn A h s) = (view s)\<lparr>st_handles := (st_handles (view s))(h := None)\<rparr>"
  using trusted_storageD(2) [OF assms(1)] assms(2) unfolding closes_objects_def by simp

lemma storage_delete:
  assumes "trusted_storage A view" and "st_handles (view s) h = Some (i, p)"
  shows "view (TEE_CloseAndDeletePersistentObject_fn A h s) =
    (view s)\<lparr>st_handles := (st_handles (view s))(h := None), st_objects := (st_objects (view s))(i := None)\<rparr>"
  using trusted_storageD(2) [OF assms(1)] assms(2) unfolding closes_objects_def by simp

lemma storage_create:
  assumes "trusted_storage A view" and "TEE_CreatePersistentObject_fn A i fl a d s = (rc, s')"
  shows "rc \<noteq> TEE_SUCCESS \<Longrightarrow> view s' = view s"
    and "rc = TEE_SUCCESS \<Longrightarrow> i \<notin> dom (st_objects (view s)) \<and>
      (\<exists>x. obj_data x = d \<and> view s' = (view s)\<lparr>st_objects := (st_objects (view s))(i \<mapsto> x)\<rparr>)"
  using trusted_storageD(3) [OF assms(1)] assms(2) unfolding creates_objects_def by (simp_all split: if_splits)

lemma storage_read:
  assumes "trusted_storage A view" and "TEE_ReadObjectData_fn A h n s = (rc, d, s')"
    and "st_handles (view s) h = Some (i, p)" and "st_objects (view s) i = Some x"
  shows "d = (if rc = TEE_SUCCESS then slice (obj_data x) p n else [])" and "rc \<noteq> TEE_ERROR_ITEM_NOT_FOUND"
    and "view s' = (view s)\<lparr>st_handles := (st_handles (view s))(h \<mapsto> (i, p + length d))\<rparr>"
  using trusted_storageD(4) [OF assms(1)] assms(2-4) unfolding reads_data_def by blast+

lemma storage_seek:
  assumes "trusted_storage A view" and "TEE_SeekObjectData_fn A h q s = (rc, s')" and "st_handles (view s) h = Some (i, p)"
  shows "view s' = (if rc = TEE_SUCCESS then (view s)\<lparr>st_handles := (st_handles (view s))(h \<mapsto> (i, q))\<rparr> else view s)"
  using trusted_storageD(5) [OF assms(1)] assms(2,3) unfolding seeks_data_def by blast

lemma storage_write:
  assumes "trusted_storage A view" and "TEE_WriteObjectData_fn A h w s = (rc, s')"
    and "st_handles (view s) h = Some (i, p)" and "st_objects (view s) i = Some x"
  shows "view s' = (if rc = TEE_SUCCESS
    then (view s)\<lparr>st_handles := (st_handles (view s))(h \<mapsto> (i, p + length w)),
           st_objects := (st_objects (view s))(i \<mapsto> x\<lparr>obj_data := overwritten (obj_data x) p w\<rparr>)\<rparr>
    else view s)"
  using trusted_storageD(6) [OF assms(1)] assms(2-4) unfolding writes_data_def by blast

lemma storage_info:
  assumes "trusted_storage A view" and "TEE_GetObjectInfo1_fn A h s = (rc, info, s')"
    and "st_handles (view s) h = Some (i, p)" and "st_objects (view s) i = Some x"
  shows "view s' = view s" and "rc = TEE_SUCCESS \<Longrightarrow> info = info_of x"
  using trusted_storageD(7) [OF assms(1)] assms(2-4) unfolding informs_def by blast+

lemma storage_malloc:
  assumes "trusted_storage A view" and "TEE_Malloc_fn A n s = (ok, s')"
  shows "view s' = (view s)\<lparr>st_blocks := st_blocks (view s) + (if ok then 1 else 0)\<rparr>"
  using trusted_storageD(12) [OF assms(1)] assms(2) unfolding allocates_memory_def by simp

lemma storage_frees:
  assumes "trusted_storage A view"
  shows "n \<le> st_blocks (view s) \<Longrightarrow> view (frees A n s) = (view s)\<lparr>st_blocks := st_blocks (view s) - n\<rparr>"
proof (induction n arbitrary: s)
  case 0
  then show ?case by simp
next
  case (Suc n)
  have "view (TEE_Free_fn A s) = (view s)\<lparr>st_blocks := st_blocks (view s) - 1\<rparr>"
    using trusted_storageD(12) [OF assms] Suc.prems unfolding allocates_memory_def by simp
  then show ?case using Suc by simp
qed

lemma storage_others:
  assumes "trusted_storage A view"
  shows "allocates (TEE_AllocateTransientObject_fn A ty sz) view" "allocates (TEE_AllocateOperation_fn A al md sz) view"
    "releases (TEE_FreeTransientObject_fn A) view" "releases (TEE_FreeOperation_fn A) view"
  using trusted_storageD(10) [OF assms] by (simp_all add: manages_handles_def)

lemma allocates_cases:
  assumes "allocates f view" and "f s = (rc, h, s')"
  shows "rc \<noteq> TEE_SUCCESS \<Longrightarrow> view s' = view s" and "rc = TEE_SUCCESS \<Longrightarrow> fresh_handle (view s) h"
    and "rc = TEE_SUCCESS \<Longrightarrow> view s' = (view s)\<lparr>st_others := insert h (st_others (view s))\<rparr>"
  using assms unfolding allocates_def by (auto split: if_splits)

lemma silentD: "silent f view \<Longrightarrow> f s = (r, s') \<Longrightarrow> view s' = view s"
  unfolding silent_def by (metis snd_conv)

lemma storage_silent:
  assumes "trusted_storage A view"
  shows "TEE_PopulateTransientObject_fn A h as s = (rc, s') \<Longrightarrow> view s' = view s"
    "TEE_GenerateKey_fn A h n as s = (rc, s') \<Longrightarrow> view s' = view s"
    "TEE_GetObjectBufferAttribute_fn A h ai k s = (rc, b, s') \<Longrightarrow> view s' = view s"
    "TEE_CopyObjectAttributes1_fn A h h' s = (rc, s') \<Longrightarrow> view s' = view s"
    "TEE_SetOperationKey_fn A h h' s = (rc, s') \<Longrightarrow> view s' = view s"
    "TEE_DigestDoFinal_fn A h d k s = (rc, r, m, s') \<Longrightarrow> view s' = view s"
    "TEE_AsymmetricSignDigest_fn A h d k s = (rc, r, m, s') \<Longrightarrow> view s' = view s"
    "TEE_AsymmetricDecrypt_fn A h d k s = (rc, r, m, s') \<Longrightarrow> view s' = view s"
  using trusted_storageD(11) [OF assms] silentD [of _ view s] unfolding computes_def by (metis snd_conv)+

text \<open>The view after the clean-up of a handler.\<close>

lemma storage_release:
  assumes "trusted_storage A view" and "p = 0 \<or> p \<in> dom (st_handles (view s))" and "t = 0 \<or> t \<in> st_others (view s)"
    and "o' = 0 \<or> o' \<in> st_others (view s) \<and> o' \<noteq> t" and "n \<le> st_blocks (view s)"
  shows "view (release A p t o' n s) = (view s)\<lparr>st_handles := (if p = 0 then st_handles (view s) else (st_handles (view s))(p := None)),
     st_others := st_others (view s) - ({t, o'} - {0}), st_blocks := st_blocks (view s) - n\<rparr>"
proof -
  have rel: "view (unless_null f h s) = (view s)\<lparr>st_others := st_others (view s) - ({h} - {0})\<rparr>"
    if "releases f view" "h = 0 \<or> h \<in> st_others (view s)" for f h s
    using that by (auto simp: unless_null_def releases_def)
  have c: "view (unless_null (TEE_CloseObject_fn A) p s) =
      (view s)\<lparr>st_handles := (if p = 0 then st_handles (view s) else (st_handles (view s))(p := None))\<rparr>"
    using assms(2) storage_close [OF assms(1)] by (auto simp: unless_null_def)
  let ?s1 = "unless_null (TEE_CloseObject_fn A) p s"
  have 1: "view (unless_null (TEE_FreeTransientObject_fn A) t ?s1) = (view ?s1)\<lparr>st_others := st_others (view ?s1) - ({t} - {0})\<rparr>"
    by (rule rel) (use storage_others(3) [OF assms(1)] assms(3) in \<open>simp_all add: c\<close>)
  let ?s2 = "unless_null (TEE_FreeTransientObject_fn A) t ?s1"
  have 2: "view (unless_null (TEE_FreeOperation_fn A) o' ?s2) = (view ?s2)\<lparr>st_others := st_others (view ?s2) - ({o'} - {0})\<rparr>"
    by (rule rel) (use storage_others(4) [OF assms(1)] assms(4) in \<open>auto simp: 1 c\<close>)
  have 3: "view (release A p t o' n s) = (view (unless_null (TEE_FreeOperation_fn A) o' ?s2))\<lparr>st_blocks :=
      st_blocks (view (unless_null (TEE_FreeOperation_fn A) o' ?s2)) - n\<rparr>"
    unfolding release_def by (rule storage_frees [OF assms(1)]) (simp add: 2 1 c assms(5))
  show ?thesis unfolding 3 2 1 c by (auto intro: arg_cong2)
qed

section \<open>The identifier counter\<close>

text \<open>The database holds a counter; every object of the application has a smaller number.\<close>

definition counter :: "tee_store \<Rightarrow> u32" where
  "counter v = (case st_objects v db_obj_id of None \<Rightarrow> 0 | Some x \<Rightarrow> get_u32 (obj_data x))"

definition id_inv :: "tee_store \<Rightarrow> bool" where
  "id_inv v \<longleftrightarrow> (\<exists>x. st_objects v db_obj_id = Some x \<and> length (obj_data x) = 4) \<and>
     (\<forall>h. put_u32 h \<in> dom (st_objects v) \<longrightarrow> unat h < unat (counter v))"

lemma db_obj_id_ne [simp]: "put_u32 h \<noteq> db_obj_id" "db_obj_id \<noteq> put_u32 h"
proof -
  have "length (put_u32 h) \<noteq> length db_obj_id" by (simp add: db_obj_id_def)
  then show "put_u32 h \<noteq> db_obj_id" "db_obj_id \<noteq> put_u32 h" by metis+
qed

lemma put_get_u32: "length d = 4 \<Longrightarrow> put_u32 (get_u32 d) = d"
proof -
  assume d: "length d = 4"
  have "le_decode d < 2 ^ 32" using le_decode_less [of d] d by simp
  then have "unat (get_u32 d) = le_decode d" using d by (simp add: get_u32_def unat_of_nat take_bit_nat_eq_self)
  then show ?thesis using le_encode_decode [of d] d by (simp add: put_u32_def)
qed

lemma counter_data: "st_objects v db_obj_id = Some x \<Longrightarrow> length (obj_data x) = 4 \<Longrightarrow> obj_data x = put_u32 (counter v)"
  by (simp add: counter_def put_get_u32)

text \<open>The view with the counter raised.\<close>

definition counted :: "tee_store \<Rightarrow> tee_store" where
  "counted v = v\<lparr>st_objects := (st_objects v)(db_obj_id \<mapsto> (the (st_objects v db_obj_id))\<lparr>obj_data := put_u32 (counter v + 1)\<rparr>)\<rparr>"

lemma close_opened:
  assumes "trusted_storage A view" and "fresh_handle v h" and "view t = v\<lparr>st_handles := (st_handles v)(h \<mapsto> p)\<rparr>"
  shows "view (unless_null (TEE_CloseObject_fn A) h t) = v"
proof -
  note h = fresh_handle_undo [OF assms(2)]
  have "h \<in> dom (st_handles (view t))" using assms(3) by simp
  from storage_close [OF assms(1) this] show ?thesis using h assms(3) by (simp add: unless_null_def)
qed

text \<open>The second half of the counter's update: back to the start of the object, and the next number written.\<close>

lemma rewrite_counter:
  assumes "trusted_storage A view" and "fresh_handle v h" and "view s = v\<lparr>st_handles := (st_handles v)(h \<mapsto> (db_obj_id, 4))\<rparr>"
    and "st_objects v db_obj_id = Some x" and "length (obj_data x) = 4"
    and "TEE_SeekObjectData_fn A h 0 s = (rc3, s3)" and "TEE_WriteObjectData_fn A h (put_u32 (counter v + 1)) s3 = (rc4, s4)"
  shows "rc3 \<noteq> TEE_SUCCESS \<Longrightarrow> view (unless_null (TEE_CloseObject_fn A) h s3) = v"
    and "rc3 = TEE_SUCCESS \<Longrightarrow> view (unless_null (TEE_CloseObject_fn A) h s4) = (if rc4 = TEE_SUCCESS then counted v else v)"
proof -
  note T = assms(1) and h = fresh_handle_undo [OF assms(2)]
  have "st_handles (view s) h = Some (db_obj_id, 4)" using assms(3) by simp
  note v3 = storage_seek [OF T assms(6) this]
  show "view (unless_null (TEE_CloseObject_fn A) h s3) = v" if "rc3 \<noteq> TEE_SUCCESS"
    by (rule close_opened [OF T assms(2), of _ "(db_obj_id, 4)"]) (use v3 that assms(3) in simp)
  assume seek: "rc3 = TEE_SUCCESS"
  have h3: "st_handles (view s3) h = Some (db_obj_id, 0)" "st_objects (view s3) db_obj_id = Some x"
    using v3 seek assms(3,4) by simp_all
  note v4 = storage_write [OF T assms(7) h3]
  have w: "overwritten (obj_data x) 0 (put_u32 (counter v + 1)) = put_u32 (counter v + 1)"
    using assms(5) by (simp add: overwritten_def)
  have "h \<in> dom (st_handles (view s4))" using v4 h3(1) by (auto split: if_splits)
  from storage_close [OF T this] show "view (unless_null (TEE_CloseObject_fn A) h s4) = (if rc4 = TEE_SUCCESS then counted v else v)"
    using v4 v3 seek assms(3,4) w h by (simp add: unless_null_def counted_def)
qed

lemma TA_GetNextObjectID_spec:
  assumes "trusted_storage A view" and "st_objects (view s) db_obj_id = Some x" and "length (obj_data x) = 4"
    and "TA_GetNextObjectID A n s = (rc, h, s')"
  shows "view s' = (if rc = TEE_SUCCESS then counted (view s) else view s)" and "rc = TEE_SUCCESS \<Longrightarrow> h = counter (view s)"
proof -
  note T = assms(1)
  obtain rc1 o1 s1 where 1: "TEE_OpenPersistentObject_fn A db_obj_id
      (TEE_DATA_FLAG_ACCESS_WRITE OR TEE_DATA_FLAG_SHARE_WRITE OR TEE_DATA_FLAG_ACCESS_READ OR TEE_DATA_FLAG_SHARE_READ) s = (rc1, o1, s1)"
    by (metis prod_cases3)
  have "view s' = (if rc = TEE_SUCCESS then counted (view s) else view s) \<and> (rc = TEE_SUCCESS \<longrightarrow> h = counter (view s))"
  proof (cases "rc1 = TEE_SUCCESS")
    case False
    with assms(4) 1 storage_open(1) [OF T 1] show ?thesis by (auto simp: TA_GetNextObjectID_def)
  next
    case True
    note o1 = storage_open(3) [OF T 1 True] and v1 = storage_open(4) [OF T 1 True]
    obtain rc2 d s2 where 2: "TEE_ReadObjectData_fn A o1 4 s1 = (rc2, d, s2)" by (metis prod_cases3)
    have h1: "st_handles (view s1) o1 = Some (db_obj_id, 0)" "st_objects (view s1) db_obj_id = Some x"
      using v1 assms(2) by simp_all
    note r = storage_read [OF T 2 h1]
    show ?thesis
    proof (cases "rc2 = TEE_SUCCESS")
      case False
      have "rc = rc2" "s' = unless_null (TEE_CloseObject_fn A) o1 s2"
        using assms(4) 1 2 True False r(1) by (simp_all add: TA_GetNextObjectID_def Let_def)
      then show ?thesis using False close_opened [OF T o1, of s2 "(db_obj_id, 0)"] r v1 by simp
    next
      case read: True
      have d: "d = put_u32 (counter (view s))"
        using r(1) read assms(3) counter_data [OF assms(2,3)] by (simp add: slice_def)
      obtain rc3 s3 where 3: "TEE_SeekObjectData_fn A o1 0 s2 = (rc3, s3)" by (cases "TEE_SeekObjectData_fn A o1 0 s2")
      obtain rc4 s4 where 4: "TEE_WriteObjectData_fn A o1 (put_u32 (counter (view s) + 1)) s3 = (rc4, s4)"
        by (cases "TEE_WriteObjectData_fn A o1 (put_u32 (counter (view s) + 1)) s3")
      have "view s2 = (view s)\<lparr>st_handles := (st_handles (view s))(o1 \<mapsto> (db_obj_id, 4))\<rparr>" using r(3) v1 d by simp
      note w = rewrite_counter [OF T o1 this assms(2,3) 3 4]
      show ?thesis using assms(4) 1 2 3 4 True read d w
        by (cases "rc3 = TEE_SUCCESS") (auto simp: TA_GetNextObjectID_def Let_def)
    qed
  qed
  then show "view s' = (if rc = TEE_SUCCESS then counted (view s) else view s)" "rc = TEE_SUCCESS \<Longrightarrow> h = counter (view s)"
    by auto
qed

lemma same_handles_counted [simp]: "same_handles v (counted v)" "st_blocks (counted v) = st_blocks v"
  by (simp_all add: same_handles_def counted_def)

section \<open>Packing and unpacking in the application\<close>

lemma unpack_attrs_spec:
  assumes "trusted_storage A view" and "unpack_attrs A al buf s = Some (rc, ts, s')"
  shows "view s' = (view s)\<lparr>st_blocks := st_blocks (view s) + blk ts\<rparr>" and "rc \<noteq> TEE_SUCCESS \<Longrightarrow> ts = []"
    and "ta_unpack_sk_attrs True al buf = Some (rc, ts) \<or> rc = TEE_ERROR_OUT_OF_MEMORY"
proof -
  have "view s' = (view s)\<lparr>st_blocks := st_blocks (view s) + blk ts\<rparr> \<and> (rc \<noteq> TEE_SUCCESS \<longrightarrow> ts = []) \<and>
      (ta_unpack_sk_attrs True al buf = Some (rc, ts) \<or> rc = TEE_ERROR_OUT_OF_MEMORY)"
  proof (cases "ta_unpack_sk_attrs False al buf = Some (TEE_ERROR_OUT_OF_MEMORY, [])")
    case False
    obtain rf tf where f: "ta_unpack_sk_attrs False al buf = Some (rf, tf)" "rf \<noteq> TEE_SUCCESS \<longrightarrow> tf = []"
      using ta_unpack_safe [of False al buf] by blast
    have e: "ta_unpack_sk_attrs True al buf = Some (rf, tf)"
      using False f by (auto simp: ta_unpack_sk_attrs_def split: if_splits bind_splits)
    have "tf = []"
      using False f e by (auto simp: ta_unpack_sk_attrs_def split: if_splits bind_splits)
    with e assms(2) False f show ?thesis by (auto simp: unpack_attrs_def blk_def)
  next
    case True
    obtain ok s1 where m: "TEE_Malloc_fn A (24 * unat (get_u32 buf)) s = (ok, s1)"
      by (cases "TEE_Malloc_fn A (24 * unat (get_u32 buf)) s")
    note v1 = storage_malloc [OF assms(1) m]
    show ?thesis
    proof (cases ok)
      case False
      with True m v1 assms(2) show ?thesis by (simp add: unpack_attrs_def blk_def)
    next
      case ok: True
      obtain ra ta where a: "ta_unpack_sk_attrs True al buf = Some (ra, ta)" "ra \<noteq> TEE_SUCCESS \<longrightarrow> ta = []"
        using ta_unpack_safe [of True al buf] by blast
      have ne: "ra = TEE_SUCCESS \<Longrightarrow> ta \<noteq> []"
      proof -
        assume ra: "ra = TEE_SUCCESS"
        obtain nn where nn: "buf \<noteq> []" "peek_u32 buf 0 = Some nn" "nn \<noteq> 0"
          using True by (auto simp: ta_unpack_sk_attrs_def split: if_splits bind_splits)
        then show "ta \<noteq> []" using ta_unpack_safe [of True al buf] a(1) ra by auto
      qed
      have free: "view (TEE_Free_fn A s1) = (view s1)\<lparr>st_blocks := st_blocks (view s1) - 1\<rparr>"
        using storage_frees [OF assms(1), of 1 s1] v1 ok by simp
      show ?thesis using True m ok a ne assms(2) v1 free
        by (auto simp: unpack_attrs_def blk_def split: if_splits)
    qed
  qed
  then show "view s' = (view s)\<lparr>st_blocks := st_blocks (view s) + blk ts\<rparr>" "rc \<noteq> TEE_SUCCESS \<Longrightarrow> ts = []"
    "ta_unpack_sk_attrs True al buf = Some (rc, ts) \<or> rc = TEE_ERROR_OUT_OF_MEMORY" by auto
qed

lemma pack_sk_attrs_data:
  "pack_sk_attrs True as = Some (rc, d) \<Longrightarrow> as \<noteq> [] \<Longrightarrow> rc = TEE_SUCCESS \<and> d \<noteq> []"
proof -
  assume p: "pack_sk_attrs True as = Some (rc, d)" "as \<noteq> []"
  have len: "pack_loop sel hv xs i off b = Some b' \<Longrightarrow> length b' = length b" for sel hv xs i off b b'
    by (induction xs arbitrary: i off b) (auto split: if_splits bind_splits dest!: put_attr_length)
  from p show ?thesis
    by (auto simp: pack_sk_attrs_def Let_def split: bind_splits dest!: len poke_SomeD(1))
qed

lemma pack_data_spec:
  assumes "trusted_storage A view" and "pack_data A as s = Some (rc, d, s')"
  shows "view s' = (view s)\<lparr>st_blocks := st_blocks (view s) + blk d\<rparr>"
    and "rc = TEE_SUCCESS \<Longrightarrow> pack_sk_attrs True as = Some (TEE_SUCCESS, d)"
proof -
  have "view s' = (view s)\<lparr>st_blocks := st_blocks (view s) + blk d\<rparr> \<and>
      (rc = TEE_SUCCESS \<longrightarrow> pack_sk_attrs True as = Some (TEE_SUCCESS, d))"
  proof (cases "as = []")
    case True
    with assms(2) show ?thesis by (simp add: pack_data_def blk_def pack_sk_attrs_def)
  next
    case False
    obtain ok s1 where m: "TEE_Malloc_fn A (4 + 12 * length (filter packable as) + values_size stores_value (filter packable as)) s = (ok, s1)"
      by (cases "TEE_Malloc_fn A (4 + 12 * length (filter packable as) + values_size stores_value (filter packable as)) s")
    note v1 = storage_malloc [OF assms(1) m]
    show ?thesis
    proof (cases ok)
      case True
      with False m assms(2) obtain e where "pack_sk_attrs True as = Some (rc, d)" "s' = s1"
        by (auto simp: pack_data_def split: bind_splits)
      with pack_sk_attrs_data [OF this(1) False] v1 True show ?thesis by (simp add: blk_def)
    next
      case no: False
      with False m assms(2) v1 show ?thesis by (simp add: pack_data_def pack_sk_attrs_def blk_def)
    qed
  qed
  then show "view s' = (view s)\<lparr>st_blocks := st_blocks (view s) + blk d\<rparr>"
    "rc = TEE_SUCCESS \<Longrightarrow> pack_sk_attrs True as = Some (TEE_SUCCESS, d)" by auto
qed

section \<open>Storing an object\<close>

text \<open>
  What a command that stores an object did: nothing, or it raised the counter without creating the
  object, or it created the object under the old value of the counter.
\<close>

definition stored :: "tee_store \<Rightarrow> TEE_Result \<Rightarrow> u32 \<Rightarrow> byte list \<Rightarrow> tee_store \<Rightarrow> bool" where
  "stored v rc h d v' \<longleftrightarrow>
     (if rc = TEE_SUCCESS
      then h = counter v \<and> put_u32 h \<notin> dom (st_objects v) \<and>
        (\<exists>x. obj_data x = d \<and> st_objects v' = (st_objects (counted v))(put_u32 h \<mapsto> x))
      else st_objects v' \<in> {st_objects v, st_objects (counted v)})"

lemma stored_cong:
  assumes "st_objects v = st_objects w" and "st_objects v' = st_objects w'"
  shows "stored v rc h d v' = stored w rc h d w'"
proof -
  have "counter v = counter w" using assms(1) by (simp add: counter_def)
  then have "st_objects (counted v) = st_objects (counted w)" using assms(1) by (simp add: counted_def)
  with assms \<open>counter v = counter w\<close> show ?thesis by (simp add: stored_def)
qed

lemma store_object_spec:
  assumes "trusted_storage A view" and "st_objects (view s) db_obj_id = Some x" and "length (obj_data x) = 4"
    and "store_object A as t s = Some (rc, h, d, s')"
  shows "stored (view s) rc h d (view s')" and "same_handles (view s) (view s')"
    and "st_blocks (view s') = st_blocks (view s) + blk d"
    and "rc = TEE_SUCCESS \<Longrightarrow> pack_sk_attrs True as = Some (TEE_SUCCESS, d)"
proof -
  note T = assms(1)
  from assms(4) obtain rc1 s1 where 1: "pack_data A as s = Some (rc1, d, s1)"
    by (auto simp: store_object_def split: bind_splits if_splits prod.splits)
  note v1 = pack_data_spec [OF T 1]
  obtain rc2 h2 s2 where 2: "TA_GetNextObjectID A 0 s1 = (rc2, h2, s2)" by (metis prod_cases3)
  have x1: "st_objects (view s1) db_obj_id = Some x" "counter (view s1) = counter (view s)"
    using v1(1) assms(2) by (simp_all add: counter_def)
  note v2 = TA_GetNextObjectID_spec [OF T x1(1) assms(3) 2]
  obtain rc3 s3 where 3: "TEE_CreatePersistentObject_fn A (put_u32 h2)
      (TEE_DATA_FLAG_ACCESS_WRITE OR TEE_DATA_FLAG_ACCESS_READ) t d s2 = (rc3, s3)"
    by (metis surj_pair)
  note v3 = storage_create [OF T 3]
  have c: "counted (view s1) = (counted (view s))\<lparr>st_blocks := st_blocks (view s) + blk d\<rparr>"
    using v1(1) by (simp add: counted_def counter_def)
  have "stored (view s) rc h d (view s') \<and> same_handles (view s) (view s') \<and>
    st_blocks (view s') = st_blocks (view s) + blk d \<and> (rc = TEE_SUCCESS \<longrightarrow> pack_sk_attrs True as = Some (TEE_SUCCESS, d))"
  proof (cases "rc1 = TEE_SUCCESS")
    case False
    with assms(4) 1 v1 show ?thesis by (auto simp: store_object_def stored_def same_handles_def)
  next
    case r1: True
    show ?thesis
    proof (cases "rc2 = TEE_SUCCESS")
      case False
      with assms(4) 1 2 r1 v1 v2 show ?thesis by (auto simp: store_object_def stored_def same_handles_def)
    next
      case r2: True
      with assms(4) 1 2 3 r1 have e: "rc = rc3" "h = h2" "s' = s3" by (simp_all add: store_object_def)
      have s2: "view s2 = (counted (view s))\<lparr>st_blocks := st_blocks (view s) + blk d\<rparr>" "h2 = counter (view s)"
        using v2 r2 c x1(2) by simp_all
      show ?thesis
      proof (cases "rc3 = TEE_SUCCESS")
        case False
        with v3(1) e s2 show ?thesis by (simp add: stored_def same_handles_def counted_def)
      next
        case True
        from v3(2) [OF this] obtain y where y: "put_u32 h2 \<notin> dom (st_objects (view s2))" "obj_data y = d"
          "view s3 = (view s2)\<lparr>st_objects := (st_objects (view s2))(put_u32 h2 \<mapsto> y)\<rparr>" by blast
        with True e s2 v1(2) [OF r1] show ?thesis by (auto simp: stored_def same_handles_def counted_def)
      qed
    qed
  qed
  then show "stored (view s) rc h d (view s')" "same_handles (view s) (view s')"
    "st_blocks (view s') = st_blocks (view s) + blk d"
    "rc = TEE_SUCCESS \<Longrightarrow> pack_sk_attrs True as = Some (TEE_SUCCESS, d)" by auto
qed

lemma GetTEEObjectTypeAndAttr_spec:
  assumes "trusted_storage A view" and "TA_GetTEEObjectTypeAndAttr A as s = Some (rc, tas, ty, sz, s')"
  shows "view s' = (view s)\<lparr>st_blocks := st_blocks (view s) + (if rc = TEE_SUCCESS then 1 else 0)\<rparr>"
proof -
  have r: "view s' = (view s)\<lparr>st_blocks := st_blocks (view s) + (if rc = TEE_SUCCESS then 1 else 0)\<rparr>"
    if "rsa_object A as oty n fl s = Some (rc, tas, ty, sz, s')" for oty n fl
    using that storage_malloc [OF assms(1), of "24 * n" s]
    by (cases "TEE_Malloc_fn A (24 * n) s") (auto simp: rsa_object_def split: option.splits bind_splits if_splits)
  from assms(2) show ?thesis
    unfolding TA_GetTEEObjectTypeAndAttr_def by (auto split: option.splits bind_splits if_splits dest!: r)
qed

text \<open>
  The state between: transient object \<open>t\<close> and \<open>n\<close> blocks are held. Releasing them leads back.
\<close>

definition holding :: "u64 \<Rightarrow> nat \<Rightarrow> tee_store \<Rightarrow> tee_store" where
  "holding t n v = v\<lparr>st_others := insert t (st_others v), st_blocks := st_blocks v + n\<rparr>"

lemma release_holding:
  assumes "trusted_storage A view" and "view s = holding t n v" and "fresh_handle v t"
  shows "view (release A 0 t 0 n s) = v"
  using assms(2) fresh_handle_undo [OF assms(3)]
  by (subst storage_release [OF assms(1)]) (simp_all add: insert_Diff_if holding_def)

lemma release_blocks:
  assumes "trusted_storage A view" and "view s = v\<lparr>st_blocks := st_blocks v + n\<rparr>"
  shows "view (release A 0 0 0 n s) = v"
  using assms(2) by (subst storage_release [OF assms(1)]) simp_all

lemma store_and_release:
  assumes "trusted_storage A view" and "st_objects v db_obj_id = Some x" and "length (obj_data x) = 4"
    and "view s = holding t n v" and "fresh_handle v t" and "store_object A as t s = Some (rc, h, d, s')"
  shows "stored v rc h d (view (release A 0 t 0 (n + blk d) s'))"
    and "same_handles v (view (release A 0 t 0 (n + blk d) s'))"
    and "st_blocks (view (release A 0 t 0 (n + blk d) s')) = st_blocks v"
proof -
  note T = assms(1)
  have o: "st_objects (view s) = st_objects v" using assms(4) by (simp add: holding_def)
  note v1 = store_object_spec [OF T _ assms(3,6), unfolded o, OF assms(2)]
  have b: "st_handles (view s') = st_handles v" "st_enums (view s') = st_enums v"
    "st_others (view s') = insert t (st_others v)" "st_blocks (view s') = st_blocks v + (n + blk d)"
    using v1(2,3) assms(4) by (simp_all add: same_handles_def holding_def)
  have r: "view (release A 0 t 0 (n + blk d) s') = (view s')\<lparr>st_others := st_others v, st_blocks := st_blocks v\<rparr>"
    using fresh_handle_undo [OF assms(5)] b by (subst storage_release [OF T]) (simp_all add: insert_Diff_if)
  show "stored v rc h d (view (release A 0 t 0 (n + blk d) s'))"
    using v1(1) stored_cong [OF o, of "view s'" "view (release A 0 t 0 (n + blk d) s')" rc h d] r by simp
  show "same_handles v (view (release A 0 t 0 (n + blk d) s'))"
    "st_blocks (view (release A 0 t 0 (n + blk d) s')) = st_blocks v"
    using r b by (simp_all add: same_handles_def)
qed

lemma stored_nothing: "rc \<noteq> TEE_SUCCESS \<Longrightarrow> st_objects v' = st_objects v \<Longrightarrow> stored v rc h d v'"
  by (simp add: stored_def)

lemma create_from_attrs_spec:
  assumes "trusted_storage A view" and "st_objects (view s) db_obj_id = Some x" and "length (obj_data x) = 4"
    and "create_from_attrs A as s = Some (rc, h, s')"
  shows "\<exists>d. stored (view s) rc h d (view s') \<and> same_handles (view s) (view s') \<and> st_blocks (view s') = st_blocks (view s) \<and>
    (rc = TEE_SUCCESS \<longrightarrow> pack_sk_attrs True as = Some (TEE_SUCCESS, d))"
proof -
  note T = assms(1)
  from assms(4) obtain rc2 tas ty sz s2 where 2: "TA_GetTEEObjectTypeAndAttr A as s = Some (rc2, tas, ty, sz, s2)"
    by (auto simp: create_from_attrs_def split: bind_splits)
  note v2 = GetTEEObjectTypeAndAttr_spec [OF T 2]
  obtain rc3 t s3 where 3: "TEE_AllocateTransientObject_fn A ty sz s2 = (rc3, t, s3)" by (metis prod_cases3)
  note v3 = allocates_cases [OF storage_others(1) [OF T] 3]
  obtain rc4 s4 where 4: "TEE_PopulateTransientObject_fn A t tas s3 = (rc4, s4)" by (metis surj_pair)
  note v4 = storage_silent(1) [OF T 4]
  consider "rc2 \<noteq> TEE_SUCCESS" | "rc2 = TEE_SUCCESS" "rc3 \<noteq> TEE_SUCCESS"
    | "rc2 = TEE_SUCCESS" "rc3 = TEE_SUCCESS" by blast
  then show ?thesis
  proof cases
    case 1
    with assms(4) 2 v2 show ?thesis by (auto simp: create_from_attrs_def stored_nothing)
  next
    case c: 2
    then have "view s' = view s" "rc = rc3"
      using assms(4) 2 3 v2 v3(1) release_blocks [OF T, of s3 "view s" 1] by (simp_all add: create_from_attrs_def)
    with c show ?thesis by (auto simp: stored_nothing)
  next
    case c: 3
    have f: "fresh_handle (view s) t" using v3(2) c v2 by (simp add: fresh_handle_def)
    have b4: "view s4 = holding t 1 (view s)" using v4 v3(3) c v2 by (simp add: holding_def)
    show ?thesis
    proof (cases "rc4 = TEE_SUCCESS")
      case False
      with assms(4) 2 3 4 c release_holding [OF T b4 f] show ?thesis
        by (auto simp: create_from_attrs_def stored_nothing)
    next
      case True
      with assms(4) 2 3 4 c obtain d s5 where 5: "store_object A as t s4 = Some (rc, h, d, s5)"
          "s' = release A 0 t 0 (1 + blk d) s5"
        by (auto simp: create_from_attrs_def split: bind_splits)
      have o: "st_objects (view s4) = st_objects (view s)" using b4 by (simp add: holding_def)
      note v5 = store_object_spec [OF T _ assms(3) 5(1), unfolded o, OF assms(2)]
      from store_and_release [OF T assms(2,3) b4 f 5(1)] 5(2) v5(4) show ?thesis by blast
    qed
  qed
qed

lemma storage_frees_back:
  assumes "trusted_storage A view" and "n \<le> st_blocks (view s)"
  shows "st_objects (view (frees A n s)) = st_objects (view s)" "same_handles (view s) (view (frees A n s))"
    "st_blocks (view (frees A n s)) = st_blocks (view s) - n"
  using storage_frees [OF assms] by (simp_all add: same_handles_def)

text \<open>The whole handler of \<open>TEE_CREATE_OBJECT\<close>.\<close>

lemma TA_CreateObject_spec:
  assumes "trusted_storage A view" and "st_objects (view s) db_obj_id = Some x" and "length (obj_data x) = 4"
    and "TA_CreateObject A types ps s = Some (rc, ps', s')"
  shows "same_handles (view s) (view s') \<and> st_blocks (view s') = st_blocks (view s) \<and>
    (\<exists>h d. stored (view s) rc h d (view s') \<and> (rc = TEE_SUCCESS \<longrightarrow> (\<exists>p0 buf al ts p1 q. param ps 0 = Some p0 \<and>
        memref_bytes p0 = Some (buf, al) \<and> ta_unpack_sk_attrs True al buf = Some (TEE_SUCCESS, ts) \<and>
        pack_sk_attrs True (map (resolve buf) ts) = Some (TEE_SUCCESS, d) \<and>
        param ps 1 = Some p1 \<and> set_value_a h p1 = Some q \<and> ps' = ps[1 := q])))"
proof (cases "types = TEE_PARAM_TYPES TEE_PARAM_TYPE_MEMREF_INPUT TEE_PARAM_TYPE_VALUE_OUTPUT TEE_PARAM_TYPE_NONE TEE_PARAM_TYPE_NONE")
  case False
  with assms(4) show ?thesis by (auto simp: TA_CreateObject_def stored_nothing)
next
  case types: True
  note T = assms(1)
  from assms(4) types obtain p0 buf al rc1 ts s1 where 1: "param ps 0 = Some p0" "memref_bytes p0 = Some (buf, al)"
      "unpack_attrs A al buf s = Some (rc1, ts, s1)"
    by (auto simp: TA_CreateObject_def split: bind_splits)
  note v1 = unpack_attrs_spec [OF T 1(3)]
  show ?thesis
  proof (cases "rc1 = TEE_SUCCESS")
    case False
    with assms(4) types 1 v1 show ?thesis by (auto simp: TA_CreateObject_def blk_def stored_nothing)
  next
    case r1: True
    with assms(4) types 1 obtain rc2 h s2 where 2: "create_from_attrs A (map (resolve buf) ts) s1 = Some (rc2, h, s2)"
      by (auto simp: TA_CreateObject_def split: bind_splits)
    have x1: "st_objects (view s1) db_obj_id = Some x" using v1(1) assms(2) by simp
    from create_from_attrs_spec [OF T x1 assms(3) 2] obtain d where
      d: "stored (view s1) rc2 h d (view s2)" "same_handles (view s1) (view s2)" "st_blocks (view s2) = st_blocks (view s1)"
        "rc2 = TEE_SUCCESS \<longrightarrow> pack_sk_attrs True (map (resolve buf) ts) = Some (TEE_SUCCESS, d)" by blast
    note fr = storage_frees_back [OF T, of "blk ts" s2]
    have b: "blk ts \<le> st_blocks (view s2)" using v1(1) d(3) by simp
    have s': "rc = rc2" "s' = frees A (blk ts) s2" "rc2 = TEE_SUCCESS \<Longrightarrow>
        \<exists>p1 q. param ps 1 = Some p1 \<and> set_value_a h p1 = Some q \<and> ps' = ps[1 := q]"
      using assms(4) types 1 2 r1 by (auto simp: TA_CreateObject_def Let_def split: bind_splits if_splits)
    have "stored (view s) rc h d (view s')"
      using d(1) stored_cong [of "view s1" "view s" "view s2" "view s'" rc h d] fr(1) [OF b] v1(1) s' by simp
    moreover have "same_handles (view s) (view s')" "st_blocks (view s') = st_blocks (view s)"
      using d(2,3) fr(2,3) [OF b] v1(1) s'(2) by (simp_all add: same_handles_def)
    moreover have "ta_unpack_sk_attrs True al buf = Some (TEE_SUCCESS, ts)" using v1(3) r1 by simp
    ultimately show ?thesis using s' d(4) 1(1,2) by metis
  qed
qed

section \<open>Key generation\<close>

lemma frees_holding:
  assumes "trusted_storage A view" and "view s = holding t n v"
  shows "view (frees A n s) = holding t 0 v"
  using storage_frees [OF assms(1), of n s] assms(2) by (simp add: holding_def)

text \<open>
  The transient object is returned also on later errors. Without a modulus size the array of the
  unpacked attributes stays allocated.
\<close>

lemma TA_GenerateRSAKeyPair_spec:
  assumes "trusted_storage A view" and "TA_GenerateRSAKeyPair A al buf as s = Some (rc, t, as', s')"
  shows "if t = TEE_HANDLE_NULL
    then rc \<noteq> TEE_SUCCESS \<and> (\<exists>k \<le> 1. view s' = (view s)\<lparr>st_blocks := st_blocks (view s) + k\<rparr>)
    else fresh_handle (view s) t \<and> view s' = holding t 0 (view s)"
proof -
  note T = assms(1)
  from assms(2) obtain rc1 ts s1 where 1: "unpack_attrs A al buf s = Some (rc1, ts, s1)"
    by (auto simp: TA_GenerateRSAKeyPair_def split: bind_splits)
  note v1 = unpack_attrs_spec [OF T 1]
  have b1: "blk ts \<le> 1" by (simp add: blk_def)
  note unf = TA_GenerateRSAKeyPair_def [of A al buf as s, unfolded 1, simplified, unfolded Let_def]
  show ?thesis
  proof (cases "rc1 \<noteq> TEE_SUCCESS \<or> TA_GetSKAttr SK_ATTR_MODULUS_BITS (map (resolve buf) ts) = None")
    case True
    with assms(2) v1(1) b1 show ?thesis by (auto simp: unf split: if_splits)
  next
    case False
    then obtain z where z: "TA_GetSKAttr SK_ATTR_MODULUS_BITS (map (resolve buf) ts) = Some z" "rc1 = TEE_SUCCESS" by auto
    from assms(2) z obtain sz where sz: "deref_u32 (sk_value z) = Some sz" by (auto simp: unf split: bind_splits)
    obtain rc2 t2 s2 where 2: "TEE_AllocateTransientObject_fn A TEE_TYPE_RSA_KEYPAIR sz s1 = (rc2, t2, s2)" by (metis prod_cases3)
    note v2 = allocates_cases [OF storage_others(1) [OF T] 2]
    show ?thesis
    proof (cases "rc2 = TEE_SUCCESS")
      case False
      with assms(2) z sz 2 have "t = TEE_HANDLE_NULL" "rc \<noteq> TEE_SUCCESS" "s' = frees A (blk ts) s2" by (auto simp: unf)
      with storage_frees [OF T, of "blk ts" s2] v2(1) [OF False] v1(1) show ?thesis by (auto intro!: exI [of _ 0])
    next
      case True
      have f: "fresh_handle (view s) t2" using v2(2) [OF True] v1(1) by (simp add: fresh_handle_def)
      have b2: "view s2 = holding t2 (blk ts) (view s)" using v2(3) [OF True] v1(1) by (simp add: holding_def)
      let ?e = "case TA_GetSKAttr SK_ATTR_PUBLIC_EXPONENT (map (resolve buf) ts) of
        None \<Rightarrow> [] | Some e \<Rightarrow> [ref_attr TEE_ATTR_RSA_PUBLIC_EXPONENT e]"
      obtain rc3 s3 where 3: "TEE_GenerateKey_fn A t2 sz ?e s2 = (rc3, s3)" by (metis surj_pair)
      obtain rc4 m s4 where 4: "TEE_GetObjectBufferAttribute_fn A t2 TEE_ATTR_RSA_MODULUS MAX_KEY_SIZE_BYTES s3 = (rc4, m, s4)"
        by (metis prod_cases3)
      obtain rc5 e s5 where 5: "TEE_GetObjectBufferAttribute_fn A t2 TEE_ATTR_RSA_PUBLIC_EXPONENT MAX_KEY_SIZE_BYTES s4 = (rc5, e, s5)"
        by (metis prod_cases3)
      have v: "view s3 = holding t2 (blk ts) (view s)" "view s4 = holding t2 (blk ts) (view s)" "view s5 = holding t2 (blk ts) (view s)"
        using storage_silent(2) [OF T 3] storage_silent(3) [OF T 4] storage_silent(3) [OF T 5] b2 by simp_all
      have "t = t2 \<and> s' \<in> {frees A (blk ts) s3, frees A (blk ts) s4, frees A (blk ts) s5}"
        using assms(2) z sz 2 3 4 5 True by (simp add: unf split: if_splits)
      with frees_holding [OF T v(1)] frees_holding [OF T v(2)] frees_holding [OF T v(3)] f fresh_handle_undo(4) [OF f]
      show ?thesis by auto
    qed
  qed
qed

lemma TA_GenerateKeyPair_spec:
  assumes "trusted_storage A view" and "st_objects (view s) db_obj_id = Some x" and "length (obj_data x) = 4"
    and "TA_GenerateKeyPair A types ps s = Some (rc, ps', s')"
  shows "same_handles (view s) (view s') \<and> st_blocks (view s') \<in> {st_blocks (view s), st_blocks (view s) + 1} \<and>
    (\<exists>h d. stored (view s) rc h d (view s') \<and> (rc = TEE_SUCCESS \<longrightarrow> (\<exists>as p2 q.
        pack_sk_attrs True as = Some (TEE_SUCCESS, d) \<and> param ps 2 = Some p2 \<and> set_value_a h p2 = Some q \<and> ps' = ps[2 := q])))"
proof (cases "rc \<noteq> TEE_SUCCESS \<and> view s' = view s")
  case True
  then show ?thesis by (auto simp: stored_nothing)
next
  case go: False
  note T = assms(1)
  let ?as = "[sk_attr_of SK_ATTR_OBJECT_TYPE (put_u32 SK_KEY_PAIR), sk_attr_of SK_ATTR_KEY_TYPE (put_u32 SKK_RSA)]"
  from assms(4) go obtain p0 p1 buf al rc1 t as s1 where 0: "types = TEE_PARAM_TYPES TEE_PARAM_TYPE_VALUE_INPUT
      TEE_PARAM_TYPE_MEMREF_INPUT TEE_PARAM_TYPE_VALUE_OUTPUT TEE_PARAM_TYPE_NONE"
      "param ps 0 = Some p0" "value_a p0 = Some SKM_RSA_PKCS_KEY_PAIR_GEN" "param ps 1 = Some p1" "memref_bytes p1 = Some (buf, al)"
    and 1: "TA_GenerateRSAKeyPair A al buf ?as s = Some (rc1, t, as, s1)"
    by (fastforce simp: TA_GenerateKeyPair_def split: if_splits bind_splits)
  note unf = TA_GenerateKeyPair_def [of A types ps s, unfolded 0 1, simplified, unfolded 0 1, simplified]
  note v1 = TA_GenerateRSAKeyPair_spec [OF T 1]
  show ?thesis
  proof (cases "rc1 = TEE_SUCCESS")
    case False
    show ?thesis
    proof (cases "t = TEE_HANDLE_NULL")
      case True
      with False assms(4) 0 1 v1 show ?thesis
        by (auto simp: TA_GenerateKeyPair_def release_def unless_null_def same_handles_def stored_nothing le_Suc_eq)
    next
      case t: False
      with v1 release_holding [OF T, of s1 t 0 "view s"] False assms(4) 0 1 show ?thesis
        by (auto simp: TA_GenerateKeyPair_def stored_nothing)
    qed
  next
    case True
    with v1 have f: "fresh_handle (view s) t" "view s1 = holding t 0 (view s)" by (auto split: if_splits)
    from assms(4) 0 1 True obtain h d s2 where 2: "store_object A as t s1 = Some (rc, h, d, s2)" "s' = release A 0 t 0 (blk d) s2"
      and q: "rc = TEE_SUCCESS \<longrightarrow> (\<exists>p2 q. param ps 2 = Some p2 \<and> set_value_a h p2 = Some q \<and> ps' = ps[2 := q])"
      by (fastforce simp: TA_GenerateKeyPair_def Let_def split: bind_splits if_splits)
    have o: "st_objects (view s1) = st_objects (view s)" using f(2) by (simp add: holding_def)
    note v2 = store_object_spec [OF T _ assms(3) 2(1), unfolded o, OF assms(2)]
    from store_and_release [OF T assms(2,3) f(2,1) 2(1)] 2(2) v2(4) q show ?thesis
      by (intro conjI exI [of _ h] exI [of _ d]) auto
  qed
qed

section \<open>Erasure\<close>

lemma TA_EraseObject_spec:
  assumes "trusted_storage A view" and "TA_EraseObject A types ps s = Some (rc, ps', s')"
  shows "ps' = ps \<and> same_handles (view s) (view s') \<and> st_blocks (view s') = st_blocks (view s) \<and>
    (if rc = TEE_SUCCESS
     then \<exists>p h. param ps 0 = Some p \<and> value_a p = Some h \<and> put_u32 h \<in> dom (st_objects (view s)) \<and>
       st_objects (view s') = (st_objects (view s))(put_u32 h := None)
     else view s' = view s)"
proof (cases "types = TEE_PARAM_TYPES TEE_PARAM_TYPE_VALUE_INPUT TEE_PARAM_TYPE_NONE TEE_PARAM_TYPE_NONE TEE_PARAM_TYPE_NONE")
  case False
  with assms(2) show ?thesis by (auto simp: TA_EraseObject_def)
next
  case True
  note T = assms(1)
  from assms(2) True obtain p h where p: "param ps 0 = Some p" "value_a p = Some h"
    by (auto simp: TA_EraseObject_def split: bind_splits)
  obtain rc1 o1 s1 where 1: "TEE_OpenPersistentObject_fn A (put_u32 h) TEE_DATA_FLAG_ACCESS_WRITE_META s = (rc1, o1, s1)"
    by (metis prod_cases3)
  show ?thesis
  proof (cases "rc1 = TEE_SUCCESS")
    case False
    with assms(2) True p 1 storage_open(1) [OF T 1] show ?thesis by (auto simp: TA_EraseObject_def)
  next
    case ok: True
    note v1 = storage_open(4) [OF T 1 ok] and f = fresh_handle_undo [OF storage_open(3) [OF T 1 ok]]
    have "st_handles (view s1) o1 = Some (put_u32 h, 0)" using v1 by simp
    from storage_delete [OF T this] assms(2) True p 1 ok v1 f(1) storage_open(2) [OF T 1 ok] show ?thesis
      by (auto simp: TA_EraseObject_def same_handles_def)
  qed
qed

end
