(* ===== verification/Ta_Search.thy ===== *)
theory Ta_Search
  imports Ta_Storage
begin

text \<open>
  The commands that read objects: comparison of an object with a template, the two enumeration loops,
  the search command and the retrieval of attributes. The loops are described by what they leave in
  the caller's array; every path gives its handle, enumerator and blocks back, except for the one
  block that \<open>match_attr_obj\<close> and \<open>TA_GetObjectAttributes\<close> lose for each object they read.
\<close>

section \<open>Reading an object\<close>

text \<open>A handle on object \<open>i\<close> and \<open>n\<close> blocks are held; releasing them leads back.\<close>

definition reading :: "u64 \<Rightarrow> byte list \<times> nat \<Rightarrow> nat \<Rightarrow> tee_store \<Rightarrow> tee_store" where
  "reading h ip n v = v\<lparr>st_handles := (st_handles v)(h \<mapsto> ip), st_blocks := st_blocks v + n\<rparr>"

lemma reading_simps [simp]:
  "st_handles (reading h ip n v) h = Some ip" "st_objects (reading h ip n v) = st_objects v"
  "st_blocks (reading h ip n v) = st_blocks v + n" "st_enums (reading h ip n v) = st_enums v"
  "st_others (reading h ip n v) = st_others v"
  "(reading h ip n v)\<lparr>st_blocks := st_blocks v + m\<rparr> = reading h ip m v"
  by (simp_all add: reading_def)

lemma release_reading:
  assumes "trusted_storage A view" and "view s = reading h ip (m + n) v" and "fresh_handle v h"
  shows "view (release A h 0 0 n s) = v\<lparr>st_blocks := st_blocks v + m\<rparr>"
proof -
  have "h \<in> dom (st_handles (view s))" using assms(2) by auto
  then show ?thesis
    using assms(2) fresh_handle_undo [OF assms(3)] by (subst storage_release [OF assms(1)]) (simp_all add: reading_def)
qed

lemma open_reading:
  assumes "trusted_storage A view" and "TEE_OpenPersistentObject_fn A i fl s = (TEE_SUCCESS, h, s')"
    and "view s = v\<lparr>st_blocks := st_blocks v + n\<rparr>"
  obtains x where "st_objects v i = Some x" "fresh_handle v h" "view s' = reading h (i, 0) n v"
  using storage_open(2-4) [OF assms(1,2)] assms(3) by (auto simp: reading_def fresh_handle_def)

lemma malloc_reading:
  assumes "trusted_storage A view" and "TEE_Malloc_fn A k s = (ok, s')" and "view s = reading h ip n v"
  shows "view s' = reading h ip (n + (if ok then 1 else 0)) v"
  using storage_malloc [OF assms(1,2)] assms(3) by (simp add: reading_def)

lemma read_reading:
  assumes "trusted_storage A view" and "TEE_ReadObjectData_fn A h k s = (rc, d, s')" and "view s = reading h (i, p) n v"
    and "st_objects v i = Some x"
  shows "view s' = reading h (i, p + length d) n v" "d = (if rc = TEE_SUCCESS then slice (obj_data x) p k else [])"
    "rc \<noteq> TEE_ERROR_ITEM_NOT_FOUND"
  using storage_read [OF assms(1,2), of i p x] assms(3,4) by (simp_all add: reading_def)

lemma info_reading:
  assumes "trusted_storage A view" and "TEE_GetObjectInfo1_fn A h s = (rc, info, s')" and "view s = reading h (i, p) n v"
    and "st_objects v i = Some x"
  shows "view s' = reading h (i, p) n v" "rc = TEE_SUCCESS \<Longrightarrow> info = info_of x"
  using storage_info [OF assms(1,2), of i p x] assms(3,4) by (simp_all add: reading_def)

lemma unpack_reading:
  assumes "trusted_storage A view" and "unpack_attrs A al buf s = Some (rc, ts, s')" and "view s = reading h ip n v"
  shows "view s' = reading h ip (n + blk ts) v" "rc \<noteq> TEE_SUCCESS \<Longrightarrow> ts = []" "rc \<noteq> TEE_ERROR_ITEM_NOT_FOUND"
    "ta_unpack_sk_attrs True al buf = Some (rc, ts) \<or> rc = TEE_ERROR_OUT_OF_MEMORY"
  using unpack_attrs_spec [OF assms(1,2)] assms(3) ta_unpack_safe [of True al buf] by (auto simp: reading_def)

lemma pack_reading:
  assumes "trusted_storage A view" and "pack_data A as s = Some (rc, d, s')" and "view s = reading h ip n v"
  shows "view s' = reading h ip (n + blk d) v" "rc = TEE_SUCCESS \<Longrightarrow> pack_sk_attrs True as = Some (TEE_SUCCESS, d)"
  using pack_data_spec [OF assms(1,2)] assms(3) by (simp_all add: reading_def)

lemma unpack_attrs_total: "\<exists>rc ts s'. unpack_attrs A al buf s = Some (rc, ts, s')"
proof -
  obtain ok s1 where m: "TEE_Malloc_fn A (24 * unat (get_u32 buf)) s = (ok, s1)" by (metis surj_pair)
  obtain r ts r' ts' where "ta_unpack_sk_attrs ok al buf = Some (r, ts)" "ta_unpack_sk_attrs True al buf = Some (r', ts')"
    using ta_unpack_safe [of ok al buf] ta_unpack_safe [of True al buf] by blast
  with m show ?thesis by (simp add: unpack_attrs_def)
qed

text \<open>The attributes a data stream holds.\<close>

definition decoded :: "byte list \<Rightarrow> SK_ATTRIBUTE list option" where
  "decoded d = (case ta_unpack_sk_attrs True True d of
     Some (rc, ts) \<Rightarrow> if rc = TEE_SUCCESS then Some (map (resolve d) ts) else None | None \<Rightarrow> None)"

text \<open>
  The second half of the comparison, once the data of the object has been read: the number of its
  attributes, the array for them, and the unpacked attributes.
\<close>

definition compare_data :: "'s tee_api \<Rightarrow> SK_ATTRIBUTE list \<Rightarrow> u64 \<Rightarrow> byte list \<Rightarrow> nat \<Rightarrow> 's \<Rightarrow> (TEE_Result \<times> bool \<times> 's) option" where
  "compare_data A as h d n s = do {
     cnt \<leftarrow> deref_u32 (Some (d @ drop (length d) (replicate n 0)));
     let (ok, s) = TEE_Malloc_fn A (24 * unat cnt) s;
     if \<not> ok then Some (TEE_ERROR_OUT_OF_MEMORY, False, release A h 0 0 1 s)
     else do {
       (res, ts, s) \<leftarrow> unpack_attrs A True d s;
       if res \<noteq> TEE_SUCCESS then Some (res, False, release A h 0 0 2 s)
       else do {
         m \<leftarrow> match_loop (map (resolve d) ts) as False;
         Some (res, m, release A h 0 0 (1 + blk ts) s) } } }"

lemma compare_data_cases [consumes 4, case_names error compared]:
  assumes "trusted_storage A view" and "fresh_handle v h" and "view s = reading h p 1 v" and "4 \<le> n"
  obtains (error) rc s' where "compare_data A as h d n s = Some (rc, False, s')" "rc \<noteq> TEE_SUCCESS"
      "rc \<noteq> TEE_ERROR_ITEM_NOT_FOUND" "view s' = v"
  | (compared) ts s5 where "ta_unpack_sk_attrs True True d = Some (TEE_SUCCESS, ts)" "view s5 = reading h p (2 + blk ts) v"
      "compare_data A as h d n s = do { m \<leftarrow> match_loop (map (resolve d) ts) as False;
         Some (TEE_SUCCESS, m, release A h 0 0 (1 + blk ts) s5) }"
proof -
  note T = assms(1) and leave = release_reading [OF assms(1) _ assms(2)]
  have "deref_u32 (Some (d @ drop (length d) (replicate n 0))) \<noteq> None" using assms(4) by (auto simp: deref_u32_def)
  then obtain cnt where cnt: "deref_u32 (Some (d @ drop (length d) (replicate n 0))) = Some cnt" by blast
  obtain ok4 s4 where 4: "TEE_Malloc_fn A (24 * unat cnt) s = (ok4, s4)" by (metis surj_pair)
  have v4: "view s4 = reading h p (1 + (if ok4 then 1 else 0)) v" using malloc_reading [OF T 4 assms(3)] by simp
  obtain rc5 ts s5 where 5: "unpack_attrs A True d s4 = Some (rc5, ts, s5)"
    using unpack_attrs_total [of A True d s4] by blast
  note v5 = unpack_reading [OF T 5 v4]
  consider "\<not> ok4" | "ok4" "rc5 \<noteq> TEE_SUCCESS" | "ok4" "rc5 = TEE_SUCCESS" by blast
  then show thesis
  proof cases
    case 1
    with v4 leave [of s4 p 0 1] cnt 4 show thesis
      by (intro error [of TEE_ERROR_OUT_OF_MEMORY "release A h 0 0 1 s4"]) (auto simp: compare_data_def)
  next
    case e: 2
    have "view s5 = reading h p (0 + 2) v" using v5(1,2) e by (simp add: blk_def numeral_2_eq_2)
    from leave [OF this] e v5(3) cnt 4 5 show thesis by (intro error [of rc5 "release A h 0 0 2 s5"]) (auto simp: compare_data_def)
  next
    case 3
    with v5 cnt 4 5 show thesis by (intro compared [of ts s5]) (auto simp: compare_data_def)
  qed
qed

text \<open>
  \<open>match_attr_obj\<close> gives everything back except the block it allocates for the attribute array, whose
  address is lost when the attributes are unpacked. With the right size of the data stream it
  compares the template with the attributes of the object.
\<close>

lemma match_attr_obj_cases [consumes 2, case_names error short compared]:
  assumes "trusted_storage A view" and "read_bytes (Some idb) 4 = Some i"
  obtains (error) rc s' where "match_attr_obj A as idb info s = Some (rc, False, s')" "rc \<noteq> TEE_SUCCESS" "view s' = view s"
      "rc = TEE_ERROR_ITEM_NOT_FOUND \<Longrightarrow> i \<notin> dom (st_objects (view s))"
  | (short) x where "st_objects (view s) i = Some x" "unat (dataSize info) < 4" "match_attr_obj A as idb info s = None"
  | (compared) x d ts s5 h where "st_objects (view s) i = Some x" "d = slice (obj_data x) 0 (unat (dataSize info))"
      "ta_unpack_sk_attrs True True d = Some (TEE_SUCCESS, ts)" "fresh_handle (view s) h"
      "view s5 = reading h (i, length d) (2 + blk ts) (view s)"
      "match_attr_obj A as idb info s = do { m \<leftarrow> match_loop (map (resolve d) ts) as False;
         Some (TEE_SUCCESS, m, release A h 0 0 (1 + blk ts) s5) }"
proof -
  note T = assms(1)
  obtain rc1 h s1 where 1: "TEE_OpenPersistentObject_fn A i (TEE_DATA_FLAG_ACCESS_READ OR TEE_DATA_FLAG_SHARE_READ) s = (rc1, h, s1)"
    by (metis prod_cases3)
  show thesis
  proof (cases "rc1 = TEE_SUCCESS")
    case False
    with assms(2) 1 storage_open(1,5) [OF T 1] show thesis by (intro error [of rc1 s1]) (auto simp: match_attr_obj_def)
  next
    case r1: True
    obtain x where x: "st_objects (view s) i = Some x" "fresh_handle (view s) h" "view s1 = reading h (i, 0) 0 (view s)"
      using open_reading [OF T 1 [unfolded r1], of "view s" 0] by auto
    note leave = release_reading [OF T _ x(2)]
    let ?n = "unat (dataSize info)"
    obtain ok2 s2 where 2: "TEE_Malloc_fn A ?n s1 = (ok2, s2)" by (metis surj_pair)
    note v2 = malloc_reading [OF T 2 x(3)]
    obtain rc3 d s3 where 3: "TEE_ReadObjectData_fn A h ?n s2 = (rc3, d, s3)" by (metis prod_cases3)
    note v3 = read_reading [OF T 3 v2 x(1)]
    have unf: "match_attr_obj A as idb info s = (if \<not> ok2 then Some (TEE_ERROR_OUT_OF_MEMORY, False, release A h 0 0 0 s2)
        else if rc3 \<noteq> TEE_SUCCESS \<and> length d \<noteq> ?n then Some (rc3, False, release A h 0 0 1 s3)
        else compare_data A as h d ?n s3)"
      using assms(2) 1 r1 2 3 by (simp add: match_attr_obj_def compare_data_def Let_def)
    consider "\<not> ok2" | "ok2" "rc3 \<noteq> TEE_SUCCESS \<and> length d \<noteq> ?n" | "ok2" "\<not> (rc3 \<noteq> TEE_SUCCESS \<and> length d \<noteq> ?n)" "?n < 4"
      | "ok2" "rc3 = TEE_SUCCESS" "4 \<le> ?n"
      using v3(2) by (cases ok2; cases "rc3 = TEE_SUCCESS"; cases "?n < 4") auto
    then show thesis
    proof cases
      case 1
      with leave [of s2 "(i, 0)" 0 0] v2 show thesis by (intro error [of TEE_ERROR_OUT_OF_MEMORY "release A h 0 0 0 s2"]) (auto simp: unf)
    next
      case 2
      with leave [of s3 "(i, length d)" 0 1] v3 show thesis by (intro error [of rc3 "release A h 0 0 1 s3"]) (auto simp: unf)
    next
      case 3
      have "length d \<le> ?n" using v3(2) by (simp add: slice_def)
      with 3 x(1) show thesis by (intro short) (auto simp: unf compare_data_def deref_u32_def)
    next
      case c: 4
      have "view s3 = reading h (i, length d) 1 (view s)" using v3(1) c by simp
      from T x(2) this c(3) show thesis
      proof (cases rule: compare_data_cases [where as = as and d = d])
        case (error rc s')
        with c show thesis by (intro that(1) [of rc s']) (auto simp: unf)
      next
        case (compared ts s5)
        with c x v3(2) show thesis by (intro that(3) [of x d ts h s5]) (auto simp: unf)
      qed
    qed
  qed
qed

lemma match_attr_obj_spec:
  assumes "trusted_storage A view" and "match_attr_obj A as idb info s = Some (rc, m, s')"
  shows "view s' = (view s)\<lparr>st_blocks := st_blocks (view s) + (if rc = TEE_SUCCESS then 1 else 0)\<rparr>"
proof -
  from assms(2) obtain i where i: "read_bytes (Some idb) 4 = Some i" by (auto simp: match_attr_obj_def split: bind_splits)
  from assms(1) i show ?thesis
  proof (cases rule: match_attr_obj_cases [where as = as and info = info and s = s])
    case (compared x d ts s5 h)
    with assms(2) release_reading [OF assms(1), of s5 h "(i, length d)" 1 "1 + blk ts"] show ?thesis
      by (auto split: bind_splits)
  qed (use assms(2) in auto)
qed

lemma slice_all: "unat (dataSize (info_of x)) = length (obj_data x) \<Longrightarrow> slice (obj_data x) 0 (unat (dataSize (info_of x))) = obj_data x"
  by (simp add: slice_def)

lemma data_size: "length (obj_data x) < 2 ^ 32 \<Longrightarrow> unat (dataSize (info_of x)) = length (obj_data x)"
  by (simp add: info_of_def unat_of_nat take_bit_nat_eq_self)

lemma match_attr_obj_compares:
  assumes "trusted_storage A view" and "read_bytes (Some idb) 4 = Some i" and "st_objects (view s) i = Some x"
    and "length (obj_data x) < 2 ^ 32" and "4 \<le> length (obj_data x)"
    and "\<And>os. decoded (obj_data x) = Some os \<Longrightarrow> match_loop os as False \<noteq> None"
  shows "\<exists>rc m s'. match_attr_obj A as idb (info_of x) s = Some (rc, m, s') \<and>
    rc \<noteq> TEE_ERROR_ITEM_NOT_FOUND \<and>
    (rc = TEE_SUCCESS \<longrightarrow> (\<exists>os. decoded (obj_data x) = Some os \<and> match_loop os as False = Some m))"
  using assms(1,2)
proof (cases rule: match_attr_obj_cases [where as = as and info = "info_of x" and s = s])
  case error
  then show ?thesis using assms(3) by auto
next
  case short
  with data_size [OF assms(4)] assms(5) show ?thesis by simp
next
  case (compared y d ts s5 h)
  have d: "d = obj_data x" using compared(1,2) assms(3) slice_all [OF data_size [OF assms(4)]] by simp
  then have "decoded (obj_data x) = Some (map (resolve d) ts)" using compared(3) by (simp add: decoded_def)
  with assms(6) compared(6) d show ?thesis by fastforce
qed

text \<open>
  What \<open>TA_GetObjectAttributes\<close> does to the storage: nothing, but for one lost block when the
  attributes of the object could be unpacked.
\<close>

lemma answer_attrs_spec:
  assumes "trusted_storage A view" and "answer_attrs A os ts buf s = Some (rc, buf', d, s')" and "view s = reading h ip n v"
  shows "view s' = reading h ip (n + blk d) v"
proof -
  from assms(2) obtain buf1 ts1 r rc1 where "pack_data A (map (resolve buf1) ts1) s = Some (rc1, d, s')"
    by (auto simp: answer_attrs_def split: bind_splits if_splits)
  from pack_reading(1) [OF assms(1) this assms(3)] show ?thesis .
qed

text \<open>The blocks held at the clean-up are those counted, and at most one more.\<close>

lemma answer_object_spec:
  assumes "trusted_storage A view" and "answer_object A h ts buf s = Some (rc, buf', n, s')"
    and "view s = reading h (i, 0) m v" and "st_objects v i = Some x"
  shows "\<exists>p k. k \<le> 1 \<and> view s' = reading h (i, p) (k + (m + n)) v"
proof -
  note T = assms(1)
  obtain rc3 info s3 where 3: "TEE_GetObjectInfo1_fn A h s = (rc3, info, s3)" by (metis prod_cases3)
  note v3 = info_reading(1) [OF T 3 assms(3,4)]
  obtain ok4 s4 where 4: "TEE_Malloc_fn A (unat (dataSize info)) s3 = (ok4, s4)" by (metis surj_pair)
  note v4 = malloc_reading [OF T 4 v3]
  obtain rc5 d s5 where 5: "TEE_ReadObjectData_fn A h (unat (dataSize info)) s4 = (rc5, d, s5)" by (metis prod_cases3)
  note v5 = read_reading(1) [OF T 5 v4 assms(4)]
  show ?thesis
  proof (cases "rc3 \<noteq> TEE_SUCCESS \<or> \<not> ok4 \<or> rc5 \<noteq> TEE_SUCCESS \<or> length d \<noteq> unat (dataSize info)")
    case True
    have "s' = (if rc3 \<noteq> TEE_SUCCESS then s3 else if \<not> ok4 then s4 else s5) \<and>
        n = (if rc3 \<noteq> TEE_SUCCESS \<or> \<not> ok4 then 0 else 1)"
      using assms(2) 3 4 5 True by (simp add: answer_object_def split: if_splits)
    with v3 v4 v5 show ?thesis
      by (intro exI [of _ "if rc3 \<noteq> TEE_SUCCESS \<or> \<not> ok4 then 0 else length d"] exI [of _ 0]) (auto split: if_splits)
  next
    case ok: False
    then obtain cnt where cnt: "deref_u32 (Some d) = Some cnt"
      using assms(2) 3 4 5 by (auto simp: answer_object_def split: bind_splits)
    obtain ok6 s6 where 6: "TEE_Malloc_fn A (24 * unat cnt) s5 = (ok6, s6)" by (metis surj_pair)
    note v6 = malloc_reading [OF T 6 v5]
    show ?thesis
    proof (cases ok6)
      case False
      with assms(2) 3 4 5 6 ok cnt v6 show ?thesis
        by (intro exI [of _ "length d"] exI [of _ 0]) (auto simp: answer_object_def)
    next
      case ok6: True
      from assms(2) 3 4 5 6 ok cnt ok6 obtain rc7 os s7 where 7: "unpack_attrs A True d s6 = Some (rc7, os, s7)"
        by (auto simp: answer_object_def split: bind_splits)
      note v7 = unpack_reading [OF T 7 v6]
      show ?thesis
      proof (cases "rc7 = TEE_SUCCESS")
        case False
        with assms(2) 3 4 5 6 7 ok cnt ok6 v7 show ?thesis
          by (intro exI [of _ "length d"] exI [of _ 0]) (auto simp: answer_object_def blk_def numeral_2_eq_2)
      next
        case r7: True
        with assms(2) 3 4 5 6 7 ok cnt ok6 obtain rc8 buf8 d8 where
            8: "answer_attrs A (map (resolve d) os) ts buf s7 = Some (rc8, buf8, d8, s')" "n = 1 + blk os + blk d8"
          by (auto simp: answer_object_def split: bind_splits)
        from answer_attrs_spec [OF T 8(1) v7(1)] 8(2) ok ok6 show ?thesis
          by (intro exI [of _ "length d"] exI [of _ 1]) (simp add: add.commute add.left_commute)
      qed
    qed
  qed
qed

lemma TA_GetObjectAttributes_spec:
  assumes "trusted_storage A view" and "TA_GetObjectAttributes A types ps s = Some (rc, ps', s')"
  shows "\<exists>k \<le> 1. view s' = (view s)\<lparr>st_blocks := st_blocks (view s) + k\<rparr>"
proof (cases "view s' = view s")
  case True
  then show ?thesis by (auto intro!: exI [of _ 0])
next
  case go: False
  note T = assms(1)
  have types: "types = TEE_PARAM_TYPES TEE_PARAM_TYPE_VALUE_INPUT TEE_PARAM_TYPE_MEMREF_INOUT TEE_PARAM_TYPE_NONE TEE_PARAM_TYPE_NONE"
    using go assms(2) by (auto simp: TA_GetObjectAttributes_def split: if_splits)
  from assms(2) types obtain p1 buf al rc1 ts s1 where 0: "param ps 1 = Some p1" "memref_bytes p1 = Some (buf, al)"
      and 1: "unpack_attrs A al buf s = Some (rc1, ts, s1)"
    by (auto simp: TA_GetObjectAttributes_def split: bind_splits)
  note v1 = unpack_attrs_spec [OF T 1]
  have r1: "rc1 = TEE_SUCCESS"
    using go assms(2) types 0 1 v1 by (auto simp: TA_GetObjectAttributes_def blk_def split: if_splits)
  from assms(2) types 0 1 r1 obtain p0 i where i: "param ps 0 = Some p0" "value_a p0 = Some i"
    by (auto simp: TA_GetObjectAttributes_def split: bind_splits)
  obtain rc2 h s2 where 2: "TEE_OpenPersistentObject_fn A (put_u32 i) (TEE_DATA_FLAG_ACCESS_READ OR TEE_DATA_FLAG_SHARE_READ) s1 = (rc2, h, s2)"
    by (metis prod_cases3)
  show ?thesis
  proof (cases "rc2 = TEE_SUCCESS")
    case False
    with assms(2) types 0 1 r1 i 2 have "s' = release A 0 0 0 (blk ts) s2" by (auto simp: TA_GetObjectAttributes_def)
    with release_blocks [OF T, of s2 "view s" "blk ts"] storage_open(1) [OF T 2 False] v1(1) go show ?thesis by simp
  next
    case r2: True
    obtain x where x: "st_objects (view s) (put_u32 i) = Some x" "fresh_handle (view s) h"
        "view s2 = reading h (put_u32 i, 0) (blk ts) (view s)"
      using open_reading [OF T 2 [unfolded r2] v1(1)] by blast
    from assms(2) types 0 1 r1 i 2 r2 obtain buf' n s3 where 3: "answer_object A h ts buf s2 = Some (rc, buf', n, s3)"
        "s' = release A h 0 0 (blk ts + n) s3"
      by (auto simp: TA_GetObjectAttributes_def split: bind_splits)
    from answer_object_spec [OF T 3(1) x(3,1)] release_reading [OF T _ x(2)] 3(2) show ?thesis by blast
  qed
qed

section \<open>Enumerations\<close>

text \<open>Enumerator \<open>e\<close> has \<open>is\<close> left, and \<open>n\<close> more blocks are allocated.\<close>

definition enumerating :: "u64 \<Rightarrow> byte list list \<Rightarrow> nat \<Rightarrow> tee_store \<Rightarrow> tee_store" where
  "enumerating e is n v = v\<lparr>st_enums := (st_enums v)(e \<mapsto> is), st_blocks := st_blocks v + n\<rparr>"

lemma enumerating_simps [simp]:
  "st_enums (enumerating e is n v) e = Some is" "st_objects (enumerating e is n v) = st_objects v"
  "(enumerating e is n v)\<lparr>st_enums := (st_enums (enumerating e is n v))(e \<mapsto> js)\<rparr> = enumerating e js n v"
  "(enumerating e is n v)\<lparr>st_blocks := st_blocks (enumerating e is n v) + k\<rparr> = enumerating e is (n + k) v"
  by (simp_all add: enumerating_def)

lemma next_enumerating:
  assumes "trusted_storage A view" and "TEE_GetNextPersistentObject_fn A e s = (rc, info, i, s')" and "view s = enumerating e is n v"
  shows "rc \<noteq> TEE_SUCCESS \<Longrightarrow> view s' = enumerating e is n v"
    and "rc = TEE_ERROR_ITEM_NOT_FOUND \<Longrightarrow> is = []"
    and "rc = TEE_SUCCESS \<Longrightarrow> \<exists>js. is = i # js \<and> view s' = enumerating e js n v"
    and "rc = TEE_SUCCESS \<Longrightarrow> st_objects v i = Some x \<Longrightarrow> info = info_of x"
proof -
  have "if rc = TEE_SUCCESS then (\<exists>js. is = i # js \<and> view s' = (view s)\<lparr>st_enums := (st_enums (view s))(e \<mapsto> js)\<rparr> \<and>
      (\<forall>x. st_objects (view s) i = Some x \<longrightarrow> info = info_of x))
    else view s' = view s \<and> (rc = TEE_ERROR_ITEM_NOT_FOUND \<longrightarrow> is = [])"
    using trusted_storageD(9) [OF assms(1), unfolded enumerates_objects_def, rule_format, OF assms(2), of "is"] assms(3) by simp
  then show "rc \<noteq> TEE_SUCCESS \<Longrightarrow> view s' = enumerating e is n v" "rc = TEE_ERROR_ITEM_NOT_FOUND \<Longrightarrow> is = []"
    "rc = TEE_SUCCESS \<Longrightarrow> \<exists>js. is = i # js \<and> view s' = enumerating e js n v"
    "rc = TEE_SUCCESS \<Longrightarrow> st_objects v i = Some x \<Longrightarrow> info = info_of x"
    using assms(3) by (auto split: if_splits)
qed

text \<open>The output array after \<open>ids\<close> were stored from entry \<open>cnt\<close> on.\<close>

definition filled :: "byte list \<Rightarrow> nat \<Rightarrow> byte list list \<Rightarrow> byte list" where
  "filled obj cnt ids = take (4 * cnt) obj @ concat ids @ drop (4 * (cnt + length ids)) obj"

lemma filled_Nil [simp]: "4 * cnt \<le> length obj \<Longrightarrow> filled obj cnt [] = obj"
  by (simp add: filled_def)

lemma put_handle_ok:
  assumes "length i = 4" and "4 * Suc cnt \<le> length obj"
  shows "put_handle obj cnt (id_buffer i old) = Some (filled obj cnt [i])"
  using assms by (simp add: put_handle_def id_buffer_def read_bytes_def poke_def filled_def add.commute)

lemma filled_Cons:
  assumes "length i = 4" and "4 * (cnt + Suc (length ids)) \<le> length obj" and "\<forall>j \<in> set ids. length j = 4"
  shows "filled (filled obj cnt [i]) (Suc cnt) ids = filled obj cnt (i # ids)"
  using assms by (simp add: filled_def add.commute add.left_commute)

lemma length_filled_one [simp]: "length i = 4 \<Longrightarrow> 4 * Suc cnt \<le> length obj \<Longrightarrow> length (filled obj cnt [i]) = length obj"
  by (simp add: filled_def)

text \<open>
  The two loops, over the objects left: \<open>seen\<close> were looked at, the handles of \<open>hits seen\<close> were
  stored; the loop ends when the array is full, when there is no more, or on an error.
\<close>

definition searched ::
    "(byte list list \<Rightarrow> byte list list) \<Rightarrow> nat \<Rightarrow> byte list \<Rightarrow> nat \<Rightarrow> byte list list \<Rightarrow> TEE_Result \<Rightarrow> byte list \<Rightarrow> nat \<Rightarrow>
     byte list list \<Rightarrow> bool" where
  "searched hits m obj cnt is rc obj' cnt' rest \<longleftrightarrow>
     (\<exists>seen. is = seen @ rest \<and> obj' = filled obj cnt (hits seen) \<and> cnt' = cnt + length (hits seen) \<and> cnt' \<le> m \<and>
        (rc = TEE_SUCCESS \<longrightarrow> cnt' = m) \<and> (rc = TEE_ERROR_ITEM_NOT_FOUND \<longrightarrow> rest = []))"

lemma searched_stop:
  "hits [] = [] \<Longrightarrow> cnt < m \<Longrightarrow> 4 * m \<le> length obj \<Longrightarrow> rc \<noteq> TEE_SUCCESS \<Longrightarrow> (rc = TEE_ERROR_ITEM_NOT_FOUND \<Longrightarrow> is = []) \<Longrightarrow>
   searched hits m obj cnt is rc obj cnt is"
  unfolding searched_def by (rule exI [of _ "[]"]) auto

lemma searched_skip:
  assumes "\<And>seen. hits (j # seen) = hits seen" and "searched hits m obj cnt js rc obj' cnt' rest"
  shows "searched hits m obj cnt (j # js) rc obj' cnt' rest"
proof -
  from assms(2) obtain seen where "js = seen @ rest" "obj' = filled obj cnt (hits seen)" "cnt' = cnt + length (hits seen)"
      "cnt' \<le> m" "rc = TEE_SUCCESS \<longrightarrow> cnt' = m" "rc = TEE_ERROR_ITEM_NOT_FOUND \<longrightarrow> rest = []"
    unfolding searched_def by blast
  with assms(1) show ?thesis unfolding searched_def by (intro exI [of _ "j # seen"]) simp
qed

lemma searched_hit:
  assumes "\<And>seen. hits (j # seen) = j # hits seen" and "\<And>seen i. i \<in> set (hits seen) \<Longrightarrow> length i = 4" and "length j = 4"
    and "4 * m \<le> length obj" and "searched hits m (filled obj cnt [j]) (Suc cnt) js rc obj' cnt' rest"
  shows "searched hits m obj cnt (j # js) rc obj' cnt' rest"
proof -
  from assms(5) obtain seen where "js = seen @ rest" "obj' = filled (filled obj cnt [j]) (Suc cnt) (hits seen)"
      "cnt' = Suc cnt + length (hits seen)" "cnt' \<le> m" "rc = TEE_SUCCESS \<longrightarrow> cnt' = m"
      "rc = TEE_ERROR_ITEM_NOT_FOUND \<longrightarrow> rest = []"
    unfolding searched_def by blast
  with assms(1-4) filled_Cons [OF assms(3), of cnt "hits seen" obj] show ?thesis
    unfolding searched_def by (intro exI [of _ "j # seen"]) simp
qed

lemma searched_last:
  assumes "\<And>seen. hits (j # seen) = j # hits seen" and "hits [] = []" and "m = Suc cnt"
  shows "searched hits m obj cnt (j # js) TEE_SUCCESS (filled obj cnt [j]) (Suc cnt) js"
  unfolding searched_def by (rule exI [of _ "[j]"]) (use assms in simp)

text \<open>
  One turn of a loop that stores the objects with property \<open>hit\<close>: it ends with an error or the end of
  the enumeration, or it takes the next object and goes on; at most \<open>c\<close> blocks are lost.
\<close>

definition loop_step ::
    "('s \<Rightarrow> tee_store) \<Rightarrow> tee_store \<Rightarrow> u64 \<Rightarrow> (byte list \<Rightarrow> bool) \<Rightarrow> nat \<Rightarrow> nat \<Rightarrow>
     (byte list \<Rightarrow> nat \<Rightarrow> byte list \<Rightarrow> 's \<Rightarrow> (TEE_Result \<times> byte list \<times> nat \<times> 's) option) \<Rightarrow>
     byte list list \<Rightarrow> nat \<Rightarrow> byte list \<Rightarrow> nat \<Rightarrow> byte list \<Rightarrow> 's \<Rightarrow> bool" where
  "loop_step view v e hit c m loop is n obj cnt idb s \<longleftrightarrow>
     (\<exists>rc s' rest k. loop obj cnt idb s = Some (rc, obj, cnt, s') \<and> rc \<noteq> TEE_SUCCESS \<and> k \<le> c \<and>
        (rc = TEE_ERROR_ITEM_NOT_FOUND \<longrightarrow> is = [] \<and> rest = []) \<and> (is = [] \<longrightarrow> k = 0) \<and> view s' = enumerating e rest (n + k) v) \<or>
     (\<exists>j js s' idb' k. is = j # js \<and> view s' = enumerating e js (n + k) v \<and> k \<le> c \<and>
        loop obj cnt idb s = (if \<not> hit j then loop obj cnt idb' s'
          else if m \<le> Suc cnt then Some (TEE_SUCCESS, filled obj cnt [j], Suc cnt, s')
          else loop (filled obj cnt [j]) (Suc cnt) idb' s'))"

definition loop_result ::
    "('s \<Rightarrow> tee_store) \<Rightarrow> tee_store \<Rightarrow> u64 \<Rightarrow> (byte list \<Rightarrow> bool) \<Rightarrow> nat \<Rightarrow> nat \<Rightarrow> (TEE_Result \<times> byte list \<times> nat \<times> 's) option \<Rightarrow>
     byte list list \<Rightarrow> nat \<Rightarrow> byte list \<Rightarrow> nat \<Rightarrow> bool" where
  "loop_result view v e hit c m r is n obj cnt \<longleftrightarrow> (\<exists>rc obj' cnt' s' rest k. r = Some (rc, obj', cnt', s') \<and>
     view s' = enumerating e rest (n + k) v \<and> k \<le> c * length is \<and>
     (rc \<in> {TEE_SUCCESS, TEE_ERROR_ITEM_NOT_FOUND} \<longrightarrow> searched (filter hit) m obj cnt is rc obj' cnt' rest))"

lemma loop_result_more:
  assumes "loop_result view v e hit c m r js (n + k) obj' cnt'" and "k \<le> c"
    and "\<And>rc o' c' rest. searched (filter hit) m obj' cnt' js rc o' c' rest \<Longrightarrow> searched (filter hit) m obj cnt (j # js) rc o' c' rest"
  shows "loop_result view v e hit c m r (j # js) n obj cnt"
proof -
  obtain rc o' c' s' rest k' where r: "r = Some (rc, o', c', s')" "view s' = enumerating e rest (n + k + k') v"
      "k' \<le> c * length js" "rc \<in> {TEE_SUCCESS, TEE_ERROR_ITEM_NOT_FOUND} \<longrightarrow> searched (filter hit) m obj' cnt' js rc o' c' rest"
    using assms(1) unfolding loop_result_def by blast
  show ?thesis unfolding loop_result_def
    by (intro exI conjI) (use r assms(2,3) in \<open>auto simp: add.assoc\<close>)
qed

lemma search_loop:
  assumes "\<And>is n obj cnt idb s. view s = enumerating e is n v \<Longrightarrow> cnt < m \<Longrightarrow> 4 * m \<le> length obj \<Longrightarrow> \<forall>i \<in> set is. ok i \<Longrightarrow>
      loop_step view v e hit c m loop is n obj cnt idb s"
    and "\<And>i. hit i \<Longrightarrow> length i = 4"
  shows "view s = enumerating e is n v \<Longrightarrow> cnt < m \<Longrightarrow> 4 * m \<le> length obj \<Longrightarrow> \<forall>i \<in> set is. ok i \<Longrightarrow>
    loop_result view v e hit c m (loop obj cnt idb s) is n obj cnt"
proof (induction "is" arbitrary: s n cnt obj idb)
  case Nil
  from assms(1) [OF Nil, of idb] obtain rc s' rest where "loop obj cnt idb s = Some (rc, obj, cnt, s')" "rc \<noteq> TEE_SUCCESS"
      "rc = TEE_ERROR_ITEM_NOT_FOUND \<longrightarrow> rest = []" "view s' = enumerating e rest n v"
    unfolding loop_step_def by (auto simp: Nil)
  moreover have "searched (filter hit) m obj cnt [] rc obj cnt []" if "rc = TEE_ERROR_ITEM_NOT_FOUND"
    by (rule searched_stop) (use Nil that in auto)
  ultimately show ?case unfolding loop_result_def by fastforce
next
  case (Cons j js)
  from assms(1) [OF Cons.prems, of idb] consider
    (stop) rc s' rest k where "loop obj cnt idb s = Some (rc, obj, cnt, s')" "rc \<noteq> TEE_SUCCESS" "k \<le> c"
      "rc \<noteq> TEE_ERROR_ITEM_NOT_FOUND" "view s' = enumerating e rest (n + k) v"
  | (go) s' idb' k where "view s' = enumerating e js (n + k) v" "k \<le> c" "loop obj cnt idb s = (if \<not> hit j then loop obj cnt idb' s'
      else if m \<le> Suc cnt then Some (TEE_SUCCESS, filled obj cnt [j], Suc cnt, s') else loop (filled obj cnt [j]) (Suc cnt) idb' s')"
    unfolding loop_step_def by (auto split del: if_split)
  then show ?case
  proof cases
    case stop
    then show ?thesis unfolding loop_result_def by (auto intro!: exI [of _ rest] exI [of _ k])
  next
    case go
    have js: "\<forall>i \<in> set js. ok i" using Cons.prems(4) by simp
    consider "\<not> hit j" | "hit j" "m = Suc cnt" | "hit j" "Suc cnt < m" using Cons.prems(2) by linarith
    then show ?thesis
    proof cases
      case 1
      with Cons.IH [OF go(1) Cons.prems(2,3) js, of idb'] go show ?thesis
        by (intro loop_result_more [where k = k and obj' = obj and cnt' = cnt]) (auto intro: searched_skip)
    next
      case 2
      have "searched (filter hit) m obj cnt (j # js) TEE_SUCCESS (filled obj cnt [j]) (Suc cnt) js"
        by (rule searched_last) (use 2 in simp_all)
      with 2 go show ?thesis unfolding loop_result_def by (auto intro!: exI [of _ js] exI [of _ k])
    next
      case 3
      have len: "length j = 4" "4 * m \<le> length (filled obj cnt [j])" using assms(2) [OF 3(1)] Cons.prems(2,3) by simp_all
      with Cons.IH [OF go(1) 3(2) len(2) js, of idb'] go 3 show ?thesis
        by (intro loop_result_more [where k = k and obj' = "filled obj cnt [j]" and cnt' = "Suc cnt"])
          (use assms(2) Cons.prems(3) in \<open>auto intro!: searched_hit\<close>)
    qed
  qed
qed

text \<open>The search without a template.\<close>

lemma find_all_loop_spec:
  assumes "trusted_storage A view" and "view s = enumerating e is n v" and "cnt < m" and "4 * m \<le> length obj"
  shows "loop_result view v e (\<lambda>i. length i = 4) 0 m (find_all_loop A e m obj cnt idb s) is n obj cnt"
proof (rule search_loop [where ok = "\<lambda>_. True"])
  fix "is" n and obj :: "byte list" and cnt idb s
  assume a: "view s = enumerating e is n v" "cnt < m" "4 * m \<le> length obj"
  obtain rc info i s1 where 1: "TEE_GetNextPersistentObject_fn A e s = (rc, info, i, s1)" by (metis prod_cases4)
  note v1 = next_enumerating [OF assms(1) 1 a(1)]
  show "loop_step view v e (\<lambda>i. length i = 4) 0 m (find_all_loop A e m) is n obj cnt idb s"
  proof (cases "rc = TEE_SUCCESS")
    case False
    have "find_all_loop A e m obj cnt idb s = Some (rc, obj, cnt, s1)" using 1 False by (subst find_all_loop.simps) simp
    with False v1(1,2) show ?thesis unfolding loop_step_def by fastforce
  next
    case True
    then obtain js where js: "is = i # js" "view s1 = enumerating e js n v" using v1(3) by blast
    have "find_all_loop A e m obj cnt idb s = (if length i \<noteq> 4 then find_all_loop A e m obj cnt (id_buffer i idb) s1
        else if m \<le> Suc cnt then Some (TEE_SUCCESS, filled obj cnt [i], Suc cnt, s1)
        else find_all_loop A e m (filled obj cnt [i]) (Suc cnt) (id_buffer i idb) s1)"
      using 1 True a put_handle_ok [of i cnt obj idb] by (subst find_all_loop.simps) simp
    with js show ?thesis unfolding loop_step_def by auto
  qed
qed (use assms in auto)

text \<open>
  What a template asks of an object, said of the attributes alone: the first attribute of the object that has the
  type of the template's attribute has the same length and the same bytes. The comparison of the two has to
  be able to read the bytes when type and length agree.
\<close>

definition has_attr :: "SK_ATTRIBUTE list \<Rightarrow> SK_ATTRIBUTE \<Rightarrow> bool" where
  "has_attr os a \<longleftrightarrow> (\<exists>b. List.find (\<lambda>b. sk_type b = sk_type a) os = Some b \<and>
     sk_valueLen b = sk_valueLen a \<and> value_bytes b = value_bytes a)"

definition comparable :: "SK_ATTRIBUTE list \<Rightarrow> SK_ATTRIBUTE \<Rightarrow> bool" where
  "comparable os a \<longleftrightarrow> (\<forall>b. List.find (\<lambda>b. sk_type b = sk_type a) os = Some b \<and> sk_valueLen b = sk_valueLen a \<longrightarrow>
     value_readable a \<and> value_readable b)"

lemma compare_values:
  assumes "sk_type b = sk_type a" and "sk_valueLen b = sk_valueLen a \<longrightarrow> value_readable a \<and> value_readable b"
  shows "TA_CompareSKAttr a b = Some (sk_valueLen b = sk_valueLen a \<and> value_bytes b = value_bytes a)"
  using assms read_value [of a] read_value [of b] by (auto simp: TA_CompareSKAttr_def memcmp_eq_def)

lemma match_loop_has_attrs:
  "list_all (comparable os) as \<Longrightarrow> match_loop os as m = Some (if as = [] then m else list_all (has_attr os) as)"
proof (induction as arbitrary: m)
  case (Cons a as)
  show ?case
  proof (cases "List.find (\<lambda>b. sk_type b = sk_type a) os")
    case None
    then show ?thesis by (simp add: TA_GetSKAttr_def has_attr_def)
  next
    case (Some b)
    then have "sk_type b = sk_type a" by (auto dest: find_SomeD)
    then have "TA_CompareSKAttr a b = Some (has_attr os a)"
      using compare_values [of b a] Cons.prems Some by (auto simp: comparable_def has_attr_def)
    then show ?thesis using Cons.IH [of True] Cons.prems Some by (simp add: TA_GetSKAttr_def)
  qed
qed simp

text \<open>The objects whose attributes are all that a template asks for.\<close>

definition matches :: "tee_store \<Rightarrow> SK_ATTRIBUTE list \<Rightarrow> byte list \<Rightarrow> bool" where
  "matches v as i \<longleftrightarrow> (\<exists>x os. st_objects v i = Some x \<and> decoded (obj_data x) = Some os \<and> list_all (has_attr os) as)"

text \<open>The objects left are the database or can be compared with the template.\<close>

definition searchable :: "tee_store \<Rightarrow> SK_ATTRIBUTE list \<Rightarrow> byte list \<Rightarrow> bool" where
  "searchable v as i \<longleftrightarrow> length i = get_obj_db_id_size \<or> length i = 4 \<and> (\<exists>x. st_objects v i = Some x \<and>
     4 \<le> length (obj_data x) \<and> length (obj_data x) < 2 ^ 32 \<and> (\<forall>os. decoded (obj_data x) = Some os \<longrightarrow> list_all (comparable os) as))"

text \<open>The search with a template, over the objects left.\<close>

lemma find_match_loop_spec:
  assumes "trusted_storage A view" and "view s = enumerating e is n v" and "cnt < m" and "4 * m \<le> length obj"
    and "\<forall>i \<in> set is. searchable v as i" and ne: "as \<noteq> []"
  shows "loop_result view v e (\<lambda>i. length i = 4 \<and> matches v as i) 1 m (find_match_loop A as e m obj cnt idb s) is n obj cnt"
proof (rule search_loop [where ok = "searchable v as"])
  fix "is" n and obj :: "byte list" and cnt idb s
  assume a: "view s = enumerating e is n v" "cnt < m" "4 * m \<le> length obj" "\<forall>i \<in> set is. searchable v as i"
  obtain rc info i s1 where 1: "TEE_GetNextPersistentObject_fn A e s = (rc, info, i, s1)" by (metis prod_cases4)
  note v1 = next_enumerating [OF assms(1) 1 a(1)]
  show "loop_step view v e (\<lambda>i. length i = 4 \<and> matches v as i) 1 m (find_match_loop A as e m) is n obj cnt idb s"
  proof (cases "rc = TEE_SUCCESS")
    case False
    have "find_match_loop A as e m obj cnt idb s = Some (rc, obj, cnt, s1)" using 1 False by (subst find_match_loop.simps) simp
    with False v1(1,2) show ?thesis unfolding loop_step_def by (intro disjI1 exI [of _ rc] exI [of _ s1] exI [of _ "is"] exI [of _ 0]) auto
  next
    case ok: True
    then obtain js where js: "is = i # js" "view s1 = enumerating e js n v" using v1(3) by blast
    show ?thesis
    proof (cases "length i = get_obj_db_id_size")
      case True
      then have "length i \<noteq> 4" by (simp add: get_obj_db_id_size_def db_obj_id_def)
      moreover have "find_match_loop A as e m obj cnt idb s = find_match_loop A as e m obj cnt (id_buffer i idb) s1"
        using 1 ok True by (subst find_match_loop.simps) simp
      ultimately show ?thesis unfolding loop_step_def using js
        by (intro disjI2 exI [of _ i] exI [of _ js] exI [of _ s1] exI [of _ "id_buffer i idb"] exI [of _ 0]) simp
    next
      case False
      then obtain x where x: "length i = 4" "st_objects v i = Some x" "4 \<le> length (obj_data x)" "length (obj_data x) < 2 ^ 32"
          "\<And>os. decoded (obj_data x) = Some os \<Longrightarrow> match_loop os as False = Some (list_all (has_attr os) as)"
        using a(4) js(1) ne by (auto simp: searchable_def match_loop_has_attrs)
      then have cmp: "\<And>os. decoded (obj_data x) = Some os \<Longrightarrow> match_loop os as False \<noteq> None" by simp
      have rd: "read_bytes (Some (id_buffer i idb)) 4 = Some i" using x(1) by (simp add: read_bytes_def id_buffer_def)
      have x1: "st_objects (view s1) i = Some x" using js(2) x(2) by simp
      have info: "info = info_of x" using v1(4) [OF ok] x(2) by simp
      obtain rc2 hit s2 where 2: "match_attr_obj A as (id_buffer i idb) info s1 = Some (rc2, hit, s2)"
          "rc2 \<noteq> TEE_ERROR_ITEM_NOT_FOUND"
          "rc2 = TEE_SUCCESS \<longrightarrow> (\<exists>os. decoded (obj_data x) = Some os \<and> match_loop os as False = Some hit)"
        using match_attr_obj_compares [OF assms(1) rd x1 x(4,3) cmp] info by blast
      have v2: "view s2 = enumerating e js (n + (if rc2 = TEE_SUCCESS then 1 else 0)) v"
        using match_attr_obj_spec [OF assms(1) 2(1)] js(2) by simp
      show ?thesis
      proof (cases "rc2 = TEE_SUCCESS")
        case r2: False
        have "find_match_loop A as e m obj cnt idb s = Some (rc2, obj, cnt, s2)"
          using 1 ok 2(1) False r2 by (subst find_match_loop.simps) simp
        with r2 v2 2(2) js(1) show ?thesis unfolding loop_step_def
          by (intro disjI1 exI [of _ rc2] exI [of _ s2] exI [of _ js] exI [of _ 0]) simp
      next
        case r2: True
        have hit: "hit = matches v as i" using 2(3) r2 x(2,5) by (auto simp: matches_def)
        have "find_match_loop A as e m obj cnt idb s = (if \<not> hit then find_match_loop A as e m obj cnt (id_buffer i idb) s2
            else if m \<le> Suc cnt then Some (TEE_SUCCESS, filled obj cnt [i], Suc cnt, s2)
            else find_match_loop A as e m (filled obj cnt [i]) (Suc cnt) (id_buffer i idb) s2)"
          using 1 ok 2(1) r2 put_handle_ok [OF x(1), of cnt obj idb] a(2,3) False by (subst find_match_loop.simps) simp
        with hit js(1) v2 r2 x(1) show ?thesis unfolding loop_step_def
          by (intro disjI2 exI [of _ i] exI [of _ js] exI [of _ s2] exI [of _ "id_buffer i idb"] exI [of _ 1]) simp
      qed
    qed
  qed
qed (use assms in auto)

text \<open>On every return a loop has only moved the enumeration (and lost blocks).\<close>

lemma find_all_loop_frame:
  assumes "trusted_storage A view"
  shows "view s = enumerating e is n v \<Longrightarrow> find_all_loop A e m obj cnt idb s = Some (rc, obj', cnt', s') \<Longrightarrow>
    \<exists>rest k. view s' = enumerating e rest (n + k) v"
proof (induction "is" arbitrary: s obj cnt idb)
  case Nil
  obtain rc1 info i s1 where 1: "TEE_GetNextPersistentObject_fn A e s = (rc1, info, i, s1)" by (metis prod_cases4)
  note v1 = next_enumerating [OF assms 1 Nil(1)]
  then have "rc1 \<noteq> TEE_SUCCESS" by auto
  with Nil(2) 1 v1(1) show ?case by (subst (asm) find_all_loop.simps) (auto intro!: exI [of _ "[]"] exI [of _ 0])
next
  case (Cons j js)
  obtain rc1 info i s1 where 1: "TEE_GetNextPersistentObject_fn A e s = (rc1, info, i, s1)" by (metis prod_cases4)
  note v1 = next_enumerating [OF assms 1 Cons.prems(1)]
  show ?case
  proof (cases "rc1 = TEE_SUCCESS")
    case False
    with Cons.prems(2) 1 v1(1) show ?thesis
      by (subst (asm) find_all_loop.simps) (auto intro!: exI [of _ "j # js"] exI [of _ 0])
  next
    case True
    with v1(3) have s1: "view s1 = enumerating e js n v" by auto
    then have here: "\<exists>rest k. view s1 = enumerating e rest (n + k) v" by (auto intro!: exI [of _ js] exI [of _ 0])
    from Cons.prems(2) 1 True here show ?thesis
      by (subst (asm) find_all_loop.simps) (auto split: if_splits bind_splits intro: Cons.IH [OF s1])
  qed
qed

lemma find_match_loop_frame:
  assumes "trusted_storage A view"
  shows "view s = enumerating e is n v \<Longrightarrow> find_match_loop A as e m obj cnt idb s = Some (rc, obj', cnt', s') \<Longrightarrow>
    \<exists>rest k. view s' = enumerating e rest (n + k) v"
proof (induction "is" arbitrary: s n obj cnt idb)
  case Nil
  obtain rc1 info i s1 where 1: "TEE_GetNextPersistentObject_fn A e s = (rc1, info, i, s1)" by (metis prod_cases4)
  note v1 = next_enumerating [OF assms 1 Nil(1)]
  then have "rc1 \<noteq> TEE_SUCCESS" by auto
  with Nil(2) 1 v1(1) show ?case by (subst (asm) find_match_loop.simps) (auto intro!: exI [of _ "[]"] exI [of _ 0])
next
  case (Cons j js)
  obtain rc1 info i s1 where 1: "TEE_GetNextPersistentObject_fn A e s = (rc1, info, i, s1)" by (metis prod_cases4)
  note v1 = next_enumerating [OF assms 1 Cons.prems(1)]
  show ?case
  proof (cases "rc1 = TEE_SUCCESS")
    case False
    with Cons.prems(2) 1 v1(1) show ?thesis
      by (subst (asm) find_match_loop.simps) (auto intro!: exI [of _ "j # js"] exI [of _ 0])
  next
    case ok: True
    with v1(3) have s1: "view s1 = enumerating e js n v" by auto
    show ?thesis
    proof (cases "length i = get_obj_db_id_size")
      case True
      with Cons.prems(2) 1 ok Cons.IH [OF s1] show ?thesis by (subst (asm) find_match_loop.simps) simp
    next
      case False
      with Cons.prems(2) 1 ok obtain rc2 hit s2 where 2: "match_attr_obj A as (id_buffer i idb) info s1 = Some (rc2, hit, s2)"
        by (subst (asm) find_match_loop.simps) (auto split: bind_splits)
      obtain k where v2: "view s2 = enumerating e js (n + k) v"
        using match_attr_obj_spec [OF assms 2] s1 by simp
      have more: "\<exists>rest k. view s' = enumerating e rest (n + k) v" if "find_match_loop A as e m o' c' i' s2 = Some (rc, obj', cnt', s')" for o' c' i'
        using Cons.IH [OF v2 that] by (metis add.assoc)
      from Cons.prems(2) 1 ok False 2 v2 show ?thesis
        by (subst (asm) find_match_loop.simps) (auto split: if_splits bind_splits intro: more)
    qed
  qed
qed

section \<open>The search command\<close>

definition frame :: "tee_store \<Rightarrow> tee_store \<Rightarrow> bool" where
  "frame v v' \<longleftrightarrow> st_objects v' = st_objects v \<and> same_handles v v' \<and> st_blocks v \<le> st_blocks v'"

lemma storage_enumerator:
  assumes "trusted_storage A view" and "TEE_AllocatePersistentObjectEnumerator_fn A s = (rc, e, s')"
  shows "rc \<noteq> TEE_SUCCESS \<Longrightarrow> view s' = view s"
    and "rc = TEE_SUCCESS \<Longrightarrow> fresh_handle (view s) e \<and> view s' = enumerating e [] 0 (view s)"
  using trusted_storageD(8) [OF assms(1)] assms(2) unfolding starts_enumerations_def enumerating_def by (auto split: if_splits)

lemma storage_start:
  assumes "trusted_storage A view" and "TEE_StartPersistentObjectEnumerator_fn A e s = (rc, s')" and "view s = enumerating e js 0 v"
  shows "rc \<noteq> TEE_SUCCESS \<Longrightarrow> view s' = view s"
    and "rc = TEE_SUCCESS \<Longrightarrow> \<exists>is. distinct is \<and> set is = dom (st_objects v) \<and> view s' = enumerating e is 0 v"
proof -
  have "if rc = TEE_SUCCESS then (\<exists>is. distinct is \<and> set is = dom (st_objects (view s)) \<and>
      view s' = (view s)\<lparr>st_enums := (st_enums (view s))(e \<mapsto> is)\<rparr>) else view s' = view s"
    using trusted_storageD(8) [OF assms(1), unfolded starts_enumerations_def, THEN conjunct2, THEN conjunct1, rule_format, OF assms(2)]
      assms(3) by (simp add: domIff)
  then show "rc \<noteq> TEE_SUCCESS \<Longrightarrow> view s' = view s"
    "rc = TEE_SUCCESS \<Longrightarrow> \<exists>is. distinct is \<and> set is = dom (st_objects v) \<and> view s' = enumerating e is 0 v"
    using assms(3) by (auto split: if_splits)
qed

lemma free_enumerator:
  assumes "trusted_storage A view" and "view s = enumerating e is n v" and "fresh_handle v e"
  shows "view (unless_null (TEE_FreePersistentObjectEnumerator_fn A) e s) = v\<lparr>st_blocks := st_blocks v + n\<rparr>"
proof -
  have "view (TEE_FreePersistentObjectEnumerator_fn A e s) = (view s)\<lparr>st_enums := (st_enums (view s))(e := None)\<rparr>"
    using trusted_storageD(8) [OF assms(1)] assms(2) unfolding starts_enumerations_def by (simp add: dom_def)
  with assms(2) fresh_handle_undo [OF assms(3)] show ?thesis by (simp add: unless_null_def enumerating_def)
qed

lemma with_enumerator_cases:
  assumes "trusted_storage A view"
  obtains (error) rc s' where "with_enumerator A loop obj s = Some (rc, obj, None, s')" "rc \<noteq> TEE_SUCCESS" "view s' = view s"
  | (ran) e "is" s1 where "fresh_handle (view s) e" "distinct is" "set is = dom (st_objects (view s))" "view s1 = enumerating e is 0 (view s)"
      "with_enumerator A loop obj s = do {
          (res, obj, cnt, s) \<leftarrow> loop e s1;
          let res = (if res = TEE_ERROR_ITEM_NOT_FOUND then TEE_SUCCESS else res);
          Some (res, obj, if res = TEE_SUCCESS then Some cnt else None, unless_null (TEE_FreePersistentObjectEnumerator_fn A) e s) }"
proof -
  obtain rc1 e s1 where 1: "TEE_AllocatePersistentObjectEnumerator_fn A s = (rc1, e, s1)" by (metis prod_cases3)
  note v1 = storage_enumerator [OF assms 1]
  obtain rc2 s2 where 2: "TEE_StartPersistentObjectEnumerator_fn A e s1 = (rc2, s2)" by (metis surj_pair)
  consider "rc1 \<noteq> TEE_SUCCESS" | "rc1 = TEE_SUCCESS" "rc2 \<noteq> TEE_SUCCESS" | "rc1 = TEE_SUCCESS" "rc2 = TEE_SUCCESS" by blast
  then show thesis
  proof cases
    case c: 1
    with 1 v1 show thesis by (intro error [of rc1 s1]) (auto simp: with_enumerator_def)
  next
    case c: 2
    with v1 have f: "fresh_handle (view s) e" "view s1 = enumerating e [] 0 (view s)" by auto
    have "view (unless_null (TEE_FreePersistentObjectEnumerator_fn A) e s2) = view s"
      using free_enumerator [OF assms _ f(1), of s2 "[]" 0] storage_start(1) [OF assms 2 f(2) c(2)] f(2) by simp
    with 1 2 c show thesis
      by (intro error [of rc2 "unless_null (TEE_FreePersistentObjectEnumerator_fn A) e s2"]) (auto simp: with_enumerator_def)
  next
    case c: 3
    with v1 have f: "fresh_handle (view s) e" "view s1 = enumerating e [] 0 (view s)" by auto
    from storage_start(2) [OF assms 2 f(2) c(2)] obtain "is" where
      "distinct is" "set is = dom (st_objects (view s))" "view s2 = enumerating e is 0 (view s)" by blast
    with f(1) 1 2 c show thesis by (intro ran [of e "is" s2]) (simp_all add: with_enumerator_def Let_def)
  qed
qed

lemma with_enumerator_frame:
  assumes "trusted_storage A view" and "with_enumerator A loop obj s = Some (rc, obj', cnt, s')"
    and "\<And>e is s1 r. view s1 = enumerating e is 0 (view s) \<Longrightarrow> loop e s1 = Some r \<Longrightarrow>
      \<exists>rest k. view (snd (snd (snd r))) = enumerating e rest k (view s)"
  shows "frame (view s) (view s')"
proof (rule with_enumerator_cases [OF assms(1), of loop obj s])
  fix rc1 s1 assume "with_enumerator A loop obj s = Some (rc1, obj, None, s1)" "view s1 = view s"
  with assms(2) show ?thesis by (simp add: frame_def)
next
  fix e "is" s1 assume f: "fresh_handle (view s) e" "view s1 = enumerating e is 0 (view s)"
    "with_enumerator A loop obj s = do {
          (res, obj, cnt, s) \<leftarrow> loop e s1;
          let res = (if res = TEE_ERROR_ITEM_NOT_FOUND then TEE_SUCCESS else res);
          Some (res, obj, if res = TEE_SUCCESS then Some cnt else None, unless_null (TEE_FreePersistentObjectEnumerator_fn A) e s) }"
  with assms(2) obtain rc2 cnt2 s2 where 2: "loop e s1 = Some (rc2, obj', cnt2, s2)"
      "s' = unless_null (TEE_FreePersistentObjectEnumerator_fn A) e s2"
    by (auto simp: Let_def split: bind_splits)
  from assms(3) [OF f(2) 2(1)] obtain rest k where "view s2 = enumerating e rest k (view s)" by auto
  from free_enumerator [OF assms(1) this f(1)] 2(2) show ?thesis by (simp add: frame_def same_handles_def)
qed

lemma TA_FindObjects_frame:
  assumes "trusted_storage A view" and "TA_FindObjects A types ps s = Some (rc, ps', s')"
  shows "frame (view s) (view s')"
proof (cases "view s' = view s")
  case True
  then show ?thesis by (simp add: frame_def)
next
  case go: False
  note T = assms(1)
  have types: "types = TEE_PARAM_TYPES TEE_PARAM_TYPE_MEMREF_INPUT TEE_PARAM_TYPE_MEMREF_OUTPUT TEE_PARAM_TYPE_VALUE_OUTPUT TEE_PARAM_TYPE_NONE"
    using go assms(2) by (auto simp: TA_FindObjects_def split: if_splits)
  from assms(2) types obtain p0 p1 obj al0 buf al rc1 ts s1 where 0: "param ps 1 = Some p1" "memref_bytes p1 = Some (obj, al0)"
      "param ps 0 = Some p0" "memref_bytes p0 = Some (buf, al)" and 1: "unpack_attrs A al buf s = Some (rc1, ts, s1)"
    by (auto simp: TA_FindObjects_def Let_def split: bind_splits)
  note v1 = unpack_attrs_spec [OF T 1]
  have r1: "rc1 = TEE_SUCCESS"
    using go assms(2) types 0 1 v1 by (auto simp: TA_FindObjects_def Let_def blk_def split: if_splits)
  from assms(2) types 0 1 r1 obtain rc2 obj2 cnt2 s2 where
      2: "(if ts = [] then TA_FindAllObjects A obj (length obj div 4) s1
           else TA_FindAttrMatchObjects A (map (resolve buf) ts) obj (length obj div 4) s1) = Some (rc2, obj2, cnt2, s2)"
      and s': "s' = release A 0 0 0 (blk ts) s2"
    by (auto simp: TA_FindObjects_def Let_def split: bind_splits if_splits)
  have "frame (view s1) (view s2)"
  proof (cases "ts = []")
    case True
    with 2 have w: "with_enumerator A (\<lambda>e. find_all_loop A e (length obj div 4) obj 0 (replicate 64 0)) obj s1 = Some (rc2, obj2, cnt2, s2)"
      by (simp add: TA_FindAllObjects_def)
    show ?thesis by (rule with_enumerator_frame [OF T w]) (use find_all_loop_frame [OF T] in fastforce)
  next
    case False
    with 2 have w: "with_enumerator A (\<lambda>e. find_match_loop A (map (resolve buf) ts) e (length obj div 4) obj 0 (replicate 64 0)) obj s1 =
        Some (rc2, obj2, cnt2, s2)"
      by (simp add: TA_FindAttrMatchObjects_def)
    show ?thesis by (rule with_enumerator_frame [OF T w]) (use find_match_loop_frame [OF T] in fastforce)
  qed
  moreover have "view s' = (view s2)\<lparr>st_blocks := st_blocks (view s2) - blk ts\<rparr>"
    unfolding s' using calculation v1(1) by (subst storage_release [OF T]) (simp_all add: frame_def)
  ultimately show ?thesis using v1(1) by (auto simp: frame_def same_handles_def intro: add_le_imp_le_diff)
qed

lemma searched_all:
  assumes "searched (filter hit) m obj 0 is rc obj' cnt rest" and "rc \<in> {TEE_SUCCESS, TEE_ERROR_ITEM_NOT_FOUND}" and "distinct is"
  shows "\<exists>ids. distinct ids \<and> set ids \<subseteq> {i \<in> set is. hit i} \<and> length ids = min m (card {i \<in> set is. hit i}) \<and>
    cnt = length ids \<and> obj' = filled obj 0 ids"
proof -
  obtain seen where s: "is = seen @ rest" "obj' = filled obj 0 (filter hit seen)" "cnt = length (filter hit seen)" "cnt \<le> m"
      "rc = TEE_SUCCESS \<longrightarrow> cnt = m" "rc = TEE_ERROR_ITEM_NOT_FOUND \<longrightarrow> rest = []"
    using assms(1) unfolding searched_def by auto
  have c: "card {i \<in> set is. hit i} = length (filter hit is)"
    using assms(3) distinct_card [of "filter hit is"] by simp
  have "length (filter hit seen) \<le> length (filter hit is)" using s(1) by simp
  moreover have "length (filter hit seen) = m \<or> seen = is \<and> length (filter hit seen) \<le> m"
    using s(1,3-6) assms(2) by (cases "rc = TEE_SUCCESS") auto
  ultimately have n: "length (filter hit seen) = min m (length (filter hit is))" by auto
  have "distinct (filter hit seen)" "set (filter hit seen) \<subseteq> {i \<in> set is. hit i}" using s(1) assms(3) by auto
  with s(2,3) c n show ?thesis by (intro exI [of _ "filter hit seen"]) simp
qed

text \<open>
  What a search leaves: the objects and handles are as before, at most one heap block is lost for each
  object, and on success the array starts with the identifiers of objects with \<open>hit\<close>, each once, as many
  as there are or fit.
\<close>

definition found ::
    "('s \<Rightarrow> tee_store) \<Rightarrow> 's \<Rightarrow> (byte list \<Rightarrow> bool) \<Rightarrow> nat \<Rightarrow> byte list \<Rightarrow> (TEE_Result \<times> byte list \<times> nat option \<times> 's) option \<Rightarrow> bool" where
  "found view s hit m obj r \<longleftrightarrow> (\<exists>rc obj' cnt s'. r = Some (rc, obj', cnt, s') \<and>
    st_objects (view s') = st_objects (view s) \<and> same_handles (view s) (view s') \<and>
    st_blocks (view s') \<le> st_blocks (view s) + card (dom (st_objects (view s))) \<and> st_blocks (view s) \<le> st_blocks (view s') \<and>
    (rc = TEE_SUCCESS \<longrightarrow> (\<exists>ids. distinct ids \<and> set ids \<subseteq> {i \<in> dom (st_objects (view s)). hit i} \<and>
      length ids = min m (card {i \<in> dom (st_objects (view s)). hit i}) \<and> cnt = Some (length ids) \<and> obj' = filled obj 0 ids)))"

lemma with_enumerator_found:
  assumes "trusted_storage A view" and "c \<le> 1"
    and "\<And>e is s1. view s1 = enumerating e is 0 (view s) \<Longrightarrow> set is = dom (st_objects (view s)) \<Longrightarrow>
      loop_result view (view s) e hit c m (loop e s1) is 0 obj 0"
  shows "found view s hit m obj (with_enumerator A loop obj s)"
proof (rule with_enumerator_cases [OF assms(1), of loop obj s])
  fix rc s' assume "with_enumerator A loop obj s = Some (rc, obj, None, s')" "rc \<noteq> TEE_SUCCESS" "view s' = view s"
  then show ?thesis by (auto simp: found_def)
next
  fix e "is" s1
  assume e: "fresh_handle (view s) e" "distinct is" "set is = dom (st_objects (view s))" "view s1 = enumerating e is 0 (view s)"
    "with_enumerator A loop obj s = do {
          (res, obj, cnt, s) \<leftarrow> loop e s1;
          let res = (if res = TEE_ERROR_ITEM_NOT_FOUND then TEE_SUCCESS else res);
          Some (res, obj, if res = TEE_SUCCESS then Some cnt else None, unless_null (TEE_FreePersistentObjectEnumerator_fn A) e s) }"
  from assms(3) [OF e(4,3)] obtain rc obj' cnt s2 rest k where r: "loop e s1 = Some (rc, obj', cnt, s2)"
      "view s2 = enumerating e rest (0 + k) (view s)" "k \<le> c * length is"
      "rc \<in> {TEE_SUCCESS, TEE_ERROR_ITEM_NOT_FOUND} \<longrightarrow> searched (filter hit) m obj 0 is rc obj' cnt rest"
    unfolding loop_result_def by blast
  have "k \<le> length is" using r(3) assms(2) mult_le_mono1 [OF assms(2), of "length is"] by linarith
  let ?s' = "unless_null (TEE_FreePersistentObjectEnumerator_fn A) e s2"
  let ?rc = "if rc = TEE_ERROR_ITEM_NOT_FOUND then TEE_SUCCESS else rc"
  have v: "view ?s' = (view s)\<lparr>st_blocks := st_blocks (view s) + k\<rparr>" using free_enumerator [OF assms(1) r(2) e(1)] by simp
  have c: "card (dom (st_objects (view s))) = length is" using e(2,3) distinct_card by fastforce
  have f: "\<exists>ids. distinct ids \<and> set ids \<subseteq> {i \<in> dom (st_objects (view s)). hit i} \<and>
      length ids = min m (card {i \<in> dom (st_objects (view s)). hit i}) \<and> cnt = length ids \<and> obj' = filled obj 0 ids" if "?rc = TEE_SUCCESS"
    using searched_all [of hit m obj "is" rc obj' cnt rest] r(4) that e(2) unfolding e(3) by (auto split: if_splits)
  have w: "with_enumerator A loop obj s = Some (?rc, obj', if ?rc = TEE_SUCCESS then Some cnt else None, ?s')"
    using e(5) r(1) by (simp add: Let_def)
  show ?thesis unfolding found_def
    by (intro exI, intro conjI, rule w) (use v \<open>k \<le> length is\<close> c f in \<open>auto simp: same_handles_def\<close>)
qed

lemma matches_cong: "st_objects v = st_objects w \<Longrightarrow> matches v as i = matches w as i"
  by (simp add: matches_def)

lemma searchable_cong: "st_objects v = st_objects w \<Longrightarrow> searchable v as i = searchable w as i"
  by (simp add: searchable_def)

text \<open>The objects a search is after: all, or those that match the template.\<close>

definition wanted :: "tee_store \<Rightarrow> SK_ATTRIBUTE list \<Rightarrow> byte list \<Rightarrow> bool" where
  "wanted v as i \<longleftrightarrow> length i = 4 \<and> (as = [] \<or> matches v as i)"

definition find_params :: "byte list \<Rightarrow> bool \<Rightarrow> byte list \<Rightarrow> bool \<Rightarrow> u32 \<Rightarrow> u32 \<Rightarrow> TEE_Params" where
  "find_params buf al out al' a b = [MemrefP (Some buf) (length buf) al, MemrefP (Some out) (length out) al', ValueP a b, NoneP]"

lemma find_both:
  assumes "trusted_storage A view" and "4 \<le> length out"
    and "as = [] \<or> (\<forall>i \<in> dom (st_objects (view s)). searchable (view s) as i)"
  shows "found view s (wanted (view s) as) (length out div 4) out
    (if as = [] then TA_FindAllObjects A out (length out div 4) s else TA_FindAttrMatchObjects A as out (length out div 4) s)"
proof -
  have m: "0 < length out div 4" "4 * (length out div 4) \<le> length out" using assms(2) by auto
  have all: "found view s (wanted (view s) []) (length out div 4) out (TA_FindAllObjects A out (length out div 4) s)"
    unfolding TA_FindAllObjects_def wanted_def
    by (rule with_enumerator_found [OF assms(1), of 0]) (use find_all_loop_spec [OF assms(1) _ m] in auto)
  have some: "found view s (wanted (view s) as) (length out div 4) out (TA_FindAttrMatchObjects A as out (length out div 4) s)"
    if "as \<noteq> []"
    unfolding TA_FindAttrMatchObjects_def wanted_def
    by (rule with_enumerator_found [OF assms(1), of 1]) (use find_match_loop_spec [OF assms(1) _ m] assms(3) that in auto)
  show ?thesis using all some by simp
qed


lemma wanted_cong: "st_objects v = st_objects w \<Longrightarrow> wanted v as = wanted w as"
  by (simp add: fun_eq_iff wanted_def matches_def)

lemma length_filled: "length ids * 4 \<le> length out \<Longrightarrow> \<forall>i \<in> set ids. length i = 4 \<Longrightarrow> length (filled out 0 ids) = length out"
proof -
  assume "length ids * 4 \<le> length out" and f: "\<forall>i \<in> set ids. length i = 4"
  moreover have "length (concat ids) = 4 * length ids" using f by (induction ids) auto
  ultimately show ?thesis by (simp add: filled_def)
qed

lemma find_without_room:
  assumes "trusted_storage A view" and "length out < 4" and "TA_FindAllObjects A out 0 s = Some (TEE_SUCCESS, r)"
  shows "\<forall>i \<in> dom (st_objects (view s)). length i \<noteq> 4"
proof -
  have stuck: "\<forall>i \<in> set is. length i \<noteq> 4"
    if "view s1 = enumerating e is n v" "find_all_loop A e 0 out 0 idb s1 = Some (rc, q)" "rc = TEE_SUCCESS \<or> rc = TEE_ERROR_ITEM_NOT_FOUND" for s1 e "is" n v idb rc q
    using that
  proof (induction "is" arbitrary: s1 idb)
    case (Cons j js)
    obtain rc1 info i s2 where 1: "TEE_GetNextPersistentObject_fn A e s1 = (rc1, info, i, s2)" by (metis prod_cases4)
    note v1 = next_enumerating [OF assms(1) 1 Cons.prems(1)]
    show ?case
    proof (cases "rc1 = TEE_SUCCESS")
      case True
      with v1(3) have i: "i = j" "view s2 = enumerating e js n v" by auto
      have "length j \<noteq> 4"
      proof
        assume "length j = 4"
        then have "find_all_loop A e 0 out 0 idb s1 = None"
          using 1 True i(1) assms(2) by (subst find_all_loop.simps) (simp add: put_handle_def poke_def read_bytes_def id_buffer_def)
        with Cons.prems(2) show False by simp
      qed
      moreover have "find_all_loop A e 0 out 0 (id_buffer j idb) s2 = Some (rc, q)"
        using Cons.prems(2) 1 True i(1) \<open>length j \<noteq> 4\<close> by (subst (asm) find_all_loop.simps) simp
      ultimately show ?thesis using Cons.IH [OF i(2) _ Cons.prems(3)] by auto
    next
      case False
      then have "rc = rc1" using Cons.prems(2) 1 by (subst (asm) find_all_loop.simps) simp
      with v1(2) False Cons.prems(3) show ?thesis by auto
    qed
  qed simp
  show ?thesis
  proof (rule with_enumerator_cases [OF assms(1), of "\<lambda>e. find_all_loop A e 0 out 0 (replicate 64 0)" out s])
    fix rc s' assume "with_enumerator A (\<lambda>e. find_all_loop A e 0 out 0 (replicate 64 0)) out s = Some (rc, out, None, s')" "rc \<noteq> TEE_SUCCESS"
    with assms(3) show ?thesis by (auto simp: TA_FindAllObjects_def)
  next
    fix e "is" s1
    assume e: "set is = dom (st_objects (view s))" "view s1 = enumerating e is 0 (view s)"
      "with_enumerator A (\<lambda>e. find_all_loop A e 0 out 0 (replicate 64 0)) out s = do {
          (res, obj, cnt, s) \<leftarrow> find_all_loop A e 0 out 0 (replicate 64 0) s1;
          let res = (if res = TEE_ERROR_ITEM_NOT_FOUND then TEE_SUCCESS else res);
          Some (res, obj, if res = TEE_SUCCESS then Some cnt else None, unless_null (TEE_FreePersistentObjectEnumerator_fn A) e s) }"
    from e(3) assms(3) obtain rc q where "find_all_loop A e 0 out 0 (replicate 64 0) s1 = Some (rc, q)"
        "rc = TEE_SUCCESS \<or> rc = TEE_ERROR_ITEM_NOT_FOUND"
      by (auto simp: TA_FindAllObjects_def Let_def split: bind_splits if_splits)
    from stuck [OF e(2) this] e(1) show ?thesis by simp
  qed
qed

end
