(* ===== verification/Ta_Machine.thy ===== *)
theory Ta_Machine
  imports Ta_Search
begin

text \<open>
  The application as a state machine: the cryptographic commands leave the storage as it is, every
  command keeps the identifiers in order, and the history of an instance since its first start.
\<close>

section \<open>The cryptographic commands\<close>

lemma TA_DigestData_view:
  assumes "trusted_storage A view" and "TA_DigestData A types ps s = Some (rc, ps', s')"
  shows "view s' = view s"
proof (rule ccontr)
  assume go: "view s' \<noteq> view s"
  note T = assms(1)
  from assms(2) go obtain p0 m alg n p2 out k al where 0: "types = TEE_PARAM_TYPES TEE_PARAM_TYPE_VALUE_INPUT
      TEE_PARAM_TYPE_MEMREF_INPUT TEE_PARAM_TYPE_MEMREF_OUTPUT TEE_PARAM_TYPE_NONE" "param ps 0 = Some p0" "value_a p0 = Some m"
      "digest_algorithm m = Some (alg, n)" "param ps 2 = Some p2" "memref p2 = Some (out, k, al)" "out \<noteq> None" "n \<le> k"
    by (auto simp: TA_DigestData_def split: if_splits bind_splits option.splits)
  obtain rc1 o1 s1 where 1: "TEE_AllocateOperation_fn A alg TEE_MODE_DIGEST 0 s = (rc1, o1, s1)" by (metis prod_cases3)
  note v1 = allocates_cases [OF storage_others(2) [OF T] 1]
  have ok: "rc1 = TEE_SUCCESS"
    by (rule ccontr) (use assms(2) go 0 1 v1(1) in \<open>auto simp: TA_DigestData_def\<close>)
  have f: "fresh_handle (view s) o1" "view s1 = holding o1 0 (view s)" using v1(2,3) ok by (simp_all add: holding_def)
  from assms(2) 0 1 ok obtain r q b m2 s2 where 2: "TEE_DigestDoFinal_fn A o1 b k s1 = (r, q, m2, s2)" "s' = release A 0 0 o1 0 s2"
    by (auto simp: TA_DigestData_def split: bind_splits prod.splits)
  have "view s2 = holding o1 0 (view s)" using storage_silent(6) [OF T 2(1)] f(2) by simp
  then have "view s' = view s"
    using fresh_handle_undo [OF f(1)] unfolding 2(2) by (subst storage_release [OF T]) (simp_all add: holding_def insert_Diff_if)
  with go show False by simp
qed

text \<open>The two commands with a key: a handle, a transient object and an operation are held at most.\<close>

lemma release_key:
  assumes "trusted_storage A view" and "view s = (reading h (i, 0) 0 v)\<lparr>st_others := insert o' (insert t (st_others v))\<rparr>"
    and "fresh_handle v h" and "fresh_handle v t" and "fresh_handle v o'" and "o' \<noteq> t"
  shows "view (release A h t o' 0 s) = v"
proof -
  have "h \<in> dom (st_handles (view s))" using assms(2) by auto
  moreover have "insert o' (insert t (st_others v)) - {t, o'} = st_others v"
    using assms(4,5) by (auto simp: fresh_handle_def)
  ultimately show ?thesis
    using assms(2) fresh_handle_undo [OF assms(3)] fresh_handle_undo(4) [OF assms(4)] fresh_handle_undo(4) [OF assms(5)] assms(6)
    by (subst storage_release [OF assms(1)]) (simp_all add: reading_def insert_Diff_if)
qed

lemma release_transient:
  assumes "trusted_storage A view" and "view s = (reading h (i, 0) 0 v)\<lparr>st_others := insert t (st_others v)\<rparr>"
    and "fresh_handle v h" and "fresh_handle v t"
  shows "view (release A h t 0 0 s) = v"
proof -
  have "h \<in> dom (st_handles (view s))" using assms(2) by auto
  then show ?thesis
    using assms(2) fresh_handle_undo [OF assms(3)] fresh_handle_undo [OF assms(4)]
    by (subst storage_release [OF assms(1)]) (simp_all add: reading_def insert_Diff_if)
qed

lemma key_operation_view:
  assumes "trusted_storage A view" and "key_operation A alg md run types ps s = Some (rc, ps', s')"
    and "\<And>o' b n s r q m s'. run o' b n s = (r, q, m, s') \<Longrightarrow> view s' = view s"
  shows "view s' = view s"
proof (rule ccontr)
  assume go: "view s' \<noteq> view s"
  note T = assms(1)
  from assms(2) go obtain p0 i mech p2 out n al where 0: "types = TEE_PARAM_TYPES TEE_PARAM_TYPE_VALUE_INPUT
      TEE_PARAM_TYPE_MEMREF_INPUT TEE_PARAM_TYPE_MEMREF_OUTPUT TEE_PARAM_TYPE_NONE" "param ps 0 = Some p0" "value_a p0 = Some i"
      "value_b p0 = Some mech" "param ps 2 = Some p2" "memref p2 = Some (out, n, al)"
    by (auto simp: key_operation_def split: if_splits bind_splits)
  obtain rc1 h s1 where 1: "TEE_OpenPersistentObject_fn A (put_u32 i) (TEE_DATA_FLAG_ACCESS_READ OR TEE_DATA_FLAG_SHARE_READ) s = (rc1, h, s1)"
    by (metis prod_cases3)
  have r1: "rc1 = TEE_SUCCESS"
    by (rule ccontr) (use assms(2) go 0 1 storage_open(1) [OF T 1] in \<open>auto simp: key_operation_def\<close>)
  obtain x where x: "st_objects (view s) (put_u32 i) = Some x" "fresh_handle (view s) h" "view s1 = reading h (put_u32 i, 0) 0 (view s)"
    using open_reading [OF T 1 [unfolded r1], of "view s" 0] by auto
  have leave: "view (release A h 0 0 0 t) = view s" if "view t = reading h (put_u32 i, 0) 0 (view s)" for t
    using release_reading [OF T _ x(2), of t _ 0 0] that by simp
  obtain rc2 info s2 where 2: "TEE_GetObjectInfo1_fn A h s1 = (rc2, info, s2)" by (metis prod_cases3)
  note v2 = info_reading(1) [OF T 2 x(3,1)]
  obtain rc3 t s3 where 3: "TEE_AllocateTransientObject_fn A (objectType info) (objectSize info) s2 = (rc3, t, s3)" by (metis prod_cases3)
  note v3 = allocates_cases [OF storage_others(1) [OF T] 3]
  have ok2: "rc2 = TEE_SUCCESS" "out \<noteq> None"
    by (rule ccontr, use assms(2) go 0 1 2 r1 leave [OF v2] in \<open>auto simp: key_operation_def split: if_splits\<close>)+
  have ok3: "rc3 = TEE_SUCCESS"
    by (rule ccontr) (use assms(2) go 0 1 2 3 r1 ok2 leave [of s3] v3(1) v2 in \<open>auto simp: key_operation_def\<close>)
  note ok3 = ok2 ok3
  have t: "fresh_handle (view s) t" "view s3 = (reading h (put_u32 i, 0) 0 (view s))\<lparr>st_others := insert t (st_others (view s))\<rparr>"
    using v3(2,3) [OF ok3(3)] v2 by (auto simp: fresh_handle_def reading_def)
  note leave_t = release_transient [OF T _ x(2) t(1)]
  obtain rc4 s4 where 4: "TEE_CopyObjectAttributes1_fn A t h s3 = (rc4, s4)" by (metis surj_pair)
  note v4 = storage_silent(4) [OF T 4]
  have ok4: "rc4 = TEE_SUCCESS" "alg mech \<noteq> None"
    by (rule ccontr, use assms(2) go 0 1 2 3 4 r1 ok3 leave_t [of s4 "put_u32 i"] v4 t(2) in \<open>auto simp: key_operation_def split: if_splits\<close>)+
  then obtain a where a: "alg mech = Some a" by blast
  obtain rc5 o5 s5 where 5: "TEE_AllocateOperation_fn A a md (objectSize info) s4 = (rc5, o5, s5)" by (metis prod_cases3)
  note v5 = allocates_cases [OF storage_others(2) [OF T] 5]
  have ok5: "rc5 = TEE_SUCCESS"
    by (rule ccontr) (use assms(2) go 0 1 2 3 4 5 r1 ok3 ok4 a leave_t [of s5 "put_u32 i"] v5(1) v4 t(2) in \<open>auto simp: key_operation_def\<close>)
  have o5: "fresh_handle (view s) o5" "o5 \<noteq> t"
      "view s5 = (reading h (put_u32 i, 0) 0 (view s))\<lparr>st_others := insert o5 (insert t (st_others (view s)))\<rparr>"
    using v5(2,3) [OF ok5] v4 t(2) by (auto simp: fresh_handle_def reading_def)
  note leave_o = release_key [OF T _ x(2) t(1) o5(1,2)]
  obtain rc6 s6 where 6: "TEE_SetOperationKey_fn A o5 t s5 = (rc6, s6)" by (metis surj_pair)
  note v6 = storage_silent(5) [OF T 6]
  have ok6: "rc6 = TEE_SUCCESS"
    by (rule ccontr) (use assms(2) go 0 1 2 3 4 5 6 r1 ok3 ok4 ok5 a leave_o [of s6 "put_u32 i"] v6 o5(3) in \<open>auto simp: key_operation_def\<close>)
  from assms(2) 0 1 2 3 4 5 6 r1 ok3 ok4 ok5 ok6 a obtain b r q m s7 where
      7: "run o5 b n s6 = (r, q, m, s7)" "s' = release A h t o5 0 s7"
    by (auto simp: key_operation_def split: bind_splits prod.splits)
  with leave_o [of s7 "put_u32 i"] assms(3) [OF 7(1)] v6 o5(3) go show False by simp
qed

section \<open>Every command keeps the identifiers in order\<close>

lemma id_inv_frame: "st_objects v' = st_objects v \<Longrightarrow> id_inv v' = id_inv v"
  by (simp add: id_inv_def counter_def)

lemma counter_counted:
  assumes "id_inv v" and "counter v \<noteq> 0xFFFFFFFF"
  shows "st_objects (counted v) db_obj_id = Some ((the (st_objects v db_obj_id))\<lparr>obj_data := put_u32 (counter v + 1)\<rparr>)"
    "unat (counter (counted v)) = Suc (unat (counter v))"
proof -
  show "st_objects (counted v) db_obj_id = Some ((the (st_objects v db_obj_id))\<lparr>obj_data := put_u32 (counter v + 1)\<rparr>)"
    by (simp add: counted_def)
  then have "counter (counted v) = counter v + 1" by (simp add: counter_def [of "counted v"])
  moreover have "unat (counter v + 1) = Suc (unat (counter v))"
  proof -
    have "1 + counter v \<noteq> 0" using assms(2) by (auto simp: add_eq_0_iff)
    then show ?thesis using unatSuc [of "counter v"] by (simp add: add.commute)
  qed
  ultimately show "unat (counter (counted v)) = Suc (unat (counter v))" by simp
qed

lemma stored_id_inv:
  assumes "id_inv v" and "counter v \<noteq> 0xFFFFFFFF" and "stored v rc h d v'"
  shows "id_inv v'"
proof -
  note c = counter_counted [OF assms(1,2)]
  have lt: "put_u32 k \<in> dom (st_objects v) \<Longrightarrow> unat k < unat (counter v)" for k using assms(1) by (simp add: id_inv_def)
  have o: "st_objects (counted v) (put_u32 k) = st_objects v (put_u32 k)" for k by (simp add: counted_def)
  have inv1: "id_inv (counted v)" unfolding id_inv_def
    using c lt o by (auto simp: domIff less_Suc_eq)
  consider "st_objects v' = st_objects v" | "st_objects v' = st_objects (counted v)"
    | x where "rc = TEE_SUCCESS" "h = counter v" "st_objects v' = (st_objects (counted v))(put_u32 h \<mapsto> x)"
    using assms(3) unfolding stored_def by (auto split: if_splits)
  then show ?thesis
  proof cases
    case 1
    then show ?thesis using assms(1) id_inv_frame by blast
  next
    case 2
    then show ?thesis using inv1 id_inv_frame by blast
  next
    case (3 x)
    have cv: "counter v' = counter (counted v)" using 3(3) by (simp add: counter_def)
    show ?thesis unfolding id_inv_def cv
      using 3 c o lt inv1 [unfolded id_inv_def] by (auto simp: domIff less_Suc_eq split: if_splits)
  qed
qed

section \<open>The application as a state machine\<close>

lemma id_inv_db: "id_inv v \<Longrightarrow> \<exists>x. st_objects v db_obj_id = Some x \<and> length (obj_data x) = 4"
  by (simp add: id_inv_def)

text \<open>The handle a command hands out.\<close>

definition handed_out :: "u32 \<Rightarrow> TEE_Result \<Rightarrow> TEE_Params \<Rightarrow> SK_OBJECT_HANDLE list" where
  "handed_out cmd rc ps =
     (if rc \<noteq> TEE_SUCCESS then []
      else if cmd = TEE_CREATE_OBJECT then (case Option.bind (param ps 1) value_a of None \<Rightarrow> [] | Some h \<Rightarrow> [h])
      else if cmd = TEE_GENERATE_KEYPAIR then (case Option.bind (param ps 2) value_a of None \<Rightarrow> [] | Some h \<Rightarrow> [h])
      else [])"

text \<open>
  What one command does to the objects: it stores one under a new handle, removes one, or changes
  none.
\<close>

definition served_step :: "tee_store \<Rightarrow> SK_OBJECT_HANDLE list \<Rightarrow> tee_store \<Rightarrow> bool" where
  "served_step v hs v' \<longleftrightarrow> same_handles v v' \<and>
     ((\<exists>rc h d. stored v rc h d v' \<and> hs = (if rc = TEE_SUCCESS then [h] else [])) \<or>
      (\<exists>h. st_objects v' = (st_objects v)(put_u32 h := None) \<and> hs = []))"

lemma served_frame: "frame v v' \<Longrightarrow> served_step v [] v'"
  unfolding served_step_def frame_def stored_def by (auto intro!: exI [of _ 1])

lemma set_value_param:
  "param ps i = Some p \<Longrightarrow> set_value_a h p = Some q \<Longrightarrow> Option.bind (param (ps[i := q]) i) value_a = Some h"
  by (auto simp: param_def set_value_a_def value_a_def split: if_splits TEE_Param.splits)

lemma handed_out_stored:
  assumes "rc = TEE_SUCCESS \<Longrightarrow> \<exists>p q. param ps i = Some p \<and> set_value_a h p = Some q \<and> ps' = ps[i := q]"
    and "cmd = TEE_CREATE_OBJECT \<and> i = 1 \<or> cmd = TEE_GENERATE_KEYPAIR \<and> i = 2"
  shows "handed_out cmd rc ps' = (if rc = TEE_SUCCESS then [h] else [])"
proof (cases "rc = TEE_SUCCESS")
  case True
  with assms(1) have "Option.bind (param ps' i) value_a = Some h" using set_value_param by blast
  with True assms(2) show ?thesis by (auto simp: handed_out_def)
qed (simp add: handed_out_def)

lemma served_stored:
  assumes "same_handles v v'" and "stored v rc h d v'" and "hs = (if rc = TEE_SUCCESS then [h] else [])"
  shows "served_step v hs v'"
  using assms unfolding served_step_def by blast

lemma command_step:
  assumes "trusted_storage A view" and "id_inv (view s)" and "TA_InvokeCommandEntryPoint A cmd types ps s = Some (rc, ps', s')"
  shows "served_step (view s) (handed_out cmd rc ps') (view s')"
proof -
  note T = assms(1)
  obtain x where x: "st_objects (view s) db_obj_id = Some x" "length (obj_data x) = 4" using id_inv_db [OF assms(2)] by blast
  have quiet: "served_step (view s) [] (view s')" if "view s' = view s" using that by (intro served_frame) (simp add: frame_def)
  have "cmd = TEE_CREATE_OBJECT \<or> cmd = TEE_FIND_OBJECTS \<or> cmd = TEE_GET_OBJ_ATTRIBUTES \<or> cmd = TEE_ERASE_OBJECT \<or>
      cmd = TEE_SIGN_DIGEST \<or> cmd = TEE_DECRYPT_DATA \<or> cmd = TEE_DIGEST_DATA \<or> cmd = TEE_GENERATE_KEYPAIR \<or>
      (rc, ps', s') = (TEE_ERROR_BAD_PARAMETERS, ps, s) \<and> cmd \<noteq> TEE_CREATE_OBJECT \<and> cmd \<noteq> TEE_GENERATE_KEYPAIR"
    using assms(3) by (auto simp: TA_InvokeCommandEntryPoint_def split: if_splits)
  then show ?thesis
  proof (elim disjE)
    assume cmd: "cmd = TEE_CREATE_OBJECT"
    with assms(3) have c: "TA_CreateObject A types ps s = Some (rc, ps', s')" by (simp add: TA_InvokeCommandEntryPoint_def)
    from TA_CreateObject_spec [OF T x c] obtain h d where h: "same_handles (view s) (view s')" "stored (view s) rc h d (view s')"
      "rc = TEE_SUCCESS \<Longrightarrow> \<exists>p q. param ps 1 = Some p \<and> set_value_a h p = Some q \<and> ps' = ps[1 := q]" by blast
    with cmd handed_out_stored [OF h(3)] show ?thesis by (intro served_stored [of _ _ rc h d]) auto
  next
    assume cmd: "cmd = TEE_GENERATE_KEYPAIR"
    with assms(3) have c: "TA_GenerateKeyPair A types ps s = Some (rc, ps', s')" by (simp add: TA_InvokeCommandEntryPoint_def)
    from TA_GenerateKeyPair_spec [OF T x c] obtain h d where h: "same_handles (view s) (view s')" "stored (view s) rc h d (view s')"
      "rc = TEE_SUCCESS \<Longrightarrow> \<exists>p q. param ps 2 = Some p \<and> set_value_a h p = Some q \<and> ps' = ps[2 := q]" by blast
    with cmd handed_out_stored [OF h(3)] show ?thesis by (intro served_stored [of _ _ rc h d]) auto
  next
    assume cmd: "cmd = TEE_FIND_OBJECTS"
    with assms(3) TA_FindObjects_frame [OF T, of types ps s] show ?thesis
      by (auto simp: TA_InvokeCommandEntryPoint_def handed_out_def intro: served_frame)
  next
    assume cmd: "cmd = TEE_GET_OBJ_ATTRIBUTES"
    with assms(3) TA_GetObjectAttributes_spec [OF T, of types ps s] show ?thesis
      by (auto simp: TA_InvokeCommandEntryPoint_def handed_out_def frame_def same_handles_def intro!: served_frame)
  next
    assume cmd: "cmd = TEE_ERASE_OBJECT"
    with assms(3) have c: "TA_EraseObject A types ps s = Some (rc, ps', s')" by (simp add: TA_InvokeCommandEntryPoint_def)
    from TA_EraseObject_spec [OF T c] cmd quiet show ?thesis
      by (cases "rc = TEE_SUCCESS") (auto simp: handed_out_def served_step_def)
  next
    assume cmd: "cmd = TEE_SIGN_DIGEST"
    with assms(3) have c: "key_operation A sign_algorithm TEE_MODE_SIGN (TEE_AsymmetricSignDigest_fn A) types ps s = Some (rc, ps', s')"
      by (simp add: TA_InvokeCommandEntryPoint_def TA_SignDigest_def)
    from key_operation_view [OF T c] storage_silent(7) [OF T] quiet cmd show ?thesis by (auto simp: handed_out_def)
  next
    assume cmd: "cmd = TEE_DECRYPT_DATA"
    with assms(3) have c: "key_operation A decrypt_algorithm TEE_MODE_DECRYPT (TEE_AsymmetricDecrypt_fn A) types ps s = Some (rc, ps', s')"
      by (simp add: TA_InvokeCommandEntryPoint_def TA_DecryptData_def)
    from key_operation_view [OF T c] storage_silent(8) [OF T] quiet cmd show ?thesis by (auto simp: handed_out_def)
  next
    assume cmd: "cmd = TEE_DIGEST_DATA"
    with assms(3) have c: "TA_DigestData A types ps s = Some (rc, ps', s')" by (simp add: TA_InvokeCommandEntryPoint_def)
    from TA_DigestData_view [OF T c] quiet cmd show ?thesis by (auto simp: handed_out_def)
  next
    assume "(rc, ps', s') = (TEE_ERROR_BAD_PARAMETERS, ps, s) \<and> cmd \<noteq> TEE_CREATE_OBJECT \<and> cmd \<noteq> TEE_GENERATE_KEYPAIR"
    with quiet show ?thesis by (auto simp: handed_out_def)
  qed
qed

text \<open>
  The history of an instance: \<open>n\<close> commands were served since it was created, and \<open>hs\<close> are the handles
  it handed out, the latest first.
\<close>

inductive served :: "'s tee_api \<Rightarrow> 's \<Rightarrow> nat \<Rightarrow> SK_OBJECT_HANDLE list \<Rightarrow> 's \<Rightarrow> bool" for A s0 where
  created: "TA_CreateEntryPoint A s0 = (TEE_SUCCESS, s) \<Longrightarrow> served A s0 0 [] s"
| command: "served A s0 n hs s \<Longrightarrow> TA_InvokeCommandEntryPoint A cmd types ps s = Some (rc, ps', s') \<Longrightarrow>
    served A s0 (Suc n) (handed_out cmd rc ps' @ hs) s'"

text \<open>What holds of the storage in between.\<close>

definition history_inv :: "tee_store \<Rightarrow> nat \<Rightarrow> SK_OBJECT_HANDLE list \<Rightarrow> bool" where
  "history_inv v n hs \<longleftrightarrow> id_inv v \<and> unat (counter v) \<le> n \<and> distinct hs \<and> (\<forall>h \<in> set hs. unat h < unat (counter v)) \<and>
     dom (st_objects v) \<subseteq> insert db_obj_id (put_u32 ` set hs)"

lemma TA_OpenDatabase_spec:
  assumes "trusted_storage A view" and "TA_OpenDatabase A s = (rc, s')"
  shows "same_handles (view s) (view s')" and "st_blocks (view s') = st_blocks (view s)"
    and "rc \<noteq> TEE_SUCCESS \<Longrightarrow> view s' = view s"
    and "rc = TEE_SUCCESS \<Longrightarrow> (if db_obj_id \<in> dom (st_objects (view s)) then st_objects (view s') = st_objects (view s)
      else \<exists>x. obj_data x = put_u32 0 \<and> st_objects (view s') = (st_objects (view s))(db_obj_id \<mapsto> x))"
proof -
  note T = assms(1)
  obtain rc1 h s1 where 1: "TEE_OpenPersistentObject_fn A db_obj_id (TEE_DATA_FLAG_SHARE_READ OR TEE_DATA_FLAG_ACCESS_READ) s = (rc1, h, s1)"
    by (metis prod_cases3)
  have "same_handles (view s) (view s') \<and> st_blocks (view s') = st_blocks (view s) \<and> (rc \<noteq> TEE_SUCCESS \<longrightarrow> view s' = view s) \<and>
    (rc = TEE_SUCCESS \<longrightarrow> (if db_obj_id \<in> dom (st_objects (view s)) then st_objects (view s') = st_objects (view s)
      else \<exists>x. obj_data x = put_u32 0 \<and> st_objects (view s') = (st_objects (view s))(db_obj_id \<mapsto> x)))"
  proof (cases "rc1 = TEE_SUCCESS")
    case True
    note v1 = storage_open(2-4) [OF T 1 True]
    have "h \<in> dom (st_handles (view s1))" using v1(3) by simp
    with storage_close [OF T this] v1 fresh_handle_undo [OF v1(2)] assms(2) 1 True show ?thesis
      by (simp add: TA_OpenDatabase_def same_handles_def)
  next
    case False
    note v1 = storage_open(1) [OF T 1 False] storage_open(5) [OF T 1]
    obtain rc2 s2 where 2: "TEE_CreatePersistentObject_fn A db_obj_id TEE_DATA_FLAG_ACCESS_WRITE TEE_HANDLE_NULL (put_u32 0) s1 = (rc2, s2)"
      by (metis surj_pair)
    from storage_create [OF T 2] v1 assms(2) 1 2 False show ?thesis
      by (cases "rc2 = TEE_SUCCESS") (auto simp: TA_OpenDatabase_def same_handles_def split: if_splits)
  qed
  then show "same_handles (view s) (view s')" "st_blocks (view s') = st_blocks (view s)" "rc \<noteq> TEE_SUCCESS \<Longrightarrow> view s' = view s"
    "rc = TEE_SUCCESS \<Longrightarrow> (if db_obj_id \<in> dom (st_objects (view s)) then st_objects (view s') = st_objects (view s)
      else \<exists>x. obj_data x = put_u32 0 \<and> st_objects (view s') = (st_objects (view s))(db_obj_id \<mapsto> x))" by auto
qed

lemma history_step:
  assumes "history_inv v n hs" and "n < 0xFFFFFFFF" and "served_step v new v'"
  shows "history_inv v' (Suc n) (new @ hs)"
proof -
  have h: "id_inv v" "unat (counter v) \<le> n" "distinct hs" "\<forall>h \<in> set hs. unat h < unat (counter v)"
    "dom (st_objects v) \<subseteq> insert db_obj_id (put_u32 ` set hs)" using assms(1) by (auto simp: history_inv_def)
  have top: "counter v \<noteq> 0xFFFFFFFF" using h(2) assms(2) by auto
  note c = counter_counted [OF h(1) top]
  have "(\<exists>k d x. stored v TEE_SUCCESS k d v' \<and> k = counter v \<and> new = [k] \<and> st_objects v' = (st_objects (counted v))(put_u32 k \<mapsto> x)) \<or>
      (st_objects v' \<in> {st_objects v, st_objects (counted v)} \<and> new = []) \<or>
      (\<exists>k. st_objects v' = (st_objects v)(put_u32 k := None) \<and> new = [])"
  proof -
    from assms(3) consider rc k d where "stored v rc k d v'" "new = (if rc = TEE_SUCCESS then [k] else [])"
      | k where "st_objects v' = (st_objects v)(put_u32 k := None)" "new = []"
      unfolding served_step_def by blast
    then show ?thesis
    proof cases
      case (1 rc k d)
      then show ?thesis
      proof (cases "rc = TEE_SUCCESS")
        case True
        with 1(1) obtain x where "k = counter v" "st_objects v' = (st_objects (counted v))(put_u32 k \<mapsto> x)"
          by (auto simp: stored_def)
        with 1 True show ?thesis by auto
      qed (simp add: stored_def)
    qed blast
  qed
  then consider
      (none) "st_objects v' \<in> {st_objects v, st_objects (counted v)}" "new = []"
    | (one) k d x where "stored v TEE_SUCCESS k d v'" "k = counter v" "new = [k]" "st_objects v' = (st_objects (counted v))(put_u32 k \<mapsto> x)"
    | (less) k where "st_objects v' = (st_objects v)(put_u32 k := None)" "new = []" by blast
  then show ?thesis
  proof cases
    case none
    then have "stored v 1 0 [] v'" by (auto simp: stored_def)
    from stored_id_inv [OF h(1) top this] have "id_inv v'" .
    moreover have "counter v' \<in> {counter v, counter (counted v)}" using none by (auto simp: counter_def)
    moreover have "dom (st_objects v') \<subseteq> insert db_obj_id (put_u32 ` set hs)" using none(1) h(5) by (auto 0 3 simp: counted_def subset_iff split: if_splits)
    ultimately show ?thesis using h c none(2) unfolding history_inv_def by (auto simp: le_Suc_eq less_Suc_eq)
  next
    case one
    from stored_id_inv [OF h(1) top one(1)] have "id_inv v'" .
    moreover have "counter v' = counter (counted v)" using one(4) by (simp add: counter_def)
    moreover have "dom (st_objects v') \<subseteq> insert db_obj_id (put_u32 ` set (k # hs))" using one(4) h(5) by (auto 0 3 simp: counted_def subset_iff split: if_splits)
    ultimately show ?thesis using h c one(2,3) unfolding history_inv_def by (auto simp: less_Suc_eq)
  next
    case less
    have cv: "counter v' = counter v" using less(1) by (simp add: counter_def)
    have "id_inv v'" using h(1) less(1) unfolding id_inv_def cv by (auto simp: domIff split: if_splits)
    with cv h less show ?thesis unfolding history_inv_def by (auto split: if_splits)
  qed
qed

lemma served_history:
  assumes "trusted_storage A view" and "st_objects (view s0) = Map.empty"
  shows "served A s0 n hs s \<Longrightarrow> n \<le> 0xFFFFFFFF \<Longrightarrow> history_inv (view s) n hs \<and> same_handles (view s0) (view s)"
proof (induction rule: served.induct)
  case (created s)
  from TA_OpenDatabase_spec [OF assms(1), of s0 TEE_SUCCESS s] created assms(2) obtain x where
    "obj_data x = put_u32 0" "st_objects (view s) = [db_obj_id \<mapsto> x]" "same_handles (view s0) (view s)"
    by (auto simp: TA_CreateEntryPoint_def)
  then show ?case by (auto simp: history_inv_def id_inv_def counter_def)
next
  case (command n hs s cmd types ps rc ps' s')
  then have h: "history_inv (view s) n hs" "same_handles (view s0) (view s)" "n < 0xFFFFFFFF" by auto
  then have st: "served_step (view s) (handed_out cmd rc ps') (view s')"
    using command_step [OF assms(1) _ command.hyps(2)] by (simp add: history_inv_def)
  with history_step [OF h(1,3) st] h(2) show ?case by (auto simp: served_step_def intro: same_handles_trans)
qed

end
