(* ===== verification/Ta_Sample.thy ===== *)
theory Ta_Sample
  imports Ta_Api "HOL-Library.AList"
begin

text \<open>
  A storage on association lists that behaves as \<open>trusted_storage\<close> asks, used to run the trusted
  application on concrete inputs. It stands for no code of the repository: the key material it
  produces is fixed and its cryptographic functions return their input.
\<close>

record sample_tee =
  t_objects :: "(byte list \<times> tee_object) list"
  t_handles :: "(u64 \<times> byte list \<times> nat) list"
  t_enums :: "(u64 \<times> byte list list) list"
  t_others :: "u64 list"
  t_blocks :: nat
  t_next :: u64

definition sample_view :: "sample_tee \<Rightarrow> tee_store" where
  "sample_view s = \<lparr>st_objects = map_of (t_objects s), st_handles = map_of (t_handles s), st_enums = map_of (t_enums s),
     st_others = set (t_others s), st_blocks = t_blocks s\<rparr>"

definition new_handle :: "(u64 \<Rightarrow> sample_tee \<Rightarrow> sample_tee) \<Rightarrow> sample_tee \<Rightarrow> TEE_Result \<times> u64 \<times> sample_tee" where
  "new_handle f s =
     (if t_next s = 0 \<or> t_next s \<in> set (map fst (t_handles s) @ map fst (t_enums s) @ t_others s)
      then (TEE_ERROR_OUT_OF_MEMORY, 0, s)
      else (TEE_SUCCESS, t_next s, (f (t_next s) s)\<lparr>t_next := t_next s + 1\<rparr>))"

definition sample_open :: "byte list \<Rightarrow> u32 \<Rightarrow> sample_tee \<Rightarrow> TEE_Result \<times> u64 \<times> sample_tee" where
  "sample_open i fl s =
     (if i \<in> set (map fst (t_objects s)) then new_handle (\<lambda>h s. s\<lparr>t_handles := (h, i, 0) # t_handles s\<rparr>) s
      else (TEE_ERROR_ITEM_NOT_FOUND, 0, s))"

definition sample_create :: "byte list \<Rightarrow> u32 \<Rightarrow> u64 \<Rightarrow> byte list \<Rightarrow> sample_tee \<Rightarrow> TEE_Result \<times> sample_tee" where
  "sample_create i fl a d s =
     (if i \<in> set (map fst (t_objects s)) then (0xFFFF0003, s)
      else (TEE_SUCCESS, s\<lparr>t_objects := (i, \<lparr>obj_info_type = TEE_TYPE_RSA_KEYPAIR, obj_info_size = 2048, obj_data = d\<rparr>) # t_objects s\<rparr>))"

definition sample_close :: "u64 \<Rightarrow> sample_tee \<Rightarrow> sample_tee" where
  "sample_close h s = s\<lparr>t_handles := AList.delete h (t_handles s)\<rparr>"

definition sample_delete :: "u64 \<Rightarrow> sample_tee \<Rightarrow> sample_tee" where
  "sample_delete h s = (case map_of (t_handles s) h of None \<Rightarrow> s
     | Some (i, p) \<Rightarrow> s\<lparr>t_handles := AList.delete h (t_handles s), t_objects := AList.delete i (t_objects s)\<rparr>)"

text \<open>The object behind a handle and the position in its data stream.\<close>

definition behind :: "sample_tee \<Rightarrow> u64 \<Rightarrow> (byte list \<times> nat \<times> tee_object) option" where
  "behind s h = (case map_of (t_handles s) h of None \<Rightarrow> None
     | Some (i, p) \<Rightarrow> map_option (\<lambda>x. (i, p, x)) (map_of (t_objects s) i))"

definition sample_read :: "u64 \<Rightarrow> nat \<Rightarrow> sample_tee \<Rightarrow> TEE_Result \<times> byte list \<times> sample_tee" where
  "sample_read h n s = (case behind s h of None \<Rightarrow> (TEE_ERROR_BAD_PARAMETERS, [], s)
     | Some (i, p, x) \<Rightarrow> let d = slice (obj_data x) p n in
         (TEE_SUCCESS, d, s\<lparr>t_handles := AList.update h (i, p + length d) (t_handles s)\<rparr>))"

definition sample_seek :: "u64 \<Rightarrow> nat \<Rightarrow> sample_tee \<Rightarrow> TEE_Result \<times> sample_tee" where
  "sample_seek h q s = (case map_of (t_handles s) h of None \<Rightarrow> (TEE_ERROR_BAD_PARAMETERS, s)
     | Some (i, p) \<Rightarrow> (TEE_SUCCESS, s\<lparr>t_handles := AList.update h (i, q) (t_handles s)\<rparr>))"

definition sample_write :: "u64 \<Rightarrow> byte list \<Rightarrow> sample_tee \<Rightarrow> TEE_Result \<times> sample_tee" where
  "sample_write h w s = (case behind s h of None \<Rightarrow> (TEE_ERROR_BAD_PARAMETERS, s)
     | Some (i, p, x) \<Rightarrow> (TEE_SUCCESS, s\<lparr>t_handles := AList.update h (i, p + length w) (t_handles s),
         t_objects := AList.update i (x\<lparr>obj_data := overwritten (obj_data x) p w\<rparr>) (t_objects s)\<rparr>))"

definition no_info :: TEE_ObjectInfo where
  "no_info = \<lparr>objectType = 0, objectSize = 0, dataSize = 0\<rparr>"

definition sample_info :: "u64 \<Rightarrow> sample_tee \<Rightarrow> TEE_Result \<times> TEE_ObjectInfo \<times> sample_tee" where
  "sample_info h s = (case behind s h of None \<Rightarrow> (TEE_ERROR_BAD_PARAMETERS, no_info, s)
     | Some (i, p, x) \<Rightarrow> (TEE_SUCCESS, info_of x, s))"

definition sample_start :: "u64 \<Rightarrow> sample_tee \<Rightarrow> TEE_Result \<times> sample_tee" where
  "sample_start e s = (TEE_SUCCESS, s\<lparr>t_enums := AList.update e (remdups (map fst (t_objects s))) (t_enums s)\<rparr>)"

definition sample_next :: "u64 \<Rightarrow> sample_tee \<Rightarrow> TEE_Result \<times> TEE_ObjectInfo \<times> byte list \<times> sample_tee" where
  "sample_next e s = (case map_of (t_enums s) e of
     Some (i # is) \<Rightarrow> (TEE_SUCCESS, (case map_of (t_objects s) i of None \<Rightarrow> no_info | Some x \<Rightarrow> info_of x), i,
       s\<lparr>t_enums := AList.update e is (t_enums s)\<rparr>)
   | _ \<Rightarrow> (TEE_ERROR_ITEM_NOT_FOUND, no_info, [], s))"

definition sample_other :: "sample_tee \<Rightarrow> TEE_Result \<times> u64 \<times> sample_tee" where
  "sample_other = new_handle (\<lambda>h s. s\<lparr>t_others := h # t_others s\<rparr>)"

definition sample_free_other :: "u64 \<Rightarrow> sample_tee \<Rightarrow> sample_tee" where
  "sample_free_other h s = s\<lparr>t_others := removeAll h (t_others s)\<rparr>"

definition sample_api :: "sample_tee tee_api" where
  "sample_api = \<lparr>
     TEE_OpenPersistentObject_fn = sample_open,
     TEE_CreatePersistentObject_fn = sample_create,
     TEE_CloseObject_fn = sample_close,
     TEE_CloseAndDeletePersistentObject_fn = sample_delete,
     TEE_ReadObjectData_fn = sample_read,
     TEE_SeekObjectData_fn = sample_seek,
     TEE_WriteObjectData_fn = sample_write,
     TEE_GetObjectInfo1_fn = sample_info,
     TEE_AllocatePersistentObjectEnumerator_fn = new_handle (\<lambda>e s. s\<lparr>t_enums := (e, []) # t_enums s\<rparr>),
     TEE_StartPersistentObjectEnumerator_fn = sample_start,
     TEE_GetNextPersistentObject_fn = sample_next,
     TEE_FreePersistentObjectEnumerator_fn = (\<lambda>e s. s\<lparr>t_enums := AList.delete e (t_enums s)\<rparr>),
     TEE_AllocateTransientObject_fn = (\<lambda>ty sz. sample_other),
     TEE_PopulateTransientObject_fn = (\<lambda>h as s. (TEE_SUCCESS, s)),
     TEE_GenerateKey_fn = (\<lambda>h n as s. (TEE_SUCCESS, s)),
     TEE_GetObjectBufferAttribute_fn = (\<lambda>h ai n s. (TEE_SUCCESS, [1, 0, 1], s)),
     TEE_CopyObjectAttributes1_fn = (\<lambda>h k s. (TEE_SUCCESS, s)),
     TEE_FreeTransientObject_fn = sample_free_other,
     TEE_AllocateOperation_fn = (\<lambda>al md sz. sample_other),
     TEE_SetOperationKey_fn = (\<lambda>h k s. (TEE_SUCCESS, s)),
     TEE_DigestDoFinal_fn = (\<lambda>h b n s. (TEE_SUCCESS, take n b, min n (length b), s)),
     TEE_AsymmetricSignDigest_fn = (\<lambda>h b n s. (TEE_SUCCESS, take n b, min n (length b), s)),
     TEE_AsymmetricDecrypt_fn = (\<lambda>h b n s. (TEE_SUCCESS, take n b, min n (length b), s)),
     TEE_FreeOperation_fn = sample_free_other,
     TEE_Malloc_fn = (\<lambda>n s. (True, s\<lparr>t_blocks := Suc (t_blocks s)\<rparr>)),
     TEE_Free_fn = (\<lambda>s. s\<lparr>t_blocks := t_blocks s - 1\<rparr>)\<rparr>"

definition empty_tee :: sample_tee where
  "empty_tee = \<lparr>t_objects = [], t_handles = [], t_enums = [], t_others = [], t_blocks = 0, t_next = 1\<rparr>"

lemma sample_api_simps [simp]:
  "TEE_OpenPersistentObject_fn sample_api = sample_open"
  "TEE_CreatePersistentObject_fn sample_api = sample_create"
  "TEE_CloseObject_fn sample_api = sample_close"
  "TEE_CloseAndDeletePersistentObject_fn sample_api = sample_delete"
  "TEE_ReadObjectData_fn sample_api = sample_read"
  "TEE_SeekObjectData_fn sample_api = sample_seek"
  "TEE_WriteObjectData_fn sample_api = sample_write"
  "TEE_GetObjectInfo1_fn sample_api = sample_info"
  "TEE_AllocatePersistentObjectEnumerator_fn sample_api = new_handle (\<lambda>e s. s\<lparr>t_enums := (e, []) # t_enums s\<rparr>)"
  "TEE_StartPersistentObjectEnumerator_fn sample_api = sample_start"
  "TEE_GetNextPersistentObject_fn sample_api = sample_next"
  "TEE_FreePersistentObjectEnumerator_fn sample_api = (\<lambda>e s. s\<lparr>t_enums := AList.delete e (t_enums s)\<rparr>)"
  "TEE_AllocateTransientObject_fn sample_api = (\<lambda>ty sz. sample_other)"
  "TEE_PopulateTransientObject_fn sample_api = (\<lambda>h as s. (TEE_SUCCESS, s))"
  "TEE_GenerateKey_fn sample_api = (\<lambda>h n as s. (TEE_SUCCESS, s))"
  "TEE_GetObjectBufferAttribute_fn sample_api = (\<lambda>h ai n s. (TEE_SUCCESS, [1, 0, 1], s))"
  "TEE_CopyObjectAttributes1_fn sample_api = (\<lambda>h k s. (TEE_SUCCESS, s))"
  "TEE_FreeTransientObject_fn sample_api = sample_free_other"
  "TEE_AllocateOperation_fn sample_api = (\<lambda>al md sz. sample_other)"
  "TEE_SetOperationKey_fn sample_api = (\<lambda>h k s. (TEE_SUCCESS, s))"
  "TEE_DigestDoFinal_fn sample_api = (\<lambda>h b n s. (TEE_SUCCESS, take n b, min n (length b), s))"
  "TEE_AsymmetricSignDigest_fn sample_api = (\<lambda>h b n s. (TEE_SUCCESS, take n b, min n (length b), s))"
  "TEE_AsymmetricDecrypt_fn sample_api = (\<lambda>h b n s. (TEE_SUCCESS, take n b, min n (length b), s))"
  "TEE_FreeOperation_fn sample_api = sample_free_other"
  "TEE_Malloc_fn sample_api = (\<lambda>n s. (True, s\<lparr>t_blocks := Suc (t_blocks s)\<rparr>))"
  "TEE_Free_fn sample_api = (\<lambda>s. s\<lparr>t_blocks := t_blocks s - 1\<rparr>)"
  by (simp_all add: sample_api_def)

lemma sample_view_simps [simp]:
  "st_objects (sample_view s) = map_of (t_objects s)" "st_handles (sample_view s) = map_of (t_handles s)"
  "st_enums (sample_view s) = map_of (t_enums s)" "st_others (sample_view s) = set (t_others s)" "st_blocks (sample_view s) = t_blocks s"
  by (simp_all add: sample_view_def)

lemma dom_map_of: "dom (map_of xs) = set (map fst xs)"
  by (simp add: dom_map_of_conv_image_fst)

lemmas sample_defs = sample_open_def sample_create_def sample_close_def sample_delete_def sample_read_def
  sample_seek_def sample_write_def sample_info_def sample_start_def sample_next_def sample_other_def sample_free_other_def
  new_handle_def behind_def

lemma sample_storage_objects:
  "opens_objects sample_api sample_view" "closes_objects sample_api sample_view" "creates_objects sample_api sample_view"
  "reads_data sample_api sample_view" "seeks_data sample_api sample_view" "writes_data sample_api sample_view" "informs sample_api sample_view"
  subgoal by (auto simp: opens_objects_def fresh_handle_def sample_defs sample_view_def dom_map_of)
  subgoal by (auto simp: closes_objects_def sample_defs sample_view_def delete_conv' split: option.splits)
  subgoal by (auto simp: creates_objects_def sample_defs sample_view_def dom_map_of
    intro!: exI [of _ "\<lparr>obj_info_type = TEE_TYPE_RSA_KEYPAIR, obj_info_size = 2048, obj_data = _\<rparr>"])
  subgoal by (auto simp: reads_data_def sample_defs sample_view_def update_conv' Let_def)
  subgoal by (auto simp: seeks_data_def sample_defs sample_view_def update_conv')
  subgoal by (auto simp: writes_data_def sample_defs sample_view_def update_conv')
  subgoal by (auto simp: informs_def sample_defs)
  done

lemma sample_storage_rest:
  "starts_enumerations sample_api sample_view" "enumerates_objects sample_api sample_view" "manages_handles sample_api sample_view"
  "computes sample_api sample_view" "allocates_memory sample_api sample_view"
  subgoal by (auto simp: starts_enumerations_def fresh_handle_def sample_defs sample_view_def update_conv' delete_conv' dom_map_of
    image_iff intro!: exI [of _ "remdups (map fst (t_objects _))"]) force
  subgoal by (auto simp: enumerates_objects_def sample_defs sample_view_def update_conv' split: option.splits list.splits)
  subgoal by (auto simp: manages_handles_def allocates_def releases_def fresh_handle_def sample_defs sample_view_def dom_map_of)
  subgoal by (simp add: computes_def silent_def sample_defs)
  subgoal by (auto simp: allocates_memory_def sample_defs sample_view_def)
  done

lemma sample_trusted: "trusted_storage sample_api sample_view"
  by (simp add: trusted_storage_def sample_storage_objects sample_storage_rest)

end
