(* ===== verification/Ta_Run.thy ===== *)
theory Ta_Run
  imports Ta_Machine Ta_Sample
begin

text \<open>
  A run of the trusted application on the sample storage: the first start, the creation of a key
  pair from an attribute buffer, and the state after it. The witnesses of the properties evaluate
  the commands on these states.
\<close>

definition key_attrs :: "SK_ATTRIBUTE list" where
  "key_attrs = [sk_attr_of SK_ATTR_OBJECT_TYPE (put_u32 SK_KEY_PAIR), sk_attr_of SK_ATTR_KEY_TYPE (put_u32 SKK_RSA),
     sk_attr_of SK_ATTR_MODULUS_BITS (put_u32 2048)]"

text \<open>The attributes as the client serialises them, and as the trusted application reads them.\<close>

definition key_buf :: "byte list" where
  "key_buf = [3, 0, 0, 0, 0, 0, 0, 0, 40, 0, 0, 0, 4, 0, 0, 0, 5, 0, 0, 0, 44, 0, 0, 0,
     4, 0, 0, 0, 30, 0, 0, 0, 48, 0, 0, 0, 4, 0, 0, 0, 0, 0, 1, 0, 0, 0, 0, 0, 0, 8, 0, 0]"

definition key_ts :: "ta_attr list" where
  "key_ts = [\<lparr>ta_type = 0, ta_ptr = Some 40, ta_len = 4\<rparr>, \<lparr>ta_type = 5, ta_ptr = Some 44, ta_len = 4\<rparr>,
     \<lparr>ta_type = 30, ta_ptr = Some 48, ta_len = 4\<rparr>]"

definition data_object :: "byte list \<Rightarrow> tee_object" where
  "data_object d = \<lparr>obj_info_type = TEE_TYPE_RSA_KEYPAIR, obj_info_size = 2048, obj_data = d\<rparr>"

definition started_tee :: sample_tee where
  "started_tee = empty_tee\<lparr>t_objects := [(db_obj_id, data_object [0, 0, 0, 0])]\<rparr>"

definition created_tee :: sample_tee where
  "created_tee = empty_tee\<lparr>t_objects := [([0, 0, 0, 0], data_object key_buf), (db_obj_id, data_object [1, 0, 0, 0])], t_next := 3\<rparr>"

definition create_params :: TEE_Params where
  "create_params = [MemrefP (Some key_buf) 52 True, ValueP 0 0, NoneP, NoneP]"

section \<open>Evaluation\<close>

lemma put_u32_bytes:
  "put_u32 v = [of_nat (unat v), of_nat (unat v div 256), of_nat (unat v div 65536), of_nat (unat v div 16777216)]"
proof -
  have four: "(4 :: nat) = Suc (Suc (Suc (Suc 0)))" by simp
  show ?thesis unfolding put_u32_def four by (simp add: div_mult2_eq [symmetric])
qed

lemma get_u32_bytes: "get_u32 (a # b # c # d # r) = of_nat (unat a + 256 * (unat b + 256 * (unat c + 256 * unat d)))"
  by (simp add: get_u32_def)

lemma key_facts [simp]: "length key_buf = 52" "key_buf \<noteq> []" "key_ts \<noteq> []" "length key_ts = 3"
  by (simp_all add: key_buf_def key_ts_def)

lemma blocks_started [simp]:
  "t_blocks started_tee = 0" "t_blocks created_tee = 0" "started_tee\<lparr>t_blocks := 0\<rparr> = started_tee" "created_tee\<lparr>t_blocks := 0\<rparr> = created_tee"
  by (simp_all add: started_tee_def created_tee_def empty_tee_def)

lemma start_sample: "TA_CreateEntryPoint sample_api empty_tee = (TEE_SUCCESS, started_tee)"
  by (simp add: TA_CreateEntryPoint_def TA_OpenDatabase_def sample_defs empty_tee_def started_tee_def data_object_def put_u32_bytes)

lemma unpack_key: "ta_unpack_sk_attrs True True key_buf = Some (TEE_SUCCESS, key_ts)"
  "ta_unpack_sk_attrs False True key_buf = Some (TEE_ERROR_OUT_OF_MEMORY, [])"
  by code_simp+

lemma unpack_attrs_key: "unpack_attrs sample_api True key_buf s = Some (TEE_SUCCESS, key_ts, s\<lparr>t_blocks := Suc (t_blocks s)\<rparr>)"
  by (simp add: unpack_attrs_def unpack_key)

lemma resolve_key: "map (resolve key_buf) key_ts =
  [\<lparr>sk_type = 0, sk_value = Some [0, 0, 1, 0, 0, 0, 0, 0, 0, 8, 0, 0], sk_valueLen = 4\<rparr>,
   \<lparr>sk_type = 5, sk_value = Some [0, 0, 0, 0, 0, 8, 0, 0], sk_valueLen = 4\<rparr>,
   \<lparr>sk_type = 30, sk_value = Some [0, 8, 0, 0], sk_valueLen = 4\<rparr>]"
  by (simp add: key_ts_def resolve_def key_buf_def)

lemma replicate_52: "replicate 52 x = [x,x,x,x,x,x,x,x,x,x,x,x,x,x,x,x,x,x,x,x,x,x,x,x,x,x,x,x,x,x,x,x,x,x,x,x,x,x,x,x,x,x,x,x,x,x,x,x,x,x,x,x]"
  by (simp add: numeral_eq_Suc)

lemma pack_key: "pack_sk_attrs True (map (resolve key_buf) key_ts) = Some (TEE_SUCCESS, key_buf)"
  unfolding resolve_key
  by (simp add: pack_sk_attrs_def packable_def stores_value_def put_attr_def poke_def read_bytes_def put_u32_bytes ROUNDUP_def
      replicate_52 key_buf_def)

lemma pack_data_key:
  "pack_data sample_api (map (resolve key_buf) key_ts) s = Some (TEE_SUCCESS, key_buf, s\<lparr>t_blocks := Suc (t_blocks s)\<rparr>)"
  using pack_key by (simp add: pack_data_def key_ts_def)

lemma object_type_key:
  "TA_GetTEEObjectTypeAndAttr sample_api (map (resolve key_buf) key_ts) s =
     Some (TEE_SUCCESS, [], TEE_TYPE_RSA_KEYPAIR, 2048, s\<lparr>t_blocks := Suc (t_blocks s)\<rparr>)"
  unfolding resolve_key
  by (simp add: TA_GetTEEObjectTypeAndAttr_def TA_GetSKAttr_def deref_u32_def rsa_object_def read_bytes_def get_u32_bytes
      fill_rsa_keypair_tee_attr_def rsa_keypair_entries_def rsa_pubkey_entries_def fill_ref_def)

lemma next_id_sample:
  "TA_GetNextObjectID sample_api 0 (started_tee\<lparr>t_blocks := k, t_others := [1], t_next := 2\<rparr>) =
     (TEE_SUCCESS, 0, started_tee\<lparr>t_objects := [(db_obj_id, data_object [1, 0, 0, 0])], t_blocks := k, t_others := [1], t_next := 3\<rparr>)"
  by (simp add: TA_GetNextObjectID_def sample_defs started_tee_def data_object_def empty_tee_def unless_null_def Let_def slice_def
      overwritten_def get_u32_bytes put_u32_bytes)

lemma create_from_key:
  "create_from_attrs sample_api (map (resolve key_buf) key_ts) (started_tee\<lparr>t_blocks := Suc 0\<rparr>) =
     Some (TEE_SUCCESS, 0, created_tee\<lparr>t_blocks := Suc 0\<rparr>)"
  using next_id_sample [of 3]
  by (simp add: create_from_attrs_def object_type_key store_object_def pack_data_key sample_other_def new_handle_def started_tee_def
      empty_tee_def sample_create_def put_u32_bytes blk_def release_def unless_null_def sample_free_other_def created_tee_def
      data_object_def db_obj_id_def numeral_3_eq_3)

lemma create_sample:
  "TA_InvokeCommandEntryPoint sample_api TEE_CREATE_OBJECT 0x25 create_params started_tee = Some (TEE_SUCCESS, create_params, created_tee)"
  by (simp add: TA_InvokeCommandEntryPoint_def TA_CreateObject_def TEE_PARAM_TYPES_def create_params_def param_def memref_bytes_def
      unpack_attrs_key create_from_key set_value_a_def blk_def Let_def)

end
