(* ===== verification/Ta_Properties.thy ===== *)
theory Ta_Properties
  imports Ta_Run
begin

text \<open>
  The properties of the trusted application as a whole: its history of handles, erasure, the search and
  its bounds, the cryptographic commands and the refusal of wrong parameters.
\<close>

section \<open>Properties of the trusted application\<close>

lemma started_served: "served sample_api empty_tee 0 [] started_tee"
  by (rule served.created) (rule start_sample)

lemma created_served: "served sample_api empty_tee 1 [0] created_tee"
  using served.command [OF started_served create_sample] by (simp add: handed_out_def create_params_def param_def value_a_def)

text \<open>
  C29: the handles of an instance. From an empty storage, after the first start and at most
  \<open>2 ^ 32 - 1\<close> commands with arbitrary parameters, whatever the TEE answers: no handle was handed out
  twice (also not after its object was erased), every object in the storage besides the counter was
  handed out, and no handle of the TEE, no enumerator, no transient object and no operation is left
  open.
\<close>

theorem object_handles_history:
  assumes "trusted_storage A view" and "st_objects (view s0) = Map.empty" and "served A s0 n hs s" and "n \<le> 0xFFFFFFFF"
  shows "distinct hs \<and> dom (st_objects (view s)) \<subseteq> insert db_obj_id (put_u32 ` set hs) \<and> same_handles (view s0) (view s)"
  using served_history [OF assms] by (simp add: history_inv_def)

theorem object_handles_history_witness:
  "distinct [0 :: u32] \<and> dom (st_objects (sample_view created_tee)) \<subseteq> insert db_obj_id (put_u32 ` set [0]) \<and>
   same_handles (sample_view empty_tee) (sample_view created_tee)"
  by (rule object_handles_history [OF sample_trusted _ created_served]) (simp_all add: empty_tee_def)

text \<open>
  erasure. \<open>TEE_ERASE_OBJECT\<close> removes exactly the object of the given handle and nothing else, and
  it succeeds only if there was one; on every other result the storage is untouched.
\<close>

theorem erase_object_spec:
  assumes "trusted_storage A view" and "TA_EraseObject A types ps s = Some (rc, ps', s')"
  shows "ps' = ps \<and> same_handles (view s) (view s') \<and> st_blocks (view s') = st_blocks (view s) \<and>
    (if rc = TEE_SUCCESS
     then \<exists>p h. param ps 0 = Some p \<and> value_a p = Some h \<and> put_u32 h \<in> dom (st_objects (view s)) \<and>
       st_objects (view s') = (st_objects (view s))(put_u32 h := None)
     else view s' = view s)"
  by (rule TA_EraseObject_spec [OF assms])

lemma erase_sample: "TA_EraseObject sample_api 1 [ValueP 0 0, NoneP, NoneP, NoneP] created_tee =
  Some (TEE_SUCCESS, [ValueP 0 0, NoneP, NoneP, NoneP], created_tee\<lparr>t_objects := [(db_obj_id, data_object [1, 0, 0, 0])], t_next := 4\<rparr>)"
  by (simp add: TA_EraseObject_def TEE_PARAM_TYPES_def param_def value_a_def put_u32_bytes sample_defs created_tee_def empty_tee_def db_obj_id_def)

theorem erase_object_spec_witness:
  "\<exists>s'. TA_EraseObject sample_api 1 [ValueP 0 0, NoneP, NoneP, NoneP] created_tee =
      Some (TEE_SUCCESS, [ValueP 0 0, NoneP, NoneP, NoneP], s') \<and>
    st_objects (sample_view s') = (st_objects (sample_view created_tee))(put_u32 0 := None)"
  using erase_object_spec [OF sample_trusted erase_sample] erase_sample by (auto simp: param_def value_a_def)

text \<open>The command after its template has been unpacked.\<close>

lemma TA_FindObjects_unpacked:
  assumes "unpack_attrs A al buf s = Some (rc1, us, s1)"
  shows "TA_FindObjects A 0x265 (find_params buf al out al' a b) s =
    (if rc1 \<noteq> TEE_SUCCESS then Some (rc1, find_params buf al out al' a b, s1) else do {
      (res, obj, cnt, s) \<leftarrow> (if us = [] then TA_FindAllObjects A out (length out div 4) s1
         else TA_FindAttrMatchObjects A (map (resolve buf) us) out (length out div 4) s1);
      let s = release A 0 0 0 (blk us) s;
      let ps = (find_params buf al out al' a b)[1 := set_memref obj (MemrefP (Some out) (length out) al')];
      if res \<noteq> TEE_SUCCESS then Some (res, ps, s)
      else Some (res, ps[2 := ValueP (case cnt of None \<Rightarrow> 0 | Some n \<Rightarrow> of_nat n) b], s) })"
  using assms by (simp add: TA_FindObjects_def TEE_PARAM_TYPES_def find_params_def param_def memref_bytes_def set_value_a_def Let_def
    cong: if_cong)

text \<open>
  C30: the search. For a template that unpacks, room for at least one handle and objects whose data
  streams can be compared with it, \<open>TEE_FIND_OBJECTS\<close> returns, leaves the objects as they are, closes
  all it opened and loses at most one heap block for each object. On success the output array starts with
  handles of objects that have every attribute of the template with the same length and the same bytes
  (all objects, for an empty template), no handle twice, the rest of the array is unchanged, and their number, which is reported, is that of all
  such objects or the capacity of the array, whichever is smaller.
\<close>

theorem find_objects_spec:
  assumes "trusted_storage A view" and "ta_unpack_sk_attrs True al buf = Some (TEE_SUCCESS, ts)" and "4 \<le> length out"
    and "ts = [] \<or> (\<forall>i \<in> dom (st_objects (view s)). searchable (view s) (map (resolve buf) ts) i)"
  shows "\<exists>rc ps' s'. TA_FindObjects A 0x265 (find_params buf al out al' a b) s = Some (rc, ps', s') \<and>
    st_objects (view s') = st_objects (view s) \<and> same_handles (view s) (view s') \<and>
    st_blocks (view s') \<le> st_blocks (view s) + card (dom (st_objects (view s))) \<and>
    (rc = TEE_SUCCESS \<longrightarrow> (\<exists>ids. distinct ids \<and> set ids \<subseteq> {i \<in> dom (st_objects (view s)). wanted (view s) (map (resolve buf) ts) i} \<and>
      length ids = min (length out div 4) (card {i \<in> dom (st_objects (view s)). wanted (view s) (map (resolve buf) ts) i}) \<and>
      ps' = find_params buf al (filled out 0 ids) al' (of_nat (length ids)) b))"
proof -
  note T = assms(1)
  let ?as = "map (resolve buf) ts" and ?ps = "find_params buf al out al' a b"
  obtain rc1 us s1 where 1: "unpack_attrs A al buf s = Some (rc1, us, s1)" using unpack_attrs_total [of A al buf s] by blast
  note v1 = unpack_attrs_spec [OF T 1]
  note pre = TA_FindObjects_unpacked [OF 1, of out al' a b]
  show ?thesis
  proof (cases "rc1 = TEE_SUCCESS")
    case False
    then show ?thesis unfolding pre using v1 by (auto simp: same_handles_def blk_def)
  next
    case True
    then have us: "us = ts" using v1(3) assms(2) by auto
    have o: "st_objects (view s1) = st_objects (view s)" using v1(1) by simp
    have "found view s1 (wanted (view s) ?as) (length out div 4) out
      (if ts = [] then TA_FindAllObjects A out (length out div 4) s1 else TA_FindAttrMatchObjects A ?as out (length out div 4) s1)"
      using find_both [OF T assms(3), of ?as s1] assms(4) o unfolding wanted_cong [OF o] searchable_cong [OF o] by auto
    then obtain rc obj' cnt s2 where 2: "(if us = [] then TA_FindAllObjects A out (length out div 4) s1
         else TA_FindAttrMatchObjects A (map (resolve buf) us) out (length out div 4) s1) = Some (rc, obj', cnt, s2)"
      and v2: "st_objects (view s2) = st_objects (view s)" "same_handles (view s1) (view s2)"
        "st_blocks (view s2) \<le> st_blocks (view s1) + card (dom (st_objects (view s)))" "st_blocks (view s1) \<le> st_blocks (view s2)"
      and ids: "rc = TEE_SUCCESS \<longrightarrow> (\<exists>ids. distinct ids \<and> set ids \<subseteq> {i \<in> dom (st_objects (view s)). wanted (view s) ?as i} \<and>
        length ids = min (length out div 4) (card {i \<in> dom (st_objects (view s)). wanted (view s) ?as i}) \<and>
        cnt = Some (length ids) \<and> obj' = filled out 0 ids)"
      unfolding found_def us o by blast
    have b: "blk us \<le> st_blocks (view s2)" using v1(1) v2(4) by simp
    let ?s3 = "release A 0 0 0 (blk us) s2"
    have v3: "view ?s3 = (view s2)\<lparr>st_blocks := st_blocks (view s2) - blk us\<rparr>"
      by (subst storage_release [OF T]) (use b in simp_all)
    have e: "st_objects (view ?s3) = st_objects (view s)" "same_handles (view s) (view ?s3)"
        "st_blocks (view ?s3) \<le> st_blocks (view s) + card (dom (st_objects (view s)))"
      using v1(1) v2 v3 by (auto simp: same_handles_def)
    show ?thesis
    proof (cases "rc = TEE_SUCCESS")
      case False
      then show ?thesis unfolding pre using True 2 e by (simp add: Let_def)
    next
      case ok: True
      with ids obtain ids where i: "distinct ids" "set ids \<subseteq> {i \<in> dom (st_objects (view s)). wanted (view s) ?as i}"
        "length ids = min (length out div 4) (card {i \<in> dom (st_objects (view s)). wanted (view s) ?as i})"
        "cnt = Some (length ids)" "obj' = filled out 0 ids" by blast
      have "length (filled out 0 ids) = length out"
        by (rule length_filled) (use i(2,3) in \<open>auto simp: wanted_def\<close>)
      then have r: "TA_FindObjects A 0x265 ?ps s = Some (TEE_SUCCESS, find_params buf al (filled out 0 ids) al' (of_nat (length ids)) b, ?s3)"
        unfolding pre using True 2 ok i(4,5) by (simp add: Let_def find_params_def set_memref_def)
      show ?thesis by (intro exI conjI, rule r) (use e i in auto)
    qed
  qed
qed



lemma no_template: "ta_unpack_sk_attrs True True [0, 0, 0, 0] = Some (TEE_SUCCESS, [])"
  by (simp add: ta_unpack_sk_attrs_def peek_u32_def slice_def get_u32_bytes)

text \<open>
  A storage with two keys that differ only in the number of bits of the modulus, 2048 and 1024, and a
  template that asks for 1024.
\<close>

definition other_buf :: "byte list" where
  "other_buf = take 48 key_buf @ [0, 4, 0, 0]"

definition bits_buf :: "byte list" where
  "bits_buf = [1, 0, 0, 0, 30, 0, 0, 0, 16, 0, 0, 0, 4, 0, 0, 0, 0, 4, 0, 0]"

definition two_keys_tee :: sample_tee where
  "two_keys_tee = empty_tee\<lparr>t_objects := [([0, 0, 0, 0], data_object key_buf), ([1, 0, 0, 0], data_object other_buf),
     (db_obj_id, data_object [2, 0, 0, 0])], t_next := 3\<rparr>"

lemma unpack_bits: "ta_unpack_sk_attrs True True bits_buf = Some (TEE_SUCCESS, [\<lparr>ta_type = 30, ta_ptr = Some 16, ta_len = 4\<rparr>])"
  by code_simp

lemma unpack_other: "ta_unpack_sk_attrs True True other_buf = Some (TEE_SUCCESS, key_ts)"
  by code_simp

lemma two_keys_decoded:
  "decoded key_buf = Some [\<lparr>sk_type = 0, sk_value = Some [0, 0, 1, 0, 0, 0, 0, 0, 0, 8, 0, 0], sk_valueLen = 4\<rparr>,
     \<lparr>sk_type = 5, sk_value = Some [0, 0, 0, 0, 0, 8, 0, 0], sk_valueLen = 4\<rparr>,
     \<lparr>sk_type = 30, sk_value = Some [0, 8, 0, 0], sk_valueLen = 4\<rparr>]"
  "decoded other_buf = Some [\<lparr>sk_type = 0, sk_value = Some [0, 0, 1, 0, 0, 0, 0, 0, 0, 4, 0, 0], sk_valueLen = 4\<rparr>,
     \<lparr>sk_type = 5, sk_value = Some [0, 0, 0, 0, 0, 4, 0, 0], sk_valueLen = 4\<rparr>,
     \<lparr>sk_type = 30, sk_value = Some [0, 4, 0, 0], sk_valueLen = 4\<rparr>]"
  by (simp_all add: decoded_def unpack_key unpack_other resolve_key) (simp add: key_ts_def resolve_def other_buf_def key_buf_def)

lemma bits_template: "map (resolve bits_buf) [\<lparr>ta_type = 30, ta_ptr = Some 16, ta_len = 4\<rparr>] =
  [\<lparr>sk_type = 30, sk_value = Some [0, 4, 0, 0], sk_valueLen = 4\<rparr>]"
  by (simp add: resolve_def bits_buf_def)

lemma two_keys_objects: "st_objects (sample_view two_keys_tee) =
  [[0, 0, 0, 0] \<mapsto> data_object key_buf, [1, 0, 0, 0] \<mapsto> data_object other_buf, db_obj_id \<mapsto> data_object [2, 0, 0, 0]]"
  by (simp add: two_keys_tee_def sample_view_def db_obj_id_def fun_upd_twist)

lemma find_bits: "map_option fst (TA_FindObjects sample_api 0x265 (find_params bits_buf True (replicate 8 0xEE) True 0 0) two_keys_tee) = Some TEE_SUCCESS"
  by code_simp

theorem find_objects_spec_witness:
  "\<exists>s'. TA_FindObjects sample_api 0x265 (find_params bits_buf True (replicate 8 0xEE) True 0 0) two_keys_tee =
     Some (TEE_SUCCESS, find_params bits_buf True [1, 0, 0, 0, 0xEE, 0xEE, 0xEE, 0xEE] True 1 0, s')"
proof -
  let ?v = "sample_view two_keys_tee" and ?a = "\<lparr>sk_type = 30, sk_value = Some [0, 4, 0, 0], sk_valueLen = 4\<rparr> :: SK_ATTRIBUTE"
  have "\<forall>i \<in> dom (st_objects ?v). searchable ?v [?a] i"
    unfolding two_keys_objects searchable_def
    by (auto simp: data_object_def two_keys_decoded comparable_def value_readable_def read_bytes_def db_obj_id_def get_obj_db_id_size_def
        key_buf_def [THEN arg_cong [where f = length]] other_buf_def [THEN arg_cong [where f = length]])
  moreover have w: "{i \<in> dom (st_objects ?v). wanted ?v [?a] i} = {[1, 0, 0, 0]}"
    unfolding two_keys_objects wanted_def matches_def
    by (auto simp: data_object_def two_keys_decoded has_attr_def value_bytes_def db_obj_id_def split: if_splits)
  ultimately obtain rc ps' s' where r: "TA_FindObjects sample_api 0x265 (find_params bits_buf True (replicate 8 0xEE) True 0 0) two_keys_tee = Some (rc, ps', s')"
    and ids: "rc = TEE_SUCCESS \<longrightarrow> (\<exists>ids. distinct ids \<and> set ids \<subseteq> {[1, 0, 0, 0]} \<and> length ids = 1 \<and>
      ps' = find_params bits_buf True (filled (replicate 8 0xEE) 0 ids) True (of_nat (length ids)) 0)"
    using find_objects_spec [OF sample_trusted unpack_bits, of "replicate 8 0xEE" two_keys_tee True 0 0] unfolding bits_template w by fastforce
  have "rc = TEE_SUCCESS" using find_bits r by simp
  with ids obtain i where "set [i] \<subseteq> {[1, 0, 0, 0]}" "ps' = find_params bits_buf True (filled (replicate 8 0xEE) 0 [i]) True 1 0"
    by (auto simp: length_Suc_conv)
  then have "ps' = find_params bits_buf True [1, 0, 0, 0, 0xEE, 0xEE, 0xEE, 0xEE] True 1 0"
    by (simp add: filled_def numeral_eq_Suc)
  with r \<open>rc = TEE_SUCCESS\<close> show ?thesis by blast
qed

text \<open>
  a search with room for no handle. The loop stores the first handle before it looks at the
  capacity, so with an output buffer of less than four bytes a search without template succeeds only
  if there is no object at all; with an object in the storage it writes past the buffer.
\<close>

theorem find_objects_no_room:
  assumes "trusted_storage A view" and "ta_unpack_sk_attrs True al buf = Some (TEE_SUCCESS, [])" and "length out < 4"
    and "TA_FindObjects A 0x265 (find_params buf al out al' a b) s = Some (TEE_SUCCESS, ps', s')"
  shows "\<forall>i \<in> dom (st_objects (view s)). length i \<noteq> 4"
proof -
  obtain rc1 us s1 where 1: "unpack_attrs A al buf s = Some (rc1, us, s1)" using unpack_attrs_total [of A al buf s] by blast
  note v1 = unpack_attrs_spec [OF assms(1) 1]
  have "rc1 = TEE_SUCCESS"
    by (rule ccontr) (use assms(4) 1 in \<open>simp add: TA_FindObjects_def TEE_PARAM_TYPES_def find_params_def param_def memref_bytes_def\<close>)
  then have us: "us = []" using v1(3) assms(2) by auto
  have m: "length out div 4 = 0" using assms(3) by simp
  from assms(4) 1 us \<open>rc1 = TEE_SUCCESS\<close> obtain r where "TA_FindAllObjects A out 0 s1 = Some (TEE_SUCCESS, r)"
    by (auto simp: TA_FindObjects_def TEE_PARAM_TYPES_def find_params_def param_def memref_bytes_def m Let_def split: bind_splits if_splits)
  from find_without_room [OF assms(1,3) this] v1(1) show ?thesis by simp
qed

lemma find_started:
  "\<exists>ps' s'. TA_FindObjects sample_api 0x265 (find_params [0, 0, 0, 0] True [0xEE] True 0 0) started_tee = Some (TEE_SUCCESS, ps', s')"
proof -
  have u: "unpack_attrs sample_api True [0, 0, 0, 0] s = Some (TEE_SUCCESS, [], s)" for s
    by (simp add: unpack_attrs_def no_template) (simp add: ta_unpack_sk_attrs_def peek_u32_def slice_def get_u32_bytes)
  have l: "\<exists>s'. find_all_loop sample_api 1 0 [0xEE] 0 idb (started_tee\<lparr>t_enums := [(1, [db_obj_id])], t_next := 2\<rparr>) =
      Some (TEE_ERROR_ITEM_NOT_FOUND, [0xEE], 0, s')" for idb
    by (subst find_all_loop.simps, simp add: sample_next_def db_obj_id_def, subst find_all_loop.simps, simp add: sample_next_def)
  have e: "new_handle (\<lambda>e s. s\<lparr>t_enums := (e, []) # t_enums s\<rparr>) started_tee = (TEE_SUCCESS, 1, started_tee\<lparr>t_enums := [(1, [])], t_next := 2\<rparr>)"
    "sample_start 1 (started_tee\<lparr>t_enums := [(1, [])], t_next := 2\<rparr>) = (TEE_SUCCESS, started_tee\<lparr>t_enums := [(1, [db_obj_id])], t_next := 2\<rparr>)"
    by (simp_all add: new_handle_def sample_start_def started_tee_def empty_tee_def)
  have "\<exists>q s'. TA_FindAllObjects sample_api [0xEE] 0 started_tee = Some (TEE_SUCCESS, q, s')"
    using l [of "replicate 64 0"] by (auto simp: TA_FindAllObjects_def with_enumerator_def e)
  then show ?thesis
    by (auto simp: TA_FindObjects_def TEE_PARAM_TYPES_def find_params_def param_def memref_bytes_def u Let_def set_value_a_def)
qed

theorem find_objects_no_room_witness:
  "(\<exists>ps' s'. TA_FindObjects sample_api 0x265 (find_params [0, 0, 0, 0] True [0xEE] True 0 0) started_tee = Some (TEE_SUCCESS, ps', s')) \<and>
   {i \<in> dom (st_objects (sample_view started_tee)). length i = 4} = {} \<and>
   (\<nexists>ps' s'. TA_FindObjects sample_api 0x265 (find_params [0, 0, 0, 0] True [0xEE] True 0 0) created_tee = Some (TEE_SUCCESS, ps', s'))"
proof -
  note t = find_objects_no_room [OF sample_trusted no_template, of "[0xEE]"]
  have "\<not> (\<forall>i \<in> dom (st_objects (sample_view created_tee)). length i \<noteq> 4)" by (simp add: created_tee_def)
  with t find_started show ?thesis by fastforce
qed

definition crypto_commands :: "u32 set" where
  "crypto_commands = {TEE_SIGN_DIGEST, TEE_DECRYPT_DATA, TEE_DIGEST_DATA}"

lemma key_operation_params:
  "key_operation A alg md run types ps s = Some (rc, ps', s') \<Longrightarrow> \<exists>q. ps' = ps \<or> ps' = ps[2 := q]"
  by (auto simp: key_operation_def split: bind_splits if_splits option.splits prod.splits)

lemma TA_DigestData_params: "TA_DigestData A types ps s = Some (rc, ps', s') \<Longrightarrow> \<exists>q. ps' = ps \<or> ps' = ps[2 := q]"
  by (auto simp: TA_DigestData_def split: bind_splits if_splits option.splits prod.splits)

text \<open>
  C31: the cryptographic commands leave no trace. Whatever \<open>TEE_SIGN_DIGEST\<close>, \<open>TEE_DECRYPT_DATA\<close> and
  \<open>TEE_DIGEST_DATA\<close> return, the objects, all handles, transient copies of keys, operations and heap
  blocks are as before, and at most the output parameter has changed.
\<close>

theorem crypto_commands_leave_no_trace:
  assumes "trusted_storage A view" and "cmd \<in> crypto_commands" and "TA_InvokeCommandEntryPoint A cmd types ps s = Some (rc, ps', s')"
  shows "view s' = view s \<and> (\<exists>q. ps' = ps \<or> ps' = ps[2 := q])"
proof -
  note T = assms(1)
  from assms(2) consider "cmd = TEE_SIGN_DIGEST" | "cmd = TEE_DECRYPT_DATA" | "cmd = TEE_DIGEST_DATA" by (auto simp: crypto_commands_def)
  then show ?thesis
  proof cases
    case 1
    with assms(3) have c: "key_operation A sign_algorithm TEE_MODE_SIGN (TEE_AsymmetricSignDigest_fn A) types ps s = Some (rc, ps', s')"
      by (simp add: TA_InvokeCommandEntryPoint_def TA_SignDigest_def)
    from key_operation_view [OF T c] storage_silent(7) [OF T] key_operation_params [OF c] show ?thesis by blast
  next
    case 2
    with assms(3) have c: "key_operation A decrypt_algorithm TEE_MODE_DECRYPT (TEE_AsymmetricDecrypt_fn A) types ps s = Some (rc, ps', s')"
      by (simp add: TA_InvokeCommandEntryPoint_def TA_DecryptData_def)
    from key_operation_view [OF T c] storage_silent(8) [OF T] key_operation_params [OF c] show ?thesis by blast
  next
    case 3
    with assms(3) have c: "TA_DigestData A types ps s = Some (rc, ps', s')" by (simp add: TA_InvokeCommandEntryPoint_def)
    from TA_DigestData_view [OF T c] TA_DigestData_params [OF c] show ?thesis by blast
  qed
qed

definition sign_params :: "byte list \<Rightarrow> TEE_Params" where
  "sign_params out = [ValueP 0 SKM_RSASSA_PKCS1_V1_5_SHA1, MemrefP (Some [7, 8, 9]) 3 True, MemrefP (Some out) (length out) True, NoneP]"

lemma sign_sample: "\<exists>s'. TA_InvokeCommandEntryPoint sample_api TEE_SIGN_DIGEST 0x651 (sign_params [0, 0, 0, 0]) created_tee =
  Some (TEE_SUCCESS, (sign_params [0, 0, 0, 0])[2 := MemrefP (Some [7, 8, 9, 0]) 3 True], s')"
  by (simp add: TA_InvokeCommandEntryPoint_def TA_SignDigest_def key_operation_def TEE_PARAM_TYPES_def sign_params_def param_def value_a_def
      value_b_def memref_def memref_bytes_def put_u32_bytes sample_defs created_tee_def empty_tee_def info_of_def data_object_def
      sign_algorithm_def put_output_def set_memref_def set_memref_size_def)

theorem crypto_commands_leave_no_trace_witness:
  "\<exists>ps' s'. TA_InvokeCommandEntryPoint sample_api TEE_SIGN_DIGEST 0x651 (sign_params [0, 0, 0, 0]) created_tee = Some (TEE_SUCCESS, ps', s') \<and>
    sample_view s' = sample_view created_tee"
proof -
  obtain s' where s': "TA_InvokeCommandEntryPoint sample_api TEE_SIGN_DIGEST 0x651 (sign_params [0, 0, 0, 0]) created_tee =
    Some (TEE_SUCCESS, (sign_params [0, 0, 0, 0])[2 := MemrefP (Some [7, 8, 9, 0]) 3 True], s')" using sign_sample by blast
  from crypto_commands_leave_no_trace [OF sample_trusted _ s'] s' show ?thesis by (auto simp: crypto_commands_def)
qed

lemma refusals:
  "types \<noteq> TEE_PARAM_TYPES TEE_PARAM_TYPE_MEMREF_INPUT TEE_PARAM_TYPE_VALUE_OUTPUT 0 0 \<Longrightarrow>
   TA_CreateObject A types ps s = Some (TEE_ERROR_BAD_PARAMETERS, ps, s)"
  "types \<noteq> TEE_PARAM_TYPES TEE_PARAM_TYPE_MEMREF_INPUT TEE_PARAM_TYPE_MEMREF_OUTPUT TEE_PARAM_TYPE_VALUE_OUTPUT 0 \<Longrightarrow>
   TA_FindObjects A types ps s = Some (TEE_ERROR_BAD_PARAMETERS, ps, s)"
  "types \<noteq> TEE_PARAM_TYPES TEE_PARAM_TYPE_VALUE_INPUT TEE_PARAM_TYPE_MEMREF_INOUT 0 0 \<Longrightarrow>
   TA_GetObjectAttributes A types ps s = Some (TEE_ERROR_BAD_PARAMETERS, ps, s)"
  "types \<noteq> TEE_PARAM_TYPES TEE_PARAM_TYPE_VALUE_INPUT 0 0 0 \<Longrightarrow> TA_EraseObject A types ps s = Some (TEE_ERROR_BAD_PARAMETERS, ps, s)"
  "types \<noteq> TEE_PARAM_TYPES TEE_PARAM_TYPE_VALUE_INPUT TEE_PARAM_TYPE_MEMREF_INPUT TEE_PARAM_TYPE_MEMREF_OUTPUT 0 \<Longrightarrow>
   TA_DigestData A types ps s = Some (TEE_ERROR_BAD_PARAMETERS, ps, s)"
  "types \<noteq> TEE_PARAM_TYPES TEE_PARAM_TYPE_VALUE_INPUT TEE_PARAM_TYPE_MEMREF_INPUT TEE_PARAM_TYPE_MEMREF_OUTPUT 0 \<Longrightarrow>
   TA_SignDigest A types ps s = Some (TEE_ERROR_BAD_PARAMETERS, ps, s)"
  "types \<noteq> TEE_PARAM_TYPES TEE_PARAM_TYPE_VALUE_INPUT TEE_PARAM_TYPE_MEMREF_INPUT TEE_PARAM_TYPE_MEMREF_OUTPUT 0 \<Longrightarrow>
   TA_DecryptData A types ps s = Some (TEE_ERROR_BAD_PARAMETERS, ps, s)"
  "types \<noteq> TEE_PARAM_TYPES TEE_PARAM_TYPE_VALUE_INPUT TEE_PARAM_TYPE_MEMREF_INPUT TEE_PARAM_TYPE_VALUE_OUTPUT 0 \<Longrightarrow>
   TA_GenerateKeyPair A types ps s = Some (TEE_ERROR_BAD_PARAMETERS, ps, s)"
  subgoal by (simp add: TA_CreateObject_def)
  subgoal by (simp add: TA_FindObjects_def)
  subgoal by (simp add: TA_GetObjectAttributes_def)
  subgoal by (simp add: TA_EraseObject_def)
  subgoal by (simp add: TA_DigestData_def)
  subgoal by (simp add: TA_SignDigest_def key_operation_def)
  subgoal by (simp add: TA_DecryptData_def key_operation_def)
  subgoal by (simp add: TA_GenerateKeyPair_def)
  done

definition expected_types :: "u32 \<Rightarrow> u32 option" where
  "expected_types cmd =
     (if cmd = TEE_CREATE_OBJECT then Some (TEE_PARAM_TYPES TEE_PARAM_TYPE_MEMREF_INPUT TEE_PARAM_TYPE_VALUE_OUTPUT 0 0)
      else if cmd = TEE_FIND_OBJECTS
      then Some (TEE_PARAM_TYPES TEE_PARAM_TYPE_MEMREF_INPUT TEE_PARAM_TYPE_MEMREF_OUTPUT TEE_PARAM_TYPE_VALUE_OUTPUT 0)
      else if cmd = TEE_GET_OBJ_ATTRIBUTES then Some (TEE_PARAM_TYPES TEE_PARAM_TYPE_VALUE_INPUT TEE_PARAM_TYPE_MEMREF_INOUT 0 0)
      else if cmd = TEE_ERASE_OBJECT then Some (TEE_PARAM_TYPES TEE_PARAM_TYPE_VALUE_INPUT 0 0 0)
      else if cmd \<in> {TEE_SIGN_DIGEST, TEE_DECRYPT_DATA, TEE_DIGEST_DATA}
      then Some (TEE_PARAM_TYPES TEE_PARAM_TYPE_VALUE_INPUT TEE_PARAM_TYPE_MEMREF_INPUT TEE_PARAM_TYPE_MEMREF_OUTPUT 0)
      else if cmd = TEE_GENERATE_KEYPAIR
      then Some (TEE_PARAM_TYPES TEE_PARAM_TYPE_VALUE_INPUT TEE_PARAM_TYPE_MEMREF_INPUT TEE_PARAM_TYPE_VALUE_OUTPUT 0)
      else None)"

text \<open>
  C32: the parameter types a command expects. With any other combination of types, and for unknown
  commands, the application answers \<open>TEE_ERROR_BAD_PARAMETERS\<close> without touching the parameters, the
  storage or the heap.
\<close>

theorem bad_parameters_refused:
  assumes "expected_types cmd \<noteq> Some types"
  shows "TA_InvokeCommandEntryPoint A cmd types ps s = Some (TEE_ERROR_BAD_PARAMETERS, ps, s)"
  using assms unfolding expected_types_def TA_InvokeCommandEntryPoint_def by (auto simp: refusals split: if_splits)

theorem bad_parameters_refused_witness:
  "TA_InvokeCommandEntryPoint sample_api TEE_CREATE_OBJECT 0x21 create_params started_tee = Some (TEE_ERROR_BAD_PARAMETERS, create_params, started_tee)"
  by (rule bad_parameters_refused) (simp add: expected_types_def TEE_PARAM_TYPES_def)

end
