(* ===== verification/Securekey.thy ===== *)
theory Securekey
  imports Sk_Channel
begin

text \<open>
  The Secure Object library of the normal world (\<open>securekey_lib/src/securekey.c\<close>): each call opens a
  context and a session to the trusted application, places its arguments in shared memory, invokes a
  command, copies the results out and releases everything. The GlobalPlatform TEE Client API is a
  parameter: a record of functions on a state \<open>'s\<close>.

  A call returns its result code, its outputs and the state; \<open>None\<close> is an access outside of a buffer
  or through a null pointer.
\<close>

section \<open>The client API\<close>

text \<open>
  A parameter of an operation: nothing, a pair of values, or a whole block of shared memory with its
  flags, its bytes and the size field of the reference.
\<close>

datatype TEEC_Param = TEEC_None | TEEC_Value u32 u32 | TEEC_Whole u32 "byte list" nat

abbreviation (input) TEEC_MEM_INPUT :: u32 where "TEEC_MEM_INPUT \<equiv> 1"
abbreviation (input) TEEC_MEM_OUTPUT :: u32 where "TEEC_MEM_OUTPUT \<equiv> 2"
abbreviation (input) TEEC_NONE :: u32 where "TEEC_NONE \<equiv> 0"
abbreviation (input) TEEC_VALUE_INPUT :: u32 where "TEEC_VALUE_INPUT \<equiv> 1"
abbreviation (input) TEEC_VALUE_OUTPUT :: u32 where "TEEC_VALUE_OUTPUT \<equiv> 2"
abbreviation (input) TEEC_MEMREF_WHOLE :: u32 where "TEEC_MEMREF_WHOLE \<equiv> 0xC"

definition TEEC_PARAM_TYPES :: "u32 \<Rightarrow> u32 \<Rightarrow> u32 \<Rightarrow> u32 \<Rightarrow> u32" where
  "TEEC_PARAM_TYPES p0 p1 p2 p3 = p0 OR push_bit 4 p1 OR push_bit 8 p2 OR push_bit 12 p3"

text \<open>
  Opening a session and invoking a command also report the origin of an error. Allocation returns the
  bytes of the new block. Invocation takes the command, the parameter types and the parameters.
\<close>

record 's teec_api =
  TEEC_InitializeContext_fn :: "'s \<Rightarrow> TEE_Result \<times> 's"
  TEEC_OpenSession_fn :: "'s \<Rightarrow> TEE_Result \<times> u32 \<times> 's"
  TEEC_AllocateSharedMemory_fn :: "nat \<Rightarrow> u32 \<Rightarrow> 's \<Rightarrow> TEE_Result \<times> byte list \<times> 's"
  TEEC_InvokeCommand_fn :: "u32 \<Rightarrow> u32 \<Rightarrow> TEEC_Param list \<Rightarrow> 's \<Rightarrow> (TEE_Result \<times> u32 \<times> TEEC_Param list \<times> 's) option"
  TEEC_ReleaseSharedMemory_fn :: "'s \<Rightarrow> 's"
  TEEC_CloseSession_fn :: "'s \<Rightarrow> 's"
  TEEC_FinalizeContext_fn :: "'s \<Rightarrow> 's"

text \<open>What the code reads of a parameter after the call.\<close>

definition out_value :: "TEEC_Param list \<Rightarrow> nat \<Rightarrow> u32 option" where
  "out_value ps i = (if i < length ps then (case ps ! i of TEEC_Value a b \<Rightarrow> Some a | _ \<Rightarrow> None) else None)"

definition out_memref :: "TEEC_Param list \<Rightarrow> nat \<Rightarrow> (byte list \<times> nat) option" where
  "out_memref ps i = (if i < length ps then (case ps ! i of TEEC_Whole f b n \<Rightarrow> Some (b, n) | _ \<Rightarrow> None) else None)"

section \<open>Error codes\<close>

definition map_teec_err_to_sk :: "TEE_Result \<Rightarrow> u32 \<Rightarrow> SK_RET_CODE" where
  "map_teec_err_to_sk tee_ret err_origin =
     (if err_origin = 1 then SKR_ERR_TEE_API
      else if err_origin = 2 then SKR_ERR_TEE_COMM
      else if tee_ret = 0xFFFF0000 then SKR_ERR_GENERAL_ERROR
      else if tee_ret = 0xFFFF0001 then SKR_ERR_ACCESS_DENIED
      else if tee_ret = 0xFFFF0002 then SKR_ERR_CANCEL
      else if tee_ret = 0xFFFF0003 then SKR_ERR_ACCESS_CONFLICT
      else if tee_ret = 0xFFFF0004 then SKR_ERR_EXCESS_DATA
      else if tee_ret = 0xFFFF0005 then SKR_ERR_BAD_FORMAT
      else if tee_ret = 0xFFFF0006 then SKR_ERR_BAD_PARAMETERS
      else if tee_ret = 0xFFFF0007 then SKR_ERR_BAD_STATE
      else if tee_ret = 0xFFFF0008 then SKR_ERR_ITEM_NOT_FOUND
      else if tee_ret = 0xFFFF0009 then SKR_ERR_NOT_IMPLEMENTED
      else if tee_ret = 0xFFFF000A then SKR_ERR_NOT_SUPPORTED
      else if tee_ret = 0xFFFF000B then SKR_ERR_NO_DATA
      else if tee_ret = 0xFFFF000C then SKR_ERR_OUT_OF_MEMORY
      else if tee_ret = 0xFFFF000D then SKR_ERR_BUSY
      else if tee_ret = 0xFFFF000E then SKR_ERR_COMMUNICATION
      else if tee_ret = 0xFFFF000F then SKR_ERR_SECURITY
      else if tee_ret = 0xFFFF0010 then SKR_ERR_SHORT_BUFFER
      else if tee_ret = 0xFFFF3024 then SKR_ERR_BAD_PARAMETERS
      else SKR_ERR_GENERAL_ERROR)"

section \<open>Context, session and shared memory\<close>

text \<open>
  The frame of every call: context, session, body, and the release of both; \<open>d\<close> is what the
  caller's outputs are when the body is not reached. Likewise for a block of shared memory.
\<close>

definition in_session :: "'s teec_api \<Rightarrow> 'o \<Rightarrow> ('s \<Rightarrow> (SK_RET_CODE \<times> 'o \<times> 's) option) \<Rightarrow> 's \<Rightarrow> (SK_RET_CODE \<times> 'o \<times> 's) option" where
  "in_session T d body s =
     (let (res, s) = TEEC_InitializeContext_fn T s in
      if res \<noteq> TEE_SUCCESS then Some (map_teec_err_to_sk res 0, d, s)
      else
        let (res, err_origin, s) = TEEC_OpenSession_fn T s in
        if res \<noteq> TEE_SUCCESS then Some (map_teec_err_to_sk res err_origin, d, TEEC_FinalizeContext_fn T s)
        else do {
          (ret, out, s) \<leftarrow> body s;
          Some (ret, out, TEEC_FinalizeContext_fn T (TEEC_CloseSession_fn T s)) })"

definition with_shm ::
    "'s teec_api \<Rightarrow> 'o \<Rightarrow> nat \<Rightarrow> u32 \<Rightarrow> (byte list \<Rightarrow> 's \<Rightarrow> (SK_RET_CODE \<times> 'o \<times> 's) option) \<Rightarrow> 's \<Rightarrow> (SK_RET_CODE \<times> 'o \<times> 's) option" where
  "with_shm T d n flags body s =
     (let (res, shm, s) = TEEC_AllocateSharedMemory_fn T n flags s in
      if res \<noteq> TEE_SUCCESS then Some (map_teec_err_to_sk res 0, d, s)
      else do {
        (ret, out, s) \<leftarrow> body shm s;
        Some (ret, out, TEEC_ReleaseSharedMemory_fn T s) })"

text \<open>A block of the size of the attributes, filled by \<open>pack_attrs\<close>.\<close>

definition with_attrs ::
    "'s teec_api \<Rightarrow> 'o \<Rightarrow> SK_ATTRIBUTE list option \<Rightarrow> u32 \<Rightarrow> u32 \<Rightarrow>
     (byte list \<Rightarrow> 's \<Rightarrow> (SK_RET_CODE \<times> 'o \<times> 's) option) \<Rightarrow> 's \<Rightarrow> (SK_RET_CODE \<times> 'o \<times> 's) option" where
  "with_attrs T d attr attrCount flags body s = do {
     n \<leftarrow> get_attr_size attr attrCount;
     with_shm T d n flags (\<lambda>shm s. do {
       (res, shm) \<leftarrow> pack_attrs shm attr attrCount;
       if res \<noteq> SKR_OK then Some (res, d, s) else body shm s }) s }"

text \<open>\<open>TEEC_InvokeCommand\<close> and its error path.\<close>

definition invoke ::
    "'s teec_api \<Rightarrow> 'o \<Rightarrow> u32 \<Rightarrow> u32 \<Rightarrow> TEEC_Param list \<Rightarrow> (TEEC_Param list \<Rightarrow> 's \<Rightarrow> (SK_RET_CODE \<times> 'o \<times> 's) option) \<Rightarrow>
     's \<Rightarrow> (SK_RET_CODE \<times> 'o \<times> 's) option" where
  "invoke T d cmd types ps body s = do {
     (res, err_origin, ps, s) \<leftarrow> TEEC_InvokeCommand_fn T cmd types ps s;
     if res \<noteq> TEE_SUCCESS then Some (map_teec_err_to_sk res err_origin, d, s) else body ps s }"

section \<open>The calls\<close>

text \<open>A pointer to an output is represented by whether it is not null; the output is what was stored.\<close>

definition SK_CreateObject ::
    "'s teec_api \<Rightarrow> SK_ATTRIBUTE list option \<Rightarrow> u16 \<Rightarrow> bool \<Rightarrow> 's \<Rightarrow> (SK_RET_CODE \<times> SK_OBJECT_HANDLE option \<times> 's) option" where
  "SK_CreateObject T attr attrCount phObject s =
     (if attr = None \<or> attrCount = 0 \<or> \<not> phObject then Some (SKR_ERR_BAD_PARAMETERS, None, s)
      else in_session T None (with_attrs T None attr (ucast attrCount) TEEC_MEM_INPUT (\<lambda>shm.
        invoke T None 1 (TEEC_PARAM_TYPES TEEC_MEMREF_WHOLE TEEC_VALUE_OUTPUT TEEC_NONE TEEC_NONE)
          [TEEC_Whole TEEC_MEM_INPUT shm (length shm), TEEC_Value 0 0, TEEC_None, TEEC_None]
          (\<lambda>ps s. do { h \<leftarrow> out_value ps 1; Some (SKR_OK, Some h, s) }))) s)"

definition SK_GenerateKeyPair ::
    "'s teec_api \<Rightarrow> u32 option \<Rightarrow> SK_ATTRIBUTE list option \<Rightarrow> u16 \<Rightarrow> bool \<Rightarrow> 's \<Rightarrow> (SK_RET_CODE \<times> SK_OBJECT_HANDLE option \<times> 's) option" where
  "SK_GenerateKeyPair T pMechanism attr attrCount phKey s =
     (case pMechanism of
        None \<Rightarrow> Some (SKR_ERR_BAD_PARAMETERS, None, s)
      | Some mech \<Rightarrow>
         if attr = None \<or> attrCount = 0 \<or> \<not> phKey then Some (SKR_ERR_BAD_PARAMETERS, None, s)
         else in_session T None (with_attrs T None attr (ucast attrCount) TEEC_MEM_INPUT (\<lambda>shm.
           invoke T None 8 (TEEC_PARAM_TYPES TEEC_VALUE_INPUT TEEC_MEMREF_WHOLE TEEC_VALUE_OUTPUT TEEC_NONE)
             [TEEC_Value mech 0, TEEC_Whole TEEC_MEM_INPUT shm (length shm), TEEC_Value 0 0, TEEC_None]
             (\<lambda>ps s. do { h \<leftarrow> out_value ps 2; Some (SKR_OK, Some h, s) }))) s)"

definition SK_EraseObject :: "'s teec_api \<Rightarrow> SK_OBJECT_HANDLE \<Rightarrow> 's \<Rightarrow> (SK_RET_CODE \<times> unit \<times> 's) option" where
  "SK_EraseObject T hObject s =
     in_session T () (invoke T () 4 (TEEC_PARAM_TYPES TEEC_VALUE_INPUT TEEC_NONE TEEC_NONE TEEC_NONE)
       [TEEC_Value hObject 0, TEEC_None, TEEC_None, TEEC_None] (\<lambda>ps s. Some (SKR_OK, (), s))) s"

text \<open>The handles in a block of shared memory.\<close>

primrec handles_in :: "byte list \<Rightarrow> nat \<Rightarrow> nat \<Rightarrow> SK_OBJECT_HANDLE list option" where
  "handles_in shm off 0 = Some []"
| "handles_in shm off (Suc k) = do { h \<leftarrow> peek_u32 shm off; hs \<leftarrow> handles_in shm (off + 4) k; Some (h # hs) }"

text \<open>
  \<open>phObject\<close> is the caller's array (\<open>None\<close> for a null pointer) and is returned as it was left, with
  the count that was stored.
\<close>

definition SK_EnumerateObjects ::
    "'s teec_api \<Rightarrow> SK_ATTRIBUTE list option \<Rightarrow> u32 \<Rightarrow> SK_OBJECT_HANDLE list option \<Rightarrow> u32 \<Rightarrow> bool \<Rightarrow> 's \<Rightarrow>
     (SK_RET_CODE \<times> (SK_OBJECT_HANDLE list option \<times> u32 option) \<times> 's) option" where
  "SK_EnumerateObjects T pTemplate attrCount phObject maxObjects pulObjectCount s =
     (case phObject of
        None \<Rightarrow> Some (SKR_ERR_BAD_PARAMETERS, (None, None), s)
      | Some arr \<Rightarrow>
         let d = (Some arr, None) in
         if \<not> pulObjectCount then Some (SKR_ERR_BAD_PARAMETERS, d, s)
         else in_session T d (with_attrs T d pTemplate attrCount TEEC_MEM_INPUT (\<lambda>shm_in.
           with_shm T d (4 * unat maxObjects) TEEC_MEM_OUTPUT (\<lambda>shm_out.
             invoke T d 2 (TEEC_PARAM_TYPES TEEC_MEMREF_WHOLE TEEC_MEMREF_WHOLE TEEC_VALUE_OUTPUT TEEC_NONE)
               [TEEC_Whole TEEC_MEM_INPUT shm_in (length shm_in), TEEC_Whole TEEC_MEM_OUTPUT shm_out (length shm_out),
                TEEC_Value 0 0, TEEC_None]
               (\<lambda>ps s. do {
                 n \<leftarrow> out_value ps 2;
                 (shm, m) \<leftarrow> out_memref ps 1;
                 hs \<leftarrow> handles_in shm 0 (unat n);
                 if length arr < length hs then None
                 else Some (SKR_OK, (Some (hs @ drop (length hs) arr), Some n), s) })))) s)"

text \<open>
  \<open>SK_GetObjectAttribute\<close> notes bad arguments in \<open>ret\<close> but goes on; the result of the unpacking is
  not looked at. \<open>aligned\<close> is whether the shared block is aligned to four bytes.
\<close>

definition SK_GetObjectAttribute ::
    "'s teec_api \<Rightarrow> bool \<Rightarrow> SK_OBJECT_HANDLE \<Rightarrow> SK_ATTRIBUTE list option \<Rightarrow> u32 \<Rightarrow> 's \<Rightarrow>
     (SK_RET_CODE \<times> SK_ATTRIBUTE list option \<times> 's) option" where
  "SK_GetObjectAttribute T aligned hObject attribute attrCount s =
     (let ret = (if attribute = None \<or> attrCount = 0 then SKR_ERR_BAD_PARAMETERS else SKR_OK) in
      in_session T attribute (with_attrs T attribute attribute attrCount (TEEC_MEM_INPUT OR TEEC_MEM_OUTPUT) (\<lambda>shm_in.
        invoke T attribute 3 (TEEC_PARAM_TYPES TEEC_VALUE_INPUT TEEC_MEMREF_WHOLE TEEC_NONE TEEC_NONE)
          [TEEC_Value hObject 0, TEEC_Whole (TEEC_MEM_INPUT OR TEEC_MEM_OUTPUT) shm_in (length shm_in), TEEC_None, TEEC_None]
          (\<lambda>ps s. do {
            (shm, m) \<leftarrow> out_memref ps 1;
            (res, attrs) \<leftarrow> unpack_sk_attrs aligned shm (case attribute of None \<Rightarrow> [] | Some as \<Rightarrow> as);
            Some (ret, map_option (\<lambda>_. attrs) attribute, s) }))) s)"

text \<open>
  \<open>SK_Sign\<close>, \<open>SK_Decrypt\<close> and \<open>SK_Digest\<close> differ in the command and in the values of the first
  parameter. The output length is 16 bits wide; it is truncated from the size the command reports.
\<close>

definition crypt ::
    "'s teec_api \<Rightarrow> u32 \<Rightarrow> (u32 \<Rightarrow> TEEC_Param) \<Rightarrow> u32 option \<Rightarrow> buffer \<Rightarrow> u16 \<Rightarrow> buffer \<Rightarrow> u16 \<Rightarrow> 's \<Rightarrow>
     (SK_RET_CODE \<times> (buffer \<times> u16) \<times> 's) option" where
  "crypt T cmd p0 pMechanismType inData inDataLen outData outDataLen s =
     (case pMechanismType of
        None \<Rightarrow> Some (SKR_ERR_BAD_PARAMETERS, (outData, outDataLen), s)
      | Some mech \<Rightarrow>
         let d = (outData, outDataLen) in
         if inData = None \<or> inDataLen = 0 \<or> outData = None \<and> outDataLen \<noteq> 0
         then Some (SKR_ERR_BAD_PARAMETERS, d, s)
         else in_session T d (with_shm T d (unat inDataLen) TEEC_MEM_INPUT (\<lambda>shm_in s. do {
           v \<leftarrow> read_bytes inData (unat inDataLen);
           shm_in \<leftarrow> poke shm_in 0 v;
           with_shm T d (unat outDataLen) TEEC_MEM_OUTPUT (\<lambda>shm_out.
             invoke T d cmd (TEEC_PARAM_TYPES TEEC_VALUE_INPUT TEEC_MEMREF_WHOLE TEEC_MEMREF_WHOLE TEEC_NONE)
               [p0 mech, TEEC_Whole TEEC_MEM_INPUT shm_in (length shm_in), TEEC_Whole TEEC_MEM_OUTPUT shm_out (length shm_out), TEEC_None]
               (\<lambda>ps s. do {
                 (shm, m) \<leftarrow> out_memref ps 2;
                 let n = of_nat m;
                 if outData = None then Some (SKR_OK, (None, n), s)
                 else do {
                   r \<leftarrow> read_bytes (Some shm) (unat n);
                   out \<leftarrow> write_bytes outData r;
                   Some (SKR_OK, (out, n), s) } })) s })) s)"

definition SK_Sign ::
    "'s teec_api \<Rightarrow> u32 option \<Rightarrow> SK_OBJECT_HANDLE \<Rightarrow> buffer \<Rightarrow> u16 \<Rightarrow> buffer \<Rightarrow> u16 \<Rightarrow> 's \<Rightarrow> (SK_RET_CODE \<times> (buffer \<times> u16) \<times> 's) option" where
  "SK_Sign T pMechanismType hObject = crypt T 5 (\<lambda>mech. TEEC_Value hObject mech) pMechanismType"

definition SK_Decrypt ::
    "'s teec_api \<Rightarrow> u32 option \<Rightarrow> SK_OBJECT_HANDLE \<Rightarrow> buffer \<Rightarrow> u16 \<Rightarrow> buffer \<Rightarrow> u16 \<Rightarrow> 's \<Rightarrow> (SK_RET_CODE \<times> (buffer \<times> u16) \<times> 's) option" where
  "SK_Decrypt T pMechanismType hObject = crypt T 6 (\<lambda>mech. TEEC_Value hObject mech) pMechanismType"

definition SK_Digest ::
    "'s teec_api \<Rightarrow> u32 option \<Rightarrow> buffer \<Rightarrow> u16 \<Rightarrow> buffer \<Rightarrow> u16 \<Rightarrow> 's \<Rightarrow> (SK_RET_CODE \<times> (buffer \<times> u16) \<times> 's) option" where
  "SK_Digest T pMechanismType = crypt T 7 (\<lambda>mech. TEEC_Value mech 0) pMechanismType"

text \<open>
  \<open>SK_GetFunctionList\<close>: the table the PKCS\#11 library calls, with its own conventions (an empty
  template is a null pointer, an array of the given capacity, a mechanism that is present).
\<close>

definition SK_GetFunctionList :: "'s teec_api \<Rightarrow> bool \<Rightarrow> 's SK_FUNCTION_LIST" where
  "SK_GetFunctionList T aligned = \<lparr>
     SK_EnumerateObjects_fn = (\<lambda>as n s. do {
       (ret, (arr, cnt), s) \<leftarrow> SK_EnumerateObjects T (if as = [] then None else Some as) (of_nat (length as))
         (Some (replicate n 0)) (of_nat n) True s;
       Some (ret, (case (arr, cnt) of (Some hs, Some k) \<Rightarrow> take (unat k) hs | _ \<Rightarrow> []), s) }),
     SK_GetObjectAttribute_fn = (\<lambda>h as s. do {
       (ret, as', s) \<leftarrow> SK_GetObjectAttribute T aligned h (Some as) (of_nat (length as)) s;
       Some (ret, (case as' of None \<Rightarrow> as | Some bs \<Rightarrow> bs), s) }),
     SK_Sign_fn = (\<lambda>m h i out n s. do {
       (ret, (out', n'), s) \<leftarrow> SK_Sign T (Some m) h (Some i) (of_nat (length i)) out n s; Some (ret, out', n', s) }),
     SK_Decrypt_fn = (\<lambda>m h i out n s. do {
       (ret, (out', n'), s) \<leftarrow> SK_Decrypt T (Some m) h (Some i) (of_nat (length i)) out n s; Some (ret, out', n', s) }),
     SK_Digest_fn = (\<lambda>m i out n s. do {
       (ret, (out', n'), s) \<leftarrow> SK_Digest T (Some m) (Some i) (of_nat (length i)) out n s; Some (ret, out', n', s) })\<rparr>"

end
