(* ===== verification/Sk_Client.thy ===== *)
theory Sk_Client
  imports Securekey
begin

text \<open>
  What every call of the client library has in common: it gives back what it acquires, and it reports
  success only after the trusted application served its command. Both are shown for the frames the
  calls are built from (\<open>in_session\<close>, \<open>with_shm\<close>, \<open>with_attrs\<close>, \<open>invoke\<close>), and follow for the calls.
\<close>

section \<open>Error codes\<close>

lemma map_teec_err_not_ok [simp]: "map_teec_err_to_sk r e \<noteq> SKR_OK"
  by (simp add: map_teec_err_to_sk_def)

section \<open>Resources\<close>

datatype client_resource = Ctx | Sess | Shm

definition client_contract :: "'s teec_api \<Rightarrow> ('s \<Rightarrow> client_resource list) \<Rightarrow> bool" where
  "client_contract T live \<longleftrightarrow>
     (\<forall>s r s'. TEEC_InitializeContext_fn T s = (r, s') \<longrightarrow> live s' = (if r = TEE_SUCCESS then [Ctx] else []) @ live s) \<and>
     (\<forall>s r e s'. TEEC_OpenSession_fn T s = (r, e, s') \<longrightarrow> live s' = (if r = TEE_SUCCESS then [Sess] else []) @ live s) \<and>
     (\<forall>n f s r b s'. TEEC_AllocateSharedMemory_fn T n f s = (r, b, s') \<longrightarrow> live s' = (if r = TEE_SUCCESS then [Shm] else []) @ live s) \<and>
     (\<forall>c ty ps s r e ps' s'. TEEC_InvokeCommand_fn T c ty ps s = Some (r, e, ps', s') \<longrightarrow> live s' = live s) \<and>
     (\<forall>s l. live s = Shm # l \<longrightarrow> live (TEEC_ReleaseSharedMemory_fn T s) = l) \<and>
     (\<forall>s l. live s = Sess # l \<longrightarrow> live (TEEC_CloseSession_fn T s) = l) \<and>
     (\<forall>s l. live s = Ctx # l \<longrightarrow> live (TEEC_FinalizeContext_fn T s) = l)"

lemma client_contractD:
  assumes "client_contract T live"
  shows "TEEC_InitializeContext_fn T s = (r, s') \<Longrightarrow> live s' = (if r = TEE_SUCCESS then [Ctx] else []) @ live s"
    "TEEC_OpenSession_fn T s = (r, e, s') \<Longrightarrow> live s' = (if r = TEE_SUCCESS then [Sess] else []) @ live s"
    "TEEC_AllocateSharedMemory_fn T n f s = (r, b, s') \<Longrightarrow> live s' = (if r = TEE_SUCCESS then [Shm] else []) @ live s"
    "TEEC_InvokeCommand_fn T c ty ps s = Some (r, e, ps', s') \<Longrightarrow> live s' = live s"
    "live s = Shm # l \<Longrightarrow> live (TEEC_ReleaseSharedMemory_fn T s) = l"
    "live s = Sess # l \<Longrightarrow> live (TEEC_CloseSession_fn T s) = l"
    "live s = Ctx # l \<Longrightarrow> live (TEEC_FinalizeContext_fn T s) = l"
proof -
  note c = assms [unfolded client_contract_def]
  note c2 = c [THEN conjunct2] and c3 = c [THEN conjunct2, THEN conjunct2] and c4 = c [THEN conjunct2, THEN conjunct2, THEN conjunct2]
  note c5 = c4 [THEN conjunct2] and c6 = c4 [THEN conjunct2, THEN conjunct2]
  show "TEEC_InitializeContext_fn T s = (r, s') \<Longrightarrow> live s' = (if r = TEE_SUCCESS then [Ctx] else []) @ live s"
    by (rule c [THEN conjunct1, rule_format])
  show "TEEC_OpenSession_fn T s = (r, e, s') \<Longrightarrow> live s' = (if r = TEE_SUCCESS then [Sess] else []) @ live s"
    by (rule c2 [THEN conjunct1, rule_format])
  show "TEEC_AllocateSharedMemory_fn T n f s = (r, b, s') \<Longrightarrow> live s' = (if r = TEE_SUCCESS then [Shm] else []) @ live s"
    by (rule c3 [THEN conjunct1, rule_format])
  show "TEEC_InvokeCommand_fn T c ty ps s = Some (r, e, ps', s') \<Longrightarrow> live s' = live s" by (rule c4 [THEN conjunct1, rule_format])
  show "live s = Shm # l \<Longrightarrow> live (TEEC_ReleaseSharedMemory_fn T s) = l" by (rule c5 [THEN conjunct1, rule_format])
  show "live s = Sess # l \<Longrightarrow> live (TEEC_CloseSession_fn T s) = l" by (rule c6 [THEN conjunct1, rule_format])
  show "live s = Ctx # l \<Longrightarrow> live (TEEC_FinalizeContext_fn T s) = l" by (rule c6 [THEN conjunct2, rule_format])
qed

text \<open>A step that gives back whatever it acquires.\<close>

definition balanced :: "('s \<Rightarrow> client_resource list) \<Rightarrow> ('s \<Rightarrow> (SK_RET_CODE \<times> 'o \<times> 's) option) \<Rightarrow> bool" where
  "balanced live f \<longleftrightarrow> (\<forall>s r out s'. f s = Some (r, out, s') \<longrightarrow> live s' = live s)"

lemma balanced_const [simp]: "balanced live (\<lambda>s. Some (r, out, s))"
  by (simp add: balanced_def)

lemma balanced_bind: "(\<And>x. balanced live (f x)) \<Longrightarrow> balanced live (\<lambda>s. do { x \<leftarrow> m; f x s })"
  by (auto simp: balanced_def split: bind_splits)

lemma balanced_in_session:
  assumes "client_contract T live" and "balanced live body"
  shows "balanced live (in_session T d body)"
proof -
  note C = client_contractD [OF assms(1)]
  have "live s' = live s" if f: "in_session T d body s = Some (r, out, s')" for s r out s'
  proof -
    obtain r1 s1 where 1: "TEEC_InitializeContext_fn T s = (r1, s1)" by (metis surj_pair)
    obtain r2 e s2 where 2: "TEEC_OpenSession_fn T s1 = (r2, e, s2)" by (metis prod_cases3)
    show ?thesis
    proof (cases "r1 = TEE_SUCCESS \<and> r2 = TEE_SUCCESS")
      case True
      with f 1 2 obtain r3 o3 s3 where 3: "body s2 = Some (r3, o3, s3)" "s' = TEEC_FinalizeContext_fn T (TEEC_CloseSession_fn T s3)"
        by (auto simp: in_session_def split: bind_splits)
      then have "live s3 = Sess # Ctx # live s" using assms(2) C(1) [OF 1] C(2) [OF 2] True by (auto simp: balanced_def)
      with 3(2) C(6) C(7) show ?thesis by metis
    next
      case False
      with f 1 2 C(1) [OF 1] C(2) [OF 2] C(7) show ?thesis by (auto simp: in_session_def split: if_splits)
    qed
  qed
  then show ?thesis by (auto simp: balanced_def)
qed

lemma balanced_with_shm:
  assumes "client_contract T live" and "\<And>shm. balanced live (body shm)"
  shows "balanced live (with_shm T d n fl body)"
proof -
  note C = client_contractD [OF assms(1)]
  have "live s' = live s" if f: "with_shm T d n fl body s = Some (r, out, s')" for s r out s'
  proof -
    obtain r1 b s1 where 1: "TEEC_AllocateSharedMemory_fn T n fl s = (r1, b, s1)" by (metis prod_cases3)
    show ?thesis
    proof (cases "r1 = TEE_SUCCESS")
      case True
      with f 1 obtain r3 o3 s3 where 3: "body b s1 = Some (r3, o3, s3)" "s' = TEEC_ReleaseSharedMemory_fn T s3"
        by (auto simp: with_shm_def split: bind_splits)
      then have "live s3 = Shm # live s" using assms(2) C(3) [OF 1] True by (auto simp: balanced_def)
      with 3(2) C(5) show ?thesis by metis
    next
      case False
      with f 1 C(3) [OF 1] show ?thesis by (auto simp: with_shm_def)
    qed
  qed
  then show ?thesis by (auto simp: balanced_def)
qed

lemma balanced_invoke:
  assumes "client_contract T live" and "\<And>ps. balanced live (body ps)"
  shows "balanced live (invoke T d c ty ps body)"
  using client_contractD(4) [OF assms(1)] assms(2) by (fastforce simp: balanced_def invoke_def split: bind_splits if_splits)

lemma balanced_with_attrs:
  assumes "client_contract T live" and "\<And>shm. balanced live (body shm)"
  shows "balanced live (with_attrs T d as n fl body)"
proof -
  have "balanced live (\<lambda>s. do { (res, shm) \<leftarrow> pack_attrs shm as n; if res \<noteq> SKR_OK then Some (res, d, s) else body shm s })" for shm
    using assms(2) unfolding balanced_def by (auto split: bind_splits if_splits)
  note k = this
  show ?thesis unfolding with_attrs_def
    by (rule balanced_bind, rule balanced_with_shm [OF assms(1) k])
qed

lemma balanced_if: "balanced live f \<Longrightarrow> balanced live g \<Longrightarrow> balanced live (\<lambda>s. if P then f s else g s)"
  by (cases P) simp_all

lemma balanced_return: "(\<And>s r out s'. f s = Some (r, out, s') \<Longrightarrow> s' = s) \<Longrightarrow> balanced live f"
  unfolding balanced_def by metis

lemmas balanced_rules = balanced_in_session balanced_with_attrs balanced_with_shm balanced_invoke

section \<open>Success\<close>

text \<open>Whether a step can only report success after the command was served.\<close>

definition needs_service :: "'s teec_api \<Rightarrow> u32 \<Rightarrow> ('s \<Rightarrow> (SK_RET_CODE \<times> 'o \<times> 's) option) \<Rightarrow> bool" where
  "needs_service T cmd f \<longleftrightarrow> (\<forall>s out s'. f s = Some (SKR_OK, out, s') \<longrightarrow>
     (\<exists>ty ps s1 e ps' s2. TEEC_InvokeCommand_fn T cmd ty ps s1 = Some (TEE_SUCCESS, e, ps', s2)))"

lemma needs_serviceI:
  assumes "\<And>s out s'. f s = Some (SKR_OK, out, s') \<Longrightarrow> \<exists>x out s1 s2. g x s1 = Some (SKR_OK, out, s2)" and "\<And>x. needs_service T cmd (g x)"
  shows "needs_service T cmd f"
  unfolding needs_service_def
proof (intro allI impI)
  fix s out s' assume "f s = Some (SKR_OK, out, s')"
  from assms(1) [OF this] obtain x out s1 s2 where "g x s1 = Some (SKR_OK, out, s2)" by blast
  with assms(2) [of x] show "\<exists>ty ps s1 e ps' s2. TEEC_InvokeCommand_fn T cmd ty ps s1 = Some (TEE_SUCCESS, e, ps', s2)"
    unfolding needs_service_def by blast
qed

lemma needs_service_bind: "(\<And>x. needs_service T cmd (f x)) \<Longrightarrow> needs_service T cmd (\<lambda>s. do { x \<leftarrow> m; f x s })"
  by (rule needs_serviceI [of _ f]) (auto split: bind_splits)

lemma needs_service_in_session: "needs_service T cmd body \<Longrightarrow> needs_service T cmd (in_session T d body)"
  by (rule needs_serviceI [of _ "\<lambda>(_ :: unit). body"])
    (auto simp: in_session_def split: bind_splits if_splits prod.splits)

lemma needs_service_with_shm: "(\<And>shm. needs_service T cmd (body shm)) \<Longrightarrow> needs_service T cmd (with_shm T d n fl body)"
  by (rule needs_serviceI [of _ body]) (auto simp: with_shm_def split: bind_splits if_splits prod.splits)

lemma needs_service_invoke: "needs_service T cmd (invoke T d cmd ty ps body)"
  unfolding needs_service_def
proof (intro allI impI)
  fix s out s' assume i: "invoke T d cmd ty ps body s = Some (SKR_OK, out, s')"
  then obtain r e ps' s2 where r: "TEEC_InvokeCommand_fn T cmd ty ps s = Some (r, e, ps', s2)"
    by (cases "TEEC_InvokeCommand_fn T cmd ty ps s") (auto simp: invoke_def)
  moreover have "r = TEE_SUCCESS" by (rule ccontr) (use i r in \<open>simp add: invoke_def\<close>)
  ultimately show "\<exists>ty ps s1 e ps' s2. TEEC_InvokeCommand_fn T cmd ty ps s1 = Some (TEE_SUCCESS, e, ps', s2)" by blast
qed

lemma needs_service_with_attrs:
  assumes "\<And>shm. needs_service T cmd (body shm)"
  shows "needs_service T cmd (with_attrs T d as n fl body)"
proof -
  have "needs_service T cmd (\<lambda>s. do { (res, shm) \<leftarrow> pack_attrs shm as n; if res \<noteq> SKR_OK then Some (res, d, s) else body shm s })" for shm
    by (rule needs_serviceI [of _ body]) (use assms in \<open>auto split: bind_splits if_splits, blast\<close>)
  from needs_service_with_shm [of T cmd "\<lambda>shm s. do { (res, shm) \<leftarrow> pack_attrs shm as n; if res \<noteq> SKR_OK then Some (res, d, s) else body shm s }", OF this]
  have "needs_service T cmd (with_shm T d k fl (\<lambda>shm s. do { (res, shm) \<leftarrow> pack_attrs shm as n; if res \<noteq> SKR_OK then Some (res, d, s) else body shm s }))" for k .
  then show ?thesis unfolding with_attrs_def by (rule needs_service_bind)
qed

lemmas needs_service_rules = needs_service_in_session needs_service_with_attrs needs_service_with_shm needs_service_invoke


section \<open>Properties of the client\<close>

text \<open>
  C35: no call of the client library leaks. Over a client API in which contexts, sessions and shared
  blocks are live from their successful creation to their release, every exported call that returns,
  with whatever result and on whatever path, has released exactly what it acquired, in the opposite
  order.
\<close>

theorem sk_calls_balanced:
  assumes "client_contract T live"
  shows "balanced live (SK_CreateObject T attr n16 ph) \<and> balanced live (SK_GenerateKeyPair T mech attr n16 ph) \<and>
    balanced live (SK_EraseObject T h) \<and> balanced live (SK_EnumerateObjects T attr n32 arr k ph) \<and>
    balanced live (SK_GetObjectAttribute T al h attr n32) \<and> balanced live (SK_Sign T mech h inp li out lo) \<and>
    balanced live (SK_Decrypt T mech h inp li out lo) \<and> balanced live (SK_Digest T mech inp li out lo)"
proof -
  note rules = balanced_rules [OF assms] balanced_if balanced_bind balanced_const
  have crypt: "balanced live (crypt T c p0 mech inp li out lo)" for c p0
    unfolding crypt_def
    by (cases mech) (auto intro!: rules balanced_return [of "\<lambda>s. do { (shm, m) \<leftarrow> out_memref _ 2; _ shm m s }"]
      simp: Let_def split: bind_splits if_splits)
  have "balanced live (SK_CreateObject T attr n16 ph)" unfolding SK_CreateObject_def by (intro rules)
  moreover have "balanced live (SK_GenerateKeyPair T mech attr n16 ph)" unfolding SK_GenerateKeyPair_def by (cases mech) (auto intro!: rules)
  moreover have "balanced live (SK_EraseObject T h)" unfolding SK_EraseObject_def by (intro rules)
  moreover have "balanced live (SK_EnumerateObjects T attr n32 arr k ph)" unfolding SK_EnumerateObjects_def Let_def
    by (cases arr; simp only: option.case; intro rules balanced_return) (auto split: bind_splits if_splits)
  moreover have "balanced live (SK_GetObjectAttribute T al h attr n32)" unfolding SK_GetObjectAttribute_def Let_def
    by (intro rules balanced_return) (auto split: bind_splits)
  ultimately show ?thesis using crypt unfolding SK_Sign_def SK_Decrypt_def SK_Digest_def by simp
qed


text \<open>A client API that always answers, with the list of what is live as its state.\<close>

definition counting_api :: "client_resource list teec_api" where
  "counting_api = \<lparr>TEEC_InitializeContext_fn = (\<lambda>s. (TEE_SUCCESS, Ctx # s)), TEEC_OpenSession_fn = (\<lambda>s. (TEE_SUCCESS, 4, Sess # s)),
     TEEC_AllocateSharedMemory_fn = (\<lambda>n f s. (TEE_SUCCESS, replicate n 0, Shm # s)),
     TEEC_InvokeCommand_fn = (\<lambda>c ty ps s. Some (TEE_SUCCESS, 4, ps, s)),
     TEEC_ReleaseSharedMemory_fn = tl, TEEC_CloseSession_fn = tl, TEEC_FinalizeContext_fn = tl\<rparr>"

lemma counting_contract: "client_contract counting_api (\<lambda>s. s)"
  by (simp add: client_contract_def counting_api_def)

lemma replicates: "replicate 2 x = [x, x]" "replicate 3 x = [x, x, x]"
  by (simp_all add: numeral_eq_Suc)

theorem sk_calls_balanced_witness:
  "SK_Digest counting_api (Some SKM_SHA1) (Some [1, 2]) 2 (Some [0, 0, 0]) 3 [Sess] = Some (SKR_OK, (Some [0, 0, 0], 3), [Sess]) \<and>
   balanced (\<lambda>s. s) (SK_Digest counting_api (Some SKM_SHA1) (Some [1, 2]) 2 (Some [0, 0, 0]) 3)"
proof
  show "SK_Digest counting_api (Some SKM_SHA1) (Some [1, 2]) 2 (Some [0, 0, 0]) 3 [Sess] = Some (SKR_OK, (Some [0, 0, 0], 3), [Sess])"
    by (simp add: SK_Digest_def crypt_def in_session_def with_shm_def invoke_def counting_api_def read_bytes_def poke_def write_bytes_def
        out_memref_def replicates Let_def)
  show "balanced (\<lambda>s. s) (SK_Digest counting_api (Some SKM_SHA1) (Some [1, 2]) 2 (Some [0, 0, 0]) 3)"
    using sk_calls_balanced [OF counting_contract] by blast
qed

text \<open>
  C36: the client library reports success only if the trusted application was reached and succeeded:
  no error code of the client API or of the trusted application is mapped to \<open>SKR_OK\<close>, and each
  call sends its own command.
\<close>

theorem sk_success_means_served:
  "needs_service T 1 (SK_CreateObject T attr n16 ph) \<and> needs_service T 8 (SK_GenerateKeyPair T mech attr n16 ph) \<and>
   needs_service T 4 (SK_EraseObject T h) \<and> needs_service T 2 (SK_EnumerateObjects T attr n32 arr k ph) \<and>
   needs_service T 3 (SK_GetObjectAttribute T al h attr n32) \<and> needs_service T 5 (SK_Sign T mech h inp li out lo) \<and>
   needs_service T 6 (SK_Decrypt T mech h inp li out lo) \<and> needs_service T 7 (SK_Digest T mech inp li out lo)"
proof -
  note rules = needs_service_rules needs_service_bind
  have no: "needs_service T c (\<lambda>s. Some (SKR_ERR_BAD_PARAMETERS, out, s))" for c and out :: 'z
    by (simp add: needs_service_def)
  have cond: "needs_service T c (\<lambda>s. if P then f s else g s)" if "needs_service T c f" "needs_service T c g"
    for c P and f g :: "'a \<Rightarrow> (SK_RET_CODE \<times> 'z \<times> 'a) option" using that by (cases P) simp_all
  have crypt: "needs_service T c (crypt T c p0 mech inp li out lo)" for c p0
    unfolding crypt_def Let_def by (cases mech; simp only: option.case; intro rules no cond)
  have "needs_service T 1 (SK_CreateObject T attr n16 ph)" unfolding SK_CreateObject_def by (intro rules no cond)
  moreover have "needs_service T 8 (SK_GenerateKeyPair T mech attr n16 ph)" unfolding SK_GenerateKeyPair_def
    by (cases mech; simp only: option.case; intro rules no cond)
  moreover have "needs_service T 4 (SK_EraseObject T h)" unfolding SK_EraseObject_def by (intro rules)
  moreover have "needs_service T 2 (SK_EnumerateObjects T attr n32 arr k ph)" unfolding SK_EnumerateObjects_def Let_def
    by (cases arr; simp only: option.case; intro rules no cond)
  moreover have "needs_service T 3 (SK_GetObjectAttribute T al h attr n32)" unfolding SK_GetObjectAttribute_def Let_def
    by (intro rules)
  ultimately show ?thesis using crypt unfolding SK_Sign_def SK_Decrypt_def SK_Digest_def by simp
qed

end
