(* ===== verification/Sk_Stack.thy ===== *)
theory Sk_Stack
  imports Sk_Client Ta_Run
begin

text \<open>
  The client library on top of the trusted application: what a client API that reaches the
  application promises (\<open>reaches_ta\<close>), what is stored of the attributes that cross the border, and the
  creation of an object from one end to the other.
\<close>

section \<open>Between the worlds\<close>

text \<open>
  How an operation of the client appears to the trusted application, as GlobalPlatform documents it:
  values and memory references keep their place, a whole block of shared memory is passed as input,
  output or both according to its flags, and on return the output values and the referenced memory
  with its size come back.
\<close>

definition to_tee :: "TEEC_Param \<Rightarrow> TEE_Param" where
  "to_tee p = (case p of TEEC_None \<Rightarrow> NoneP | TEEC_Value a b \<Rightarrow> ValueP a b | TEEC_Whole f b n \<Rightarrow> MemrefP (Some b) n True)"

definition tee_type :: "u32 \<Rightarrow> TEEC_Param \<Rightarrow> u32" where
  "tee_type t p = (case p of TEEC_Whole f b n \<Rightarrow> if t = TEEC_MEMREF_WHOLE then 4 + f else t | _ \<Rightarrow> t)"

definition type_at :: "u32 \<Rightarrow> nat \<Rightarrow> u32" where
  "type_at types i = (drop_bit (4 * i) types) AND 0xF"

definition tee_types :: "u32 \<Rightarrow> TEEC_Param list \<Rightarrow> u32" where
  "tee_types types ps = (case map (\<lambda>i. tee_type (type_at types i) (if i < length ps then ps ! i else TEEC_None)) [0, 1, 2, 3] of
     [t0, t1, t2, t3] \<Rightarrow> TEE_PARAM_TYPES t0 t1 t2 t3 | _ \<Rightarrow> 0)"

definition from_tee :: "TEEC_Param \<Rightarrow> TEE_Param \<Rightarrow> TEEC_Param" where
  "from_tee p q = (case (p, q) of
     (TEEC_Value a b, ValueP a' b') \<Rightarrow> TEEC_Value a' b'
   | (TEEC_Whole f b n, MemrefP (Some b') n' al) \<Rightarrow> TEEC_Whole f b' n'
   | _ \<Rightarrow> p)"

text \<open>
  The client API reaches the trusted application: a session runs its entry point (the application is
  built without \<open>TA_FLAG_SINGLE_INSTANCE\<close>, so each session has an instance), a command is served by
  it or does not reach it, and nothing else of the client API touches the storage. A successful
  allocation yields a block of the size asked for.
\<close>

definition reaches_ta :: "'s teec_api \<Rightarrow> 's tee_api \<Rightarrow> ('s \<Rightarrow> tee_store) \<Rightarrow> bool" where
  "reaches_ta T A view \<longleftrightarrow>
     (\<forall>s r s'. TEEC_InitializeContext_fn T s = (r, s') \<longrightarrow> view s' = view s) \<and>
     (\<forall>s r e s'. TEEC_OpenSession_fn T s = (r, e, s') \<longrightarrow>
        (\<exists>rc s1. TA_CreateEntryPoint A s = (rc, s1) \<and> (rc = TEE_SUCCESS \<or> r \<noteq> TEE_SUCCESS) \<and> view s' = view s1) \<or>
        r \<noteq> TEE_SUCCESS \<and> view s' = view s) \<and>
     (\<forall>n f s r b s'. TEEC_AllocateSharedMemory_fn T n f s = (r, b, s') \<longrightarrow> view s' = view s \<and> (r = TEE_SUCCESS \<longrightarrow> length b = n)) \<and>
     (\<forall>c ty ps s r e ps' s'. TEEC_InvokeCommand_fn T c ty ps s = Some (r, e, ps', s') \<longrightarrow>
        (\<exists>qs s1. TA_InvokeCommandEntryPoint A c (tee_types ty ps) (map to_tee ps) s = Some (r, qs, s1) \<and>
           view s' = view s1 \<and> ps' = map2 from_tee ps qs) \<or>
        r \<noteq> TEE_SUCCESS \<and> view s' = view s) \<and>
     (\<forall>s. view (TEEC_ReleaseSharedMemory_fn T s) = view s) \<and>
     (\<forall>s. view (TEEC_CloseSession_fn T s) = view s) \<and>
     (\<forall>s. view (TEEC_FinalizeContext_fn T s) = view s)"

lemma reaches_taD:
  assumes "reaches_ta T A view"
  shows "TEEC_InitializeContext_fn T s = (r, s') \<Longrightarrow> view s' = view s"
    "TEEC_OpenSession_fn T s = (r, e, s') \<Longrightarrow>
      (\<exists>rc s1. TA_CreateEntryPoint A s = (rc, s1) \<and> (rc = TEE_SUCCESS \<or> r \<noteq> TEE_SUCCESS) \<and> view s' = view s1) \<or>
      r \<noteq> TEE_SUCCESS \<and> view s' = view s"
    "TEEC_AllocateSharedMemory_fn T n f s = (r, b, s') \<Longrightarrow> view s' = view s \<and> (r = TEE_SUCCESS \<longrightarrow> length b = n)"
    "TEEC_InvokeCommand_fn T c ty ps s = Some (r, e, ps', s') \<Longrightarrow>
      (\<exists>qs s1. TA_InvokeCommandEntryPoint A c (tee_types ty ps) (map to_tee ps) s = Some (r, qs, s1) \<and>
         view s' = view s1 \<and> ps' = map2 from_tee ps qs) \<or> r \<noteq> TEE_SUCCESS \<and> view s' = view s"
    "view (TEEC_ReleaseSharedMemory_fn T s) = view s" "view (TEEC_CloseSession_fn T s) = view s"
    "view (TEEC_FinalizeContext_fn T s) = view s"
proof -
  note c = assms [unfolded reaches_ta_def]
  note c2 = c [THEN conjunct2] and c3 = c [THEN conjunct2, THEN conjunct2] and c4 = c [THEN conjunct2, THEN conjunct2, THEN conjunct2]
  note c5 = c4 [THEN conjunct2] and c6 = c4 [THEN conjunct2, THEN conjunct2]
  show "TEEC_InitializeContext_fn T s = (r, s') \<Longrightarrow> view s' = view s" by (rule c [THEN conjunct1, rule_format])
  show "TEEC_OpenSession_fn T s = (r, e, s') \<Longrightarrow>
      (\<exists>rc s1. TA_CreateEntryPoint A s = (rc, s1) \<and> (rc = TEE_SUCCESS \<or> r \<noteq> TEE_SUCCESS) \<and> view s' = view s1) \<or>
      r \<noteq> TEE_SUCCESS \<and> view s' = view s" by (rule c2 [THEN conjunct1, rule_format])
  show "TEEC_AllocateSharedMemory_fn T n f s = (r, b, s') \<Longrightarrow> view s' = view s \<and> (r = TEE_SUCCESS \<longrightarrow> length b = n)"
    by (rule c3 [THEN conjunct1, rule_format])
  show "TEEC_InvokeCommand_fn T c ty ps s = Some (r, e, ps', s') \<Longrightarrow>
      (\<exists>qs s1. TA_InvokeCommandEntryPoint A c (tee_types ty ps) (map to_tee ps) s = Some (r, qs, s1) \<and>
         view s' = view s1 \<and> ps' = map2 from_tee ps qs) \<or> r \<noteq> TEE_SUCCESS \<and> view s' = view s"
    by (rule c4 [THEN conjunct1, rule_format])
  show "view (TEEC_ReleaseSharedMemory_fn T s) = view s" "view (TEEC_CloseSession_fn T s) = view s"
    "view (TEEC_FinalizeContext_fn T s) = view s"
    using c5 c6 by simp_all
qed

section \<open>Frames\<close>

text \<open>The storage apart from the identifier counter.\<close>

definition same_keys :: "tee_store \<Rightarrow> tee_store \<Rightarrow> bool" where
  "same_keys v v' \<longleftrightarrow> (\<forall>i. i \<noteq> db_obj_id \<longrightarrow> st_objects v' i = st_objects v i)"

text \<open>The counter object is missing or whole.\<close>

definition counter_ok :: "tee_store \<Rightarrow> bool" where
  "counter_ok v \<longleftrightarrow> (\<forall>x. st_objects v db_obj_id = Some x \<longrightarrow> length (obj_data x) = 4)"

lemma same_keys_refl [simp]: "same_keys v v"
  by (simp add: same_keys_def)

lemma open_session_view:
  assumes "trusted_storage A view" and "reaches_ta T A view" and "TEEC_OpenSession_fn T s = (r, e, s')" and "counter_ok (view s)"
  shows "same_keys (view s) (view s')"
    and "r = TEE_SUCCESS \<Longrightarrow> \<exists>x. st_objects (view s') db_obj_id = Some x \<and> length (obj_data x) = 4"
proof -
  have "same_keys (view s) (view s') \<and> (r = TEE_SUCCESS \<longrightarrow> (\<exists>x. st_objects (view s') db_obj_id = Some x \<and> length (obj_data x) = 4))"
    using reaches_taD(2) [OF assms(2,3)]
  proof
    assume "\<exists>rc s1. TA_CreateEntryPoint A s = (rc, s1) \<and> (rc = TEE_SUCCESS \<or> r \<noteq> TEE_SUCCESS) \<and> view s' = view s1"
    then obtain rc s1 where 1: "TA_OpenDatabase A s = (rc, s1)" "rc = TEE_SUCCESS \<or> r \<noteq> TEE_SUCCESS" "view s' = view s1"
      by (auto simp: TA_CreateEntryPoint_def)
    note v = TA_OpenDatabase_spec [OF assms(1) 1(1)]
    show ?thesis
    proof (cases "rc = TEE_SUCCESS")
      case True
      with v(4) 1(3) assms(4) show ?thesis
        by (cases "db_obj_id \<in> dom (st_objects (view s))") (auto simp: same_keys_def counter_ok_def)
    next
      case False
      with v(3) 1 show ?thesis by auto
    qed
  qed auto
  then show "same_keys (view s) (view s')"
    "r = TEE_SUCCESS \<Longrightarrow> \<exists>x. st_objects (view s') db_obj_id = Some x \<and> length (obj_data x) = 4" by auto
qed

text \<open>
  A call is described by what its body does: \<open>P s r out s'\<close> relates the storage before and after. The
  frames change nothing the relation looks at.
\<close>

lemma in_session_view:
  assumes "trusted_storage A view" and "reaches_ta T A view" and "counter_ok (view s)" and "in_session T d body s = Some (r, out, s')"
  shows "(r \<noteq> SKR_OK \<and> out = d \<and> same_keys (view s) (view s')) \<or>
    (\<exists>s1 s2 x. body s1 = Some (r, out, s2) \<and> view s' = view s2 \<and> same_keys (view s) (view s1) \<and>
      st_objects (view s1) db_obj_id = Some x \<and> length (obj_data x) = 4)"
proof -
  note R = reaches_taD [OF assms(2)]
  obtain r1 s1 where 1: "TEEC_InitializeContext_fn T s = (r1, s1)" by (metis surj_pair)
  obtain r2 e s2 where 2: "TEEC_OpenSession_fn T s1 = (r2, e, s2)" by (metis prod_cases3)
  have v1: "view s1 = view s" by (rule R(1) [OF 1])
  have c1: "counter_ok (view s1)" using assms(3) v1 by simp
  note v2 = open_session_view [OF assms(1,2) 2 c1]
  show ?thesis
  proof (cases "r1 = TEE_SUCCESS \<and> r2 = TEE_SUCCESS")
    case True
    with assms(4) 1 2 obtain s3 where "body s2 = Some (r, out, s3)" "s' = TEEC_FinalizeContext_fn T (TEEC_CloseSession_fn T s3)"
      by (auto simp: in_session_def split: bind_splits)
    with v1 v2 True R(6,7) show ?thesis by metis
  next
    case False
    with assms(4) 1 2 v1 v2(1) R(7) show ?thesis by (auto simp: in_session_def split: if_splits)
  qed
qed

lemma with_shm_view:
  assumes "reaches_ta T A view" and "with_shm T d n fl body s = Some (r, out, s')"
  shows "(r \<noteq> SKR_OK \<and> out = d \<and> view s' = view s) \<or>
    (\<exists>b s1 s2. length b = n \<and> body b s1 = Some (r, out, s2) \<and> view s1 = view s \<and> view s' = view s2)"
proof -
  obtain r1 b s1 where 1: "TEEC_AllocateSharedMemory_fn T n fl s = (r1, b, s1)" by (metis prod_cases3)
  note v1 = reaches_taD(3) [OF assms(1) 1]
  show ?thesis
  proof (cases "r1 = TEE_SUCCESS")
    case True
    with assms(2) 1 obtain s3 where "body b s1 = Some (r, out, s3)" "s' = TEEC_ReleaseSharedMemory_fn T s3"
      by (auto simp: with_shm_def split: bind_splits)
    with v1 True reaches_taD(5) [OF assms(1)] show ?thesis by metis
  next
    case False
    with assms(2) 1 v1 show ?thesis by (auto simp: with_shm_def)
  qed
qed

text \<open>The attributes of a request arrive in a block of the right size.\<close>

lemma with_attrs_view:
  assumes "reaches_ta T A view" and "transmissible sends_value as"
    and "with_attrs T d (Some as) (of_nat (length as)) fl body s = Some (r, out, s')"
  shows "(r \<noteq> SKR_OK \<and> out = d \<and> view s' = view s) \<or>
    (\<exists>b s1 s2. packed_buffer sends_value as b \<and> body b s1 = Some (r, out, s2) \<and> view s1 = view s \<and> view s' = view s2)"
proof -
  let ?n = "4 + 12 * length as + values_size sends_value as"
  have "with_shm T d ?n fl (\<lambda>shm s. do {
       (res, shm) \<leftarrow> pack_attrs shm (Some as) (of_nat (length as));
       if res \<noteq> SKR_OK then Some (res, d, s) else body shm s }) s = Some (r, out, s')"
    using assms(3) by (simp add: with_attrs_def get_attr_size_eq [OF assms(2)])
  from with_shm_view [OF assms(1) this] show ?thesis
  proof (elim disjE exE conjE)
    fix b s1 s2 assume b: "length b = ?n" "view s1 = view s" "view s' = view s2"
      "(do { (res, shm) \<leftarrow> pack_attrs b (Some as) (of_nat (length as));
         if res \<noteq> SKR_OK then Some (res, d, s1) else body shm s1 }) = Some (r, out, s2)"
    obtain b' where "pack_attrs b (Some as) (of_nat (length as)) = Some (SKR_OK, b')" "packed_buffer sends_value as b'"
      using pack_attrs_packed [OF assms(2) b(1)] by blast
    with b show ?thesis by auto
  qed blast
qed

section \<open>Attributes that arrive\<close>

text \<open>Lengths below \<open>2 ^ 15\<close>: the trusted application takes larger ones for negative.\<close>

definition short_values :: "SK_ATTRIBUTE list \<Rightarrow> bool" where
  "short_values as \<longleftrightarrow> list_all (\<lambda>a. unat (sk_valueLen a) < 2 ^ 15) as"

lemma sint_short: "unat (len :: u16) < 2 ^ 15 \<Longrightarrow> 0 < sint len \<longleftrightarrow> len \<noteq> 0"
proof -
  assume a: "unat len < 2 ^ 15"
  have u: "uint len < 2 ^ 15" using a by (simp add: nat_less_iff flip: nat_uint_eq)
  have l: "- (2 ^ 15) \<le> uint len" by (rule order_trans [OF _ uint_ge_0]) simp
  have "sint len = uint len"
    unfolding sint_uint by (rule signed_take_bit_int_eq_self) (use u l in simp_all)
  moreover have "0 < uint len \<longleftrightarrow> len \<noteq> 0" using uint_ge_0 [of len] by (metis less_le unsigned_eq_0_iff)
  ultimately show ?thesis by simp
qed

lemma same_attr_packable: "same_attr hv a b \<Longrightarrow> packable b = packable a"
  by (simp add: same_attr_def packable_def)

lemma same_attr_stores:
  assumes "same_attr sends_value a b" and "unat (sk_valueLen a) < 2 ^ 15"
  shows "stores_value b = sends_value a" and "stores_value b \<Longrightarrow> value_readable b" and "sk_valueLen b = sk_valueLen a"
  using assms by (auto simp: same_attr_def stores_value_def sends_value_def sint_short value_readable_def read_bytes_def split: if_splits)

lemma arrived_filter:
  "list_all2 (same_attr hv) as bs \<Longrightarrow> list_all2 (same_attr hv) (filter packable as) (filter packable bs)"
  by (induction rule: list_all2_induct) (auto simp: same_attr_packable)

lemma arrived_first: "list_all2 (same_attr hv) as bs \<Longrightarrow> packable_first bs = packable_first as"
proof (induction rule: list_all2_induct)
  case (Cons a as b bs)
  have "list_ex packable bs = list_ex packable as"
    using Cons(2) by (induction rule: list_all2_induct) (auto simp: same_attr_packable)
  with Cons show ?case by (auto simp: packable_first_def same_attr_packable)
qed simp

lemma arrived_size:
  "list_all2 (same_attr sends_value) as bs \<Longrightarrow> short_values as \<Longrightarrow>
   values_size stores_value (filter packable bs) \<le> values_size sends_value as \<and> length (filter packable bs) \<le> length as \<and>
   list_all (\<lambda>b. stores_value b \<longrightarrow> value_readable b) bs"
proof (induction rule: list_all2_induct)
  case (Cons a as b bs)
  then have a: "unat (sk_valueLen a) < 2 ^ 15" "short_values as" by (simp_all add: short_values_def)
  note s = same_attr_stores [OF Cons(1) a(1)]
  from Cons.IH [OF a(2)] s show ?case by auto
qed simp

lemma arrived_storable:
  assumes "transmissible sends_value as" and "short_values as" and "packable_first as" and "list_all2 (same_attr sends_value) as bs"
  shows "storable_list bs"
proof -
  note s = arrived_size [OF assms(4,2)]
  have "list_all (\<lambda>b. stores_value b \<longrightarrow> value_readable b) (filter packable bs)" using s by (auto simp: list_all_iff)
  with s assms(1) arrived_first [OF assms(4)] assms(3) show ?thesis
    by (auto simp: storable_list_def transmissible_def)
qed

lemma same_attr_chain:
  assumes "same_attr sends_value a b" and "same_attr stores_value b c" and "unat (sk_valueLen a) < 2 ^ 15"
  shows "same_attr sends_value a c"
  using assms same_attr_stores [OF assms(1,3)] by (auto simp: same_attr_def value_bytes_def split: if_splits)

lemma arrived_chain:
  "list_all2 (same_attr sends_value) as bs \<Longrightarrow> list_all2 (same_attr stores_value) bs cs \<Longrightarrow> short_values as \<Longrightarrow>
   list_all2 (same_attr sends_value) as cs"
proof (induction arbitrary: cs rule: list_all2_induct)
  case (Cons a as b bs)
  then show ?case by (cases cs) (auto simp: short_values_def intro: same_attr_chain)
qed simp

lemma short_filter: "short_values as \<Longrightarrow> short_values (filter p as)"
  by (auto simp: short_values_def list_all_iff)

text \<open>What is stored of attributes that crossed the border reads back as the public ones that were sent.\<close>

lemma stored_sent:
  assumes "transmissible sends_value as" and "short_values as" and "packable_first as" and "packed_buffer sends_value as b"
    and "ta_unpack_sk_attrs True True b = Some (TEE_SUCCESS, ts)" and "pack_sk_attrs True (map (resolve b) ts) = Some (TEE_SUCCESS, d)"
  shows "\<exists>os. decoded d = Some os \<and> list_all2 (same_attr sends_value) (filter packable as) os"
proof -
  note u = unpack_packed_buffer [OF assms(4,1)]
  have bs: "list_all2 (same_attr sends_value) as (map (resolve b) ts)" using u assms(5) by simp
  have st: "storable_list (map (resolve b) ts)" by (rule arrived_storable [OF assms(1-3) bs])
  obtain us where us: "ta_unpack_sk_attrs True True d = Some (TEE_SUCCESS, us)"
      "list_all2 (same_attr stores_value) (filter packable (map (resolve b) ts)) (map (resolve d) us)"
    using to_store.transmit [OF st] assms(6) by (auto simp: store_send_def)
  from arrived_chain [OF arrived_filter [OF bs] us(2) short_filter [OF assms(2)]] us(1) show ?thesis
    by (simp add: decoded_def)
qed

section \<open>Creation through the stack\<close>

lemma create_types:
  "tee_types (TEEC_PARAM_TYPES TEEC_MEMREF_WHOLE TEEC_VALUE_OUTPUT TEEC_NONE TEEC_NONE)
     [TEEC_Whole TEEC_MEM_INPUT b n, TEEC_Value 0 0, TEEC_None, TEEC_None] =
   TEE_PARAM_TYPES TEE_PARAM_TYPE_MEMREF_INPUT TEE_PARAM_TYPE_VALUE_OUTPUT TEE_PARAM_TYPE_NONE TEE_PARAM_TYPE_NONE"
  by (simp add: tee_types_def tee_type_def type_at_def TEEC_PARAM_TYPES_def TEE_PARAM_TYPES_def)


text \<open>What a creation through the client library leaves in the storage.\<close>

definition created_object ::
    "tee_store \<Rightarrow> SK_ATTRIBUTE list \<Rightarrow> SK_RET_CODE \<Rightarrow> SK_OBJECT_HANDLE option \<Rightarrow> tee_store \<Rightarrow> bool" where
  "created_object v as rc out v' \<longleftrightarrow>
     (if rc = SKR_OK then
        (\<exists>h x os. out = Some h \<and> put_u32 h \<notin> dom (st_objects v) \<and> st_objects v' (put_u32 h) = Some x \<and>
           decoded (obj_data x) = Some os \<and> list_all2 (same_attr sends_value) (filter packable as) os \<and>
           (\<forall>i. i \<noteq> put_u32 h \<longrightarrow> i \<noteq> db_obj_id \<longrightarrow> st_objects v' i = st_objects v i))
      else out = None \<and> same_keys v v')"

lemma created_object_cong: "same_keys v w \<Longrightarrow> created_object w as rc out v' \<Longrightarrow> created_object v as rc out v'"
  unfolding created_object_def same_keys_def by (auto split: if_splits simp: domIff)

lemma created_refused: "rc \<noteq> SKR_OK \<Longrightarrow> out = None \<Longrightarrow> same_keys v v' \<Longrightarrow> created_object v as rc out v'"
  by (simp add: created_object_def)

lemma stored_same_keys: "stored v rc h d v' \<Longrightarrow> rc \<noteq> TEE_SUCCESS \<Longrightarrow> same_keys v v'"
  by (auto simp: stored_def same_keys_def counted_def)

lemma create_served:
  assumes "trusted_storage A view" and "st_objects (view s) db_obj_id = Some x" and "length (obj_data x) = 4"
    and "transmissible sends_value as" and "short_values as" and "packable_first as" and "packed_buffer sends_value as b"
    and "TA_InvokeCommandEntryPoint A TEE_CREATE_OBJECT (tee_types (TEEC_PARAM_TYPES TEEC_MEMREF_WHOLE TEEC_VALUE_OUTPUT TEEC_NONE TEEC_NONE) ps)
      (map to_tee ps) s = Some (rc, qs, s')"
    and "ps = [TEEC_Whole TEEC_MEM_INPUT b (length b), TEEC_Value 0 0, TEEC_None, TEEC_None]"
  shows "if rc = TEE_SUCCESS then \<exists>h. out_value (map2 from_tee ps qs) 1 = Some h \<and> created_object (view s) as SKR_OK (Some h) (view s')
    else same_keys (view s) (view s')"
proof -
  have c: "TA_CreateObject A (TEE_PARAM_TYPES TEE_PARAM_TYPE_MEMREF_INPUT TEE_PARAM_TYPE_VALUE_OUTPUT TEE_PARAM_TYPE_NONE TEE_PARAM_TYPE_NONE)
      (map to_tee ps) s = Some (rc, qs, s')"
    using assms(8) unfolding assms(9) create_types by (simp add: TA_InvokeCommandEntryPoint_def)
  obtain h d where hd: "stored (view s) rc h d (view s')"
      "rc = TEE_SUCCESS \<longrightarrow> (\<exists>p0 buf al ts p1 q. param (map to_tee ps) 0 = Some p0 \<and>
        memref_bytes p0 = Some (buf, al) \<and> ta_unpack_sk_attrs True al buf = Some (TEE_SUCCESS, ts) \<and>
        pack_sk_attrs True (map (resolve buf) ts) = Some (TEE_SUCCESS, d) \<and>
        param (map to_tee ps) 1 = Some p1 \<and> set_value_a h p1 = Some q \<and> qs = (map to_tee ps)[1 := q])"
    using TA_CreateObject_spec [OF assms(1-3) c] by blast
  show ?thesis
  proof (cases "rc = TEE_SUCCESS")
    case True
    with hd(2) obtain ts where ts: "ta_unpack_sk_attrs True True b = Some (TEE_SUCCESS, ts)"
        "pack_sk_attrs True (map (resolve b) ts) = Some (TEE_SUCCESS, d)" "qs = (map to_tee ps)[1 := ValueP h 0]"
      by (auto simp: assms(9) param_def to_tee_def memref_bytes_def set_value_a_def)
    obtain os where os: "decoded d = Some os" "list_all2 (same_attr sends_value) (filter packable as) os"
      using stored_sent [OF assms(4-7) ts(1,2)] by blast
    from hd(1) True obtain y where y: "put_u32 h \<notin> dom (st_objects (view s))" "obj_data y = d"
        "st_objects (view s') = (st_objects (counted (view s)))(put_u32 h \<mapsto> y)" by (auto simp: stored_def)
    have "created_object (view s) as SKR_OK (Some h) (view s')"
      unfolding created_object_def using y os by (auto simp: counted_def)
    moreover have "out_value (map2 from_tee ps qs) 1 = Some h"
      by (simp add: ts(3) assms(9) to_tee_def from_tee_def out_value_def)
    ultimately show ?thesis using True by simp
  next
    case False
    with stored_same_keys [OF hd(1)] show ?thesis by simp
  qed
qed

section \<open>A direct connection\<close>

text \<open>A client API that hands every command straight to an application, for the witnesses.\<close>

definition direct_api :: "'s tee_api \<Rightarrow> 's teec_api" where
  "direct_api A = \<lparr>TEEC_InitializeContext_fn = (\<lambda>s. (TEE_SUCCESS, s)),
     TEEC_OpenSession_fn = (\<lambda>s. let (rc, s') = TA_CreateEntryPoint A s in (rc, 4, s')),
     TEEC_AllocateSharedMemory_fn = (\<lambda>n f s. (TEE_SUCCESS, replicate n 0, s)),
     TEEC_InvokeCommand_fn = (\<lambda>c ty ps s. do {
       (rc, qs, s') \<leftarrow> TA_InvokeCommandEntryPoint A c (tee_types ty ps) (map to_tee ps) s;
       Some (rc, 4, map2 from_tee ps qs, s') }),
     TEEC_ReleaseSharedMemory_fn = (\<lambda>s. s), TEEC_CloseSession_fn = (\<lambda>s. s), TEEC_FinalizeContext_fn = (\<lambda>s. s)\<rparr>"

lemma direct_simps [simp]:
  "TEEC_InitializeContext_fn (direct_api A) = (\<lambda>s. (TEE_SUCCESS, s))"
  "TEEC_OpenSession_fn (direct_api A) = (\<lambda>s. let (rc, s') = TA_CreateEntryPoint A s in (rc, 4, s'))"
  "TEEC_AllocateSharedMemory_fn (direct_api A) = (\<lambda>n f s. (TEE_SUCCESS, replicate n 0, s))"
  "TEEC_ReleaseSharedMemory_fn (direct_api A) = (\<lambda>s. s)" "TEEC_CloseSession_fn (direct_api A) = (\<lambda>s. s)"
  "TEEC_FinalizeContext_fn (direct_api A) = (\<lambda>s. s)"
  by (simp_all add: direct_api_def)

lemma direct_reaches: "reaches_ta (direct_api A) A view"
  unfolding reaches_ta_def direct_api_def by (auto split: bind_splits prod.splits)

lemma key_attrs_facts: "transmissible sends_value key_attrs" "short_values key_attrs" "packable_first key_attrs" "length key_attrs = 3"
  by (simp_all add: key_attrs_def sk_attr_of_def transmissible_def sends_value_def value_readable_def read_bytes_def ROUNDUP_def
      short_values_def packable_first_def packable_def)

lemma pack_key_attrs: "get_attr_size (Some key_attrs) 3 = Some 52" "pack_attrs (replicate 52 0) (Some key_attrs) 3 = Some (SKR_OK, key_buf)"
  by (simp_all add: get_attr_size_def pack_attrs_def attr_array_def key_attrs_def sk_attr_of_def sends_value_def ROUNDUP_def
      put_attr_def poke_def read_bytes_def put_u32_bytes Ta_Run.replicate_52 key_buf_def)

lemma create_key: "SK_CreateObject (direct_api sample_api) (Some key_attrs) 3 True empty_tee = Some (SKR_OK, Some 0, created_tee)"
proof -
  let ?ps = "[TEEC_Whole TEEC_MEM_INPUT key_buf 52, TEEC_Value 0 0, TEEC_None, TEEC_None]"
  have p: "map to_tee ?ps = create_params" "tee_types (TEEC_PARAM_TYPES TEEC_MEMREF_WHOLE TEEC_VALUE_OUTPUT TEEC_NONE TEEC_NONE) ?ps = 0x25"
    by (simp_all add: to_tee_def create_params_def create_types TEE_PARAM_TYPES_def)
  have i: "TEEC_InvokeCommand_fn (direct_api sample_api) 1 (TEEC_PARAM_TYPES TEEC_MEMREF_WHOLE TEEC_VALUE_OUTPUT TEEC_NONE TEEC_NONE) ?ps
      started_tee = Some (TEE_SUCCESS, 4, ?ps, created_tee)"
    using create_sample p by (simp add: direct_api_def create_params_def from_tee_def)
  show ?thesis
    using i start_sample
    by (simp add: SK_CreateObject_def in_session_def with_attrs_def with_shm_def invoke_def pack_key_attrs out_value_def)
qed

section \<open>Creation from one end to the other\<close>

text \<open>
  C33: creation from one end to the other. A client calls \<open>SK_CreateObject\<close> with attributes whose values can be
  read, are shorter than 32 KiB and of which the public ones stand first; the client API reaches the
  trusted application and the TEE behaves as documented, but any of their calls may fail. If the call
  returns success it stored a new object under the handle it hands out, the data stream of the
  object decodes to exactly the public attributes of the client, in order and with their values, and
  no private component is among them; all other objects are as before. On any other result no handle
  is handed out and no object has changed.
\<close>

theorem sk_create_object_stores:
  assumes "trusted_storage A view" and "reaches_ta T A view" and "counter_ok (view s)"
    and "transmissible sends_value as" and "short_values as" and "packable_first as" and "length as < 2 ^ 16"
    and "SK_CreateObject T (Some as) (of_nat (length as)) True s = Some (rc, out, s')"
  shows "created_object (view s) as rc out (view s')"
proof (cases "as = []")
  case True
  with assms(8) show ?thesis by (auto simp: SK_CreateObject_def intro: created_refused)
next
  case False
  have u: "unat (of_nat (length as) :: u16) = length as" using assms(7) by (simp add: unat_of_nat take_bit_nat_eq_self)
  have n: "(ucast (of_nat (length as) :: u16) :: u32) = of_nat (length as)" "(of_nat (length as) :: u16) \<noteq> 0"
    using u False by (metis of_nat_unat) (use u False in auto)
  let ?ps = "\<lambda>b. [TEEC_Whole TEEC_MEM_INPUT b (length b), TEEC_Value 0 0, TEEC_None, TEEC_None]"
  let ?ty = "TEEC_PARAM_TYPES TEEC_MEMREF_WHOLE TEEC_VALUE_OUTPUT TEEC_NONE TEEC_NONE"
  let ?inv = "\<lambda>b. invoke T None 1 ?ty (?ps b) (\<lambda>ps s. do { h \<leftarrow> out_value ps 1; Some (SKR_OK, Some h, s) })"
  have "in_session T None (with_attrs T None (Some as) (of_nat (length as)) TEEC_MEM_INPUT ?inv) s = Some (rc, out, s')"
    using assms(8) n by (simp add: SK_CreateObject_def)
  from in_session_view [OF assms(1-3) this] show ?thesis
  proof (elim disjE exE conjE)
    assume "rc \<noteq> SKR_OK" "out = None" "same_keys (view s) (view s')"
    then show ?thesis by (rule created_refused)
  next
    fix s1 s2 x
    assume 1: "with_attrs T None (Some as) (of_nat (length as)) TEEC_MEM_INPUT ?inv s1 = Some (rc, out, s2)" "view s' = view s2"
      "same_keys (view s) (view s1)" "st_objects (view s1) db_obj_id = Some x" "length (obj_data x) = 4"
    have "created_object (view s1) as rc out (view s2)"
      using with_attrs_view [OF assms(2,4) 1(1)]
    proof (elim disjE exE conjE)
      fix b s3 s4 assume b: "packed_buffer sends_value as b" "?inv b s3 = Some (rc, out, s4)" "view s3 = view s1" "view s2 = view s4"
      from b(2) obtain r e qs s5 where i: "TEEC_InvokeCommand_fn T 1 ?ty (?ps b) s3 = Some (r, e, qs, s5)"
          "if r \<noteq> TEE_SUCCESS then (rc, out, s4) = (map_teec_err_to_sk r e, None, s5)
           else \<exists>h. out_value qs 1 = Some h \<and> (rc, out, s4) = (SKR_OK, Some h, s5)"
        by (auto simp: invoke_def split: bind_splits if_splits)
      have x: "st_objects (view s3) db_obj_id = Some x" using 1(4) b(3) by simp
      show ?thesis
        using reaches_taD(4) [OF assms(2) i(1)]
      proof (elim disjE exE conjE)
        fix us s6 assume t: "TA_InvokeCommandEntryPoint A 1 (tee_types ?ty (?ps b)) (map to_tee (?ps b)) s3 = Some (r, us, s6)"
          "view s5 = view s6" "qs = map2 from_tee (?ps b) us"
        from create_served [OF assms(1) x 1(5) assms(4-6) b(1) t(1) refl] t(2,3) i(2) b(3,4) show ?thesis
          by (auto intro: created_refused split: if_splits)
      next
        assume "r \<noteq> TEE_SUCCESS" "view s5 = view s3"
        with i(2) b(3,4) show ?thesis by (auto intro: created_refused)
      qed
    qed (auto intro: created_refused)
    with 1(2,3) created_object_cong show ?thesis by metis
  qed
qed

theorem sk_create_object_stores_witness:
  "created_object (sample_view empty_tee) key_attrs SKR_OK (Some 0) (sample_view created_tee)"
  by (rule sk_create_object_stores [OF sample_trusted direct_reaches _ key_attrs_facts(1-3)])
    (simp_all add: counter_ok_def empty_tee_def key_attrs_facts create_key [unfolded empty_tee_def])

end
