(* ===== verification/Sk_Attributes.thy ===== *)
theory Sk_Attributes
  imports Sk_Stack
begin

text \<open>
  The retrieval of attributes through the whole stack: the client's request (\<open>SK_GetObjectAttribute\<close>)
  arrives in the trusted application, which looks the types up in the object, fills the values into the
  shared block and serialises the answer in place (\<open>answer_loop\<close>, \<open>pack_answer\<close>); the client reads it back
  into the caller's buffers (\<open>client_unpack_answer\<close>). \<open>fetched\<close> states what the caller then holds.
\<close>

section \<open>Filling the request\<close>

lemma round4_mono: "unat a \<le> unat b \<Longrightarrow> round4 a \<le> round4 b"
  by (simp add: round4_eq div_le_mono)

text \<open>
  A request that object attributes \<open>os\<close> can answer: every type asked for is there with readable bytes
  and, if a buffer is given, they fit.
\<close>

definition answerable :: "SK_ATTRIBUTE list \<Rightarrow> SK_ATTRIBUTE \<Rightarrow> bool" where
  "answerable os a \<longleftrightarrow> (\<exists>m. TA_GetSKAttr (sk_type a) os = Some m \<and> value_readable m \<and> unat (sk_valueLen m) < 2 ^ 15 \<and>
     (sends_value a \<longrightarrow> sk_valueLen m \<le> sk_valueLen a))"

text \<open>The answer in the trusted application: the length, and the bytes if there is a buffer.\<close>

definition answered :: "SK_ATTRIBUTE list \<Rightarrow> SK_ATTRIBUTE \<Rightarrow> SK_ATTRIBUTE \<Rightarrow> bool" where
  "answered os a r \<longleftrightarrow> (\<exists>m. TA_GetSKAttr (sk_type a) os = Some m \<and> sk_type r = sk_type a \<and> sk_valueLen r = sk_valueLen m \<and>
     (if sends_value a then value_readable r \<and> sk_value r \<noteq> None \<and> value_bytes r = value_bytes m else sk_value r = None))"

lemma answer_loop_ok:
  assumes "list_all (answerable os) as" and "off + values_size sends_value as \<le> length buf"
  shows "\<exists>buf' ts'. answer_loop os (placed sends_value off as) buf r = Some (buf', ts', r) \<and> length buf' = length buf \<and>
    take off buf' = take off buf \<and> list_all2 (answered os) as (map (resolve buf') ts')"
  using assms
proof (induction as arbitrary: off buf)
  case Nil
  then show ?case by simp
next
  case (Cons a as)
  from Cons.prems(1) obtain m where m: "TA_GetSKAttr (sk_type a) os = Some m" "value_readable m"
      "sends_value a \<longrightarrow> sk_valueLen m \<le> sk_valueLen a" by (auto simp: answerable_def)
  show ?case
  proof (cases "sends_value a")
    case False
    with Cons.prems have "list_all (answerable os) as" "off + values_size sends_value as \<le> length buf" by auto
    from Cons.IH [OF this] obtain buf' ts' where i: "answer_loop os (placed sends_value off as) buf r = Some (buf', ts', r)"
      "length buf' = length buf" "take off buf' = take off buf" "list_all2 (answered os) as (map (resolve buf') ts')" by blast
    moreover have "answered os a (resolve buf' \<lparr>ta_type = sk_type a, ta_ptr = None, ta_len = sk_valueLen m\<rparr>)"
      using False m(1) by (simp add: answered_def resolve_def)
    ultimately show ?thesis using False m by auto
  next
    case True
    let ?n = "unat (sk_valueLen m)" and ?off = "off + round4 (sk_valueLen a)"
    note rv = read_value [OF m(2)]
    have le: "?n \<le> unat (sk_valueLen a)" "unat (sk_valueLen a) \<le> round4 (sk_valueLen a)"
      using m(3) True round4_bounds(1) [of "sk_valueLen a"] by (auto simp: word_le_nat_alt)
    have fit: "?off + values_size sends_value as \<le> length buf" using Cons.prems(2) True by simp
    obtain b1 where b1: "poke buf off (value_bytes m) = Some b1" "length b1 = length buf"
      using poke_Some [of off "value_bytes m" buf] fit le rv by auto
    note p1 = poke_SomeD [OF b1(1)]
    from Cons.IH [of ?off b1] Cons.prems(1) fit b1(2) obtain buf' ts' where
      i: "answer_loop os (placed sends_value ?off as) b1 r = Some (buf', ts', r)"
      "length buf' = length b1" "take ?off buf' = take ?off b1" "list_all2 (answered os) as (map (resolve buf') ts')" by auto
    have keep: "take off buf' = take off buf"
    proof -
      have "take off buf' = take off (take ?off buf')" by simp
      also have "\<dots> = take off b1" unfolding i(3) by simp
      also have "\<dots> = take off buf" using p1(3) [of 0 off] by (simp add: slice_def)
      finally show ?thesis .
    qed
    have v: "take ?n (drop off buf') = value_bytes m"
    proof -
      have "take ?n (drop off buf') = take ?n (drop off (take ?off buf'))" using le by (simp add: drop_take)
      also have "\<dots> = take ?n (drop off b1)" unfolding i(3) using le by (simp add: drop_take)
      also have "\<dots> = value_bytes m" using p1(2) rv by (simp add: slice_def)
      finally show ?thesis .
    qed
    have l: "?n \<le> length (drop off buf')" using i(2) b1(2) fit le by simp
    have "answered os a (resolve buf' \<lparr>ta_type = sk_type a, ta_ptr = Some off, ta_len = sk_valueLen m\<rparr>)"
      using m(1) True v l by (auto simp: answered_def resolve_def value_readable_def value_bytes_def read_bytes_def)
    moreover have "\<not> sk_valueLen a < sk_valueLen m" using m(3) True by auto
    ultimately show ?thesis using True m rv b1 i keep by auto
  qed
qed

lemma answered_stores:
  assumes "answered os a r" and "answerable os a"
  shows "stores_value r \<longleftrightarrow> sends_value a \<and> sk_valueLen r \<noteq> 0" and "stores_value r \<Longrightarrow> value_readable r"
    and "sends_value a \<Longrightarrow> sk_valueLen r \<le> sk_valueLen a" and "sk_type r = sk_type a"
  using assms by (auto simp: answered_def answerable_def stores_value_def sint_short split: if_splits)

lemma answered_size:
  "list_all2 (answered os) as rs \<Longrightarrow> list_all (answerable os) as \<Longrightarrow>
   values_size stores_value rs \<le> values_size sends_value as \<and> list_all (\<lambda>r. stores_value r \<longrightarrow> value_readable r) rs \<and> length rs = length as"
proof (induction rule: list_all2_induct)
  case (Cons a as r rs)
  then have a: "answerable os a" by simp
  note s = answered_stores [OF Cons(1) a]
  have "stores_value r \<Longrightarrow> round4 (sk_valueLen r) \<le> round4 (sk_valueLen a)"
    using s by (intro round4_mono) (auto simp: word_le_nat_alt)
  with Cons s show ?case by auto
qed simp


lemma answered_types: "list_all2 (answered os) as rs \<Longrightarrow> map sk_type rs = map sk_type as"
  by (induction rule: list_all2_induct) (auto simp: answered_def)

lemma filter_all_packable: "list_all packable as \<Longrightarrow> map sk_type rs = map sk_type as \<Longrightarrow> list_all packable rs"
  by (induction as arbitrary: rs) (auto simp: packable_def)

text \<open>The answer is packed into a block no larger than the request.\<close>

lemma pack_answer:
  assumes "list_all2 (answered os) as rs" and "list_all (answerable os) as" and "list_all packable as" and "as \<noteq> []"
    and "transmissible sends_value as"
  shows "\<exists>d. pack_sk_attrs True rs = Some (TEE_SUCCESS, d) \<and> packed_buffer stores_value rs d \<and>
    length d \<le> 4 + 12 * length as + values_size sends_value as \<and> transmissible stores_value rs"
proof -
  note s = answered_size [OF assms(1,2)]
  have p: "list_all packable rs" by (rule filter_all_packable [OF assms(3) answered_types [OF assms(1)]])
  then have e: "dropWhile packable rs = []" by (auto simp: list_all_iff)
  have f: "filter packable rs = rs" "packable_first rs" using p unfolding packable_first_def e by (auto simp: list_all_iff)
  have t: "transmissible stores_value rs" using s assms(5) by (auto simp: transmissible_def)
  have "rs \<noteq> []" using s assms(4) by auto
  from pack_sk_attrs_packed [of rs] f t this obtain d where "pack_sk_attrs True rs = Some (TEE_SUCCESS, d)" "packed_buffer stores_value rs d"
    by auto
  with s t show ?thesis by (auto simp: packed_buffer_def)
qed

section \<open>Reading the answer\<close>

text \<open>What the client stores in an attribute of the caller.\<close>

definition fetch :: "SK_ATTRIBUTE \<Rightarrow> SK_ATTRIBUTE \<Rightarrow> SK_ATTRIBUTE" where
  "fetch a r = a\<lparr>sk_type := sk_type r, sk_valueLen := sk_valueLen r,
     sk_value := (if stores_value r then map_option (\<lambda>v. value_bytes r @ drop (unat (sk_valueLen r)) v) (sk_value a) else sk_value a)\<rparr>"

lemma peek_append: "peek_u32 d off = Some x \<Longrightarrow> peek_u32 (d @ e) off = Some x"
  by (auto simp: peek_u32_def slice_def split: if_splits)

lemma slice_append: "off + n \<le> length d \<Longrightarrow> slice (d @ e) off n = slice d off n"
  by (simp add: slice_def)

lemma packed_append:
  "packed hv d i off rs \<Longrightarrow> off + values_size hv rs \<le> length d \<Longrightarrow> packed hv (d @ e) i off rs"
proof (induction rs arbitrary: i off)
  case (Cons r rs)
  then show ?case
    using round4_bounds(1) [of "sk_valueLen r"] by (auto simp: peek_append slice_append split: if_splits)
qed simp

text \<open>The buffers of the caller hold what they claim, and the answers fit in.\<close>

definition fits :: "SK_ATTRIBUTE \<Rightarrow> SK_ATTRIBUTE \<Rightarrow> bool" where
  "fits a r \<longleftrightarrow> (stores_value r \<longrightarrow> value_readable r \<and> (\<exists>v. sk_value a = Some v \<and> unat (sk_valueLen r) \<le> length v))"

lemma unpack_loop_packed:
  assumes "packed stores_value b i off rs" and "off + values_size stores_value rs \<le> length b" and "length b < 2 ^ 32" and "0 < off"
    and "length pre = i" and "list_all2 fits as rs"
  shows "unpack_loop b (length rs) i (pre @ as) = Some (TEE_SUCCESS, pre @ map2 fetch as rs)"
  using assms
proof (induction rs arbitrary: i off pre as)
  case Nil
  then show ?case by simp
next
  case (Cons r rs)
  then obtain a as' where as: "as = a # as'" "fits a r" "list_all2 fits as' rs" by (auto simp: list_all2_Cons2)
  let ?off = "if stores_value r then off + round4 (sk_valueLen r) else off"
  have IH: "unpack_loop b (length rs) (Suc i) ((pre @ [fetch a r]) @ as') = Some (TEE_SUCCESS, (pre @ [fetch a r]) @ map2 fetch as' rs)"
    by (rule Cons.IH [of _ ?off]) (use Cons.prems as in auto)
  have o: "unat (of_nat off :: u32) = off" using Cons.prems(2,3) by (simp add: unat_of_nat take_bit_nat_eq_self)
  have nz: "(of_nat off :: u32) \<noteq> 0" using o Cons.prems(4) by auto
  have ix: "(pre @ a # as') ! i = a" "(pre @ a # as')[i := x] = pre @ x # as'" for x
    using Cons.prems(5) by (auto simp: nth_append list_update_append)
  show ?case
  proof (cases "stores_value r")
    case False
    then have "fetch a r = a\<lparr>sk_type := sk_type r, sk_valueLen := sk_valueLen r\<rparr>" by (simp add: fetch_def)
    with False Cons.prems as IH show ?thesis by (simp add: Let_def ix)
  next
    case True
    with as(2) obtain v where v: "sk_value a = Some v" "unat (sk_valueLen r) \<le> length v" "value_readable r" by (auto simp: fits_def)
    have "fetch a r = a\<lparr>sk_type := sk_type r, sk_valueLen := sk_valueLen r,
        sk_value := Some (value_bytes r @ drop (unat (sk_valueLen r)) v)\<rparr>" using True v by (simp add: fetch_def)
    moreover have "write_bytes (Some v) (value_bytes r) = Some (Some (value_bytes r @ drop (unat (sk_valueLen r)) v))"
      using v read_value [OF v(3)] True by (auto simp: write_bytes_def)
    moreover have "off + unat (sk_valueLen r) \<le> length b" using Cons.prems(2) True round4_bounds(1) [of "sk_valueLen r"] by simp
    ultimately show ?thesis using True Cons.prems as IH o nz v(1) by (simp add: Let_def ix)
  qed
qed

lemma client_unpack_answer:
  assumes "packed_buffer stores_value rs d" and "transmissible stores_value rs" and "length (d @ e) < 2 ^ 32" and "list_all2 fits as rs"
    and "rs \<noteq> []"
  shows "unpack_sk_attrs True (d @ e) as = Some (TEE_SUCCESS, map2 fetch as rs)"
proof -
  have p: "packed stores_value (d @ e) 0 (4 + 12 * length rs) rs" "peek_u32 (d @ e) 0 = Some (of_nat (length rs))"
    "4 + 12 * length rs + values_size stores_value rs \<le> length (d @ e)"
    using assms(1) packed_append [of stores_value d 0 "4 + 12 * length rs" rs e] peek_append by (auto simp: packed_buffer_def)
  have u: "unpack_loop (d @ e) (length rs) 0 ([] @ as) = Some (TEE_SUCCESS, [] @ map2 fetch as rs)"
    by (rule unpack_loop_packed [OF p(1,3) assms(3)]) (use assms(4) in auto)
  have "d @ e \<noteq> []" "4 \<le> length (d @ e)" using p(3) by auto
  then show ?thesis using p(2,3) u transmissible_count [OF assms(2)] by (auto simp: unpack_sk_attrs_def)
qed


section \<open>The command\<close>

lemma answer_attrs_result:
  assumes "trusted_storage A view" and "answer_attrs A os (placed sends_value (4 + 12 * length as) as) b s = Some (TEE_SUCCESS, b', d, s')"
    and "list_all (answerable os) as" and "list_all packable as" and "as \<noteq> []" and "transmissible sends_value as"
    and "length b = 4 + 12 * length as + values_size sends_value as"
  shows "\<exists>rs e. list_all2 (answered os) as rs \<and> packed_buffer stores_value rs d \<and> transmissible stores_value rs \<and>
    b' = d @ e \<and> length (d @ e) = length b"
proof -
  obtain b1 ts1 where 1: "answer_loop os (placed sends_value (4 + 12 * length as) as) b TEE_SUCCESS = Some (b1, ts1, TEE_SUCCESS)"
      "length b1 = length b" "list_all2 (answered os) as (map (resolve b1) ts1)"
    using answer_loop_ok [OF assms(3), of "4 + 12 * length as" b TEE_SUCCESS] assms(7) by auto
  obtain d' where d': "pack_sk_attrs True (map (resolve b1) ts1) = Some (TEE_SUCCESS, d')" "packed_buffer stores_value (map (resolve b1) ts1) d'"
      "length d' \<le> length b" "transmissible stores_value (map (resolve b1) ts1)"
    using pack_answer [OF 1(3) assms(3-6)] assms(7) by auto
  from assms(2) 1(1) obtain rc2 d2 s2 where 2: "pack_data A (map (resolve b1) ts1) s = Some (rc2, d2, s2)"
    by (auto simp: answer_attrs_def split: bind_splits)
  have ok: "rc2 = TEE_SUCCESS" by (rule ccontr) (use assms(2) 1(1) 2 in \<open>auto simp: answer_attrs_def\<close>)
  then have "d2 = d'" using pack_data_spec(2) [OF assms(1) 2] d'(1) by simp
  with assms(2) 1 2 ok d'(3) have "d = d'" "b' = d' @ drop (length d') b1"
    by (auto simp: answer_attrs_def poke_def split: if_splits)
  with 1 d' show ?thesis by auto
qed

lemma answer_object_result:
  assumes "trusted_storage A view" and "answer_object A h (placed sends_value (4 + 12 * length as) as) b s = Some (TEE_SUCCESS, b', n, s')"
    and "view s = reading h (i, 0) k v" and "st_objects v i = Some x" and "length (obj_data x) < 2 ^ 32" and "decoded (obj_data x) = Some os"
    and "list_all (answerable os) as" and "list_all packable as" and "as \<noteq> []" and "transmissible sends_value as"
    and "length b = 4 + 12 * length as + values_size sends_value as"
  shows "\<exists>rs d e. list_all2 (answered os) as rs \<and> packed_buffer stores_value rs d \<and> transmissible stores_value rs \<and>
    b' = d @ e \<and> length (d @ e) = length b"
proof -
  note T = assms(1)
  obtain rc3 info s3 where 3: "TEE_GetObjectInfo1_fn A h s = (rc3, info, s3)" by (metis prod_cases3)
  note v3 = info_reading [OF T 3 assms(3,4)]
  obtain ok4 s4 where 4: "TEE_Malloc_fn A (unat (dataSize info)) s3 = (ok4, s4)" by (metis surj_pair)
  note v4 = malloc_reading [OF T 4 v3(1)]
  obtain rc5 d s5 where 5: "TEE_ReadObjectData_fn A h (unat (dataSize info)) s4 = (rc5, d, s5)" by (metis prod_cases3)
  note v5 = read_reading [OF T 5 v4 assms(4)]
  have r3: "rc3 = TEE_SUCCESS" by (rule ccontr) (use assms(2) 3 in \<open>auto simp: answer_object_def\<close>)
  have r4: "ok4" by (rule ccontr) (use assms(2) 3 r3 4 in \<open>auto simp: answer_object_def\<close>)
  have r5: "rc5 = TEE_SUCCESS" by (rule ccontr) (use assms(2) 3 r3 4 r4 5 in \<open>auto simp: answer_object_def\<close>)
  have sz: "unat (dataSize info) = length (obj_data x)" using v3(2) [OF r3] data_size [OF assms(5)] by simp
  then have d: "d = obj_data x" using v5(2) r5 by (simp add: slice_def)
  obtain ok6 s6 where 6: "TEE_Malloc_fn A (24 * unat (get_u32 d)) s5 = (ok6, s6)" by (metis surj_pair)
  obtain rc7 us s7 where 7: "unpack_attrs A True d s6 = Some (rc7, us, s7)" using unpack_attrs_total [of A True d s6] by blast
  have r6: "ok6" by (rule ccontr) (use assms(2) 3 r3 4 r4 5 r5 sz d 6 in \<open>auto simp: answer_object_def deref_u32_def split: if_splits\<close>)
  have r7: "rc7 = TEE_SUCCESS"
    by (rule ccontr) (use assms(2) 3 r3 4 r4 5 r5 sz d 6 r6 7 in \<open>auto simp: answer_object_def deref_u32_def split: if_splits\<close>)
  have os: "map (resolve d) us = os"
    using unpack_attrs_spec(3) [OF T 7] r7 assms(6) d by (auto simp: decoded_def split: option.splits prod.splits if_splits)
  from assms(2) 3 r3 4 r4 5 r5 sz d 6 r6 7 r7 obtain dout s8 where
    "answer_attrs A (map (resolve d) us) (placed sends_value (4 + 12 * length as) as) b s7 = Some (TEE_SUCCESS, b', dout, s8)"
    by (auto simp: answer_object_def deref_u32_def split: if_splits bind_splits)
  from answer_attrs_result [OF T this [unfolded os] assms(7-11)] show ?thesis by blast
qed

lemma get_attributes_answer:
  assumes "trusted_storage A view" and "packed_buffer sends_value as b" and "transmissible sends_value as"
    and "st_objects (view s) (put_u32 h) = Some x" and "length (obj_data x) < 2 ^ 32" and "decoded (obj_data x) = Some os"
    and "list_all (answerable os) as" and "list_all packable as" and "as \<noteq> []"
    and "TA_GetObjectAttributes A types [ValueP h c, MemrefP (Some b) (length b) True, NoneP, NoneP] s = Some (TEE_SUCCESS, qs, s')"
  shows "\<exists>rs d e. list_all2 (answered os) as rs \<and> packed_buffer stores_value rs d \<and> transmissible stores_value rs \<and>
    length (d @ e) = length b \<and> qs = [ValueP h c, MemrefP (Some (d @ e)) (length b) True, NoneP, NoneP]"
proof -
  note T = assms(1)
  have ty: "types = TEE_PARAM_TYPES TEE_PARAM_TYPE_VALUE_INPUT TEE_PARAM_TYPE_MEMREF_INOUT TEE_PARAM_TYPE_NONE TEE_PARAM_TYPE_NONE"
    by (rule ccontr) (use assms(10) in \<open>auto simp: TA_GetObjectAttributes_def\<close>)
  obtain rc1 ts s1 where 1: "unpack_attrs A True b s = Some (rc1, ts, s1)" using unpack_attrs_total [of A True b s] by blast
  note v1 = unpack_attrs_spec [OF T 1]
  obtain rc2 o' s2 where 2: "TEE_OpenPersistentObject_fn A (put_u32 h) (TEE_DATA_FLAG_ACCESS_READ OR TEE_DATA_FLAG_SHARE_READ) s1 = (rc2, o', s2)"
    by (metis prod_cases3)
  have r1: "rc1 = TEE_SUCCESS" by (rule ccontr) (use assms(10) ty 1 in \<open>auto simp: TA_GetObjectAttributes_def param_def memref_bytes_def\<close>)
  then have ts: "ts = placed sends_value (4 + 12 * length as) as"
    using v1(3) unpack_packed_buffer(1) [OF assms(2,3)] by auto
  have r2: "rc2 = TEE_SUCCESS" by (rule ccontr) (use assms(10) ty 1 r1 2 in \<open>auto simp: TA_GetObjectAttributes_def param_def memref_bytes_def value_a_def\<close>)
  from open_reading [OF T 2 [unfolded r2] v1(1)] obtain y where
    v2: "st_objects (view s) (put_u32 h) = Some y" "view s2 = reading o' (put_u32 h, 0) (blk ts) (view s)" by blast
  from assms(10) ty 1 r1 2 r2 obtain b' n s3 where 3: "answer_object A o' ts b s2 = Some (TEE_SUCCESS, b', n, s3)"
      "qs = [ValueP h c, set_memref b' (MemrefP (Some b) (length b) True), NoneP, NoneP]"
    by (auto simp: TA_GetObjectAttributes_def param_def memref_bytes_def value_a_def split: bind_splits)
  have l: "length b = 4 + 12 * length as + values_size sends_value as" using assms(2) by (simp add: packed_buffer_def)
  obtain rs d e where r: "list_all2 (answered os) as rs" "packed_buffer stores_value rs d" "transmissible stores_value rs"
      "b' = d @ e" "length (d @ e) = length b"
    using answer_object_result [OF T 3(1) [unfolded ts] v2(2) [unfolded ts] assms(4-9,3) l] by blast
  show ?thesis
    by (rule exI [of _ rs], rule exI [of _ d], rule exI [of _ e]) (use r in \<open>simp add: 3(2) set_memref_def\<close>)
qed


section \<open>Retrieval from one end to the other\<close>

lemma put_u32_not_db: "put_u32 h \<noteq> db_obj_id"
  by (simp add: put_u32_bytes db_obj_id_def)

lemma count_nonzero: "transmissible hv as \<Longrightarrow> as \<noteq> [] \<Longrightarrow> (of_nat (length as) :: u32) \<noteq> 0"
  using transmissible_count [of hv as] by (metis length_0_conv unat_0)

lemma get_keeps:
  assumes "trusted_storage A view" and "TA_InvokeCommandEntryPoint A TEE_GET_OBJ_ATTRIBUTES types ps s = Some (rc, qs, s')"
  shows "st_objects (view s') = st_objects (view s)"
proof -
  have "TA_GetObjectAttributes A types ps s = Some (rc, qs, s')" using assms(2) by (simp add: TA_InvokeCommandEntryPoint_def)
  from TA_GetObjectAttributes_spec [OF assms(1) this] show ?thesis by auto
qed

lemma get_types:
  "tee_types (TEEC_PARAM_TYPES TEEC_VALUE_INPUT TEEC_MEMREF_WHOLE TEEC_NONE TEEC_NONE)
     [TEEC_Value h 0, TEEC_Whole (TEEC_MEM_INPUT OR TEEC_MEM_OUTPUT) b n, TEEC_None, TEEC_None] =
   TEE_PARAM_TYPES TEE_PARAM_TYPE_VALUE_INPUT TEE_PARAM_TYPE_MEMREF_INOUT TEE_PARAM_TYPE_NONE TEE_PARAM_TYPE_NONE"
  by (simp add: tee_types_def tee_type_def type_at_def TEEC_PARAM_TYPES_def TEE_PARAM_TYPES_def)

text \<open>
  What the caller finds in an attribute: the type and the length of the object's attribute, its bytes at
  the start of the buffer if one was given, and the rest of the buffer as before.
\<close>

definition fetched :: "SK_ATTRIBUTE list \<Rightarrow> SK_ATTRIBUTE \<Rightarrow> SK_ATTRIBUTE \<Rightarrow> bool" where
  "fetched os a a' \<longleftrightarrow> (\<exists>m. TA_GetSKAttr (sk_type a) os = Some m \<and> sk_type a' = sk_type a \<and> sk_valueLen a' = sk_valueLen m \<and>
     (if sends_value a
      then \<exists>v. sk_value a = Some v \<and> sk_value a' = Some (value_bytes m @ drop (unat (sk_valueLen m)) v)
      else sk_value a' = sk_value a))"

lemma fetched_fetch:
  assumes "answered os a r" and "answerable os a" and "sends_value a \<longrightarrow> value_readable a"
  shows "fits a r" and "fetched os a (fetch a r)"
proof -
  note s = answered_stores [OF assms(1,2)]
  obtain m where m: "TA_GetSKAttr (sk_type a) os = Some m" "sk_type r = sk_type a" "sk_valueLen r = sk_valueLen m" "value_readable m"
    "if sends_value a then value_readable r \<and> sk_value r \<noteq> None \<and> value_bytes r = value_bytes m else sk_value r = None"
    using assms(1,2) by (auto simp: answered_def answerable_def)
  have v: "\<exists>v. sk_value a = Some v \<and> unat (sk_valueLen m) \<le> length v" if "sends_value a"
  proof -
    have "unat (sk_valueLen a) \<noteq> 0" using that by (simp add: sends_value_def unat_eq_0)
    with that assms(3) obtain v where "sk_value a = Some v" "unat (sk_valueLen a) \<le> length v"
      by (auto simp: value_readable_def read_bytes_def split: option.splits if_splits)
    with s(3) [OF that] m(3) show ?thesis by (auto simp: word_le_nat_alt)
  qed
  show "fits a r" using v s m by (auto simp: fits_def)
  show "fetched os a (fetch a r)"
  proof (cases "sends_value a")
    case True
    then obtain v where "sk_value a = Some v" using v by blast
    moreover have "value_bytes m = []" if "sk_valueLen m = 0" using read_value [OF m(4)] that by simp
    ultimately show ?thesis using True s m by (cases "sk_valueLen m = 0") (auto simp: fetched_def fetch_def)
  next
    case False
    with s m show ?thesis by (auto simp: fetched_def fetch_def)
  qed
qed

lemma fetched_all:
  assumes "list_all2 (answered os) as rs" and "list_all (answerable os) as" and "list_all (\<lambda>a. sends_value a \<longrightarrow> value_readable a) as"
  shows "list_all2 fits as rs \<and> list_all2 (fetched os) as (map2 fetch as rs)"
  using assms by (induction rule: list_all2_induct) (auto intro: fetched_fetch)

text \<open>The answer as the client sees it.\<close>

lemma get_served:
  assumes "trusted_storage A view" and "packed_buffer sends_value as b" and "transmissible sends_value as"
    and "st_objects (view s) (put_u32 h) = Some x" and "length (obj_data x) < 2 ^ 32" and "decoded (obj_data x) = Some os"
    and "list_all (answerable os) as" and "list_all packable as" and "as \<noteq> []"
    and "TA_InvokeCommandEntryPoint A TEE_GET_OBJ_ATTRIBUTES (tee_types (TEEC_PARAM_TYPES TEEC_VALUE_INPUT TEEC_MEMREF_WHOLE TEEC_NONE TEEC_NONE) ps)
      (map to_tee ps) s = Some (TEE_SUCCESS, qs, s')"
    and "ps = [TEEC_Value h 0, TEEC_Whole (TEEC_MEM_INPUT OR TEEC_MEM_OUTPUT) b (length b), TEEC_None, TEEC_None]"
  shows "\<exists>buf as'. out_memref (map2 from_tee ps qs) 1 = Some (buf, length b) \<and>
    unpack_sk_attrs True buf as = Some (TEE_SUCCESS, as') \<and> list_all2 (fetched os) as as'"
proof -
  have c: "TA_GetObjectAttributes A (TEE_PARAM_TYPES TEE_PARAM_TYPE_VALUE_INPUT TEE_PARAM_TYPE_MEMREF_INOUT TEE_PARAM_TYPE_NONE TEE_PARAM_TYPE_NONE)
      [ValueP h 0, MemrefP (Some b) (length b) True, NoneP, NoneP] s = Some (TEE_SUCCESS, qs, s')"
    using assms(10) unfolding assms(11) get_types by (simp add: TA_InvokeCommandEntryPoint_def to_tee_def)
  obtain rs d e where r: "list_all2 (answered os) as rs" "packed_buffer stores_value rs d" "transmissible stores_value rs"
      "length (d @ e) = length b" "qs = [ValueP h 0, MemrefP (Some (d @ e)) (length b) True, NoneP, NoneP]"
    using get_attributes_answer [OF assms(1-9) c] by blast
  have rd: "list_all (\<lambda>a. sends_value a \<longrightarrow> value_readable a) as" and lb: "length b < 2 ^ 32"
    using assms(2,3) by (auto simp: transmissible_def packed_buffer_def)
  note f = fetched_all [OF r(1) assms(7) rd]
  have "rs \<noteq> []" using r(1) assms(9) by auto
  moreover have "length (d @ e) < 2 ^ 32" using r(4) lb by simp
  ultimately have "unpack_sk_attrs True (d @ e) as = Some (TEE_SUCCESS, map2 fetch as rs)"
    using client_unpack_answer [OF r(2,3) _ conjunct1 [OF f]] by blast
  with f r(5) show ?thesis by (simp add: assms(11) from_tee_def out_memref_def)
qed


text \<open>
  C34: retrieval from one end to the other. A client calls \<open>SK_GetObjectAttribute\<close> for an object whose data stream
  decodes to attributes \<open>os\<close> that can answer the request: each type asked for is there and, where the
  client gives a buffer, the value fits it. Any call of the client API and of the TEE may fail. If the
  call returns success, every attribute of the request holds the length of the stored one and, where
  a buffer was given, its bytes, and the rest of the client's buffer is untouched; on any other result
  the request is returned as it was. No object of the storage changes.
\<close>

theorem sk_get_object_attribute_fetches:
  assumes "trusted_storage A view" and "reaches_ta T A view" and "counter_ok (view s)"
    and "transmissible sends_value as" and "as \<noteq> []" and "list_all packable as"
    and "st_objects (view s) (put_u32 h) = Some x" and "length (obj_data x) < 2 ^ 32" and "decoded (obj_data x) = Some os"
    and "list_all (answerable os) as"
    and "SK_GetObjectAttribute T True h (Some as) (of_nat (length as)) s = Some (rc, out, s')"
  shows "same_keys (view s) (view s') \<and>
    (if rc = SKR_OK then \<exists>as'. out = Some as' \<and> list_all2 (fetched os) as as' else out = Some as)"
proof -
  let ?ps = "\<lambda>b. [TEEC_Value h 0, TEEC_Whole (TEEC_MEM_INPUT OR TEEC_MEM_OUTPUT) b (length b), TEEC_None, TEEC_None]"
  let ?ty = "TEEC_PARAM_TYPES TEEC_VALUE_INPUT TEEC_MEMREF_WHOLE TEEC_NONE TEEC_NONE"
  let ?inv = "\<lambda>b. invoke T (Some as) 3 ?ty (?ps b) (\<lambda>ps s. do { (shm, m) \<leftarrow> out_memref ps 1;
    (res, attrs) \<leftarrow> unpack_sk_attrs True shm as; Some (SKR_OK, Some attrs, s) })"
  have n: "(of_nat (length as) :: u32) \<noteq> 0" using count_nonzero [OF assms(4,5)] .
  have "in_session T (Some as) (with_attrs T (Some as) (Some as) (of_nat (length as)) (TEEC_MEM_INPUT OR TEEC_MEM_OUTPUT) ?inv) s =
      Some (rc, out, s')"
    using assms(11) n by (simp add: SK_GetObjectAttribute_def)
  from in_session_view [OF assms(1-3) this] show ?thesis
  proof (elim disjE exE conjE)
    fix s1 s2 y
    assume 1: "with_attrs T (Some as) (Some as) (of_nat (length as)) (TEEC_MEM_INPUT OR TEEC_MEM_OUTPUT) ?inv s1 = Some (rc, out, s2)"
      "view s' = view s2" "same_keys (view s) (view s1)"
    from with_attrs_view [OF assms(2,4) 1(1)] show ?thesis
    proof (elim disjE exE conjE)
      fix b s3 s4 assume b: "packed_buffer sends_value as b" "?inv b s3 = Some (rc, out, s4)" "view s3 = view s1" "view s2 = view s4"
      obtain r e qs s5 where i: "TEEC_InvokeCommand_fn T 3 ?ty (?ps b) s3 = Some (r, e, qs, s5)"
        using b(2) by (auto simp: invoke_def split: bind_splits)
      have x: "st_objects (view s3) (put_u32 h) = Some x" using 1(3) b(3) assms(7) by (simp add: same_keys_def put_u32_not_db)
      show ?thesis
        using reaches_taD(4) [OF assms(2) i]
      proof (elim disjE exE conjE)
        fix us s6 assume t: "TA_InvokeCommandEntryPoint A 3 (tee_types ?ty (?ps b)) (map to_tee (?ps b)) s3 = Some (r, us, s6)"
          "view s5 = view s6" "qs = map2 from_tee (?ps b) us"
        have v: "s4 = s5" using b(2) i by (auto simp: invoke_def split: bind_splits if_splits)
        have k: "same_keys (view s) (view s')"
          using get_keeps [OF assms(1) t(1)] t(2) v b(3,4) 1(2,3) by (simp add: same_keys_def)
        show ?thesis
        proof (cases "r = TEE_SUCCESS")
          case True
          from get_served [OF assms(1) b(1) assms(4) x assms(8-10) assms(6) assms(5) t(1) [unfolded True] refl] t(3) obtain buf as' where
            "out_memref qs 1 = Some (buf, length b)" "unpack_sk_attrs True buf as = Some (TEE_SUCCESS, as')" "list_all2 (fetched os) as as'"
            by blast
          with b(2) i True k show ?thesis by (auto simp: invoke_def)
        qed (use b(2) i k in \<open>auto simp: invoke_def\<close>)
      next
        assume "r \<noteq> TEE_SUCCESS" "view s5 = view s3"
        with b i 1(2,3) show ?thesis by (auto simp: invoke_def)
      qed
    qed (use 1 in auto)
  qed auto
qed

section \<open>A request on the sample\<close>

text \<open>The client asks the key for its modulus length, in a buffer of six bytes, and for the length of its key type.\<close>

definition bits_request :: "SK_ATTRIBUTE list" where
  "bits_request = [sk_attr_of SK_ATTR_MODULUS_BITS [0xEE, 0xEE, 0xEE, 0xEE, 0xEE, 0xEE],
     \<lparr>sk_type = SK_ATTR_KEY_TYPE, sk_value = None, sk_valueLen = 0\<rparr>]"

definition bits_answer :: "SK_ATTRIBUTE list" where
  "bits_answer = [\<lparr>sk_type = SK_ATTR_MODULUS_BITS, sk_value = Some [0, 8, 0, 0, 0xEE, 0xEE], sk_valueLen = 4\<rparr>,
     \<lparr>sk_type = SK_ATTR_KEY_TYPE, sk_value = None, sk_valueLen = 4\<rparr>]"

definition request_buf :: "byte list" where
  "request_buf = [2, 0, 0, 0, 30, 0, 0, 0, 28, 0, 0, 0, 6, 0, 0, 0, 5, 0, 0, 0, 0, 0, 0, 0, 0, 0, 0, 0,
     0xEE, 0xEE, 0xEE, 0xEE, 0xEE, 0xEE, 0, 0]"

definition answer_buf :: "byte list" where
  "answer_buf = [2, 0, 0, 0, 30, 0, 0, 0, 28, 0, 0, 0, 4, 0, 0, 0, 5, 0, 0, 0, 0, 0, 0, 0, 4, 0, 0, 0,
     0, 8, 0, 0, 0xEE, 0xEE, 0, 0]"

definition request_ts :: "ta_attr list" where
  "request_ts = [\<lparr>ta_type = 30, ta_ptr = Some 28, ta_len = 6\<rparr>, \<lparr>ta_type = 5, ta_ptr = None, ta_len = 0\<rparr>]"

lemma request_lengths [simp]: "length request_buf = 36" "request_ts \<noteq> []" "length request_ts = 2" "length answer_buf = 36" "answer_buf \<noteq> []"
  by (simp_all add: request_buf_def request_ts_def answer_buf_def)

lemma replicate_36: "replicate 36 x = [x,x,x,x,x,x,x,x,x,x,x,x,x,x,x,x,x,x,x,x,x,x,x,x,x,x,x,x,x,x,x,x,x,x,x,x]"
  by (simp add: numeral_eq_Suc)

lemma replicate_32: "replicate 32 x = [x,x,x,x,x,x,x,x,x,x,x,x,x,x,x,x,x,x,x,x,x,x,x,x,x,x,x,x,x,x,x,x]"
  by (simp add: numeral_eq_Suc)

lemma pack_request: "get_attr_size (Some bits_request) 2 = Some 36" "pack_attrs (replicate 36 0) (Some bits_request) 2 = Some (SKR_OK, request_buf)"
  by (simp_all add: get_attr_size_def pack_attrs_def attr_array_def bits_request_def sk_attr_of_def sends_value_def ROUNDUP_def
      put_attr_def poke_def read_bytes_def put_u32_bytes replicate_36 request_buf_def)

lemma unpack_request: "ta_unpack_sk_attrs True True request_buf = Some (TEE_SUCCESS, request_ts)"
  "ta_unpack_sk_attrs False True request_buf = Some (TEE_ERROR_OUT_OF_MEMORY, [])"
  by code_simp+

lemma unpack_answer: "unpack_sk_attrs True answer_buf bits_request = Some (TEE_SUCCESS, bits_answer)"
  by code_simp

lemma answer_request:
  "answer_attrs sample_api (map (resolve key_buf) key_ts) request_ts request_buf s = Some (TEE_SUCCESS, answer_buf, take 32 answer_buf, s\<lparr>t_blocks := Suc (t_blocks s)\<rparr>)"
  unfolding resolve_key
  by (simp add: answer_attrs_def request_ts_def TA_GetSKAttr_def read_bytes_def poke_def request_buf_def resolve_def pack_data_def
    pack_sk_attrs_def packable_def stores_value_def put_attr_def put_u32_bytes ROUNDUP_def replicate_32 answer_buf_def)

definition reopened_tee :: sample_tee where
  "reopened_tee = created_tee\<lparr>t_next := 4\<rparr>"

lemma restart_sample: "TA_CreateEntryPoint sample_api created_tee = (TEE_SUCCESS, reopened_tee)"
  by (simp add: TA_CreateEntryPoint_def TA_OpenDatabase_def sample_defs empty_tee_def created_tee_def reopened_tee_def data_object_def put_u32_bytes db_obj_id_def)

lemma key_stream: "deref_u32 (Some key_buf) = Some 3" "slice key_buf 0 52 = key_buf"
  by (simp_all add: deref_u32_def slice_def key_buf_def get_u32_bytes)

lemma answer_object_sample:
  "answer_object sample_api 4 request_ts request_buf (reopened_tee\<lparr>t_handles := [(4, [0, 0, 0, 0], 0)], t_blocks := 1, t_next := 5\<rparr>) =
     Some (TEE_SUCCESS, answer_buf, 3, reopened_tee\<lparr>t_handles := [(4, [0, 0, 0, 0], 52)], t_blocks := 5, t_next := 5\<rparr>)"
  by (simp add: answer_object_def sample_defs reopened_tee_def created_tee_def empty_tee_def info_of_def data_object_def
      key_stream unpack_attrs_key answer_request blk_def)

lemma get_sample:
  "TA_InvokeCommandEntryPoint sample_api TEE_GET_OBJ_ATTRIBUTES 0x71 [ValueP 0 0, MemrefP (Some request_buf) 36 True, NoneP, NoneP] reopened_tee =
     Some (TEE_SUCCESS, [ValueP 0 0, MemrefP (Some answer_buf) 36 True, NoneP, NoneP], reopened_tee\<lparr>t_blocks := 1, t_next := 5\<rparr>)"
  using answer_object_sample
  by (simp add: TA_InvokeCommandEntryPoint_def TA_GetObjectAttributes_def TEE_PARAM_TYPES_def param_def memref_bytes_def value_a_def
      unpack_attrs_def unpack_request put_u32_bytes sample_open_def new_handle_def set_memref_def reopened_tee_def created_tee_def empty_tee_def
      blk_def release_def sample_close_def unless_null_def numeral_3_eq_3)

lemma get_bits:
  "SK_GetObjectAttribute (direct_api sample_api) True 0 (Some bits_request) 2 created_tee =
     Some (SKR_OK, Some bits_answer, reopened_tee\<lparr>t_blocks := 1, t_next := 5\<rparr>)"
proof -
  let ?ps = "\<lambda>b. [TEEC_Value 0 0, TEEC_Whole (TEEC_MEM_INPUT OR TEEC_MEM_OUTPUT) b 36, TEEC_None, TEEC_None]"
  have p: "map to_tee (?ps request_buf) = [ValueP 0 0, MemrefP (Some request_buf) 36 True, NoneP, NoneP]"
    "tee_types (TEEC_PARAM_TYPES TEEC_VALUE_INPUT TEEC_MEMREF_WHOLE TEEC_NONE TEEC_NONE) (?ps request_buf) = 0x71"
    unfolding get_types by (simp_all add: to_tee_def TEE_PARAM_TYPES_def)
  have i: "TEEC_InvokeCommand_fn (direct_api sample_api) 3 (TEEC_PARAM_TYPES TEEC_VALUE_INPUT TEEC_MEMREF_WHOLE TEEC_NONE TEEC_NONE)
      (?ps request_buf) reopened_tee = Some (TEE_SUCCESS, 4, ?ps answer_buf, reopened_tee\<lparr>t_blocks := 1, t_next := 5\<rparr>)"
    using get_sample p by (simp add: direct_api_def from_tee_def)
  show ?thesis
    using i restart_sample
    by (simp add: SK_GetObjectAttribute_def in_session_def with_attrs_def with_shm_def invoke_def pack_request out_memref_def unpack_answer)
qed

lemma request_facts: "transmissible sends_value bits_request" "bits_request \<noteq> []" "list_all packable bits_request" "length bits_request = 2"
  by (simp_all add: bits_request_def sk_attr_of_def transmissible_def sends_value_def value_readable_def read_bytes_def ROUNDUP_def packable_def)

lemma key_decoded: "decoded key_buf = Some (map (resolve key_buf) key_ts)"
  by (simp add: decoded_def unpack_key)

lemma request_answerable: "list_all (answerable (map (resolve key_buf) key_ts)) bits_request"
  unfolding resolve_key
  by (simp add: bits_request_def sk_attr_of_def answerable_def TA_GetSKAttr_def value_readable_def read_bytes_def sends_value_def)

theorem sk_get_object_attribute_fetches_witness:
  "SK_GetObjectAttribute (direct_api sample_api) True 0 (Some bits_request) 2 created_tee =
     Some (SKR_OK, Some bits_answer, reopened_tee\<lparr>t_blocks := 1, t_next := 5\<rparr>) \<and>
   list_all2 (fetched (map (resolve key_buf) key_ts)) bits_request bits_answer"
proof -
  have o: "st_objects (sample_view created_tee) (put_u32 0) = Some (data_object key_buf)"
    by (simp add: created_tee_def sample_view_def put_u32_bytes)
  have c: "counter_ok (sample_view created_tee)"
    by (simp add: counter_ok_def created_tee_def sample_view_def db_obj_id_def data_object_def)
  from sk_get_object_attribute_fetches [OF sample_trusted direct_reaches c request_facts(1-3) o _ _ request_answerable]
  show ?thesis using get_bits by (simp add: data_object_def key_decoded request_facts)
qed

end
