(* ===== verification/Pkcs1.thy ===== *)
theory Pkcs1
  imports Sk_Codec Crypto
begin

unbundle bit_operations_syntax

text \<open>
  The PKCS\#1 paddings of \<open>openssl/crypto/rsa/rsa_pk1.c\<close>, on which the engine for secure objects relies, and the
  constant-time helpers of \<open>openssl/crypto/constant_time_locl.h\<close> they are written with. A C \<open>int\<close> is an integer in
  its 32-bit range, \<open>unsigned int\<close> a 32-bit word; an access outside of a buffer is \<open>None\<close>.
\<close>

section \<open>Big numbers\<close>

fun le_bytes :: "nat \<Rightarrow> byte list" where
  "le_bytes n = (if n = 0 then [] else of_nat n # le_bytes (n div 256))"

declare le_bytes.simps [simp del]

definition BN_bn2bin :: "nat \<Rightarrow> byte list" where
  "BN_bn2bin a = rev (le_bytes a)"

section \<open>Constant-time helpers\<close>

definition constant_time_msb :: "u32 \<Rightarrow> u32" where
  "constant_time_msb a = 0 - drop_bit (4 * 8 - 1) a"

definition constant_time_lt :: "u32 \<Rightarrow> u32 \<Rightarrow> u32" where
  "constant_time_lt a b = constant_time_msb (a XOR ((a XOR b) OR ((a - b) XOR b)))"

definition constant_time_ge :: "u32 \<Rightarrow> u32 \<Rightarrow> u32" where
  "constant_time_ge a b = NOT (constant_time_lt a b)"

definition constant_time_is_zero :: "u32 \<Rightarrow> u32" where
  "constant_time_is_zero a = constant_time_msb (NOT a AND (a - 1))"

definition constant_time_eq :: "u32 \<Rightarrow> u32 \<Rightarrow> u32" where
  "constant_time_eq a b = constant_time_is_zero (a XOR b)"

definition constant_time_select :: "u32 \<Rightarrow> u32 \<Rightarrow> u32 \<Rightarrow> u32" where
  "constant_time_select m a b = (m AND a) OR (NOT m AND b)"

definition constant_time_select_int :: "u32 \<Rightarrow> int \<Rightarrow> int \<Rightarrow> int" where
  "constant_time_select_int m a b = sint (constant_time_select m (word_of_int a) (word_of_int b))"

section \<open>Block type 1\<close>

abbreviation (input) RSA_PKCS1_PADDING_SIZE :: int where "RSA_PKCS1_PADDING_SIZE \<equiv> 11"

definition RSA_padding_add_PKCS1_type_1 :: "byte list \<Rightarrow> int \<Rightarrow> buffer \<Rightarrow> int \<Rightarrow> (int \<times> byte list) option" where
  "RSA_padding_add_PKCS1_type_1 to tlen from flen =
     (if tlen - RSA_PKCS1_PADDING_SIZE < flen then Some (0, to)
      else do {
        let j = tlen - 3 - flen;
        d \<leftarrow> read_bytes from (unat (word_of_int flen :: u32));
        to \<leftarrow> poke to 0 ([0, 1] @ replicate (nat j) 0xFF @ [0] @ d);
        Some (1, to) })"

text \<open>
  The scan over the padding, from position \<open>i\<close> on: where it stopped and the bytes after the zero, \<open>None\<close> for a
  byte that is neither \<open>0xff\<close> nor zero. At the end of the data nothing is left.
\<close>

fun scan_ff :: "byte list \<Rightarrow> int \<Rightarrow> (int \<times> byte list) option" where
  "scan_ff [] i = Some (i, [])"
| "scan_ff (x # xs) i =
     (if x \<noteq> 0xFF then (if x = 0 then Some (i, xs) else None) else scan_ff xs (i + 1))"

definition RSA_padding_check_PKCS1_type_1 :: "byte list \<Rightarrow> int \<Rightarrow> buffer \<Rightarrow> int \<Rightarrow> int \<Rightarrow> (int \<times> byte list) option" where
  "RSA_padding_check_PKCS1_type_1 to tlen from flen num =
     (if num \<noteq> flen + 1 then Some (-1, to)
      else do {
        x \<leftarrow> deref_byte from;
        if x \<noteq> 1 then Some (-1, to)
        else do {
          d \<leftarrow> read_bytes from (unat (word_of_int flen :: u32));
          let j = flen - 1;
          case scan_ff (tl d) 0 of
            None \<Rightarrow> Some (-1, to)
          | Some (i, p) \<Rightarrow>
              if i = j then Some (-1, to)
              else if i < 8 then Some (-1, to)
              else do {
                let j = j - (i + 1);
                if tlen < j then Some (-1, to)
                else do { to \<leftarrow> poke to 0 p; Some (j, to) } } } })"

section \<open>Block type 2\<close>

text \<open>The loop over \<open>em[i..]\<close>, with \<open>found_zero_byte\<close> and \<open>zero_index\<close>.\<close>

fun scan_zero :: "byte list \<Rightarrow> int \<Rightarrow> u32 \<Rightarrow> int \<Rightarrow> int" where
  "scan_zero [] i found_zero_byte zero_index = zero_index"
| "scan_zero (x # xs) i found_zero_byte zero_index =
     (let equals0 = constant_time_is_zero (ucast x) in
      scan_zero xs (i + 1) (found_zero_byte OR equals0)
        (constant_time_select_int (NOT found_zero_byte AND equals0) i zero_index))"

text \<open>The checks on the block \<open>em\<close> of \<open>num\<close> bytes, and the function; \<open>ok\<close> is whether the block can be allocated.\<close>

definition check_block :: "byte list \<Rightarrow> byte list \<Rightarrow> int \<Rightarrow> int \<Rightarrow> (int \<times> byte list) option" where
  "check_block em to tlen num =
     (let good = constant_time_is_zero (ucast (em ! 0));
          good = good AND constant_time_eq (ucast (em ! 1)) 2;
          zero_index = scan_zero (drop 2 em) 2 0 0;
          good = good AND constant_time_ge (word_of_int zero_index) (2 + 8);
          msg_index = zero_index + 1;
          mlen = num - msg_index;
          good = good AND constant_time_ge (word_of_int tlen) (word_of_int mlen)
      in if good = 0 then Some (-1, to)
         else do {
           to \<leftarrow> poke to 0 (slice em (nat msg_index) (nat mlen));
           Some (mlen, to) })"

definition RSA_padding_check_PKCS1_type_2 :: "bool \<Rightarrow> byte list \<Rightarrow> int \<Rightarrow> buffer \<Rightarrow> int \<Rightarrow> int \<Rightarrow> (int \<times> byte list) option" where
  "RSA_padding_check_PKCS1_type_2 ok to tlen from flen num =
     (if tlen < 0 \<or> flen < 0 then Some (-1, to)
      else if num < flen then Some (-1, to)
      else if num < 11 then Some (-1, to)
      else if \<not> ok then Some (-1, to)
      else do {
        d \<leftarrow> read_bytes from (nat flen);
        check_block (replicate (nat (num - flen)) 0 @ d) to tlen num })"

section \<open>The helpers compute masks\<close>

definition mask_of :: "bool \<Rightarrow> u32" where
  "mask_of b = (if b then -1 else 0)"

lemma mask_of_bits [simp]:
  "mask_of a AND mask_of b = mask_of (a \<and> b)" "mask_of a OR mask_of b = mask_of (a \<or> b)" "NOT (mask_of a) = mask_of (\<not> a)"
  "mask_of a = 0 \<longleftrightarrow> \<not> a"
  by (simp_all add: mask_of_def)

lemma bit_31: "bit (a :: u32) 31 \<longleftrightarrow> 2 ^ 31 \<le> uint a"
proof -
  have "uint a < 2 ^ 32" using uint_lt2p [of a] by simp
  then have "uint a div 2 ^ 31 = (if 2 ^ 31 \<le> uint a then 1 else 0)"
    using uint_ge_0 [of a] by (auto simp: div_pos_pos_trivial intro!: int_div_pos_eq [where r = "uint a - 2 ^ 31"])
  moreover have "bit (uint a) 31 = bit a 31" by (simp add: bit_uint_iff)
  then have "bit a 31 \<longleftrightarrow> odd (uint a div 2 ^ 31)" by (simp add: bit_iff_odd)
  ultimately show ?thesis by simp
qed

lemma constant_time_msb_mask: "constant_time_msb a = mask_of (bit a 31)"
proof -
  have "drop_bit 31 a = of_bool (bit a 31)"
  proof (rule bit_word_eqI)
    fix n :: nat assume "n < LENGTH(32)"
    show "bit (drop_bit 31 a) n = bit (of_bool (bit a 31) :: u32) n"
      using bit_imp_le_length [of a "31 + n"] by (cases n) (auto simp: bit_drop_bit_eq bit_of_bool_iff)
  qed
  then show ?thesis by (simp add: constant_time_msb_def mask_of_def)
qed

lemma uint_minus: "uint ((a :: u32) - b) = (if uint b \<le> uint a then uint a - uint b else uint a - uint b + 2 ^ 32)"
  using uint_sub_if_size [of a b] by (simp add: word_size)

lemma constant_time_is_zero_mask: "constant_time_is_zero a = mask_of (a = 0)"
proof (cases "a = 0")
  case False
  then have "1 \<le> uint a" using uint_ge_0 [of a] unsigned_eq_0_iff [of a, where ?'a = int] by linarith
  then have "uint (a - 1) = uint a - 1" by (simp add: uint_minus)
  moreover have "bit (NOT a AND (a - 1)) 31 \<longleftrightarrow> \<not> bit a 31 \<and> bit (a - 1) 31" by (simp add: bit_and_iff bit_not_iff)
  ultimately show ?thesis using False by (simp add: constant_time_is_zero_def constant_time_msb_mask bit_31 mask_of_def) linarith
qed (simp add: constant_time_is_zero_def constant_time_msb_mask mask_of_def)

lemma constant_time_eq_mask: "constant_time_eq a b = mask_of (a = b)"
proof -
  have "a XOR b = 0 \<longleftrightarrow> a = b" by (metis xor.assoc xor.right_neutral xor_self_eq xor.left_neutral)
  then show ?thesis by (simp add: constant_time_eq_def constant_time_is_zero_mask)
qed

lemma top_bit_less:
  assumes "0 \<le> x" and "x < 2 ^ 32" and "0 \<le> y" and "y < (2 :: int) ^ 32"
  shows "((2 ^ 31 \<le> x) \<noteq> ((2 ^ 31 \<le> x) \<noteq> (2 ^ 31 \<le> y) \<or> (2 ^ 31 \<le> (if y \<le> x then x - y else x - y + 2 ^ 32)) \<noteq> (2 ^ 31 \<le> y))) \<longleftrightarrow> x < y"
  using assms by (cases "y \<le> x"; cases "2 ^ 31 \<le> x"; cases "2 ^ 31 \<le> y") auto

lemma constant_time_lt_mask: "constant_time_lt a b = mask_of (a < b)"
proof -
  have r: "0 \<le> uint a" "uint a < 2 ^ 32" "0 \<le> uint b" "uint b < 2 ^ 32" using uint_lt2p [of a] uint_lt2p [of b] by simp_all
  have "bit (a XOR ((a XOR b) OR ((a - b) XOR b))) 31 \<longleftrightarrow>
      bit a 31 \<noteq> (bit a 31 \<noteq> bit b 31 \<or> bit (a - b) 31 \<noteq> bit b 31)"
    by (simp add: bit_xor_iff bit_or_iff)
  also have "\<dots> \<longleftrightarrow> uint a < uint b" unfolding bit_31 uint_minus by (rule top_bit_less [OF r])
  finally show ?thesis by (simp add: constant_time_lt_def constant_time_msb_mask word_less_def)
qed

lemma constant_time_ge_mask: "constant_time_ge a b = mask_of (b \<le> a)"
  by (simp add: constant_time_ge_def constant_time_lt_mask not_less)

lemma constant_time_select_mask: "constant_time_select (mask_of c) a b = (if c then a else b)"
  by (simp add: constant_time_select_def mask_of_def)

section \<open>Block type 2, with branches\<close>

text \<open>The message of an encryption block: after two fixed bytes, at least eight non-zero ones and a zero.\<close>

definition pkcs1_message :: "byte list \<Rightarrow> byte list option" where
  "pkcs1_message em = (case em of
     x # y # r \<Rightarrow> let ps = takeWhile (\<lambda>b. b \<noteq> 0) r in
       if x = 0 \<and> y = 2 \<and> 8 \<le> length ps \<and> length ps < length r then Some (drop (length ps + 1) r) else None
   | _ \<Rightarrow> None)"

lemma unat_ucast_byte: "unat (ucast (x :: byte) :: u32) = unat x"
  using unat_less_2p [of x] by (simp add: unsigned_ucast_eq take_bit_nat_eq_self)

lemma ucast_byte [simp]: "(ucast (x :: byte) :: u32) = 0 \<longleftrightarrow> x = 0" "(ucast (x :: byte) :: u32) = 2 \<longleftrightarrow> x = 2"
  by (simp_all add: word_unat_eq_iff unat_ucast_byte)

lemma sint_int: "- (2 ^ 31) \<le> i \<Longrightarrow> i < 2 ^ 31 \<Longrightarrow> sint (word_of_int i :: u32) = i"
  by (simp add: signed_of_int signed_take_bit_int_eq_self)

lemma select_int_mask:
  "- (2 ^ 31) \<le> a \<Longrightarrow> a < 2 ^ 31 \<Longrightarrow> - (2 ^ 31) \<le> b \<Longrightarrow> b < 2 ^ 31 \<Longrightarrow>
   constant_time_select_int (mask_of c) a b = (if c then a else b)"
  by (simp add: constant_time_select_int_def constant_time_select_mask sint_int)

lemma scan_zero_found:
  "0 \<le> i \<Longrightarrow> i + int (length xs) < 2 ^ 31 \<Longrightarrow> 0 \<le> z \<Longrightarrow> z < 2 ^ 31 \<Longrightarrow> scan_zero xs i (mask_of True) z = z"
proof (induction xs arbitrary: i)
  case (Cons x xs)
  then show ?case by (simp add: constant_time_is_zero_mask select_int_mask Let_def)
qed simp

lemma scan_zero_eq:
  "0 \<le> i \<Longrightarrow> i + int (length xs) < 2 ^ 31 \<Longrightarrow>
   scan_zero xs i (mask_of False) 0 =
     (let ps = takeWhile (\<lambda>b. b \<noteq> 0) xs in if length ps < length xs then i + int (length ps) else 0)"
proof (induction xs arbitrary: i)
  case (Cons x xs)
  then show ?case
    by (simp add: constant_time_is_zero_mask select_int_mask scan_zero_found Let_def)
qed simp

lemma word_of_int_le: "0 \<le> a \<Longrightarrow> a < 2 ^ 31 \<Longrightarrow> 0 \<le> b \<Longrightarrow> b < 2 ^ 31 \<Longrightarrow> (word_of_int a :: u32) \<le> word_of_int b \<longleftrightarrow> a \<le> b"
  by (simp add: word_le_def unsigned_of_int take_bit_int_eq_self)

lemma check_block_eq:
  assumes "11 \<le> num" and "num < 2 ^ 31" and "0 \<le> tlen" and "tlen < 2 ^ 31" and "nat tlen \<le> length to" and "length em = nat num"
  shows "check_block em to tlen num =
    Some (case pkcs1_message em of
       None \<Rightarrow> (-1, to)
     | Some m \<Rightarrow> if int (length m) \<le> tlen then (int (length m), m @ drop (length m) to) else (-1, to))"
proof -
  obtain x y r where em: "em = x # y # r" "length r = nat num - 2"
    using assms(1,6) by (cases em; cases "tl em") auto
  define n where "n = length (takeWhile (\<lambda>b. b \<noteq> 0) r)"
  define zi where "zi = (if n < length r then 2 + int n else 0)"
  have n: "n \<le> length r" by (simp add: n_def length_takeWhile_le)
  have z: "scan_zero (drop 2 em) 2 0 0 = zi"
    using scan_zero_eq [of 2 r] assms(1,2) em by (simp add: mask_of_def n_def Let_def zi_def)
  define len where "len = num - (zi + 1)"
  have l: "0 \<le> len" "len < 2 ^ 31" "0 \<le> zi" "zi < 2 ^ 31" using n em(2) assms by (auto simp: zi_def len_def)
  have g: "constant_time_ge (word_of_int zi) (2 + 8) = mask_of (n < length r \<and> 8 \<le> n)"
    using word_of_int_le [of 10 zi] l by (auto simp: zi_def constant_time_ge_mask)
  have t: "constant_time_ge (word_of_int tlen) (word_of_int len) = mask_of (len \<le> tlen)"
    using word_of_int_le l assms by (simp add: constant_time_ge_mask)
  have m: "pkcs1_message em = (if x = 0 \<and> y = 2 \<and> 8 \<le> n \<and> n < length r then Some (drop (n + 1) r) else None)"
    by (simp add: pkcs1_message_def em(1) n_def Let_def)
  have "check_block em to tlen num =
      (if x = 0 \<and> y = 2 \<and> (n < length r \<and> 8 \<le> n) \<and> len \<le> tlen
       then do { to \<leftarrow> poke to 0 (slice em (nat (zi + 1)) (nat len)); Some (len, to) } else Some (-1, to))"
    unfolding check_block_def Let_def z len_def [symmetric] g t by (simp add: em(1) constant_time_is_zero_mask constant_time_eq_mask)
  moreover have "slice em (nat (zi + 1)) (nat len) = drop (n + 1) r" "len = int (length (drop (n + 1) r))" if "n < length r"
    using that em assms(1) by (auto simp: zi_def len_def slice_def nat_add_distrib numeral_3_eq_3)
  ultimately show ?thesis using assms(5) by (auto simp: m poke_def)
qed

lemma check_type_2_eq:
  assumes "0 \<le> flen" and "flen \<le> num" and "11 \<le> num" and "num < 2 ^ 31" and "0 \<le> tlen" and "tlen < 2 ^ 31"
    and "read_bytes from (nat flen) = Some d" and "nat tlen \<le> length to"
  shows "RSA_padding_check_PKCS1_type_2 True to tlen from flen num =
    Some (case pkcs1_message (replicate (nat (num - flen)) 0 @ d) of
       None \<Rightarrow> (-1, to)
     | Some m \<Rightarrow> if int (length m) \<le> tlen then (int (length m), m @ drop (length m) to) else (-1, to))"
proof -
  have "length d = nat flen" using assms(7) by (auto simp: read_bytes_def split: if_splits option.splits)
  then have "length (replicate (nat (num - flen)) 0 @ d) = nat num" using assms by simp
  from check_block_eq [OF assms(3-6,8) this] assms show ?thesis by (simp add: RSA_padding_check_PKCS1_type_2_def)
qed

text \<open>
  C38: the check of block type 2 computes what its branching description says. \<open>RSA_padding_check_PKCS1_type_2\<close>
  is written with masks so that its time does not depend on the decrypted bytes. For every block of up to
  \<open>2 ^ 31 - 1\<close> bytes it returns the length of the message and copies the message, if the block is well formed
  and the message fits, and otherwise -1 with the output untouched; it never writes outside of the output.
\<close>

theorem check_type_2_constant_time:
  assumes "0 \<le> flen" and "flen \<le> num" and "11 \<le> num" and "num < 2 ^ 31" and "0 \<le> tlen" and "tlen < 2 ^ 31"
    and "read_bytes from (nat flen) = Some d" and "nat tlen \<le> length to"
  shows "RSA_padding_check_PKCS1_type_2 True to tlen from flen num =
    Some (case pkcs1_message (replicate (nat (num - flen)) 0 @ d) of
       None \<Rightarrow> (-1, to)
     | Some m \<Rightarrow> if int (length m) \<le> tlen then (int (length m), m @ drop (length m) to) else (-1, to))"
  by (rule check_type_2_eq [OF assms])

theorem check_type_2_constant_time_witness:
  "RSA_padding_check_PKCS1_type_2 True [9, 9, 9] 3 (Some [2, 1, 1, 1, 1, 1, 1, 1, 1, 0, 7, 8]) 12 13 = Some (2, [7, 8, 9])"
  using check_type_2_constant_time [of 12 13 3 "Some [2, 1, 1, 1, 1, 1, 1, 1, 1, 0, 7, 8]" _ "[9, 9, 9]"]
  by (simp add: read_bytes_def pkcs1_message_def)

section \<open>Block type 1\<close>

lemma scan_ff_padding: "scan_ff (replicate n 0xFF @ 0 # m) i = Some (i + int n, m)"
  by (induction n arbitrary: i) auto

lemma unat_int: "0 \<le> i \<Longrightarrow> i < 2 ^ 31 \<Longrightarrow> unat (word_of_int i :: u32) = nat i"
  by (simp add: unsigned_of_int take_bit_int_eq_self)

lemma read_all [simp]: "read_bytes (Some b) (length b) = Some b"
  by (simp add: read_bytes_def)

lemma add_type_1_eq:
  assumes "length m + 11 \<le> k" and "k < 2 ^ 31" and "length to = k" and "read_bytes from (length m) = Some m"
  shows "RSA_padding_add_PKCS1_type_1 to (int k) from (int (length m)) =
    Some (1, [0, 1] @ replicate (k - 3 - length m) 0xFF @ [0] @ m)"
proof -
  have n: "nat (int k - 3 - int (length m)) = k - 3 - length m" by simp
  have u: "unat (word_of_int (int (length m)) :: u32) = length m" using assms by (subst unat_int) simp_all
  show ?thesis using assms unfolding RSA_padding_add_PKCS1_type_1_def u Let_def n by (simp add: poke_def)
qed

text \<open>
  block type 1, written and read. For a message of at most \<open>k - 11\<close> bytes, \<open>RSA_padding_add_PKCS1_type_1\<close> fills a
  block of \<open>k\<close> bytes that starts with zero, and \<open>RSA_padding_check_PKCS1_type_1\<close> returns from the rest of it
  exactly the message. It is the block that the PKCS\#11 module builds by itself in \<open>rsa_sign_pkcs\<close>, so a signature
  made through the engine and one made through the module are over the same bytes.
\<close>

theorem padding_type_1_roundtrip:
  assumes "length m + 11 \<le> k" and "k \<le> MAX_RSA_KEYLEN" and "length to = k" and "length m \<le> length out" and "length out < 2 ^ 31"
  shows "\<exists>block. RSA_padding_add_PKCS1_type_1 to (int k) (Some m) (int (length m)) = Some (1, 0 # block) \<and>
    RSA_padding_check_PKCS1_type_1 out (int (length out)) (Some block) (int k - 1) (int k) =
      Some (int (length m), m @ drop (length m) out) \<and>
    padded_block (of_nat k) m = Some (0 # block)"
proof -
  let ?b = "1 # replicate (k - 3 - length m) 0xFF @ 0 # m"
  have k: "k < 2 ^ 31" "unat (of_nat k :: u64) = k" using assms(2) by (simp_all add: unat_of_nat_u64)
  have u: "unat (word_of_int (int k - 1) :: u32) = length ?b" using assms(1) k(1) by (subst unat_int) auto
  have "RSA_padding_check_PKCS1_type_1 out (int (length out)) (Some ?b) (int k - 1) (int k) = Some (int (length m), m @ drop (length m) out)"
    unfolding RSA_padding_check_PKCS1_type_1_def u read_all Let_def using assms
    by (simp add: deref_byte_def scan_ff_padding poke_def)
  moreover have "padded_block (of_nat k) m = Some (0 # ?b)"
    using padded_block_eq [of "of_nat k" m] k assms by simp
  ultimately show ?thesis using add_type_1_eq [OF assms(1) k(1) assms(3) read_all] by auto
qed

theorem padding_type_1_roundtrip_witness:
  "\<exists>block. RSA_padding_add_PKCS1_type_1 (replicate 14 5) 14 (Some [1, 2, 3]) 3 = Some (1, 0 # block) \<and>
    RSA_padding_check_PKCS1_type_1 [4, 4, 4, 4] 4 (Some block) 13 14 = Some (3, [1, 2, 3, 4]) \<and>
    padded_block 14 [1, 2, 3] = Some (0 # block)"
  using padding_type_1_roundtrip [of "[1, 2, 3]" 14 "replicate 14 5" "[4, 4, 4, 4]"] by simp

end
