(* ===== verification/Engine.thy ===== *)
theory Engine
  imports Pkcs1 Object_Mirror
begin

unbundle bit_operations_syntax

text \<open>
  The OpenSSL engine for secure objects, \<open>secure_obj-openssl-engine/eng_secure_obj.c\<close>: the private operations of
  RSA for a key whose private exponent is only a reference to an object of the token. The engine finds
  the object by its index and its modulus and lets the token decrypt the padded block. It calls the client library
  through the functions of \<open>SK_FUNCTION_LIST\<close>. The default methods of OpenSSL and the allocator are
  parameters. A pointer remembers where it points to, so that freeing a variable or a freed block is \<open>None\<close>.
\<close>

section \<open>State and memory\<close>

text \<open>An RSA key, with the two numbers the engine reads.\<close>

record RSA =
  rsa_n :: nat
  rsa_d :: nat

record 't engine_env =
  eng_fns :: "'t SK_FUNCTION_LIST"
  eng_alloc :: "nat \<Rightarrow> nat \<Rightarrow> byte list option"
  default_priv_enc :: "int \<Rightarrow> buffer \<Rightarrow> byte list \<Rightarrow> RSA \<Rightarrow> int \<Rightarrow> int \<times> byte list"
  default_priv_dec :: "int \<Rightarrow> buffer \<Rightarrow> byte list \<Rightarrow> RSA \<Rightarrow> int \<Rightarrow> int \<times> byte list"

record 't engine_state =
  eng_tee :: 't
  eng_live :: "nat set"
  eng_mallocs :: nat

datatype pointer = Null | Stack | Heap nat

text \<open>The \<open>n\<close>-th call of \<open>malloc\<close> returns the block \<open>n\<close>, or fails.\<close>

definition eng_malloc :: "'t engine_env \<Rightarrow> nat \<Rightarrow> 't engine_state \<Rightarrow> (pointer \<times> byte list) option \<times> 't engine_state" where
  "eng_malloc E n s =
     (let k = eng_mallocs s; s = s\<lparr>eng_mallocs := k + 1\<rparr> in
      case eng_alloc E k n of
        None \<Rightarrow> (None, s)
      | Some b \<Rightarrow> (Some (Heap k, b), s\<lparr>eng_live := insert k (eng_live s)\<rparr>))"

text \<open>\<open>if (p) free(p)\<close>.\<close>

fun eng_free :: "pointer \<Rightarrow> 't engine_state \<Rightarrow> 't engine_state option" where
  "eng_free Null s = Some s"
| "eng_free Stack s = None"
| "eng_free (Heap k) s = (if k \<in> eng_live s then Some (s\<lparr>eng_live := eng_live s - {k}\<rparr>) else None)"

fun eng_frees :: "pointer list \<Rightarrow> 't engine_state \<Rightarrow> 't engine_state option" where
  "eng_frees [] s = Some s"
| "eng_frees (p # ps) s = do { s \<leftarrow> eng_free p s; eng_frees ps s }"

section \<open>Numbers as bytes\<close>

definition RSA_size :: "RSA \<Rightarrow> nat" where
  "RSA_size rsa = length (BN_bn2bin (rsa_n rsa))"

section \<open>The key and its object\<close>

abbreviation (input) SOBJ_KEY_ID :: u32 where "SOBJ_KEY_ID \<equiv> 0xE1E2E3E4"
abbreviation (input) MAX_SEC_OBJECTS :: nat where "MAX_SEC_OBJECTS \<equiv> 50"
abbreviation (input) RSA_PKCS1_PADDING :: int where "RSA_PKCS1_PADDING \<equiv> 1"

text \<open>One identifier, collected from four bytes counted from the end; \<open>char\<close> is unsigned on the target.\<close>

definition sobj_key_id :: "byte list \<Rightarrow> nat \<Rightarrow> nat \<Rightarrow> u32 option" where
  "sobj_key_id priv_exp rsa_key_len j =
     (if rsa_key_len < 8 + j * 4 then None
      else Some (foldl (\<lambda>w i. w OR push_bit (8 * (i - 5)) (ucast (priv_exp ! (rsa_key_len - i - j * 4)))) 0 [5, 6, 7, 8]))"

definition key_template :: "u32 \<Rightarrow> SK_ATTRIBUTE list" where
  "key_template key_index =
     [\<lparr>sk_type = SK_ATTR_OBJECT_TYPE, sk_value = Some (put_u32 SK_KEY_PAIR), sk_valueLen = 4\<rparr>,
      \<lparr>sk_type = SK_ATTR_KEY_TYPE, sk_value = Some (put_u32 SKK_RSA), sk_valueLen = 4\<rparr>,
      \<lparr>sk_type = SK_ATTR_OBJECT_INDEX, sk_value = Some (put_u32 key_index), sk_valueLen = 4\<rparr>]"

text \<open>A call of \<open>SK_GetObjectAttribute\<close> for one attribute.\<close>

definition get_attribute ::
    "'t engine_env \<Rightarrow> SK_OBJECT_HANDLE \<Rightarrow> SK_ATTRIBUTE \<Rightarrow> 't engine_state \<Rightarrow> (SK_RET_CODE \<times> SK_ATTRIBUTE \<times> 't engine_state) option" where
  "get_attribute E h a s = do {
     (r, as, t) \<leftarrow> SK_GetObjectAttribute_fn (eng_fns E) h [a] (eng_tee s);
     case as of [a'] \<Rightarrow> Some (r, a', s\<lparr>eng_tee := t\<rparr>) | _ \<Rightarrow> None }"

datatype search = Found SK_OBJECT_HANDLE | NotFound | NoMemory

text \<open>
  The loop over the objects; \<open>p\<close> is the pointer in \<open>attrs[0].value\<close>. The \<open>memset\<close> at the start of an iteration
  drops it without freeing the block. An attribute of length -1 leaves the pointer null. \<open>memcmp\<close>
  reads \<open>n\<close> bytes of the value.
\<close>

fun find_modulus ::
    "'t engine_env \<Rightarrow> byte list \<Rightarrow> nat \<Rightarrow> SK_OBJECT_HANDLE list \<Rightarrow> pointer \<Rightarrow> 't engine_state \<Rightarrow>
     (search \<times> pointer \<times> 't engine_state) option" where
  "find_modulus E modulus n [] p s = Some (NotFound, p, s)"
| "find_modulus E modulus n (h # hs) p s = do {
     (r, a, s) \<leftarrow> get_attribute E h \<lparr>sk_type = SK_ATTR_MODULUS, sk_value = None, sk_valueLen = 0\<rparr> s;
     if r \<noteq> SKR_OK then find_modulus E modulus n hs Null s
     else do {
       let (b, s) = (if sk_valueLen a \<noteq> 0xFFFF then eng_malloc E (unat (sk_valueLen a)) s else (None, s));
       if sk_valueLen a \<noteq> 0xFFFF \<and> b = None then Some (NoMemory, Null, s)
       else do {
         let p = (case b of None \<Rightarrow> Null | Some (p, d) \<Rightarrow> p);
         (r, a, s) \<leftarrow> get_attribute E h (a\<lparr>sk_value := (case b of None \<Rightarrow> sk_value a | Some (p, d) \<Rightarrow> Some d)\<rparr>) s;
         if r \<noteq> SKR_OK then find_modulus E modulus n hs p s
         else do {
           v \<leftarrow> read_bytes (sk_value a) n;
           if v = modulus then Some (Found h, p, s) else find_modulus E modulus n hs p s } } } }"

datatype outcome = Ret int | Key SK_OBJECT_HANDLE

text \<open>\<open>memset\<close> on an attribute.\<close>

definition zeroed :: "pointer \<Rightarrow> pointer" where
  "zeroed p = Null"

text \<open>
  The enumeration and the loop: the result, and the pointers in the three attributes, which point to
  local variables until they are zeroed.
  The handle \<open>0xFFFF\<close> stands for none.
\<close>

definition search_objects ::
    "'t engine_env \<Rightarrow> byte list \<Rightarrow> nat \<Rightarrow> u32 \<Rightarrow> 't engine_state \<Rightarrow> (outcome \<times> pointer list \<times> 't engine_state) option" where
  "search_objects E modulus n key_index s = do {
     (r, hs, t) \<leftarrow> SK_EnumerateObjects_fn (eng_fns E) (key_template key_index) MAX_SEC_OBJECTS (eng_tee s);
     let (s, attrs) = (s\<lparr>eng_tee := t\<rparr>, map zeroed [Stack, Stack, Stack]);
     if r \<noteq> SKR_OK then Some (Ret (-1), attrs, s)
     else if hs = [] then Some (Ret (-1), attrs, s)
     else if MAX_SEC_OBJECTS < length hs then None
     else do {
       (res, p, s) \<leftarrow> find_modulus E modulus n hs (attrs ! 0) s;
       Some (case res of
           NoMemory \<Rightarrow> Ret 0
         | NotFound \<Rightarrow> Ret (-1)
         | Found h \<Rightarrow> if h = 0xFFFF then Ret (-1) else Key h, attrs[0 := p], s) } }"

text \<open>
  From the start of the two operations to the point where the object is known. The pointers are
  \<open>modulus\<close>, \<open>priv_exp\<close> and those of the attributes, in the order in which they are freed.
\<close>

definition find_object :: "'t engine_env \<Rightarrow> RSA \<Rightarrow> 't engine_state \<Rightarrow> (outcome \<times> pointer list \<times> 't engine_state) option" where
  "find_object E rsa s =
     (let n = RSA_size rsa; (b, s) = eng_malloc E n s in
      case b of
        None \<Rightarrow> Some (Ret (-1), [], s)
      | Some (pp, priv_exp) \<Rightarrow>
          let (b, s) = eng_malloc E n s in
          case b of
            None \<Rightarrow> Some (Ret (-1), [pp], s)
          | Some (pm, modulus) \<Rightarrow> do {
              priv_exp \<leftarrow> poke priv_exp 0 (BN_bn2bin (rsa_d rsa));
              modulus \<leftarrow> poke modulus 0 (BN_bn2bin (rsa_n rsa));
              id0 \<leftarrow> sobj_key_id priv_exp n 0;
              id1 \<leftarrow> sobj_key_id priv_exp n 1;
              if \<not> (id0 = SOBJ_KEY_ID \<and> id1 = SOBJ_KEY_ID) then Some (Ret (-2), [pm, pp], s)
              else do {
                let key_index = ucast (priv_exp ! (n - 1));
                (k, ps, s) \<leftarrow> search_objects E modulus n key_index s;
                Some (k, pm # pp # ps, s) } })"

section \<open>The private operations\<close>

text \<open>The signature once the object is known: the return value, the output, the pointer \<open>padded_from\<close>.\<close>

definition enc_with_object ::
    "'t engine_env \<Rightarrow> int \<Rightarrow> buffer \<Rightarrow> byte list \<Rightarrow> nat \<Rightarrow> int \<Rightarrow> SK_OBJECT_HANDLE \<Rightarrow> 't engine_state \<Rightarrow>
     (int \<times> byte list \<times> pointer \<times> 't engine_state) option" where
  "enc_with_object E flen from to n padding h s =
     (let out_len = of_nat n; (b, s) = eng_malloc E n s in
      case b of
        None \<Rightarrow> Some (-1, to, Null, s)
      | Some (p, padded_from) \<Rightarrow>
          if padding \<noteq> RSA_PKCS1_PADDING then Some (-1, to, p, s)
          else do {
            (ret, padded_from) \<leftarrow> RSA_padding_add_PKCS1_type_1 padded_from (int n) from flen;
            if ret = 0 then Some (-1, to, p, s)
            else do {
              inp \<leftarrow> read_bytes (Some padded_from) (unat (of_nat n :: u16));
              (r, out, m, t) \<leftarrow> SK_Decrypt_fn (eng_fns E) SKM_RSA_PKCS_NOPAD h inp (Some to) out_len (eng_tee s);
              to \<leftarrow> out;
              Some (if r \<noteq> SKR_OK then -1 else int n, to, p, s\<lparr>eng_tee := t\<rparr>) } })"

definition secure_obj_rsa_priv_enc ::
    "'t engine_env \<Rightarrow> int \<Rightarrow> buffer \<Rightarrow> byte list \<Rightarrow> RSA \<Rightarrow> int \<Rightarrow> 't engine_state \<Rightarrow> (int \<times> byte list \<times> 't engine_state) option" where
  "secure_obj_rsa_priv_enc E flen from to rsa padding s = do {
     (k, ps, s) \<leftarrow> find_object E rsa s;
     (ret, to, p, s) \<leftarrow> (case k of
         Ret r \<Rightarrow> Some (r, to, Null, s)
       | Key h \<Rightarrow> enc_with_object E flen from to (RSA_size rsa) padding h s);
     s \<leftarrow> eng_frees (p # ps) s;
     let (ret, to) = (if ret = -2 then default_priv_enc E flen from to rsa padding else (ret, to));
     Some (ret, to, s) }"

text \<open>The decryption once the object is known; \<open>RSA_padding_check_PKCS1_type_2\<close> allocates and frees a block.\<close>

definition dec_with_object ::
    "'t engine_env \<Rightarrow> int \<Rightarrow> buffer \<Rightarrow> byte list \<Rightarrow> nat \<Rightarrow> int \<Rightarrow> SK_OBJECT_HANDLE \<Rightarrow> 't engine_state \<Rightarrow>
     (int \<times> byte list \<times> pointer \<times> 't engine_state) option" where
  "dec_with_object E flen from to n padding h s =
     (let (b, s) = eng_malloc E n s in
      case b of
        None \<Rightarrow> Some (-1, to, Null, s)
      | Some (p, padded_to) \<Rightarrow> do {
          inp \<leftarrow> read_bytes from (unat (word_of_int flen :: u16));
          (r, out, out_len, t) \<leftarrow> SK_Decrypt_fn (eng_fns E) SKM_RSA_PKCS_NOPAD h inp (Some padded_to) (of_nat n) (eng_tee s);
          let s = s\<lparr>eng_tee := t\<rparr>;
          if r \<noteq> SKR_OK then Some (-1, to, p, s)
          else if padding \<noteq> RSA_PKCS1_PADDING then Some (-1, to, p, s)
          else do {
            let (em, s) = (if unat out_len \<le> n \<and> 11 \<le> n then eng_malloc E n s else (None, s));
            (ret, to) \<leftarrow> RSA_padding_check_PKCS1_type_2 (em \<noteq> None) to (int n) out (int (unat out_len)) (int n);
            s \<leftarrow> eng_free (case em of None \<Rightarrow> Null | Some (q, d) \<Rightarrow> q) s;
            Some (ret, to, p, s) } })"

definition secure_obj_rsa_priv_dec ::
    "'t engine_env \<Rightarrow> int \<Rightarrow> buffer \<Rightarrow> byte list \<Rightarrow> RSA \<Rightarrow> int \<Rightarrow> 't engine_state \<Rightarrow> (int \<times> byte list \<times> 't engine_state) option" where
  "secure_obj_rsa_priv_dec E flen from to rsa padding s = do {
     (k, ps, s) \<leftarrow> find_object E rsa s;
     (ret, to, p, s) \<leftarrow> (case k of
         Ret r \<Rightarrow> Some (r, to, Null, s)
       | Key h \<Rightarrow> dec_with_object E flen from to (RSA_size rsa) padding h s);
     s \<leftarrow> eng_frees (p # ps) s;
     let (ret, to) = (if ret = -2 then default_priv_dec E flen from to rsa padding else (ret, to));
     Some (ret, to, s) }"

section \<open>Binding the engine\<close>

text \<open>
  \<open>bind\<close> registers the engine with OpenSSL: the methods of \<open>secureobj_rsa\<close> are those of the engine, the default ones or
  none. The parameters are the results of the calls of OpenSSL, in their order.
\<close>

datatype rsa_method = NoMethod | DefaultMethod | EngineMethod

record RSA_METHOD =
  rsa_pub_enc :: rsa_method
  rsa_pub_dec :: rsa_method
  rsa_priv_enc :: rsa_method
  rsa_priv_dec :: rsa_method
  rsa_mod_exp :: rsa_method
  bn_mod_exp :: rsa_method
  rsa_init :: rsa_method
  rsa_finish :: rsa_method
  rsa_flags :: int
  rsa_sign :: rsa_method
  rsa_verify :: rsa_method
  rsa_keygen :: rsa_method

definition bind_engine :: "bool \<Rightarrow> bool \<Rightarrow> bool \<Rightarrow> bool \<Rightarrow> RSA_METHOD \<Rightarrow> int \<times> RSA_METHOD" where
  "bind_engine set_id set_name set_RSA set_default secureobj_rsa =
     (if \<not> set_id \<or> \<not> set_name then (0, secureobj_rsa)
      else if set_RSA then
        let secureobj_rsa = \<lparr>rsa_pub_enc = DefaultMethod, rsa_pub_dec = DefaultMethod, rsa_priv_enc = EngineMethod, rsa_priv_dec = EngineMethod,
          rsa_mod_exp = DefaultMethod, bn_mod_exp = DefaultMethod, rsa_init = NoMethod, rsa_finish = NoMethod, rsa_flags = 0,
          rsa_sign = NoMethod, rsa_verify = NoMethod, rsa_keygen = DefaultMethod\<rparr>
        in if \<not> set_default then (0, secureobj_rsa) else (1, secureobj_rsa)
      else (0, secureobj_rsa))"

text \<open>Exactly the private operations are taken over, and only if every call succeeds is the engine reported as bound.\<close>

lemma bind_engine_bound:
  "fst (bind_engine a b c d t) = 1 \<longleftrightarrow> a \<and> b \<and> c \<and> d"
  "fst (bind_engine a b c d t) = 1 \<Longrightarrow> let t' = snd (bind_engine a b c d t) in
     {rsa_priv_enc t', rsa_priv_dec t'} = {EngineMethod} \<and>
     EngineMethod \<notin> {rsa_pub_enc t', rsa_pub_dec t', rsa_mod_exp t', bn_mod_exp t', rsa_sign t', rsa_verify t', rsa_keygen t'}"
  by (auto simp: bind_engine_def Let_def split: if_splits)

section \<open>Ownership\<close>

definition heap_ids :: "pointer list \<Rightarrow> nat list" where
  "heap_ids ps = concat (map (\<lambda>p. case p of Heap k \<Rightarrow> [k] | _ \<Rightarrow> []) ps)"

lemma heap_ids_simps [simp]:
  "heap_ids [] = []" "heap_ids (Null # ps) = heap_ids ps" "heap_ids (Stack # ps) = heap_ids ps" "heap_ids (Heap k # ps) = k # heap_ids ps"
  by (simp_all add: heap_ids_def)

text \<open>Pointers that can be freed one after the other.\<close>

definition owns :: "pointer list \<Rightarrow> nat set \<Rightarrow> bool" where
  "owns ps live \<longleftrightarrow> Stack \<notin> set ps \<and> distinct (heap_ids ps) \<and> set (heap_ids ps) \<subseteq> live"

lemma eng_frees_owns:
  "owns ps (eng_live s) \<Longrightarrow> eng_frees ps s = Some (s\<lparr>eng_live := eng_live s - set (heap_ids ps)\<rparr>)"
proof (induction ps arbitrary: s)
  case (Cons p ps)
  show ?case
  proof (cases p)
    case (Heap k)
    with Cons.prems have "owns ps (eng_live (s\<lparr>eng_live := eng_live s - {k}\<rparr>))" by (auto simp: owns_def)
    from Cons.IH [OF this] Cons.prems Heap show ?thesis by (auto simp: owns_def Diff_insert2 [symmetric] insert_Diff_if)
  qed (use Cons in \<open>auto simp: owns_def\<close>)
qed simp

text \<open>Blocks are numbered in the order of their allocation.\<close>

definition numbered :: "'t engine_state \<Rightarrow> bool" where
  "numbered s \<longleftrightarrow> eng_live s \<subseteq> {..< eng_mallocs s}"

definition alloc_ok :: "'t engine_env \<Rightarrow> bool" where
  "alloc_ok E \<longleftrightarrow> (\<forall>k n b. eng_alloc E k n = Some b \<longrightarrow> length b = n)"

lemma eng_malloc_cases:
  assumes "eng_malloc E n s = (b, s')" and "numbered s" and "alloc_ok E"
  obtains (none) "b = None" "eng_live s' = eng_live s" "numbered s'" "eng_tee s' = eng_tee s" "eng_mallocs s \<le> eng_mallocs s'"
  | (some) k d where "b = Some (Heap k, d)" "eng_live s' = insert k (eng_live s)" "k \<notin> eng_live s" "length d = n" "numbered s'"
      "eng_tee s' = eng_tee s" "eng_mallocs s \<le> k" "eng_mallocs s \<le> eng_mallocs s'"
proof (cases "eng_alloc E (eng_mallocs s) n")
  case None
  with assms show ?thesis by (intro none) (auto simp: eng_malloc_def Let_def numbered_def)
next
  case (Some d)
  with assms show ?thesis by (intro some [of "eng_mallocs s" d]) (auto simp: eng_malloc_def Let_def numbered_def alloc_ok_def)
qed

section \<open>Finding the object\<close>

text \<open>
  The client library as documented: every call returns; attributes are answered from a table if the
  call succeeds and untouched otherwise; at most as many handles are returned as there is room for.
\<close>

definition truthful :: "'t SK_FUNCTION_LIST \<Rightarrow> (SK_OBJECT_HANDLE \<Rightarrow> u32 \<Rightarrow> byte list option) \<Rightarrow> bool" where
  "truthful F tok \<longleftrightarrow>
     (\<forall>h as t. \<exists>r t'. SK_GetObjectAttribute_fn F h as t = Some (r, if r = SKR_OK then map (sk_answer (tok h)) as else as, t')) \<and>
     (\<forall>as t. \<exists>r hs t'. SK_EnumerateObjects_fn F as MAX_SEC_OBJECTS t = Some (r, hs, t') \<and> length hs \<le> MAX_SEC_OBJECTS) \<and>
     (\<forall>m h i b n t. unat n \<le> length b \<longrightarrow>
       (\<exists>r b' n' t'. SK_Decrypt_fn F m h i (Some b) n t = Some (r, Some b', n', t') \<and> length b' = length b))"

lemma get_attribute_truthful:
  assumes "truthful (eng_fns E) tok"
  obtains r t where "get_attribute E h a s = Some (r, if r = SKR_OK then sk_answer (tok h) a else a, s\<lparr>eng_tee := t\<rparr>)"
proof -
  have "\<exists>r t'. SK_GetObjectAttribute_fn (eng_fns E) h [a] (eng_tee s) = Some (r, if r = SKR_OK then map (sk_answer (tok h)) [a] else [a], t')"
    using assms [unfolded truthful_def, THEN conjunct1, rule_format, of h "[a]" "eng_tee s"] .
  with that show ?thesis by (auto simp: get_attribute_def split: if_splits)
qed

text \<open>A key object: its modulus has at least \<open>n\<close> bytes and a length that is not taken for -1.\<close>

definition has_modulus :: "(u32 \<Rightarrow> byte list option) \<Rightarrow> nat \<Rightarrow> bool" where
  "has_modulus tok n \<longleftrightarrow> (\<exists>w. tok SK_ATTR_MODULUS = Some w \<and> n \<le> length w \<and> length w < 0xFFFF)"

text \<open>What the loop leaves: the block of the last object and the blocks it lost.\<close>

definition left_over :: "nat set \<Rightarrow> nat set \<Rightarrow> pointer \<Rightarrow> nat \<Rightarrow> bool" where
  "left_over live live' p n \<longleftrightarrow> p \<noteq> Stack \<and> live \<subseteq> live' \<and> set (heap_ids [p]) \<subseteq> live' - live \<and> finite (live' - live) \<and>
     card (live' - live - set (heap_ids [p])) \<le> n"

lemma left_over_null [simp]: "left_over live live Null n"
  by (simp add: left_over_def)

lemma left_over_new: "k \<notin> live \<Longrightarrow> left_over live (insert k live) (Heap k) n"
  by (auto simp: left_over_def insert_Diff_if)

text \<open>An iteration that goes on loses its block.\<close>

lemma left_over_step:
  assumes "left_over live live1 p n" and "left_over live1 live2 p' m"
  shows "left_over live live2 p' (n + card (set (heap_ids [p])) + m)"
proof -
  note d = assms [unfolded left_over_def]
  let ?P = "set (heap_ids [p])" and ?P' = "set (heap_ids [p'])"
  have u: "live2 - live - ?P' = (live1 - live - ?P) \<union> ?P \<union> (live2 - live1 - ?P')" using d by auto
  have "card (live2 - live - ?P') \<le> card (live1 - live - ?P) + card ?P + card (live2 - live1 - ?P')"
    unfolding u by (meson card_Un_le le_trans add_le_mono1)
  moreover have "live2 - live = (live1 - live) \<union> (live2 - live1)" using d by auto
  ultimately show ?thesis using d by (auto simp: left_over_def)
qed

lemma card_heap_id: "card (set (heap_ids [p])) \<le> 1"
  by (cases p) simp_all

lemma left_over_mono: "left_over a b p n \<Longrightarrow> n \<le> m \<Longrightarrow> left_over a b p m"
  by (auto simp: left_over_def)

text \<open>The result of the loop: the first object with this modulus whose calls succeed.\<close>

definition found :: "(SK_OBJECT_HANDLE \<Rightarrow> u32 \<Rightarrow> byte list option) \<Rightarrow> byte list \<Rightarrow> SK_OBJECT_HANDLE list \<Rightarrow> search \<Rightarrow> bool" where
  "found tok modulus hs res \<longleftrightarrow> (\<forall>h. res = Found h \<longrightarrow> h \<in> set hs \<and>
     (\<exists>w. tok h SK_ATTR_MODULUS = Some w \<and> take (length modulus) w = modulus))"

text \<open>The rest of the list, after an object that did not match.\<close>

lemma find_modulus_rest:
  assumes "\<forall>p s. numbered s \<longrightarrow> p \<noteq> Stack \<longrightarrow>
      (\<exists>res p' s'. F hs p s = Some (res, p', s') \<and> found tok modulus hs res \<and> numbered s' \<and>
        (if hs = [] then p' = p \<and> s' = s else left_over (eng_live s) (eng_live s') p' (length hs - 1)))"
    and "numbered s1" and "left_over (eng_live s) (eng_live s1) q 0"
  shows "\<exists>res p' s'. F hs q s1 = Some (res, p', s') \<and> found tok modulus (h # hs) res \<and> numbered s' \<and>
    left_over (eng_live s) (eng_live s') p' (length hs)"
proof -
  have "q \<noteq> Stack" using assms(3) by (simp add: left_over_def)
  from assms(1) assms(2) this obtain res p' s' where
    i: "F hs q s1 = Some (res, p', s')" "found tok modulus hs res" "numbered s'"
      "if hs = [] then p' = q \<and> s' = s1 else left_over (eng_live s1) (eng_live s') p' (length hs - 1)" by meson
  have "left_over (eng_live s) (eng_live s') p' (length hs)"
  proof (cases "hs = []")
    case False
    with i(4) left_over_step [OF assms(3), of "eng_live s'" p' "length hs - 1"] card_heap_id [of q] show ?thesis
      by (auto elim!: left_over_mono simp: Suc_leI)
  qed (use i(4) assms(3) in simp)
  with i show ?thesis by (auto simp: found_def)
qed

lemma find_modulus_spec:
  assumes "truthful (eng_fns E) tok" and "alloc_ok E"
  shows "\<lbrakk>\<forall>h \<in> set hs. has_modulus (tok h) (length modulus); numbered s; p \<noteq> Stack\<rbrakk> \<Longrightarrow>
    \<exists>res p' s'. find_modulus E modulus (length modulus) hs p s = Some (res, p', s') \<and> found tok modulus hs res \<and> numbered s' \<and>
      (if hs = [] then p' = p \<and> s' = s else left_over (eng_live s) (eng_live s') p' (length hs - 1))"
proof (induction hs arbitrary: p s)
  case Nil
  then show ?case by (simp add: found_def)
next
  case (Cons h hs)
  from Cons.prems(1) obtain w where w: "tok h SK_ATTR_MODULUS = Some w" "length modulus \<le> length w" "length w < 0xFFFF"
    by (auto simp: has_modulus_def)
  have rest: "\<exists>res p' s'. find_modulus E modulus (length modulus) hs q s1 = Some (res, p', s') \<and> found tok modulus (h # hs) res \<and>
      numbered s' \<and> left_over (eng_live s) (eng_live s') p' (length hs)"
    if "numbered s1" "left_over (eng_live s) (eng_live s1) q 0" for q s1
    by (rule find_modulus_rest [OF _ that]) (intro allI impI Cons.IH, use Cons.prems(1) in simp_all)
  let ?q = "\<lparr>sk_type = SK_ATTR_MODULUS, sk_value = None, sk_valueLen = 0\<rparr>"
  obtain r1 t1 where 1: "get_attribute E h ?q s = Some (r1, if r1 = SKR_OK then sk_answer (tok h) ?q else ?q, s\<lparr>eng_tee := t1\<rparr>)"
    by (rule get_attribute_truthful [OF assms(1)])
  have n1: "numbered (s\<lparr>eng_tee := t1\<rparr>)" using Cons.prems(2) by (simp add: numbered_def)
  show ?case
  proof (cases "r1 = SKR_OK")
    case False
    with rest [OF n1, of Null] 1 show ?thesis by simp
  next
    case True
    have a: "sk_answer (tok h) ?q = \<lparr>sk_type = SK_ATTR_MODULUS, sk_value = None, sk_valueLen = of_nat (length w)\<rparr>"
      using w(1) by (simp add: sk_answer_def)
    have u: "unat (of_nat (length w) :: u16) = length w" "(of_nat (length w) :: u16) \<noteq> 0xFFFF"
      using w(3) by (simp_all add: unat_of_nat take_bit_nat_eq_self word_unat_eq_iff)
    obtain b s2 where 2: "eng_malloc E (length w) (s\<lparr>eng_tee := t1\<rparr>) = (b, s2)" by (metis surj_pair)
    from 2 n1 assms(2) show ?thesis
    proof (cases rule: eng_malloc_cases)
      case none
      then show ?thesis using 1 True a u 2 by (simp add: found_def)
    next
      case (some k d)
      let ?a = "\<lparr>sk_type = SK_ATTR_MODULUS, sk_value = Some d, sk_valueLen = of_nat (length w)\<rparr>"
      obtain r3 t3 where 3: "get_attribute E h ?a s2 = Some (r3, if r3 = SKR_OK then sk_answer (tok h) ?a else ?a, s2\<lparr>eng_tee := t3\<rparr>)"
        by (rule get_attribute_truthful [OF assms(1)])
      have a3: "sk_value (sk_answer (tok h) ?a) = Some w" using w(1) some(4) u by (simp add: sk_answer_def)
      have n3: "numbered (s2\<lparr>eng_tee := t3\<rparr>)" using some(5) by (simp add: numbered_def)
      have l3: "left_over (eng_live s) (eng_live (s2\<lparr>eng_tee := t3\<rparr>)) (Heap k) n" for n
        using left_over_new some(2,3) by simp
      have v: "read_bytes (Some w) (length modulus) = Some (take (length modulus) w)" using w(2) by (simp add: read_bytes_def)
      show ?thesis
        using rest [OF n3 l3] 1 True a u 2 some(1) 3 a3 v w(1) n3 l3
        by (cases "r3 = SKR_OK"; cases "take (length modulus) w = modulus") (auto simp: found_def)
    qed
  qed
qed

section \<open>Keys of secure objects\<close>

text \<open>The private exponent of a key that refers to the object of index \<open>i\<close>.\<close>

definition marked_key :: "RSA \<Rightarrow> u32 \<Rightarrow> bool" where
  "marked_key rsa i \<longleftrightarrow>
     (let d = BN_bn2bin (rsa_d rsa); n = RSA_size rsa in
      length d = n \<and> sobj_key_id d n 0 = Some SOBJ_KEY_ID \<and> sobj_key_id d n 1 = Some SOBJ_KEY_ID \<and> i = ucast (d ! (n - 1)))"

text \<open>All key pairs of the token have a modulus to compare with.\<close>

definition keys_listed :: "'t SK_FUNCTION_LIST \<Rightarrow> (SK_OBJECT_HANDLE \<Rightarrow> u32 \<Rightarrow> byte list option) \<Rightarrow> nat \<Rightarrow> bool" where
  "keys_listed F tok n \<longleftrightarrow>
     (\<forall>i t r hs t'. SK_EnumerateObjects_fn F (key_template i) MAX_SEC_OBJECTS t = Some (r, hs, t') \<longrightarrow> (\<forall>h \<in> set hs. has_modulus (tok h) n))"

definition right_key :: "(SK_OBJECT_HANDLE \<Rightarrow> u32 \<Rightarrow> byte list option) \<Rightarrow> RSA \<Rightarrow> SK_OBJECT_HANDLE list \<Rightarrow> SK_OBJECT_HANDLE \<Rightarrow> bool" where
  "right_key tok rsa hs h \<longleftrightarrow> h \<in> set hs \<and> (\<exists>w. tok h SK_ATTR_MODULUS = Some w \<and> take (RSA_size rsa) w = BN_bn2bin (rsa_n rsa))"

text \<open>The pointers after the search can all be freed, and at most one block per further object is lost.\<close>

definition freeable :: "nat set \<Rightarrow> nat set \<Rightarrow> pointer list \<Rightarrow> nat \<Rightarrow> bool" where
  "freeable live live' ps n \<longleftrightarrow> owns ps live' \<and> live \<subseteq> live' \<and> set (heap_ids ps) \<inter> live = {} \<and> finite (live' - live) \<and>
     card (live' - live - set (heap_ids ps)) \<le> n"

lemma poke_whole: "length b = length v \<Longrightarrow> poke b 0 v = Some v"
  by (simp add: poke_def)

lemma search_objects_spec:
  assumes "truthful (eng_fns E) tok" and "alloc_ok E" and "keys_listed (eng_fns E) tok (RSA_size rsa)" and "numbered s"
    and "SK_EnumerateObjects_fn (eng_fns E) (key_template i) MAX_SEC_OBJECTS (eng_tee s) = Some (r, hs, t)"
  shows "\<exists>k p s'. search_objects E (BN_bn2bin (rsa_n rsa)) (RSA_size rsa) i s = Some (k, [p, Null, Null], s') \<and> numbered s' \<and>
    left_over (eng_live s) (eng_live s') p (length hs - 1) \<and>
    (k = Ret 0 \<or> k = Ret (-1) \<or> (\<exists>h. k = Key h \<and> r = SKR_OK \<and> right_key tok rsa hs h))"
proof (cases "r = SKR_OK \<and> hs \<noteq> []")
  case True
  let ?s = "s\<lparr>eng_tee := t\<rparr>"
  have l: "length hs \<le> 50"
    using assms(1,5) unfolding truthful_def by (metis (no_types, lifting) option.inject prod.inject)
  have n: "numbered ?s" using assms(4) by (simp add: numbered_def)
  have m: "\<forall>h \<in> set hs. has_modulus (tok h) (length (BN_bn2bin (rsa_n rsa)))"
    using assms(3,5) unfolding keys_listed_def RSA_size_def by blast
  from find_modulus_spec [OF assms(1,2) m n, of Null] True obtain res p s' where
    f: "find_modulus E (BN_bn2bin (rsa_n rsa)) (RSA_size rsa) hs Null ?s = Some (res, p, s')"
      "found tok (BN_bn2bin (rsa_n rsa)) hs res" "numbered s'" "left_over (eng_live s) (eng_live s') p (length hs - 1)"
    by (auto simp: RSA_size_def)
  then show ?thesis
    using True assms(5) l by (cases res) (auto simp: search_objects_def zeroed_def found_def right_key_def RSA_size_def)
next
  case False
  with assms(4,5) show ?thesis by (auto simp: search_objects_def zeroed_def numbered_def)
qed

lemma find_object_marked:
  assumes "truthful (eng_fns E) tok" and "alloc_ok E" and "keys_listed (eng_fns E) tok (RSA_size rsa)" and "numbered s"
    and "marked_key rsa i"
    and "SK_EnumerateObjects_fn (eng_fns E) (key_template i) MAX_SEC_OBJECTS (eng_tee s) = Some (r, hs, t)"
  shows "\<exists>k ps s'. find_object E rsa s = Some (k, ps, s') \<and> numbered s' \<and> freeable (eng_live s) (eng_live s') ps (length hs - 1) \<and>
    (k = Ret 0 \<or> k = Ret (-1) \<or> (\<exists>h. k = Key h \<and> r = SKR_OK \<and> right_key tok rsa hs h))"
proof -
  let ?n = "RSA_size rsa"
  obtain b1 s1 where 1: "eng_malloc E ?n s = (b1, s1)" by (metis surj_pair)
  from 1 assms(4,2) show ?thesis
  proof (cases rule: eng_malloc_cases)
    case none
    then show ?thesis using 1 by (simp add: find_object_def freeable_def owns_def)
  next
    case (some k1 d1)
    obtain b2 s2 where 2: "eng_malloc E ?n s1 = (b2, s2)" by (metis surj_pair)
    from 2 some(5) assms(2) show ?thesis
    proof (cases rule: eng_malloc_cases)
      case none
      then show ?thesis using 1 2 some by (auto simp: find_object_def freeable_def owns_def insert_Diff_if)
    next
      case two: (some k2 d2)
      have e: "SK_EnumerateObjects_fn (eng_fns E) (key_template i) MAX_SEC_OBJECTS (eng_tee s2) = Some (r, hs, t)"
        using assms(6) some(6) two(6) by simp
      from search_objects_spec [OF assms(1-3) two(5) e] obtain k p s' where
        3: "search_objects E (BN_bn2bin (rsa_n rsa)) ?n i s2 = Some (k, [p, Null, Null], s')" "numbered s'"
          "left_over (eng_live s2) (eng_live s') p (length hs - 1)"
          "k = Ret 0 \<or> k = Ret (-1) \<or> (\<exists>h. k = Key h \<and> r = SKR_OK \<and> right_key tok rsa hs h)" by blast
      have d: "poke d1 0 (BN_bn2bin (rsa_d rsa)) = Some (BN_bn2bin (rsa_d rsa))" "poke d2 0 (BN_bn2bin (rsa_n rsa)) = Some (BN_bn2bin (rsa_n rsa))"
        using assms(5) some(4) two(4) by (auto simp: marked_key_def Let_def RSA_size_def intro: poke_whole)
      have f: "find_object E rsa s = Some (k, [Heap k2, Heap k1, p, Null, Null], s')"
        using 1 2 3(1) some(1) two(1) d assms(5) by (simp add: find_object_def marked_key_def Let_def)
      let ?P = "set (heap_ids [p])"
      have "eng_live s' - eng_live s - set (heap_ids [Heap k2, Heap k1, p, Null, Null]) = eng_live s' - eng_live s2 - ?P"
        using some(2) two(2) by (cases p) auto
      moreover have "eng_live s' - eng_live s \<subseteq> insert k1 (insert k2 (eng_live s' - eng_live s2))" using some(2) two(2) by auto
      then have "finite (eng_live s' - eng_live s)" using 3(3) by (auto simp: left_over_def intro: finite_subset)
      ultimately have "freeable (eng_live s) (eng_live s') [Heap k2, Heap k1, p, Null, Null] (length hs - 1)"
        using 3(3) some(2,3) two(2,3) unfolding freeable_def owns_def left_over_def by (cases p) auto
      with f 3(2,4) show ?thesis by blast
    qed
  qed
qed

section \<open>Signatures\<close>

definition sign_block :: "nat \<Rightarrow> byte list \<Rightarrow> byte list" where
  "sign_block n m = [0, 1] @ replicate (n - 3 - length m) 0xFF @ [0] @ m"

lemma length_sign_block: "length m + 11 \<le> n \<Longrightarrow> length (sign_block n m) = n"
  by (simp add: sign_block_def)

lemma enc_with_object_spec:
  assumes "truthful (eng_fns E) tok" and "alloc_ok E" and "numbered s" and "0 \<le> flen" and "read_bytes from (nat flen) = Some m" and "n < 2 ^ 16"
    and "n \<le> length to"
  shows "\<exists>ret to' p s'. enc_with_object E flen from to n padding h s = Some (ret, to', p, s') \<and>
    left_over (eng_live s) (eng_live s') p 0 \<and>
    (ret = -1 \<or> ret = int n \<and> padding = RSA_PKCS1_PADDING \<and> length m + 11 \<le> n \<and>
      (\<exists>t len t'. SK_Decrypt_fn (eng_fns E) SKM_RSA_PKCS_NOPAD h (sign_block n m) (Some to) (of_nat n) t = Some (SKR_OK, Some to', len, t')))"
proof -
  obtain b s1 where 1: "eng_malloc E n s = (b, s1)" by (metis surj_pair)
  have m: "length m = nat flen" using assms(5) by (auto simp: read_bytes_def split: if_splits option.splits)
  from 1 assms(3,2) show ?thesis
  proof (cases rule: eng_malloc_cases)
    case none
    then show ?thesis using 1 by (simp add: enc_with_object_def)
  next
    case (some k d)
    then have lo: "left_over (eng_live s) (eng_live s1) (Heap k) 0" using left_over_new by simp
    show ?thesis
    proof (cases "padding = RSA_PKCS1_PADDING \<and> length m + 11 \<le> n")
      case False
      then have "padding = RSA_PKCS1_PADDING \<Longrightarrow> int n - 11 < flen" using m assms(4) by linarith
      with 1 some(1) lo show ?thesis by (auto simp: enc_with_object_def RSA_padding_add_PKCS1_type_1_def)
    next
      case True
      have n: "n < 2 ^ 31" "unat (of_nat n :: u16) = n" using assms(6) by (simp_all add: unat_of_nat take_bit_nat_eq_self)
      have "RSA_padding_add_PKCS1_type_1 d (int n) from flen = Some (1, sign_block n m)"
        using add_type_1_eq [OF _ n(1) some(4), of m "from"] True m assms(4,5) by (simp add: sign_block_def)
      moreover have "read_bytes (Some (sign_block n m)) n = Some (sign_block n m)"
        using True read_all [of "sign_block n m"] by (simp add: length_sign_block)
      moreover obtain r b' len t' where dec:
        "SK_Decrypt_fn (eng_fns E) SKM_RSA_PKCS_NOPAD h (sign_block n m) (Some to) (of_nat n) (eng_tee s1) = Some (r, Some b', len, t')"
        using assms(1) [unfolded truthful_def, THEN conjunct2, THEN conjunct2, rule_format, of "of_nat n" to SKM_RSA_PKCS_NOPAD h "sign_block n m" "eng_tee s1"]
          n(2) assms(7) by auto
      ultimately have "enc_with_object E flen from to n padding h s =
          Some (if r \<noteq> SKR_OK then -1 else int n, b', Heap k, s1\<lparr>eng_tee := t'\<rparr>)"
        using 1 some(1) True n(2) by (simp add: enc_with_object_def)
      with lo True dec show ?thesis by (auto intro!: exI [of _ "eng_tee s1"])
    qed
  qed
qed

lemma freeable_all:
  assumes "freeable live0 live1 ps n" and "left_over live1 (eng_live s) p 0"
  shows "\<exists>s'. eng_frees (p # ps) s = Some s' \<and> eng_tee s' = eng_tee s \<and> live0 \<subseteq> eng_live s' \<and>
    finite (eng_live s' - live0) \<and> card (eng_live s' - live0) \<le> n"
proof -
  note d = assms [unfolded freeable_def left_over_def owns_def]
  have l: "eng_live s - set (heap_ids [p]) = live1"
    using d by (auto dest: card_0_eq [THEN iffD1])
  have "owns (p # ps) (eng_live s)" using d unfolding owns_def by (cases p) auto
  from eng_frees_owns [OF this] have f: "eng_frees (p # ps) s = Some (s\<lparr>eng_live := eng_live s - set (heap_ids (p # ps))\<rparr>)" .
  have "eng_live s - set (heap_ids (p # ps)) = live1 - set (heap_ids ps)" using l by (cases p) auto
  moreover have "finite (live1 - live0 - set (heap_ids ps))" using d by auto
  ultimately show ?thesis using f d by (auto simp: Diff_eq Int_ac)
qed

text \<open>
  C37: what the engine signs with. For a key whose private exponent carries the identifier of secure objects, with a
  client library that behaves as documented (but may fail in any call) and an allocator that may fail,
  \<open>secure_obj_rsa_priv_enc\<close> returns, and the value is -1 or 0, or the length of the modulus. In the last
  case the output was made by the token with an object that the search returned and whose modulus is that of the
  key, from the message in a PKCS\#1 block of type 1. No block is freed that is not allocated; what was allocated
  is freed but for at most one block for each object found beyond the first.
\<close>

theorem engine_signs_with_matching_key:
  assumes "truthful (eng_fns E) tok" and "alloc_ok E" and "keys_listed (eng_fns E) tok (RSA_size rsa)" and "numbered s"
    and "marked_key rsa i" and "RSA_size rsa < 2 ^ 16" and "0 \<le> flen" and "read_bytes from (nat flen) = Some m"
    and "RSA_size rsa \<le> length to" and "SK_EnumerateObjects_fn (eng_fns E) (key_template i) MAX_SEC_OBJECTS (eng_tee s) = Some (r, hs, t)"
  shows "\<exists>ret to' s'. secure_obj_rsa_priv_enc E flen from to rsa padding s = Some (ret, to', s') \<and>
    (ret = 0 \<or> ret = -1 \<or> ret = int (RSA_size rsa) \<and> padding = RSA_PKCS1_PADDING \<and> length m + 11 \<le> RSA_size rsa \<and>
      (\<exists>h t len t'. right_key tok rsa hs h \<and>
        SK_Decrypt_fn (eng_fns E) SKM_RSA_PKCS_NOPAD h (sign_block (RSA_size rsa) m) (Some to) (of_nat (RSA_size rsa)) t =
          Some (SKR_OK, Some to', len, t'))) \<and>
    eng_live s \<subseteq> eng_live s' \<and> finite (eng_live s' - eng_live s) \<and> card (eng_live s' - eng_live s) \<le> length hs - 1"
proof -
  from find_object_marked [OF assms(1-5,10)] obtain k ps s1 where
    1: "find_object E rsa s = Some (k, ps, s1)" "numbered s1" "freeable (eng_live s) (eng_live s1) ps (length hs - 1)"
      "k = Ret 0 \<or> k = Ret (-1) \<or> (\<exists>h. k = Key h \<and> r = SKR_OK \<and> right_key tok rsa hs h)" by blast
  show ?thesis
  proof (cases k)
    case (Ret v)
    from freeable_all [OF 1(3), of s1 Null] obtain s' where
      "eng_frees (Null # ps) s1 = Some s'" "eng_live s \<subseteq> eng_live s'" "finite (eng_live s' - eng_live s) \<and> card (eng_live s' - eng_live s) \<le> length hs - 1" by auto
    with 1 Ret show ?thesis by (auto simp: secure_obj_rsa_priv_enc_def)
  next
    case (Key h)
    from enc_with_object_spec [OF assms(1,2) 1(2) assms(7,8,6,9), of padding h] obtain ret to' p s2 where
      2: "enc_with_object E flen from to (RSA_size rsa) padding h s1 = Some (ret, to', p, s2)" "left_over (eng_live s1) (eng_live s2) p 0"
        "ret = -1 \<or> ret = int (RSA_size rsa) \<and> padding = RSA_PKCS1_PADDING \<and> length m + 11 \<le> RSA_size rsa \<and>
          (\<exists>t len t'. SK_Decrypt_fn (eng_fns E) SKM_RSA_PKCS_NOPAD h (sign_block (RSA_size rsa) m) (Some to) (of_nat (RSA_size rsa)) t =
            Some (SKR_OK, Some to', len, t'))" by blast
    from freeable_all [OF 1(3) 2(2)] obtain s' where
      3: "eng_frees (p # ps) s2 = Some s'" "eng_live s \<subseteq> eng_live s'" "finite (eng_live s' - eng_live s) \<and> card (eng_live s' - eng_live s) \<le> length hs - 1" by blast
    have "ret \<noteq> -2" using 2(3) by auto
    then have "secure_obj_rsa_priv_enc E flen from to rsa padding s = Some (ret, to', s')"
      using 1(1) 2(1) 3(1) Key by (simp add: secure_obj_rsa_priv_enc_def del: eng_frees.simps)
    with 2(3) 3(2,3) 1(4) Key show ?thesis by auto
  qed
qed

section \<open>Decryption\<close>

text \<open>The message in the block that the token returned, as far as it reported it.\<close>

definition decrypted :: "nat \<Rightarrow> byte list \<Rightarrow> nat \<Rightarrow> byte list option" where
  "decrypted n out len = (if len \<le> n \<and> 11 \<le> n then pkcs1_message (replicate (n - len) 0 @ take len out) else None)"

lemma check_decrypted:
  assumes "n < 2 ^ 16" and "n \<le> length to" and "length out = n"
  shows "\<exists>ret to'. RSA_padding_check_PKCS1_type_2 ok to (int n) (Some out) (int len) (int n) = Some (ret, to') \<and>
    ((ret, to') = (-1, to) \<or> (\<exists>m. decrypted n out len = Some m \<and> ret = int (length m) \<and> to' = m @ drop (length m) to))"
proof (cases "len \<le> n \<and> 11 \<le> n \<and> ok")
  case True
  have r: "read_bytes (Some out) (nat (int len)) = Some (take len out)" using True assms(3) by (simp add: read_bytes_def)
  have "nat (int n - int len) = n - len" by simp
  with check_type_2_eq [of "int len" "int n" "int n", OF _ _ _ _ _ _ r, of to] True assms show ?thesis
    by (auto simp: decrypted_def split: option.splits)
next
  case False
  then show ?thesis by (auto simp: RSA_padding_check_PKCS1_type_2_def)
qed

lemma dec_with_object_spec:
  assumes "truthful (eng_fns E) tok" and "alloc_ok E" and "numbered s" and "read_bytes from (unat (word_of_int flen :: u16)) = Some c"
    and "n < 2 ^ 16" and "n \<le> length to"
  shows "\<exists>ret to' p s'. dec_with_object E flen from to n padding h s = Some (ret, to', p, s') \<and>
    left_over (eng_live s) (eng_live s') p 0 \<and>
    (ret = -1 \<and> to' = to \<or> padding = RSA_PKCS1_PADDING \<and>
      (\<exists>b t out len t' m. SK_Decrypt_fn (eng_fns E) SKM_RSA_PKCS_NOPAD h c (Some b) (of_nat n) t = Some (SKR_OK, Some out, len, t') \<and>
        decrypted n out (unat len) = Some m \<and> ret = int (length m) \<and> to' = m @ drop (length m) to))"
proof -
  obtain b s1 where 1: "eng_malloc E n s = (b, s1)" by (metis surj_pair)
  from 1 assms(3,2) show ?thesis
  proof (cases rule: eng_malloc_cases)
    case none
    then show ?thesis using 1 by (simp add: dec_with_object_def)
  next
    case (some k d)
    then have lo: "left_over (eng_live s) (eng_live s1) (Heap k) 0" using left_over_new by simp
    obtain r out len t' where dec:
      "SK_Decrypt_fn (eng_fns E) SKM_RSA_PKCS_NOPAD h c (Some d) (of_nat n) (eng_tee s1) = Some (r, Some out, len, t')" "length out = n"
      using assms(1) [unfolded truthful_def, THEN conjunct2, THEN conjunct2, rule_format, of "of_nat n" d SKM_RSA_PKCS_NOPAD h c "eng_tee s1"]
        some(4) assms(5) by (auto simp: unat_of_nat take_bit_nat_eq_self)
    show ?thesis
    proof (cases "r = SKR_OK \<and> padding = RSA_PKCS1_PADDING")
      case False
      with 1 some(1) dec(1) assms(4) have "dec_with_object E flen from to n padding h s = Some (-1, to, Heap k, s1\<lparr>eng_tee := t'\<rparr>)"
        by (auto simp: dec_with_object_def Let_def)
      with lo show ?thesis by auto
    next
      case True
      let ?s = "s1\<lparr>eng_tee := t'\<rparr>"
      obtain em s2 where 2: "(if unat len \<le> n \<and> 11 \<le> n then eng_malloc E n ?s else (None, ?s)) = (em, s2)" by (metis surj_pair)
      have n1: "numbered ?s" using some(5) by (simp add: numbered_def)
      have "\<exists>s3. eng_free (case em of None \<Rightarrow> Null | Some (q, d) \<Rightarrow> q) s2 = Some s3 \<and> eng_live s3 = eng_live s1"
      proof (cases "unat len \<le> n \<and> 11 \<le> n")
        case True
        then have "eng_malloc E n ?s = (em, s2)" using 2 by simp
        from this n1 assms(2) show ?thesis by (cases rule: eng_malloc_cases) auto
      qed (use 2 in auto)
      then obtain s3 where 3: "eng_free (case em of None \<Rightarrow> Null | Some (q, d) \<Rightarrow> q) s2 = Some s3" "eng_live s3 = eng_live s1" by blast
      from check_decrypted [OF assms(5,6) dec(2), of "em \<noteq> None" "unat len"] obtain ret to' where
        c: "RSA_padding_check_PKCS1_type_2 (em \<noteq> None) to (int n) (Some out) (int (unat len)) (int n) = Some (ret, to')"
          "(ret, to') = (-1, to) \<or> (\<exists>m. decrypted n out (unat len) = Some m \<and> ret = int (length m) \<and> to' = m @ drop (length m) to)" by blast
      have "dec_with_object E flen from to n padding h s = Some (ret, to', Heap k, s3)"
        using 1 some(1) dec(1) assms(4) True 2 3(1) c(1) by (simp add: dec_with_object_def)
      moreover have "left_over (eng_live s) (eng_live s3) (Heap k) 0" using lo 3(2) by simp
      ultimately show ?thesis using c(2) True dec(1) by blast
    qed
  qed
qed

text \<open>
  what the engine decrypts. Under the same conditions, and with an output of the size of the modulus,
  \<open>secure_obj_rsa_priv_dec\<close> returns -1 or 0 with the output untouched, or it hands out a message: the one that
  the PKCS\#1 block of type 2 holds which the token computed from the ciphertext with an object
  whose modulus is that of the key. Memory is handled as by the signature.
\<close>

theorem engine_decrypts_with_matching_key:
  assumes "truthful (eng_fns E) tok" and "alloc_ok E" and "keys_listed (eng_fns E) tok (RSA_size rsa)" and "numbered s"
    and "marked_key rsa i" and "RSA_size rsa < 2 ^ 16" and "read_bytes from (unat (word_of_int flen :: u16)) = Some c" and "RSA_size rsa \<le> length to"
    and "SK_EnumerateObjects_fn (eng_fns E) (key_template i) MAX_SEC_OBJECTS (eng_tee s) = Some (r, hs, t)"
  shows "\<exists>ret to' s'. secure_obj_rsa_priv_dec E flen from to rsa padding s = Some (ret, to', s') \<and>
    ((ret = 0 \<or> ret = -1) \<and> to' = to \<or> padding = RSA_PKCS1_PADDING \<and>
      (\<exists>h b t out len t' m. right_key tok rsa hs h \<and>
        SK_Decrypt_fn (eng_fns E) SKM_RSA_PKCS_NOPAD h c (Some b) (of_nat (RSA_size rsa)) t = Some (SKR_OK, Some out, len, t') \<and>
        decrypted (RSA_size rsa) out (unat len) = Some m \<and> ret = int (length m) \<and> to' = m @ drop (length m) to)) \<and>
    eng_live s \<subseteq> eng_live s' \<and> finite (eng_live s' - eng_live s) \<and> card (eng_live s' - eng_live s) \<le> length hs - 1"
proof -
  from find_object_marked [OF assms(1-5,9)] obtain k ps s1 where
    1: "find_object E rsa s = Some (k, ps, s1)" "numbered s1" "freeable (eng_live s) (eng_live s1) ps (length hs - 1)"
      "k = Ret 0 \<or> k = Ret (-1) \<or> (\<exists>h. k = Key h \<and> r = SKR_OK \<and> right_key tok rsa hs h)" by blast
  show ?thesis
  proof (cases k)
    case (Ret v)
    from freeable_all [OF 1(3), of s1 Null] obtain s' where
      "eng_frees (Null # ps) s1 = Some s'" "eng_live s \<subseteq> eng_live s'" "finite (eng_live s' - eng_live s) \<and> card (eng_live s' - eng_live s) \<le> length hs - 1" by auto
    with 1 Ret show ?thesis by (auto simp: secure_obj_rsa_priv_dec_def)
  next
    case (Key h)
    from dec_with_object_spec [OF assms(1,2) 1(2) assms(7,6,8), of padding h] obtain ret to' p s2 where
      2: "dec_with_object E flen from to (RSA_size rsa) padding h s1 = Some (ret, to', p, s2)" "left_over (eng_live s1) (eng_live s2) p 0"
        "ret = -1 \<and> to' = to \<or> padding = RSA_PKCS1_PADDING \<and>
          (\<exists>b t out len t' m. SK_Decrypt_fn (eng_fns E) SKM_RSA_PKCS_NOPAD h c (Some b) (of_nat (RSA_size rsa)) t =
              Some (SKR_OK, Some out, len, t') \<and>
            decrypted (RSA_size rsa) out (unat len) = Some m \<and> ret = int (length m) \<and> to' = m @ drop (length m) to)" by blast
    from freeable_all [OF 1(3) 2(2)] obtain s' where
      3: "eng_frees (p # ps) s2 = Some s'" "eng_live s \<subseteq> eng_live s'" "finite (eng_live s' - eng_live s) \<and> card (eng_live s' - eng_live s) \<le> length hs - 1" by blast
    have "ret \<noteq> -2" using 2(3) by auto
    then have "secure_obj_rsa_priv_dec E flen from to rsa padding s = Some (ret, to', s')"
      using 1(1) 2(1) 3(1) Key by (simp add: secure_obj_rsa_priv_dec_def del: eng_frees.simps)
    with 2(3) 3(2,3) 1(4) Key show ?thesis by fastforce
  qed
qed

section \<open>Other keys\<close>

lemma malloc_twice:
  assumes "alloc_ok E" and "numbered s" and "eng_malloc E n s = (b1, s1)" and "eng_malloc E n s1 = (b2, s2)"
    and "b1 = Some (p1, d1)" and "b2 = Some (p2, d2)"
  shows "owns [Null, p2, p1] (eng_live s2) \<and> eng_live s2 - set (heap_ids [Null, p2, p1]) = eng_live s \<and> eng_tee s2 = eng_tee s \<and>
    length d1 = n \<and> length d2 = n"
  using assms(3,2,1)
proof (cases rule: eng_malloc_cases)
  case (some k d)
  from assms(4) this(5) assms(1) show ?thesis
    by (cases rule: eng_malloc_cases) (use some assms(5,6) in \<open>auto simp: owns_def\<close>)
qed (use assms(5) in simp)

text \<open>A private exponent of full length without the identifier.\<close>

definition software_key :: "RSA \<Rightarrow> bool" where
  "software_key rsa \<longleftrightarrow> (let d = BN_bn2bin (rsa_d rsa); n = RSA_size rsa in
     12 \<le> n \<and> length d = n \<and> \<not> (sobj_key_id d n 0 = Some SOBJ_KEY_ID \<and> sobj_key_id d n 1 = Some SOBJ_KEY_ID))"

lemma find_object_software:
  assumes "software_key rsa" and "alloc_ok E" and "numbered s"
  shows "\<exists>v ps s1 s'. find_object E rsa s = Some (Ret v, ps, s1) \<and> (v = -1 \<or> v = -2) \<and> eng_frees (Null # ps) s1 = Some s' \<and>
    eng_tee s' = eng_tee s \<and> eng_live s' = eng_live s"
proof -
  let ?n = "RSA_size rsa"
  obtain b1 s1 where 1: "eng_malloc E ?n s = (b1, s1)" by (metis surj_pair)
  obtain b2 s2 where 2: "eng_malloc E ?n s1 = (b2, s2)" by (metis surj_pair)
  from 1 assms(3,2) show ?thesis
  proof (cases rule: eng_malloc_cases)
    case none
    then show ?thesis using 1 by (simp add: find_object_def)
  next
    case (some k1 d1)
    show ?thesis
    proof (cases b2)
      case None
      from 2 some(5) assms(2) have "eng_live s2 = eng_live s1 \<and> eng_tee s2 = eng_tee s1" by (cases rule: eng_malloc_cases) (use None in auto)
      then show ?thesis using 1 2 some None by (auto simp: find_object_def)
    next
      case (Some q)
      obtain p2 d2 where q: "q = (p2, d2)" by (metis surj_pair)
      have b2: "b2 = Some (p2, d2)" using Some q by simp
      note m = malloc_twice [OF assms(2,3) 1 2 some(1) b2]
      have "poke d1 0 (BN_bn2bin (rsa_d rsa)) = Some (BN_bn2bin (rsa_d rsa))" "poke d2 0 (BN_bn2bin (rsa_n rsa)) = Some (BN_bn2bin (rsa_n rsa))"
        using assms(1) m by (auto simp: software_key_def Let_def RSA_size_def intro: poke_whole)
      moreover obtain i0 i1 where "sobj_key_id (BN_bn2bin (rsa_d rsa)) ?n 0 = Some i0" "sobj_key_id (BN_bn2bin (rsa_d rsa)) ?n 1 = Some i1"
        using assms(1) by (simp add: software_key_def sobj_key_id_def Let_def)
      ultimately have "find_object E rsa s = Some (Ret (-2), [p2, Heap k1], s2)"
        using 1 2 some(1) b2 assms(1) by (auto simp: find_object_def software_key_def Let_def)
      moreover have "eng_frees (Null # [p2, Heap k1]) s2 = Some (s2\<lparr>eng_live := eng_live s\<rparr>)"
        using eng_frees_owns [of "[Null, p2, Heap k1]" s2] m by simp
      ultimately show ?thesis using m by auto
    qed
  qed
qed

text \<open>
  keys that are not secure objects. For a key without the identifier, both private operations return what the
  default method of OpenSSL returns, or -1 with the output untouched if memory is short. The token is not asked, and
  every block is freed.
\<close>

theorem engine_software_key:
  assumes "software_key rsa" and "alloc_ok E" and "numbered s"
  shows "(\<exists>ret to' s'. secure_obj_rsa_priv_enc E flen from to rsa padding s = Some (ret, to', s') \<and>
      (ret, to') \<in> {(-1, to), default_priv_enc E flen from to rsa padding} \<and> eng_tee s' = eng_tee s \<and> eng_live s' = eng_live s) \<and>
    (\<exists>ret to' s'. secure_obj_rsa_priv_dec E flen from to rsa padding s = Some (ret, to', s') \<and>
      (ret, to') \<in> {(-1, to), default_priv_dec E flen from to rsa padding} \<and> eng_tee s' = eng_tee s \<and> eng_live s' = eng_live s)"
proof -
  obtain v ps s1 s' where f: "find_object E rsa s = Some (Ret v, ps, s1)" "v = -1 \<or> v = -2" "eng_frees (Null # ps) s1 = Some s'"
    "eng_tee s' = eng_tee s" "eng_live s' = eng_live s"
    using find_object_software [OF assms] by blast
  obtain r1 t1 r2 t2 where d: "default_priv_enc E flen from to rsa padding = (r1, t1)" "default_priv_dec E flen from to rsa padding = (r2, t2)"
    by (metis surj_pair)
  have "secure_obj_rsa_priv_enc E flen from to rsa padding s = Some (if v = -2 then r1 else v, if v = -2 then t1 else to, s')"
    "secure_obj_rsa_priv_dec E flen from to rsa padding s = Some (if v = -2 then r2 else v, if v = -2 then t2 else to, s')"
    using f(1,3) d by (auto simp: secure_obj_rsa_priv_enc_def secure_obj_rsa_priv_dec_def)
  with f d show ?thesis by auto
qed

section \<open>The sample token behind the engine\<close>

definition from_le :: "byte list \<Rightarrow> nat" where
  "from_le bs = foldr (\<lambda>b a. unat b + 256 * a) bs 0"

lemma byte_256: "(256 :: byte) = 0"
  by code_simp

lemma from_le_0: "from_le bs = 0 \<Longrightarrow> list_all (\<lambda>b. b = 0) bs"
  by (induction bs) (auto simp: from_le_def unat_eq_0)

lemma le_bytes_from_le: "bs = [] \<or> last bs \<noteq> 0 \<Longrightarrow> le_bytes (from_le bs) = bs"
proof (induction bs)
  case Nil
  then show ?case by (simp add: from_le_def le_bytes.simps)
next
  case (Cons b bs)
  have e: "from_le (b # bs) = unat b + 256 * from_le bs" by (simp add: from_le_def)
  have nz: "from_le (b # bs) \<noteq> 0"
    using from_le_0 [of "b # bs"] Cons.prems last_in_set [of "b # bs"] unfolding list_all_iff by blast
  have b: "unat b < 256" using unat_less_2p [of b] by simp
  have "(of_nat (unat b + 256 * from_le bs) :: byte) = b" by (simp add: byte_256)
  moreover have "(unat b + 256 * from_le bs) div 256 = from_le bs" using b by simp
  moreover have "le_bytes (from_le bs) = bs" using Cons by (cases bs) auto
  ultimately show ?case using nz by (subst le_bytes.simps) (simp add: e)
qed

definition sample_d :: "byte list" where
  "sample_d = replicate 52 1 @ [0xE1, 0xE2, 0xE3, 0xE4, 0xE1, 0xE2, 0xE3, 0xE4, 0, 0, 0, 1]"

definition sample_rsa :: RSA where
  "sample_rsa = \<lparr>rsa_n = from_le (replicate 64 0xA5), rsa_d = from_le (rev sample_d)\<rparr>"

definition sample_engine :: "unit engine_env" where
  "sample_engine = \<lparr>eng_fns = sample_functions, eng_alloc = (\<lambda>k n. Some (replicate n 0)),
     default_priv_enc = (\<lambda>flen from to rsa padding. (-1, to)), default_priv_dec = (\<lambda>flen from to rsa padding. (-1, to))\<rparr>"

definition engine_start :: "unit engine_state" where
  "engine_start = \<lparr>eng_tee = (), eng_live = {}, eng_mallocs = 0\<rparr>"

lemma sample_numbers: "BN_bn2bin (rsa_n sample_rsa) = replicate 64 0xA5" "BN_bn2bin (rsa_d sample_rsa) = sample_d" "RSA_size sample_rsa = 64"
proof -
  show n: "BN_bn2bin (rsa_n sample_rsa) = replicate 64 0xA5"
    by (simp add: sample_rsa_def BN_bn2bin_def le_bytes_from_le)
  show "BN_bn2bin (rsa_d sample_rsa) = sample_d"
    by (simp add: sample_rsa_def BN_bn2bin_def le_bytes_from_le sample_d_def last_rev)
  show "RSA_size sample_rsa = 64" by (simp add: RSA_size_def n)
qed

lemma sample_ids: "sobj_key_id sample_d 64 0 = Some SOBJ_KEY_ID" "sobj_key_id sample_d 64 (Suc 0) = Some SOBJ_KEY_ID" "sample_d ! 63 = 1" "length sample_d = 64"
  by (simp_all add: sobj_key_id_def sample_d_def nth_append)

lemma sample_marked: "marked_key sample_rsa 1"
  by (simp add: marked_key_def sample_numbers sample_ids)

lemma sample_truthful: "truthful sample_functions (\<lambda>h. sample_attr)" "keys_listed sample_functions (\<lambda>h. sample_attr) 64"
proof -
  show "truthful sample_functions (\<lambda>h. sample_attr)"
    by (auto simp: truthful_def sample_functions_def sample_attributes_def sample_crypt_def write_bytes_def split: if_splits bind_splits)
  show "keys_listed sample_functions (\<lambda>h. sample_attr) 64"
    by (auto simp: keys_listed_def has_modulus_def sample_functions_def sample_attr_def)
qed

lemma sample_alloc: "alloc_ok sample_engine" "numbered engine_start" "eng_fns sample_engine = sample_functions"
  by (simp_all add: alloc_ok_def numbered_def sample_engine_def engine_start_def)

lemma sample_block: "eng_malloc sample_engine n s =
  (Some (Heap (eng_mallocs s), replicate n 0), s\<lparr>eng_live := insert (eng_mallocs s) (eng_live s), eng_mallocs := Suc (eng_mallocs s)\<rparr>)"
  by (simp add: eng_malloc_def sample_engine_def Let_def)

lemma search_sample:
  "search_objects sample_engine (replicate 64 0xA5) 64 1 (s\<lparr>eng_live := l, eng_mallocs := k\<rparr>) =
     Some (Key 7, [Heap k, Null, Null], s\<lparr>eng_live := insert k l, eng_mallocs := Suc k\<rparr>)"
  by (simp add: search_objects_def sample_alloc sample_functions_def sample_attributes_def sk_fits_def zeroed_def get_attribute_def sk_answer_def sample_attr_def
      sample_block read_bytes_def)

lemma find_sample:
  "find_object sample_engine sample_rsa (s\<lparr>eng_live := l, eng_mallocs := k\<rparr>) =
     Some (Key 7, [Heap (Suc k), Heap k, Heap (Suc (Suc k)), Null, Null],
       s\<lparr>eng_live := insert (Suc (Suc k)) (insert (Suc k) (insert k l)), eng_mallocs := Suc (Suc (Suc k))\<rparr>)"
  using search_sample [where s = s and l = "insert (Suc k) (insert k l)" and k = "Suc (Suc k)"]
  by (simp add: find_object_def sample_numbers sample_ids sample_block poke_def)

lemma enc_sample:
  "enc_with_object sample_engine 3 (Some [1, 2, 3]) (replicate 64 9) 64 1 h (s\<lparr>eng_live := l, eng_mallocs := k\<rparr>) =
     Some (64, sign_block 64 [1, 2, 3], Heap k, s\<lparr>eng_live := insert k l, eng_mallocs := Suc k\<rparr>)"
proof -
  have p: "RSA_padding_add_PKCS1_type_1 (replicate 64 0) 64 (Some [1, 2, 3]) 3 = Some (1, sign_block 64 [1, 2, 3])"
    using add_type_1_eq [of "[1, 2, 3]" 64 "replicate 64 0" "Some [1, 2, 3]"] by (simp add: sign_block_def read_bytes_def)
  have "length (sign_block 64 [1, 2, 3]) = 64" "sign_block 64 [1, 2, 3] \<noteq> []" by (simp_all add: sign_block_def)
  then show ?thesis
    by (simp add: enc_with_object_def sample_block p read_bytes_def sample_alloc sample_functions_def sample_crypt_def write_bytes_def)
qed

lemma sign_sample_key:
  "secure_obj_rsa_priv_enc sample_engine 3 (Some [1, 2, 3]) (replicate 64 9) sample_rsa 1 (s\<lparr>eng_live := {}, eng_mallocs := 0\<rparr>) =
     Some (64, sign_block 64 [1, 2, 3], s\<lparr>eng_live := {}, eng_mallocs := Suc (Suc (Suc (Suc 0)))\<rparr>)"
  by (simp add: secure_obj_rsa_priv_enc_def find_sample sample_numbers(3) enc_sample insert_Diff_if)

lemma sample_found: "SK_EnumerateObjects_fn sample_functions as n t = Some (SKR_OK, [7], t)"
  by (simp add: sample_functions_def)

theorem engine_signs_with_matching_key_witness:
  "\<exists>to' s'. secure_obj_rsa_priv_enc sample_engine 3 (Some [1, 2, 3]) (replicate 64 9) sample_rsa 1 engine_start = Some (64, to', s') \<and>
    (\<exists>t len t'. SK_Decrypt_fn sample_functions SKM_RSA_PKCS_NOPAD 7 (sign_block 64 [1, 2, 3]) (Some (replicate 64 9)) 64 t =
      Some (SKR_OK, Some to', len, t')) \<and> eng_live s' = {}"
proof -
  have "read_bytes (Some [1, 2, 3]) (nat 3) = Some [1, 2, 3]" by (simp add: read_bytes_def)
  from engine_signs_with_matching_key [OF sample_truthful(1) [folded sample_alloc(3)] sample_alloc(1) _ sample_alloc(2) sample_marked _ _ this,
      of "replicate 64 9" SKR_OK "[7]" "()" 1] sample_truthful(2) sign_sample_key [of engine_start]
  show ?thesis
    by (auto simp: sample_alloc sample_found sample_numbers right_key_def engine_start_def)
qed

text \<open>A ciphertext that the sample token returns as it is.\<close>

definition sample_cipher :: "byte list" where
  "sample_cipher = [0, 2] @ replicate 57 5 @ [0, 11, 12, 13, 14]"

lemma takeWhile_padding: "P x \<Longrightarrow> \<not> P y \<Longrightarrow> takeWhile P (replicate n x @ y # ys) = replicate n x"
  by (induction n) auto

lemma cipher_facts: "length sample_cipher = 64" "sample_cipher \<noteq> []" "pkcs1_message sample_cipher = Some [11, 12, 13, 14]"
  by (simp_all add: sample_cipher_def pkcs1_message_def takeWhile_padding Let_def)

lemma dec_sample:
  assumes "Suc k \<notin> l" and "k \<notin> l"
  shows "dec_with_object sample_engine 64 (Some sample_cipher) (replicate 64 9) 64 1 h (s\<lparr>eng_live := l, eng_mallocs := k\<rparr>) =
     Some (4, [11, 12, 13, 14] @ replicate 60 9, Heap k, s\<lparr>eng_live := insert k l, eng_mallocs := Suc (Suc k)\<rparr>)"
proof -
  have p: "RSA_padding_check_PKCS1_type_2 True (replicate 64 9) 64 (Some sample_cipher) 64 64 = Some (4, [11, 12, 13, 14] @ replicate 60 9)"
    using check_type_2_eq [of 64 64 64 "Some sample_cipher" sample_cipher "replicate 64 9"] by (simp add: cipher_facts read_bytes_def)
  have l: "insert k l - {Suc k} = insert k l" using assms by auto
  show ?thesis
    by (simp add: dec_with_object_def sample_block p read_bytes_def sample_alloc sample_functions_def sample_crypt_def write_bytes_def cipher_facts l)
qed

lemma decrypt_sample_key:
  "secure_obj_rsa_priv_dec sample_engine 64 (Some sample_cipher) (replicate 64 9) sample_rsa 1 (s\<lparr>eng_live := {}, eng_mallocs := 0\<rparr>) =
     Some (4, [11, 12, 13, 14] @ replicate 60 9, s\<lparr>eng_live := {}, eng_mallocs := Suc (Suc (Suc (Suc (Suc 0))))\<rparr>)"
  by (simp add: secure_obj_rsa_priv_dec_def find_sample sample_numbers(3) dec_sample insert_Diff_if)

theorem engine_decrypts_with_matching_key_witness:
  "\<exists>s'. secure_obj_rsa_priv_dec sample_engine 64 (Some sample_cipher) (replicate 64 9) sample_rsa 1 engine_start =
      Some (4, [11, 12, 13, 14] @ replicate 60 9, s') \<and> eng_live s' = {} \<and>
    (\<exists>b t out len t'. SK_Decrypt_fn sample_functions SKM_RSA_PKCS_NOPAD 7 sample_cipher (Some b) 64 t = Some (SKR_OK, Some out, len, t'))"
proof -
  have "read_bytes (Some sample_cipher) (unat (word_of_int 64 :: u16)) = Some sample_cipher" by (simp add: read_bytes_def sample_cipher_def)
  from engine_decrypts_with_matching_key [OF sample_truthful(1) [folded sample_alloc(3)] sample_alloc(1) _ sample_alloc(2) sample_marked _ this,
      of "replicate 64 9" SKR_OK "[7]" "()" 1] sample_truthful(2) decrypt_sample_key [of engine_start]
  show ?thesis
    by (auto simp: sample_alloc sample_found sample_numbers right_key_def engine_start_def)
qed

text \<open>The same key without the identifier.\<close>

definition plain_rsa :: RSA where
  "plain_rsa = sample_rsa\<lparr>rsa_d := rsa_n sample_rsa\<rparr>"

theorem engine_software_key_witness:
  "\<exists>to' s'. secure_obj_rsa_priv_enc sample_engine 3 (Some [1, 2, 3]) [9] plain_rsa 1 engine_start = Some (-1, to', s') \<and> eng_live s' = {}"
proof -
  have n: "BN_bn2bin (rsa_n plain_rsa) = replicate 64 0xA5" "BN_bn2bin (rsa_d plain_rsa) = replicate 64 0xA5" "RSA_size plain_rsa = 64"
    using sample_numbers by (simp_all add: plain_rsa_def RSA_size_def)
  have "software_key plain_rsa" by (simp add: software_key_def n sobj_key_id_def)
  from engine_software_key [OF this sample_alloc(1,2), of 3 "Some [1, 2, 3]" "[9]" 1] show ?thesis
    by (auto simp: sample_engine_def engine_start_def)
qed

end
