(* ===== verification/Sk_Driver.thy ===== *)
theory Sk_Driver
  imports Sk_Codec
begin

text \<open>
  The kernel driver \<open>securekeydev\<close> (\<open>secure_obj/securekeydev/ioctl.c\<close>, \<open>securekey_caam.c\<close>, \<open>securekey_desc.h\<close>):
  requests for the manufacturing protection key and its signatures, served by the cryptographic
  accelerator (CAAM). The state holds the live blocks of \<open>kmalloc\<close>, the live DMA mappings and the global
  completion status; the calls of the kernel that can fail and the accelerator are parameters. An access
  outside of a block, a free or an unmap of something that is not there is \<open>None\<close>.
\<close>

section \<open>Data\<close>

text \<open>\<open>securekey_driver.h\<close>: the requests in user memory.\<close>

record sk_mp_pub_key_info =
  mp_x :: buffer
  mp_x_len :: byte
  mp_y :: buffer
  mp_y_len :: byte

record sk_mp_sign_req_info =
  mp_msg :: buffer
  mp_msg_len :: byte
  mp_hash :: buffer
  mp_hash_len :: byte
  mp_r :: buffer
  mp_r_len :: byte
  mp_s :: buffer
  mp_s_len :: byte

text \<open>A command with what its argument points to; a bad pointer is \<open>None\<close>.\<close>

datatype sk_cmd =
    SK_MP_GET_PUB_KEY "sk_mp_pub_key_info option"
  | SK_MP_SIGN "sk_mp_sign_req_info option"
  | OtherCmd

text \<open>\<open>securekey_driver_pvt.h\<close>: the requests in the kernel; pointers are offsets in the block of \<open>mem_pointer\<close>.\<close>

datatype sk_req =
    PubKeyReq (pub_key: nat) (pub_key_len: byte)
  | SignReq (k_msg: nat) (k_msg_len: u64) (k_hash: nat) (k_hash_len: byte) (k_r: nat) (k_r_len: byte) (k_s: nat) (k_s_len: byte)

text \<open>A DMA address: the mapping and the offset in the block it maps.\<close>

type_synonym dma_addr = "nat \<times> nat"

text \<open>\<open>securekey_caam.h\<close>.\<close>

datatype caam_req =
    CaamPubKey dma_addr u64
  | CaamSign dma_addr u64 dma_addr u64 dma_addr u64 dma_addr u64

text \<open>The entries of a job descriptor, and the outcome of waiting for a job: its status and what it wrote, or a signal.\<close>

datatype desc_entry = HdrPdb nat | Cmd u32 | Ptr dma_addr | U32 u32 | Operation u32 u32

datatype wait_result = Completed int "(dma_addr \<times> byte list) list" | Interrupted

record caam_env =
  kmalloc_ok :: "nat \<Rightarrow> bool"
  dma_ok :: "nat \<Rightarrow> bool"
  caam_jr_enqueue :: "nat \<Rightarrow> desc_entry list \<Rightarrow> byte list \<Rightarrow> int \<times> wait_result"

record kernel =
  k_live :: "nat set"
  k_maps :: "nat set"
  k_calls :: nat
  job_comp_status :: int

abbreviation (input) ENOMEM :: int where "ENOMEM \<equiv> 12"
abbreviation (input) EFAULT :: int where "EFAULT \<equiv> 14"
abbreviation (input) EINVAL :: int where "EINVAL \<equiv> 22"

section \<open>Memory\<close>

definition kmalloc :: "caam_env \<Rightarrow> kernel \<Rightarrow> nat option \<times> kernel" where
  "kmalloc E s =
     (let k = k_calls s; s = s\<lparr>k_calls := k + 1\<rparr> in
      if kmalloc_ok E k then (Some k, s\<lparr>k_live := insert k (k_live s)\<rparr>) else (None, s))"

definition kfree :: "nat \<Rightarrow> kernel \<Rightarrow> kernel option" where
  "kfree k s = (if k \<in> k_live s then Some (s\<lparr>k_live := k_live s - {k}\<rparr>) else None)"

definition dma_map_single :: "caam_env \<Rightarrow> nat \<Rightarrow> kernel \<Rightarrow> dma_addr option \<times> kernel" where
  "dma_map_single E off s =
     (let k = k_calls s; s = s\<lparr>k_calls := k + 1\<rparr> in
      if dma_ok E k then (Some (k, off), s\<lparr>k_maps := insert k (k_maps s)\<rparr>) else (None, s))"

definition dma_unmap_single :: "dma_addr \<Rightarrow> kernel \<Rightarrow> kernel option" where
  "dma_unmap_single a s = (if fst a \<in> k_maps s then Some (s\<lparr>k_maps := k_maps s - {fst a}\<rparr>) else None)"

text \<open>\<open>copy_to_user\<close>: the number of bytes that could not be copied, and the buffer.\<close>

definition copy_to_user :: "buffer \<Rightarrow> byte list \<Rightarrow> nat \<times> buffer" where
  "copy_to_user dst src =
     (case dst of
        None \<Rightarrow> (length src, None)
      | Some b \<Rightarrow> (length src - length b, Some (take (length b) src @ drop (length src) b)))"

text \<open>\<open>n\<close> bytes of the block at \<open>off\<close>.\<close>

definition block_bytes :: "byte list \<Rightarrow> nat \<Rightarrow> nat \<Rightarrow> byte list option" where
  "block_bytes b off n = (if off + n \<le> length b then Some (slice b off n) else None)"

section \<open>Copying requests and results\<close>

text \<open>The result of the call, the request, the block \<open>mem_pointer\<close> and its contents.\<close>

definition sk_copy_data_from_user :: "caam_env \<Rightarrow> sk_cmd \<Rightarrow> kernel \<Rightarrow> ((int \<times> sk_req \<times> nat option \<times> byte list) \<times> kernel) option" where
  "sk_copy_data_from_user E cmd s =
     (case cmd of
        SK_MP_GET_PUB_KEY (Some u) \<Rightarrow>
          let len = mp_x_len u + mp_y_len u; (temp, s) = kmalloc E s in
          (case temp of
             None \<Rightarrow> Some ((- ENOMEM, PubKeyReq 0 len, None, []), s)
           | Some k \<Rightarrow> Some ((0, PubKeyReq 0 len, Some k, replicate (unat len) 0), s))
      | SK_MP_SIGN (Some u) \<Rightarrow>
          let msg_len = unat (mp_msg_len u); hash_len = unat (mp_hash_len u); r_len = unat (mp_r_len u); s_len = unat (mp_s_len u);
              total_sz = hash_len + msg_len + r_len + s_len;
              req = SignReq 0 (ucast (mp_msg_len u)) msg_len (mp_hash_len u) (msg_len + hash_len) (mp_r_len u)
                (msg_len + hash_len + r_len) (mp_s_len u);
              (temp, s) = kmalloc E s in
          (case temp of
             None \<Rightarrow> Some ((- ENOMEM, req, None, []), s)
           | Some k \<Rightarrow>
              (case read_bytes (mp_msg u) msg_len of
                 None \<Rightarrow> Some ((- EFAULT, req, Some k, replicate total_sz 0), s)
               | Some v \<Rightarrow> Some ((0, req, Some k, v @ replicate (total_sz - msg_len) 0), s)))
      | _ \<Rightarrow> None)"

definition sk_copy_data_to_user :: "sk_req \<Rightarrow> byte list \<Rightarrow> sk_cmd \<Rightarrow> (int \<times> sk_cmd) option" where
  "sk_copy_data_to_user req block cmd =
     (case (req, cmd) of
        (PubKeyReq off len, SK_MP_GET_PUB_KEY (Some u)) \<Rightarrow> do {
          v \<leftarrow> block_bytes block off (unat (mp_x_len u));
          let (n, b) = copy_to_user (mp_x u) v;
          let u = u\<lparr>mp_x := b\<rparr>;
          if n \<noteq> 0 then Some (- EFAULT, SK_MP_GET_PUB_KEY (Some u))
          else do {
            v \<leftarrow> block_bytes block (off + unat (mp_x_len u)) (unat (mp_y_len u));
            let (n, b) = copy_to_user (mp_y u) v;
            Some (if n \<noteq> 0 then - EFAULT else 0, SK_MP_GET_PUB_KEY (Some (u\<lparr>mp_y := b\<rparr>))) } }
      | (SignReq msg msg_len hash hash_len r r_len t t_len, SK_MP_SIGN (Some u)) \<Rightarrow> do {
          v \<leftarrow> block_bytes block hash (unat hash_len);
          let (n, b) = copy_to_user (mp_hash u) v;
          let u = u\<lparr>mp_hash := b\<rparr>;
          if n \<noteq> 0 then Some (- EFAULT, SK_MP_SIGN (Some u))
          else do {
            v \<leftarrow> block_bytes block r (unat r_len);
            let (n, b) = copy_to_user (mp_r u) v;
            let u = u\<lparr>mp_r := b\<rparr>;
            if n \<noteq> 0 then Some (- EFAULT, SK_MP_SIGN (Some u))
            else do {
              v \<leftarrow> block_bytes block t (unat t_len);
              let (n, b) = copy_to_user (mp_s u) v;
              Some (if n \<noteq> 0 then - EFAULT else 0, SK_MP_SIGN (Some (u\<lparr>mp_s := b\<rparr>))) } } }
      | _ \<Rightarrow> Some (- EINVAL, cmd))"

section \<open>Mapping for the accelerator\<close>

definition sk_mp_get_pub_key_map :: "caam_env \<Rightarrow> nat \<Rightarrow> byte \<Rightarrow> kernel \<Rightarrow> (int \<times> caam_req option \<times> kernel)" where
  "sk_mp_get_pub_key_map E off len s =
     (let (a, s) = dma_map_single E off s in
      case a of None \<Rightarrow> (- ENOMEM, None, s) | Some a \<Rightarrow> (0, Some (CaamPubKey a (ucast len)), s))"

text \<open>The four mappings, undone in reverse order when one fails.\<close>

definition sk_mp_sign_map :: "caam_env \<Rightarrow> sk_req \<Rightarrow> kernel \<Rightarrow> (int \<times> caam_req option \<times> kernel) option" where
  "sk_mp_sign_map E req s =
     (let (msg, s) = dma_map_single E (k_msg req) s in
      case msg of None \<Rightarrow> Some (- ENOMEM, None, s)
      | Some msg \<Rightarrow>
        let (hash, s) = dma_map_single E (k_hash req) s in
        case hash of None \<Rightarrow> do { s \<leftarrow> dma_unmap_single msg s; Some (- ENOMEM, None, s) }
        | Some hash \<Rightarrow>
          let (r, s) = dma_map_single E (k_r req) s in
          case r of None \<Rightarrow> do { s \<leftarrow> dma_unmap_single hash s; s \<leftarrow> dma_unmap_single msg s; Some (- ENOMEM, None, s) }
          | Some r \<Rightarrow>
            let (t, s) = dma_map_single E (k_s req) s in
            case t of
              None \<Rightarrow> do { s \<leftarrow> dma_unmap_single r s; s \<leftarrow> dma_unmap_single hash s; s \<leftarrow> dma_unmap_single msg s; Some (- ENOMEM, None, s) }
            | Some t \<Rightarrow> Some (0, Some (CaamSign msg (k_msg_len req) hash (ucast (k_hash_len req)) r (ucast (k_r_len req)) t (ucast (k_s_len req))), s))"

definition sk_map_caam_req :: "caam_env \<Rightarrow> sk_req \<Rightarrow> kernel \<Rightarrow> (int \<times> (nat \<times> caam_req) option \<times> kernel) option" where
  "sk_map_caam_req E req s =
     (let (p, s) = kmalloc E s in
      case p of
        None \<Rightarrow> Some (- ENOMEM, None, s)
      | Some p \<Rightarrow> do {
          (ret, c, s) \<leftarrow> (case req of
              PubKeyReq off len \<Rightarrow> Some (sk_mp_get_pub_key_map E off len s)
            | SignReq _ _ _ _ _ _ _ _ \<Rightarrow> sk_mp_sign_map E req s);
          case c of
            None \<Rightarrow> do { s \<leftarrow> kfree p s; Some (- ENOMEM, None, s) }
          | Some c \<Rightarrow> Some (0, Some (p, c), s) })"

definition sk_unmap :: "nat \<times> caam_req \<Rightarrow> kernel \<Rightarrow> kernel option" where
  "sk_unmap pc s = do {
     s \<leftarrow> (case snd pc of
         CaamPubKey a n \<Rightarrow> dma_unmap_single a s
       | CaamSign msg ml hash hl r rl t sl \<Rightarrow> do {
           s \<leftarrow> dma_unmap_single msg s; s \<leftarrow> dma_unmap_single hash s; s \<leftarrow> dma_unmap_single r s; dma_unmap_single t s });
     kfree (fst pc) s }"

section \<open>Jobs\<close>

abbreviation (input) MP_EC_CURVE :: u32 where "MP_EC_CURVE \<equiv> 0x60000"
abbreviation (input) OP_TYPE_MP :: u32 where "OP_TYPE_MP \<equiv> 0x86"
abbreviation (input) OP_PCLID_MP_PUB_KEY :: u32 where "OP_PCLID_MP_PUB_KEY \<equiv> 0x140000"
abbreviation (input) OP_PCLID_MP_SIGN :: u32 where "OP_PCLID_MP_SIGN \<equiv> 0x150000"

definition build_mp_get_pubkey_desc :: "dma_addr \<Rightarrow> desc_entry list" where
  "build_mp_get_pubkey_desc dest = [HdrPdb 12, Cmd MP_EC_CURVE, Ptr dest, Operation OP_TYPE_MP OP_PCLID_MP_PUB_KEY]"

definition build_mp_sign_desc :: "dma_addr \<Rightarrow> u32 \<Rightarrow> dma_addr \<Rightarrow> dma_addr \<Rightarrow> dma_addr \<Rightarrow> desc_entry list" where
  "build_mp_sign_desc msg msg_len hash c d =
     [HdrPdb 40, Cmd MP_EC_CURVE, Ptr msg, Ptr hash, Ptr c, Ptr d, U32 msg_len, Operation OP_TYPE_MP OP_PCLID_MP_SIGN]"

fun dma_writes :: "(dma_addr \<times> byte list) list \<Rightarrow> byte list \<Rightarrow> byte list option" where
  "dma_writes [] b = Some b"
| "dma_writes ((a, v) # ws) b = do { b \<leftarrow> poke b (snd a) v; dma_writes ws b }"

text \<open>
  \<open>submit_job\<close>: the result of the wait is not looked at, so after a signal the status is that of an earlier job.
\<close>

definition submit_job :: "caam_env \<Rightarrow> desc_entry list \<Rightarrow> byte list \<Rightarrow> kernel \<Rightarrow> (int \<times> byte list \<times> kernel) option" where
  "submit_job E desc block s =
     (let (ret, w) = caam_jr_enqueue E (k_calls s) desc block; s = s\<lparr>k_calls := k_calls s + 1\<rparr> in
      if ret \<noteq> 0 then Some (ret, block, s)
      else case w of
        Interrupted \<Rightarrow> Some (job_comp_status s, block, s)
      | Completed st ws \<Rightarrow> do { block \<leftarrow> dma_writes ws block; Some (st, block, s\<lparr>job_comp_status := st\<rparr>) })"

text \<open>\<open>caam_submit_mp_get_pub_key_op\<close> and \<open>caam_submit_mp_sign_op\<close> differ in the descriptor.\<close>

definition caam_submit :: "caam_env \<Rightarrow> desc_entry list \<Rightarrow> byte list \<Rightarrow> kernel \<Rightarrow> (int \<times> byte list \<times> kernel) option" where
  "caam_submit E entries block s =
     (let (desc, s) = kmalloc E s in
      case desc of
        None \<Rightarrow> Some (-1, block, s)
      | Some d \<Rightarrow> do {
          (ret, block, s) \<leftarrow> submit_job E entries block s;
          s \<leftarrow> kfree d s;
          Some (ret, block, s) })"

definition caam_job_submit :: "caam_env \<Rightarrow> caam_req \<Rightarrow> byte list \<Rightarrow> kernel \<Rightarrow> (int \<times> byte list \<times> kernel) option" where
  "caam_job_submit E c block s =
     (case c of
        CaamPubKey a n \<Rightarrow> caam_submit E (build_mp_get_pubkey_desc a) block s
      | CaamSign msg ml hash hl r rl t sl \<Rightarrow> caam_submit E (build_mp_sign_desc msg (ucast ml) hash r t) block s)"

section \<open>The ioctl\<close>

text \<open>From the mapped request to the results in user memory.\<close>

definition run_request :: "caam_env \<Rightarrow> sk_req \<Rightarrow> byte list \<Rightarrow> sk_cmd \<Rightarrow> kernel \<Rightarrow> (int \<times> sk_cmd \<times> kernel) option" where
  "run_request E req block cmd s = do {
     (ret, c, s) \<leftarrow> sk_map_caam_req E req s;
     case c of
       None \<Rightarrow> Some (ret, cmd, s)
     | Some c \<Rightarrow> do {
         (ret, block, s) \<leftarrow> caam_job_submit E (snd c) block s;
         (ret, cmd) \<leftarrow> (if ret = 0 then sk_copy_data_to_user req block cmd else Some (-1, cmd));
         s \<leftarrow> sk_unmap c s;
         Some (ret, cmd, s) } }"

definition securekeydev_ioctl :: "caam_env \<Rightarrow> sk_cmd \<Rightarrow> kernel \<Rightarrow> (int \<times> sk_cmd \<times> kernel) option" where
  "securekeydev_ioctl E cmd s =
     (let (req, s) = kmalloc E s in
      case req of
        None \<Rightarrow> Some (- ENOMEM, cmd, s)
      | Some q \<Rightarrow>
          if cmd = OtherCmd then do { s \<leftarrow> kfree q s; Some (- EINVAL, cmd, s) }
          else do {
            ((ret, r, mem_pointer, block), s) \<leftarrow> sk_copy_data_from_user E cmd s;
            if ret \<noteq> 0 then do { s \<leftarrow> kfree q s; Some (ret, cmd, s) }
            else do {
              (ret, cmd, s) \<leftarrow> run_request E r block cmd s;
              s \<leftarrow> (case mem_pointer of None \<Rightarrow> Some s | Some k \<Rightarrow> kfree k s);
              s \<leftarrow> kfree q s;
              Some (ret, cmd, s) } })"

section \<open>The device\<close>

text \<open>Opening a file takes a job ring, \<open>jr\<close> being what \<open>caam_jr_alloc\<close> returned; closing it gives the ring back.\<close>

abbreviation (input) ENODEV :: int where "ENODEV \<equiv> 19"

definition securekeydev_open :: "nat option \<Rightarrow> nat set \<Rightarrow> int \<times> nat option \<times> nat set" where
  "securekeydev_open jr rings = (case jr of None \<Rightarrow> (- ENODEV, None, rings) | Some d \<Rightarrow> (0, Some d, insert d rings))"

definition securekeydev_release :: "nat \<Rightarrow> nat set \<Rightarrow> int \<times> nat set" where
  "securekeydev_release dev rings = (0, rings - {dev})"

text \<open>What the module registered: the device and the table of \<open>sysctl\<close>.\<close>

record registered =
  reg_device :: bool
  reg_sysctl :: bool

definition securekeydev_register :: "int \<Rightarrow> registered \<Rightarrow> int \<times> registered" where
  "securekeydev_register misc_rc g = (if misc_rc \<noteq> 0 then (misc_rc, g) else (0, g\<lparr>reg_device := True\<rparr>))"

definition securekeydev_deregister :: "registered \<Rightarrow> registered" where
  "securekeydev_deregister g = g\<lparr>reg_device := False\<rparr>"

definition init_securekeydev :: "int \<Rightarrow> bool \<Rightarrow> registered \<Rightarrow> int \<times> registered" where
  "init_securekeydev misc_rc sysctl_ok g =
     (let (rc, g) = securekeydev_register misc_rc g in
      if rc \<noteq> 0 then (rc, g) else (0, g\<lparr>reg_sysctl := sysctl_ok\<rparr>))"

definition exit_securekeydev :: "registered \<Rightarrow> registered" where
  "exit_securekeydev g = securekeydev_deregister (if reg_sysctl g then g\<lparr>reg_sysctl := False\<rparr> else g)"

lemma module_lifecycle:
  assumes "init_securekeydev misc_rc sysctl_ok \<lparr>reg_device = False, reg_sysctl = False\<rparr> = (rc, g)"
  shows "if rc = 0 then reg_device g \<and> exit_securekeydev g = \<lparr>reg_device = False, reg_sysctl = False\<rparr>
    else g = \<lparr>reg_device = False, reg_sysctl = False\<rparr>"
  using assms by (auto simp: init_securekeydev_def securekeydev_register_def exit_securekeydev_def securekeydev_deregister_def split: if_splits)

lemma file_lifecycle:
  assumes "securekeydev_open jr rings = (rc, filp, rings')" and "\<And>d. jr = Some d \<Longrightarrow> d \<notin> rings"
  shows "case filp of None \<Rightarrow> rc = - ENODEV \<and> rings' = rings | Some d \<Rightarrow> rc = 0 \<and> snd (securekeydev_release d rings') = rings"
  using assms by (auto simp: securekeydev_open_def securekeydev_release_def split: option.splits)

section \<open>What is given back\<close>

text \<open>Blocks and mappings are numbered by the calls that made them.\<close>

definition k_numbered :: "kernel \<Rightarrow> bool" where
  "k_numbered s \<longleftrightarrow> k_live s \<subseteq> {..< k_calls s} \<and> k_maps s \<subseteq> {..< k_calls s}"

text \<open>\<open>s'\<close> has, beyond \<open>s\<close>, the blocks \<open>L\<close> and the mappings \<open>M\<close>.\<close>

definition k_more :: "kernel \<Rightarrow> kernel \<Rightarrow> nat set \<Rightarrow> nat set \<Rightarrow> bool" where
  "k_more s s' L M \<longleftrightarrow> k_live s' = L \<union> k_live s \<and> k_maps s' = M \<union> k_maps s \<and> L \<inter> k_live s = {} \<and> M \<inter> k_maps s = {} \<and> k_numbered s'"

lemma k_more_refl: "k_numbered s \<Longrightarrow> k_more s s {} {}"
  by (simp add: k_more_def)

lemma kmalloc_more:
  assumes "k_more s s1 L M" and "kmalloc E s1 = (p, s2)"
  shows "(p = None \<and> k_more s s2 L M) \<or> (\<exists>k. p = Some k \<and> k_more s s2 (insert k L) M \<and> k \<notin> L)"
proof (cases "kmalloc_ok E (k_calls s1)")
  case True
  with assms(2) have r: "p = Some (k_calls s1)" "s2 = s1\<lparr>k_calls := k_calls s1 + 1, k_live := insert (k_calls s1) (k_live s1)\<rparr>"
    by (simp_all add: kmalloc_def Let_def)
  have "k_calls s1 \<notin> L" "k_calls s1 \<notin> k_live s" using assms(1) unfolding k_more_def k_numbered_def by blast+
  with assms(1) show ?thesis unfolding r k_more_def k_numbered_def by (auto simp: less_Suc_eq)
qed (use assms in \<open>auto simp: kmalloc_def k_more_def k_numbered_def less_Suc_eq\<close>)

lemma dma_map_more:
  assumes "k_more s s1 L M" and "dma_map_single E off s1 = (a, s2)"
  shows "(a = None \<and> k_more s s2 L M) \<or> (\<exists>k. a = Some (k, off) \<and> k_more s s2 L (insert k M) \<and> k \<notin> M)"
proof (cases "dma_ok E (k_calls s1)")
  case True
  with assms(2) have r: "a = Some (k_calls s1, off)" "s2 = s1\<lparr>k_calls := k_calls s1 + 1, k_maps := insert (k_calls s1) (k_maps s1)\<rparr>"
    by (simp_all add: dma_map_single_def Let_def)
  have "k_calls s1 \<notin> M" "k_calls s1 \<notin> k_maps s" using assms(1) unfolding k_more_def k_numbered_def by blast+
  with assms(1) show ?thesis unfolding r k_more_def k_numbered_def by (auto simp: less_Suc_eq)
qed (use assms in \<open>auto simp: dma_map_single_def k_more_def k_numbered_def less_Suc_eq\<close>)

lemma kfree_more:
  "k_more s s1 (insert k L) M \<Longrightarrow> k \<notin> L \<Longrightarrow> \<exists>s2. kfree k s1 = Some s2 \<and> k_more s s2 L M"
  by (auto simp: kfree_def k_more_def k_numbered_def insert_Diff_if)

lemma dma_unmap_more:
  "k_more s s1 L (insert (fst a) M) \<Longrightarrow> fst a \<notin> M \<Longrightarrow> \<exists>s2. dma_unmap_single a s1 = Some s2 \<and> k_more s s2 L M"
  by (auto simp: dma_unmap_single_def k_more_def k_numbered_def insert_Diff_if)

lemma k_more_frame: "k_more s s1 L M \<Longrightarrow> k_live s2 = k_live s1 \<Longrightarrow> k_maps s2 = k_maps s1 \<Longrightarrow> k_calls s1 \<le> k_calls s2 \<Longrightarrow> k_more s s2 L M"
  by (auto simp: k_more_def k_numbered_def subset_iff intro: less_le_trans)

fun maps_of :: "caam_req \<Rightarrow> nat list" where
  "maps_of (CaamPubKey a n) = [fst a]"
| "maps_of (CaamSign msg ml hash hl r rl t sl) = [fst msg, fst hash, fst r, fst t]"

text \<open>The mappings of a request, on top of \<open>M\<close>.\<close>

definition mapped :: "kernel \<Rightarrow> kernel \<Rightarrow> nat set \<Rightarrow> nat set \<Rightarrow> caam_req \<Rightarrow> bool" where
  "mapped s s' L M c \<longleftrightarrow> k_more s s' L (set (maps_of c) \<union> M) \<and> distinct (maps_of c) \<and> set (maps_of c) \<inter> M = {}"

lemma sk_mp_sign_map_more:
  assumes "k_more s s1 L M" and "sk_mp_sign_map E req s1 = Some (ret, c, s2)"
  shows "(c = None \<and> k_more s s2 L M) \<or> (\<exists>c'. c = Some c' \<and> mapped s s2 L M c')"
proof -
  obtain a1 t1 where 1: "dma_map_single E (k_msg req) s1 = (a1, t1)" by (metis surj_pair)
  obtain a2 t2 where 2: "dma_map_single E (k_hash req) t1 = (a2, t2)" by (metis surj_pair)
  obtain a3 t3 where 3: "dma_map_single E (k_r req) t2 = (a3, t3)" by (metis surj_pair)
  obtain a4 t4 where 4: "dma_map_single E (k_s req) t3 = (a4, t4)" by (metis surj_pair)
  note d = assms(2) [unfolded sk_mp_sign_map_def 1 prod.case Let_def]
  from dma_map_more [OF assms(1) 1] show ?thesis
  proof (elim disjE exE conjE)
    assume "a1 = None" "k_more s t1 L M"
    then show ?thesis using d by simp
  next
    fix k1 assume m1: "a1 = Some (k1, k_msg req)" "k_more s t1 L (insert k1 M)" "k1 \<notin> M"
    from dma_map_more [OF m1(2) 2] show ?thesis
    proof (elim disjE exE conjE)
      assume n: "a2 = None" "k_more s t2 L (insert k1 M)"
      from dma_unmap_more [of s t2 L "(k1, k_msg req)" M] n m1 d 2 show ?thesis by (auto split: bind_splits)
    next
      fix k2 assume m2: "a2 = Some (k2, k_hash req)" "k_more s t2 L (insert k2 (insert k1 M))" "k2 \<notin> insert k1 M"
      from dma_map_more [OF m2(2) 3] show ?thesis
      proof (elim disjE exE conjE)
        assume n: "a3 = None" "k_more s t3 L (insert k2 (insert k1 M))"
        from dma_unmap_more [of s t3 L "(k2, k_hash req)" "insert k1 M"] n m2(3) obtain u1 where
          u1: "dma_unmap_single (k2, k_hash req) t3 = Some u1" "k_more s u1 L (insert k1 M)" by auto
        from dma_unmap_more [of s u1 L "(k1, k_msg req)" M] u1 n m1 m2 d 2 3 show ?thesis by (auto split: bind_splits)
      next
        fix k3 assume m3: "a3 = Some (k3, k_r req)" "k_more s t3 L (insert k3 (insert k2 (insert k1 M)))" "k3 \<notin> insert k2 (insert k1 M)"
        from dma_map_more [OF m3(2) 4] show ?thesis
        proof (elim disjE exE conjE)
          assume n: "a4 = None" "k_more s t4 L (insert k3 (insert k2 (insert k1 M)))"
          from dma_unmap_more [of s t4 L "(k3, k_r req)" "insert k2 (insert k1 M)"] n m3(3) obtain u1 where
            u1: "dma_unmap_single (k3, k_r req) t4 = Some u1" "k_more s u1 L (insert k2 (insert k1 M))" by auto
          from dma_unmap_more [of s u1 L "(k2, k_hash req)" "insert k1 M"] u1 m2(3) obtain u2 where
            u2: "dma_unmap_single (k2, k_hash req) u1 = Some u2" "k_more s u2 L (insert k1 M)" by auto
          from dma_unmap_more [of s u2 L "(k1, k_msg req)" M] u1 u2 n m1 m2 m3 d 2 3 4 show ?thesis by (auto split: bind_splits)
        next
          fix k4 assume m4: "a4 = Some (k4, k_s req)" "k_more s t4 L (insert k4 (insert k3 (insert k2 (insert k1 M))))"
            "k4 \<notin> insert k3 (insert k2 (insert k1 M))"
          have "c = Some (CaamSign (k1, k_msg req) (k_msg_len req) (k2, k_hash req) (ucast (k_hash_len req)) (k3, k_r req) (ucast (k_r_len req))
              (k4, k_s req) (ucast (k_s_len req)))" "s2 = t4"
            using d 2 3 4 m1(1) m2(1) m3(1) m4(1) by simp_all
          with m1(3) m2(3) m3(3) m4(2,3) show ?thesis by (auto simp: mapped_def insert_commute)
        qed
      qed
    qed
  qed
qed

lemma sk_map_caam_req_more:
  assumes "k_more s s1 L M" and "sk_map_caam_req E req s1 = Some (ret, c, s2)"
  shows "(c = None \<and> k_more s s2 L M) \<or> (\<exists>p c'. c = Some (p, c') \<and> p \<notin> L \<and> mapped s s2 (insert p L) M c')"
proof -
  obtain p t where 1: "kmalloc E s1 = (p, t)" by (metis surj_pair)
  note d = assms(2) [unfolded sk_map_caam_req_def 1 prod.case Let_def]
  from kmalloc_more [OF assms(1) 1] show ?thesis
  proof (elim disjE exE conjE)
    fix k assume k: "p = Some k" "k_more s t (insert k L) M" "k \<notin> L"
    obtain ret' c' t' where 2: "(case req of PubKeyReq off len \<Rightarrow> Some (sk_mp_get_pub_key_map E off len t)
        | SignReq _ _ _ _ _ _ _ _ \<Rightarrow> sk_mp_sign_map E req t) = Some (ret', c', t')"
      using d k(1) by (auto split: bind_splits)
    have "(c' = None \<and> k_more s t' (insert k L) M) \<or> (\<exists>c''. c' = Some c'' \<and> mapped s t' (insert k L) M c'')"
    proof (cases req)
      case (PubKeyReq off len)
      obtain a u where a: "dma_map_single E off t = (a, u)" by (metis surj_pair)
      from dma_map_more [OF k(2) a] 2 PubKeyReq a show ?thesis by (auto simp: sk_mp_get_pub_key_map_def mapped_def)
    next
      case SignReq
      with 2 sk_mp_sign_map_more [OF k(2)] show ?thesis by simp
    qed
    then show ?thesis
    proof (elim disjE exE conjE)
      assume n: "c' = None" "k_more s t' (insert k L) M"
      from kfree_more [OF n(2) k(3)] n d k(1) 2 show ?thesis by (auto split: bind_splits)
    next
      fix c'' assume "c' = Some c''" "mapped s t' (insert k L) M c''"
      with d k 2 show ?thesis by (auto split: bind_splits)
    qed
  qed (use d in simp)
qed

lemma sk_unmap_more:
  assumes "mapped s s1 (insert p L) M c" and "p \<notin> L" and "sk_unmap (p, c) s1 = Some s2"
  shows "k_more s s2 L M"
proof (cases c)
  case (CaamPubKey a n)
  with assms(1) obtain u where u: "dma_unmap_single a s1 = Some u" "k_more s u (insert p L) M"
    using dma_unmap_more [of s s1 "insert p L" a M] by (auto simp: mapped_def)
  from kfree_more [OF u(2) assms(2)] u assms(3) CaamPubKey show ?thesis by (auto simp: sk_unmap_def)
next
  case (CaamSign msg ml hash hl r rl t sl)
  note m = assms(1) [unfolded mapped_def CaamSign maps_of.simps]
  have i: "set [fst msg, fst hash, fst r, fst t] \<union> M = insert (fst msg) (insert (fst hash) (insert (fst r) (insert (fst t) M)))" by auto
  from dma_unmap_more [OF conjunct1 [OF m, unfolded i]] m obtain u1 where
    u1: "dma_unmap_single msg s1 = Some u1" "k_more s u1 (insert p L) (insert (fst hash) (insert (fst r) (insert (fst t) M)))" by auto
  from dma_unmap_more [OF u1(2)] m obtain u2 where u2: "dma_unmap_single hash u1 = Some u2" "k_more s u2 (insert p L) (insert (fst r) (insert (fst t) M))" by auto
  from dma_unmap_more [OF u2(2)] m obtain u3 where u3: "dma_unmap_single r u2 = Some u3" "k_more s u3 (insert p L) (insert (fst t) M)" by auto
  from dma_unmap_more [OF u3(2)] m obtain u4 where u4: "dma_unmap_single t u3 = Some u4" "k_more s u4 (insert p L) M" by auto
  from kfree_more [OF u4(2) assms(2)] u1 u2 u3 u4 assms(3) CaamSign show ?thesis by (auto simp: sk_unmap_def)
qed

lemma caam_job_submit_more:
  assumes "k_more s s1 L M" and "caam_job_submit E c block s1 = Some (ret, block', s2)"
  shows "k_more s s2 L M"
proof -
  obtain es where d: "caam_submit E es block s1 = Some (ret, block', s2)" using assms(2) by (cases c) (auto simp: caam_job_submit_def)
  obtain p t where 1: "kmalloc E s1 = (p, t)" by (metis surj_pair)
  from kmalloc_more [OF assms(1) 1] show ?thesis
  proof (elim disjE exE conjE)
    fix k assume k: "p = Some k" "k_more s t (insert k L) M" "k \<notin> L"
    obtain r b u where j: "submit_job E es block t = Some (r, b, u)" "kfree k u = Some s2"
      using d 1 k(1) by (auto simp: caam_submit_def split: bind_splits)
    have "k_live u = k_live t \<and> k_maps u = k_maps t \<and> k_calls t \<le> k_calls u"
      using j(1) by (auto simp: submit_job_def Let_def split: prod.splits if_splits wait_result.splits bind_splits)
    then have "k_more s u (insert k L) M" using k_more_frame [OF k(2)] by blast
    from kfree_more [OF this k(3)] j(2) show ?thesis by auto
  qed (use d 1 in \<open>simp add: caam_submit_def\<close>)
qed

lemma run_request_more:
  assumes "k_more s s1 L M" and "run_request E req block cmd s1 = Some (ret, cmd', s2)"
  shows "k_more s s2 L M"
proof -
  obtain r c t where 1: "sk_map_caam_req E req s1 = Some (r, c, t)" using assms(2) by (auto simp: run_request_def split: bind_splits)
  from sk_map_caam_req_more [OF assms(1) 1] show ?thesis
  proof (elim disjE exE conjE)
    fix p c' assume c: "c = Some (p, c')" "p \<notin> L" "mapped s t (insert p L) M c'"
    obtain r' b u where 2: "caam_job_submit E c' block t = Some (r', b, u)" "sk_unmap (p, c') u = Some s2"
      using assms(2) 1 c(1) by (auto simp: run_request_def split: bind_splits)
    have "mapped s u (insert p L) M c'" using caam_job_submit_more [OF _ 2(1)] c(3) by (simp add: mapped_def)
    from sk_unmap_more [OF this c(2) 2(2)] show ?thesis .
  qed (use assms(2) 1 in \<open>simp add: run_request_def\<close>)
qed

text \<open>The request in the kernel: its block is the only thing that copying adds.\<close>

lemma sk_copy_data_from_user_more:
  assumes "k_more s s1 L M" and "sk_copy_data_from_user E cmd s1 = Some ((ret, r, mp, block), s2)"
  shows "(mp = None \<and> ret = - ENOMEM \<and> k_more s s2 L M) \<or> (\<exists>k. mp = Some k \<and> k \<notin> L \<and> k_more s s2 (insert k L) M \<and>
    (ret = 0 \<or> ret = - EFAULT \<and> (\<exists>u. cmd = SK_MP_SIGN (Some u) \<and> read_bytes (mp_msg u) (unat (mp_msg_len u)) = None)))"
proof -
  obtain p t where 1: "kmalloc E s1 = (p, t)" by (metis surj_pair)
  from assms(2) 1 have "s2 = t \<and> p = mp \<and> (if p = None then ret = - ENOMEM
      else ret = 0 \<or> ret = - EFAULT \<and> (\<exists>u. cmd = SK_MP_SIGN (Some u) \<and> read_bytes (mp_msg u) (unat (mp_msg_len u)) = None))"
    by (auto simp: sk_copy_data_from_user_def Let_def split: sk_cmd.splits option.splits)
  with kmalloc_more [OF assms(1) 1] show ?thesis by (auto split: if_splits)
qed

lemma ioctl_more:
  assumes "k_numbered s" and "securekeydev_ioctl E cmd s = Some (ret, cmd', s')"
  shows "k_maps s' = k_maps s \<and> (k_live s' = k_live s \<or>
    ret = - EFAULT \<and> (\<exists>u. cmd = SK_MP_SIGN (Some u) \<and> read_bytes (mp_msg u) (unat (mp_msg_len u)) = None) \<and>
      (\<exists>k. k \<notin> k_live s \<and> k_live s' = insert k (k_live s)))"
proof -
  obtain p t where 1: "kmalloc E s = (p, t)" by (metis surj_pair)
  note d = assms(2) [unfolded securekeydev_ioctl_def 1 prod.case Let_def]
  have fine: ?thesis if "k_more s s' {} {}" using that by (simp add: k_more_def)
  from kmalloc_more [OF k_more_refl [OF assms(1)] 1] show ?thesis
  proof (elim disjE exE conjE)
    fix q assume q: "p = Some q" "k_more s t {q} {}"
    show ?thesis
    proof (cases "cmd = OtherCmd")
      case True
      with kfree_more [of s t q "{}" "{}"] q d fine show ?thesis by (auto split: bind_splits)
    next
      case False
      obtain ret1 r mp block t1 where 2: "sk_copy_data_from_user E cmd t = Some ((ret1, r, mp, block), t1)"
        using d q(1) False by (auto split: bind_splits)
      from sk_copy_data_from_user_more [OF q(2) 2] show ?thesis
      proof (elim disjE exE conjE)
        assume n: "mp = None" "ret1 = - ENOMEM" "k_more s t1 {q} {}"
        from kfree_more [of s t1 q "{}" "{}"] n d q(1) False 2 fine show ?thesis by auto
      next
        fix k assume k: "mp = Some k" "k \<notin> {q}" "k_more s t1 {k, q} {}" "ret1 = 0"
        obtain t2 where 3: "run_request E r block cmd t1 = Some (ret, cmd', t2)"
            "(do { s \<leftarrow> kfree k t2; kfree q s }) = Some s'"
          using d q(1) False 2 k(1,4) by (auto split: bind_splits)
        from kfree_more [OF run_request_more [OF k(3) 3(1)] k(2)] obtain t3 where t3: "kfree k t2 = Some t3" "k_more s t3 {q} {}" by blast
        from kfree_more [of s t3 q "{}" "{}"] t3 3(2) fine show ?thesis by auto
      next
        fix k u assume k: "mp = Some k" "k \<notin> {q}" "k_more s t1 {k, q} {}" "ret1 = - EFAULT"
          "cmd = SK_MP_SIGN (Some u)" "read_bytes (mp_msg u) (unat (mp_msg_len u)) = None"
        have "{k, q} = insert q {k}" by auto
        with kfree_more [of s t1 q "{k}" "{}"] k(2,3) obtain t2 where t2: "kfree q t1 = Some t2" "k_more s t2 {k} {}" by auto
        then have "s' = t2" "ret = - EFAULT" using d q(1) False 2 k(4) by auto
        with t2(2) k(5,6) show ?thesis by (auto simp: k_more_def)
      qed
    qed
  qed (use d fine in auto)
qed

lemma ioctl_frame:
  assumes "k_numbered s" and "securekeydev_ioctl E cmd s = Some (0, cmd', s')"
  shows "k_live s' = k_live s \<and> k_maps s' = k_maps s"
  using ioctl_more [OF assms] by simp

text \<open>
  C39: the driver gives everything back, but for one path. Whatever allocations and mappings fail and whatever the
  accelerator does, when \<open>securekeydev_ioctl\<close> returns all DMA mappings are removed and all blocks freed, each once.
  The exception is a signature request whose message cannot be read from user memory: it returns \<open>-EFAULT\<close>
  and loses exactly the block allocated for the request.
\<close>

theorem ioctl_releases:
  assumes "k_numbered s" and "securekeydev_ioctl E cmd s = Some (ret, cmd', s')"
  shows "k_maps s' = k_maps s \<and> (k_live s' = k_live s \<or>
    ret = - EFAULT \<and> (\<exists>u. cmd = SK_MP_SIGN (Some u) \<and> read_bytes (mp_msg u) (unat (mp_msg_len u)) = None) \<and>
      (\<exists>k. k \<notin> k_live s \<and> k_live s' = insert k (k_live s)))"
  by (rule ioctl_more [OF assms])

section \<open>The public key\<close>

text \<open>Nothing fails, and the accelerator writes the key, of 64 bytes, to the address in the descriptor.\<close>

definition reliable :: "caam_env \<Rightarrow> byte list \<Rightarrow> bool" where
  "reliable E K \<longleftrightarrow> (\<forall>n. kmalloc_ok E n \<and> dma_ok E n) \<and> length K = 64 \<and>
     (\<forall>n a b. caam_jr_enqueue E n (build_mp_get_pubkey_desc a) b = (0, Completed 0 [(a, K)]))"

lemma run_pub_key:
  assumes "reliable E K"
  shows "run_request E (PubKeyReq 0 len) block cmd s =
    (if 64 \<le> length block
     then map_option (\<lambda>(ret, cmd). (ret, cmd, s\<lparr>k_live := k_live s - {k_calls s, k_calls s + 2}, k_maps := k_maps s - {k_calls s + 1},
         k_calls := Suc (Suc (Suc (Suc (k_calls s)))), job_comp_status := 0\<rparr>)) (sk_copy_data_to_user (PubKeyReq 0 len) (K @ drop 64 block) cmd)
     else None)"
proof -
  have r: "kmalloc_ok E n" "dma_ok E n" "length K = 64" for n using assms by (auto simp: reliable_def)
  have e: "caam_jr_enqueue E n (build_mp_get_pubkey_desc a) b = (0, Completed 0 [(a, K)])" for n a b
    using assms unfolding reliable_def by blast
  have m: "sk_map_caam_req E (PubKeyReq 0 len) s = Some (0, Some (k_calls s, CaamPubKey (k_calls s + 1, 0) (ucast len)),
      s\<lparr>k_calls := k_calls s + 2, k_live := insert (k_calls s) (k_live s), k_maps := insert (k_calls s + 1) (k_maps s)\<rparr>)"
    by (simp add: r sk_map_caam_req_def kmalloc_def sk_mp_get_pub_key_map_def dma_map_single_def Let_def)
  have j: "caam_job_submit E (CaamPubKey a n) block t = (if 64 \<le> length block then Some (0, K @ drop 64 block,
      t\<lparr>k_calls := k_calls t + 2, k_live := k_live t - {k_calls t}, job_comp_status := 0\<rparr>) else None)" if "snd a = 0" for a n t
    using that by (simp add: r e caam_job_submit_def caam_submit_def kmalloc_def submit_job_def kfree_def poke_def Let_def)
  have l: "insert c L - {Suc (Suc c)} - {c} = L - {c, Suc (Suc c)}" for c :: nat and L by auto
  show ?thesis
    by (auto simp: l run_request_def m j sk_unmap_def dma_unmap_single_def kfree_def split: option.splits bind_splits)
qed

lemma ioctl_pub_key:
  assumes "reliable E K"
  shows "map_option (\<lambda>(ret, cmd, s). (ret, cmd)) (securekeydev_ioctl E (SK_MP_GET_PUB_KEY (Some u)) s) =
    (let n = unat (mp_x_len u + mp_y_len u) in
     if 64 \<le> n then sk_copy_data_to_user (PubKeyReq 0 (mp_x_len u + mp_y_len u)) (K @ replicate (n - 64) 0) (SK_MP_GET_PUB_KEY (Some u)) else None)"
proof -
  have r: "kmalloc_ok E n" for n using assms by (auto simp: reliable_def)
  show ?thesis
    by (auto simp: securekeydev_ioctl_def kmalloc_def r sk_copy_data_from_user_def run_pub_key [OF assms] kfree_def Let_def
        split: option.splits bind_splits)
qed

lemma unat_byte_sum: "unat (a + b :: byte) = (if unat a + unat b < 256 then unat a + unat b else unat a + unat b - 256)"
proof -
  have "unat (a + b) = (unat a + unat b) mod 256" by (simp add: unat_word_ariths)
  moreover have "unat a < 256" "unat b < 256" using unat_less_2p [of a] unat_less_2p [of b] by simp_all
  ultimately show ?thesis by (simp add: mod_if)
qed

text \<open>
  the length of a public key request is not checked. The block for the key has the sum of the two lengths of
  the request, computed in eight bits, while the accelerator writes 64 bytes and the results are copied with the two
  lengths. With buffers of these lengths in user memory, a reliable kernel and accelerator, the request stays
  inside of its block exactly if the sum is at least 64 and less than 256: smaller sums let the
  accelerator write beyond the block, larger ones copy foreign kernel memory to the user.
\<close>

theorem pub_key_request_bounds:
  assumes "reliable E K" and "mp_x u = Some xb" and "mp_y u = Some yb" and "length xb = unat (mp_x_len u)" and "length yb = unat (mp_y_len u)"
  shows "(\<exists>ret cmd s'. securekeydev_ioctl E (SK_MP_GET_PUB_KEY (Some u)) s = Some (ret, cmd, s')) \<longleftrightarrow>
    64 \<le> unat (mp_x_len u) + unat (mp_y_len u) \<and> unat (mp_x_len u) + unat (mp_y_len u) < 256"
proof -
  let ?i = "securekeydev_ioctl E (SK_MP_GET_PUB_KEY (Some u)) s" and ?x = "unat (mp_x_len u)" and ?y = "unat (mp_y_len u)"
  have k: "length K = 64" using assms(1) by (simp add: reliable_def)
  have "(\<exists>ret cmd s'. ?i = Some (ret, cmd, s')) \<longleftrightarrow> map_option (\<lambda>(ret, cmd, s). (ret, cmd)) ?i \<noteq> None" by (cases ?i) auto
  also have "\<dots> \<longleftrightarrow> 64 \<le> unat (mp_x_len u + mp_y_len u) \<and> ?x + ?y \<le> unat (mp_x_len u + mp_y_len u)"
    unfolding ioctl_pub_key [OF assms(1)] using assms(2-5) k
    by (auto simp: Let_def sk_copy_data_to_user_def block_bytes_def copy_to_user_def slice_def)
  also have "\<dots> \<longleftrightarrow> 64 \<le> ?x + ?y \<and> ?x + ?y < 256" by (auto simp: unat_byte_sum)
  finally show ?thesis .
qed

section \<open>A sample accelerator\<close>

definition ptr_of :: "desc_entry \<Rightarrow> dma_addr" where
  "ptr_of e = (case e of Ptr a \<Rightarrow> a | _ \<Rightarrow> (0, 0))"

definition sample_key :: "byte list" where
  "sample_key = replicate 32 7 @ replicate 32 8"

definition sample_caam :: caam_env where
  "sample_caam = \<lparr>kmalloc_ok = (\<lambda>n. True), dma_ok = (\<lambda>n. True), caam_jr_enqueue = (\<lambda>n d b. (0, Completed 0
     (if length d = 4 then [(ptr_of (d ! 2), sample_key)]
      else [(ptr_of (d ! 3), replicate 32 1), (ptr_of (d ! 4), replicate 32 2), (ptr_of (d ! 5), replicate 32 3)])))\<rparr>"

definition idle_kernel :: kernel where
  "idle_kernel = \<lparr>k_live = {}, k_maps = {}, k_calls = 0, job_comp_status = 0\<rparr>"

definition pub_key_request :: "byte \<Rightarrow> sk_mp_pub_key_info" where
  "pub_key_request n = \<lparr>mp_x = Some (replicate (unat n) 0), mp_x_len = n, mp_y = Some (replicate (unat n) 0), mp_y_len = n\<rparr>"

definition unreadable_request :: sk_mp_sign_req_info where
  "unreadable_request = \<lparr>mp_msg = None, mp_msg_len = 5, mp_hash = Some [], mp_hash_len = 0, mp_r = Some [], mp_r_len = 0, mp_s = Some [], mp_s_len = 0\<rparr>"

lemma sample_reliable: "reliable sample_caam sample_key"
  by (simp add: reliable_def sample_caam_def sample_key_def build_mp_get_pubkey_desc_def ptr_of_def)

lemma unreadable_sample: "securekeydev_ioctl sample_caam (SK_MP_SIGN (Some unreadable_request)) idle_kernel =
  Some (- EFAULT, SK_MP_SIGN (Some unreadable_request), \<lparr>k_live = {1}, k_maps = {}, k_calls = 2, job_comp_status = 0\<rparr>)"
proof -
  have m: "kmalloc sample_caam s = (Some (k_calls s), s\<lparr>k_calls := Suc (k_calls s), k_live := insert (k_calls s) (k_live s)\<rparr>)" for s
    by (simp add: kmalloc_def sample_caam_def Let_def)
  have "sk_copy_data_from_user sample_caam (SK_MP_SIGN (Some unreadable_request)) s =
      Some ((- EFAULT, SignReq 0 5 5 0 5 0 5 0, Some (k_calls s), replicate 5 0), s\<lparr>k_calls := Suc (k_calls s), k_live := insert (k_calls s) (k_live s)\<rparr>)" for s
    by (simp add: sk_copy_data_from_user_def unreadable_request_def m read_bytes_def)
  then show ?thesis by (auto simp: securekeydev_ioctl_def m kfree_def idle_kernel_def)
qed

theorem ioctl_releases_witness:
  "\<exists>s'. securekeydev_ioctl sample_caam (SK_MP_SIGN (Some unreadable_request)) idle_kernel =
      Some (- EFAULT, SK_MP_SIGN (Some unreadable_request), s') \<and> k_maps s' = {} \<and> (\<exists>k. k_live s' = {k})"
proof -
  have "k_numbered idle_kernel" by (simp add: k_numbered_def idle_kernel_def)
  from ioctl_releases [OF this unreadable_sample] show ?thesis using unreadable_sample by (simp add: idle_kernel_def)
qed

theorem pub_key_request_bounds_witness:
  "(\<exists>ret cmd s'. securekeydev_ioctl sample_caam (SK_MP_GET_PUB_KEY (Some (pub_key_request 32))) idle_kernel = Some (ret, cmd, s')) \<and>
   (\<nexists>ret cmd s'. securekeydev_ioctl sample_caam (SK_MP_GET_PUB_KEY (Some (pub_key_request 16))) idle_kernel = Some (ret, cmd, s')) \<and>
   (\<nexists>ret cmd s'. securekeydev_ioctl sample_caam (SK_MP_GET_PUB_KEY (Some (pub_key_request 128))) idle_kernel = Some (ret, cmd, s'))"
proof -
  have f: "mp_x (pub_key_request n) = Some (replicate (unat n) 0)" "mp_y (pub_key_request n) = Some (replicate (unat n) 0)"
    "mp_x_len (pub_key_request n) = n" "mp_y_len (pub_key_request n) = n" for n
    by (simp_all add: pub_key_request_def)
  note b = pub_key_request_bounds [OF sample_reliable f(1,2), unfolded f(3,4), of _ idle_kernel]
  show ?thesis using b [of 32] b [of 16] b [of 128] by simp
qed

end
