(* ===== verification/Securekey_Mp.thy ===== *)
theory Securekey_Mp
  imports Sk_Driver
begin

text \<open>
  The library for manufacturing protection, \<open>securekey_lib/src/securekey_mp.c\<close>, on top of the driver: the public key,
  signatures, and the identifiers read from the registers of the chip. \<open>malloc\<close> and the mapping of
  the registers (\<open>/dev/mem\<close>) are parameters. A negative result of the driver reaches the caller as it is: \<open>ioctl\<close> stores it
  in \<open>errno\<close>, and the library returns \<open>-errno\<close>.
\<close>

section \<open>The library\<close>

abbreviation (input) SK_SUCCESS :: int where "SK_SUCCESS \<equiv> 0"
abbreviation (input) SK_FAILURE :: int where "SK_FAILURE \<equiv> -1"
abbreviation (input) NO_FD :: int where "NO_FD \<equiv> 0xFFFF"

definition sk_mp_get_pub_key_len :: byte where "sk_mp_get_pub_key_len = 32"
definition sk_mp_get_digest_len :: byte where "sk_mp_get_digest_len = 32"
definition sk_mp_get_sig_len :: byte where "sk_mp_get_sig_len = 32"
definition sk_mp_get_tag_len :: byte where "sk_mp_get_tag_len = 32"
definition sk_get_fuid_len :: byte where "sk_get_fuid_len = 8"

text \<open>The descriptor after opening the device, and the one that is closed at the end.\<close>

definition sk_lib_init :: "int \<Rightarrow> int \<times> int" where
  "sk_lib_init opened = (if opened < 0 then SK_FAILURE else SK_SUCCESS, opened)"

definition sk_lib_exit :: "int \<Rightarrow> int option" where
  "sk_lib_exit fd = (if fd \<noteq> NO_FD then Some fd else None)"

definition sk_translate_error_code :: "int \<Rightarrow> string" where
  "sk_translate_error_code error =
     (let e = sint (word_of_int error :: 16 word) in
      if e = SK_FAILURE then ''Device is not initiated''
      else if e = -5 then ''Cannot map [CAAM] descriptor''
      else if e = -16 then ''[CAAM]: queue is full''
      else if e = - ENOMEM then ''Memory allocation failed''
      else if e = - EINVAL then ''Invalid argument is passed''
      else if e = - EFAULT then ''Bad address passed''
      else if e = -19 then ''No Such device exists''
      else ''No Valid error code'')"

record sk_EC_point =
  ec_x :: buffer
  ec_y :: buffer
  ec_len :: byte

record sk_EC_sig =
  ec_r :: buffer
  ec_s :: buffer
  sig_len :: byte

text \<open>\<open>ok\<close> is whether the request structure can be allocated.\<close>

definition sk_mp_get_pub_key :: "caam_env \<Rightarrow> bool \<Rightarrow> sk_EC_point \<Rightarrow> kernel \<Rightarrow> (int \<times> sk_EC_point \<times> kernel) option" where
  "sk_mp_get_pub_key E ok req s =
     (if ec_x req = None \<or> ec_y req = None then Some (- EFAULT, req, s)
      else if ec_len req \<noteq> sk_mp_get_pub_key_len then Some (- EINVAL, req, s)
      else if \<not> ok then Some (- ENOMEM, req, s)
      else do {
        (ret, cmd, s) \<leftarrow> securekeydev_ioctl E
          (SK_MP_GET_PUB_KEY (Some \<lparr>mp_x = ec_x req, mp_x_len = ec_len req, mp_y = ec_y req, mp_y_len = ec_len req\<rparr>)) s;
        case cmd of
          SK_MP_GET_PUB_KEY (Some u) \<Rightarrow> Some (ret, req\<lparr>ec_x := mp_x u, ec_y := mp_y u\<rparr>, s)
        | _ \<Rightarrow> None })"

definition sk_mp_sign ::
    "caam_env \<Rightarrow> bool \<Rightarrow> buffer \<Rightarrow> byte \<Rightarrow> sk_EC_sig \<Rightarrow> buffer \<Rightarrow> byte \<Rightarrow> kernel \<Rightarrow> (int \<times> sk_EC_sig \<times> buffer \<times> kernel) option" where
  "sk_mp_sign E ok msg msg_len sig digest digest_len s =
     (if ec_r sig = None \<or> ec_s sig = None \<or> msg = None \<or> digest = None then Some (- EFAULT, sig, digest, s)
      else if sig_len sig \<noteq> sk_mp_get_sig_len \<or> digest_len \<noteq> sk_mp_get_digest_len then Some (- EINVAL, sig, digest, s)
      else if \<not> ok then Some (- ENOMEM, sig, digest, s)
      else do {
        (ret, cmd, s) \<leftarrow> securekeydev_ioctl E
          (SK_MP_SIGN (Some \<lparr>mp_msg = msg, mp_msg_len = msg_len, mp_hash = digest, mp_hash_len = digest_len,
            mp_r = ec_r sig, mp_r_len = sig_len sig, mp_s = ec_s sig, mp_s_len = sig_len sig\<rparr>)) s;
        case cmd of
          SK_MP_SIGN (Some u) \<Rightarrow> Some (ret, sig\<lparr>ec_r := mp_r u, ec_s := mp_s u\<rparr>, mp_hash u, s)
        | _ \<Rightarrow> None })"

text \<open>The registers: opening or mapping them fails with an error number, or they can be read by words.\<close>

datatype registers = OpenFails int | MapFails int | Mapped "nat \<Rightarrow> u32"

definition read_registers :: "registers \<Rightarrow> nat \<Rightarrow> nat \<Rightarrow> buffer \<Rightarrow> (int \<times> buffer) option" where
  "read_registers m first n p =
     (case m of
        OpenFails e \<Rightarrow> Some (- e, p)
      | MapFails e \<Rightarrow> Some (- e, p)
      | Mapped page \<Rightarrow> do {
          b \<leftarrow> p;
          b \<leftarrow> poke b 0 (concat (map (\<lambda>i. put_u32 (page i)) [first ..< first + n]));
          Some (SK_SUCCESS, Some b) })"

definition sk_mp_get_mp_tag :: "registers \<Rightarrow> buffer \<Rightarrow> byte \<Rightarrow> (int \<times> buffer) option" where
  "sk_mp_get_mp_tag m mp_tag_ptr mp_tag_len = read_registers m 224 8 mp_tag_ptr"

definition sk_get_fuid :: "registers \<Rightarrow> buffer \<Rightarrow> (int \<times> buffer) option" where
  "sk_get_fuid m fuid = read_registers m 135 2 fuid"

definition sk_get_oemid :: "registers \<Rightarrow> buffer \<Rightarrow> (int \<times> buffer \<times> byte) option" where
  "sk_get_oemid m oem_id = do {
     (ret, p) \<leftarrow> read_registers m 157 5 oem_id;
     Some (ret, p, if ret = SK_SUCCESS then 20 else 0) }"

section \<open>Signatures through the driver\<close>

text \<open>The accelerator hashes and signs the message at the address in the descriptor.\<close>

definition signs :: "caam_env \<Rightarrow> (byte list \<Rightarrow> byte list \<times> byte list \<times> byte list) \<Rightarrow> bool" where
  "signs E f \<longleftrightarrow>
     (\<forall>n msg len hash c d b. caam_jr_enqueue E n (build_mp_sign_desc msg len hash c d) b =
        (case f (slice b (snd msg) (unat len)) of (H, R, S) \<Rightarrow> (0, Completed 0 [(hash, H), (c, R), (d, S)]))) \<and>
     (\<forall>m H R S. f m = (H, R, S) \<longrightarrow> length H = 32 \<and> length R = 32 \<and> length S = 32)"

text \<open>The block after the job: message, hash and the two parts of the signature.\<close>

lemma run_sign:
  assumes "reliable E K" and "signs E f" and "f m = (H, R, S)" and "length m = unat len"
  shows "run_request E (SignReq 0 (ucast (len :: byte)) (length m) 32 (length m + 32) 32 (64 + length m) 32) (m @ replicate 96 0) cmd s =
    map_option (\<lambda>(ret, cmd). (ret, cmd, s\<lparr>k_live := k_live s - {k_calls s, k_calls s + 5},
        k_maps := k_maps s - {k_calls s + 1, k_calls s + 2, k_calls s + 3, k_calls s + 4}, k_calls := 7 + k_calls s, job_comp_status := 0\<rparr>))
      (sk_copy_data_to_user (SignReq 0 (ucast len) (length m) 32 (length m + 32) 32 (64 + length m) 32) (m @ H @ R @ S) cmd)"
proof -
  let ?r = "SignReq 0 (ucast len) (length m) 32 (length m + 32) 32 (64 + length m) 32" and ?c = "k_calls s"
  have r: "kmalloc_ok E n" "dma_ok E n" for n using assms(1) by (auto simp: reliable_def)
  have l: "length H = 32" "length R = 32" "length S = 32" using assms(2,3) unfolding signs_def by blast+
  have u1: "unat (ucast len :: u64) = length m"
    using unat_less_2p [of len] assms(4) by (simp add: unsigned_ucast_eq take_bit_nat_eq_self)
  have u2: "unat w < 2 ^ 32 \<Longrightarrow> unat (ucast w :: u32) = unat w" for w :: u64 by (simp add: unsigned_ucast_eq take_bit_nat_eq_self)
  have "length m < 2 ^ 32" using unat_less_2p [of len] assms(4) by simp
  then have u: "unat (ucast (ucast len :: u64) :: u32) = length m" using u2 [of "ucast len"] unfolding u1 by blast
  have e: "caam_jr_enqueue E n (build_mp_sign_desc (a, 0) (ucast (ucast len :: u64)) hash c d) (m @ replicate 96 0) =
      (0, Completed 0 [(hash, H), (c, R), (d, S)])" for n a hash c d
    using conjunct1 [OF assms(2) [unfolded signs_def], rule_format, of n "(a, 0)" "ucast (ucast len :: u64)" hash c d "m @ replicate 96 0"] assms(3)
    by (simp add: u slice_def)
  have w: "dma_writes [((a, length m), H), ((b, length m + 32), R), ((c, 64 + length m), S)] (m @ replicate 96 0) = Some (m @ H @ R @ S)" for a b c
    using l by (simp add: poke_def)
  have m: "sk_map_caam_req E ?r s = Some (0, Some (?c, CaamSign (?c + 1, 0) (ucast len) (?c + 2, length m) 32 (?c + 3, length m + 32) 32
      (?c + 4, 64 + length m) 32), s\<lparr>k_calls := ?c + 5, k_live := insert ?c (k_live s),
      k_maps := insert (?c + 4) (insert (?c + 3) (insert (?c + 2) (insert (?c + 1) (k_maps s))))\<rparr>)"
    by (simp add: r sk_map_caam_req_def kmalloc_def sk_mp_sign_map_def dma_map_single_def Let_def) (simp add: numeral_eq_Suc)
  have j: "caam_job_submit E (CaamSign (a1, 0) (ucast len) (a2, length m) n2 (a3, length m + 32) n3 (a4, 64 + length m) n4) (m @ replicate 96 0) t =
      Some (0, m @ H @ R @ S, t\<lparr>k_calls := k_calls t + 2, k_live := k_live t - {k_calls t}, job_comp_status := 0\<rparr>)" for a1 a2 a3 a4 n2 n3 n4 t
    by (simp add: caam_job_submit_def caam_submit_def kmalloc_def r submit_job_def e w kfree_def Let_def del: dma_writes.simps)
  have g: "k_maps s - {a} - {b} - {c} - {d} = k_maps s - {a, b, c, d}" "k_live s - {b} - {a} = k_live s - {a, b}" for a b c d by auto
  show ?thesis
    by (auto simp: run_request_def m j sk_unmap_def dma_unmap_single_def kfree_def insert_Diff_if g map_option_case split: option.splits)
qed

text \<open>
  C40: signatures and keys from one end to the other. With a reliable kernel and accelerator, \<open>sk_mp_sign\<close> for a message of any
  length up to 255 returns success, and the buffers of the caller hold the digest and both parts of the signature
  that the accelerator computes for the message; \<open>sk_mp_get_pub_key\<close> returns success and both halves of the key. The buffers
  are unchanged beyond the 32 bytes, and the driver holds no memory and no mappings afterwards. The lengths that the library
  insists on keep the driver inside of its blocks.
\<close>

theorem mp_library_spec:
  assumes "reliable E K" and "signs E f" and "f m = (H, R, S)" and "length m = unat len" and "k_numbered s"
    and "32 \<le> length b1" and "32 \<le> length b2" and "32 \<le> length b3"
  shows "(\<exists>s'. sk_mp_sign E True (Some m) len \<lparr>ec_r = Some b1, ec_s = Some b2, sig_len = 32\<rparr> (Some b3) 32 s =
      Some (SK_SUCCESS, \<lparr>ec_r = Some (R @ drop 32 b1), ec_s = Some (S @ drop 32 b2), sig_len = 32\<rparr>, Some (H @ drop 32 b3), s') \<and>
      k_live s' = k_live s \<and> k_maps s' = k_maps s) \<and>
    (\<exists>s'. sk_mp_get_pub_key E True \<lparr>ec_x = Some b1, ec_y = Some b2, ec_len = 32\<rparr> s =
      Some (SK_SUCCESS, \<lparr>ec_x = Some (take 32 K @ drop 32 b1), ec_y = Some (drop 32 K @ drop 32 b2), ec_len = 32\<rparr>, s') \<and>
      k_live s' = k_live s \<and> k_maps s' = k_maps s)"
proof
  have r: "kmalloc_ok E n" "length K = 64" for n using assms(1) by (auto simp: reliable_def)
  have l: "length H = 32" "length R = 32" "length S = 32" using assms(2,3) unfolding signs_def by blast+
  let ?u = "\<lparr>mp_msg = Some m, mp_msg_len = len, mp_hash = Some b3, mp_hash_len = 32, mp_r = Some b1, mp_r_len = 32, mp_s = Some b2, mp_s_len = 32\<rparr>"
  have c: "sk_copy_data_to_user (SignReq 0 (ucast len) (length m) 32 (length m + 32) 32 (64 + length m) 32) (m @ H @ R @ S) (SK_MP_SIGN (Some ?u)) =
      Some (0, SK_MP_SIGN (Some (?u\<lparr>mp_hash := Some (H @ drop 32 b3), mp_r := Some (R @ drop 32 b1), mp_s := Some (S @ drop 32 b2)\<rparr>)))"
    using l assms(6-8) by (simp add: sk_copy_data_to_user_def block_bytes_def copy_to_user_def slice_def)
  have "read_bytes (Some m) (unat len) = Some m" using assms(4) by (auto simp: read_bytes_def)
  then have "\<exists>s'. securekeydev_ioctl E (SK_MP_SIGN (Some ?u)) s =
      Some (0, SK_MP_SIGN (Some (?u\<lparr>mp_hash := Some (H @ drop 32 b3), mp_r := Some (R @ drop 32 b1), mp_s := Some (S @ drop 32 b2)\<rparr>)), s')"
    using run_sign [OF assms(1-4)] c
    by (simp add: securekeydev_ioctl_def kmalloc_def r(1) sk_copy_data_from_user_def Let_def kfree_def flip: assms(4))
  then obtain s' where i: "securekeydev_ioctl E (SK_MP_SIGN (Some ?u)) s =
      Some (0, SK_MP_SIGN (Some (?u\<lparr>mp_hash := Some (H @ drop 32 b3), mp_r := Some (R @ drop 32 b1), mp_s := Some (S @ drop 32 b2)\<rparr>)), s')" ..
  from ioctl_frame [OF assms(5) i] i show "\<exists>s'. sk_mp_sign E True (Some m) len \<lparr>ec_r = Some b1, ec_s = Some b2, sig_len = 32\<rparr> (Some b3) 32 s =
      Some (SK_SUCCESS, \<lparr>ec_r = Some (R @ drop 32 b1), ec_s = Some (S @ drop 32 b2), sig_len = 32\<rparr>, Some (H @ drop 32 b3), s') \<and>
      k_live s' = k_live s \<and> k_maps s' = k_maps s"
    by (simp add: sk_mp_sign_def sk_mp_get_sig_len_def sk_mp_get_digest_len_def)
next
  have k: "length K = 64" using assms(1) by (auto simp: reliable_def)
  let ?u = "\<lparr>mp_x = Some b1, mp_x_len = 32, mp_y = Some b2, mp_y_len = 32\<rparr>"
  have "map_option (\<lambda>(ret, cmd, s). (ret, cmd)) (securekeydev_ioctl E (SK_MP_GET_PUB_KEY (Some ?u)) s) =
      Some (0, SK_MP_GET_PUB_KEY (Some (?u\<lparr>mp_x := Some (take 32 K @ drop 32 b1), mp_y := Some (drop 32 K @ drop 32 b2)\<rparr>)))"
    unfolding ioctl_pub_key [OF assms(1)] using k assms(6,7)
    by (simp add: sk_copy_data_to_user_def block_bytes_def copy_to_user_def slice_def)
  then obtain s' where i: "securekeydev_ioctl E (SK_MP_GET_PUB_KEY (Some ?u)) s =
      Some (0, SK_MP_GET_PUB_KEY (Some (?u\<lparr>mp_x := Some (take 32 K @ drop 32 b1), mp_y := Some (drop 32 K @ drop 32 b2)\<rparr>)), s')" by auto
  from ioctl_frame [OF assms(5) i] i show "\<exists>s'. sk_mp_get_pub_key E True \<lparr>ec_x = Some b1, ec_y = Some b2, ec_len = 32\<rparr> s =
      Some (SK_SUCCESS, \<lparr>ec_x = Some (take 32 K @ drop 32 b1), ec_y = Some (drop 32 K @ drop 32 b2), ec_len = 32\<rparr>, s') \<and>
      k_live s' = k_live s \<and> k_maps s' = k_maps s"
    by (simp add: sk_mp_get_pub_key_def sk_mp_get_pub_key_len_def)
qed

lemma sample_signs: "signs sample_caam (\<lambda>m. (replicate 32 1, replicate 32 2, replicate 32 3))"
  by (auto simp: signs_def sample_caam_def build_mp_sign_desc_def ptr_of_def)

theorem mp_library_spec_witness:
  "(\<exists>s'. sk_mp_sign sample_caam True (Some [4, 5]) 2 \<lparr>ec_r = Some (replicate 33 9), ec_s = Some (replicate 32 9), sig_len = 32\<rparr>
      (Some (replicate 32 9)) 32 idle_kernel =
    Some (SK_SUCCESS, \<lparr>ec_r = Some (replicate 32 2 @ [9]), ec_s = Some (replicate 32 3), sig_len = 32\<rparr>, Some (replicate 32 1), s') \<and>
    k_live s' = {} \<and> k_maps s' = {}) \<and>
   (\<exists>s'. sk_mp_get_pub_key sample_caam True \<lparr>ec_x = Some (replicate 33 9), ec_y = Some (replicate 32 9), ec_len = 32\<rparr> idle_kernel =
    Some (SK_SUCCESS, \<lparr>ec_x = Some (replicate 32 7 @ [9]), ec_y = Some (replicate 32 8), ec_len = 32\<rparr>, s') \<and> k_live s' = {} \<and> k_maps s' = {})"
proof -
  have n: "k_numbered idle_kernel" by (simp add: k_numbered_def idle_kernel_def)
  have "length [4, 5 :: byte] = unat (2 :: byte)" by simp
  from mp_library_spec [OF sample_reliable sample_signs refl this n, of "replicate 33 9" "replicate 32 9" "replicate 32 9"] show ?thesis
    by (simp add: idle_kernel_def sample_key_def)
qed

end
