(* ===== verification/Sha256.thy ===== *)
theory Sha256
  imports SO_Prelude
begin

text \<open>
  SHA-256 of the code signing tool (\<open>cst/lib_hash_drbg/src/sha256.c\<close>): the context with its partly
  filled block, the transformation of a full block, update, finalisation with the padding in place, and
  the conversions between bytes and hexadecimal strings. The reference is FIPS 180-4: padding of the
  whole message, the message schedule as a recursive function, one compression per block.

  The arrays \<open>data[64]\<close> and \<open>H[8]\<close> are lists of these lengths (\<open>ctx_ok\<close>); a write outside of \<open>data\<close> is a
  fault. The bit length is kept at 64 bits and wraps; \<open>datalen\<close> never exceeds 64 and is a natural number.
  A byte shifted by 24 is taken as the unsigned value the target computes.
\<close>

section \<open>Functions and constants\<close>

definition ROTR :: "u32 \<Rightarrow> nat \<Rightarrow> u32" where
  "ROTR a b = drop_bit b a OR push_bit (32 - b) a"

definition SHR :: "u32 \<Rightarrow> nat \<Rightarrow> u32" where
  "SHR a b = drop_bit b a"

definition CH :: "u32 \<Rightarrow> u32 \<Rightarrow> u32 \<Rightarrow> u32" where
  "CH x y z = (x AND y) XOR (NOT x AND z)"

definition MAJ :: "u32 \<Rightarrow> u32 \<Rightarrow> u32 \<Rightarrow> u32" where
  "MAJ x y z = (x AND y) XOR (x AND z) XOR (y AND z)"

definition EP0 :: "u32 \<Rightarrow> u32" where
  "EP0 x = ROTR x 2 XOR ROTR x 13 XOR ROTR x 22"

definition EP1 :: "u32 \<Rightarrow> u32" where
  "EP1 x = ROTR x 6 XOR ROTR x 11 XOR ROTR x 25"

definition SIG0 :: "u32 \<Rightarrow> u32" where
  "SIG0 x = ROTR x 7 XOR ROTR x 18 XOR SHR x 3"

definition SIG1 :: "u32 \<Rightarrow> u32" where
  "SIG1 x = ROTR x 17 XOR ROTR x 19 XOR SHR x 10"

definition sha_k :: "u32 list" where
  "sha_k = concat [
     [0x428a2f98, 0x71374491, 0xb5c0fbcf, 0xe9b5dba5, 0x3956c25b, 0x59f111f1, 0x923f82a4, 0xab1c5ed5],
     [0xd807aa98, 0x12835b01, 0x243185be, 0x550c7dc3, 0x72be5d74, 0x80deb1fe, 0x9bdc06a7, 0xc19bf174],
     [0xe49b69c1, 0xefbe4786, 0x0fc19dc6, 0x240ca1cc, 0x2de92c6f, 0x4a7484aa, 0x5cb0a9dc, 0x76f988da],
     [0x983e5152, 0xa831c66d, 0xb00327c8, 0xbf597fc7, 0xc6e00bf3, 0xd5a79147, 0x06ca6351, 0x14292967],
     [0x27b70a85, 0x2e1b2138, 0x4d2c6dfc, 0x53380d13, 0x650a7354, 0x766a0abb, 0x81c2c92e, 0x92722c85],
     [0xa2bfe8a1, 0xa81a664b, 0xc24b8b70, 0xc76c51a3, 0xd192e819, 0xd6990624, 0xf40e3585, 0x106aa070],
     [0x19a4c116, 0x1e376c08, 0x2748774c, 0x34b0bcb5, 0x391c0cb3, 0x4ed8aa4a, 0x5b9cca4f, 0x682e6ff3],
     [0x748f82ee, 0x78a5636f, 0x84c87814, 0x8cc70208, 0x90befffa, 0xa4506ceb, 0xbef9a3f7, 0xc67178f2]]"

section \<open>The context\<close>

record SHA256_CTX =
  ctx_data :: "byte list"
  datalen :: nat
  bitlen :: u64
  ctx_H :: "u32 list"

text \<open>\<open>sha256_init\<close> does not touch the data buffer.\<close>

definition sha256_init :: "SHA256_CTX \<Rightarrow> SHA256_CTX" where
  "sha256_init c = c\<lparr>datalen := 0, bitlen := 0,
     ctx_H := [0x6a09e667, 0xbb67ae85, 0x3c6ef372, 0xa54ff53a, 0x510e527f, 0x9b05688c, 0x1f83d9ab, 0x5be0cd19]\<rparr>"

definition be_word :: "byte list \<Rightarrow> nat \<Rightarrow> u32" where
  "be_word d i = push_bit 24 (ucast (d ! (4 * i))) OR push_bit 16 (ucast (d ! (4 * i + 1))) OR
     push_bit 8 (ucast (d ! (4 * i + 2))) OR ucast (d ! (4 * i + 3))"

text \<open>The two loops over \<open>W\<close>; the list holds the entries filled so far.\<close>

definition schedule :: "byte list \<Rightarrow> u32 list" where
  "schedule d = fold (\<lambda>i W. W @ [SIG1 (W ! (i - 2)) + W ! (i - 7) + SIG0 (W ! (i - 15)) + W ! (i - 16)]) [16..<64]
     (map (be_word d) [0..<16])"

type_synonym working = "u32 \<times> u32 \<times> u32 \<times> u32 \<times> u32 \<times> u32 \<times> u32 \<times> u32"

definition mix :: "u32 list \<Rightarrow> nat \<Rightarrow> working \<Rightarrow> working" where
  "mix W i = (\<lambda>(a, b, c, d, e, f, g, h).
     let T1 = h + EP1 e + CH e f g + sha_k ! i + W ! i;
         T2 = EP0 a + MAJ a b c
     in (T1 + T2, a, b, c, d + T1, e, f, g))"

definition sha256_transform :: "SHA256_CTX \<Rightarrow> SHA256_CTX" where
  "sha256_transform x =
     (let W = schedule (ctx_data x); H = ctx_H x;
          (a, b, c, d, e, f, g, h) = fold (mix W) [0..<64] (H ! 0, H ! 1, H ! 2, H ! 3, H ! 4, H ! 5, H ! 6, H ! 7)
      in x\<lparr>ctx_H := [H ! 0 + a, H ! 1 + b, H ! 2 + c, H ! 3 + d, H ! 4 + e, H ! 5 + f, H ! 6 + g, H ! 7 + h]\<rparr>)"

text \<open>\<open>context->data[context->datalen++] = b\<close>\<close>

definition put_data :: "byte \<Rightarrow> SHA256_CTX \<Rightarrow> SHA256_CTX option" where
  "put_data b c = (if datalen c < length (ctx_data c)
     then Some (c\<lparr>ctx_data := (ctx_data c)[datalen c := b], datalen := Suc (datalen c)\<rparr>) else None)"

primrec update_loop :: "byte list \<Rightarrow> SHA256_CTX \<Rightarrow> SHA256_CTX option" where
  "update_loop [] c = Some c"
| "update_loop (b # bs) c = do {
     c \<leftarrow> put_data b c;
     let c = c\<lparr>bitlen := bitlen c + 8\<rparr>;
     update_loop bs (if datalen c = 64 then (sha256_transform c)\<lparr>datalen := 0\<rparr> else c) }"

definition sha256_update :: "SHA256_CTX \<Rightarrow> buffer \<Rightarrow> u32 \<Rightarrow> SHA256_CTX option" where
  "sha256_update c p len = do { bs \<leftarrow> read_bytes p (unat len); update_loop bs c }"

text \<open>The loop that fills the block with zeros up to byte 56, through a full block if there is no room.\<close>

partial_function (option) pad_loop :: "SHA256_CTX \<Rightarrow> SHA256_CTX option" where
  "pad_loop c = (if datalen c \<noteq> 56 then do {
       c \<leftarrow> put_data 0 (if datalen c = 64 then (sha256_transform c)\<lparr>datalen := 0\<rparr> else c);
       pad_loop c }
     else Some c)"

declare pad_loop.simps [code]

definition length_bytes :: "u64 \<Rightarrow> byte list" where
  "length_bytes n = map (\<lambda>i. ucast (drop_bit (56 - i * 8) n AND 0xff)) [0..<8]"

definition hash_bytes :: "u32 list \<Rightarrow> byte list" where
  "hash_bytes H = concat (map (\<lambda>i. [ucast (drop_bit 24 (H ! i) AND 0xff), ucast (drop_bit 16 (H ! i) AND 0xff),
     ucast (drop_bit 8 (H ! i) AND 0xff), ucast (H ! i AND 0xff)]) [0..<8])"

text \<open>The result is the context and the 32 bytes written to \<open>hash_bytes\<close>.\<close>

definition sha256_finalize :: "SHA256_CTX \<Rightarrow> (SHA256_CTX \<times> byte list) option" where
  "sha256_finalize c = do {
     c \<leftarrow> put_data 0x80 c;
     c \<leftarrow> pad_loop c;
     d \<leftarrow> poke (ctx_data c) 56 (length_bytes (bitlen c));
     let c = sha256_transform (c\<lparr>ctx_data := d\<rparr>);
     Some (c, hash_bytes (ctx_H c)) }"

text \<open>\<open>u\<close> is the context before it is initialised: whatever lies on the stack.\<close>

definition sha256 :: "SHA256_CTX \<Rightarrow> buffer \<Rightarrow> u32 \<Rightarrow> byte list option" where
  "sha256 u p len = do {
     c \<leftarrow> sha256_update (sha256_init u) p len;
     (c, h) \<leftarrow> sha256_finalize c;
     Some h }"

text \<open>A context as it may lie on the stack.\<close>

definition blank_ctx :: SHA256_CTX where
  "blank_ctx = \<lparr>ctx_data = replicate 64 0xCC, datalen = 0, bitlen = 0, ctx_H = []\<rparr>"

section \<open>Hexadecimal strings\<close>

text \<open>Characters are bytes. \<open>strnlen\<close> looks for the end of a string in at most \<open>n\<close> characters.\<close>

fun strnlen :: "byte list \<Rightarrow> nat \<Rightarrow> nat option" where
  "strnlen s 0 = Some 0"
| "strnlen [] (Suc n) = None"
| "strnlen (c # s) (Suc n) = (if c = 0 then Some 0 else map_option Suc (strnlen s n))"

definition isdigit :: "byte \<Rightarrow> bool" where
  "isdigit c \<longleftrightarrow> 0x30 \<le> c \<and> c \<le> 0x39"

definition isxdigit :: "byte \<Rightarrow> bool" where
  "isxdigit c \<longleftrightarrow> isdigit c \<or> 0x41 \<le> c \<and> c \<le> 0x46 \<or> 0x61 \<le> c \<and> c \<le> 0x66"

definition tolower :: "byte \<Rightarrow> byte" where
  "tolower c = (if 0x41 \<le> c \<and> c \<le> 0x5A then c + 0x20 else c)"

definition hex_digit :: "byte \<Rightarrow> byte" where
  "hex_digit c = (if isdigit c then c - 0x30 else tolower c - 0x61 + 10)"

text \<open>The loop over the pairs of characters; the result tells whether all were digits.\<close>

fun hex_loop :: "byte list \<Rightarrow> nat \<Rightarrow> byte list \<Rightarrow> (bool \<times> byte list) option" where
  "hex_loop (c1 # c2 # cs) k out =
     (if \<not> isxdigit c1 \<or> \<not> isxdigit c2 then Some (False, out)
      else do {
        out \<leftarrow> poke out k [push_bit 4 (hex_digit c1) + hex_digit c2];
        hex_loop cs (Suc k) out })"
| "hex_loop [c] k out = None"
| "hex_loop [] k out = Some (True, out)"

definition hex_to_bytes :: "byte list \<Rightarrow> u32 \<Rightarrow> byte list \<Rightarrow> u32 \<Rightarrow> (int \<times> byte list) option" where
  "hex_to_bytes inp inlen out outlen = do {
     h_len \<leftarrow> strnlen inp (unat inlen);
     if odd h_len \<or> unat inlen < h_len \<and> odd (unat inlen) then Some (-1, out)
     else if h_len div 2 > unat outlen then Some (-1, out)
     else do {
       (ok, out) \<leftarrow> hex_loop (take h_len inp) 0 out;
       Some (if ok then int (h_len div 2) else -1, out) } }"

definition hex_char :: "byte \<Rightarrow> byte" where
  "hex_char n = [0x30, 0x31, 0x32, 0x33, 0x34, 0x35, 0x36, 0x37, 0x38, 0x39, 0x61, 0x62, 0x63, 0x64, 0x65, 0x66] ! unat n"

definition hex_string :: "byte list \<Rightarrow> byte list" where
  "hex_string bs = concat (map (\<lambda>b. [hex_char (drop_bit 4 b), hex_char (b AND 0x0f)]) bs)"

definition bytes_to_hex :: "buffer \<Rightarrow> u32 \<Rightarrow> byte list \<Rightarrow> u32 \<Rightarrow> (int \<times> byte list) option" where
  "bytes_to_hex inp inlen out outlen =
     (if 2 * inlen + 1 > outlen then Some (0, out)
      else do {
        bs \<leftarrow> read_bytes inp (unat inlen);
        out \<leftarrow> poke out 0 (hex_string bs @ [0]);
        Some (1, out) })"

text \<open>The local array of \<open>MAX_SIZE\<close> bytes; only the part the conversion filled is read.\<close>

definition sha256_update_hex :: "SHA256_CTX \<Rightarrow> byte list \<Rightarrow> u32 \<Rightarrow> (int \<times> SHA256_CTX) option" where
  "sha256_update_hex c hex len = do {
     (n, d) \<leftarrow> hex_to_bytes hex len (replicate 100000 0) 100000;
     if n = -1 then Some (-1, c)
     else do {
       c \<leftarrow> sha256_update c (Some d) (of_int n);
       Some (1, c) } }"

text \<open>After an error the string is made of whatever was in the local \<open>hash_bytes\<close>.\<close>

definition sha256_hex :: "SHA256_CTX \<Rightarrow> byte list \<Rightarrow> byte list \<Rightarrow> u32 \<Rightarrow> byte list \<Rightarrow> (int \<times> byte list) option" where
  "sha256_hex u junk hex len str = do {
     (result, c) \<leftarrow> sha256_update_hex (sha256_init u) hex len;
     h \<leftarrow> (if result \<noteq> -1 then map_option snd (sha256_finalize c) else Some junk);
     (_, str) \<leftarrow> bytes_to_hex (Some h) 32 str 65;
     Some (result, str) }"

section \<open>FIPS 180-4\<close>

text \<open>
  The standard (sections 4.1.2, 5.1.1, 5.2.1, 5.3.3 and 6.2.2): rotation of words, the schedule
  \<open>W\<close> as a function of the round, the working variables after \<open>t\<close> rounds, and the hash values block by
  block over the padded message.
\<close>

definition fips_Sigma0 :: "u32 \<Rightarrow> u32" where
  "fips_Sigma0 x = word_rotr 2 x XOR word_rotr 13 x XOR word_rotr 22 x"

definition fips_Sigma1 :: "u32 \<Rightarrow> u32" where
  "fips_Sigma1 x = word_rotr 6 x XOR word_rotr 11 x XOR word_rotr 25 x"

definition fips_sigma0 :: "u32 \<Rightarrow> u32" where
  "fips_sigma0 x = word_rotr 7 x XOR word_rotr 18 x XOR drop_bit 3 x"

definition fips_sigma1 :: "u32 \<Rightarrow> u32" where
  "fips_sigma1 x = word_rotr 17 x XOR word_rotr 19 x XOR drop_bit 10 x"

fun fips_W :: "byte list \<Rightarrow> nat \<Rightarrow> u32" where
  "fips_W M t = (if t < 16 then of_nat (be_decode (take 4 (drop (4 * t) M)))
     else fips_sigma1 (fips_W M (t - 2)) + fips_W M (t - 7) + fips_sigma0 (fips_W M (t - 15)) + fips_W M (t - 16))"

declare fips_W.simps [simp del]

fun fips_rounds :: "byte list \<Rightarrow> u32 list \<Rightarrow> nat \<Rightarrow> u32 list" where
  "fips_rounds M H 0 = H"
| "fips_rounds M H (Suc t) = (case fips_rounds M H t of
     [a, b, c, d, e, f, g, h] \<Rightarrow>
       (let T1 = h + fips_Sigma1 e + CH e f g + sha_k ! t + fips_W M t; T2 = fips_Sigma0 a + MAJ a b c
        in [T1 + T2, a, b, c, d + T1, e, f, g])
   | _ \<Rightarrow> [])"

definition fips_compress :: "u32 list \<Rightarrow> byte list \<Rightarrow> u32 list" where
  "fips_compress H M = map2 (+) H (fips_rounds M H 64)"

definition fips_H0 :: "u32 list" where
  "fips_H0 = [0x6a09e667, 0xbb67ae85, 0x3c6ef372, 0xa54ff53a, 0x510e527f, 0x9b05688c, 0x1f83d9ab, 0x5be0cd19]"

text \<open>The message, a one bit, the least number of zeros that fills the last block, and the length in bits.\<close>

definition fips_pad :: "byte list \<Rightarrow> byte list" where
  "fips_pad m = m @ [0x80] @ replicate ((119 - length m mod 64) mod 64) 0 @ be_encode 8 (8 * length m)"

fun fips_blocks :: "byte list \<Rightarrow> u32 list \<Rightarrow> u32 list" where
  "fips_blocks m H = (if length m < 64 then H else fips_blocks (drop 64 m) (fips_compress H (take 64 m)))"

declare fips_blocks.simps [simp del]

definition fips_sha256 :: "byte list \<Rightarrow> byte list" where
  "fips_sha256 m = concat (map (\<lambda>w. be_encode 4 (unat w)) (fips_blocks (fips_pad m) fips_H0))"

section \<open>The transformation\<close>

lemma ROTR_rotr: "0 < n \<Longrightarrow> n < 32 \<Longrightarrow> ROTR x n = word_rotr n x"
proof (rule bit_word_eqI)
  fix i assume n: "0 < n" "n < 32" and i: "i < LENGTH(32)"
  have "(i + n) mod 32 = (if i + n < 32 then i + n else i + n - 32)" using n i by (simp add: mod_if)
  then show "bit (ROTR x n) i = bit (word_rotr n x) i"
    using n i by (auto simp: ROTR_def bit_word_rotr_iff bit_or_iff bit_drop_bit_eq bit_push_bit_iff add.commute
      dest: bit_imp_le_length intro: arg_cong2 [of _ _ _ _ bit])
qed

lemma sigma_fips: "EP0 = fips_Sigma0" "EP1 = fips_Sigma1" "SIG0 = fips_sigma0" "SIG1 = fips_sigma1"
  by (simp_all add: fun_eq_iff EP0_def EP1_def SIG0_def SIG1_def SHR_def ROTR_rotr
      fips_Sigma0_def fips_Sigma1_def fips_sigma0_def fips_sigma1_def)

lemma shift_or_byte: "push_bit 8 (of_nat x) OR ucast (b :: byte) = (of_nat (256 * x + unat b) :: u32)"
proof -
  have "push_bit 8 (of_nat x :: u32) AND ucast b = 0"
    by (rule bit_word_eqI) (auto simp: bit_and_iff bit_push_bit_iff bit_ucast_iff dest: bit_imp_le_length)
  from disjunctive_add_eq_or [OF this] show ?thesis by (simp add: push_bit_eq_mult mult.commute)
qed

lemma be_word_decode:
  assumes "4 * i + 4 \<le> length d"
  shows "be_word d i = of_nat (be_decode (take 4 (drop (4 * i) d)))"
proof -
  have t: "take 4 (drop (4 * i) d) = ((([] @ [d ! (4 * i)]) @ [d ! (4 * i + 1)]) @ [d ! (4 * i + 2)]) @ [d ! (4 * i + 3)]"
    using assms by (intro nth_equalityI) (auto simp: less_Suc_eq numeral_eq_Suc)
  show ?thesis unfolding t be_decode_snoc shift_or_byte [symmetric]
    by (simp add: be_word_def push_bit_or or.assoc)
qed

lemma fips_W_base: "t < 16 \<Longrightarrow> fips_W M t = of_nat (be_decode (take 4 (drop (4 * t) M)))"
  by (subst fips_W.simps) simp

lemma fips_W_step:
  "16 \<le> t \<Longrightarrow> fips_W M t =
     fips_sigma1 (fips_W M (t - 2)) + fips_W M (t - 7) + fips_sigma0 (fips_W M (t - 15)) + fips_W M (t - 16)"
  by (subst fips_W.simps) simp

lemma schedule_prefix:
  "fold (\<lambda>i W. W @ [SIG1 (W ! (i - 2)) + W ! (i - 7) + SIG0 (W ! (i - 15)) + W ! (i - 16)]) [16..<16 + n]
     (map (fips_W d) [0..<16]) = map (fips_W d) [0..<16 + n]"
proof (induction n)
  case (Suc n)
  have u: "[16..<16 + Suc n] = [16..<16 + n] @ [16 + n]" "[0..<16 + Suc n] = [0..<16 + n] @ [16 + n]"
    by (simp_all only: add_Suc_right upt_Suc_append le_add1 zero_le)
  show ?case unfolding u fold_append o_apply Suc.IH by (simp add: sigma_fips fips_W_step)
qed simp

lemma schedule_fips:
  assumes "length d = 64"
  shows "schedule d = map (fips_W d) [0..<64]"
proof -
  have base: "map (be_word d) [0..<16] = map (fips_W d) [0..<16]"
    using assms by (intro map_cong) (auto simp: be_word_decode fips_W_base)
  have n: "64 = (16 :: nat) + 48" by simp
  show ?thesis unfolding schedule_def base n by (rule schedule_prefix)
qed

text \<open>The working variables of the code as the list of the reference.\<close>

definition as_list :: "working \<Rightarrow> u32 list" where
  "as_list = (\<lambda>(a, b, c, d, e, f, g, h). [a, b, c, d, e, f, g, h])"

lemma as_list_eq: "length H = 8 \<Longrightarrow> as_list (H ! 0, H ! 1, H ! 2, H ! 3, H ! 4, H ! 5, H ! 6, H ! 7) = H"
  by (intro nth_equalityI) (auto simp: as_list_def less_Suc_eq numeral_eq_Suc)

lemma rounds_fips:
  assumes "length d = 64" and "t \<le> 64"
  shows "as_list (fold (mix (schedule d)) [0..<t] w) = fips_rounds d (as_list w) t"
  using assms(2)
proof (induction t)
  case 0
  then show ?case by simp
next
  case (Suc t)
  obtain a b c e f g h i where w: "fold (mix (schedule d)) [0..<t] w = (a, b, c, e, f, g, h, i)" by (metis surj_pair)
  with Suc have l: "fips_rounds d (as_list w) t = [a, b, c, e, f, g, h, i]" by (simp add: as_list_def)
  have "schedule d ! t = fips_W d t" using Suc.prems assms(1) by (simp add: schedule_fips)
  then show ?case by (simp add: w l) (simp add: mix_def as_list_def sigma_fips Let_def)
qed

lemma length_fips_rounds: "length H = 8 \<Longrightarrow> length (fips_rounds M H t) = 8"
proof (induction t)
  case (Suc t)
  then obtain a b c d e f g h where "fips_rounds M H t = [a, b, c, d, e, f, g, h]"
    by (auto simp: length_Suc_conv numeral_eq_Suc)
  then show ?case by (simp add: Let_def)
qed simp

lemma length_fips_compress: "length H = 8 \<Longrightarrow> length (fips_compress H M) = 8"
  by (simp add: fips_compress_def length_fips_rounds)

definition ctx_ok :: "SHA256_CTX \<Rightarrow> bool" where
  "ctx_ok c \<longleftrightarrow> length (ctx_data c) = 64 \<and> length (ctx_H c) = 8"

lemma transform_fips:
  assumes "ctx_ok c"
  shows "sha256_transform c = c\<lparr>ctx_H := fips_compress (ctx_H c) (ctx_data c)\<rparr>"
proof -
  let ?H = "ctx_H c"
  have l: "length (ctx_data c) = 64" "length ?H = 8" using assms by (simp_all add: ctx_ok_def)
  define w where "w = fold (mix (schedule (ctx_data c))) [0..<64] (?H ! 0, ?H ! 1, ?H ! 2, ?H ! 3, ?H ! 4, ?H ! 5, ?H ! 6, ?H ! 7)"
  have r: "as_list w = fips_rounds (ctx_data c) ?H 64"
    unfolding w_def by (simp only: rounds_fips [OF l(1) order_refl] as_list_eq [OF l(2)])
  obtain a b c' d e f g h where w: "w = (a, b, c', d, e, f, g, h)" by (metis surj_pair)
  have H: "?H = [?H ! 0, ?H ! 1, ?H ! 2, ?H ! 3, ?H ! 4, ?H ! 5, ?H ! 6, ?H ! 7]"
    using as_list_eq [OF l(2)] by (simp add: as_list_def)
  have "fips_compress ?H (ctx_data c) =
      [?H ! 0 + a, ?H ! 1 + b, ?H ! 2 + c', ?H ! 3 + d, ?H ! 4 + e, ?H ! 5 + f, ?H ! 6 + g, ?H ! 7 + h]"
    unfolding fips_compress_def r [symmetric] w by (subst H) (simp add: as_list_def)
  then show ?thesis unfolding sha256_transform_def Let_def w_def [symmetric] w by simp
qed

section \<open>Streaming\<close>

lemma fips_blocks_short: "length m < 64 \<Longrightarrow> fips_blocks m H = H"
  by (subst fips_blocks.simps) simp

lemma fips_blocks_step: "length b = 64 \<Longrightarrow> fips_blocks (b @ m) H = fips_blocks m (fips_compress H b)"
  by (subst fips_blocks.simps) simp

lemma fips_blocks_append: "64 dvd length m \<Longrightarrow> fips_blocks (m @ n) H = fips_blocks n (fips_blocks m H)"
proof (induction m H rule: fips_blocks.induct)
  case (1 m H)
  show ?case
  proof (cases "length m < 64")
    case True
    with 1(2) have "m = []" by (auto dest: dvd_imp_le)
    then show ?thesis by (simp add: fips_blocks_short)
  next
    case False
    have d: "64 dvd length (drop 64 m)" using 1(2) by simp
    have "m @ n = take 64 m @ (drop 64 m @ n)" by simp
    with False 1(1) [OF False d] show ?thesis
      by (metis append_take_drop_id fips_blocks_step length_take min.absorb2 not_less)
  qed
qed

lemma length_fips_blocks: "length H = 8 \<Longrightarrow> length (fips_blocks m H) = 8"
proof (induction m H rule: fips_blocks.induct)
  case (1 m H)
  then show ?case by (subst fips_blocks.simps) (simp add: length_fips_compress)
qed

text \<open>
  What a context has absorbed: the full blocks of the message are in the hash values, the rest is at
  the start of the buffer.
\<close>

definition absorbed :: "byte list \<Rightarrow> SHA256_CTX \<Rightarrow> bool" where
  "absorbed m c \<longleftrightarrow> ctx_ok c \<and> bitlen c = of_nat (8 * length m) \<and> datalen c = length m mod 64 \<and>
     take (datalen c) (ctx_data c) = drop (64 * (length m div 64)) m \<and>
     ctx_H c = fips_blocks (take (64 * (length m div 64)) m) fips_H0"

lemma absorbedI:
  assumes "ctx_ok c" and "64 dvd length full" and "length rest < 64" and "bitlen c = of_nat (8 * length (full @ rest))"
    and "datalen c = length rest" and "take (length rest) (ctx_data c) = rest" and "ctx_H c = fips_blocks full fips_H0"
  shows "absorbed (full @ rest) c"
proof -
  obtain k where "length full = 64 * k" using assms(2) by blast
  then show ?thesis using assms by (simp add: absorbed_def)
qed

lemma absorbedE:
  assumes "absorbed m c"
  obtains full rest where "m = full @ rest" "64 dvd length full" "length rest < 64" "ctx_ok c" "bitlen c = of_nat (8 * length m)"
    "datalen c = length rest" "take (length rest) (ctx_data c) = rest" "ctx_H c = fips_blocks full fips_H0"
proof (rule that)
  let ?k = "64 * (length m div 64)"
  have "length m - ?k = length m mod 64" "?k \<le> length m" by (simp_all add: minus_mult_div_eq_mod)
  then have k: "length (take ?k m) = ?k" and l: "length (drop ?k m) = length m mod 64" by simp_all
  show "length (drop ?k m) < 64" "datalen c = length (drop ?k m)" "take (length (drop ?k m)) (ctx_data c) = drop ?k m"
    unfolding l using assms by (auto simp: absorbed_def)
  show "64 dvd length (take ?k m)" unfolding k by simp
qed (use assms in \<open>simp_all add: absorbed_def min_def\<close>)

lemma take_update_snoc: "n < length xs \<Longrightarrow> take (Suc n) (xs[n := x]) = take n xs @ [x]"
  by (simp add: take_Suc_conv_app_nth)

lemma put_data_ok: "datalen c < 64 \<Longrightarrow> ctx_ok c \<Longrightarrow> put_data b c =
    Some (c\<lparr>ctx_data := (ctx_data c)[datalen c := b], datalen := Suc (datalen c)\<rparr>)"
  by (simp add: put_data_def ctx_ok_def)

lemma update_byte:
  assumes "absorbed m c"
  shows "\<exists>c'. update_loop [b] c = Some c' \<and> absorbed (m @ [b]) c'"
proof -
  from assms obtain full rest where m: "m = full @ rest" "64 dvd length full" "length rest < 64" "ctx_ok c" "bitlen c = of_nat (8 * length m)"
    "datalen c = length rest" "take (length rest) (ctx_data c) = rest" "ctx_H c = fips_blocks full fips_H0" by (rule absorbedE)
  let ?d = "(ctx_data c)[length rest := b]"
  have d: "length ?d = 64" "take (Suc (length rest)) ?d = rest @ [b]"
    using m(3,4,7) by (simp_all add: ctx_ok_def take_update_snoc)
  let ?c = "c\<lparr>ctx_data := ?d, datalen := Suc (length rest), bitlen := bitlen c + 8\<rparr>"
  have ok: "ctx_ok ?c" using m(4) by (simp add: ctx_ok_def)
  have u: "update_loop [b] c = Some (if Suc (length rest) = 64 then (sha256_transform ?c)\<lparr>datalen := 0\<rparr> else ?c)"
    using m(3,4,6) by (simp add: put_data_ok)
  show ?thesis
  proof (cases "Suc (length rest) = 64")
    case True
    have f: "fips_blocks (full @ rest @ [b]) fips_H0 = fips_compress (fips_blocks full fips_H0) (rest @ [b])"
      using fips_blocks_append [OF m(2)] fips_blocks_step [of "rest @ [b]" "[]"] True by (simp add: fips_blocks_short)
    have "?d = rest @ [b]" using d True by simp
    with f m ok True have "absorbed ((full @ rest @ [b]) @ []) ((sha256_transform ?c)\<lparr>datalen := 0\<rparr>)"
      by (intro absorbedI) (auto simp: transform_fips ctx_ok_def length_fips_compress algebra_simps)
    with u True m(1) show ?thesis by simp
  next
    case False
    have "absorbed (full @ (rest @ [b])) ?c"
      using m False d ok by (intro absorbedI) (auto simp: algebra_simps)
    with u False m(1) show ?thesis by simp
  qed
qed

lemma update_loop_append: "update_loop (xs @ ys) c = Option.bind (update_loop xs c) (update_loop ys)"
  by (induction xs arbitrary: c) (simp_all add: Let_def Option.bind_assoc)

lemma update_loop_absorbs: "absorbed m c \<Longrightarrow> \<exists>c'. update_loop bs c = Some c' \<and> absorbed (m @ bs) c'"
proof (induction bs arbitrary: m c)
  case Nil
  then show ?case by simp
next
  case (Cons b bs)
  obtain c1 where c1: "update_loop [b] c = Some c1" "absorbed (m @ [b]) c1" using update_byte [OF Cons.prems] by blast
  from Cons.IH [OF c1(2)] obtain c' where "update_loop bs c1 = Some c'" "absorbed ((m @ [b]) @ bs) c'" by blast
  with c1(1) update_loop_append [of "[b]" bs c] show ?case by auto
qed

lemma sha256_update_absorbs:
  assumes "absorbed m c" and "unat len \<le> length bs"
  shows "\<exists>c'. sha256_update c (Some bs) len = Some c' \<and> absorbed (m @ take (unat len) bs) c'"
  using update_loop_absorbs [OF assms(1), of "take (unat len) bs"] assms(2)
  by (cases "unat len = 0") (simp_all add: sha256_update_def read_bytes_def)

lemma sha256_init_absorbs: "length (ctx_data u) = 64 \<Longrightarrow> absorbed [] (sha256_init u)"
  by (simp add: absorbed_def sha256_init_def ctx_ok_def fips_blocks_short fips_H0_def)

section \<open>Finalisation\<close>

text \<open>One byte of a big-endian number, the way the code cuts it out.\<close>

lemma cut_byte: "k + 8 \<le> LENGTH('a) \<Longrightarrow> ucast (drop_bit k (of_nat x :: 'a::len word) AND 0xff) = (of_nat (x div 2 ^ k) :: byte)"
proof (rule bit_word_eqI)
  fix i assume k: "k + 8 \<le> LENGTH('a)" and i: "i < LENGTH(8)"
  have m: "(0xff :: 'a word) = mask 8" by (simp add: mask_eq_exp_minus_1)
  have d: "x div 2 ^ k = drop_bit k x" by (simp add: drop_bit_eq_div)
  show "bit (ucast (drop_bit k (of_nat x :: 'a word) AND 0xff) :: byte) i = bit (of_nat (x div 2 ^ k) :: byte) i"
    using k i unfolding m d by (simp add: bit_simps)
qed

lemma le_encode_map: "le_encode n x = map (\<lambda>i. of_nat (x div 256 ^ i)) [0..<n]"
proof (induction n arbitrary: x)
  case (Suc n)
  have "[0..<Suc n] = 0 # map Suc [0..<n]" by (simp add: map_Suc_upt upt_conv_Cons del: upt_Suc)
  with Suc show ?case by (simp add: div_mult2_eq del: upt_Suc)
qed simp

lemma be_encode_map: "be_encode n x = map (\<lambda>i. of_nat (x div 256 ^ (n - Suc i))) [0..<n]"
  unfolding be_encode_def le_encode_map by (rule nth_equalityI) (simp_all add: rev_nth)

lemma be_encode_8: "be_encode 8 x = map (\<lambda>i. of_nat (x div 2 ^ (56 - i * 8))) [0..<8]"
  unfolding be_encode_map
proof (intro map_cong refl)
  fix i assume "i \<in> set [0..<8 :: nat]"
  then have "56 - i * 8 = 8 * (8 - Suc i)" by auto
  then show "(of_nat (x div 256 ^ (8 - Suc i)) :: byte) = of_nat (x div 2 ^ (56 - i * 8))" by (simp add: power_mult)
qed

lemma be_encode_4: "be_encode 4 x = [of_nat (x div 2 ^ 24), of_nat (x div 2 ^ 16), of_nat (x div 2 ^ 8), of_nat x]"
proof -
  have "[0..<4 :: nat] = [0, 1, 2, 3]" by (simp add: upt_rec)
  then show ?thesis unfolding be_encode_map by simp
qed

lemma length_bytes_be: "length_bytes (of_nat x) = be_encode 8 x"
  unfolding length_bytes_def be_encode_8 by (intro map_cong refl cut_byte) auto

lemma word_bytes_be: "[ucast (drop_bit 24 w AND 0xff), ucast (drop_bit 16 w AND 0xff), ucast (drop_bit 8 w AND 0xff), ucast (w AND 0xff)] =
    be_encode 4 (unat w)" for w :: u32
  using cut_byte [of 24 "unat w", where 'a = 32] cut_byte [of 16 "unat w", where 'a = 32] cut_byte [of 8 "unat w", where 'a = 32]
    cut_byte [of 0 "unat w", where 'a = 32] by (simp add: be_encode_4)

lemma hash_bytes_be: "length H = 8 \<Longrightarrow> hash_bytes H = concat (map (\<lambda>w. be_encode 4 (unat w)) H)"
proof -
  assume l: "length H = 8"
  have "hash_bytes H = concat (map (\<lambda>i. be_encode 4 (unat (H ! i))) [0..<8])" by (simp add: hash_bytes_def word_bytes_be)
  also have "map (\<lambda>i. be_encode 4 (unat (H ! i))) [0..<8] = map (\<lambda>w. be_encode 4 (unat w)) H"
    unfolding l [symmetric] by (rule nth_equalityI) simp_all
  finally show ?thesis .
qed

lemma pad_loop_done: "datalen c = 56 \<Longrightarrow> pad_loop c = Some c"
  by (subst pad_loop.simps) simp

lemma pad_loop_put:
  "ctx_ok c \<Longrightarrow> datalen c < 64 \<Longrightarrow> datalen c \<noteq> 56 \<Longrightarrow>
   pad_loop c = pad_loop (c\<lparr>ctx_data := (ctx_data c)[datalen c := 0], datalen := Suc (datalen c)\<rparr>)"
  by (subst pad_loop.simps) (simp add: put_data_ok)

lemma pad_loop_full:
  assumes "ctx_ok c" and "datalen c = 64"
  shows "pad_loop c = pad_loop ((sha256_transform c)\<lparr>datalen := 0\<rparr>)"
proof -
  have "ctx_ok ((sha256_transform c)\<lparr>datalen := 0\<rparr>)"
    using assms(1) by (simp add: transform_fips ctx_ok_def length_fips_compress)
  then show ?thesis using assms(2) by (subst (1 2) pad_loop.simps) (simp add: put_data_ok)
qed

lemma zero_fill: "i < length xs \<Longrightarrow> take (Suc i) (xs[i := x]) @ replicate n x @ drop (Suc i + n) (xs[i := x]) =
    take i xs @ replicate (Suc n) x @ drop (i + Suc n) xs"
  by (simp add: take_update_snoc replicate_append_same)

lemma pad_loop_fill:
  "ctx_ok c \<Longrightarrow> datalen c + n \<le> 64 \<Longrightarrow> (\<And>k. k < n \<Longrightarrow> datalen c + k \<noteq> 56) \<Longrightarrow>
   pad_loop c = pad_loop (c\<lparr>ctx_data := take (datalen c) (ctx_data c) @ replicate n 0 @ drop (datalen c + n) (ctx_data c), datalen := datalen c + n\<rparr>)"
proof (induction n arbitrary: c)
  case 0
  then show ?case by simp
next
  case (Suc n)
  let ?c = "c\<lparr>ctx_data := (ctx_data c)[datalen c := 0], datalen := Suc (datalen c)\<rparr>"
  have d: "datalen c < 64" "datalen c \<noteq> 56" "datalen c < length (ctx_data c)"
    using Suc.prems(1,2) Suc.prems(3) [of 0] by (simp_all add: ctx_ok_def)
  have "datalen ?c + k \<noteq> 56" if "k < n" for k using Suc.prems(3) [of "Suc k"] that by simp
  with Suc.IH [of ?c] Suc.prems(1,2) have "pad_loop ?c = pad_loop (?c\<lparr>ctx_data := take (datalen ?c) (ctx_data ?c) @ replicate n 0 @
      drop (datalen ?c + n) (ctx_data ?c), datalen := datalen ?c + n\<rparr>)" by (simp add: ctx_ok_def)
  with pad_loop_put [OF Suc.prems(1) d(1,2)] zero_fill [OF d(3), of 0 n] show ?case by simp
qed

lemma poke_length: "length d = 64 \<Longrightarrow> take 56 d = b \<Longrightarrow> length b = 56 \<Longrightarrow> length l = 8 \<Longrightarrow> poke d 56 l = Some (b @ l)"
  by (simp add: poke_def)

text \<open>Finalisation once the buffer holds the last bytes, the one bit and, from byte 56 on, room for the length.\<close>

lemma finish_block:
  assumes "ctx_ok c" and "datalen c \<le> 56" and "bitlen c = of_nat n"
  shows "\<exists>c'. (do { c \<leftarrow> pad_loop c; d \<leftarrow> poke (ctx_data c) 56 (length_bytes (bitlen c));
      let c = sha256_transform (c\<lparr>ctx_data := d\<rparr>); Some (c, hash_bytes (ctx_H c)) }) =
    Some (c', concat (map (\<lambda>w. be_encode 4 (unat w))
      (fips_compress (ctx_H c) (take (datalen c) (ctx_data c) @ replicate (56 - datalen c) 0 @ be_encode 8 n))))"
proof -
  let ?z = "take (datalen c) (ctx_data c) @ replicate (56 - datalen c) 0" and ?n = "56 - datalen c"
  let ?c = "c\<lparr>ctx_data := ?z @ drop 56 (ctx_data c), datalen := 56\<rparr>"
  have l: "length (ctx_data c) = 64" "length (ctx_H c) = 8" "length ?z = 56" using assms by (simp_all add: ctx_ok_def)
  have "pad_loop c = pad_loop ?c"
    using pad_loop_fill [OF assms(1), of ?n] assms(2) by simp
  then have p: "pad_loop c = Some ?c" by (simp add: pad_loop_done)
  have k: "poke (ctx_data ?c) 56 (length_bytes (bitlen c)) = Some (?z @ be_encode 8 n)"
    unfolding assms(3) length_bytes_be using l by (intro poke_length) simp_all
  show ?thesis using p k l by (simp add: Let_def transform_fips ctx_ok_def hash_bytes_be length_fips_compress)
qed

lemma sha256_finalize_fips:
  assumes "absorbed m c"
  shows "\<exists>c'. sha256_finalize c = Some (c', fips_sha256 m)"
proof -
  from assms obtain full rest where m: "m = full @ rest" "64 dvd length full" "length rest < 64" "ctx_ok c" "bitlen c = of_nat (8 * length m)"
    "datalen c = length rest" "take (length rest) (ctx_data c) = rest" "ctx_H c = fips_blocks full fips_H0" by (rule absorbedE)
  let ?r = "length rest"
  let ?c = "c\<lparr>ctx_data := (ctx_data c)[?r := 0x80], datalen := Suc ?r\<rparr>"
  have l: "length (ctx_data c) = 64" "length (ctx_H c) = 8" using m(4) by (simp_all add: ctx_ok_def)
  have p: "put_data 0x80 c = Some ?c" using m by (simp add: put_data_ok)
  have ok: "ctx_ok ?c" "take (Suc ?r) (ctx_data ?c) = rest @ [0x80]" using m l by (simp_all add: ctx_ok_def take_update_snoc)
  have mod: "length m mod 64 = ?r" using m(1-3) by auto
  let ?pad = "\<lambda>k. rest @ [0x80] @ replicate k 0 @ be_encode 8 (8 * length m)"
  have f: "fips_blocks (fips_pad m) fips_H0 = fips_blocks (?pad ((119 - ?r) mod 64)) (ctx_H c)"
    unfolding fips_pad_def mod using fips_blocks_append [OF m(2)] m(1,8) by simp
  show ?thesis
  proof (cases "Suc ?r \<le> 56")
    case True
    then have k: "(119 - ?r) mod 64 = 55 - ?r" by (simp add: mod_if)
    have "fips_blocks (?pad (55 - ?r)) (ctx_H c) = fips_compress (ctx_H c) (?pad (55 - ?r))"
      using fips_blocks_step [of "?pad (55 - ?r)" "[]"] True by (simp add: fips_blocks_short)
    with finish_block [OF ok(1), of "8 * length m"] True m(5) ok(2) p f k show ?thesis
      by (simp add: sha256_finalize_def fips_sha256_def)
  next
    case False
    let ?b = "rest @ [0x80] @ replicate (63 - ?r) 0"
    let ?d = "(sha256_transform (?c\<lparr>ctx_data := ?b, datalen := 64\<rparr>))\<lparr>datalen := 0\<rparr>"
    have b: "length ?b = 64" using False m(3) by simp
    have k: "(119 - ?r) mod 64 = (63 - ?r) + 56" using False m(3) by (simp add: mod_if)
    have "pad_loop ?c = pad_loop (?c\<lparr>ctx_data := ?b, datalen := 64\<rparr>)"
      using pad_loop_fill [OF ok(1), of "63 - ?r"] ok(2) l False m(3) by simp
    also have "\<dots> = pad_loop ?d" using b l by (intro pad_loop_full) (simp_all add: ctx_ok_def)
    finally have q: "pad_loop ?c = pad_loop ?d" .
    have d: "ctx_ok ?d" "bitlen ?d = bitlen c" "ctx_H ?d = fips_compress (ctx_H c) ?b" "datalen ?d = 0"
      using b l by (simp_all add: transform_fips ctx_ok_def length_fips_compress)
    have e: "?pad ((63 - ?r) + 56) = ?b @ (replicate 56 0 @ be_encode 8 (8 * length m))" by (simp add: replicate_add)
    have "fips_blocks (?pad ((63 - ?r) + 56)) (ctx_H c) =
        fips_compress (fips_compress (ctx_H c) ?b) (replicate 56 0 @ be_encode 8 (8 * length m))"
      unfolding e fips_blocks_step [OF b] using fips_blocks_step [of "replicate 56 0 @ be_encode 8 (8 * length m)" "[]"]
      by (simp add: fips_blocks_short)
    with finish_block [OF d(1), of "8 * length m"] d m(5) p q f k show ?thesis
      by (simp add: sha256_finalize_def fips_sha256_def)
  qed
qed

section \<open>Conversions\<close>

lemma hex_chars:
  "list_all (\<lambda>i. let n = word_of_nat i in isxdigit (hex_char n) \<and> hex_digit (hex_char n) = n \<and> hex_char n \<noteq> 0) [0..<16]"
  by code_simp

lemma hex_char_facts:
  assumes "unat n < 16"
  shows "isxdigit (hex_char n) \<and> hex_digit (hex_char n) = n \<and> hex_char n \<noteq> 0"
proof -
  have "unat n \<in> set [0..<16]" using assms by simp
  with hex_chars [unfolded list_all_iff Let_def, rule_format, OF this] show ?thesis by simp
qed

lemma nibbles: "unat (drop_bit 4 (b :: byte)) < 16" "unat (b AND 0x0f) < 16" "push_bit 4 (drop_bit 4 b) + (b AND 0x0f) = b"
proof -
  show "unat (drop_bit 4 b) < 16"
    using unat_less_2p [of b] by (simp add: drop_bit_eq_div unat_div_distrib)
  have m: "(0x0f :: byte) = mask 4" by (simp add: mask_eq_exp_minus_1)
  show "unat (b AND 0x0f) < 16" unfolding m take_bit_eq_mask [symmetric] unsigned_take_bit_eq
    using take_bit_nat_less_exp [of 4 "unat b"] by simp
  show "push_bit 4 (drop_bit 4 b) + (b AND 0x0f) = b"
    unfolding m take_bit_eq_mask [symmetric] by (rule bits_ident)
qed

lemma hex_string_simps [simp]:
  "hex_string [] = []" "hex_string (b # bs) = hex_char (drop_bit 4 b) # hex_char (b AND 0x0f) # hex_string bs"
  "length (hex_string bs) = 2 * length bs"
proof -
  show "length (hex_string bs) = 2 * length bs" by (induction bs) (simp_all add: hex_string_def)
qed (simp_all add: hex_string_def)

lemma strnlen_string: "0 \<notin> set s \<Longrightarrow> length s < n \<Longrightarrow> strnlen (s @ 0 # t) n = Some (length s)"
proof (induction s arbitrary: n)
  case Nil
  then show ?case by (cases n) simp_all
next
  case (Cons c s)
  then show ?case by (cases n) auto
qed

lemma poke_next: "k < length out \<Longrightarrow> poke out k [x] = Some (take k out @ x # drop (Suc k) out)"
  by (simp add: poke_def)

lemma hex_loop_string:
  "k + length bs \<le> length out \<Longrightarrow> hex_loop (hex_string bs) k out = Some (True, take k out @ bs @ drop (k + length bs) out)"
proof (induction bs arbitrary: k out)
  case (Cons b bs)
  let ?out = "take k out @ b # drop (Suc k) out"
  note h = hex_char_facts [OF nibbles(1) [of b]] hex_char_facts [OF nibbles(2) [of b]]
  have "hex_loop (hex_string bs) (Suc k) ?out = Some (True, take (Suc k) ?out @ bs @ drop (Suc k + length bs) ?out)"
    by (rule Cons.IH) (use Cons.prems in simp)
  moreover have "take (Suc k) ?out = take k out @ [b]" "drop (Suc k + length bs) ?out = drop (k + length (b # bs)) out"
    using Cons.prems by (simp_all add: min_def add.commute)
  ultimately show ?case using Cons.prems by (simp add: h nibbles(3) poke_next)
qed simp

lemma zero_notin_hex: "0 \<notin> set (hex_string bs)"
  using hex_char_facts nibbles(1,2) by (induction bs) (auto dest: sym)

section \<open>A published example\<close>

text \<open>
  The one-block example of FIPS 180-4, the message \<open>abc\<close>: a check of the constants, evaluated in the
  logic in steps of sixteen rounds.
\<close>

definition abc_block :: "byte list" where
  "abc_block = [0x61, 0x62, 0x63, 0x80] @ replicate 52 0 @ [0, 0, 0, 0, 0, 0, 0, 24]"

definition abc_W :: "u32 list" where
  "abc_W = [
    0x61626380, 0x00000000, 0x00000000, 0x00000000, 0x00000000, 0x00000000, 0x00000000, 0x00000000,
    0x00000000, 0x00000000, 0x00000000, 0x00000000, 0x00000000, 0x00000000, 0x00000000, 0x00000018,
    0x61626380, 0x000f0000, 0x7da86405, 0x600003c6, 0x3e9d7b78, 0x0183fc00, 0x12dcbfdb, 0xe2e2c38e,
    0xc8215c1a, 0xb73679a2, 0xe5bc3909, 0x32663c5b, 0x9d209d67, 0xec8726cb, 0x702138a4, 0xd3b7973b,
    0x93f5997f, 0x3b68ba73, 0xaff4ffc1, 0xf10a5c62, 0x0a8b3996, 0x72af830a, 0x9409e33e, 0x24641522,
    0x9f47bf94, 0xf0a64f5a, 0x3e246a79, 0x27333ba3, 0x0c4763f2, 0x840abf27, 0x7a290d5d, 0x065c43da,
    0xfb3e89cb, 0xcc7617db, 0xb9e66c34, 0xa9993667, 0x84badedd, 0xc21462bc, 0x1487472c, 0xb20f7a99,
    0xef57b9cd, 0xebe6b238, 0x9fe3095e, 0x78bc8d4b, 0xa43fcf15, 0x668b2ff8, 0xeeaba2cc, 0x12b1edeb]"

lemma abc_schedule: "schedule abc_block = abc_W"
  by code_simp

lemma abc_rounds_16:
  "fold (mix abc_W) [0..<16]
     (0x6a09e667, 0xbb67ae85, 0x3c6ef372, 0xa54ff53a, 0x510e527f, 0x9b05688c, 0x1f83d9ab, 0x5be0cd19) =
     (0xb0fa238e, 0xc0645fde, 0xd932eb16, 0x87912990, 0x07590dcd, 0x0b92f20c, 0x745a48de, 0x1e578218)"
  by code_simp

lemma abc_rounds_32:
  "fold (mix abc_W) [16..<32]
     (0xb0fa238e, 0xc0645fde, 0xd932eb16, 0x87912990, 0x07590dcd, 0x0b92f20c, 0x745a48de, 0x1e578218) =
     (0x73b33bf5, 0xea992a22, 0xa0060b30, 0x363482c9, 0xba591112, 0x0109ab3a, 0xade79437, 0x6112a3b7)"
  by code_simp

lemma abc_rounds_48:
  "fold (mix abc_W) [32..<48]
     (0x73b33bf5, 0xea992a22, 0xa0060b30, 0x363482c9, 0xba591112, 0x0109ab3a, 0xade79437, 0x6112a3b7) =
     (0x4172328d, 0xa14c14b0, 0x72ab4b91, 0x26628815, 0xfecf0bc6, 0xd57b94a9, 0xb7755da1, 0xa80f11f0)"
  by code_simp

lemma abc_rounds_64:
  "fold (mix abc_W) [48..<64]
     (0x4172328d, 0xa14c14b0, 0x72ab4b91, 0x26628815, 0xfecf0bc6, 0xd57b94a9, 0xb7755da1, 0xa80f11f0) =
     (0x506e3058, 0xd39a2165, 0x04d24d6c, 0xb85e2ce9, 0x5ef50f24, 0xfb121210, 0x948d25b6, 0x961f4894)"
  by code_simp

lemma abc_rounds:
  "fold (mix abc_W) [0..<64] (0x6a09e667, 0xbb67ae85, 0x3c6ef372, 0xa54ff53a, 0x510e527f, 0x9b05688c, 0x1f83d9ab, 0x5be0cd19) =
     (0x506e3058, 0xd39a2165, 0x04d24d6c, 0xb85e2ce9, 0x5ef50f24, 0xfb121210, 0x948d25b6, 0x961f4894)"
proof -
  have u: "[0..<64] = [0..<16] @ [16..<32] @ [32..<48] @ [48..<64 :: nat]"
    using upt_add_eq_append [of 0 16 16] upt_add_eq_append [of 0 32 16] upt_add_eq_append [of 0 48 16] by simp
  show ?thesis unfolding u fold_append o_apply abc_rounds_16 abc_rounds_32 abc_rounds_48 abc_rounds_64 ..
qed

lemma fips_abc:
  "fips_sha256 [0x61, 0x62, 0x63] =
    [0xba, 0x78, 0x16, 0xbf, 0x8f, 0x01, 0xcf, 0xea, 0x41, 0x41, 0x40, 0xde, 0x5d, 0xae, 0x22, 0x23,
     0xb0, 0x03, 0x61, 0xa3, 0x96, 0x17, 0x7a, 0x9c, 0xb4, 0x10, 0xff, 0x61, 0xf2, 0x00, 0x15, 0xad]"
proof -
  let ?c = "\<lparr>ctx_data = abc_block, datalen = 64, bitlen = 24, ctx_H = fips_H0\<rparr>"
  have pad: "fips_pad [0x61, 0x62, 0x63] = abc_block"
    by code_simp
  have b: "length abc_block = 64" by (simp add: abc_block_def)
  have "fips_blocks abc_block fips_H0 = fips_compress fips_H0 abc_block"
    using fips_blocks_step [OF b, of "[]"] by (simp add: fips_blocks_short)
  also have "\<dots> = ctx_H (sha256_transform ?c)" using b by (simp add: transform_fips ctx_ok_def fips_H0_def)
  also have "\<dots> = [0xba7816bf, 0x8f01cfea, 0x414140de, 0x5dae2223, 0xb00361a3, 0x96177a9c, 0xb410ff61, 0xf20015ad]"
    by (simp add: sha256_transform_def abc_schedule fips_H0_def abc_rounds del: upt_rec_numeral)
  finally show ?thesis by (simp add: fips_sha256_def pad be_encode_4)
qed

section \<open>Properties\<close>

text \<open>Any sequence of updates of a context.\<close>

primrec sha256_updates :: "byte list list \<Rightarrow> SHA256_CTX \<Rightarrow> SHA256_CTX option" where
  "sha256_updates [] c = Some c"
| "sha256_updates (b # bs) c = do { c \<leftarrow> sha256_update c (Some b) (of_nat (length b)); sha256_updates bs c }"

lemma sha256_updates_absorb:
  "absorbed m c \<Longrightarrow> list_all (\<lambda>b. length b < 2 ^ 32) bs \<Longrightarrow> \<exists>c'. sha256_updates bs c = Some c' \<and> absorbed (m @ concat bs) c'"
proof (induction bs arbitrary: m c)
  case (Cons b bs)
  have l: "unat (of_nat (length b) :: u32) = length b" using Cons.prems(2) by (simp add: unat_of_nat take_bit_nat_eq_self)
  obtain c1 where c1: "sha256_update c (Some b) (of_nat (length b)) = Some c1" "absorbed (m @ b) c1"
    using sha256_update_absorbs [OF Cons.prems(1), of "of_nat (length b)" b] l by auto
  with Cons.IH [OF c1(2)] Cons.prems(2) show ?case by auto
qed simp

lemma sha256_fips:
  assumes "length (ctx_data u) = 64" and "unat len \<le> length m"
  shows "sha256 u (Some m) len = Some (fips_sha256 (take (unat len) m))"
  using sha256_update_absorbs [OF sha256_init_absorbs [OF assms(1)] assms(2)] sha256_finalize_fips by (fastforce simp: sha256_def)

lemma length_fips_sha256 [simp]: "length (fips_sha256 m) = 32"
proof -
  have "length (concat (map (\<lambda>w. be_encode 4 (unat w)) ws)) = 4 * length ws" for ws :: "u32 list"
    by (induction ws) simp_all
  then show ?thesis by (simp add: fips_sha256_def length_fips_blocks fips_H0_def)
qed

lemma blank_ctx_data [simp]: "length (ctx_data blank_ctx) = 64"
  by (simp add: blank_ctx_def)

text \<open>
  C6: SHA-256. A message that is handed to \<open>sha256_update\<close> in any pieces, each with a 32-bit length, is
  hashed as FIPS 180-4 prescribes: \<open>sha256_init\<close>, the updates and \<open>sha256_finalize\<close> all return, whatever was
  in the context before, the padding loop ends, no access leaves the 64-byte block, and the 32 bytes
  are the digest of the padded whole message, block by block. The same holds for \<open>sha256\<close> on the whole
  message at once.
\<close>

theorem sha256_computes_fips:
  assumes "length (ctx_data u) = 64" and "list_all (\<lambda>b. length b < 2 ^ 32) bs" and "length m < 2 ^ 32"
  shows "(\<exists>c c'. sha256_updates bs (sha256_init u) = Some c \<and> sha256_finalize c = Some (c', fips_sha256 (concat bs))) \<and>
    sha256 u (Some m) (of_nat (length m)) = Some (fips_sha256 m)"
proof
  note i = sha256_init_absorbs [OF assms(1)]
  show "\<exists>c c'. sha256_updates bs (sha256_init u) = Some c \<and> sha256_finalize c = Some (c', fips_sha256 (concat bs))"
    using sha256_updates_absorb [OF i assms(2)] sha256_finalize_fips by fastforce
  from sha256_updates_absorb [OF i, of "[m]"] assms(3) obtain c where
    "sha256_update (sha256_init u) (Some m) (of_nat (length m)) = Some c" "absorbed m c" by (auto split: bind_splits)
  with sha256_finalize_fips show "sha256 u (Some m) (of_nat (length m)) = Some (fips_sha256 m)" by (fastforce simp: sha256_def)
qed

theorem sha256_computes_fips_witness:
  "sha256 blank_ctx (Some [0x61, 0x62, 0x63]) 3 = Some
    [0xba, 0x78, 0x16, 0xbf, 0x8f, 0x01, 0xcf, 0xea, 0x41, 0x41, 0x40, 0xde, 0x5d, 0xae, 0x22, 0x23,
     0xb0, 0x03, 0x61, 0xa3, 0x96, 0x17, 0x7a, 0x9c, 0xb4, 0x10, 0xff, 0x61, 0xf2, 0x00, 0x15, 0xad]"
  using sha256_computes_fips [of blank_ctx "[]" "[0x61, 0x62, 0x63]"] by (simp add: blank_ctx_def fips_abc)

text \<open>
  bytes survive the conversion to a hexadecimal string and back. \<open>bytes_to_hex\<close> into a buffer with
  room for two characters per byte and the terminator writes exactly these; \<open>hex_to_bytes\<close> on that string,
  with any limit beyond its length, returns the number of bytes and stores them, and leaves the rest
  of its output alone.
\<close>

theorem hex_roundtrip:
  assumes "2 * length bs + 1 \<le> unat outlen" and "unat outlen \<le> length out"
    and "2 * length bs < unat inlen" and "length bs \<le> unat n" and "unat n \<le> length dst"
  shows "\<exists>str. bytes_to_hex (Some bs) (of_nat (length bs)) out outlen = Some (1, str) \<and> length str = length out \<and>
    drop (2 * length bs + 1) str = drop (2 * length bs + 1) out \<and>
    hex_to_bytes str inlen dst n = Some (int (length bs), bs @ drop (length bs) dst)"
proof -
  let ?l = "of_nat (length bs) :: u32" and ?str = "hex_string bs @ 0 # drop (2 * length bs + 1) out"
  have b: "2 * length bs + 1 < 2 ^ 32" using le_less_trans [OF assms(1) unat_less_2p] by simp
  have l: "unat ?l = length bs" "unat (2 * ?l + 1) = 2 * length bs + 1"
    using b by (simp_all add: unat_of_nat take_bit_nat_eq_self unat_word_ariths)
  have "\<not> 2 * ?l + 1 > outlen" using assms(1) l(2) by (simp add: word_less_nat_alt)
  then have 1: "bytes_to_hex (Some bs) ?l out outlen = Some (1, ?str)"
    using l assms(1,2) by (simp add: bytes_to_hex_def read_bytes_def poke_def) 
  have "strnlen ?str (unat inlen) = Some (2 * length bs)"
    using strnlen_string [OF zero_notin_hex, of bs "unat inlen"] assms(3) by simp
  with hex_loop_string [of 0 bs dst] assms(4,5) have "hex_to_bytes ?str inlen dst n = Some (int (length bs), bs @ drop (length bs) dst)"
    using assms(3) by (simp add: hex_to_bytes_def)
  with 1 assms(1,2) show ?thesis by auto
qed

theorem hex_roundtrip_witness:
  "\<exists>str. bytes_to_hex (Some [0x0f, 0xa0]) 2 (replicate 6 0xEE) 5 = Some (1, str) \<and> drop 5 str = [0xEE] \<and>
     hex_to_bytes str 6 [0x11, 0x22, 0x33] 3 = Some (2, [0x0f, 0xa0, 0x33])"
  using hex_roundtrip [of "[0x0f, 0xa0]" 5 "replicate 6 0xEE" 6 3 "[0x11, 0x22, 0x33]"] by auto

end
