(* ===== verification/Hash_Drbg.thy ===== *)
theory Hash_Drbg
  imports Sha256
begin

text \<open>
  The random number generator of the code signing tool (\<open>cst/lib_hash_drbg/src/hash_drbg.c\<close>): \<open>Hash_DRBG\<close> of
  NIST SP 800-90A on SHA-256, with its two primitives \<open>hash_df\<close> and \<open>hash_gen\<close>, addition of big-endian
  numbers, and the algorithms for instantiation, reseeding and generation, compared with the text of the standard.
  The processes around them are in \<open>Get_Rand\<close>.

  The single \<open>instance\<close> is a record; its arrays are lists of their declared lengths. Access outside of an
  array is a fault. Where the code ends the process (\<open>exit\<close>, if built with \<open>SEVERITY > 0\<close>) the return code is
  \<open>Exited\<close>; nothing after it matters. The clearing of local buffers is not modelled, that of the caller's
  entropy and nonce is. Lengths that come with a list are those the code passes.
\<close>

section \<open>Codes and state\<close>

datatype ret_code = Code u32 | Exited

abbreviation (input) SUCCESS :: ret_code where "SUCCESS \<equiv> Code 0"
abbreviation (input) ERROR_FLAG :: ret_code where "ERROR_FLAG \<equiv> Code 2"
abbreviation (input) UNINSTANTIATED :: u32 where "UNINSTANTIATED \<equiv> 0"
abbreviation (input) INSTANTIATED :: u32 where "INSTANTIATED \<equiv> 1"
abbreviation (input) ERROR_STATE :: u32 where "ERROR_STATE \<equiv> 2"
abbreviation (input) REQUEST_MAX :: u32 where "REQUEST_MAX \<equiv> 1000000"

record HASH_DRBG_CTX =
  reseed_interval :: u32
  reseed_count :: u32
  drbg_V :: "byte list"
  drbg_C :: "byte list"
  comp_block :: "byte list"
  reseeds :: u32
  generates :: u32
  drbg_state :: u32

definition initial_instance :: HASH_DRBG_CTX where
  "initial_instance = \<lparr>reseed_interval = 0, reseed_count = 0, drbg_V = replicate 55 0, drbg_C = replicate 55 0,
     comp_block = replicate 32 0, reseeds = 0, generates = 0, drbg_state = UNINSTANTIATED\<rparr>"

section \<open>Addition\<close>

text \<open>The loop from the last byte to the first; \<open>i\<close> counts the bytes still to be added, \<open>c\<close> is the carry.\<close>

primrec add_loop :: "byte list \<Rightarrow> nat \<Rightarrow> byte list \<Rightarrow> nat \<Rightarrow> byte list" where
  "add_loop Y 0 X c = X"
| "add_loop Y (Suc i) X c =
     (let y_offset = int (length X) - int (length Y);
          sum = (if int i - y_offset \<ge> 0 then unat (X ! i) + unat (Y ! nat (int i - y_offset)) + c else unat (X ! i) + c)
      in if sum > 255 then add_loop Y i (X[i := of_nat (sum mod 256)]) 1 else add_loop Y i (X[i := of_nat sum]) 0)"

definition byte_add :: "byte list \<Rightarrow> byte list \<Rightarrow> byte list" where
  "byte_add X Y = add_loop Y (length X) X 0"

section \<open>Derivation and generation\<close>

definition u32_bytes :: "u32 \<Rightarrow> byte list" where
  "u32_bytes n = [ucast (drop_bit 24 n AND 0xff), ucast (drop_bit 16 n AND 0xff), ucast (drop_bit 8 n AND 0xff), ucast (n AND 0xff)]"

partial_function (option) df_loop :: "byte list \<Rightarrow> byte list \<Rightarrow> u32 \<Rightarrow> nat \<Rightarrow> u32 \<Rightarrow> byte \<Rightarrow> nat \<Rightarrow> byte list \<Rightarrow> byte list option" where
  "df_loop num_bytes inp in_len len out_len counter off out =
     (if unat counter \<le> len \<and> counter \<noteq> 0 then do {
        c \<leftarrow> sha256_update (sha256_init blank_ctx) (Some [counter]) 1;
        c \<leftarrow> sha256_update c (Some num_bytes) 4;
        c \<leftarrow> sha256_update c (Some inp) in_len;
        (c, h) \<leftarrow> sha256_finalize c;
        if unat counter \<noteq> len \<or> out_len mod 32 = 0 then do {
          out \<leftarrow> poke out off h;
          df_loop num_bytes inp in_len len out_len (counter + 1) (off + 32) out }
        else do {
          out \<leftarrow> poke out off (take (unat (out_len mod 32)) h);
          df_loop num_bytes inp in_len len out_len (counter + 1) off out } }
      else Some out)"

definition hash_df :: "byte list \<Rightarrow> u32 \<Rightarrow> byte list \<Rightarrow> u32 \<Rightarrow> (ret_code \<times> byte list) option" where
  "hash_df inp in_len out out_len =
     (if out_len > 255 * 32 then Some (ERROR_FLAG, out)
      else do {
        out \<leftarrow> df_loop (u32_bytes (out_len * 8)) inp in_len (unat ((out_len + 31) div 32)) out_len 1 0 out;
        Some (SUCCESS, out) })"

text \<open>\<open>k\<close> blocks are still to be generated; the block is compared with the last one before it is used.\<close>

primrec gen_loop :: "bool \<Rightarrow> u32 \<Rightarrow> nat \<Rightarrow> byte list \<Rightarrow> nat \<Rightarrow> byte list \<Rightarrow> byte list \<Rightarrow> (ret_code \<times> byte list \<times> byte list) option" where
  "gen_loop sev out_len 0 d off out cmp = Some (SUCCESS, out, cmp)"
| "gen_loop sev out_len (Suc k) d off out cmp = do {
     h \<leftarrow> sha256 blank_ctx (Some d) 55;
     if h = cmp then Some (if sev then Exited else ERROR_FLAG, out, cmp)
     else if k \<noteq> 0 \<or> out_len mod 32 = 0 then do {
       out \<leftarrow> poke out off h;
       gen_loop sev out_len k (byte_add d [1]) (off + 32) out h }
     else do {
       out \<leftarrow> poke out off (take (unat (out_len mod 32)) h);
       gen_loop sev out_len k (byte_add d [1]) off out h } }"

definition hash_gen :: "bool \<Rightarrow> byte list \<Rightarrow> u32 \<Rightarrow> HASH_DRBG_CTX \<Rightarrow> (ret_code \<times> byte list \<times> HASH_DRBG_CTX) option" where
  "hash_gen sev out out_len g =
     (if out_len > REQUEST_MAX then Some (ERROR_FLAG, out, g)
      else do {
        (r, out, cmp) \<leftarrow> gen_loop sev out_len (unat ((out_len + 31) div 32)) (drbg_V g) 0 out (comp_block g);
        Some (r, out, g\<lparr>comp_block := cmp\<rparr>) })"

section \<open>Algorithms\<close>

text \<open>The bytes copied to the start of a local buffer of \<open>n\<close> bytes.\<close>

definition fill_tmp :: "nat \<Rightarrow> byte list \<Rightarrow> byte list option" where
  "fill_tmp n bs = (if length bs \<le> n then Some bs else None)"

text \<open>The value of \<open>C\<close> from that of \<open>V\<close>, in the same way after instantiation and reseeding.\<close>

definition derive_C :: "ret_code \<Rightarrow> HASH_DRBG_CTX \<Rightarrow> (ret_code \<times> HASH_DRBG_CTX) option" where
  "derive_C r g = (if r = SUCCESS then do {
       tmp \<leftarrow> fill_tmp 3000 ([0] @ drbg_V g);
       (r, c) \<leftarrow> hash_df tmp (1 + 55) (drbg_C g) 55;
       Some (r, g\<lparr>drbg_C := c\<rparr>) }
     else Some (r, g))"

definition hash_drbg_instantiate_alg ::
    "buffer \<Rightarrow> u32 \<Rightarrow> buffer \<Rightarrow> u32 \<Rightarrow> buffer \<Rightarrow> u32 \<Rightarrow> u32 \<Rightarrow> HASH_DRBG_CTX \<Rightarrow> (ret_code \<times> HASH_DRBG_CTX \<times> buffer \<times> buffer) option" where
  "hash_drbg_instantiate_alg pers_str pers_str_len entropy entropy_len nonce nonce_len interval g =
     (let g = g\<lparr>drbg_state := ERROR_STATE, reseed_interval := interval, reseed_count := 1\<rparr> in
      if pers_str_len > 1000 \<or> entropy_len > 1000 \<or> nonce_len > 1000 then Some (ERROR_FLAG, g, entropy, nonce)
      else do {
        e \<leftarrow> read_bytes entropy (unat entropy_len);
        n \<leftarrow> read_bytes nonce (unat nonce_len);
        p \<leftarrow> read_bytes pers_str (unat pers_str_len);
        tmp \<leftarrow> fill_tmp 3000 (e @ n @ p);
        (r, v) \<leftarrow> hash_df tmp (entropy_len + nonce_len + pers_str_len) (drbg_V g) 55;
        (r, g) \<leftarrow> derive_C r (g\<lparr>drbg_V := v\<rparr>);
        entropy \<leftarrow> write_bytes entropy (replicate (unat entropy_len) 0);
        nonce \<leftarrow> write_bytes nonce (replicate (unat nonce_len) 0);
        Some (r, g\<lparr>comp_block := replicate 32 0, reseeds := 0, generates := 0, drbg_state := INSTANTIATED\<rparr>, entropy, nonce) })"

definition hash_drbg_reseed_alg ::
    "buffer \<Rightarrow> u32 \<Rightarrow> buffer \<Rightarrow> u32 \<Rightarrow> HASH_DRBG_CTX \<Rightarrow> (ret_code \<times> HASH_DRBG_CTX \<times> buffer) option" where
  "hash_drbg_reseed_alg add_input add_input_len entropy entropy_len g =
     (if drbg_state g \<noteq> INSTANTIATED then Some (ERROR_FLAG, g, entropy)
      else if add_input_len > 1000 \<or> entropy_len > 1000 then Some (ERROR_FLAG, g, entropy)
      else do {
        e \<leftarrow> read_bytes entropy (unat entropy_len);
        a \<leftarrow> read_bytes add_input (unat add_input_len);
        tmp \<leftarrow> fill_tmp 3000 ([1] @ drbg_V g @ e @ a);
        (r, v) \<leftarrow> hash_df tmp (1 + 55 + entropy_len + add_input_len) (drbg_V g) 55;
        (r, g) \<leftarrow> derive_C r (g\<lparr>drbg_V := v\<rparr>);
        entropy \<leftarrow> write_bytes entropy (replicate (unat entropy_len) 0);
        Some (r, g\<lparr>reseed_count := 1, reseeds := reseeds g + 1\<rparr>, entropy) })"

text \<open>The update of \<open>V\<close> after the data has been generated.\<close>

definition update_V :: "HASH_DRBG_CTX \<Rightarrow> HASH_DRBG_CTX option" where
  "update_V g = do {
     tmp \<leftarrow> fill_tmp 1000 ([3] @ drbg_V g);
     h \<leftarrow> sha256 blank_ctx (Some tmp) (1 + 55);
     Some (g\<lparr>drbg_V := byte_add (byte_add (byte_add (drbg_V g) (drbg_C g)) h) (u32_bytes (reseed_count g)),
       reseed_count := reseed_count g + 1\<rparr>) }"

definition hash_drbg_generate_alg ::
    "bool \<Rightarrow> buffer \<Rightarrow> u32 \<Rightarrow> byte list \<Rightarrow> u32 \<Rightarrow> HASH_DRBG_CTX \<Rightarrow> (ret_code \<times> byte list \<times> HASH_DRBG_CTX) option" where
  "hash_drbg_generate_alg sev add_input add_input_len out out_len g =
     (if drbg_state g \<noteq> INSTANTIATED then Some (ERROR_FLAG, out, g)
      else if out_len > REQUEST_MAX then Some (ERROR_FLAG, out, g)
      else if add_input_len > 1000 then Some (ERROR_FLAG, out, g)
      else do {
        g \<leftarrow> (if add_input_len > 0 then do {
               a \<leftarrow> read_bytes add_input (unat add_input_len);
               tmp \<leftarrow> fill_tmp 1000 ([2] @ drbg_V g @ a);
               w \<leftarrow> sha256 blank_ctx (Some tmp) (1 + 55 + add_input_len);
               Some (g\<lparr>drbg_V := byte_add (drbg_V g) w\<rparr>) }
             else Some g);
        (r, out, g) \<leftarrow> hash_gen sev out out_len g;
        g \<leftarrow> (if r = SUCCESS then update_V g else Some g);
        Some (r, out, g\<lparr>generates := generates g + 1\<rparr>) })"

definition hash_drbg_uninstantiate :: "HASH_DRBG_CTX \<Rightarrow> ret_code \<times> HASH_DRBG_CTX" where
  "hash_drbg_uninstantiate g =
     (if drbg_state g = UNINSTANTIATED then (ERROR_FLAG, g)
      else (SUCCESS, g\<lparr>drbg_V := replicate 55 0, drbg_C := replicate 55 0, drbg_state := UNINSTANTIATED\<rparr>))"

section \<open>Addition of big-endian numbers\<close>

lemma length_add_loop [simp]: "length (add_loop Y i X c) = length X"
  by (induction i arbitrary: X c) (simp_all add: Let_def)

lemma length_byte_add [simp]: "length (byte_add X Y) = length X"
  by (simp add: byte_add_def)

lemma add_loop_rest: "drop i (add_loop Y i X c) = drop i X"
proof (induction i arbitrary: X c)
  case (Suc i)
  have "drop (Suc i) (add_loop Y i (X[i := s]) c') = drop (Suc i) X" for s c'
    using arg_cong [OF Suc.IH [of "X[i := s]" c'], of "drop 1"] by simp
  then show ?case by (simp add: Let_def)
qed simp

text \<open>The step of the loop: the byte stored and the carry, for the sum of two bytes and a carry.\<close>

lemma add_loop_Suc:
  assumes "i < length X"
  shows "add_loop Y (Suc i) X c = (let s = unat (X ! i) + (if length X \<le> i + length Y then unat (Y ! (i + length Y - length X)) else 0) + c
    in add_loop Y i (X[i := of_nat s]) (if s > 255 then 1 else 0))"
proof -
  have m: "of_nat (s mod 256) = (of_nat s :: byte)" for s
    by (simp add: word_of_nat_eq_iff take_bit_eq_mod)
  have n: "nat (int i - (int (length X) - int (length Y))) = i + length Y - length X" by simp
  show ?thesis by (simp add: Let_def m n)
qed

lemma add_loop_decode:
  assumes "i \<le> length X" and "c \<le> 1"
  shows "be_decode (take i (add_loop Y i X c)) = (be_decode (take i X) + be_decode (take (i + length Y - length X) Y) + c) mod 256 ^ i"
  using assms
proof (induction i arbitrary: X c)
  case (Suc i)
  let ?y = "if length X \<le> i + length Y then unat (Y ! (i + length Y - length X)) else 0"
  let ?s = "unat (X ! i) + ?y + c"
  let ?c = "if ?s > 255 then 1 else 0 :: nat"
  let ?R = "add_loop Y i (X[i := of_nat ?s]) ?c"
  have i: "i < length X" using Suc.prems by simp
  have b: "unat (w :: byte) < 256" for w using unat_less_2p [of w] by simp
  have p: "256 * (a mod 256 ^ i) + r mod 256 = (256 * a + r mod 256) mod 256 ^ Suc i" for a r :: nat by (simp add: mod_mult2_eq)
  have q: "t < 512 \<Longrightarrow> t = 256 * (if t > 255 then 1 else 0) + t mod 256" for t :: nat
    by (cases "t < 256") (simp_all add: le_mod_geq)
  have "?s < 512" using b [of "X ! i"] b [of "Y ! (i + length Y - length X)"] Suc.prems(2) by auto
  then have s: "?s = 256 * ?c + ?s mod 256" by (rule q)
  have y: "be_decode (take (Suc i + length Y - length X) Y) = 256 * be_decode (take (i + length Y - length X) Y) + ?y"
  proof (cases "length X \<le> i + length Y")
    case True
    then have "i + length Y - length X < length Y" "Suc i + length Y - length X = Suc (i + length Y - length X)" using i by auto
    with True show ?thesis by (simp add: take_Suc_conv_app_nth)
  qed simp
  have r: "?R ! i = of_nat ?s"
    using arg_cong [OF add_loop_rest [of i Y "X[i := of_nat ?s]" ?c], of hd] i by (simp add: hd_drop_conv_nth)
  have "be_decode (take (Suc i) ?R) = 256 * be_decode (take i ?R) + ?s mod 256"
    using i by (simp add: take_Suc_conv_app_nth r unat_of_nat take_bit_eq_mod del: of_nat_add)
  also have "\<dots> = 256 * ((be_decode (take i X) + be_decode (take (i + length Y - length X) Y) + ?c) mod 256 ^ i) + ?s mod 256"
    using Suc.IH [of "X[i := of_nat ?s]" ?c] i by simp
  also have "\<dots> = (256 * (be_decode (take i X) + be_decode (take (i + length Y - length X) Y) + ?c) + ?s mod 256) mod 256 ^ Suc i"
    by (rule p)
  also have "256 * (be_decode (take i X) + be_decode (take (i + length Y - length X) Y) + ?c) + ?s mod 256
    = be_decode (take (Suc i) X) + be_decode (take (Suc i + length Y - length X) Y) + c"
    using s i unfolding y by (simp add: take_Suc_conv_app_nth)
  finally show ?case using add_loop_Suc [OF i, of Y c] by (simp add: Let_def)
qed simp

lemma byte_add_decode: "be_decode (byte_add X Y) = (be_decode X + be_decode Y) mod 256 ^ length X"
  using add_loop_decode [of "length X" X 0 Y] by (simp add: byte_add_def)

lemma byte_add_encode: "byte_add X Y = be_encode (length X) ((be_decode X + be_decode Y) mod 256 ^ length X)"
  using be_encode_decode [of "byte_add X Y"] by (simp add: byte_add_decode)

section \<open>The standard\<close>

text \<open>
  \<open>Hash_df\<close>, \<open>Hashgen\<close> and the updates of the working state of SP 800-90A (10.3.1, 10.1.1), on numbers
  modulo \<open>2 ^ 440\<close>. A state is \<open>V\<close>, \<open>C\<close> and the reseed counter.
\<close>

type_synonym sp_state = "byte list \<times> byte list \<times> nat"

definition sp_hash_df :: "byte list \<Rightarrow> nat \<Rightarrow> byte list" where
  "sp_hash_df m n = take n (concat (map (\<lambda>i. fips_sha256 (of_nat i # be_encode 4 (8 * n) @ m)) [1..<Suc ((n + 31) div 32)]))"

definition sp_add :: "byte list \<Rightarrow> nat \<Rightarrow> byte list" where
  "sp_add V x = be_encode 55 ((be_decode V + x) mod 2 ^ 440)"

definition sp_blocks :: "byte list \<Rightarrow> nat \<Rightarrow> byte list list" where
  "sp_blocks V n = map (\<lambda>i. fips_sha256 (sp_add V i)) [0..<(n + 31) div 32]"

definition sp_seed :: "byte list \<Rightarrow> sp_state" where
  "sp_seed m = (let V = sp_hash_df m 55 in (V, sp_hash_df (0 # V) 55, 1))"

definition sp_reseed :: "sp_state \<Rightarrow> byte list \<Rightarrow> byte list \<Rightarrow> sp_state" where
  "sp_reseed = (\<lambda>(V, C, n) entropy add. sp_seed (1 # V @ entropy @ add))"

definition sp_mix :: "sp_state \<Rightarrow> byte list \<Rightarrow> byte list" where
  "sp_mix = (\<lambda>(V, C, n) add. if add = [] then V else sp_add V (be_decode (fips_sha256 (2 # V @ add))))"

definition sp_generate :: "sp_state \<Rightarrow> byte list \<Rightarrow> nat \<Rightarrow> byte list \<times> sp_state" where
  "sp_generate = (\<lambda>(V, C, c) add n.
     let V = sp_mix (V, C, c) add
     in (take n (concat (sp_blocks V n)), sp_add V (be_decode (fips_sha256 (3 # V)) + be_decode C + c), C, c + 1))"

definition working_state :: "HASH_DRBG_CTX \<Rightarrow> sp_state" where
  "working_state g = (drbg_V g, drbg_C g, unat (reseed_count g))"

lemma length_sp [simp]: "length (sp_add V x) = 55" "length (sp_hash_df m n) = n"
proof -
  have "length (concat (map (\<lambda>i. fips_sha256 (f i)) [1..<Suc k])) = 32 * k" for f k by (induction k) simp_all
  then show "length (sp_hash_df m n) = n" by (simp add: sp_hash_df_def)
qed (simp add: sp_add_def)

lemma decode_sp_add: "be_decode (sp_add V x) = (be_decode V + x) mod 2 ^ 440"
proof -
  have "(be_decode V + x) mod 2 ^ 440 < 256 ^ 55" by simp
  from le_decode_encode [OF this] show ?thesis by (simp add: sp_add_def be_encode_def be_decode_def)
qed

lemma byte_add_sp: "length V = 55 \<Longrightarrow> byte_add V Y = sp_add V (be_decode Y)"
  by (simp add: byte_add_encode sp_add_def)

lemma sp_add_add: "sp_add (sp_add V x) y = sp_add V (x + y)"
  by (simp add: sp_add_def [of "sp_add V x"] decode_sp_add mod_add_left_eq) (simp add: sp_add_def add.assoc)

lemma sp_add_0: "length V = 55 \<Longrightarrow> sp_add V 0 = V"
  using be_encode_decode [of V] be_decode_less [of V] by (simp add: sp_add_def)

lemma u32_bytes_be: "u32_bytes n = be_encode 4 (unat n)"
  by (simp add: u32_bytes_def word_bytes_be)

section \<open>The output buffer\<close>

lemma poke_block:
  assumes "length h = 32" and "off + 32 \<le> n" and "n \<le> length out"
  shows "\<exists>out'. poke out off h = Some out' \<and> take (off + 32) out' = take off out @ h \<and> drop n out' = drop n out \<and> length out' = length out"
  using assms by (simp add: poke_def)

lemma poke_last:
  assumes "length h = 32" and "off < n" and "n - off < 32" and "n \<le> length out"
  shows "poke out off (take (n - off) h) = Some (take off out @ take (n - off) h @ drop n out)"
  using assms by (simp add: poke_def)

lemma blocks_left:
  assumes "k = (n - off + 31) div 32" and "off \<le> n" and "32 dvd off"
  shows "k = 0 \<Longrightarrow> n = off" and "k = Suc 0 \<Longrightarrow> n mod 32 \<noteq> 0 \<Longrightarrow> off < n \<and> n - off < 32 \<and> n mod 32 = n - off"
    and "k = Suc j \<Longrightarrow> j \<noteq> 0 \<or> n mod 32 = 0 \<Longrightarrow> off + 32 \<le> n \<and> j = (n - (off + 32) + 31) div 32"
proof -
  obtain q where q: "off = 32 * q" using assms(3) by blast
  obtain d where d: "n = off + d" using assms(2) by (metis le_Suc_ex)
  have m: "n mod 32 = d mod 32" using q d by simp
  have k: "k = (d + 31) div 32" using assms(1) d by simp
  show "k = 0 \<Longrightarrow> n = off" using k d by simp
  show "k = Suc 0 \<Longrightarrow> n mod 32 \<noteq> 0 \<Longrightarrow> off < n \<and> n - off < 32 \<and> n mod 32 = n - off"
  proof -
    assume a: "k = Suc 0" "n mod 32 \<noteq> 0"
    have "d \<le> 32" using a(1) k by linarith
    moreover have "d \<noteq> 0" "d \<noteq> 32" using a(2) m by auto
    ultimately show ?thesis using m d by simp
  qed
  assume j: "k = Suc j" "j \<noteq> 0 \<or> n mod 32 = 0"
  have "32 \<le> d" using j k m by auto
  then show "off + 32 \<le> n \<and> j = (n - (off + 32) + 31) div 32" using j(1) k d by (simp add: le_div_geq)
qed


section \<open>Derivation\<close>

lemma sha256_three:
  assumes "unat len = length m" and "length nb = 4"
  shows "\<exists>c. do {
      c \<leftarrow> sha256_update (sha256_init blank_ctx) (Some [x]) 1;
      c \<leftarrow> sha256_update c (Some nb) 4;
      c \<leftarrow> sha256_update c (Some m) len;
      sha256_finalize c } = Some (c, fips_sha256 (x # nb @ m))"
proof -
  obtain c1 where 1: "sha256_update (sha256_init blank_ctx) (Some [x]) 1 = Some c1" "absorbed [x] c1"
    using sha256_update_absorbs [OF sha256_init_absorbs [OF blank_ctx_data], of 1 "[x]"] by auto
  obtain c2 where 2: "sha256_update c1 (Some nb) 4 = Some c2" "absorbed (x # nb) c2"
    using sha256_update_absorbs [OF 1(2), of 4 nb] assms(2) by auto
  obtain c3 where 3: "sha256_update c2 (Some m) len = Some c3" "absorbed (x # nb @ m) c3"
    using sha256_update_absorbs [OF 2(2), of len m] assms(1) by auto
  from sha256_finalize_fips [OF 3(2)] 1(1) 2(1) 3(1) show ?thesis by auto
qed

definition df_block :: "byte list \<Rightarrow> byte list \<Rightarrow> nat \<Rightarrow> byte list" where
  "df_block nb m = (\<lambda>i. fips_sha256 (of_nat i # nb @ m))"

lemma df_loop_step:
  assumes "unat in_len = length m" and "length nb = 4" and "unat counter \<le> len" and "counter \<noteq> 0"
  shows "df_loop nb m in_len len out_len counter off out = (let h = df_block nb m (unat counter) in
    if unat counter \<noteq> len \<or> out_len mod 32 = 0 then do {
      out \<leftarrow> poke out off h; df_loop nb m in_len len out_len (counter + 1) (off + 32) out }
    else do {
      out \<leftarrow> poke out off (take (unat (out_len mod 32)) h); df_loop nb m in_len len out_len (counter + 1) off out })"
  using sha256_three [OF assms(1,2), of counter] assms
  by (subst df_loop.simps) (auto simp: df_block_def split: bind_splits)

lemma df_loop_done: "\<not> (unat counter \<le> len \<and> counter \<noteq> 0) \<Longrightarrow> df_loop nb m in_len len out_len counter off out = Some out"
  by (subst df_loop.simps) auto

lemma df_counter:
  assumes "j + k = Suc len" and "len \<le> 255" and "0 < j"
  shows "unat (of_nat j :: byte) \<le> len \<and> (of_nat j :: byte) \<noteq> 0 \<longleftrightarrow> 0 < k" and "0 < k \<Longrightarrow> unat (of_nat j :: byte) = j"
proof -
  show u: "0 < k \<Longrightarrow> unat (of_nat j :: byte) = j" using assms by (simp add: unat_of_nat take_bit_nat_eq_self)
  show "unat (of_nat j :: byte) \<le> len \<and> (of_nat j :: byte) \<noteq> 0 \<longleftrightarrow> 0 < k"
  proof (cases "0 < k")
    case True
    then show ?thesis using u assms by (auto simp: unat_eq_zero [symmetric])
  next
    case False
    then have "j = Suc len" using assms by simp
    then show ?thesis using assms False by (cases "len = 255") (simp_all add: unat_of_nat take_bit_nat_eq_self del: of_nat_Suc)
  qed
qed

text \<open>\<open>k\<close> blocks are still to be derived.\<close>

lemma df_loop_fills:
  assumes "unat in_len = length m" and "length nb = 4" and "unat out_len \<le> length out" and "len \<le> 255"
    and "j + k = Suc len" and "0 < j" and "k = (unat out_len - off + 31) div 32" and "off \<le> unat out_len" and "32 dvd off"
  shows "df_loop nb m in_len len out_len (of_nat j) off out =
    Some (take off out @ take (unat out_len - off) (concat (map (df_block nb m) [j..<Suc len])) @ drop (unat out_len) out)"
  using assms(3,5-)
proof (induction k arbitrary: j off out)
  case 0
  then show ?case using df_counter(1) [OF 0(2) assms(4)] blocks_left(1) [OF 0(4-6)] by (simp add: df_loop_done)
next
  case (Suc k)
  let ?n = "unat out_len"
  let ?h = "df_block nb m j"
  note c = df_counter [OF Suc.prems(2) assms(4) Suc.prems(3)]
  have l: "length ?h = 32" by (simp add: df_block_def)
  have j: "j \<noteq> len \<longleftrightarrow> k \<noteq> 0" "[j..<Suc len] = j # [Suc j..<Suc len]" using Suc.prems(2) by (auto simp: upt_conv_Cons)
  have m: "out_len mod 32 = 0 \<longleftrightarrow> ?n mod 32 = 0" "unat (out_len mod 32) = ?n mod 32"
    by (simp_all add: unat_mod unat_eq_zero [symmetric])
  have s: "of_nat j + 1 = (of_nat (Suc j) :: byte)" by simp
  show ?case
  proof (cases "k \<noteq> 0 \<or> ?n mod 32 = 0")
    case True
    from blocks_left(3) [OF Suc.prems(4-6) refl True] have o: "off + 32 \<le> ?n" "k = (?n - (off + 32) + 31) div 32" by simp_all
    obtain out' where p: "poke out off ?h = Some out'" "take (off + 32) out' = take off out @ ?h" "drop ?n out' = drop ?n out" "length out' = length out"
      using poke_block [OF l o(1) Suc.prems(1)] by blast
    have "df_loop nb m in_len len out_len (of_nat (Suc j)) (off + 32) out' =
        Some (take (off + 32) out' @ take (?n - (off + 32)) (concat (map (df_block nb m) [Suc j..<Suc len])) @ drop ?n out')"
      by (rule Suc.IH) (use Suc.prems o p(4) in auto)
    with p True c j(1) o(1) show ?thesis
      by (simp add: df_loop_step [OF assms(1,2)] m(1) s l j(2) del: of_nat_Suc upt_Suc)
  next
    case False
    from blocks_left(2) [OF Suc.prems(4-6)] False have o: "off < ?n" "?n - off < 32" "?n mod 32 = ?n - off" by auto
    from False Suc.prems(2) have k: "k = 0" "j = len" by auto
    have d: "df_loop nb m in_len len out_len (of_nat len + 1) off x = Some x" for x
      using df_counter(1) [of "Suc len" k len] assms(4) k s by (intro df_loop_done) (auto simp: add.commute)
    from False c poke_last [OF l o(1,2) Suc.prems(1)] o k show ?thesis
      by (simp add: df_loop_step [OF assms(1,2)] m d del: upt_Suc) (use l k in \<open>simp\<close>)
  qed
qed

lemma hash_df_sp:
  assumes "unat in_len = length m" and "unat out_len \<le> length out" and "unat out_len \<le> 8160"
  shows "hash_df m in_len out out_len = Some (SUCCESS, sp_hash_df m (unat out_len) @ drop (unat out_len) out)"
proof -
  let ?n = "unat out_len"
  have u: "unat ((out_len + 31) div 32) = (?n + 31) div 32" using assms(3) by (simp add: unat_div unat_word_ariths)
  have b: "unat (out_len * 8) = 8 * ?n" using assms(3) by (simp add: unat_word_ariths)
  have f: "\<not> out_len > 255 * 32" using assms(3) by (simp add: word_less_nat_alt)
  have "df_loop (be_encode 4 (8 * ?n)) m in_len ((?n + 31) div 32) out_len (of_nat 1) 0 out =
      Some (take 0 out @ take (?n - 0) (concat (map (df_block (be_encode 4 (8 * ?n)) m) [1..<Suc ((?n + 31) div 32)])) @ drop ?n out)"
    by (rule df_loop_fills [where k = "(?n + 31) div 32"]) (use assms in auto)
  then show ?thesis using f by (simp add: hash_df_def u b u32_bytes_be sp_hash_df_def df_block_def del: upt_Suc)
qed


section \<open>Generation\<close>

lemma sha256_blank [simp]: "unat len \<le> length m \<Longrightarrow> sha256 blank_ctx (Some m) len = Some (fips_sha256 (take (unat len) m))"
  by (simp add: sha256_fips)

lemma gen_loop_Suc:
  "gen_loop sev out_len (Suc k) (sp_add V i) off out cmp = (let h = fips_sha256 (sp_add V i) in
     if h = cmp then Some (if sev then Exited else ERROR_FLAG, out, cmp)
     else do {
       out' \<leftarrow> poke out off (if k \<noteq> 0 \<or> unat out_len mod 32 = 0 then h else take (unat out_len mod 32) h);
       gen_loop sev out_len k (sp_add V (Suc i)) (if k \<noteq> 0 \<or> unat out_len mod 32 = 0 then off + 32 else off) out' h })"
proof -
  have "out_len mod 32 = 0 \<longleftrightarrow> unat out_len mod 32 = 0" "unat (out_len mod 32) = unat out_len mod 32"
    by (simp_all add: unat_mod unat_eq_zero [symmetric])
  moreover have "byte_add (sp_add V i) [1] = sp_add V (Suc i)"
    using be_decode_snoc(2) [of "[]" 1] by (simp add: byte_add_sp sp_add_add)
  ultimately show ?thesis by (simp add: Let_def)
qed

text \<open>The result of the loop: the blocks, if no block equals the one before it.\<close>

definition generated :: "bool \<Rightarrow> byte list list \<Rightarrow> nat \<Rightarrow> nat \<Rightarrow> byte list \<Rightarrow> byte list \<Rightarrow> ret_code \<times> byte list \<times> byte list \<Rightarrow> bool" where
  "generated sev bs n off out cmp = (\<lambda>(r, out', cmp'). length out' = length out \<and> drop n out' = drop n out \<and> length cmp' = 32 \<and>
     (if successively (\<noteq>) (cmp # bs)
      then r = SUCCESS \<and> out' = take off out @ take (n - off) (concat bs) @ drop n out \<and> cmp' = last (cmp # bs)
      else r = (if sev then Exited else ERROR_FLAG)))"

lemma generated_block:
  assumes "generated sev bs n (off + 32) out' h x" and "take (off + 32) out' = take off out @ h" and "drop n out' = drop n out"
    and "length out' = length out" and "length h = 32" and "off + 32 \<le> n" and "h \<noteq> cmp"
  shows "generated sev (h # bs) n off out cmp x"
proof -
  obtain r o1 c where x: "x = (r, o1, c)" by (cases x)
  have "take (n - off) (h @ concat bs) = h @ take (n - (off + 32)) (concat bs)" using assms(5,6) by simp
  then show ?thesis using assms(1-4,7) unfolding x by (simp add: generated_def not_sym [OF assms(7)])
qed

lemma gen_loop_generated:
  assumes "unat out_len \<le> length out" and "length cmp = 32" and "k = (unat out_len - off + 31) div 32" and "off \<le> unat out_len" and "32 dvd off"
  shows "\<exists>x. gen_loop sev out_len k (sp_add V i) off out cmp = Some x \<and>
    generated sev (map (\<lambda>j. fips_sha256 (sp_add V j)) [i..<i + k]) (unat out_len) off out cmp x"
  using assms
proof (induction k arbitrary: i off out cmp)
  case 0
  then show ?case using blocks_left(1) [OF 0(3-5)] by (simp add: generated_def)
next
  case (Suc k)
  let ?n = "unat out_len"
  let ?h = "fips_sha256 (sp_add V i)"
  let ?bs = "map (\<lambda>j. fips_sha256 (sp_add V j)) [Suc i..<Suc i + k]"
  have i: "[i..<i + Suc k] = i # [Suc i..<Suc i + k]" by (simp add: upt_conv_Cons del: upt_Suc)
  show ?case
  proof (cases "?h = cmp")
    case True
    then show ?thesis using Suc.prems(2) unfolding gen_loop_Suc i by (simp add: generated_def Let_def)
  next
    case h: False
    show ?thesis
    proof (cases "k \<noteq> 0 \<or> ?n mod 32 = 0")
      case True
      from blocks_left(3) [OF Suc.prems(3-5) refl True] have o: "off + 32 \<le> ?n" "k = (?n - (off + 32) + 31) div 32" by simp_all
      obtain out' where p: "poke out off ?h = Some out'" "take (off + 32) out' = take off out @ ?h" "drop ?n out' = drop ?n out" "length out' = length out"
        using poke_block [OF length_fips_sha256 o(1) Suc.prems(1)] by blast
      have "\<exists>x. gen_loop sev out_len k (sp_add V (Suc i)) (off + 32) out' ?h = Some x \<and> generated sev ?bs ?n (off + 32) out' ?h x"
        by (rule Suc.IH) (use Suc.prems o p(4) in auto)
      then obtain x where x: "gen_loop sev out_len k (sp_add V (Suc i)) (off + 32) out' ?h = Some x" "generated sev ?bs ?n (off + 32) out' ?h x" by blast
      have "generated sev (?h # ?bs) ?n off out cmp x"
        using generated_block [OF x(2) p(2-) length_fips_sha256 o(1) h] .
      then show ?thesis using x(1) p(1) h True unfolding gen_loop_Suc i by (simp add: Let_def)
    next
      case False
      from blocks_left(2) [OF Suc.prems(3-5)] False have o: "off < ?n" "?n - off < 32" "?n mod 32 = ?n - off" by auto
      from poke_last [OF length_fips_sha256 o(1,2) Suc.prems(1)] h o False Suc.prems show ?thesis
        unfolding gen_loop_Suc i by (simp add: Let_def generated_def)
    qed
  qed
qed

lemma hash_gen_generated:
  assumes "unat out_len \<le> length out" and "out_len \<le> REQUEST_MAX" and "length (drbg_V g) = 55" and "length (comp_block g) = 32"
  shows "\<exists>r out' cmp. hash_gen sev out out_len g = Some (r, out', g\<lparr>comp_block := cmp\<rparr>) \<and>
    generated sev (sp_blocks (drbg_V g) (unat out_len)) (unat out_len) 0 out (comp_block g) (r, out', cmp)"
proof -
  let ?n = "unat out_len"
  have "?n \<le> 1000000" using assms(2) by (simp add: word_le_nat_alt)
  then have u: "unat ((out_len + 31) div 32) = (?n + 31) div 32" by (simp add: unat_div unat_word_ariths)
  have "\<exists>x. gen_loop sev out_len ((?n + 31) div 32) (sp_add (drbg_V g) 0) 0 out (comp_block g) = Some x \<and>
      generated sev (map (\<lambda>j. fips_sha256 (sp_add (drbg_V g) j)) [0..<0 + (?n + 31) div 32]) ?n 0 out (comp_block g) x"
    by (rule gen_loop_generated) (use assms in auto)
  then show ?thesis using assms(2) by (auto simp: hash_gen_def u sp_add_0 [OF assms(3)] sp_blocks_def)
qed


section \<open>The algorithms and the standard\<close>

definition instance_ok :: "HASH_DRBG_CTX \<Rightarrow> bool" where
  "instance_ok g \<longleftrightarrow> length (drbg_V g) = 55 \<and> length (drbg_C g) = 55 \<and> length (comp_block g) = 32"

lemma read_bytes_at_most: "read_bytes p (unat n) = Some bs \<Longrightarrow> \<not> (n :: u32) > 1000 \<Longrightarrow> length bs = unat n \<and> length bs \<le> 1000"
  by (auto dest: read_bytes_SomeD simp: word_less_nat_alt)

text \<open>A buffer that can be read can be cleared.\<close>

lemma write_zeros:
  assumes "read_bytes p n = Some bs"
  shows "\<exists>q. write_bytes p (replicate n 0) = Some q \<and> read_bytes q n = Some (replicate n 0)"
  using assms by (auto simp: read_bytes_def write_bytes_def split: if_splits option.splits)

lemma derive_C_sp:
  assumes "instance_ok g"
  shows "derive_C SUCCESS g = Some (SUCCESS, g\<lparr>drbg_C := sp_hash_df (0 # drbg_V g) 55\<rparr>)"
proof -
  have "hash_df (0 # drbg_V g) 56 (drbg_C g) 55 = Some (SUCCESS, sp_hash_df (0 # drbg_V g) 55)"
    using hash_df_sp [of 56 "0 # drbg_V g" 55 "drbg_C g"] assms by (simp add: instance_ok_def)
  then show ?thesis using assms by (simp add: derive_C_def fill_tmp_def instance_ok_def)
qed

lemma instantiate_alg_sp:
  assumes "instance_ok g" and "pers_str_len \<le> 1000" and "entropy_len \<le> 1000" and "nonce_len \<le> 1000"
    and "read_bytes pers_str (unat pers_str_len) = Some p" and "read_bytes entropy (unat entropy_len) = Some e"
    and "read_bytes nonce (unat nonce_len) = Some n"
  shows "\<exists>g' e' n'. hash_drbg_instantiate_alg pers_str pers_str_len entropy entropy_len nonce nonce_len interval g = Some (SUCCESS, g', e', n') \<and>
    working_state g' = sp_seed (e @ n @ p) \<and> instance_ok g' \<and> drbg_state g' = INSTANTIATED \<and> reseed_interval g' = interval \<and>
    read_bytes e' (unat entropy_len) = Some (replicate (unat entropy_len) 0) \<and> read_bytes n' (unat nonce_len) = Some (replicate (unat nonce_len) 0)"
proof -
  have f: "\<not> pers_str_len > 1000" "\<not> entropy_len > 1000" "\<not> nonce_len > 1000" using assms(2-4) by auto
  note l = read_bytes_at_most [OF assms(5) f(1)] read_bytes_at_most [OF assms(6) f(2)] read_bytes_at_most [OF assms(7) f(3)]
  have u: "unat (entropy_len + nonce_len + pers_str_len) = length (e @ n @ p)" using l by (simp add: unat_word_ariths)
  define V where "V = sp_hash_df (e @ n @ p) 55"
  have v: "hash_df (e @ n @ p) (entropy_len + nonce_len + pers_str_len) (drbg_V g) 55 = Some (SUCCESS, V)"
    using hash_df_sp [OF u, of 55 "drbg_V g"] assms(1) by (simp add: instance_ok_def V_def)
  let ?g = "g\<lparr>drbg_state := ERROR_STATE, reseed_interval := interval, reseed_count := 1, drbg_V := V\<rparr>"
  have "instance_ok ?g" using assms(1) by (simp add: instance_ok_def V_def)
  note c = derive_C_sp [OF this]
  obtain e' n' where w: "write_bytes entropy (replicate (unat entropy_len) 0) = Some e'" "read_bytes e' (unat entropy_len) = Some (replicate (unat entropy_len) 0)"
    "write_bytes nonce (replicate (unat nonce_len) 0) = Some n'" "read_bytes n' (unat nonce_len) = Some (replicate (unat nonce_len) 0)"
    using write_zeros [OF assms(6)] write_zeros [OF assms(7)] by auto
  have t: "fill_tmp 3000 (e @ n @ p) = Some (e @ n @ p)" using l by (simp add: fill_tmp_def)
  have s: "sp_seed (e @ n @ p) = (V, sp_hash_df (0 # V) 55, 1)" by (simp add: sp_seed_def V_def Let_def)
  show ?thesis unfolding hash_drbg_instantiate_alg_def Let_def using assms(5-7) f t v c w s
    by (simp add: working_state_def instance_ok_def V_def [symmetric]) (simp add: V_def)
qed

lemma reseed_alg_sp:
  assumes "instance_ok g" and "drbg_state g = INSTANTIATED" and "add_input_len \<le> 1000" and "entropy_len \<le> 1000"
    and "read_bytes add_input (unat add_input_len) = Some a" and "read_bytes entropy (unat entropy_len) = Some e"
  shows "\<exists>g' e'. hash_drbg_reseed_alg add_input add_input_len entropy entropy_len g = Some (SUCCESS, g', e') \<and>
    working_state g' = sp_reseed (working_state g) e a \<and> instance_ok g' \<and> drbg_state g' = INSTANTIATED \<and> reseed_interval g' = reseed_interval g \<and>
    reseeds g' = reseeds g + 1 \<and> comp_block g' = comp_block g \<and> read_bytes e' (unat entropy_len) = Some (replicate (unat entropy_len) 0)"
proof -
  have f: "\<not> add_input_len > 1000" "\<not> entropy_len > 1000" using assms(3,4) by auto
  note l = read_bytes_at_most [OF assms(5) f(1)] read_bytes_at_most [OF assms(6) f(2)]
  let ?m = "1 # drbg_V g @ e @ a"
  have u: "unat (56 + entropy_len + add_input_len) = length ?m"
    using l assms(1) by (simp add: unat_word_ariths instance_ok_def)
  define V where "V = sp_hash_df ?m 55"
  have v: "hash_df ?m (56 + entropy_len + add_input_len) (drbg_V g) 55 = Some (SUCCESS, V)"
    using hash_df_sp [OF u, of 55 "drbg_V g"] assms(1) by (simp add: instance_ok_def V_def)
  have "instance_ok (g\<lparr>drbg_V := V\<rparr>)" using assms(1) by (simp add: instance_ok_def V_def)
  note c = derive_C_sp [OF this]
  obtain e' where w: "write_bytes entropy (replicate (unat entropy_len) 0) = Some e'" "read_bytes e' (unat entropy_len) = Some (replicate (unat entropy_len) 0)"
    using write_zeros [OF assms(6)] by auto
  have t: "fill_tmp 3000 ?m = Some ?m" using l assms(1) by (simp add: fill_tmp_def instance_ok_def)
  have s: "sp_reseed (working_state g) e a = (V, sp_hash_df (0 # V) 55, 1)" by (simp add: sp_reseed_def sp_seed_def working_state_def V_def Let_def)
  show ?thesis unfolding hash_drbg_reseed_alg_def using assms(1,2,5,6) f t v c w s
    by (simp add: working_state_def instance_ok_def V_def [symmetric]) (simp add: V_def)
qed

lemma mix_input_sp:
  assumes "instance_ok g" and "unat add_input_len \<le> 944" and "read_bytes add_input (unat add_input_len) = Some a"
  shows "(if add_input_len > 0 then do {
       a \<leftarrow> read_bytes add_input (unat add_input_len);
       tmp \<leftarrow> fill_tmp 1000 ([2] @ drbg_V g @ a);
       w \<leftarrow> sha256 blank_ctx (Some tmp) (1 + 55 + add_input_len);
       Some (g\<lparr>drbg_V := byte_add (drbg_V g) w\<rparr>) }
     else Some g) = Some (g\<lparr>drbg_V := sp_mix (working_state g) a\<rparr>)"
proof (cases "add_input_len > 0")
  case True
  have l: "length a = unat add_input_len" using read_bytes_SomeD [OF assms(3)] .
  then have "a \<noteq> []" using True by (auto simp: word_greater_zero_iff unat_eq_zero)
  moreover have "unat (56 + add_input_len) = length (2 # drbg_V g @ a)" using assms l by (simp add: unat_word_ariths instance_ok_def)
  ultimately show ?thesis using True assms l
    by (simp add: fill_tmp_def instance_ok_def byte_add_sp sp_mix_def working_state_def)
next
  case False
  then have "add_input_len = 0" by (simp add: word_greater_zero_iff)
  then show ?thesis using assms(3) by (simp add: read_bytes_def sp_mix_def working_state_def)
qed

lemma update_V_sp:
  assumes "instance_ok g"
  shows "update_V g = Some (g\<lparr>drbg_V := sp_add (drbg_V g) (be_decode (fips_sha256 (3 # drbg_V g)) + be_decode (drbg_C g) + unat (reseed_count g)),
    reseed_count := reseed_count g + 1\<rparr>)"
proof -
  have d: "be_decode (be_encode 4 (unat (reseed_count g))) = unat (reseed_count g)"
    by (simp add: be_decode_def be_encode_def le_decode_encode)
  have h: "sha256 blank_ctx (Some (3 # drbg_V g)) 56 = Some (fips_sha256 (3 # drbg_V g))" using assms by (simp add: instance_ok_def)
  show ?thesis using assms h
    by (simp add: update_V_def fill_tmp_def instance_ok_def byte_add_sp sp_add_add u32_bytes_be d add.commute [of "be_decode (drbg_C g)"])
qed

lemma length_sp_mix [simp]: "length V = 55 \<Longrightarrow> length (sp_mix (V, C, c) a) = 55"
  by (simp add: sp_mix_def)

text \<open>What a call of the generate algorithm promises, for the blocks that the standard prescribes.\<close>

definition generate_outcome :: "bool \<Rightarrow> HASH_DRBG_CTX \<Rightarrow> byte list \<Rightarrow> nat \<Rightarrow> byte list \<Rightarrow> ret_code \<Rightarrow> byte list \<Rightarrow> HASH_DRBG_CTX \<Rightarrow> bool" where
  "generate_outcome sev g a n out r out' g' =
     (let V = sp_mix (working_state g) a; blocks = sp_blocks V n; (bytes, after) = sp_generate (working_state g) a n
      in instance_ok g' \<and> drbg_state g' = INSTANTIATED \<and> reseed_interval g' = reseed_interval g \<and> generates g' = generates g + 1 \<and>
        length out' = length out \<and> drop n out' = drop n out \<and>
        (if successively (\<noteq>) (comp_block g # blocks)
         then r = SUCCESS \<and> take n out' = bytes \<and> working_state g' = after \<and> comp_block g' = last (comp_block g # blocks)
         else r = (if sev then Exited else ERROR_FLAG) \<and> working_state g' = (V, drbg_C g, unat (reseed_count g))))"

lemma length_sp_blocks: "n \<le> length (concat (sp_blocks V n))"
proof -
  have "length (concat (map (\<lambda>i. fips_sha256 (f i)) [0..<k])) = 32 * k" for f k by (induction k) simp_all
  then show ?thesis by (simp add: sp_blocks_def)
qed

lemma generate_alg_sp:
  assumes "instance_ok g" and "drbg_state g = INSTANTIATED" and "out_len \<le> REQUEST_MAX" and "unat out_len \<le> length out"
    and "unat add_input_len \<le> 944" and "read_bytes add_input (unat add_input_len) = Some a" and "reseed_count g < 0xFFFFFFFF"
  shows "\<exists>r out' g'. hash_drbg_generate_alg sev add_input add_input_len out out_len g = Some (r, out', g') \<and>
    generate_outcome sev g a (unat out_len) out r out' g'"
proof -
  let ?n = "unat out_len"
  define V where "V = sp_mix (working_state g) a"
  define G where "G = g\<lparr>drbg_V := V\<rparr>"
  have lv: "length V = 55" using assms(1) by (simp add: V_def working_state_def instance_ok_def)
  then have ok: "instance_ok G" using assms(1) by (simp add: instance_ok_def G_def)
  have f: "\<not> out_len > REQUEST_MAX" "\<not> add_input_len > 1000" using assms(3,5) by (auto simp: word_less_nat_alt word_le_nat_alt)
  obtain r out' cmp where h: "hash_gen sev out out_len G = Some (r, out', G\<lparr>comp_block := cmp\<rparr>)"
    "generated sev (sp_blocks V ?n) ?n 0 out (comp_block g) (r, out', cmp)"
    using hash_gen_generated [OF assms(4,3), of G sev] ok by (auto simp: instance_ok_def G_def)
  have c: "length cmp = 32" using h(2) by (simp add: generated_def)
  let ?G = "G\<lparr>comp_block := cmp\<rparr>"
  have okG: "instance_ok ?G" using ok c by (simp add: instance_ok_def)
  have n: "unat (reseed_count g + 1) = unat (reseed_count g) + 1" using assms(7) by (simp add: unat_word_ariths word_less_nat_alt)
  let ?U = "if r = SUCCESS then ?G\<lparr>drbg_V := sp_add V (be_decode (fips_sha256 (3 # V)) + be_decode (drbg_C g) + unat (reseed_count g)),
    reseed_count := reseed_count g + 1\<rparr> else ?G"
  have "(if r = SUCCESS then update_V ?G else Some ?G) = Some ?U" using update_V_sp [OF okG] by (simp add: G_def)
  with h(1) f assms(2) mix_input_sp [OF assms(1,5,6)] have
    e: "hash_drbg_generate_alg sev add_input add_input_len out out_len g = Some (r, out', ?U\<lparr>generates := generates ?U + 1\<rparr>)"
    unfolding hash_drbg_generate_alg_def V_def [symmetric] G_def [symmetric] by simp
  have "generate_outcome sev g a ?n out r out' (?U\<lparr>generates := generates ?U + 1\<rparr>)"
    unfolding generate_outcome_def sp_generate_def V_def [symmetric]
    using h(2) assms(1,2) c lv n assms(4) V_def length_sp_blocks [of ?n V] by (simp add: generated_def instance_ok_def G_def working_state_def Let_def)
  with e show ?thesis by blast
qed

section \<open>What every call keeps\<close>

lemma sha256_length: "sha256 u p len = Some h \<Longrightarrow> length h = 32"
proof -
  have "length (hash_bytes H) = 32" for H by (simp add: hash_bytes_def length_concat comp_def sum_list_triv)
  then show "sha256 u p len = Some h \<Longrightarrow> length h = 32"
    by (auto simp: sha256_def sha256_finalize_def Let_def split: bind_splits)
qed

lemma poke_length_eq: "poke b k v = Some b' \<Longrightarrow> length b' = length b"
  by (rule poke_SomeD)

lemma gen_loop_keeps:
  "gen_loop sev n k d off out cmp = Some (r, out', cmp') \<Longrightarrow> length cmp = 32 \<Longrightarrow> length cmp' = 32 \<and> length out' = length out"
proof (induction k arbitrary: d off out cmp)
  case (Suc k)
  obtain h where h: "sha256 blank_ctx (Some d) 55 = Some h" using Suc.prems(1) by (auto split: bind_splits)
  show ?case
  proof (cases "h = cmp")
    case True
    with h Suc.prems show ?thesis by simp
  next
    case False
    let ?full = "k \<noteq> 0 \<or> n mod 32 = 0"
    obtain o1 where o1: "poke out off (if ?full then h else take (unat (n mod 32)) h) = Some o1"
      "gen_loop sev n k (byte_add d [1]) (if ?full then off + 32 else off) o1 h = Some (r, out', cmp')"
      using Suc.prems(1) h False by (auto split: bind_splits if_splits)
    from Suc.IH [OF o1(2) sha256_length [OF h]] poke_length_eq [OF o1(1)] show ?thesis by simp
  qed
qed simp

lemma generate_alg_keeps:
  assumes "hash_drbg_generate_alg sev add_input add_input_len out out_len g = Some (r, out', g')" and "instance_ok g"
  shows "instance_ok g' \<and> drbg_state g' = drbg_state g \<and> reseed_interval g' = reseed_interval g \<and> length out' = length out \<and>
    (r = SUCCESS \<and> drbg_state g = INSTANTIATED \<and> reseed_count g' = reseed_count g + 1 \<or> r \<noteq> SUCCESS \<and> reseed_count g' = reseed_count g)"
proof (cases "drbg_state g \<noteq> INSTANTIATED \<or> out_len > REQUEST_MAX \<or> add_input_len > 1000")
  case True
  then show ?thesis using assms by (auto simp: hash_drbg_generate_alg_def split: if_splits)
next
  case False
  with assms(1) obtain V o1 g1 g2 where g: "hash_gen sev out out_len (g\<lparr>drbg_V := V\<rparr>) = Some (r, out', g1)" "length V = length (drbg_V g)"
    "(if r = SUCCESS then update_V g1 else Some g1) = Some g2" "g' = g2\<lparr>generates := generates g2 + 1\<rparr>"
    unfolding hash_drbg_generate_alg_def
    by (force split: bind_splits if_splits)
  obtain cmp where c: "g1 = g\<lparr>drbg_V := V, comp_block := cmp\<rparr>" "length cmp = 32" "length out' = length out"
    using g(1) False assms(2) gen_loop_keeps by (force simp: hash_gen_def instance_ok_def split: bind_splits)
  have ok: "instance_ok g1" using c assms(2) g(2) by (simp add: instance_ok_def)
  show ?thesis
  proof (cases "r = SUCCESS")
    case True
    with g(3) update_V_sp [OF ok] have "g2 = g1\<lparr>drbg_V := sp_add (drbg_V g1) (be_decode (fips_sha256 (3 # drbg_V g1)) + be_decode (drbg_C g1) +
      unat (reseed_count g1)), reseed_count := reseed_count g1 + 1\<rparr>" by simp
    with True False ok c(1,3) g(4) show ?thesis by (simp add: instance_ok_def)
  next
    case False
    with g(3) have "g2 = g1" by simp
    with False g(4) c(1,3) ok show ?thesis by (simp add: instance_ok_def)
  qed
qed

lemma generate_alg_returns:
  assumes "instance_ok g" and "unat out_len \<le> length out"
  shows "hash_drbg_generate_alg sev None 0 out out_len g \<noteq> None"
proof (cases "drbg_state g \<noteq> INSTANTIATED \<or> out_len > REQUEST_MAX")
  case False
  then have "\<exists>r out' cmp. hash_gen sev out out_len g = Some (r, out', g\<lparr>comp_block := cmp\<rparr>) \<and>
    generated sev (sp_blocks (drbg_V g) (unat out_len)) (unat out_len) 0 out (comp_block g) (r, out', cmp)"
    using hash_gen_generated [OF assms(2), of g sev] assms(1) by (auto simp: instance_ok_def)
  then obtain r out' cmp where h: "hash_gen sev out out_len g = Some (r, out', g\<lparr>comp_block := cmp\<rparr>)" "length cmp = 32"
    by (auto simp: generated_def)
  have "instance_ok (g\<lparr>comp_block := cmp\<rparr>)" using assms(1) h(2) by (simp add: instance_ok_def)
  from update_V_sp [OF this] h(1) False show ?thesis by (auto simp: hash_drbg_generate_alg_def)
qed (auto simp: hash_drbg_generate_alg_def)

lemma unat_u32_one: "unat (n :: u32) = Suc 0 \<Longrightarrow> n = 1"
  by (metis of_nat_unat ucast_id of_nat_1 One_nat_def)

lemma instantiate_alg_keeps:
  assumes "hash_drbg_instantiate_alg pers_str pers_str_len entropy entropy_len nonce nonce_len interval g = Some (r, g', e', n')" and "instance_ok g"
  shows "instance_ok g' \<and> reseed_interval g' = interval \<and> reseed_count g' = 1 \<and> r \<noteq> Exited \<and>
    drbg_state g' = (if r = SUCCESS then INSTANTIATED else ERROR_STATE)"
proof (cases "pers_str_len > 1000 \<or> entropy_len > 1000 \<or> nonce_len > 1000")
  case True
  then show ?thesis using assms by (auto simp: hash_drbg_instantiate_alg_def instance_ok_def)
next
  case False
  then obtain p e n where "read_bytes pers_str (unat pers_str_len) = Some p" "read_bytes entropy (unat entropy_len) = Some e"
    "read_bytes nonce (unat nonce_len) = Some n"
    using assms(1) by (auto simp: hash_drbg_instantiate_alg_def Let_def split: bind_splits)
  from instantiate_alg_sp [OF assms(2) _ _ _ this, of interval] False assms(1) show ?thesis by (auto simp: working_state_def sp_seed_def Let_def not_less unat_u32_one)
qed

lemma reseed_alg_keeps:
  assumes "hash_drbg_reseed_alg add_input add_input_len entropy entropy_len g = Some (r, g', e')" and "instance_ok g"
  shows "instance_ok g' \<and> drbg_state g' = drbg_state g \<and> reseed_interval g' = reseed_interval g \<and> r \<noteq> Exited \<and>
    (r = SUCCESS \<and> drbg_state g = INSTANTIATED \<and> reseed_count g' = 1 \<or> r \<noteq> SUCCESS \<and> g' = g)"
proof (cases "drbg_state g \<noteq> INSTANTIATED \<or> add_input_len > 1000 \<or> entropy_len > 1000")
  case True
  then show ?thesis using assms by (auto simp: hash_drbg_reseed_alg_def split: if_splits)
next
  case False
  then obtain a e where "read_bytes add_input (unat add_input_len) = Some a" "read_bytes entropy (unat entropy_len) = Some e"
    using assms(1) by (auto simp: hash_drbg_reseed_alg_def split: bind_splits)
  from reseed_alg_sp [OF assms(2) _ _ _ this] False assms(1) show ?thesis by (auto simp: working_state_def sp_reseed_def sp_seed_def Let_def not_less unat_u32_one)
qed

section \<open>Properties\<close>

text \<open>An instance as it is after a first reseed.\<close>

definition sample_instance :: HASH_DRBG_CTX where
  "sample_instance = initial_instance\<lparr>reseed_interval := 10000, reseed_count := 1, drbg_state := INSTANTIATED\<rparr>"

lemma sample_instance_ok [simp]: "instance_ok sample_instance" "drbg_state sample_instance = INSTANTIATED"
  "reseed_count sample_instance = 1" "reseed_interval sample_instance = 10000"
  by (simp_all add: sample_instance_def initial_instance_def instance_ok_def)

text \<open>
  C9: Seeding follows SP 800-90A. For inputs of at most 1000 bytes, \<open>hash_drbg_instantiate_alg\<close> returns SUCCESS
  and leaves the working state of the standard, \<open>V = Hash_df (entropy || nonce || personalization)\<close>,
  \<open>C = Hash_df (00 || V)\<close> and the counter 1, and \<open>hash_drbg_reseed_alg\<close> of an instantiated generator the state
  from \<open>01 || V || entropy || input\<close>. No access leaves a buffer, and the caller's entropy and nonce are cleared.
\<close>

theorem seeding_follows_standard:
  assumes "instance_ok g" and "entropy_len \<le> 1000" and "nonce_len \<le> 1000" and "input_len \<le> 1000"
    and "read_bytes input (unat input_len) = Some i" and "read_bytes entropy (unat entropy_len) = Some e"
    and "read_bytes nonce (unat nonce_len) = Some n"
  shows "(\<exists>g' e' n'. hash_drbg_instantiate_alg input input_len entropy entropy_len nonce nonce_len interval g = Some (SUCCESS, g', e', n') \<and>
      working_state g' = sp_seed (e @ n @ i) \<and> instance_ok g' \<and> drbg_state g' = INSTANTIATED \<and> reseed_interval g' = interval \<and>
      read_bytes e' (unat entropy_len) = Some (replicate (unat entropy_len) 0) \<and> read_bytes n' (unat nonce_len) = Some (replicate (unat nonce_len) 0)) \<and>
    (drbg_state g = INSTANTIATED \<longrightarrow> (\<exists>g' e'. hash_drbg_reseed_alg input input_len entropy entropy_len g = Some (SUCCESS, g', e') \<and>
      working_state g' = sp_reseed (working_state g) e i \<and> instance_ok g' \<and> drbg_state g' = INSTANTIATED \<and> reseed_interval g' = reseed_interval g \<and>
      reseeds g' = reseeds g + 1 \<and> read_bytes e' (unat entropy_len) = Some (replicate (unat entropy_len) 0)))"
  using instantiate_alg_sp [OF assms(1,4,2,3,5-7), of interval] reseed_alg_sp [OF assms(1) _ assms(4,2,5,6)] by blast

theorem seeding_follows_standard_witness:
  "(\<exists>g' e' n'. hash_drbg_instantiate_alg None 0 (Some [1, 2, 3]) 3 (Some [4, 5]) 2 10000 sample_instance = Some (SUCCESS, g', e', n') \<and>
     working_state g' = sp_seed [1, 2, 3, 4, 5] \<and> instance_ok g') \<and>
   (\<exists>g' e'. hash_drbg_reseed_alg None 0 (Some [1, 2, 3]) 3 sample_instance = Some (SUCCESS, g', e') \<and>
     working_state g' = sp_reseed (working_state sample_instance) [1, 2, 3] [] \<and> read_bytes e' 3 = Some (replicate 3 0))"
  using seeding_follows_standard [of sample_instance 3 2 0 None "[]" "Some [1, 2, 3]" "[1, 2, 3]" "Some [4, 5]" "[4, 5]" 10000]
  by (auto simp: read_bytes_def)

text \<open>
  C7: Generation follows SP 800-90A with the continuous test of FIPS 140-2. For a request within the limits,
  additional input of at most 944 bytes and a counter that does not wrap around,
  \<open>hash_drbg_generate_alg\<close> returns; nothing past the requested bytes is written. If no block of the standard's
  \<open>Hashgen\<close> equals the one before it, starting from the last block of the previous request, the result is
  SUCCESS, the bytes are those of the standard, the state is \<open>V + H (03 || V) + C + counter\<close> modulo \<open>2 ^ 440\<close>, and the last block is
  kept for the next test. Otherwise the call fails (or the process ends) and the state does not advance.
\<close>

theorem generation_follows_standard:
  assumes "instance_ok g" and "drbg_state g = INSTANTIATED" and "out_len \<le> REQUEST_MAX" and "unat out_len \<le> length out"
    and "unat add_input_len \<le> 944" and "read_bytes add_input (unat add_input_len) = Some a" and "reseed_count g < 0xFFFFFFFF"
  shows "\<exists>r out' g'. hash_drbg_generate_alg sev add_input add_input_len out out_len g = Some (r, out', g') \<and>
    generate_outcome sev g a (unat out_len) out r out' g'"
  by (rule generate_alg_sp [OF assms])

theorem generation_follows_standard_witness:
  "\<exists>r out' g'. hash_drbg_generate_alg True (Some [7]) 1 (replicate 40 0) 40 sample_instance = Some (r, out', g') \<and>
    generate_outcome True sample_instance [7] 40 (replicate 40 0) r out' g'"
  using generation_follows_standard [of sample_instance 40 "replicate 40 0" 1 "Some [7]" "[7]" True]
  by (simp add: read_bytes_def)

text \<open>
  C18: The bound of the additional input is wrong. The limit that is checked, 1000 bytes, is the size of the
  local buffer, into which a byte and the 55 bytes of \<open>V\<close> are copied first: a request with
  945 to 1000 bytes of additional input writes past the end of the buffer, and these are the only
  requests on valid arguments that do.
\<close>

theorem generate_input_overflow:
  assumes "instance_ok g" and "drbg_state g = INSTANTIATED" and "out_len \<le> REQUEST_MAX" and "unat out_len \<le> length out"
    and "read_bytes add_input (unat add_input_len) = Some a" and "reseed_count g < 0xFFFFFFFF"
  shows "hash_drbg_generate_alg sev add_input add_input_len out out_len g = None \<longleftrightarrow> 944 < unat add_input_len \<and> unat add_input_len \<le> 1000"
proof -
  have u: "add_input_len > 1000 \<longleftrightarrow> unat add_input_len > 1000" "add_input_len > 0 \<longleftrightarrow> unat add_input_len > 0" "\<not> out_len > REQUEST_MAX"
    using assms(3) by (auto simp: word_less_nat_alt word_le_nat_alt)
  have l: "length a = unat add_input_len" by (rule read_bytes_SomeD [OF assms(5)])
  show ?thesis
  proof (cases "unat add_input_len \<le> 944")
    case True
    with generate_alg_sp [OF assms(1-4) True assms(5,6), of sev] show ?thesis by auto
  next
    case False
    with assms(1,2,5) u l show ?thesis by (simp add: hash_drbg_generate_alg_def fill_tmp_def instance_ok_def)
  qed
qed

theorem generate_input_overflow_witness:
  "hash_drbg_generate_alg True (Some (replicate 945 7)) 945 (replicate 40 0) 40 sample_instance = None"
  using generate_input_overflow [of sample_instance 40 "replicate 40 0" "Some (replicate 945 7)" 945 "replicate 945 7" True]
  by (simp add: read_bytes_def)

end
