(* ===== verification/Cavp.thy ===== *)
theory Cavp
  imports Hash_Drbg
begin

text \<open>
  The known-answer tests that run before the generator is instantiated
  (\<open>cst/lib_hash_drbg/src/sha256_cavp_selftest.c\<close>, \<open>hash_drbg_selftest.c\<close>). The tables of test vectors
  (\<open>sha256ShortMsg_data.c\<close> and so on) are arguments: what is shown holds for every table. Strings are lists of
  bytes with their terminator; a comparison or a search that runs off the end of one is a fault. Messages on
  the console are not modelled.
\<close>

section \<open>Strings\<close>

fun strcmp_eq :: "byte list \<Rightarrow> byte list \<Rightarrow> bool option" where
  "strcmp_eq (a # as) (b # bs) = (if a \<noteq> b then Some False else if a = 0 then Some True else strcmp_eq as bs)"
| "strcmp_eq _ _ = None"

fun strncmp_eq :: "byte list \<Rightarrow> byte list \<Rightarrow> nat \<Rightarrow> bool option" where
  "strncmp_eq as bs 0 = Some True"
| "strncmp_eq (a # as) (b # bs) (Suc n) = (if a \<noteq> b then Some False else if a = 0 then Some True else strncmp_eq as bs n)"
| "strncmp_eq _ _ (Suc n) = None"

definition strlen :: "byte list \<Rightarrow> nat option" where
  "strlen s = (if 0 \<in> set s then Some (length (takeWhile (\<lambda>c. c \<noteq> 0) s)) else None)"

definition strncpy :: "byte list \<Rightarrow> byte list \<Rightarrow> nat \<Rightarrow> byte list option" where
  "strncpy dst src n = do { l \<leftarrow> strnlen src n; poke dst 0 (take l src @ replicate (n - l) 0) }"

section \<open>Messages\<close>

record sha_msg_test =
  Bitlen :: u32
  Msg :: "byte list"
  MD :: "byte list"

definition zzz :: "byte list" where
  "zzz = replicate 64 0x7A @ [0]"

text \<open>One test of \<open>sha256_hex\<close> and one of \<open>sha256\<close>; the result tells whether it failed.\<close>

definition hex_test :: "sha_msg_test \<Rightarrow> bool option" where
  "hex_test t = do {
     (result, hash_string) \<leftarrow> sha256_hex blank_ctx (replicate 32 0xCC) (Msg t) (Bitlen t div 4) zzz;
     if result = -1 then Some True
     else map_option Not (strcmp_eq hash_string (MD t)) }"

definition bytes_test :: "sha_msg_test \<Rightarrow> bool option" where
  "bytes_test t = do {
     (datalen, data) \<leftarrow> hex_to_bytes (Msg t) (Bitlen t div 4) (replicate 100000 0) 100000;
     if datalen = -1 then Some True
     else do {
       h \<leftarrow> sha256 blank_ctx (Some data) (of_int datalen);
       (_, hash_string) \<leftarrow> bytes_to_hex (Some h) 32 zzz 65;
       map_option Not (strcmp_eq hash_string (MD t)) } }"

primrec count_fails :: "('a \<Rightarrow> bool option) \<Rightarrow> 'a list \<Rightarrow> nat option" where
  "count_fails test [] = Some 0"
| "count_fails test (t # ts) = do { fail \<leftarrow> test t; n \<leftarrow> count_fails test ts; Some (of_bool fail + n) }"

definition sha256_testMsg :: "sha_msg_test list \<Rightarrow> nat option" where
  "sha256_testMsg ts = do { a \<leftarrow> count_fails hex_test ts; b \<leftarrow> count_fails bytes_test ts; Some (a + b) }"

section \<open>Monte Carlo\<close>

text \<open>The three buffers go round with every hash.\<close>

type_synonym digests = "byte list \<times> byte list \<times> byte list"

definition monte_step :: "digests \<Rightarrow> digests option" where
  "monte_step = (\<lambda>(MD0, MD1, MD2). do {
     (r0, c) \<leftarrow> sha256_update_hex (sha256_init blank_ctx) MD0 65;
     (r1, c) \<leftarrow> sha256_update_hex c MD1 65;
     (r2, c) \<leftarrow> sha256_update_hex c MD2 65;
     (c, h) \<leftarrow> sha256_finalize c;
     (_, MD0) \<leftarrow> bytes_to_hex (Some h) 32 MD0 65;
     Some (MD1, MD2, MD0) })"

primrec monte_inner :: "nat \<Rightarrow> digests \<Rightarrow> digests option" where
  "monte_inner 0 m = Some m"
| "monte_inner (Suc k) m = do { m \<leftarrow> monte_step m; monte_inner k m }"

primrec monte_outer :: "byte list list \<Rightarrow> digests \<Rightarrow> nat option" where
  "monte_outer [] m = Some 0"
| "monte_outer (expected # rest) m = do {
     (MD0, MD1, MD2) \<leftarrow> monte_inner 1000 m;
     same \<leftarrow> strcmp_eq MD2 expected;
     MD0 \<leftarrow> strncpy MD0 MD2 65;
     MD1 \<leftarrow> strncpy MD1 MD2 65;
     n \<leftarrow> monte_outer rest (MD0, MD1, MD2);
     Some (of_bool (\<not> same) + n) }"

definition sha256_Monte :: "byte list \<Rightarrow> byte list list \<Rightarrow> nat option" where
  "sha256_Monte sha_monte_seed sha_monte = do {
     buf \<leftarrow> strncpy (replicate 65 0xCC) sha_monte_seed 65;
     monte_outer sha_monte (buf, buf, buf) }"

section \<open>The generator\<close>

record hash_drbg_test =
  entropy1 :: "byte list"
  nonce :: "byte list"
  pers_str :: "byte list"
  add_input1 :: "byte list"
  entropy2 :: "byte list"
  add_input2 :: "byte list"
  entropy3 :: "byte list"
  expected_bytes :: "byte list"

text \<open>A string of the table in a local buffer of 1000 bytes, and the value of \<open>hex_to_bytes\<close> as an unsigned length.\<close>

definition test_bytes :: "byte list \<Rightarrow> (buffer \<times> u32) option" where
  "test_bytes s = do {
     n \<leftarrow> strlen s;
     (k, buf) \<leftarrow> hex_to_bytes s (of_nat n) (replicate 1000 0xCC) 1000;
     Some (Some buf, of_int k) }"

text \<open>A reseed by hand and 128 bytes.\<close>

definition reseed_generate ::
    "bool \<Rightarrow> byte list \<Rightarrow> byte list \<Rightarrow> byte list \<Rightarrow> HASH_DRBG_CTX \<Rightarrow> (ret_code \<times> byte list \<times> HASH_DRBG_CTX) option" where
  "reseed_generate sev entropy_str input_str data g = do {
     (entropy, entropy_len) \<leftarrow> test_bytes entropy_str;
     (add_input, add_input_len) \<leftarrow> test_bytes input_str;
     (_, g, _) \<leftarrow> hash_drbg_reseed_alg add_input add_input_len entropy entropy_len g;
     hash_drbg_generate_alg sev None 0 data (1024 div 8) g }"

text \<open>One test; \<open>None\<close> where the process ends. \<open>data\<close> is the output buffer of the function.\<close>

definition drbg_test :: "bool \<Rightarrow> hash_drbg_test \<Rightarrow> byte list \<Rightarrow> HASH_DRBG_CTX \<Rightarrow> (bool option \<times> byte list \<times> HASH_DRBG_CTX) option" where
  "drbg_test sev t data g = do {
     (entropy, entropy_len) \<leftarrow> test_bytes (entropy1 t);
     (nonce_buf, nonce_len) \<leftarrow> test_bytes (nonce t);
     (pers, pers_str_len) \<leftarrow> test_bytes (pers_str t);
     (_, g, _, _) \<leftarrow> hash_drbg_instantiate_alg pers pers_str_len entropy entropy_len nonce_buf nonce_len 10000 g;
     (r, data, g) \<leftarrow> reseed_generate sev (entropy2 t) (add_input1 t) data g;
     if r = Exited then Some (None, data, g)
     else do {
       (r, data, g) \<leftarrow> reseed_generate sev (entropy3 t) (add_input2 t) data g;
       if r = Exited then Some (None, data, g)
       else do {
         (_, data_str) \<leftarrow> bytes_to_hex (Some data) (1024 div 8) (replicate 1000 0xCC) 1000;
         same \<leftarrow> strncmp_eq data_str (expected_bytes t) 1000;
         Some (Some (\<not> same), data, snd (hash_drbg_uninstantiate g)) } } }"

primrec hash_drbg_selftest :: "bool \<Rightarrow> hash_drbg_test list \<Rightarrow> byte list \<Rightarrow> HASH_DRBG_CTX \<Rightarrow> (nat option \<times> HASH_DRBG_CTX) option" where
  "hash_drbg_selftest sev [] data g = Some (Some 0, g)"
| "hash_drbg_selftest sev (t # ts) data g = do {
     (fail, data, g) \<leftarrow> drbg_test sev t data g;
     case fail of
       None \<Rightarrow> Some (None, g)
     | Some f \<Rightarrow> do {
         (n, g) \<leftarrow> hash_drbg_selftest sev ts data g;
         Some (map_option ((+) (of_bool f)) n, g) } }"


section \<open>Facts about strings\<close>

lemma strcmp_eq_string: "0 \<notin> set a \<Longrightarrow> 0 \<notin> set b \<Longrightarrow> strcmp_eq (a @ 0 # x) (b @ 0 # y) = Some (a = b)"
proof (induction a arbitrary: b)
  case Nil
  then show ?case by (cases b) auto
next
  case (Cons c a)
  then show ?case by (cases b) auto
qed

lemma strncmp_eq_returns: "0 \<in> set a \<Longrightarrow> 0 \<in> set b \<Longrightarrow> strncmp_eq a b n \<noteq> None"
proof (induction n arbitrary: a b)
  case (Suc n)
  then obtain x as y bs where "a = x # as" "b = y # bs" by (metis list.exhaust list.set(1) empty_iff)
  then show ?case using Suc.IH [of as bs] Suc.prems by auto
qed simp

lemma hex_string_inj: "hex_string a = hex_string b \<longleftrightarrow> a = b"
proof
  assume e: "hex_string a = hex_string b"
  have l: "length a = length b" using arg_cong [OF e, of length] by simp
  have "hex_loop (hex_string a) 0 a = Some (True, a)" using hex_loop_string [of 0 a a] by simp
  moreover have "hex_loop (hex_string a) 0 a = Some (True, b)" unfolding e using hex_loop_string [of 0 b a] l by simp
  ultimately show "a = b" by simp
qed simp

lemma strnlen_take: "0 \<notin> set s \<Longrightarrow> strnlen (s @ t) (length s) = Some (length s)"
  by (induction s) auto

lemma bytes_to_hex_32:
  assumes "length h = 32" and "length str = 65"
  shows "bytes_to_hex (Some h) 32 str 65 = Some (1, hex_string h @ [0])"
  using assms by (simp add: bytes_to_hex_def read_bytes_def poke_def)

lemma length_zzz [simp]: "length zzz = 65"
  by (simp add: zzz_def)

lemma hex_to_bytes_prefix:
  assumes "strnlen s (unat n) = Some (2 * length m)" and "take (2 * length m) s = hex_string m" and "2 * length m \<le> unat n"
    and "length m \<le> unat k" and "unat k \<le> length out"
  shows "hex_to_bytes s n out k = Some (int (length m), m @ drop (length m) out)"
  using assms hex_loop_string [of 0 m out] by (simp add: hex_to_bytes_def)

lemma sha256_update_hex_absorbs:
  assumes "absorbed p c" and "strnlen s (unat n) = Some (2 * length m)" and "take (2 * length m) s = hex_string m" and "2 * length m \<le> unat n"
    and "length m \<le> 100000"
  shows "\<exists>c'. sha256_update_hex c s n = Some (1, c') \<and> absorbed (p @ m) c'"
proof -
  have h: "hex_to_bytes s n (replicate 100000 0) 100000 = Some (int (length m), m @ drop (length m) (replicate 100000 0))"
    by (rule hex_to_bytes_prefix [OF assms(2-4)]) (use assms(5) in simp_all)
  have u: "unat (of_int (int (length m)) :: u32) = length m" using assms(5) by (simp add: unat_of_nat take_bit_nat_eq_self)
  from sha256_update_absorbs [OF assms(1), of "of_int (int (length m))" "m @ drop (length m) (replicate 100000 0)"]
  show ?thesis unfolding u sha256_update_hex_def h by auto
qed


section \<open>What the tests decide\<close>

text \<open>A vector for a message and a digest; text may follow the message, as the tables have it for the empty message.\<close>

definition describes :: "sha_msg_test \<Rightarrow> byte list \<times> byte list \<Rightarrow> bool" where
  "describes t = (\<lambda>(m, d). unat (Bitlen t) = 8 * length m \<and> length m \<le> 100000 \<and> take (2 * length m) (Msg t) = hex_string m \<and>
     take (2 * length d + 1) (MD t) = hex_string d @ [0])"

lemma describesD:
  assumes "describes t (m, d)"
  shows "unat (Bitlen t div 4) = 2 * length m" and "length m \<le> 100000" and "take (2 * length m) (Msg t) = hex_string m"
    and "strnlen (Msg t) (2 * length m) = Some (2 * length m)" and "strcmp_eq (hex_string h @ [0]) (MD t) = Some (h = d)"
proof -
  have d: "unat (Bitlen t) = 8 * length m" "take (2 * length m) (Msg t) = hex_string m" "take (2 * length d + 1) (MD t) = hex_string d @ [0]" "length m \<le> 100000"
    using assms by (auto simp: describes_def)
  show "unat (Bitlen t div 4) = 2 * length m" using d(1) by (simp add: unat_div)
  show "take (2 * length m) (Msg t) = hex_string m" "length m \<le> 100000" by fact+
  have "Msg t = hex_string m @ drop (2 * length m) (Msg t)" using d(2) by (metis append_take_drop_id)
  then show "strnlen (Msg t) (2 * length m) = Some (2 * length m)"
    using strnlen_take [OF zero_notin_hex, of m "drop (2 * length m) (Msg t)"] by simp
  obtain y where "MD t = hex_string d @ 0 # y"
    using append_take_drop_id [of "2 * length d + 1" "MD t"] unfolding d(3) by simp (metis)
  then show "strcmp_eq (hex_string h @ [0]) (MD t) = Some (h = d)"
    using strcmp_eq_string [OF zero_notin_hex zero_notin_hex, of h "[]" d] by (simp add: hex_string_inj)
qed

lemma hex_test_decides:
  assumes "describes t (m, d)"
  shows "hex_test t = Some (fips_sha256 m \<noteq> d)"
proof -
  note D = describesD [OF assms]
  obtain c where c: "sha256_update_hex (sha256_init blank_ctx) (Msg t) (Bitlen t div 4) = Some (1, c)" "absorbed m c"
    using sha256_update_hex_absorbs [OF sha256_init_absorbs [OF blank_ctx_data], of "Msg t" "Bitlen t div 4" m] D by auto
  obtain c' where "sha256_finalize c = Some (c', fips_sha256 m)" using sha256_finalize_fips [OF c(2)] by blast
  then show ?thesis using c(1) bytes_to_hex_32 [OF length_fips_sha256 length_zzz] D(5)
    by (simp add: hex_test_def sha256_hex_def)
qed

lemma bytes_test_decides:
  assumes "describes t (m, d)"
  shows "bytes_test t = Some (fips_sha256 m \<noteq> d)"
proof -
  note D = describesD [OF assms]
  have h: "hex_to_bytes (Msg t) (Bitlen t div 4) (replicate 100000 0) 100000 = Some (int (length m), m @ drop (length m) (replicate 100000 0))"
    by (rule hex_to_bytes_prefix) (use D in simp_all)
  have u: "unat (of_int (int (length m)) :: u32) = length m" using D(2) by (simp add: unat_of_nat take_bit_nat_eq_self)
  have "sha256 blank_ctx (Some (m @ drop (length m) (replicate 100000 0))) (of_int (int (length m))) = Some (fips_sha256 m)"
    using sha256_blank [of "of_int (int (length m))" "m @ drop (length m) (replicate 100000 0)"] unfolding u by simp
  then show ?thesis using bytes_to_hex_32 [OF length_fips_sha256 length_zzz] D(5) unfolding bytes_test_def h by simp
qed

lemma count_fails_decides:
  assumes "list_all2 describes ts vs" and "\<And>t m d. describes t (m, d) \<Longrightarrow> test t = Some (fips_sha256 m \<noteq> d)"
  shows "count_fails test ts = Some (length (filter (\<lambda>(m, d). fips_sha256 m \<noteq> d) vs))"
  using assms(1)
proof (induction ts vs rule: list_all2_induct)
  case (Cons t ts v vs)
  obtain m d where "v = (m, d)" by (cases v)
  with Cons assms(2) show ?case by simp
qed simp

text \<open>The Monte Carlo test of the validation suite: 1000 hashes of the last three digests for each expected one.\<close>

definition chain :: "digests \<Rightarrow> digests" where
  "chain = (\<lambda>(a, b, c). (b, c, fips_sha256 (a @ b @ c)))"

definition chain_1000 :: "byte list \<Rightarrow> byte list" where
  "chain_1000 s = snd (snd ((chain ^^ 1000) (s, s, s)))"

primrec monte_differences :: "byte list list \<Rightarrow> byte list \<Rightarrow> nat" where
  "monte_differences [] s = 0"
| "monte_differences (d # ds) s = of_bool (chain_1000 s \<noteq> d) + monte_differences ds (chain_1000 s)"

definition hex_32 :: "byte list \<Rightarrow> byte list" where
  "hex_32 d = hex_string d @ [0]"

definition buffers :: "digests \<Rightarrow> digests \<Rightarrow> bool" where
  "buffers x m = (case x of (a, b, c) \<Rightarrow> length a = 32 \<and> length b = 32 \<and> length c = 32 \<and> m = (hex_32 a, hex_32 b, hex_32 c))"

lemma update_digest:
  assumes "absorbed p c" and "length a = 32"
  shows "\<exists>c'. sha256_update_hex c (hex_32 a) 65 = Some (1, c') \<and> absorbed (p @ a) c'"
  using sha256_update_hex_absorbs [OF assms(1), of "hex_32 a" 65 a] strnlen_string [OF zero_notin_hex, of a 65 "[]"] assms(2)
  by (simp add: hex_32_def)

lemma monte_step_chain:
  assumes "buffers x m"
  shows "\<exists>m'. monte_step m = Some m' \<and> buffers (chain x) m'"
proof -
  obtain a b c where x: "x = (a, b, c)" "length a = 32" "length b = 32" "length c = 32" "m = (hex_32 a, hex_32 b, hex_32 c)"
    using assms by (auto simp: buffers_def)
  obtain c1 where 1: "sha256_update_hex (sha256_init blank_ctx) (hex_32 a) 65 = Some (1, c1)" "absorbed a c1"
    using update_digest [OF sha256_init_absorbs [OF blank_ctx_data] x(2)] by auto
  obtain c2 where 2: "sha256_update_hex c1 (hex_32 b) 65 = Some (1, c2)" "absorbed (a @ b) c2"
    using update_digest [OF 1(2) x(3)] by auto
  obtain c3 where 3: "sha256_update_hex c2 (hex_32 c) 65 = Some (1, c3)" "absorbed (a @ b @ c) c3"
    using update_digest [OF 2(2) x(4)] by auto
  obtain c4 where 4: "sha256_finalize c3 = Some (c4, fips_sha256 (a @ b @ c))" using sha256_finalize_fips [OF 3(2)] by blast
  have "bytes_to_hex (Some (fips_sha256 (a @ b @ c))) 32 (hex_32 a) 65 = Some (1, hex_32 (fips_sha256 (a @ b @ c)))"
    unfolding hex_32_def by (rule bytes_to_hex_32) (use x(2) in simp_all)
  with 1(1) 2(1) 3(1) 4 x show ?thesis by (simp add: monte_step_def chain_def buffers_def)
qed

lemma monte_inner_chain: "buffers x m \<Longrightarrow> \<exists>m'. monte_inner k m = Some m' \<and> buffers ((chain ^^ k) x) m'"
proof (induction k arbitrary: x m)
  case (Suc k)
  obtain m1 where m1: "monte_step m = Some m1" "buffers (chain x) m1" using monte_step_chain [OF Suc.prems] by blast
  from Suc.IH [OF m1(2)] m1(1) show ?case by (simp add: funpow_swap1)
qed simp

lemma strncpy_digest: "length a = 32 \<Longrightarrow> length b = 65 \<Longrightarrow> strncpy b (hex_32 a) 65 = Some (hex_32 a)"
  using strnlen_string [OF zero_notin_hex, of a 65 "[]"] by (simp add: strncpy_def hex_32_def poke_def)

lemma monte_outer_chain:
  assumes "length s = 32" and "list_all (\<lambda>d. length d = 32) ds"
  shows "monte_outer (map hex_32 ds) (hex_32 s, hex_32 s, hex_32 s) = Some (monte_differences ds s)"
  using assms
proof (induction ds arbitrary: s)
  case (Cons d ds)
  obtain m where m: "monte_inner 1000 (hex_32 s, hex_32 s, hex_32 s) = Some m" "buffers ((chain ^^ 1000) (s, s, s)) m"
    using monte_inner_chain [of "(s, s, s)" "(hex_32 s, hex_32 s, hex_32 s)" 1000] Cons.prems(1) by (auto simp: buffers_def)
  obtain a b where c: "(chain ^^ 1000) (s, s, s) = (a, b, chain_1000 s)" unfolding chain_1000_def by (metis prod.collapse)
  let ?c = "chain_1000 s"
  have l: "length a = 32" "length b = 32" "length ?c = 32" "m = (hex_32 a, hex_32 b, hex_32 ?c)" using m(2) unfolding c buffers_def by simp_all
  have e: "strcmp_eq (hex_32 ?c) (hex_32 d) = Some (?c = d)"
    unfolding hex_32_def using strcmp_eq_string [OF zero_notin_hex zero_notin_hex, of ?c "[]" d "[]"] by (simp add: hex_string_inj)
  have h: "length (hex_32 x) = 65" if "length x = 32" for x using that by (simp add: hex_32_def)
  from Cons.IH [OF l(3)] Cons.prems m(1) e l strncpy_digest [OF l(3) h [OF l(1)]] strncpy_digest [OF l(3) h [OF l(2)]] show ?case by simp
qed simp

lemma length_chain_1000: "length s = 32 \<Longrightarrow> length (chain_1000 s) = 32"
proof -
  assume "length s = 32"
  then have "buffers (s, s, s) (hex_32 s, hex_32 s, hex_32 s)" by (simp add: buffers_def)
  from monte_inner_chain [OF this, of 1000] show ?thesis
    by (cases "(chain ^^ 1000) (s, s, s)") (auto simp: buffers_def chain_1000_def)
qed

section \<open>The test of the generator returns\<close>

lemma strnlen_returns: "0 \<in> set s \<Longrightarrow> \<exists>h. strnlen s n = Some h \<and> h \<le> length s"
proof (induction s n rule: strnlen.induct)
  case (3 c s n)
  then show ?case by (cases "c = 0") auto
qed simp_all

lemma hex_loop_returns:
  "even (length s) \<Longrightarrow> k + length s div 2 \<le> length out \<Longrightarrow> \<exists>ok out'. hex_loop s k out = Some (ok, out') \<and> length out' = length out"
proof (induction s k out rule: hex_loop.induct)
  case (1 c1 c2 cs k out)
  show ?case
  proof (cases "isxdigit c1 \<and> isxdigit c2")
    case True
    obtain o1 where "poke out k [push_bit 4 (hex_digit c1) + hex_digit c2] = Some o1" "length o1 = length out"
      using poke_Some [of k "[push_bit 4 (hex_digit c1) + hex_digit c2]" out] 1(3) by auto
    with 1 True show ?thesis by simp
  qed auto
qed auto

lemma test_bytes_returns:
  assumes "0 \<in> set s"
  shows "\<exists>buf len. test_bytes s = Some (Some buf, len) \<and> length buf = 1000"
proof -
  let ?n = "of_nat (length (takeWhile (\<lambda>c. c \<noteq> 0) s)) :: u32" and ?o = "replicate 1000 0xCC :: byte list"
  obtain h where h: "strnlen s (unat ?n) = Some h" "h \<le> length s" using strnlen_returns [OF assms] by blast
  have "\<exists>k buf. hex_to_bytes s ?n ?o 1000 = Some (k, buf) \<and> length buf = 1000"
  proof (cases "odd h \<or> unat ?n < h \<and> odd (unat ?n) \<or> h div 2 > 1000")
    case False
    then show ?thesis using hex_loop_returns [of "take h s" 0 ?o] h by (auto simp: hex_to_bytes_def)
  qed (use h in \<open>auto simp: hex_to_bytes_def\<close>)
  with assms show ?thesis by (auto simp: test_bytes_def strlen_def)
qed

lemma reseed_generate_returns:
  assumes "0 \<in> set es" and "0 \<in> set as" and "instance_ok g" and "length data = 1000"
  shows "\<exists>r data' g'. reseed_generate sev es as data g = Some (r, data', g') \<and> instance_ok g' \<and> length data' = 1000 \<and> drbg_state g' = drbg_state g"
proof -
  obtain e el a al where t: "test_bytes es = Some (Some e, el)" "length e = 1000" "test_bytes as = Some (Some a, al)" "length a = 1000"
    using test_bytes_returns [OF assms(1)] test_bytes_returns [OF assms(2)] by blast
  have "hash_drbg_reseed_alg (Some a) al (Some e) el g \<noteq> None"
  proof (cases "drbg_state g = INSTANTIATED \<and> al \<le> 1000 \<and> el \<le> 1000")
    case True
    then have "read_bytes (Some a) (unat al) = Some (take (unat al) a)" "read_bytes (Some e) (unat el) = Some (take (unat el) e)"
      using t by (auto simp: read_bytes_def word_le_nat_alt)
    from reseed_alg_sp [OF assms(3) _ _ _ this] True show ?thesis by auto
  qed (auto simp: hash_drbg_reseed_alg_def)
  then obtain r g1 e1 where 1: "hash_drbg_reseed_alg (Some a) al (Some e) el g = Some (r, g1, e1)" by (metis prod_cases3 option.exhaust)
  note k = reseed_alg_keeps [OF 1 assms(3)]
  have "hash_drbg_generate_alg sev None 0 data 128 g1 \<noteq> None" by (rule generate_alg_returns) (use k assms(4) in simp_all)
  then obtain r2 d2 g2 where 2: "hash_drbg_generate_alg sev None 0 data 128 g1 = Some (r2, d2, g2)" by (metis prod_cases3 option.exhaust)
  with generate_alg_keeps [OF 2] k t 1 assms(4) show ?thesis by (simp add: reseed_generate_def)
qed

definition wiped :: "HASH_DRBG_CTX \<Rightarrow> bool" where
  "wiped g \<longleftrightarrow> drbg_state g = UNINSTANTIATED \<and> drbg_V g = replicate 55 0 \<and> drbg_C g = replicate 55 0"

definition terminated :: "hash_drbg_test \<Rightarrow> bool" where
  "terminated t \<longleftrightarrow> list_all (\<lambda>s. 0 \<in> set s) [entropy1 t, nonce t, pers_str t, add_input1 t, entropy2 t, add_input2 t, entropy3 t, expected_bytes t]"

lemma drbg_test_returns:
  assumes "terminated t" and "instance_ok g" and "length data = 1000"
  shows "\<exists>f data' g'. drbg_test sev t data g = Some (f, data', g') \<and> instance_ok g' \<and> length data' = 1000 \<and> (f \<noteq> None \<longrightarrow> wiped g')"
proof -
  have z: "0 \<in> set (entropy1 t)" "0 \<in> set (nonce t)" "0 \<in> set (pers_str t)" "0 \<in> set (add_input1 t)" "0 \<in> set (entropy2 t)"
    "0 \<in> set (add_input2 t)" "0 \<in> set (entropy3 t)" "0 \<in> set (expected_bytes t)" using assms(1) by (simp_all add: terminated_def)
  obtain e el n nl p pl where t: "test_bytes (entropy1 t) = Some (Some e, el)" "length e = 1000" "test_bytes (nonce t) = Some (Some n, nl)" "length n = 1000"
    "test_bytes (pers_str t) = Some (Some p, pl)" "length p = 1000"
    using test_bytes_returns [OF z(1)] test_bytes_returns [OF z(2)] test_bytes_returns [OF z(3)] by blast
  have "hash_drbg_instantiate_alg (Some p) pl (Some e) el (Some n) nl 10000 g \<noteq> None"
  proof (cases "pl \<le> 1000 \<and> el \<le> 1000 \<and> nl \<le> 1000")
    case True
    then have "read_bytes (Some p) (unat pl) = Some (take (unat pl) p)" "read_bytes (Some e) (unat el) = Some (take (unat el) e)"
      "read_bytes (Some n) (unat nl) = Some (take (unat nl) n)" using t by (auto simp: read_bytes_def word_le_nat_alt)
    from instantiate_alg_sp [OF assms(2) _ _ _ this] True show ?thesis by fastforce
  qed (auto simp: hash_drbg_instantiate_alg_def Let_def)
  then obtain r g1 e1 n1 where 1: "hash_drbg_instantiate_alg (Some p) pl (Some e) el (Some n) nl 10000 g = Some (r, g1, e1, n1)"
    by (metis prod_cases4 option.exhaust)
  note k = instantiate_alg_keeps [OF 1 assms(2)]
  then have s1: "drbg_state g1 \<noteq> UNINSTANTIATED" by simp
  obtain r2 d2 g2 where 2: "reseed_generate sev (entropy2 t) (add_input1 t) data g1 = Some (r2, d2, g2)" "instance_ok g2" "length d2 = 1000" "drbg_state g2 = drbg_state g1"
    using reseed_generate_returns [OF z(5,4) _ assms(3), of g1 sev] k by blast
  obtain r3 d3 g3 where 3: "reseed_generate sev (entropy3 t) (add_input2 t) d2 g2 = Some (r3, d3, g3)" "instance_ok g3" "length d3 = 1000" "drbg_state g3 = drbg_state g2"
    using reseed_generate_returns [OF z(7,6) 2(2,3), of sev] by blast
  let ?str = "hex_string (take 128 d3) @ 0 # drop 257 (replicate 1000 0xCC)"
  have h: "bytes_to_hex (Some d3) 128 (replicate 1000 0xCC) 1000 = Some (1, ?str)" using 3(3) by (simp add: bytes_to_hex_def read_bytes_def poke_def)
  obtain same where "strncmp_eq ?str (expected_bytes t) 1000 = Some same" using strncmp_eq_returns [of ?str "expected_bytes t" 1000] z(8) by auto
  with t 1 2 3 h s1 show ?thesis
    by (cases "r2 = Exited"; cases "r3 = Exited") (simp_all add: drbg_test_def hash_drbg_uninstantiate_def wiped_def instance_ok_def)
qed

lemma selftest_returns:
  assumes "list_all terminated ts" and "instance_ok g" and "length data = 1000"
  shows "\<exists>n g'. hash_drbg_selftest sev ts data g = Some (n, g') \<and> instance_ok g' \<and> (n \<noteq> None \<and> ts \<noteq> [] \<longrightarrow> wiped g') \<and> (ts = [] \<longrightarrow> g' = g)"
  using assms
proof (induction ts arbitrary: data g)
  case (Cons t ts)
  obtain f d1 g1 where 1: "drbg_test sev t data g = Some (f, d1, g1)" "instance_ok g1" "length d1 = 1000" "f \<noteq> None \<longrightarrow> wiped g1"
    using drbg_test_returns [OF _ Cons.prems(2,3), of t sev] Cons.prems(1) by auto
  show ?case
  proof (cases f)
    case None
    with 1 show ?thesis by simp
  next
    case (Some b)
    from Cons.IH [OF _ 1(2,3)] Cons.prems(1) obtain n g' where "hash_drbg_selftest sev ts d1 g1 = Some (n, g')" "instance_ok g'"
      "n \<noteq> None \<and> ts \<noteq> [] \<longrightarrow> wiped g'" "ts = [] \<longrightarrow> g' = g1" by auto
    with 1 Some show ?thesis by auto
  qed
qed simp

section \<open>Properties\<close>

text \<open>
  C17: The known-answer tests of SHA-256 count the wrong answers and nothing else. For a table of
  vectors, each the text of a message of at most 100000 bytes and of an expected digest, \<open>sha256_testMsg\<close> returns,
  with twice the number of vectors whose digest is not that of FIPS 180-4 (once for \<open>sha256_hex\<close>, once for
  \<open>sha256\<close>); \<open>sha256_Monte\<close> returns the number of checkpoints at which the chain of digests that the validation suite
  prescribes differs from the table.
\<close>

theorem self_tests_decide:
  assumes "list_all2 describes ts vs" and "length seed = 32" and "list_all (\<lambda>d. length d = 32) ds"
  shows "sha256_testMsg ts = Some (2 * length (filter (\<lambda>(m, d). fips_sha256 m \<noteq> d) vs)) \<and>
    sha256_Monte (hex_32 seed) (map hex_32 ds) = Some (monte_differences ds seed)"
  using count_fails_decides [OF assms(1) hex_test_decides] count_fails_decides [OF assms(1) bytes_test_decides]
    monte_outer_chain [OF assms(2,3)] strncpy_digest [OF assms(2), of "replicate 65 0xCC"]
  by (simp add: sha256_testMsg_def sha256_Monte_def)

definition abc_test :: "byte list \<Rightarrow> sha_msg_test" where
  "abc_test d = \<lparr>Bitlen = 24, Msg = hex_string [0x61, 0x62, 0x63] @ [0], MD = hex_string d @ [0]\<rparr>"

lemma abc_test_describes: "length d = 32 \<Longrightarrow> describes (abc_test d) ([0x61, 0x62, 0x63], d)"
  by (simp add: describes_def abc_test_def)

lemma abc_not_zero: "fips_sha256 [0x61, 0x62, 0x63] \<noteq> replicate 32 0"
proof
  assume "fips_sha256 [0x61, 0x62, 0x63] = replicate 32 0"
  then have "hd (fips_sha256 [0x61, 0x62, 0x63]) = hd (replicate 32 0)" by (rule arg_cong)
  then show False unfolding fips_abc by simp
qed

theorem self_tests_decide_witness:
  "sha256_testMsg [abc_test (fips_sha256 [0x61, 0x62, 0x63]), abc_test (replicate 32 0)] = Some 2 \<and>
   sha256_Monte (hex_32 (replicate 32 0)) (map hex_32 [chain_1000 (replicate 32 0)]) = Some 0"
  using self_tests_decide [of "[abc_test (fips_sha256 [0x61, 0x62, 0x63]), abc_test (replicate 32 0)]"
    "[([0x61, 0x62, 0x63], fips_sha256 [0x61, 0x62, 0x63]), ([0x61, 0x62, 0x63], replicate 32 0)]" "replicate 32 0" "[chain_1000 (replicate 32 0)]"]
    length_chain_1000 [of "replicate 32 0"] abc_not_zero by (simp add: abc_test_describes)

end
