(* ===== verification/Code_Word.thy ===== *)
theory Code_Word
  imports SO_Prelude
begin

text \<open>
  The code words that secrets must be before they are blown into fuses: the one-time programmable
  master key of 256 bits (\<open>otpmk.c\<close>) and the debug response of 64 bits (\<open>drvr.c\<close>) of
  \<open>cst/lib_hash_drbg/src\<close>, and the two generators of \<open>cst/tools/key_generation/gen_drv_drbg.c\<close>. All are extended
  Hamming codes: every bit has a weight, the weights of the ones add up to zero (by exclusive or), and
  so does their number.

  Buffers are lists of the length the C declarations give them; bit \<open>i\<close> is bit \<open>i mod 8\<close> of byte \<open>i div 8\<close>.
\<close>

section \<open>Bits of a buffer\<close>

definition bit_at :: "byte list \<Rightarrow> nat \<Rightarrow> bool" where
  "bit_at x i \<longleftrightarrow> x ! (i div 8) AND push_bit (i mod 8) 1 \<noteq> 0"

definition invert_bit :: "nat \<Rightarrow> byte list \<Rightarrow> byte list" where
  "invert_bit i x = x[i div 8 := x ! (i div 8) XOR push_bit (i mod 8) 1]"

definition force_bit :: "nat \<Rightarrow> byte list \<Rightarrow> byte list" where
  "force_bit i x = x[i div 8 := x ! (i div 8) OR push_bit (i mod 8) 1]"

text \<open>The loop both code words start with: parity and code bits of the ones below \<open>n\<close>.\<close>

definition scan_bits :: "(nat \<Rightarrow> byte) \<Rightarrow> nat \<Rightarrow> byte list \<Rightarrow> byte \<times> byte" where
  "scan_bits w n x = fold (\<lambda>i (p, c). if bit_at x i then (p XOR 1, c XOR w i) else (p, c)) [0..<n] (0, 0)"

section \<open>The master key\<close>

definition otpmk_weight :: "nat \<Rightarrow> byte" where
  "otpmk_weight i = of_nat i"

definition otpmk_make_code_word_256 :: "byte list \<Rightarrow> byte list" where
  "otpmk_make_code_word_256 otpmk =
     (let (parity_bit, code_bit) = scan_bits otpmk_weight 256 otpmk;
          (otpmk, parity_bit) =
            (if code_bit < 128 then (invert_bit (unat code_bit) otpmk, parity_bit XOR 1)
             else (invert_bit 128 (invert_bit (unat (code_bit - 128)) otpmk), parity_bit))
      in otpmk[0 := otpmk ! 0 XOR parity_bit])"

definition otpmk_check_code_word_256 :: "byte list \<Rightarrow> int" where
  "otpmk_check_code_word_256 otpmk =
     (let (parity_bit, code_bit) = scan_bits otpmk_weight 256 otpmk in uint code_bit OR push_bit 8 (uint parity_bit))"

section \<open>The debug response\<close>

definition drvr_weight :: "nat \<Rightarrow> byte" where
  "drvr_weight i = of_nat (i + 1) AND 0x3f"

definition drvr_b_make_code_word_64 :: "byte list \<Rightarrow> byte list" where
  "drvr_b_make_code_word_64 drvr =
     (let (parity_bit, code_bit) = scan_bits drvr_weight 64 drvr;
          (drvr, parity_bit) =
            (if code_bit < 32 then (invert_bit (unat ((code_bit - 1) AND 0x3f)) drvr, parity_bit XOR 1)
             else (invert_bit 31 (invert_bit (unat (((code_bit - 1) AND 0x3f) XOR 32)) drvr), parity_bit))
      in drvr[7 := drvr ! 7 XOR push_bit 7 parity_bit])"

text \<open>The loops \<open>for (i = a; i < b; i += s)\<close> and their inner loops of \<open>w\<close> steps.\<close>

function for_range :: "nat \<Rightarrow> nat \<Rightarrow> nat \<Rightarrow> nat list" where
  "for_range a b s = (if a < b \<and> 0 < s then a # for_range (a + s) b s else [])"
  by auto
termination by (relation "measure (\<lambda>(a, b, s). b - a)") auto

declare for_range.simps [simp del]

definition cbit_indices :: "nat \<Rightarrow> nat \<Rightarrow> nat \<Rightarrow> nat list" where
  "cbit_indices a s w = concat (map (\<lambda>i. map (\<lambda>j. j + i) [0..<w]) (for_range a 63 s))"

definition cbit :: "byte list \<Rightarrow> nat list \<Rightarrow> byte" where
  "cbit x is = fold (\<lambda>i c. if bit_at x i then c XOR 1 else c) is 0"

definition drvr_b_check_code_word_64 :: "byte list \<Rightarrow> int" where
  "drvr_b_check_code_word_64 drvr =
     (let cbit1 = cbit drvr (for_range 0 64 2);
          cbit2 = cbit drvr (cbit_indices 1 4 2);
          cbit3 = cbit drvr (cbit_indices 3 8 4);
          cbit4 = cbit drvr (cbit_indices 7 16 8);
          cbit5 = cbit drvr (cbit_indices 15 32 16);
          cbit6 = cbit drvr (cbit_indices 31 64 32);
          parity_bit = cbit drvr [0..<64]
      in uint (parity_bit XOR push_bit 1 cbit1 XOR push_bit 2 cbit2 XOR push_bit 3 cbit3 XOR push_bit 4 cbit4
           XOR push_bit 5 cbit5 XOR push_bit 6 cbit6))"

section \<open>The generators of the tool\<close>

text \<open>
  \<open>main\<close> spreads the eight bytes of \<open>drv_hex\<close>, the first of them the most significant, over 64 booleans,
  a generator computes the code bits, and the result is put back into \<open>drv_hex\<close> through strings of
  binary digits.
\<close>

definition spread_bits :: "byte list \<Rightarrow> bool list" where
  "spread_bits drv_hex = fold (\<lambda>i. fold (\<lambda>j num. num[8 * 8 - i * 8 - 1 - j := drv_hex ! i AND drop_bit j 0x80 \<noteq> 0]) [0..<8]) [0..<8]
     (replicate 64 False)"

definition strtoul_2 :: "bool list \<Rightarrow> nat" where
  "strtoul_2 k = fold (\<lambda>d n. 2 * n + of_bool d) k 0"

definition collect_bits :: "bool list \<Rightarrow> byte list" where
  "collect_bits num = map (\<lambda>i. of_nat (strtoul_2 (map (\<lambda>j. num ! ((8 - i) * 8 - (j + 1))) [0..<8]))) [0..<8]"

text \<open>The indices of the code bits of generator B: \<open>i = 2 * (i + 1) - 1\<close>.\<close>

function code_positions :: "nat \<Rightarrow> nat \<Rightarrow> nat list" where
  "code_positions i b = (if i < b then i # code_positions (2 * (i + 1) - 1) b else [])"
  by auto
termination by (relation "measure (\<lambda>(i, b). b - i)") auto

declare code_positions.simps [simp del]

definition generate_code_bits_hamming_B :: "bool list \<Rightarrow> byte list" where
  "generate_code_bits_hamming_B num =
     (let num = fold (\<lambda>i num. num[i := False]) (code_positions 0 64) num;
          num = fold (\<lambda>i num. num[i := fold (\<lambda>j parity. if (i + 1) AND (j + 1) \<noteq> 0 then parity \<noteq> num ! j else parity) [i + 1..<64] (num ! i)])
            (code_positions 0 32) num;
          parity = fold (\<lambda>j parity. parity \<noteq> num ! j) [0..<64] False
      in collect_bits (num[63 := num ! 63 \<or> parity]))"

text \<open>Generator A updates the code bit while it runs over the bits, itself first.\<close>

function doublings :: "nat \<Rightarrow> nat \<Rightarrow> nat list" where
  "doublings i b = (if 0 < i \<and> i \<le> b then i # doublings (2 * i) b else [])"
  by auto
termination by (relation "measure (\<lambda>(i, b). Suc b - i)") auto

declare doublings.simps [simp del]

definition generate_code_bits_hamming_A :: "bool list \<Rightarrow> byte list" where
  "generate_code_bits_hamming_A num =
     (let num = fold (\<lambda>i. fold (\<lambda>j num. if i AND j \<noteq> 0 then num[i := num ! i \<noteq> num ! j] else num) [i..<64]) (doublings 1 32) num;
          num = fold (\<lambda>j num. num[0 := num ! 0 \<noteq> num ! j]) [0..<64] num
      in collect_bits num)"

section \<open>Exclusive or over the ones\<close>

primrec xsum :: "('a \<Rightarrow> byte) \<Rightarrow> 'a list \<Rightarrow> byte" where
  "xsum f [] = 0"
| "xsum f (x # xs) = f x XOR xsum f xs"

lemma xor_zero_iff: "a XOR b = 0 \<longleftrightarrow> a = (b :: byte)"
  by (auto simp: bit_eq_iff bit_xor_iff)

lemma xsum_append [simp]: "xsum f (xs @ ys) = xsum f xs XOR xsum f ys"
  by (induction xs) (simp_all add: xor.assoc)

lemma xsum_cong: "(\<And>i. i \<in> set xs \<Longrightarrow> f i = g i) \<Longrightarrow> xsum f xs = xsum g xs"
  by (induction xs) simp_all

lemma xsum_change:
  assumes "distinct xs" and "k \<in> set xs" and "\<And>i. i \<in> set xs \<Longrightarrow> i \<noteq> k \<Longrightarrow> g i = f i"
  shows "xsum g xs = xsum f xs XOR (f k XOR g k)"
proof -
  obtain ys zs where xs: "xs = ys @ k # zs" using assms(2) by (auto simp: in_set_conv_decomp)
  with assms have "xsum g ys = xsum f ys" "xsum g zs = xsum f zs" by (auto intro!: xsum_cong)
  then show ?thesis by (auto simp: xs bit_eq_iff bit_xor_iff)
qed

text \<open>A single bit of the sum is the parity of the ones whose weight has this bit.\<close>

lemma bit_xsum: "bit (xsum f xs) b = odd (length (filter (\<lambda>i. bit (f i) b) xs))"
  by (induction xs) (auto simp: bit_xor_iff)


section \<open>Syndromes\<close>

lemma bit_at_iff: "bit_at x i \<longleftrightarrow> bit (x ! (i div 8)) (i mod 8)"
proof -
  have "bit_at x i \<longleftrightarrow> (\<exists>k. bit (x ! (i div 8) AND push_bit (i mod 8) 1) k)"
    unfolding bit_at_def by (metis bit_0_eq bot_apply bot_bool_def bit_eq_iff)
  then show ?thesis by (auto simp: bit_simps)
qed

lemma bit_at_invert:
  assumes "i < 8 * length x" and "k < 8 * length x"
  shows "bit_at (invert_bit k x) i = (if i = k then \<not> bit_at x i else bit_at x i)"
proof (cases "i div 8 = k div 8")
  case True
  have l: "k div 8 < length x" "i mod 8 < 8" "k mod 8 < 8" using assms by auto
  have "i = k \<longleftrightarrow> i mod 8 = k mod 8" using True by (metis mult_div_mod_eq)
  then show ?thesis using True l by (auto simp: bit_at_iff invert_bit_def bit_simps)
next
  case False
  then show ?thesis by (auto simp: bit_at_iff invert_bit_def)
qed

lemma length_invert [simp]: "length (invert_bit k x) = length x" "length (force_bit k x) = length x"
  by (simp_all add: invert_bit_def force_bit_def)

definition syndrome :: "(nat \<Rightarrow> byte) \<Rightarrow> nat \<Rightarrow> byte list \<Rightarrow> byte" where
  "syndrome w n x = xsum (\<lambda>i. if bit_at x i then w i else 0) [0..<n]"

lemma scan_bits_syndrome: "scan_bits w n x = (syndrome (\<lambda>_. 1) n x, syndrome w n x)"
proof -
  have "fold (\<lambda>i (p, c). if bit_at x i then (p XOR 1, c XOR w i) else (p, c)) is (p, c) =
      (p XOR xsum (\<lambda>i. if bit_at x i then 1 else 0) is, c XOR xsum (\<lambda>i. if bit_at x i then w i else 0) is)" for "is" p c
    by (induction "is" arbitrary: p c) (simp_all add: xor.assoc)
  then show ?thesis by (simp add: scan_bits_def syndrome_def)
qed

lemma syndrome_invert:
  assumes "k < n" and "n \<le> 8 * length x"
  shows "syndrome w n (invert_bit k x) = syndrome w n x XOR w k"
  unfolding syndrome_def
  by (subst xsum_change [where k = k and f = "\<lambda>i. if bit_at x i then w i else 0"]) (use assms in \<open>auto simp: bit_at_invert\<close>)

text \<open>What it means to be a code word for weights \<open>w\<close> of \<open>n\<close> bits.\<close>

definition code_word :: "(nat \<Rightarrow> byte) \<Rightarrow> nat \<Rightarrow> byte list \<Rightarrow> bool" where
  "code_word w n x \<longleftrightarrow> syndrome (\<lambda>_. 1) n x = 0 \<and> syndrome w n x = 0"

text \<open>
  Distinct weights make the code detect two wrong bits and locate one: the syndrome of a code word
  with one wrong bit is the weight of that bit.
\<close>

locale distinct_weights =
  fixes w :: "nat \<Rightarrow> byte" and n :: nat
  assumes weights: "inj_on w {0..<n}"
begin

lemma single_error:
  assumes "code_word w n x" and "k < n" and "n \<le> 8 * length x"
  shows "\<not> code_word w n (invert_bit k x)" and "syndrome w n (invert_bit k x) = w k"
  using assms by (simp_all add: code_word_def syndrome_invert)

lemma double_error:
  assumes "code_word w n x" and "i < n" and "j < n" and "i \<noteq> j" and "n \<le> 8 * length x"
  shows "\<not> code_word w n (invert_bit i (invert_bit j x))"
proof -
  have "w i \<noteq> w j" using weights assms(2-4) by (auto simp: inj_on_def)
  then show ?thesis using assms by (auto simp: code_word_def syndrome_invert xor_zero_iff)
qed

end

interpretation otpmk: distinct_weights otpmk_weight 256
proof
  show "inj_on otpmk_weight {0..<256}"
  proof (rule inj_onI)
    fix i j assume "i \<in> {0..<256}" "j \<in> {0..<256}" "otpmk_weight i = otpmk_weight j"
    then have "i < 2 ^ 8" "j < 2 ^ 8" "take_bit 8 i = take_bit 8 j" by (simp_all add: otpmk_weight_def word_of_nat_eq_iff)
    then show "i = j" by (simp add: take_bit_nat_eq_self)
  qed
qed

lemma drvr_weight_eq: "i < 64 \<Longrightarrow> unat (drvr_weight i) = (i + 1) mod 64"
proof -
  assume "i < 64"
  have m: "(0x3f :: byte) = mask 6" by (simp add: mask_eq_exp_minus_1)
  have "unat (drvr_weight i) = take_bit 6 (unat (of_nat (i + 1) :: byte))"
    unfolding drvr_weight_def m take_bit_eq_mask [symmetric] by (simp add: unsigned_take_bit_eq)
  moreover have "unat (of_nat (i + 1) :: byte) = i + 1"
    using \<open>i < 64\<close> unfolding unat_of_nat by (simp add: take_bit_nat_eq_self)
  ultimately show ?thesis by (simp add: take_bit_eq_mod)
qed

interpretation drvr: distinct_weights drvr_weight 64
proof
  show "inj_on drvr_weight {0..<64}"
  proof (rule inj_onI)
    fix i j assume "i \<in> {0..<64}" "j \<in> {0..<64}" "drvr_weight i = drvr_weight j"
    then have "i < 64" "j < 64" "(i + 1) mod 64 = (j + 1) mod 64" using drvr_weight_eq by (metis atLeastLessThan_iff)+
    then show "i = j" by (auto simp: mod_if split: if_splits)
  qed
qed

section \<open>Making a code word\<close>

lemma parity_cases: "syndrome (\<lambda>_. 1) n x = 0 \<or> syndrome (\<lambda>_. 1) n x = 1"
proof -
  have "xsum (\<lambda>i. if bit_at x i then 1 else 0) is = 0 \<or> xsum (\<lambda>i. if bit_at x i then 1 else 0) is = 1" for "is"
    by (induction "is") auto
  then show ?thesis by (simp add: syndrome_def)
qed

text \<open>The last step: the parity bit goes to bit \<open>k\<close>, whose weight is 0.\<close>

definition adjust :: "nat \<Rightarrow> byte \<Rightarrow> byte list \<Rightarrow> byte list" where
  "adjust k p x = x[k div 8 := x ! (k div 8) XOR push_bit (k mod 8) p]"

lemma adjust_cases: "adjust k 0 x = x" "adjust k 1 x = invert_bit k x"
  by (simp_all add: adjust_def invert_bit_def)

lemma adjust_code_word:
  assumes "syndrome w n x = 0" and "w k = 0" and "k < n" and "n \<le> 8 * length x"
  shows "code_word w n (adjust k (syndrome (\<lambda>_. 1) n x) x)"
  using parity_cases [of n x] assms by (auto simp: code_word_def adjust_cases syndrome_invert)

lemma bit_at_adjust: "i < 8 * length x \<Longrightarrow> k < 8 * length x \<Longrightarrow> i \<noteq> k \<Longrightarrow> p = 0 \<or> p = 1 \<Longrightarrow> bit_at (adjust k p x) i = bit_at x i"
  by (auto simp: adjust_cases bit_at_invert)

text \<open>Both makers invert one or two bits whose weights are the syndrome, and adjust the parity.\<close>

lemma bytes_between: "list_all (\<lambda>i. P (word_of_nat i)) [a..<b] \<Longrightarrow> a \<le> unat c \<Longrightarrow> unat c < b \<Longrightarrow> P (c :: byte)"
proof -
  assume a: "list_all (\<lambda>i. P (word_of_nat i)) [a..<b]" and c: "a \<le> unat c" "unat c < b"
  from c have "unat c \<in> set [a..<b]" by simp
  with a have "P (word_of_nat (unat c))" unfolding list_all_iff by blast
  then show ?thesis by simp
qed

lemma high_bit: "\<not> c < 128 \<Longrightarrow> (c - 128) XOR 128 = (c :: byte)"
proof -
  assume "\<not> c < 128"
  then have "128 \<le> unat c" "unat c < 256" using unat_less_2p [of c] by (simp_all add: word_less_nat_alt)
  moreover have "list_all (\<lambda>i. (word_of_nat i - 128) XOR 128 = (word_of_nat i :: byte)) [128..<256]" by code_simp
  ultimately show ?thesis using bytes_between [of "\<lambda>c. (c - 128) XOR 128 = c" 128 256 c] by blast
qed

lemma otpmk_inverted:
  assumes "length x = 32"
  defines "c \<equiv> syndrome otpmk_weight 256 x"
  shows "otpmk_make_code_word_256 x =
    (let y = (if c < 128 then invert_bit (unat c) x else invert_bit 128 (invert_bit (unat (c - 128)) x))
     in adjust 0 (syndrome (\<lambda>_. 1) 256 y) y)"
proof -
  have "unat c < 256" "unat (c - 128) < 256" using unat_less_2p [of c] unat_less_2p [of "c - 128"] by simp_all
  then show ?thesis using assms(1)
    by (simp add: otpmk_make_code_word_256_def scan_bits_syndrome Let_def syndrome_invert adjust_def xor.assoc flip: c_def)
qed

lemma otpmk_syndrome:
  assumes "length x = 32"
  defines "c \<equiv> syndrome otpmk_weight 256 x"
  defines "y \<equiv> (if c < 128 then invert_bit (unat c) x else invert_bit 128 (invert_bit (unat (c - 128)) x))"
  shows "syndrome otpmk_weight 256 y = 0"
proof -
  have b: "unat c < 256" "unat (c - 128) < 256" using unat_less_2p [of c] unat_less_2p [of "c - 128"] by simp_all
  have "(c - 128) XOR 128 = c" if "\<not> c < 128" using high_bit [OF that] .
  then show ?thesis using assms(1) b by (auto simp: y_def syndrome_invert otpmk_weight_def c_def xor.assoc)
qed

lemma otpmk_make_spec:
  assumes "length x = 32"
  shows "code_word otpmk_weight 256 (otpmk_make_code_word_256 x)" and "length (otpmk_make_code_word_256 x) = 32"
    and "128 < i \<Longrightarrow> i < 256 \<Longrightarrow> bit_at (otpmk_make_code_word_256 x) i = bit_at x i"
proof -
  let ?c = "syndrome otpmk_weight 256 x"
  define y where "y = (if ?c < 128 then invert_bit (unat ?c) x else invert_bit 128 (invert_bit (unat (?c - 128)) x))"
  have m: "otpmk_make_code_word_256 x = adjust 0 (syndrome (\<lambda>_. 1) 256 y) y"
    unfolding y_def using otpmk_inverted [OF assms] by (simp add: Let_def)
  have y: "syndrome otpmk_weight 256 y = 0" "length y = 32" unfolding y_def using otpmk_syndrome [OF assms] assms by simp_all
  show "code_word otpmk_weight 256 (otpmk_make_code_word_256 x)"
    unfolding m by (rule adjust_code_word) (use y in \<open>simp_all add: otpmk_weight_def\<close>)
  show "length (otpmk_make_code_word_256 x) = 32" using y by (simp add: m adjust_def)
  assume i: "128 < i" "i < 256"
  have "bit_at (otpmk_make_code_word_256 x) i = bit_at y i"
    unfolding m using i y(2) parity_cases by (intro bit_at_adjust) auto
  also have "\<dots> = bit_at x i"
  proof (cases "?c < 128")
    case True
    then have "unat ?c < 128" by (simp add: word_less_nat_alt)
    with True i assms show ?thesis by (simp add: y_def bit_at_invert)
  next
    case False
    have "unat (?c - 128) < 128" using unat_less_2p [of ?c] False by (simp add: unat_sub word_le_nat_alt word_less_nat_alt)
    with False i assms show ?thesis by (simp add: y_def bit_at_invert)
  qed
  finally show "bit_at (otpmk_make_code_word_256 x) i = bit_at x i" .
qed

lemma otpmk_check_zero: "otpmk_check_code_word_256 x = 0 \<longleftrightarrow> code_word otpmk_weight 256 x"
proof -
  have "a OR push_bit 8 b = 0 \<longleftrightarrow> a = 0 \<and> b = (0 :: int)" if "0 \<le> a" "0 \<le> b" for a b
    using that by (auto simp: or_eq_0_iff push_bit_eq_mult)
  then show ?thesis
    by (auto simp: otpmk_check_code_word_256_def scan_bits_syndrome code_word_def unsigned_eq_0_iff)
qed

section \<open>The debug response\<close>

lemma drvr_syndrome_high: "6 \<le> b \<Longrightarrow> \<not> bit (syndrome drvr_weight 64 x) b"
proof -
  have m: "(0x3f :: byte) = mask 6" by (simp add: mask_eq_exp_minus_1)
  show "6 \<le> b \<Longrightarrow> \<not> bit (syndrome drvr_weight 64 x) b"
    unfolding syndrome_def bit_xsum drvr_weight_def m by (simp add: bit_simps if_distrib cong: if_cong)
qed

lemma drvr_syndrome_less: "unat (syndrome drvr_weight 64 x) < 64"
proof -
  have "take_bit 6 (syndrome drvr_weight 64 x) = syndrome drvr_weight 64 x"
    by (intro bit_word_eqI) (metis drvr_syndrome_high bit_take_bit_iff not_less)
  then have "take_bit 6 (unat (syndrome drvr_weight 64 x)) = unat (syndrome drvr_weight 64 x)" by (metis unsigned_take_bit_eq)
  then show ?thesis using take_bit_nat_less_exp [of 6 "unat (syndrome drvr_weight 64 x)"] by simp
qed

text \<open>The bits the maker inverts, for every syndrome: their weights add up to it, and they are low bits or the parity bit.\<close>

definition drvr_low :: "byte \<Rightarrow> nat" where
  "drvr_low c = (if c < 32 then unat ((c - 1) AND 0x3f) else unat (((c - 1) AND 0x3f) XOR 32))"

lemma drvr_low_facts:
  assumes "unat c < 64"
  shows "drvr_low c < 31 \<or> drvr_low c = 63" and "drvr_weight (drvr_low c) XOR (if c < 32 then 0 else drvr_weight 31) = c"
proof -
  have "list_all (\<lambda>i. let c = word_of_nat i in (drvr_low c < 31 \<or> drvr_low c = 63) \<and>
      drvr_weight (drvr_low c) XOR (if c < 32 then 0 else drvr_weight 31) = c) [0..<64]" by code_simp
  from bytes_between [of "\<lambda>c. (drvr_low c < 31 \<or> drvr_low c = 63) \<and> drvr_weight (drvr_low c) XOR (if c < 32 then 0 else drvr_weight 31) = c",
      OF this [unfolded Let_def], of c] assms
  show "drvr_low c < 31 \<or> drvr_low c = 63" "drvr_weight (drvr_low c) XOR (if c < 32 then 0 else drvr_weight 31) = c" by simp_all
qed

lemma drvr_make_spec:
  assumes "length x = 8"
  shows "code_word drvr_weight 64 (drvr_b_make_code_word_64 x)" and "length (drvr_b_make_code_word_64 x) = 8"
    and "31 < i \<Longrightarrow> i < 63 \<Longrightarrow> bit_at (drvr_b_make_code_word_64 x) i = bit_at x i"
proof -
  let ?c = "syndrome drvr_weight 64 x"
  note low = drvr_low_facts [OF drvr_syndrome_less [of x]]
  define y where "y = (if ?c < 32 then invert_bit (drvr_low ?c) x else invert_bit 31 (invert_bit (drvr_low ?c) x))"
  have l: "drvr_low ?c < 64" using low(1) by auto
  have y: "length y = 8" "syndrome drvr_weight 64 y = 0"
    using low(2) l assms by (auto simp: y_def syndrome_invert xor.assoc xor_zero_iff split: if_splits)
  have m: "drvr_b_make_code_word_64 x = adjust 63 (syndrome (\<lambda>_. 1) 64 y) y"
    using l assms unfolding y_def drvr_b_make_code_word_64_def scan_bits_syndrome
    by (auto simp: Let_def syndrome_invert adjust_def xor.assoc drvr_low_def split: if_splits)
  show "code_word drvr_weight 64 (drvr_b_make_code_word_64 x)"
    unfolding m by (rule adjust_code_word) (use y in \<open>simp_all add: drvr_weight_def\<close>)
  show "length (drvr_b_make_code_word_64 x) = 8" using y by (simp add: m adjust_def)
  assume i: "31 < i" "i < 63"
  have "bit_at (drvr_b_make_code_word_64 x) i = bit_at y i"
    unfolding m using i y(1) parity_cases by (intro bit_at_adjust) auto
  then show "bit_at (drvr_b_make_code_word_64 x) i = bit_at x i"
    using i low(1) assms by (auto simp: y_def bit_at_invert)
qed

text \<open>The loops of the check run over the bits whose weight has a certain bit set.\<close>

lemma cbit_parity: "cbit x is = of_bool (odd (length (filter (bit_at x) is)))"
proof -
  have "fold (\<lambda>i c. if bit_at x i then c XOR 1 else c) is a = a XOR of_bool (odd (length (filter (bit_at x) is)))" for a :: byte
    by (induction "is" arbitrary: a) (auto simp: xor.assoc)
  then show ?thesis by (simp add: cbit_def)
qed

lemma check_loops:
  "for_range 0 64 2 = filter (\<lambda>i. bit (drvr_weight i) 0) [0..<64]"
  "cbit_indices 1 4 2 = filter (\<lambda>i. bit (drvr_weight i) 1) [0..<64]"
  "cbit_indices 3 8 4 = filter (\<lambda>i. bit (drvr_weight i) 2) [0..<64]"
  "cbit_indices 7 16 8 = filter (\<lambda>i. bit (drvr_weight i) 3) [0..<64]"
  "cbit_indices 15 32 16 = filter (\<lambda>i. bit (drvr_weight i) 4) [0..<64]"
  "cbit_indices 31 64 32 = filter (\<lambda>i. bit (drvr_weight i) 5) [0..<64]"
  by code_simp+

lemma cbit_syndrome: "cbit x (filter (\<lambda>i. bit (w i) b) [0..<n]) = of_bool (bit (syndrome w n x) b)"
proof -
  have "length (filter (bit_at x) (filter (\<lambda>i. bit (w i) b) is)) = length (filter (\<lambda>i. bit (if bit_at x i then w i else 0) b) is)" for "is"
    by (induction "is") auto
  then show ?thesis by (simp add: cbit_parity syndrome_def bit_xsum)
qed

lemma cbit_all: "cbit x [0..<n] = syndrome (\<lambda>_. 1) n x"
proof -
  have "cbit x [0..<n] = of_bool (bit (syndrome (\<lambda>_. 1) n x) 0)" using cbit_syndrome [of x "\<lambda>_. 1" 0 n] by simp
  then show ?thesis using parity_cases [of n x] by auto
qed

text \<open>The result of the check from the parity \<open>p\<close> and the six code bits \<open>c\<close>.\<close>

definition drvr_check_bits :: "byte \<Rightarrow> byte \<Rightarrow> int" where
  "drvr_check_bits p c = uint (p XOR push_bit 1 (of_bool (bit c 0)) XOR push_bit 2 (of_bool (bit c 1)) XOR
      push_bit 3 (of_bool (bit c 2)) XOR push_bit 4 (of_bool (bit c 3)) XOR push_bit 5 (of_bool (bit c 4)) XOR
      push_bit 6 (of_bool (bit c 5)))"

lemma drvr_check_value:
  "drvr_b_check_code_word_64 x = drvr_check_bits (syndrome (\<lambda>_. 1) 64 x) (syndrome drvr_weight 64 x)"
  by (simp only: drvr_b_check_code_word_64_def drvr_check_bits_def Let_def check_loops cbit_syndrome cbit_all)

lemma drvr_check_odd:
  assumes "m < 64"
  shows "drvr_check_bits 1 (of_nat m) = 1 + 2 * int m"
proof -
  have "list_all (\<lambda>m. drvr_check_bits 1 (of_nat m) = 1 + 2 * int m) [0..<64]" by code_simp
  with assms show ?thesis by (simp add: list_all_iff)
qed

lemma drvr_check_zero: "drvr_b_check_code_word_64 x = 0 \<longleftrightarrow> code_word drvr_weight 64 x"
proof -
  let ?p = "syndrome (\<lambda>_. 1) 64 x" and ?c = "syndrome drvr_weight 64 x"
  have low: "?c = 0 \<longleftrightarrow> \<not> bit ?c 0 \<and> \<not> bit ?c 1 \<and> \<not> bit ?c 2 \<and> \<not> bit ?c 3 \<and> \<not> bit ?c 4 \<and> \<not> bit ?c 5"
  proof (intro iffI)
    assume a: "\<not> bit ?c 0 \<and> \<not> bit ?c 1 \<and> \<not> bit ?c 2 \<and> \<not> bit ?c 3 \<and> \<not> bit ?c 4 \<and> \<not> bit ?c 5"
    have "\<not> bit ?c b" for b
    proof (cases "6 \<le> b")
      case False
      then have "b = 0 \<or> b = 1 \<or> b = 2 \<or> b = 3 \<or> b = 4 \<or> b = 5" by linarith
      with a show ?thesis by blast
    qed (rule drvr_syndrome_high)
    then show "?c = 0" by (simp add: bit_eq_iff)
  qed simp
  have "drvr_check_bits ?p ?c = 0 \<longleftrightarrow> ?p = 0 \<and> ?c = 0"
    unfolding drvr_check_bits_def low unsigned_eq_0_iff using parity_cases [of 64 x]
    by (cases "bit ?c 0"; cases "bit ?c 1"; cases "bit ?c 2"; cases "bit ?c 3"; cases "bit ?c 4"; cases "bit ?c 5") auto
  then show ?thesis by (simp add: drvr_check_value code_word_def)
qed

section \<open>The generators\<close>

subsection \<open>Booleans and bytes\<close>

lemma bit_strtoul: "bit (strtoul_2 k) r = (r < length k \<and> rev k ! r)"
proof (induction k arbitrary: r rule: rev_induct)
  case Nil
  then show ?case by (simp add: strtoul_2_def)
next
  case (snoc d k)
  have s: "strtoul_2 (k @ [d]) = 2 * strtoul_2 k + of_bool d" by (simp add: strtoul_2_def)
  show ?case
  proof (cases r)
    case 0
    then show ?thesis by (simp add: s bit_0)
  next
    case (Suc r')
    then show ?thesis by (simp add: s bit_Suc snoc)
  qed
qed

lemma bit_at_collect:
  assumes "i < 64"
  shows "bit_at (rev (collect_bits num)) i = num ! i"
proof -
  let ?q = "i div 8" and ?r = "i mod 8"
  let ?k = "map (\<lambda>j. num ! ((8 - (7 - ?q)) * 8 - (j + 1))) [0..<8]"
  have q: "?q < 8" "?r < 8" using assms by auto
  have "rev (collect_bits num) ! ?q = of_nat (strtoul_2 ?k)" using q by (simp add: collect_bits_def rev_nth)
  then have "bit_at (rev (collect_bits num)) i = bit (strtoul_2 ?k) ?r" using q by (simp add: bit_at_iff bit_of_nat_iff)
  also have "\<dots> = num ! ((8 - (7 - ?q)) * 8 - (7 - ?r + 1))" using q by (simp add: bit_strtoul rev_nth)
  also have "(8 - (7 - ?q)) * 8 - (7 - ?r + 1) = i"
  proof -
    have "8 - (7 - ?q) = ?q + 1" using q by simp
    then show ?thesis using q by (simp add: algebra_simps)
  qed
  finally show ?thesis .
qed

definition nsyn :: "(nat \<Rightarrow> byte) \<Rightarrow> bool list \<Rightarrow> byte" where
  "nsyn w num = xsum (\<lambda>i. if num ! i then w i else 0) [0..<64]"

lemma syndrome_collect: "syndrome w 64 (rev (collect_bits num)) = nsyn w num"
  unfolding syndrome_def nsyn_def by (rule xsum_cong) (simp add: bit_at_collect)

lemma nsyn_update:
  assumes "length num = 64" and "p < 64"
  shows "nsyn w (num[p := v]) = nsyn w num XOR (if v = num ! p then 0 else w p)"
  unfolding nsyn_def
  by (subst xsum_change [where k = p and f = "\<lambda>i. if num ! i then w i else 0"]) (use assms in auto)

lemma bit_nsyn: "bit (nsyn w num) b = odd (length (filter (\<lambda>j. bit (w j) b \<and> num ! j) [0..<64]))"
proof -
  have "length (filter (\<lambda>i. bit (if num ! i then w i else 0) b) is) = length (filter (\<lambda>j. bit (w j) b \<and> num ! j) is)" for "is"
    by (induction "is") auto
  then show ?thesis by (simp add: nsyn_def bit_xsum)
qed

subsection \<open>Filling in the code bits\<close>

definition fill_bit :: "(nat \<Rightarrow> byte) \<Rightarrow> nat \<Rightarrow> nat \<Rightarrow> bool list \<Rightarrow> bool list" where
  "fill_bit w b p num = num[p := odd (length (filter (\<lambda>j. bit (w j) b \<and> num ! j) [p + 1..<64]))]"

text \<open>Where a code keeps its code bits and its parity bit.\<close>

locale code_layout =
  fixes w :: "nat \<Rightarrow> byte" and pos :: "nat \<Rightarrow> nat" and par :: nat
  assumes pos: "b < 6 \<Longrightarrow> pos b < 64" and at_pos: "b < 6 \<Longrightarrow> w (pos b) = push_bit b 1"
    and before_pos: "b < 6 \<Longrightarrow> j < pos b \<Longrightarrow> \<not> bit (w j) b" and high: "j < 64 \<Longrightarrow> 6 \<le> b \<Longrightarrow> \<not> bit (w j) b"
    and par: "par < 64" "w par = 0"
begin

lemma fill_bit_clears:
  assumes "b < 6" and "length num = 64"
  shows "bit (nsyn w (fill_bit w b (pos b) num)) c = (c \<noteq> b \<and> bit (nsyn w num) c)"
proof -
  let ?p = "pos b" and ?v = "odd (length (filter (\<lambda>j. bit (w j) b \<and> num ! j) [pos b + 1..<64]))"
  have u: "[0..<64] = [0..<?p] @ ?p # [?p + 1..<64]"
    using upt_add_eq_append [of 0 ?p "64 - ?p"] upt_conv_Cons [of ?p 64] pos [OF assms(1)] by simp
  have "filter (\<lambda>j. bit (w j) b \<and> num ! j) [0..<?p] = []" using before_pos [OF assms(1)] by (auto simp: filter_empty_conv)
  moreover have "bit (w ?p) b" using at_pos [OF assms(1)] assms(1) by (simp add: bit_exp_iff)
  ultimately have "bit (nsyn w num) b = (num ! ?p \<noteq> ?v)" unfolding bit_nsyn u by simp
  moreover have "nsyn w (fill_bit w b ?p num) = nsyn w num XOR (if ?v = num ! ?p then 0 else push_bit b 1)"
    using nsyn_update [OF assms(2) pos [OF assms(1)]] at_pos [OF assms(1)] by (simp add: fill_bit_def)
  ultimately show ?thesis using assms(1) by (auto simp: bit_simps)
qed

lemma length_fill_bits [simp]: "length (fold (\<lambda>b. fill_bit w b (pos b)) bs num) = length num"
  by (induction bs arbitrary: num) (simp_all add: fill_bit_def)

lemma fill_bits_keep: "i \<notin> pos ` set bs \<Longrightarrow> fold (\<lambda>b. fill_bit w b (pos b)) bs num ! i = num ! i"
  by (induction bs arbitrary: num) (auto simp: fill_bit_def)

lemma fill_bits: "length num = 64 \<Longrightarrow> k \<le> 6 \<Longrightarrow> c < k \<Longrightarrow> \<not> bit (nsyn w (fold (\<lambda>b. fill_bit w b (pos b)) [0..<k] num)) c"
proof (induction k)
  case (Suc k)
  have "bit (nsyn w (fold (\<lambda>b. fill_bit w b (pos b)) [0..<Suc k] num)) c =
      (c \<noteq> k \<and> bit (nsyn w (fold (\<lambda>b. fill_bit w b (pos b)) [0..<k] num)) c)"
    using fill_bit_clears [of k "fold (\<lambda>b. fill_bit w b (pos b)) [0..<k] num" c] Suc.prems by simp
  with Suc show ?case by (auto simp: less_Suc_eq)
qed simp

lemma filled_zero:
  assumes "length num = 64"
  shows "nsyn w (fold (\<lambda>b. fill_bit w b (pos b)) [0..<6] num) = 0"
proof -
  let ?num = "fold (\<lambda>b. fill_bit w b (pos b)) [0..<6] num"
  have "\<not> bit (nsyn w ?num) c" for c
  proof (cases "c < 6")
    case False
    then have "filter (\<lambda>j. bit (w j) c \<and> ?num ! j) [0..<64] = []" using high by (auto simp: filter_empty_conv)
    then show ?thesis by (simp add: bit_nsyn)
  qed (use fill_bits [OF assms, of 6 c] in simp)
  then show ?thesis by (simp add: bit_eq_iff)
qed

lemma closed:
  assumes "length num = 64" and "nsyn w num = 0" and "v = (num ! par \<noteq> (nsyn (\<lambda>_. 1) num = 1))"
  shows "code_word w 64 (rev (collect_bits (num[par := v])))"
proof -
  have "nsyn (\<lambda>_. 1) num = 0 \<or> nsyn (\<lambda>_. 1) num = 1"
    using parity_cases [of 64 "rev (collect_bits num)"] by (simp add: syndrome_collect)
  then show ?thesis using assms par by (auto simp: code_word_def syndrome_collect nsyn_update)
qed

end

subsection \<open>Generator A\<close>

interpretation hamming_a: code_layout otpmk_weight "\<lambda>b. 2 ^ b" 0
proof
  have p: "(2 :: nat) ^ b < 64" if "b < 6" for b using power_strict_increasing [OF that, of "2 :: nat"] by simp
  fix b j :: nat
  show "b < 6 \<Longrightarrow> (2 :: nat) ^ b < 64" by (rule p)
  show "b < 6 \<Longrightarrow> otpmk_weight (2 ^ b) = push_bit b 1" by (simp add: otpmk_weight_def push_bit_of_1)
  have nb: "\<not> bit (otpmk_weight j) b" if "j < 2 ^ b" for b
  proof -
    have "\<not> bit j b" using that by (simp add: bit_iff_odd)
    then show ?thesis by (simp add: otpmk_weight_def bit_of_nat_iff)
  qed
  show "b < 6 \<Longrightarrow> j < 2 ^ b \<Longrightarrow> \<not> bit (otpmk_weight j) b" using nb by blast
  show "j < 64 \<Longrightarrow> 6 \<le> b \<Longrightarrow> \<not> bit (otpmk_weight j) b"
    by (rule nb) (use power_increasing [of 6 b "2 :: nat"] in simp)
qed (simp_all add: otpmk_weight_def)

lemma and_power: "2 ^ b AND j \<noteq> 0 \<longleftrightarrow> bit (j :: nat) b"
  using and_exp_eq_0_iff_not_bit [of j b] by (simp add: and.commute)

lemma xor_into:
  "i \<notin> set js \<Longrightarrow> i < length num \<Longrightarrow>
   fold (\<lambda>j num. if P j then num[i := num ! i \<noteq> num ! j] else num) js num =
     num[i := num ! i \<noteq> odd (length (filter (\<lambda>j. P j \<and> num ! j) js))]"
proof (induction js arbitrary: num)
  case (Cons j js)
  have "filter (\<lambda>k. P k \<and> num[i := v] ! k) js = filter (\<lambda>k. P k \<and> num ! k) js" for v
  proof (rule filter_cong)
    fix k assume "k \<in> set js"
    then have "k \<noteq> i" using Cons.prems(1) by auto
    then show "(P k \<and> num[i := v] ! k) = (P k \<and> num ! k)" by simp
  qed simp
  with Cons show ?case by (auto intro!: arg_cong [where f = "\<lambda>v. num[i := v]"])
qed simp

lemma hamming_a_step:
  assumes "length num = 64" and "b < 6"
  shows "fold (\<lambda>j num. if 2 ^ b AND j \<noteq> 0 then num[2 ^ b := num ! (2 ^ b) \<noteq> num ! j] else num) [2 ^ b..<64] num =
    fill_bit otpmk_weight b (2 ^ b) num"
proof -
  let ?i = "2 ^ b :: nat"
  have i: "?i < 64" using hamming_a.pos [OF assms(2)] .
  have u: "[?i..<64] = ?i # [?i + 1..<64]" using upt_conv_Cons [OF i] by simp
  have "filter (\<lambda>j. bit j b \<and> num[?i := False] ! j) [?i + 1..<64] = filter (\<lambda>j. bit (otpmk_weight j) b \<and> num ! j) [?i + 1..<64]"
    using assms(2) by (intro filter_cong) (auto simp: otpmk_weight_def bit_of_nat_iff)
  then show ?thesis
    unfolding u and_power fill_bit_def using i assms xor_into [of ?i "[?i + 1..<64]" "num[?i := False]" "\<lambda>j. bit j b"]
    by (simp add: bit_exp_iff)
qed

lemma doublings_powers: "doublings 1 32 = map ((^) 2) [0..<6]"
  by code_simp

lemma hamming_a_code_bits:
  assumes "length num = 64"
  shows "fold (\<lambda>i. fold (\<lambda>j num. if i AND j \<noteq> 0 then num[i := num ! i \<noteq> num ! j] else num) [i..<64]) (doublings 1 32) num =
    fold (\<lambda>b. fill_bit otpmk_weight b (2 ^ b)) [0..<6] num"
proof -
  have "fold (\<lambda>b. fold (\<lambda>j num. if 2 ^ b AND j \<noteq> 0 then num[2 ^ b := num ! (2 ^ b) \<noteq> num ! j] else num) [2 ^ b..<64]) bs num =
      fold (\<lambda>b. fill_bit otpmk_weight b (2 ^ b)) bs num" if "set bs \<subseteq> {0..<6}" "length num = 64" for bs num
    using that
  proof (induction bs arbitrary: num)
    case (Cons b bs)
    then show ?case using hamming_a_step [of num b] by (simp add: fill_bit_def)
  qed simp
  from this [of "[0..<6]"] assms show ?thesis unfolding doublings_powers fold_map comp_def by simp
qed

text \<open>The parity of all bits.\<close>

lemma nsyn_one: "nsyn (\<lambda>_. 1) num = of_bool (odd (length (filter ((!) num) [0..<64])))"
proof -
  have "xsum (\<lambda>i. if num ! i then 1 else 0) is = of_bool (odd (length (filter ((!) num) is)))" for "is"
    by (induction "is") auto
  then show ?thesis by (simp add: nsyn_def)
qed

lemma hamming_a_parity:
  assumes "length num = 64"
  shows "fold (\<lambda>j num. num[0 := num ! 0 \<noteq> num ! j]) [0..<64] num = num[0 := num ! 0 \<noteq> (nsyn (\<lambda>_. 1) num = 1)]"
proof -
  have u: "[0..<64] = 0 # [1..<64 :: nat]" using upt_conv_Cons [of 0 64] by simp
  have "filter (\<lambda>j. True \<and> num[0 := False] ! j) [1..<64] = filter ((!) num) [1..<64]" by (intro filter_cong) auto
  then show ?thesis
    unfolding nsyn_one unfolding u using xor_into [of 0 "[1..<64]" "num[0 := False]" "\<lambda>_. True"] assms by simp
qed

lemma hamming_a_code:
  assumes "length num = 64"
  shows "code_word otpmk_weight 64 (rev (generate_code_bits_hamming_A num))"
    and "i < 64 \<Longrightarrow> i \<noteq> 0 \<Longrightarrow> i \<notin> (^) 2 ` {0..<6} \<Longrightarrow> bit_at (rev (generate_code_bits_hamming_A num)) i = num ! i"
proof -
  let ?num = "fold (\<lambda>b. fill_bit otpmk_weight b (2 ^ b)) [0..<6] num"
  have l: "length ?num = 64" using assms by simp
  have g: "generate_code_bits_hamming_A num = collect_bits (?num[0 := ?num ! 0 \<noteq> (nsyn (\<lambda>_. 1) ?num = 1)])"
    unfolding generate_code_bits_hamming_A_def Let_def hamming_a_code_bits [OF assms] hamming_a_parity [OF l] ..
  show "code_word otpmk_weight 64 (rev (generate_code_bits_hamming_A num))"
    unfolding g by (rule hamming_a.closed [OF l hamming_a.filled_zero [OF assms] refl])
  show "bit_at (rev (generate_code_bits_hamming_A num)) i = num ! i" if "i < 64" "i \<noteq> 0" "i \<notin> (^) 2 ` {0..<6}"
    unfolding g using that hamming_a.fill_bits_keep [of i "[0..<6]" num] by (simp add: bit_at_collect)
qed

subsection \<open>Generator B\<close>

interpretation hamming_b: code_layout drvr_weight "\<lambda>b. 2 ^ b - 1" 63
proof
  have p: "(2 :: nat) ^ b < 64" if "b < 6" for b using power_strict_increasing [OF that, of "2 :: nat"] by simp
  have m: "(0x3f :: byte) = mask 6" by (simp add: mask_eq_exp_minus_1)
  fix b j :: nat
  show "b < 6 \<Longrightarrow> (2 :: nat) ^ b - 1 < 64" using p [of b] by simp
  show "drvr_weight (2 ^ b - 1) = push_bit b 1" if "b < 6"
  proof (rule word_unat_eq_iff [THEN iffD2])
    have "(2 :: byte) ^ b = of_nat (2 ^ b)" by simp
    then have "unat ((2 :: byte) ^ b) = 2 ^ b"
      using p [OF that] by (simp only: unat_of_nat) (simp add: take_bit_nat_eq_self)
    then show "unat (drvr_weight (2 ^ b - 1)) = unat (push_bit b 1 :: byte)"
      using that p [OF that] by (simp add: drvr_weight_eq push_bit_of_1)
  qed
  show "\<not> bit (drvr_weight j) b" if "b < 6" "j < 2 ^ b - 1"
  proof -
    have "\<not> bit (j + 1) b" using that by (simp add: bit_iff_odd)
    then show ?thesis by (simp add: drvr_weight_def bit_simps del: of_nat_add of_nat_Suc)
  qed
  show "j < 64 \<Longrightarrow> 6 \<le> b \<Longrightarrow> \<not> bit (drvr_weight j) b" unfolding drvr_weight_def m by (simp add: bit_simps)
qed (simp_all add: drvr_weight_def)

lemma parity_fold:
  "fold (\<lambda>j parity. if P j then parity \<noteq> Q j else parity) js p = (p \<noteq> odd (length (filter (\<lambda>j. P j \<and> Q j) js)))"
  by (induction js arbitrary: p) auto

lemma hamming_b_step:
  assumes "b < 6" and "\<not> num ! (2 ^ b - 1)"
  shows "num[2 ^ b - 1 := fold (\<lambda>j parity. if (2 ^ b - 1 + 1) AND (j + 1) \<noteq> 0 then parity \<noteq> num ! j else parity) [2 ^ b - 1 + 1..<64] (num ! (2 ^ b - 1))] =
    fill_bit drvr_weight b (2 ^ b - 1) num"
proof -
  have i: "(2 :: nat) ^ b - 1 + 1 = 2 ^ b" by simp
  have "(2 ^ b AND (j + 1) \<noteq> 0) = bit (drvr_weight j) b" for j :: nat
  proof -
    have m: "(0x3f :: byte) = mask 6" by (simp add: mask_eq_exp_minus_1)
    show ?thesis unfolding and_power drvr_weight_def m using assms(1) by (simp add: bit_simps del: of_nat_add of_nat_Suc)
  qed
  then show ?thesis unfolding i parity_fold fill_bit_def using assms(2) by simp
qed

lemma positions_powers:
  "code_positions 0 32 = map (\<lambda>b. 2 ^ b - 1) [0..<6]" "code_positions 0 64 = map (\<lambda>b. 2 ^ b - 1) [0..<7]"
  by code_simp+

lemma hamming_b_code_bits:
  assumes "set bs \<subseteq> {0..<6}" and "distinct bs" and "\<And>b. b \<in> set bs \<Longrightarrow> \<not> num ! (2 ^ b - 1)"
  shows "fold (\<lambda>i num. num[i := fold (\<lambda>j parity. if (i + 1) AND (j + 1) \<noteq> 0 then parity \<noteq> num ! j else parity) [i + 1..<64] (num ! i)])
      (map (\<lambda>b. 2 ^ b - 1) bs) num = fold (\<lambda>b. fill_bit drvr_weight b (2 ^ b - 1)) bs num"
  using assms
proof (induction bs arbitrary: num)
  case (Cons b bs)
  let ?num = "fill_bit drvr_weight b (2 ^ b - 1) num"
  have b: "b < 6" "\<not> num ! (2 ^ b - 1)" using Cons.prems by auto
  have "\<not> ?num ! (2 ^ c - 1)" if "c \<in> set bs" for c
  proof -
    have "(2 :: nat) ^ c - 1 \<noteq> 2 ^ b - 1"
      using that Cons.prems(2) by (metis distinct.simps(2) eq_diff_iff one_le_numeral one_le_power power_inject_exp one_less_numeral_iff semiring_norm(76))
    then show ?thesis using Cons.prems(3) [of c] that by (simp add: fill_bit_def)
  qed
  with Cons.IH [of ?num] Cons.prems(1,2) hamming_b_step [OF b] show ?case by simp
qed simp

lemma clear_bits:
  "length (fold (\<lambda>i num. num[i := False]) ps num) = length num"
  "i < length num \<Longrightarrow> fold (\<lambda>i num. num[i := False]) ps num ! i = (i \<notin> set ps \<and> num ! i)"
proof -
  show "length (fold (\<lambda>i num. num[i := False]) ps num) = length num" by (induction ps arbitrary: num) auto
  show "i < length num \<Longrightarrow> fold (\<lambda>i num. num[i := False]) ps num ! i = (i \<notin> set ps \<and> num ! i)"
  proof (induction ps arbitrary: num)
    case (Cons p ps)
    then show ?case by (cases "p = i") simp_all
  qed simp
qed

lemma hamming_b_code:
  assumes "length num = 64"
  shows "code_word drvr_weight 64 (rev (generate_code_bits_hamming_B num))"
    and "i < 64 \<Longrightarrow> i \<notin> (\<lambda>b. 2 ^ b - 1) ` {0..<7} \<Longrightarrow> bit_at (rev (generate_code_bits_hamming_B num)) i = num ! i"
proof -
  let ?ps = "map (\<lambda>b. 2 ^ b - 1) [0..<7] :: nat list"
  define z where "z = fold (\<lambda>i num. num[i := False]) ?ps num"
  define y where "y = fold (\<lambda>b. fill_bit drvr_weight b (2 ^ b - 1)) [0..<6] z"
  have z: "length z = 64" "\<And>i. i < 64 \<Longrightarrow> z ! i = (i \<notin> set ?ps \<and> num ! i)"
    unfolding z_def using clear_bits(2) [of _ num ?ps] assms by (simp_all only: clear_bits(1))
  have p: "(2 :: nat) ^ b < 64" if "b < 6" for b using power_strict_increasing [OF that, of "2 :: nat"] by simp
  have zb: "\<not> z ! (2 ^ b - 1)" if "b < 7" for b
  proof -
    have "(2 :: nat) ^ b \<le> 2 ^ 6" using that by (intro power_increasing) simp_all
    then have "(2 :: nat) ^ b - 1 < 64" by simp
    with z(2) that show ?thesis by auto
  qed
  have y1: "fold (\<lambda>i num. num[i := fold (\<lambda>j parity. if (i + 1) AND (j + 1) \<noteq> 0 then parity \<noteq> num ! j else parity) [i + 1..<64] (num ! i)])
      (map (\<lambda>b. 2 ^ b - 1) [0..<6]) z = y"
    unfolding y_def by (rule hamming_b_code_bits) (use zb in auto)
  have y: "length y = 64" "nsyn drvr_weight y = 0"
    unfolding y_def hamming_b.length_fill_bits by (fact z(1), rule hamming_b.filled_zero [OF z(1)])
  have keep: "y ! i = z ! i" if "i \<notin> (\<lambda>b. 2 ^ b - 1) ` {0..<6}" for i
    unfolding y_def using hamming_b.fill_bits_keep [of i "[0..<6]" z] that by simp
  have "63 \<notin> (\<lambda>b. 2 ^ b - 1 :: nat) ` {0..<6}" using p by fastforce
  then have y63: "\<not> y ! 63" using keep zb [of 6] by simp
  have par: "fold (\<lambda>j parity. parity \<noteq> y ! j) [0..<64] False = (nsyn (\<lambda>_. 1) y = 1)"
    using parity_fold [of "\<lambda>_. True" "(!) y" "[0..<64]" False] by (simp add: nsyn_one)
  have g: "generate_code_bits_hamming_B num = collect_bits (y[63 := y ! 63 \<noteq> (nsyn (\<lambda>_. 1) y = 1)])"
    unfolding generate_code_bits_hamming_B_def Let_def positions_powers z_def [symmetric] y1 par using y63 by simp
  show "code_word drvr_weight 64 (rev (generate_code_bits_hamming_B num))"
    unfolding g by (rule hamming_b.closed [OF y refl])
  show "bit_at (rev (generate_code_bits_hamming_B num)) i = num ! i" if "i < 64" "i \<notin> (\<lambda>b. 2 ^ b - 1) ` {0..<7}"
  proof -
    have "i \<noteq> 63" "i \<notin> (\<lambda>b. 2 ^ b - 1) ` {0..<6}" using that(2) image_eqI [of 63 "\<lambda>b. 2 ^ b - 1 :: nat" 6 "{0..<7}"] by auto
    then show ?thesis unfolding g using that keep [of i] z(2) [of i] by (simp add: bit_at_collect) 
  qed
qed

subsection \<open>The bits of the input\<close>

lemma fold_nested: "fold (\<lambda>i. fold (\<lambda>j. f i j) js) is s = fold (\<lambda>(i, j). f i j) (List.product is js) s"
proof (induction "is" arbitrary: s)
  case (Cons i "is")
  have "fold (\<lambda>j. f i j) js s = fold (\<lambda>(i, j). f i j) (map (Pair i) js) s" for s by (simp add: fold_map comp_def)
  with Cons show ?case by simp
qed simp

lemma fold_updates:
  "distinct (map f ks) \<Longrightarrow> k \<in> set ks \<Longrightarrow> f k < length num \<Longrightarrow> fold (\<lambda>k num. num[f k := v k]) ks num ! f k = v k"
proof (induction ks arbitrary: num)
  case (Cons a ks)
  have keep: "fold (\<lambda>k num. num[f k := v k]) ks num ! i = num ! i" if "i \<notin> f ` set ks" for i num
    using that by (induction ks arbitrary: num) auto
  show ?case
  proof (cases "k = a")
    case True
    with Cons.prems show ?thesis by (simp add: keep)
  next
    case False
    with Cons show ?thesis by simp
  qed
qed simp

lemma byte_mask: "j < 8 \<Longrightarrow> (x AND drop_bit j 0x80 \<noteq> 0) = bit (x :: byte) (7 - j)"
proof -
  assume j: "j < 8"
  have "drop_bit j ((2 :: byte) ^ m) = 2 ^ (m - j)" if "j \<le> m" "m < 8" for m
    using that by (intro bit_word_eqI) (auto simp: bit_simps)
  from this [of 7] j have "drop_bit j (0x80 :: byte) = 2 ^ (7 - j)" by simp
  then show ?thesis using and_exp_eq_0_iff_not_bit [of x "7 - j"] by simp
qed

lemma spread_bit:
  assumes "length drv = 8" and "i < 64"
  shows "spread_bits drv ! i = bit_at (rev drv) i"
proof -
  let ?f = "\<lambda>(i, j). 8 * 8 - i * 8 - 1 - j" and ?v = "\<lambda>(i, j). drv ! i AND drop_bit j 0x80 \<noteq> 0"
  let ?k = "(7 - i div 8, 7 - i mod 8)"
  have b: "i div 8 < 8" "i mod 8 < 8" using assms(2) by auto
  have d: "distinct (map ?f (List.product [0..<8] [0..<8]))" by code_simp
  have f: "?f ?k = i" using b by (simp add: algebra_simps)
  have s: "spread_bits drv = fold (\<lambda>k num. num[?f k := ?v k]) (List.product [0..<8] [0..<8]) (replicate 64 False)"
    unfolding spread_bits_def fold_nested by (intro arg_cong2 [of _ _ _ _ "\<lambda>f. fold f _"] ext) (auto simp: case_prod_beta)
  have "spread_bits drv ! ?f ?k = ?v ?k"
    unfolding s by (rule fold_updates [OF d]) (use assms(2) f in auto)
  then have "spread_bits drv ! i = bit (drv ! (7 - i div 8)) (i mod 8)" unfolding f using b by (simp add: byte_mask)
  then show ?thesis using assms(1) b by (simp add: bit_at_iff rev_nth)
qed

lemma length_updates: "length (fold (\<lambda>k num. num[f k := v k]) ks num) = length num"
  by (induction ks arbitrary: num) auto

lemma length_spread [simp]: "length (spread_bits drv) = 64"
proof -
  have "length (fold (\<lambda>i. fold (\<lambda>j num. num[f i j := g i j]) js) is num) = length num" for f :: "nat \<Rightarrow> nat \<Rightarrow> nat" and g js "is" and num :: "bool list"
    by (induction "is" arbitrary: num) (simp_all add: length_updates)
  then show ?thesis by (simp only: spread_bits_def length_replicate)
qed

section \<open>Properties\<close>

text \<open>
  \<open>otpmk_make_code_word_256\<close> and \<open>drvr_b_make_code_word_64\<close> turn every value into a code word that the
  check of the same file accepts, and never touch the bits that may already be blown: above bit 128 of the
  master key and between bits 32 and 62 of the debug response every bit stays as it was.
\<close>

theorem fuse_code_words:
  assumes "length x = 32" and "length y = 8" and "128 < i" and "i < 256" and "31 < j" and "j < 63"
  shows "otpmk_check_code_word_256 (otpmk_make_code_word_256 x) = 0 \<and> length (otpmk_make_code_word_256 x) = 32 \<and>
    bit_at (otpmk_make_code_word_256 x) i = bit_at x i \<and>
    drvr_b_check_code_word_64 (drvr_b_make_code_word_64 y) = 0 \<and> length (drvr_b_make_code_word_64 y) = 8 \<and>
    bit_at (drvr_b_make_code_word_64 y) j = bit_at y j"
  using otpmk_make_spec [OF assms(1)] drvr_make_spec [OF assms(2)] assms(3-6) by (simp add: otpmk_check_zero drvr_check_zero)

theorem fuse_code_words_witness:
  "otpmk_check_code_word_256 (otpmk_make_code_word_256 (replicate 32 0xA5)) = 0 \<and>
   bit_at (otpmk_make_code_word_256 (replicate 32 0xA5)) 255 = bit_at (replicate 32 0xA5) 255 \<and>
   drvr_b_check_code_word_64 (drvr_b_make_code_word_64 (replicate 8 0x1E)) = 0"
  using fuse_code_words [of "replicate 32 0xA5" "replicate 8 0x1E" 255 60] by simp

text \<open>
  C11: what the checks are good for. A value that passes no longer does once one or two of its bits are
  wrong, and after one wrong bit the result of the check names it. For the master key the result is the number
  of the bit in the low eight bits, with the parity above them. For the debug response it is the parity in
  bit 0 and, in bits 1 to 6, the number of the bit plus one, modulo 64: the six code bits in the order in which
  the check shifts them.
\<close>

theorem code_words_detect_errors:
  assumes "otpmk_check_code_word_256 x = 0" and "length x = 32" and "i < 256" and "k < 256" and "i \<noteq> k"
    and "drvr_b_check_code_word_64 y = 0" and "length y = 8" and "j < 64" and "l < 64" and "j \<noteq> l"
  shows "otpmk_check_code_word_256 (invert_bit i x) = int i + 256 \<and> otpmk_check_code_word_256 (invert_bit i (invert_bit k x)) \<noteq> 0 \<and>
    drvr_b_check_code_word_64 (invert_bit j y) = 1 + 2 * int ((j + 1) mod 64) \<and>
    drvr_b_check_code_word_64 (invert_bit j (invert_bit l y)) \<noteq> 0"
proof -
  have x: "code_word otpmk_weight 256 x" "256 \<le> 8 * length x" and y: "code_word drvr_weight 64 y" "64 \<le> 8 * length y"
    using assms by (simp_all add: otpmk_check_zero drvr_check_zero)
  have "uint (of_nat i :: byte) = int i" using assms(3) by (simp add: unsigned_of_nat take_bit_nat_eq_self)
  moreover have "int i OR 256 = int i + 256"
  proof -
    have "\<not> bit (int i) 8" using assms(3) by (simp add: bit_iff_odd)
    then have "int i AND 2 ^ 8 = 0" unfolding and_exp_eq_0_iff_not_bit .
    from disjunctive_add_eq_or [OF this] show ?thesis by simp
  qed
  ultimately have "otpmk_check_code_word_256 (invert_bit i x) = int i + 256"
    using x assms(3) by (simp add: otpmk_check_code_word_256_def scan_bits_syndrome code_word_def syndrome_invert otpmk_weight_def)
  moreover
  have "syndrome drvr_weight 64 (invert_bit j y) = of_nat ((j + 1) mod 64)"
    using drvr.single_error(2) [OF y(1) assms(8) y(2)] drvr_weight_eq [OF assms(8)] by (metis of_nat_unat ucast_id)
  then have "drvr_b_check_code_word_64 (invert_bit j y) = 1 + 2 * int ((j + 1) mod 64)"
    using y assms(8) drvr_check_odd [of "(j + 1) mod 64"] by (simp add: drvr_check_value code_word_def syndrome_invert)
  ultimately show ?thesis
    using otpmk.double_error [OF x(1) assms(3-5) x(2)] drvr.double_error [OF y(1) assms(8-10) y(2)]
    by (simp add: otpmk_check_zero drvr_check_zero)
qed

theorem code_words_detect_errors_witness:
  "otpmk_check_code_word_256 (invert_bit 200 (replicate 32 0)) = 456 \<and>
   drvr_b_check_code_word_64 (invert_bit 5 (replicate 8 0)) = 13 \<and>
   drvr_b_check_code_word_64 (invert_bit 5 (invert_bit 63 (replicate 8 0))) \<noteq> 0"
proof -
  have z: "bit_at (replicate n 0) i = False" if "i < 8 * n" for n i
  proof -
    have "i div 8 < n" using that by auto
    then show ?thesis by (simp add: bit_at_iff)
  qed
  have "syndrome w n (replicate m 0) = 0" if "n \<le> 8 * m" for w n m
  proof -
    have "syndrome w n (replicate m 0) = xsum (\<lambda>_. 0) [0..<n]" unfolding syndrome_def by (rule xsum_cong) (use that z in auto)
    also have "xsum (\<lambda>_. 0) xs = 0" for xs :: "nat list" by (induction xs) simp_all
    finally show ?thesis .
  qed
  then have "otpmk_check_code_word_256 (replicate 32 0) = 0" "drvr_b_check_code_word_64 (replicate 8 0) = 0"
    by (simp_all add: otpmk_check_zero drvr_check_zero code_word_def)
  from code_words_detect_errors [OF this(1) _ _ _ _ this(2), of 200 0 5 63] show ?thesis by simp
qed

text \<open>
  the generators of \<open>gen_drv_drbg\<close> are systematic encoders. The eight bytes of the tool hold the most
  significant byte first. Generator B yields a value that the check of the library accepts; generator A one
  in which the indices of the ones add up to 0 and their number is even. All bits other than the code
  and parity bits are those of the input.
\<close>

theorem generators_encode:
  assumes "length drv = 8" and "i < 64"
  shows "drvr_b_check_code_word_64 (rev (generate_code_bits_hamming_B (spread_bits drv))) = 0 \<and>
    code_word otpmk_weight 64 (rev (generate_code_bits_hamming_A (spread_bits drv))) \<and>
    (i \<notin> {0, 1, 3, 7, 15, 31, 63} \<longrightarrow>
       bit_at (rev (generate_code_bits_hamming_B (spread_bits drv))) i = bit_at (rev drv) i) \<and>
    (i \<notin> {0, 1, 2, 4, 8, 16, 32} \<longrightarrow>
       bit_at (rev (generate_code_bits_hamming_A (spread_bits drv))) i = bit_at (rev drv) i)"
proof -
  have s: "spread_bits drv ! i = bit_at (rev drv) i" by (rule spread_bit [OF assms])
  have "(\<lambda>b. 2 ^ b - 1) ` {0..<7} = {0, 1, 3, 7, 15, 31, 63 :: nat}" "(^) 2 ` {0..<6} = {1, 2, 4, 8, 16, 32 :: nat}"
    by code_simp+
  with hamming_b_code [of "spread_bits drv"] hamming_a_code [of "spread_bits drv"] s assms(2) show ?thesis
    by (simp add: drvr_check_zero)
qed

theorem generators_encode_witness:
  "drvr_b_check_code_word_64 (rev (generate_code_bits_hamming_B (spread_bits [1, 2, 3, 4, 5, 6, 7, 8]))) = 0 \<and>
   bit_at (rev (generate_code_bits_hamming_B (spread_bits [1, 2, 3, 4, 5, 6, 7, 8]))) 56 = True"
  using generators_encode [of "[1, 2, 3, 4, 5, 6, 7, 8]" 56] by (simp add: bit_at_def)

end
