(* ===== verification/Get_Rand.thy ===== *)
theory Get_Rand
  imports Cavp Code_Word
begin

text \<open>
  The processes of the random number generator and the functions that serve random values and code words to
  the tools (\<open>cst/lib_hash_drbg/src\<close>: \<open>hash_drbg.c\<close>, \<open>entropy.c\<close>, \<open>get_rand.c\<close>, \<open>otpmk.c\<close>, \<open>drvr.c\<close>).

  The state of the process is a record: the instance of the generator, the device that \<open>entropy.c\<close> has
  opened (\<open>Some True\<close> for \<open>/dev/urandom\<close>), the variable \<open>urandom\<close>, and the state of the operating system.
  What the operating system does is an argument: whether a device can be opened, what \<open>getc\<close> returns, whether a
  process named \<open>rngd\<close> runs. The build's parameters (the flags of the Makefile) and the tables of the
  self-tests are a record too.
\<close>

section \<open>Environment and state\<close>

record 'o entropy_os =
  os_fopen :: "bool \<Rightarrow> 'o \<Rightarrow> bool \<times> 'o"
  os_getc :: "bool \<Rightarrow> 'o \<Rightarrow> byte option \<times> 'o"
  os_rngd :: "'o \<Rightarrow> bool \<times> 'o"

record drbg_build =
  severity :: bool
  tpm_required :: bool
  pred_res :: bool
  reseed_max_long :: u32
  reseed_max_short :: u32
  sha_short :: "sha_msg_test list"
  sha_long :: "sha_msg_test list"
  sha_monte_seed :: "byte list"
  sha_monte :: "byte list list"
  hash_drbg_tests :: "hash_drbg_test list"

record 'o process =
  drbg :: HASH_DRBG_CTX
  entropy_fp :: "bool option"
  urandom :: byte
  os :: 'o

section \<open>Entropy\<close>

abbreviation (input) CATASTROPHIC_ERROR :: ret_code where "CATASTROPHIC_ERROR \<equiv> Code 3"

text \<open>Bytes of the open device, up to the end of the file.\<close>

primrec read_entropy :: "'o entropy_os \<Rightarrow> bool \<Rightarrow> nat \<Rightarrow> 'o \<Rightarrow> byte list option \<times> 'o" where
  "read_entropy E dev 0 s = (Some [], s)"
| "read_entropy E dev (Suc n) s =
     (case os_getc E dev s of
        (None, s) \<Rightarrow> (None, s)
      | (Some b, s) \<Rightarrow> (case read_entropy E dev n s of (bs, s) \<Rightarrow> (map_option ((#) b) bs, s)))"

definition get_entropy :: "'o entropy_os \<Rightarrow> drbg_build \<Rightarrow> nat \<Rightarrow> 'o process \<Rightarrow> ret_code \<times> byte list \<times> 'o process" where
  "get_entropy E B n p =
     (let dev = (urandom p = 1);
          p = (if entropy_fp p = None then
                 case os_fopen E dev (os p) of (ok, s) \<Rightarrow> p\<lparr>entropy_fp := (if ok then Some dev else None), os := s\<rparr>
               else p)
      in case entropy_fp p of
           None \<Rightarrow> (if severity B then Exited else CATASTROPHIC_ERROR, [], p)
         | Some d \<Rightarrow> (case read_entropy E d n (os p) of
               (None, s) \<Rightarrow> (CATASTROPHIC_ERROR, [], p\<lparr>os := s\<rparr>)
             | (Some bs, s) \<Rightarrow> (SUCCESS, bs, p\<lparr>os := s\<rparr>)))"

definition is_hw_rng_supported :: "'o entropy_os \<Rightarrow> 'o process \<Rightarrow> bool \<times> 'o process" where
  "is_hw_rng_supported E p = (case os_rngd E (os p) of (r, s) \<Rightarrow> (r, p\<lparr>os := s\<rparr>))"

section \<open>The processes\<close>

definition is_hash_drbg_instantiated :: "'o process \<Rightarrow> bool" where
  "is_hash_drbg_instantiated p \<longleftrightarrow> drbg_state (drbg p) = INSTANTIATED"

definition is_hash_drbg_uninstantiated :: "'o process \<Rightarrow> bool" where
  "is_hash_drbg_uninstantiated p \<longleftrightarrow> drbg_state (drbg p) = UNINSTANTIATED"

text \<open>The sum of the self-tests; \<open>None\<close> if the process ended in one of them. \<open>data\<close> is a local array.\<close>

definition self_tests :: "drbg_build \<Rightarrow> HASH_DRBG_CTX \<Rightarrow> (nat option \<times> HASH_DRBG_CTX) option" where
  "self_tests B g = do {
     a \<leftarrow> sha256_testMsg (sha_short B);
     b \<leftarrow> sha256_testMsg (sha_long B);
     c \<leftarrow> sha256_Monte (sha_monte_seed B) (sha_monte B);
     (d, g) \<leftarrow> hash_drbg_selftest (severity B) (hash_drbg_tests B) (replicate 1000 0xCC) g;
     Some (map_option ((+) (a + b + c)) d, g) }"

text \<open>The part of the process after the self-tests.\<close>

definition start_instance :: "'o entropy_os \<Rightarrow> drbg_build \<Rightarrow> buffer \<Rightarrow> u32 \<Rightarrow> bool \<Rightarrow> 'o process \<Rightarrow> (ret_code \<times> 'o process) option" where
  "start_instance E B pers pers_len tpm p =
     (if pers_len > 1000 then Some (ERROR_FLAG, p)
      else let (hw, p) = is_hw_rng_supported E p in
        if \<not> hw \<and> tpm then Some (if severity B then Exited else ERROR_FLAG, p)
        else let interval = (if hw then reseed_max_short B else reseed_max_long B);
                 (r, bs, p) = get_entropy E B 64 p in
          if r = SUCCESS then do {
            (r, g, _, _) \<leftarrow> hash_drbg_instantiate_alg pers pers_len (Some (take 32 bs)) 32 (Some (drop 32 bs)) 32 interval (drbg p);
            Some (r, p\<lparr>drbg := g\<rparr>) }
          else Some (r, p))"

definition hash_drbg_instantiate :: "'o entropy_os \<Rightarrow> drbg_build \<Rightarrow> buffer \<Rightarrow> u32 \<Rightarrow> bool \<Rightarrow> 'o process \<Rightarrow> (ret_code \<times> 'o process) option" where
  "hash_drbg_instantiate E B pers pers_len tpm p =
     (if drbg_state (drbg p) = INSTANTIATED then Some (ERROR_FLAG, p)
      else do {
        (fails, g) \<leftarrow> self_tests B (drbg p);
        let p = p\<lparr>drbg := g\<rparr>;
        case fails of
          None \<Rightarrow> Some (Exited, p)
        | Some n \<Rightarrow>
            if n > 0 then Some (if severity B then Exited else ERROR_FLAG, p)
            else start_instance E B pers pers_len tpm p })"

definition hash_drbg_reseed :: "'o entropy_os \<Rightarrow> drbg_build \<Rightarrow> buffer \<Rightarrow> u32 \<Rightarrow> 'o process \<Rightarrow> (ret_code \<times> 'o process) option" where
  "hash_drbg_reseed E B add_input add_input_len p =
     (if drbg_state (drbg p) \<noteq> INSTANTIATED then Some (ERROR_FLAG, p)
      else if add_input_len > 1000 then Some (ERROR_FLAG, p)
      else let (r, bs, p) = get_entropy E B 32 p in
        if r = SUCCESS then do {
          (r, g, _) \<leftarrow> hash_drbg_reseed_alg add_input add_input_len (Some bs) 32 (drbg p);
          Some (r, p\<lparr>drbg := g\<rparr>) }
        else Some (r, p))"

text \<open>\<open>pred_res_req == 1\<close> is a truth value here.\<close>

definition hash_drbg_generate ::
    "'o entropy_os \<Rightarrow> drbg_build \<Rightarrow> buffer \<Rightarrow> u32 \<Rightarrow> byte list \<Rightarrow> u32 \<Rightarrow> bool \<Rightarrow> 'o process \<Rightarrow> (ret_code \<times> byte list \<times> 'o process) option" where
  "hash_drbg_generate E B add_input add_input_len out out_len pred_res_req p =
     (if drbg_state (drbg p) \<noteq> INSTANTIATED then Some (ERROR_FLAG, out, p)
      else if out_len > REQUEST_MAX then Some (ERROR_FLAG, out, p)
      else if add_input_len > 1000 then Some (ERROR_FLAG, out, p)
      else do {
        (r, len, p) \<leftarrow> (if reseed_count (drbg p) > reseed_interval (drbg p) \<or> pred_res_req then do {
               (r, p) \<leftarrow> hash_drbg_reseed E B add_input add_input_len p;
               Some (r, 0, p) }
             else Some (SUCCESS, add_input_len, p));
        if r \<noteq> SUCCESS then Some (r, out, p)
        else do {
          (r, out, g) \<leftarrow> hash_drbg_generate_alg (severity B) add_input len out out_len (drbg p);
          Some (r, out, p\<lparr>drbg := g\<rparr>) } })"

section \<open>Random values\<close>

definition OPTMK_STRING :: buffer where
  "OPTMK_STRING = Some [0x4F, 0x50, 0x54, 0x4D, 0x4B, 0x5F, 0x53, 0x54, 0x52, 0x49, 0x4E, 0x47, 0]"

definition get_rand_bytes :: "'o entropy_os \<Rightarrow> drbg_build \<Rightarrow> byte list \<Rightarrow> int \<Rightarrow> 'o process \<Rightarrow> (ret_code \<times> byte list \<times> 'o process) option" where
  "get_rand_bytes E B bytes byte_len p = do {
     (r, p) \<leftarrow> (if is_hash_drbg_uninstantiated p then hash_drbg_instantiate E B OPTMK_STRING 12 (tpm_required B) p else Some (SUCCESS, p));
     if r \<noteq> SUCCESS then Some (r, bytes, p)
     else if \<not> is_hash_drbg_instantiated p then Some (if severity B then Exited else ERROR_FLAG, bytes, p)
     else do {
       (r, bytes, p) \<leftarrow> hash_drbg_generate E B None 0 bytes (of_int byte_len) (pred_res B) p;
       Some (if r \<noteq> SUCCESS \<and> severity B then Exited else r, bytes, p) } }"

text \<open>
  The bits of a byte array, from the last byte to the first and from bit \<open>excess\<close> down to 0; \<open>rd\<close> is
  the byte array, which may be the array that is written.
\<close>

definition store_bit :: "(byte list \<Rightarrow> byte list) \<Rightarrow> nat \<Rightarrow> nat \<Rightarrow> byte list \<Rightarrow> byte list option" where
  "store_bit rd i j bits = poke bits (i * 8 + j) [drop_bit j (rd bits ! i) AND 1]"

primrec bit_loop :: "(byte list \<Rightarrow> byte list) \<Rightarrow> nat \<Rightarrow> nat \<Rightarrow> byte list \<Rightarrow> byte list option" where
  "bit_loop rd i 0 bits = store_bit rd i 0 bits"
| "bit_loop rd i (Suc j) bits = do { bits \<leftarrow> store_bit rd i (Suc j) bits; bit_loop rd i j bits }"

primrec byte_loop :: "(byte list \<Rightarrow> byte list) \<Rightarrow> nat \<Rightarrow> nat \<Rightarrow> byte list \<Rightarrow> byte list option" where
  "byte_loop rd 0 excess bits = Some bits"
| "byte_loop rd (Suc i) excess bits = do { bits \<leftarrow> bit_loop rd i excess bits; byte_loop rd i 8 bits }"

definition bytes_to_bits :: "(byte list \<Rightarrow> byte list) \<Rightarrow> byte list \<Rightarrow> nat \<Rightarrow> byte list option" where
  "bytes_to_bits rd bits bit_len =
     (let byte_len = (bit_len + 7) div 8; excess = bit_len - (byte_len - 1) * 8 in byte_loop rd byte_len excess bits)"

text \<open>The conversion in place; the lengths are positive.\<close>

definition get_rand_bits :: "'o entropy_os \<Rightarrow> drbg_build \<Rightarrow> byte list \<Rightarrow> nat \<Rightarrow> 'o process \<Rightarrow> (ret_code \<times> byte list \<times> 'o process) option" where
  "get_rand_bits E B bits bit_len p = do {
     (r, bits, p) \<leftarrow> get_rand_bytes E B bits (int ((bit_len + 7) div 8)) p;
     bits \<leftarrow> (if r = SUCCESS then bytes_to_bits (\<lambda>b. b) bits bit_len else Some bits);
     Some (r, bits, p) }"

section \<open>Fuse values\<close>

definition otpmk_get_rand_256 :: "'o entropy_os \<Rightarrow> drbg_build \<Rightarrow> byte list \<Rightarrow> bool \<Rightarrow> byte \<Rightarrow> 'o process \<Rightarrow> (ret_code \<times> byte list \<times> 'o process) option" where
  "otpmk_get_rand_256 E B otpmk with_f uran p = do {
     (r, otpmk, p) \<leftarrow> get_rand_bytes E B otpmk 32 (p\<lparr>urandom := uran\<rparr>);
     let otpmk = (if with_f then fold force_bit [252, 253, 254, 255] otpmk else otpmk);
     Some (r, if r = SUCCESS then otpmk_make_code_word_256 otpmk else otpmk, p) }"

definition otpmk_get_rand_bits_256 :: "'o entropy_os \<Rightarrow> drbg_build \<Rightarrow> byte list \<Rightarrow> bool \<Rightarrow> byte \<Rightarrow> 'o process \<Rightarrow> (ret_code \<times> byte list \<times> 'o process) option" where
  "otpmk_get_rand_bits_256 E B otpmk_bits with_f uran p = do {
     (r, otpmk, p) \<leftarrow> otpmk_get_rand_256 E B (replicate 32 0xCC) with_f uran p;
     otpmk_bits \<leftarrow> (if r = SUCCESS then bytes_to_bits (\<lambda>_. otpmk) otpmk_bits 256 else Some otpmk_bits);
     Some (r, otpmk_bits, p) }"

definition drvr_b_get_rand_64 :: "'o entropy_os \<Rightarrow> drbg_build \<Rightarrow> byte list \<Rightarrow> bool \<Rightarrow> 'o process \<Rightarrow> (ret_code \<times> byte list \<times> 'o process) option" where
  "drvr_b_get_rand_64 E B drvr with_1e p = do {
     (r, drvr, p) \<leftarrow> get_rand_bytes E B drvr 8 p;
     let drvr = (if with_1e then fold force_bit [60, 59, 58, 57] drvr else drvr);
     Some (r, if r = SUCCESS then drvr_b_make_code_word_64 drvr else drvr, p) }"

definition drvr_b_get_rand_bits_64 :: "'o entropy_os \<Rightarrow> drbg_build \<Rightarrow> byte list \<Rightarrow> bool \<Rightarrow> 'o process \<Rightarrow> (ret_code \<times> byte list \<times> 'o process) option" where
  "drvr_b_get_rand_bits_64 E B drvr_bits with_1e p = do {
     (r, drvr, p) \<leftarrow> drvr_b_get_rand_64 E B (replicate 8 0xCC) with_1e p;
     drvr_bits \<leftarrow> (if r = SUCCESS then bytes_to_bits (\<lambda>_. drvr) drvr_bits 64 else Some drvr_bits);
     Some (r, drvr_bits, p) }"


section \<open>Invariant\<close>

text \<open>The tables hold well-formed vectors, and the limits between reseeds are sensible.\<close>

definition tables_ok :: "drbg_build \<Rightarrow> bool" where
  "tables_ok B \<longleftrightarrow> (\<exists>vs. list_all2 describes (sha_short B) vs) \<and> (\<exists>vs. list_all2 describes (sha_long B) vs) \<and>
     (\<exists>s ds. sha_monte_seed B = hex_32 s \<and> length s = 32 \<and> sha_monte B = map hex_32 ds \<and> list_all (\<lambda>d. length d = 32) ds) \<and>
     list_all terminated (hash_drbg_tests B)"

definition build_ok :: "drbg_build \<Rightarrow> bool" where
  "build_ok B \<longleftrightarrow> tables_ok B \<and> list_all (\<lambda>n. 1 \<le> n \<and> n < 0xFFFFFFFF) [reseed_max_long B, reseed_max_short B]"

definition drbg_ok :: "drbg_build \<Rightarrow> HASH_DRBG_CTX \<Rightarrow> bool" where
  "drbg_ok B g \<longleftrightarrow> instance_ok g \<and> drbg_state g \<in> {UNINSTANTIATED, INSTANTIATED, ERROR_STATE} \<and>
     (drbg_state g = UNINSTANTIATED \<longrightarrow> wiped g) \<and>
     (drbg_state g = INSTANTIATED \<longrightarrow> reseed_interval g \<in> {reseed_max_long B, reseed_max_short B} \<and>
        1 \<le> unat (reseed_count g) \<and> unat (reseed_count g) \<le> unat (reseed_interval g) + 1)"

lemma drbg_okD: "drbg_ok B g \<Longrightarrow> instance_ok g"
  by (simp add: drbg_ok_def)

lemma interval_bounds:
  assumes "build_ok B" and "n \<in> {reseed_max_long B, reseed_max_short B}"
  shows "1 \<le> unat n" and "unat n < 4294967295"
  using assms by (auto simp: build_ok_def word_less_nat_alt word_le_nat_alt)

lemma read_entropy_length: "read_entropy E d n s = (Some bs, s') \<Longrightarrow> length bs = n"
  by (induction n arbitrary: s bs s') (auto split: prod.splits option.splits)

lemma get_entropy_keeps:
  assumes "get_entropy E B n p = (r, bs, p')"
  shows "drbg p' = drbg p" and "r = SUCCESS \<Longrightarrow> length bs = n" and "r = SUCCESS \<Longrightarrow> entropy_fp p' \<noteq> None"
    and "r \<in> {SUCCESS, CATASTROPHIC_ERROR} \<or> r = Exited \<and> severity B"
  using assms by (auto simp: get_entropy_def Let_def split: option.splits prod.splits if_splits dest: read_entropy_length)

lemma self_tests_return:
  assumes "tables_ok B" and "instance_ok g"
  shows "\<exists>n g'. self_tests B g = Some (n, g') \<and> instance_ok g' \<and> (n \<noteq> None \<longrightarrow> wiped g' \<or> g' = g)"
proof -
  obtain a b c where "sha256_testMsg (sha_short B) = Some a" "sha256_testMsg (sha_long B) = Some b" "sha256_Monte (sha_monte_seed B) (sha_monte B) = Some c"
    using assms(1) count_fails_decides [OF _ hex_test_decides] count_fails_decides [OF _ bytes_test_decides] monte_outer_chain strncpy_digest
    by (fastforce simp: tables_ok_def sha256_testMsg_def sha256_Monte_def)
  moreover obtain n g' where "hash_drbg_selftest (severity B) (hash_drbg_tests B) (replicate 1000 0xCC) g = Some (n, g')" "instance_ok g'"
    "n \<noteq> None \<longrightarrow> wiped g' \<or> g' = g"
    using selftest_returns [OF _ assms(2), of "hash_drbg_tests B" "replicate 1000 0xCC" "severity B"] assms(1)
    by (cases "hash_drbg_tests B = []") (auto simp: tables_ok_def)
  ultimately show ?thesis by (auto simp: self_tests_def)
qed

lemma start_instance_eq:
  assumes "is_hw_rng_supported E p = (hw, p1)" and "get_entropy E B 64 p1 = (r, bs, p2)"
  shows "start_instance E B pers pers_len tpm p =
    (if pers_len > 1000 then Some (ERROR_FLAG, p)
     else if \<not> hw \<and> tpm then Some (if severity B then Exited else ERROR_FLAG, p1)
     else if r \<noteq> SUCCESS then Some (r, p2)
     else do {
       (r, g, _, _) \<leftarrow> hash_drbg_instantiate_alg pers pers_len (Some (take 32 bs)) 32 (Some (drop 32 bs)) 32
         (if hw then reseed_max_short B else reseed_max_long B) (drbg p2);
       Some (r, p2\<lparr>drbg := g\<rparr>) })"
  unfolding start_instance_def Let_def assms by (simp add: assms)

text \<open>A call that returns without ending the process keeps the invariant.\<close>

lemma start_instance_keeps:
  assumes "start_instance E B pers pers_len tpm p = Some (r, p')" and "drbg_ok B (drbg p)" and "r \<noteq> Exited"
    and "build_ok B"
  shows "drbg_ok B (drbg p') \<and> (r = SUCCESS \<longrightarrow> is_hash_drbg_instantiated p')"
proof -
  obtain hw p1 where 1: "is_hw_rng_supported E p = (hw, p1)" by fastforce
  then have d1: "drbg p1 = drbg p" by (auto simp: is_hw_rng_supported_def split: prod.splits)
  let ?n = "if hw then reseed_max_short B else reseed_max_long B"
  obtain r2 bs p2 where 2: "get_entropy E B 64 p1 = (r2, bs, p2)" by (metis prod_cases3)
  note k = get_entropy_keeps [OF 2]
  show ?thesis
  proof (cases "pers_len > 1000 \<or> \<not> hw \<and> tpm \<or> r2 \<noteq> SUCCESS")
    case True
    then show ?thesis using assms d1 k(1) unfolding start_instance_eq [OF 1 2] by (auto split: if_splits)
  next
    case False
    then obtain g e n where 3: "hash_drbg_instantiate_alg pers pers_len (Some (take 32 bs)) 32 (Some (drop 32 bs)) 32 ?n (drbg p2) = Some (r, g, e, n)" "p' = p2\<lparr>drbg := g\<rparr>"
      using assms(1) unfolding start_instance_eq [OF 1 2] by (auto split: bind_splits)
    have "instance_ok (drbg p2)" using k(1) d1 drbg_okD [OF assms(2)] by simp
    from instantiate_alg_keeps [OF 3(1) this] have
      "instance_ok g" "reseed_interval g = ?n" "reseed_count g = 1" "drbg_state g = (if r = SUCCESS then INSTANTIATED else ERROR_STATE)" by auto
    then show ?thesis using 3(2) by (auto simp: drbg_ok_def is_hash_drbg_instantiated_def)
  qed
qed

lemma instantiate_keeps:
  assumes "hash_drbg_instantiate E B pers pers_len tpm p = Some (r, p')" and "drbg_ok B (drbg p)" and "r \<noteq> Exited" and "build_ok B"
  shows "drbg_ok B (drbg p') \<and> (r = SUCCESS \<longrightarrow> is_hash_drbg_instantiated p')"
proof (cases "drbg_state (drbg p) = INSTANTIATED")
  case True
  then show ?thesis using assms by (auto simp: hash_drbg_instantiate_def)
next
  case False
  obtain n g where 1: "self_tests B (drbg p) = Some (n, g)" "instance_ok g" "n \<noteq> None \<longrightarrow> wiped g \<or> g = drbg p"
    using self_tests_return [OF _ drbg_okD [OF assms(2)], of B] assms(4) unfolding build_ok_def by blast
  have n: "n \<noteq> None" using assms(1,3) 1(1) False by (cases n) (auto simp: hash_drbg_instantiate_def)
  then have ok: "drbg_ok B g" using 1(2,3) assms(2) by (auto simp: drbg_ok_def wiped_def)
  show ?thesis
  proof (cases "n = Some 0")
    case True
    then show ?thesis using assms(1) 1(1) False start_instance_keeps [of E B pers pers_len tpm "p\<lparr>drbg := g\<rparr>"] ok assms(3,4)
      by (simp add: hash_drbg_instantiate_def)
  next
    case False
    with n assms(1,3) 1(1) \<open>drbg_state (drbg p) \<noteq> INSTANTIATED\<close> ok show ?thesis by (auto simp: hash_drbg_instantiate_def split: if_splits)
  qed
qed

lemma reseed_keeps:
  assumes "hash_drbg_reseed E B add_input add_input_len p = Some (r, p')" and "drbg_ok B (drbg p)" and "build_ok B"
  shows "drbg_ok B (drbg p') \<and> drbg_state (drbg p') = drbg_state (drbg p) \<and> reseed_interval (drbg p') = reseed_interval (drbg p) \<and>
    (r = SUCCESS \<longrightarrow> reseed_count (drbg p') = 1)"
proof -
  obtain r1 bs p1 where 1: "get_entropy E B 32 p = (r1, bs, p1)" by (metis prod_cases3)
  note k = get_entropy_keeps [OF 1]
  show ?thesis
  proof (cases "drbg_state (drbg p) \<noteq> INSTANTIATED \<or> add_input_len > 1000 \<or> r1 \<noteq> SUCCESS")
    case True
    then show ?thesis using assms(1,2) 1 k(1,4) by (auto simp: hash_drbg_reseed_def split: if_splits)
  next
    case False
    then obtain g e where 2: "hash_drbg_reseed_alg add_input add_input_len (Some bs) 32 (drbg p) = Some (r, g, e)" "p' = p1\<lparr>drbg := g\<rparr>"
      using assms(1) 1 k(1) by (auto simp: hash_drbg_reseed_def split: bind_splits)
    from reseed_alg_keeps [OF 2(1) drbg_okD [OF assms(2)]] 2(2) assms(2) False show ?thesis by (auto simp: drbg_ok_def)
  qed
qed

section \<open>Generation\<close>

text \<open>The generate process in one of two forms: from the state as it is, or from a reseeded one.\<close>

definition due :: "bool \<Rightarrow> HASH_DRBG_CTX \<Rightarrow> bool" where
  "due req g \<longleftrightarrow> reseed_count g > reseed_interval g \<or> req"

lemma generate_current:
  assumes "drbg_state (drbg p) = INSTANTIATED" and "out_len \<le> REQUEST_MAX" and "add_input_len \<le> 1000" and "\<not> due req (drbg p)"
  shows "hash_drbg_generate E B add_input add_input_len out out_len req p = do {
     (r, out, g) \<leftarrow> hash_drbg_generate_alg (severity B) add_input add_input_len out out_len (drbg p);
     Some (r, out, p\<lparr>drbg := g\<rparr>) }"
  using assms by (auto simp: hash_drbg_generate_def due_def)

lemma generate_reseeded:
  assumes "drbg_state (drbg p) = INSTANTIATED" and "out_len \<le> REQUEST_MAX" and "add_input_len \<le> 1000" and "due req (drbg p)"
  shows "hash_drbg_generate E B add_input add_input_len out out_len req p = do {
     (r, p) \<leftarrow> hash_drbg_reseed E B add_input add_input_len p;
     if r \<noteq> SUCCESS then Some (r, out, p)
     else do {
       (r, out, g) \<leftarrow> hash_drbg_generate_alg (severity B) add_input 0 out out_len (drbg p);
       Some (r, out, p\<lparr>drbg := g\<rparr>) } }"
proof -
  have f: "\<not> out_len > REQUEST_MAX" "\<not> add_input_len > 1000" using assms(2,3) by auto
  show ?thesis using assms(1,4) f
    by (cases "hash_drbg_reseed E B add_input add_input_len p") (auto simp: hash_drbg_generate_def due_def)
qed

lemma count_after:
  assumes "drbg_ok B g" and "drbg_state g = INSTANTIATED" and "unat (reseed_count g) \<le> unat (reseed_interval g)" and "build_ok B"
    and "instance_ok g'" and "drbg_state g' = INSTANTIATED" and "reseed_interval g' = reseed_interval g"
    and "reseed_count g' = reseed_count g + 1 \<or> reseed_count g' = reseed_count g"
  shows "drbg_ok B g'"
proof -
  have i: "reseed_interval g \<in> {reseed_max_long B, reseed_max_short B}" "1 \<le> unat (reseed_count g)" using assms(1,2) by (simp_all add: drbg_ok_def)
  have "unat (reseed_count g + 1) = unat (reseed_count g) + 1"
    using assms(3) interval_bounds(2) [OF assms(4) i(1)] by (simp add: unat_word_ariths)
  then show ?thesis using assms i by (auto simp: drbg_ok_def)
qed

lemma generate_keeps:
  assumes "hash_drbg_generate E B add_input add_input_len out out_len req p = Some (r, out', p')" and "drbg_ok B (drbg p)" and "build_ok B"
  shows "drbg_ok B (drbg p') \<and> length out' = length out"
proof (cases "drbg_state (drbg p) = INSTANTIATED \<and> out_len \<le> REQUEST_MAX \<and> add_input_len \<le> 1000")
  case True
  then have c: "drbg_state (drbg p) = INSTANTIATED" "out_len \<le> REQUEST_MAX" "add_input_len \<le> 1000" by auto
  show ?thesis
  proof (cases "due req (drbg p)")
    case False
    obtain g where g: "hash_drbg_generate_alg (severity B) add_input add_input_len out out_len (drbg p) = Some (r, out', g)" "p' = p\<lparr>drbg := g\<rparr>"
      using assms(1) unfolding generate_current [OF c False] by (auto split: bind_splits)
    have "unat (reseed_count (drbg p)) \<le> unat (reseed_interval (drbg p))" using False by (simp add: due_def word_less_nat_alt)
    with generate_alg_keeps [OF g(1) drbg_okD [OF assms(2)]] g(2) count_after [OF assms(2) c(1) _ assms(3)] c(1) show ?thesis by auto
  next
    case True
    obtain r1 p1 where 1: "hash_drbg_reseed E B add_input add_input_len p = Some (r1, p1)"
      using assms(1) unfolding generate_reseeded [OF c True] by (auto split: bind_splits)
    note k = reseed_keeps [OF 1 assms(2,3)]
    show ?thesis
    proof (cases "r1 = SUCCESS")
      case False
      then show ?thesis using assms(1) 1 k unfolding generate_reseeded [OF c True] by auto
    next
      case s: True
      obtain g where g: "hash_drbg_generate_alg (severity B) add_input 0 out out_len (drbg p1) = Some (r, out', g)" "p' = p1\<lparr>drbg := g\<rparr>"
        using assms(1) 1 s unfolding generate_reseeded [OF c True] by (auto split: bind_splits)
      have "unat (reseed_count (drbg p1)) \<le> unat (reseed_interval (drbg p1))"
        using k s c(1) interval_bounds(1) [OF assms(3)] by (auto simp: drbg_ok_def)
      with generate_alg_keeps [OF g(1)] g(2) count_after [of B "drbg p1" g] k c(1) assms(3) drbg_okD show ?thesis by auto
    qed
  qed
next
  case False
  then show ?thesis using assms by (auto simp: hash_drbg_generate_def split: if_splits)
qed

text \<open>The first part of \<open>get_rand_bytes\<close>.\<close>

definition ensure_instance :: "'o entropy_os \<Rightarrow> drbg_build \<Rightarrow> 'o process \<Rightarrow> (ret_code \<times> 'o process) option" where
  "ensure_instance E B p = (if is_hash_drbg_uninstantiated p then hash_drbg_instantiate E B OPTMK_STRING 12 (tpm_required B) p else Some (SUCCESS, p))"

lemma get_rand_bytes_cases:
  assumes "get_rand_bytes E B bytes n p = Some (r, bytes', p')"
  obtains (refused) "bytes' = bytes" "ensure_instance E B p = Some (r, p')" "r \<noteq> SUCCESS"
    | (broken) "bytes' = bytes" "ensure_instance E B p = Some (SUCCESS, p')" "r = (if severity B then Exited else ERROR_FLAG)" "\<not> is_hash_drbg_instantiated p'"
    | (generated) p1 r1 where "ensure_instance E B p = Some (SUCCESS, p1)" "is_hash_drbg_instantiated p1"
        "hash_drbg_generate E B None 0 bytes (of_int n) (pred_res B) p1 = Some (r1, bytes', p')"
        "r = (if r1 \<noteq> SUCCESS \<and> severity B then Exited else r1)"
proof -
  obtain r1 p1 where 1: "ensure_instance E B p = Some (r1, p1)" using assms by (auto simp: get_rand_bytes_def ensure_instance_def split: bind_splits)
  with assms refused broken generated show thesis
    by (cases "r1 = SUCCESS"; cases "is_hash_drbg_instantiated p1")
      (auto simp: get_rand_bytes_def ensure_instance_def [symmetric] split: bind_splits)
qed

lemma ensure_instance_keeps:
  assumes "ensure_instance E B p = Some (r, p')" and "drbg_ok B (drbg p)" and "build_ok B" and "r \<noteq> Exited"
  shows "drbg_ok B (drbg p')"
  using assms instantiate_keeps by (fastforce simp: ensure_instance_def split: if_splits)

lemma get_rand_bytes_keeps:
  assumes "get_rand_bytes E B bytes n p = Some (r, bytes', p')" and "drbg_ok B (drbg p)" and "build_ok B" and "r \<noteq> Exited"
  shows "drbg_ok B (drbg p') \<and> length bytes' = length bytes"
  using assms(1)
proof (cases rule: get_rand_bytes_cases)
  case refused
  then show ?thesis using ensure_instance_keeps assms(2-4) by blast
next
  case broken
  then show ?thesis using ensure_instance_keeps [of E B p SUCCESS p'] assms(2-3) by simp
next
  case (generated p1 r1)
  then show ?thesis using ensure_instance_keeps [of E B p SUCCESS p1] generate_keeps [OF generated(3) _ assms(3)] assms(2,3) by simp
qed

text \<open>Every call of the library, and the states that sequences of calls reach while the process lives.\<close>

datatype drbg_call =
    Instantiate buffer u32 bool
  | Reseed buffer u32
  | Generate buffer u32 "byte list" u32 bool
  | Uninstantiate
  | Rand_Bytes "byte list" int
  | Rand_Bits "byte list" nat
  | Otpmk "byte list" bool byte
  | Otpmk_Bits "byte list" bool byte
  | Drvr "byte list" bool
  | Drvr_Bits "byte list" bool

fun run_call :: "'o entropy_os \<Rightarrow> drbg_build \<Rightarrow> drbg_call \<Rightarrow> 'o process \<Rightarrow> (ret_code \<times> byte list \<times> 'o process) option" where
  "run_call E B (Instantiate s n tpm) p = map_option (\<lambda>(r, p). (r, [], p)) (hash_drbg_instantiate E B s n tpm p)"
| "run_call E B (Reseed a n) p = map_option (\<lambda>(r, p). (r, [], p)) (hash_drbg_reseed E B a n p)"
| "run_call E B (Generate a n out len req) p = hash_drbg_generate E B a n out len req p"
| "run_call E B Uninstantiate p = (case hash_drbg_uninstantiate (drbg p) of (r, g) \<Rightarrow> Some (r, [], p\<lparr>drbg := g\<rparr>))"
| "run_call E B (Rand_Bytes out n) p = get_rand_bytes E B out n p"
| "run_call E B (Rand_Bits out n) p = get_rand_bits E B out n p"
| "run_call E B (Otpmk out f u) p = otpmk_get_rand_256 E B out f u p"
| "run_call E B (Otpmk_Bits out f u) p = otpmk_get_rand_bits_256 E B out f u p"
| "run_call E B (Drvr out f) p = drvr_b_get_rand_64 E B out f p"
| "run_call E B (Drvr_Bits out f) p = drvr_b_get_rand_bits_64 E B out f p"

inductive drbg_reaches :: "'o entropy_os \<Rightarrow> drbg_build \<Rightarrow> 'o process \<Rightarrow> bool" for E B where
  start: "drbg p = initial_instance \<Longrightarrow> drbg_reaches E B p"
| call: "drbg_reaches E B p \<Longrightarrow> run_call E B c p = Some (r, out, p') \<Longrightarrow> r \<noteq> Exited \<Longrightarrow> drbg_reaches E B p'"

lemma run_call_keeps:
  assumes "run_call E B c p = Some (r, out, p')" and "drbg_ok B (drbg p)" and "build_ok B" and "r \<noteq> Exited"
  shows "drbg_ok B (drbg p')"
proof -
  note rand = get_rand_bytes_keeps [OF _ _ assms(3,4)]
  show ?thesis
  proof (cases c)
    case Uninstantiate
    then show ?thesis using assms(1,2) by (auto simp: hash_drbg_uninstantiate_def drbg_ok_def instance_ok_def wiped_def split: if_splits)
  next
    case (Instantiate s n tpm)
    then show ?thesis using assms instantiate_keeps by fastforce
  next
    case (Reseed a n)
    then show ?thesis using assms reseed_keeps by fastforce
  next
    case (Generate a n o1 len req)
    then show ?thesis using assms generate_keeps by fastforce
  next
    case (Rand_Bytes o1 n)
    then show ?thesis using assms(1,2) rand by fastforce
  next
    case (Rand_Bits o1 n)
    then show ?thesis using assms(1,2) rand by (fastforce simp: get_rand_bits_def split: bind_splits)
  next
    case (Otpmk o1 f u)
    then show ?thesis using assms(1,2) rand by (fastforce simp: otpmk_get_rand_256_def Let_def split: bind_splits)
  next
    case (Otpmk_Bits o1 f u)
    then show ?thesis using assms(1,2) rand by (fastforce simp: otpmk_get_rand_bits_256_def otpmk_get_rand_256_def Let_def split: bind_splits)
  next
    case (Drvr o1 f)
    then show ?thesis using assms(1,2) rand by (fastforce simp: drvr_b_get_rand_64_def Let_def split: bind_splits)
  next
    case (Drvr_Bits o1 f)
    then show ?thesis using assms(1,2) rand by (fastforce simp: drvr_b_get_rand_bits_64_def drvr_b_get_rand_64_def Let_def split: bind_splits)
  qed
qed

lemma drbg_reaches_ok: "drbg_reaches E B p \<Longrightarrow> build_ok B \<Longrightarrow> drbg_ok B (drbg p)"
proof (induction rule: drbg_reaches.induct)
  case (start p)
  then show ?case by (simp add: drbg_ok_def instance_ok_def initial_instance_def wiped_def)
next
  case (call p c r out p')
  then show ?case using run_call_keeps by blast
qed


section \<open>Random values and the standard\<close>

lemma reseed_sp:
  assumes "instance_ok (drbg p)" and "drbg_state (drbg p) = INSTANTIATED" and "add_input_len \<le> 1000"
    and "read_bytes add_input (unat add_input_len) = Some a" and "get_entropy E B 32 p = (SUCCESS, bs, p1)"
  shows "\<exists>g. hash_drbg_reseed E B add_input add_input_len p = Some (SUCCESS, p1\<lparr>drbg := g\<rparr>) \<and> working_state g = sp_reseed (working_state (drbg p)) bs a \<and>
    instance_ok g \<and> drbg_state g = INSTANTIATED \<and> comp_block g = comp_block (drbg p)"
proof -
  note k = get_entropy_keeps [OF assms(5)]
  have r: "read_bytes (Some bs) (unat (32 :: u32)) = Some bs" using k(2) by (simp add: read_bytes_def)
  from reseed_alg_sp [OF assms(1-3) _ assms(4) r] k(1) assms(2,3,5) show ?thesis by (auto simp: hash_drbg_reseed_def)
qed

lemma reseed_fails:
  assumes "drbg_state (drbg p) = INSTANTIATED" and "add_input_len \<le> 1000" and "get_entropy E B 32 p = (r, bs, p1)" and "r \<noteq> SUCCESS"
  shows "hash_drbg_reseed E B add_input add_input_len p = Some (r, p1)"
  using assms by (auto simp: hash_drbg_reseed_def)

lemma generate_current_sp:
  assumes "build_ok B" and "drbg_ok B (drbg p)" and "drbg_state (drbg p) = INSTANTIATED" and "out_len \<le> REQUEST_MAX" and "unat out_len \<le> length out"
    and "unat add_input_len \<le> 944" and "read_bytes add_input (unat add_input_len) = Some a" and "\<not> due req (drbg p)"
  shows "\<exists>r out' g. hash_drbg_generate E B add_input add_input_len out out_len req p = Some (r, out', p\<lparr>drbg := g\<rparr>) \<and>
    generate_outcome (severity B) (drbg p) a (unat out_len) out r out' g"
proof -
  have a: "add_input_len \<le> 1000" using assms(6) by (simp add: word_le_nat_alt)
  have "unat (reseed_count (drbg p)) \<le> unat (reseed_interval (drbg p))" using assms(8) by (simp add: due_def word_less_nat_alt)
  then have c: "reseed_count (drbg p) < 0xFFFFFFFF"
    using interval_bounds(2) [OF assms(1)] assms(2,3) by (fastforce simp: word_less_nat_alt drbg_ok_def)
  from generate_alg_sp [OF drbg_okD [OF assms(2)] assms(3-7) c, of "severity B"] generate_current [OF assms(3,4) a assms(8)]
  show ?thesis by auto
qed

lemma generate_reseeded_sp:
  assumes "drbg_ok B (drbg p)" and "drbg_state (drbg p) = INSTANTIATED" and "out_len \<le> REQUEST_MAX" and "unat out_len \<le> length out"
    and "add_input_len \<le> 1000" and "read_bytes add_input (unat add_input_len) = Some a" and "due req (drbg p)"
    and "get_entropy E B 32 p = (SUCCESS, bs, p1)"
  shows "\<exists>g1 r out' g. hash_drbg_generate E B add_input add_input_len out out_len req p = Some (r, out', p1\<lparr>drbg := g\<rparr>) \<and>
    working_state g1 = sp_reseed (working_state (drbg p)) bs a \<and> comp_block g1 = comp_block (drbg p) \<and>
    generate_outcome (severity B) g1 [] (unat out_len) out r out' g"
proof -
  obtain g1 where g1: "hash_drbg_reseed E B add_input add_input_len p = Some (SUCCESS, p1\<lparr>drbg := g1\<rparr>)" "working_state g1 = sp_reseed (working_state (drbg p)) bs a"
    "instance_ok g1" "drbg_state g1 = INSTANTIATED" "comp_block g1 = comp_block (drbg p)"
    using reseed_sp [OF drbg_okD [OF assms(1)] assms(2,5,6,8)] by auto
  have "unat (reseed_count g1) = 1" using g1(2) by (auto simp: working_state_def sp_reseed_def sp_seed_def Let_def split: prod.splits)
  then have c: "reseed_count g1 < 0xFFFFFFFF" by (simp add: word_less_nat_alt)
  have z: "unat (0 :: u32) \<le> 944" "read_bytes add_input (unat (0 :: u32)) = Some []" by (simp_all add: read_bytes_def)
  obtain r out' g where g: "hash_drbg_generate_alg (severity B) add_input 0 out out_len g1 = Some (r, out', g)"
    "generate_outcome (severity B) g1 [] (unat out_len) out r out' g"
    using generate_alg_sp [OF g1(3,4) assms(3,4) z c, of "severity B"] by auto
  have "hash_drbg_generate E B add_input add_input_len out out_len req p = Some (r, out', p1\<lparr>drbg := g\<rparr>)"
    using generate_reseeded [OF assms(2,3,5,7), of E B add_input out] g1(1) g(1) by simp
  with g1(2,5) g(2) show ?thesis by blast
qed

section \<open>Calls return\<close>

lemma start_instance_returns:
  assumes "instance_ok (drbg p)" and "pers_len \<le> 1000" and "read_bytes pers (unat pers_len) = Some s"
  shows "start_instance E B pers pers_len tpm p \<noteq> None"
proof -
  obtain hw p1 where 1: "is_hw_rng_supported E p = (hw, p1)" by fastforce
  then have d1: "drbg p1 = drbg p" by (auto simp: is_hw_rng_supported_def split: prod.splits)
  obtain r bs p2 where 2: "get_entropy E B 64 p1 = (r, bs, p2)" by (metis prod_cases3)
  note k = get_entropy_keeps [OF 2]
  have "instance_ok (drbg p2)" using assms(1) k(1) d1 by simp
  moreover have "r = SUCCESS \<Longrightarrow> read_bytes (Some (take 32 bs)) (unat (32 :: u32)) = Some (take 32 bs)"
    "r = SUCCESS \<Longrightarrow> read_bytes (Some (drop 32 bs)) (unat (32 :: u32)) = Some (drop 32 bs)"
    using k(2) by (simp_all add: read_bytes_def)
  ultimately show ?thesis unfolding start_instance_eq [OF 1 2]
    using instantiate_alg_sp [of "drbg p2" pers_len 32 32 pers s "Some (take 32 bs)" "take 32 bs" "Some (drop 32 bs)" "drop 32 bs"
      "if hw then reseed_max_short B else reseed_max_long B"] assms(2,3) by (auto simp: not_less)
qed

lemma ensure_instance_returns:
  assumes "build_ok B" and "instance_ok (drbg p)"
  shows "ensure_instance E B p \<noteq> None"
proof -
  obtain n g where 1: "self_tests B (drbg p) = Some (n, g)" "instance_ok g"
    using self_tests_return [OF _ assms(2), of B] assms(1) unfolding build_ok_def by blast
  have o: "read_bytes OPTMK_STRING (unat (12 :: u32)) = Some (take 12 (the OPTMK_STRING))" by (simp add: OPTMK_STRING_def read_bytes_def)
  have "start_instance E B OPTMK_STRING 12 (tpm_required B) (p\<lparr>drbg := g\<rparr>) \<noteq> None"
    by (rule start_instance_returns [OF _ _ o]) (use 1(2) in simp_all)
  then show ?thesis using 1(1) by (auto simp: ensure_instance_def hash_drbg_instantiate_def Let_def split: option.splits)
qed

lemma get_rand_bytes_returns:
  assumes "build_ok B" and "drbg_ok B (drbg p)" and "n \<le> 1000000" and "n \<le> length bytes"
  shows "get_rand_bytes E B bytes (int n) p \<noteq> None"
proof -
  obtain r p1 where 1: "ensure_instance E B p = Some (r, p1)" using ensure_instance_returns [OF assms(1) drbg_okD [OF assms(2)]] by (metis prod.exhaust option.exhaust)
  let ?n = "of_int (int n) :: u32"
  have n: "unat ?n = n" using assms(3) by (simp add: unat_of_nat take_bit_nat_eq_self)
  have m: "?n \<le> REQUEST_MAX" "unat ?n \<le> length bytes" unfolding word_le_nat_alt n using assms(3,4) by simp_all
  have z: "read_bytes None (unat (0 :: u32)) = Some []" by (simp add: read_bytes_def)
  show ?thesis
  proof (cases "r = SUCCESS \<and> is_hash_drbg_instantiated p1")
    case True
    then have i: "drbg_ok B (drbg p1)" "drbg_state (drbg p1) = INSTANTIATED"
      using ensure_instance_keeps [OF 1 assms(2,1)] by (auto simp: is_hash_drbg_instantiated_def)
    have "hash_drbg_generate E B None 0 bytes ?n (pred_res B) p1 \<noteq> None"
    proof (cases "due (pred_res B) (drbg p1)")
      case False
      then show ?thesis using generate_current_sp [OF assms(1) i m _ z, of "pred_res B" E] by auto
    next
      case True
      obtain r2 bs p2 where 2: "get_entropy E B 32 p1 = (r2, bs, p2)" by (metis prod_cases3)
      show ?thesis
      proof (cases "r2 = SUCCESS")
        case s: True
        then show ?thesis using generate_reseeded_sp [OF i m _ z True] 2 by fastforce
      next
        case False
        then show ?thesis using reseed_fails [OF i(2) _ 2 False, of 0 None] generate_reseeded [OF i(2) m(1) _ True, of 0 E B None] by simp
      qed
    qed
    then show ?thesis using 1 True by (auto simp: get_rand_bytes_def ensure_instance_def [symmetric])
  next
    case False
    then show ?thesis using 1 by (auto simp: get_rand_bytes_def ensure_instance_def [symmetric])
  qed
qed

section \<open>Bits\<close>

lemma bit_at_force:
  assumes "i < 8 * length x" and "k < 8 * length x"
  shows "bit_at (force_bit k x) i = (i = k \<or> bit_at x i)"
proof (cases "i div 8 = k div 8")
  case True
  have l: "k div 8 < length x" "i mod 8 < 8" "k mod 8 < 8" using assms by auto
  have "i = k \<longleftrightarrow> i mod 8 = k mod 8" using True by (metis mult_div_mod_eq)
  then show ?thesis using True l by (auto simp: bit_at_iff force_bit_def bit_simps)
next
  case False
  then show ?thesis by (auto simp: bit_at_iff force_bit_def)
qed

lemma force_bits:
  "list_all (\<lambda>k. k < 8 * length x) ks \<Longrightarrow> i < 8 * length x \<Longrightarrow> bit_at (fold force_bit ks x) i = (i \<in> set ks \<or> bit_at x i)"
  "length (fold force_bit ks x) = length x"
proof -
  show l: "length (fold force_bit ks x) = length x" for ks x by (induction ks arbitrary: x) simp_all
  show "list_all (\<lambda>k. k < 8 * length x) ks \<Longrightarrow> i < 8 * length x \<Longrightarrow> bit_at (fold force_bit ks x) i = (i \<in> set ks \<or> bit_at x i)"
    by (induction ks arbitrary: x) (auto simp: bit_at_force)
qed

lemma forced_otpmk:
  assumes "length x = 32"
  shows "list_all (bit_at (otpmk_make_code_word_256 (fold force_bit [252, 253, 254, 255] x))) [252, 253, 254, 255]"
proof -
  define y where "y = fold force_bit [252, 253, 254, 255] x"
  have y: "length y = 32" unfolding y_def force_bits(2) by (rule assms)
  have "bit_at y i" if "i \<in> set [252, 253, 254, 255]" for i
    unfolding y_def using force_bits(1) [of x "[252, 253, 254, 255]" i] assms that by auto
  with otpmk_make_spec(3) [OF y] show ?thesis unfolding y_def [symmetric] by (simp add: list_all_iff)
qed

lemma forced_drvr:
  assumes "length x = 8"
  shows "list_all (bit_at (drvr_b_make_code_word_64 (fold force_bit [60, 59, 58, 57] x))) [57, 58, 59, 60]"
proof -
  define y where "y = fold force_bit [60, 59, 58, 57] x"
  have y: "length y = 8" unfolding y_def force_bits(2) by (rule assms)
  have "bit_at y i" if "i \<in> set [57, 58, 59, 60]" for i
    unfolding y_def using force_bits(1) [of x "[60, 59, 58, 57]" i] assms that by auto
  with drvr_make_spec(3) [OF y] show ?thesis unfolding y_def [symmetric] by (simp add: list_all_iff)
qed

text \<open>
  What the conversion stores: bit \<open>k\<close> of the array in place \<open>k\<close>, except that the loop for every byte but the last
  also clears the lowest bit of the next one.
\<close>

definition spread :: "byte list \<Rightarrow> nat \<Rightarrow> byte" where
  "spread bytes k = (if k mod 8 = 0 \<and> 0 < k then 0 else of_bool (bit_at bytes k))"

lemma shift_and_1: "drop_bit j b AND 1 = (of_bool (bit b j) :: byte)"
  by (simp add: and_one_eq mod_2_eq_odd bit_iff_odd_drop_bit)

lemma bit_loop_stores:
  assumes "i * 8 + j < length bits"
  shows "\<exists>bits'. bit_loop (\<lambda>_. bytes) i j bits = Some bits' \<and> length bits' = length bits \<and>
    (\<forall>k < length bits. bits' ! k = (if i * 8 \<le> k \<and> k \<le> i * 8 + j then of_bool (bit (bytes ! i) (k - i * 8)) else bits ! k))"
  using assms
proof (induction j arbitrary: bits)
  case 0
  then show ?case by (auto simp: store_bit_def shift_and_1 poke_next nth_append nth_Cons' bit_0 and_one_eq mod_2_eq_odd)
next
  case (Suc j)
  let ?b = "bits[i * 8 + Suc j := of_bool (bit (bytes ! i) (Suc j))]"
  have s: "store_bit (\<lambda>_. bytes) i (Suc j) bits = Some ?b"
    using Suc.prems by (simp add: store_bit_def shift_and_1 poke_next upd_conv_take_nth_drop)
  obtain b' where b: "bit_loop (\<lambda>_. bytes) i j ?b = Some b'" "length b' = length bits"
    "\<forall>k < length bits. b' ! k = (if i * 8 \<le> k \<and> k \<le> i * 8 + j then of_bool (bit (bytes ! i) (k - i * 8)) else ?b ! k)"
    using Suc.IH [of ?b] Suc.prems by auto
  have "b' ! k = (if i * 8 \<le> k \<and> k \<le> i * 8 + Suc j then of_bool (bit (bytes ! i) (k - i * 8)) else bits ! k)" if "k < length bits" for k
    using b(3) that by (cases "k = i * 8 + Suc j") (auto simp: nth_list_update)
  with b(1,2) s show ?case by simp
qed

lemma byte_loop_stores:
  assumes "n * 8 < length bits"
  shows "\<exists>bits'. byte_loop (\<lambda>_. bytes) n 8 bits = Some bits' \<and> length bits' = length bits \<and>
    (\<forall>k < length bits. bits' ! k = (if 0 < n \<and> k \<le> n * 8 then spread bytes k else bits ! k))"
  using assms
proof (induction n arbitrary: bits)
  case (Suc i)
  obtain b where b: "bit_loop (\<lambda>_. bytes) i 8 bits = Some b" "length b = length bits"
    "\<forall>k < length bits. b ! k = (if i * 8 \<le> k \<and> k \<le> i * 8 + 8 then of_bool (bit (bytes ! i) (k - i * 8)) else bits ! k)"
    using bit_loop_stores [of i 8 bits bytes] Suc.prems by auto
  obtain b' where c: "byte_loop (\<lambda>_. bytes) i 8 b = Some b'" "length b' = length bits"
    "\<forall>k < length bits. b' ! k = (if 0 < i \<and> k \<le> i * 8 then spread bytes k else b ! k)"
    using Suc.IH [of b] b(2) Suc.prems by auto
  have "b' ! k = (if k \<le> Suc i * 8 then spread bytes k else bits ! k)" if k: "k < length bits" for k
  proof -
    consider (low) "0 < i \<and> k \<le> i * 8" | (mid) "i * 8 \<le> k" "k < i * 8 + 8" "\<not> (0 < i \<and> k \<le> i * 8)" | (top) "k = i * 8 + 8" | (high) "k > i * 8 + 8" by linarith
    then show ?thesis
    proof cases
      case low
      then show ?thesis using c(3) k by simp
    next
      case mid
      then have "k div 8 = i" by (intro div_nat_eqI) simp_all
      then have d: "k div 8 = i" "k mod 8 = k - i * 8" using minus_div_mult_eq_mod [of k 8] by simp_all
      have "\<not> (k mod 8 = 0 \<and> 0 < k)" unfolding d(2) using mid by auto
      then show ?thesis using mid c(3) b(3) k d by (auto simp: spread_def bit_at_iff)
    next
      case top
      have "\<not> bit (bytes ! i) 8" using bit_imp_le_length [of "bytes ! i" 8] by auto
      then show ?thesis using top c(3) b(3) k by (simp add: spread_def)
    next
      case high
      then show ?thesis using c(3) b(3) k by simp
    qed
  qed
  with b(1) c(1,2) show ?case by simp
qed simp

lemma bytes_to_bits_overflow:
  assumes "0 < n" and "length bits \<le> n"
  shows "bytes_to_bits rd bits n = None"
proof -
  obtain i where i: "(n + 7) div 8 = Suc i" using assms(1) by (cases "(n + 7) div 8") auto
  then have e: "i * 8 + (n - i * 8) = n" by linarith
  have "bit_loop rd i (n - i * 8) bits = None"
    using assms(2) e by (cases "n - i * 8") (simp_all add: store_bit_def poke_def)
  then show ?thesis using i by (simp add: bytes_to_bits_def)
qed

section \<open>Properties\<close>

text \<open>A system whose devices always deliver and on which no \<open>rngd\<close> runs, and a build with one vector.\<close>

definition sample_os :: "nat entropy_os" where
  "sample_os = \<lparr>os_fopen = \<lambda>_ s. (True, s), os_getc = \<lambda>_ s. (Some (of_nat s), Suc s), os_rngd = \<lambda>s. (False, s)\<rparr>"

definition sample_build :: drbg_build where
  "sample_build = \<lparr>severity = True, tpm_required = False, pred_res = False, reseed_max_long = 10000, reseed_max_short = 1000,
     sha_short = [abc_test (fips_sha256 [0x61, 0x62, 0x63])], sha_long = [], sha_monte_seed = hex_32 (replicate 32 0), sha_monte = [], hash_drbg_tests = []\<rparr>"

definition fresh_process :: "nat process" where
  "fresh_process = \<lparr>drbg = initial_instance, entropy_fp = None, urandom = 0, os = 0\<rparr>"

definition sample_process :: "nat process" where
  "sample_process = fresh_process\<lparr>drbg := sample_instance\<rparr>"

lemma sample_build_ok: "build_ok sample_build"
proof -
  have "\<exists>vs. list_all2 describes (sha_short sample_build) vs"
    using abc_test_describes [OF length_fips_sha256] by (auto simp: sample_build_def list_all2_Cons1)
  then show ?thesis by (auto simp: build_ok_def tables_ok_def sample_build_def intro!: exI [of _ "replicate 32 0"])
qed

lemma sample_process_ok: "drbg_ok sample_build (drbg sample_process)"
  by (simp add: drbg_ok_def sample_process_def sample_build_def)

lemma fresh_reaches: "drbg_reaches E B fresh_process"
  by (rule drbg_reaches.start) (simp add: fresh_process_def)

text \<open>
  C8: The life of the generator. Whatever calls of the library a process makes, in any order, while it has not
  ended: the registers keep their sizes, an uninstantiated generator holds no secret (\<open>V\<close> and \<open>C\<close> are zero), and an
  instantiated one counts the requests since it was last seeded, between 1 and one more than the interval
  the build fixes: no seed serves more requests than that.
\<close>

theorem generator_invariant:
  assumes "drbg_reaches E B p" and "build_ok B"
  shows "drbg_ok B (drbg p)"
  by (rule drbg_reaches_ok [OF assms])

theorem generator_invariant_witness: "drbg_ok sample_build (drbg fresh_process)"
  by (rule generator_invariant [OF fresh_reaches sample_build_ok])

text \<open>
  The generate process. On an instantiated generator within the invariant and for a request within the limits,
  \<open>hash_drbg_generate\<close> works on the state as it is as long as no reseed is due; when one is due
  (the interval is used up or prediction resistance is requested) it takes 32 bytes of entropy, reseeds with
  them and the additional input, which is not used again, and generates from that state. If
  the entropy cannot be had, its error is returned and neither the output nor the generator changes.
\<close>

theorem generate_reseeds_when_due:
  assumes "build_ok B" and "drbg_ok B (drbg p)" and "drbg_state (drbg p) = INSTANTIATED" and "out_len \<le> REQUEST_MAX" and "unat out_len \<le> length out"
    and "unat add_input_len \<le> 944" and "read_bytes add_input (unat add_input_len) = Some a" and "get_entropy E B 32 p = (r, bs, p1)"
  shows "if \<not> due req (drbg p) then
      \<exists>r' out' g. hash_drbg_generate E B add_input add_input_len out out_len req p = Some (r', out', p\<lparr>drbg := g\<rparr>) \<and>
        generate_outcome (severity B) (drbg p) a (unat out_len) out r' out' g
    else if r = SUCCESS then
      \<exists>g1 r' out' g. hash_drbg_generate E B add_input add_input_len out out_len req p = Some (r', out', p1\<lparr>drbg := g\<rparr>) \<and>
        length bs = 32 \<and> working_state g1 = sp_reseed (working_state (drbg p)) bs a \<and> comp_block g1 = comp_block (drbg p) \<and>
        generate_outcome (severity B) g1 [] (unat out_len) out r' out' g
    else hash_drbg_generate E B add_input add_input_len out out_len req p = Some (r, out, p1) \<and> drbg p1 = drbg p"
proof -
  have a: "add_input_len \<le> 1000" using assms(6) by (simp add: word_le_nat_alt)
  note k = get_entropy_keeps [OF assms(8)]
  show ?thesis
  proof (cases "due req (drbg p)")
    case False
    with generate_current_sp [OF assms(1-7) False, of E] show ?thesis by simp
  next
    case True
    show ?thesis
    proof (cases "r = SUCCESS")
      case s: True
      with generate_reseeded_sp [OF assms(2-5) a assms(7) True, of E bs p1] True k(2) assms(8) show ?thesis by simp
    next
      case False
      with reseed_fails [OF assms(3) a assms(8) False, of add_input] generate_reseeded [OF assms(3,4) a True, of E B add_input out] True k(1)
      show ?thesis by simp
    qed
  qed
qed

theorem generate_reseeds_when_due_witness:
  "\<exists>r out' g. hash_drbg_generate sample_os sample_build None 0 (replicate 32 0) 32 False sample_process = Some (r, out', sample_process\<lparr>drbg := g\<rparr>) \<and>
    generate_outcome True sample_instance [] 32 (replicate 32 0) r out' g"
proof -
  obtain r bs p1 where "get_entropy sample_os sample_build 32 sample_process = (r, bs, p1)" by (metis prod_cases3)
  from generate_reseeds_when_due [OF sample_build_ok sample_process_ok _ _ _ _ _ this, of 32 "replicate 32 0" 0 None "[]" False] show ?thesis
    by (simp add: read_bytes_def due_def sample_process_def sample_build_def)
qed

text \<open>
  C10: Random fuse values. In every state a process can reach, \<open>otpmk_get_rand_256\<close> on a buffer of 32 bytes and
  \<open>drvr_b_get_rand_64\<close> on one of 8 return (they instantiate the generator if that has not happened). When they
  report SUCCESS, the value passes the check of its code and, if asked for, the four bits that may be
  blown already (252 to 255, and 57 to 60) are set.
\<close>

theorem fuse_values_are_code_words:
  assumes "drbg_reaches E B p" and "build_ok B" and "length otpmk = 32" and "length drvr = 8"
  shows "\<exists>r x q r' y q'. otpmk_get_rand_256 E B otpmk with_f uran p = Some (r, x, q) \<and> drvr_b_get_rand_64 E B drvr with_1e p = Some (r', y, q') \<and>
    (r = SUCCESS \<longrightarrow> length x = 32 \<and> otpmk_check_code_word_256 x = 0 \<and> (with_f \<longrightarrow> list_all (bit_at x) [252, 253, 254, 255])) \<and>
    (r' = SUCCESS \<longrightarrow> length y = 8 \<and> drvr_b_check_code_word_64 y = 0 \<and> (with_1e \<longrightarrow> list_all (bit_at y) [57, 58, 59, 60]))"
proof -
  have ok: "drbg_ok B (drbg p)" "drbg_ok B (drbg (p\<lparr>urandom := uran\<rparr>))" using drbg_reaches_ok [OF assms(1,2)] by simp_all
  obtain r x q where 1: "get_rand_bytes E B otpmk 32 (p\<lparr>urandom := uran\<rparr>) = Some (r, x, q)"
    using get_rand_bytes_returns [OF assms(2) ok(2), of 32 otpmk E] assms(3) by fastforce
  obtain r' y q' where 2: "get_rand_bytes E B drvr 8 p = Some (r', y, q')"
    using get_rand_bytes_returns [OF assms(2) ok(1), of 8 drvr E] assms(4) by fastforce
  have l: "r = SUCCESS \<Longrightarrow> length x = 32" "r' = SUCCESS \<Longrightarrow> length y = 8"
    using get_rand_bytes_keeps [OF 1 ok(2) assms(2)] get_rand_bytes_keeps [OF 2 ok(1) assms(2)] assms(3,4) by simp_all
  let ?x = "if with_f then fold force_bit [252, 253, 254, 255] x else x" and ?y = "if with_1e then fold force_bit [60, 59, 58, 57] y else y"
  have lf: "length ?x = length x" "length ?y = length y" using force_bits(2) by metis+
  have X: "r = SUCCESS \<Longrightarrow> length (otpmk_make_code_word_256 ?x) = 32 \<and> otpmk_check_code_word_256 (otpmk_make_code_word_256 ?x) = 0 \<and>
      (with_f \<longrightarrow> list_all (bit_at (otpmk_make_code_word_256 ?x)) [252, 253, 254, 255])"
    using otpmk_make_spec(1,2) [of ?x] lf(1) l(1) forced_otpmk unfolding otpmk_check_zero by presburger
  have Y: "r' = SUCCESS \<Longrightarrow> length (drvr_b_make_code_word_64 ?y) = 8 \<and> drvr_b_check_code_word_64 (drvr_b_make_code_word_64 ?y) = 0 \<and>
      (with_1e \<longrightarrow> list_all (bit_at (drvr_b_make_code_word_64 ?y)) [57, 58, 59, 60])"
    using drvr_make_spec(1,2) [of ?y] lf(2) l(2) forced_drvr unfolding drvr_check_zero by presburger
  from 1 have "otpmk_get_rand_256 E B otpmk with_f uran p = Some (r, if r = SUCCESS then otpmk_make_code_word_256 ?x else ?x, q)"
    by (simp add: otpmk_get_rand_256_def Let_def del: fold_simps)
  moreover from 2 have "drvr_b_get_rand_64 E B drvr with_1e p = Some (r', if r' = SUCCESS then drvr_b_make_code_word_64 ?y else ?y, q')"
    by (simp add: drvr_b_get_rand_64_def Let_def del: fold_simps)
  ultimately show ?thesis using X Y by auto
qed

theorem fuse_values_are_code_words_witness:
  "\<exists>r x q. otpmk_get_rand_256 sample_os sample_build (replicate 32 0) True 1 fresh_process = Some (r, x, q) \<and>
    (r = SUCCESS \<longrightarrow> otpmk_check_code_word_256 x = 0 \<and> bit_at x 255)"
  using fuse_values_are_code_words [OF fresh_reaches sample_build_ok, of "replicate 32 0" "replicate 8 0" sample_os True 1 True] by auto

text \<open>
  C19: The conversion to bits is off by one. The first bit that \<open>bytes_to_bits\<close> stores is the one after the last,
  so with an array of the documented size it writes past the end; \<open>get_rand_bits\<close>, \<open>otpmk_get_rand_bits_256\<close> and
  \<open>drvr_b_get_rand_bits_64\<close> therefore never return SUCCESS. In a larger array it
  stores the bits, but with bit 0 of every byte after the first cleared.
\<close>

theorem bit_conversion_off_by_one:
  assumes "drbg_reaches E B p" and "build_ok B" and "0 < n" and "length bits = n" and "length ob = 256" and "length db = 64" and "8 * m < length big" and "0 < m"
  shows "bytes_to_bits rd bits n = None \<and> get_rand_bits E B bits n p \<noteq> Some (SUCCESS, x, q) \<and>
    otpmk_get_rand_bits_256 E B ob with_f uran p \<noteq> Some (SUCCESS, x, q) \<and> drvr_b_get_rand_bits_64 E B db with_1e p \<noteq> Some (SUCCESS, x, q) \<and>
    (\<exists>big'. bytes_to_bits (\<lambda>_. bytes) big (8 * m) = Some big' \<and> take (8 * m + 1) big' = map (spread bytes) [0..<8 * m + 1])"
proof (intro conjI)
  have ok: "drbg_ok B (drbg p)" by (rule drbg_reaches_ok [OF assms(1,2)])
  show "bytes_to_bits rd bits n = None" by (rule bytes_to_bits_overflow) (use assms in simp_all)
  show "get_rand_bits E B bits n p \<noteq> Some (SUCCESS, x, q)"
  proof
    assume "get_rand_bits E B bits n p = Some (SUCCESS, x, q)"
    then obtain y where y: "get_rand_bytes E B bits (int ((n + 7) div 8)) p = Some (SUCCESS, y, q)" "bytes_to_bits (\<lambda>b. b) y n = Some x"
      by (auto simp: get_rand_bits_def split: bind_splits)
    have "length y = n" using get_rand_bytes_keeps [OF y(1) ok assms(2)] assms(4) by simp
    with bytes_to_bits_overflow [OF assms(3), of y] y(2) show False by simp
  qed
  show "otpmk_get_rand_bits_256 E B ob with_f uran p \<noteq> Some (SUCCESS, x, q)"
    using bytes_to_bits_overflow [of 256 ob] assms(5) by (auto simp: otpmk_get_rand_bits_256_def split: bind_splits)
  show "drvr_b_get_rand_bits_64 E B db with_1e p \<noteq> Some (SUCCESS, x, q)"
    using bytes_to_bits_overflow [of 64 db] assms(6) by (auto simp: drvr_b_get_rand_bits_64_def split: bind_splits)
  have e: "bytes_to_bits (\<lambda>_. bytes) big (8 * m) = byte_loop (\<lambda>_. bytes) m 8 big"
    using assms(8) by (cases m) (simp_all add: bytes_to_bits_def)
  obtain b where b: "byte_loop (\<lambda>_. bytes) m 8 big = Some b" "length b = length big"
    "\<forall>k < length big. b ! k = (if 0 < m \<and> k \<le> m * 8 then spread bytes k else big ! k)"
    using byte_loop_stores [of m big bytes] assms(7) by (auto simp: mult.commute)
  have "take (8 * m + 1) b = map (spread bytes) [0..<8 * m + 1]"
    using b(2,3) assms(7,8) by (intro nth_equalityI) (simp_all add: mult.commute del: upt_Suc)
  with e b(1) show "\<exists>big'. bytes_to_bits (\<lambda>_. bytes) big (8 * m) = Some big' \<and> take (8 * m + 1) big' = map (spread bytes) [0..<8 * m + 1]" by simp
qed

theorem bit_conversion_off_by_one_witness:
  "otpmk_get_rand_bits_256 sample_os sample_build (replicate 256 0) False 1 fresh_process \<noteq> Some (SUCCESS, [], fresh_process) \<and>
   (\<exists>big'. bytes_to_bits (\<lambda>_. [0xFF, 0xFF]) (replicate 17 7) 16 = Some big' \<and> take 17 big' = [1, 1, 1, 1, 1, 1, 1, 1, 0, 1, 1, 1, 1, 1, 1, 1, 0])"
proof -
  have "map (spread [0xFF, 0xFF]) [0..<8 * 2 + 1] = [1, 1, 1, 1, 1, 1, 1, 1, 0, 1, 1, 1, 1, 1, 1, 1, 0]" by code_simp
  with bit_conversion_off_by_one [OF fresh_reaches sample_build_ok, of 1 "[0]" "replicate 256 0" "replicate 64 0" 2 "replicate 17 7"
    "\<lambda>b. b" sample_os "[]" fresh_process False 1 False "[0xFF, 0xFF]"] show ?thesis by simp
qed

end
