(* ===== verification/Isbc_Header.thy ===== *)
theory Isbc_Header
  imports Pkcs1
begin

text \<open>
  The header that the boot ROM of a board reads before it starts the boot loader, as the code signing tool
  creates it for trust architecture 2.1 (LS1012, LS1043, LS1046): \<open>create_hdr_common.c\<close>, \<open>isbc_hdr_ta_2_x.c\<close>, and the
  parts of \<open>crypto_utils.c\<close> and \<open>parse_utils.c\<close> they call, under \<open>cst\<close>. The file has the header structure, a table of public
  keys, a scatter-gather table of the images and possibly a table of further keys (IE), each at a multiple
  of 512 bytes, and the signature.

  The state is the part of the global structure \<open>gd\<close> that these functions use, and the files, a map from names to
  contents; the parsing of the input file, which fills \<open>gd\<close>, is not modelled. OpenSSL, memory, and whether a
  file can be written are an argument. A file that can be opened can be read. SUCCESS and FAILURE are truth values;
  an access outside of an array is a fault. The tool runs on a little-endian machine, where bit fields start at the
  low end of a word.
\<close>

section \<open>Data\<close>

record srk_table_t =
  srk_key_len :: u32
  srk_pkey :: "byte list"

record sg_table_t =
  sg_len :: u32
  sg_target :: u32
  sg_src_addr_low :: u32
  sg_dst_addr :: u32

record sg_input =
  img_name :: string
  img_addr_low :: u32
  img_addr_high :: u32
  img_dst_addr :: u32

record g_data_t =
  srk_sel :: u32
  num_srk_entries :: u32
  num_pri_key :: u32
  num_ie_key :: u32
  srk_flag :: byte
  srk_hash_flag :: bool
  pub_fname :: "string list"
  pri_fname :: "string list"
  iek_fname :: "string list"
  iek_revok :: "u32 list"
  num_iek_revok :: u32
  key_len :: u32
  entry_addr_low :: u32
  num_entries :: u32
  entries :: "sg_input list"
  fsluid :: "u32 list"
  oemuid :: "u32 list"
  fsluid_flag :: "bool list"
  oemuid_flag :: "bool list"
  hdr_file_name :: string
  img_hash_file_name :: string
  hton_flag :: bool
  mp_flag :: byte
  wp_flag :: byte
  sec_image_flag :: byte
  iek_flag :: bool
  srk_hash :: "byte list"
  img_hash :: "byte list"
  rsa_sign :: "byte list"
  key_table :: "srk_table_t list"
  ie_key_revok :: u32
  ie_num_keys :: u32
  ie_srk_table :: "srk_table_t list"
  sg_table :: "sg_table_t list"
  hdr_struct :: "byte list"
  hdr_size :: u32
  srk_offset :: u32
  srk_size :: u32
  ie_table_size :: u32
  ie_table_offset :: u32
  sg_offset :: u32
  sg_size :: u32
  rsa_offset :: u32
  rsa_size :: u32
  hdr_addr :: u32
  option_img_hash :: bool

record cst_env =
  PEM_pub :: "byte list \<Rightarrow> (nat \<times> nat) option"
  RSA_sign_fn :: "byte list \<Rightarrow> byte list \<Rightarrow> byte list option"
  SHA256_fn :: "byte list \<Rightarrow> byte list"
  can_write :: "string \<Rightarrow> bool"
  fwrite_fn :: "string \<Rightarrow> byte list \<Rightarrow> byte list"
  can_malloc :: "nat \<Rightarrow> bool"

record tool =
  gd :: g_data_t
  files :: "string \<Rightarrow> byte list option"

section \<open>Helpers\<close>

definition htonl :: "u32 \<Rightarrow> u32" where
  "htonl x = get_u32 (rev (put_u32 x))"

definition hton_if :: "bool \<Rightarrow> u32 \<Rightarrow> u32" where
  "hton_if h x = (if h then htonl x else x)"

definition OFFSET_ALIGN :: "u32 \<Rightarrow> u32" where
  "OFFSET_ALIGN x = (if x AND 0x1FF \<noteq> 0 then (x AND NOT 0x1FF) + 0x200 else x)"

definition srk_bytes :: "srk_table_t list \<Rightarrow> byte list" where
  "srk_bytes t = concat (map (\<lambda>k. put_u32 (srk_key_len k) @ srk_pkey k) t)"

definition sg_bytes :: "sg_table_t list \<Rightarrow> byte list" where
  "sg_bytes t = concat (map (\<lambda>e. put_u32 (sg_len e) @ put_u32 (sg_target e) @ put_u32 (sg_src_addr_low e) @ put_u32 (sg_dst_addr e)) t)"

definition upd :: "nat \<Rightarrow> 'a \<Rightarrow> 'a list \<Rightarrow> 'a list option" where
  "upd i x xs = (if i < length xs then Some (xs[i := x]) else None)"

definition at :: "'a list \<Rightarrow> nat \<Rightarrow> 'a option" where
  "at xs i = (if i < length xs then Some (xs ! i) else None)"

text \<open>The size of a file is an \<open>int\<close>; a missing file is \<open>Some None\<close>.\<close>

definition get_file_size :: "(string \<Rightarrow> byte list option) \<Rightarrow> string \<Rightarrow> u32 option option" where
  "get_file_size fs n = (case fs n of
     None \<Rightarrow> Some None
   | Some bs \<Rightarrow> if length bs < 2 ^ 31 then Some (Some (of_nat (length bs))) else None)"

text \<open>A new file with what could be written of the data; FAILURE if it cannot be opened or nothing was written.\<close>

definition write_file :: "cst_env \<Rightarrow> string \<Rightarrow> byte list \<Rightarrow> tool \<Rightarrow> bool \<times> tool" where
  "write_file E n bs s =
     (if \<not> can_write E n then (False, s)
      else let w = fwrite_fn E n bs in (w \<noteq> [], s\<lparr>files := (files s)(n \<mapsto> w)\<rparr>))"

section \<open>Keys\<close>

text \<open>The length of the key and the buffer with modulus and exponent; \<open>Some None\<close> if the key cannot be read.\<close>

definition crypto_extract_pub_key :: "cst_env \<Rightarrow> (string \<Rightarrow> byte list option) \<Rightarrow> string \<Rightarrow> byte list \<Rightarrow> (u32 \<times> byte list) option option" where
  "crypto_extract_pub_key E fs fname buf =
     (case Option.bind (fs fname) (PEM_pub E) of
        None \<Rightarrow> Some None
      | Some (n, e) \<Rightarrow>
          let size = length (BN_bn2bin n); elen = length (BN_bn2bin e) in
          if elen > 2 * size then None
          else do {
            buf \<leftarrow> poke buf 0 (BN_bn2bin n);
            buf \<leftarrow> poke buf (2 * size - elen) (BN_bn2bin e);
            Some (Some (of_nat (2 * size), buf)) })"

text \<open>The loop over the public keys of a table; it stops at the first that cannot be read, whose length is cleared if \<open>c\<close>.\<close>

primrec load_keys ::
    "cst_env \<Rightarrow> (string \<Rightarrow> byte list option) \<Rightarrow> bool \<Rightarrow> bool \<Rightarrow> string list \<Rightarrow> nat \<Rightarrow> nat \<Rightarrow> srk_table_t list \<Rightarrow> (bool \<times> srk_table_t list) option" where
  "load_keys E fs h c names 0 i t = Some (True, t)"
| "load_keys E fs h c names (Suc k) i t = do {
     name \<leftarrow> at names i;
     old \<leftarrow> at t i;
     r \<leftarrow> crypto_extract_pub_key E fs name (srk_pkey old);
     case r of
       None \<Rightarrow> do { t \<leftarrow> upd i (if c then old\<lparr>srk_key_len := hton_if h 0\<rparr> else old) t; Some (False, t) }
     | Some (len, pkey) \<Rightarrow> do {
         t \<leftarrow> upd i \<lparr>srk_key_len = hton_if h len, srk_pkey = pkey\<rparr> t;
         load_keys E fs h c names k (Suc i) t } }"

text \<open>What is hashed and copied as the public key: the table, or the first key.\<close>

definition srk_part :: "g_data_t \<Rightarrow> byte list" where
  "srk_part g = (if srk_flag g = 1 then take (unat (srk_size g)) (srk_bytes (key_table g))
     else take (unat (key_len g)) (srk_pkey (key_table g ! 0)))"

definition create_srk_calc_hash :: "cst_env \<Rightarrow> u32 \<Rightarrow> tool \<Rightarrow> (bool \<times> tool) option" where
  "create_srk_calc_hash E max_keys s =
     (let g = gd s; max_keys = (if srk_flag g = 0 then 1 else max_keys) in
      if num_srk_entries g > max_keys \<or> num_srk_entries g = 0 then Some (False, s)
      else if srk_sel g > num_srk_entries g \<or> srk_sel g = 0 then Some (False, s)
      else if \<not> option_img_hash g \<and> num_srk_entries g \<noteq> num_pri_key g then Some (False, s)
      else do {
        (ok, t) \<leftarrow> load_keys E (files s) (hton_flag g) True (pub_fname g) (unat (num_srk_entries g)) 0 (key_table g);
        let g = g\<lparr>key_table := t, srk_size := num_srk_entries g * 1028\<rparr>;
        let g = (if srk_flag g = 1 then g else g\<lparr>key_len := hton_if (hton_flag g) (srk_key_len (t ! 0))\<rparr>);
        if unat (if srk_flag g = 1 then srk_size g else key_len g) \<le> length (if srk_flag g = 1 then srk_bytes t else srk_pkey (t ! 0))
        then Some (ok, s\<lparr>gd := g\<lparr>srk_hash := SHA256_fn E (srk_part g), srk_hash_flag := True\<rparr>\<rparr>)
        else None })"

section \<open>The table of further keys\<close>

abbreviation (input) DEFAULT_IE_FILE_NAME :: string where "DEFAULT_IE_FILE_NAME \<equiv> ''ie_table.out''"

primrec revoked_keys :: "u32 list \<Rightarrow> u32 \<Rightarrow> u32 option" where
  "revoked_keys [] m = Some m"
| "revoked_keys (k # ks) m = (if k \<ge> 32 \<or> k = 0 then None else revoked_keys ks (m OR push_bit (unat (k - 1)) 1))"

definition ie_table_bytes :: "g_data_t \<Rightarrow> byte list" where
  "ie_table_bytes g = put_u32 (ie_key_revok g) @ put_u32 (ie_num_keys g) @ srk_bytes (ie_srk_table g)"

definition create_ie_file :: "cst_env \<Rightarrow> string \<Rightarrow> tool \<Rightarrow> (bool \<times> tool) option" where
  "create_ie_file E file_name s =
     (let g = gd s in
      if unat (num_iek_revok g) > length (iek_revok g) then None
      else case revoked_keys (take (unat (num_iek_revok g)) (iek_revok g)) 0 of
        None \<Rightarrow> Some (False, s)
      | Some m \<Rightarrow>
          let g = g\<lparr>ie_num_keys := hton_if (hton_flag g) (num_ie_key g), ie_key_revok := hton_if (hton_flag g) m\<rparr> in
          do {
            (ok, t) \<leftarrow> load_keys E (files s) (hton_flag g) False (iek_fname g) (unat (num_ie_key g)) 0 (ie_srk_table g);
            let g = g\<lparr>ie_srk_table := t\<rparr>;
            if \<not> ok then Some (False, s\<lparr>gd := g\<rparr>)
            else if \<not> can_write E file_name then Some (False, s\<lparr>gd := g\<rparr>)
            else let g = g\<lparr>ie_table_size := 8 + 1028 * num_ie_key g\<rparr>
              in Some (write_file E file_name (take (unat (ie_table_size g)) (ie_table_bytes g)) (s\<lparr>gd := g\<rparr>)) })"

section \<open>The header\<close>

definition calculate_offset_size :: "g_data_t \<Rightarrow> g_data_t" where
  "calculate_offset_size g =
     (let klen = hton_if (hton_flag g) (srk_key_len (key_table g ! (unat (srk_sel g - 1))));
          srk_off = OFFSET_ALIGN (hdr_size g);
          sg_sz = num_entries g * 16;
          sg_off = OFFSET_ALIGN (srk_off + (if srk_flag g = 1 then srk_size g else key_len g));
          ie_off = OFFSET_ALIGN (sg_off + sg_sz)
      in g\<lparr>sg_size := sg_sz, rsa_size := klen div 2, srk_offset := srk_off, sg_offset := sg_off,
           ie_table_offset := ie_off, rsa_offset := OFFSET_ALIGN (ie_off + ie_table_size g)\<rparr>)"

definition get_uid_flags :: "g_data_t \<Rightarrow> nat" where
  "get_uid_flags g =
     (let fsl = fsluid_flag g ! 0 \<or> fsluid_flag g ! 1; oem = oemuid_flag g ! 0 \<or> oemuid_flag g ! 1
      in if fsl \<and> oem then 1 else if oem then 2 else if fsl then 4 else 0)"

definition BARKER :: "byte list" where
  "BARKER = [0x68, 0x39, 0x27, 0x81]"

text \<open>The structure \<open>isbc_hdr_ta_2_1\<close>, its words in order.\<close>

definition isbc_hdr_ta_2_1 :: "g_data_t \<Rightarrow> byte list" where
  "isbc_hdr_ta_2_1 g =
     BARKER @ put_u32 (srk_offset g) @
     (if srk_flag g = 1 then [srk_flag g, ucast (srk_sel g)] @ take 2 (put_u32 (num_srk_entries g)) else put_u32 (key_len g)) @
     put_u32 (rsa_offset g) @ put_u32 (rsa_size g) @ put_u32 (sg_offset g) @ put_u32 (num_entries g) @ put_u32 (entry_addr_low g) @
     [mp_flag g, 0, 0, 0] @ [wp_flag g, sec_image_flag g] @ take 2 (put_u32 (of_nat (get_uid_flags g))) @
     put_u32 (fsluid g ! 0) @ put_u32 (oemuid g ! 0) @ replicate 8 0 @ put_u32 (fsluid g ! 1) @ put_u32 (oemuid g ! 1)"

text \<open>\<open>for (i = 0; i < gd.num_entries - 1; i++) gd.entries[i + 1] = gd.entries[i]\<close>; \<open>k\<close> steps are left.\<close>

primrec shift_entries :: "nat \<Rightarrow> nat \<Rightarrow> sg_input list \<Rightarrow> sg_input list option" where
  "shift_entries 0 i es = Some es"
| "shift_entries (Suc k) i es = do {
     e \<leftarrow> at es i;
     es \<leftarrow> upd (Suc i) e es;
     shift_entries k (Suc i) es }"

text \<open>The scatter-gather table; the result tells whether all images were found.\<close>

primrec fill_sg_table :: "(string \<Rightarrow> byte list option) \<Rightarrow> sg_input list \<Rightarrow> nat \<Rightarrow> nat \<Rightarrow> sg_table_t list \<Rightarrow> (bool \<times> sg_table_t list) option" where
  "fill_sg_table fs es 0 i t = Some (True, t)"
| "fill_sg_table fs es (Suc k) i t = do {
     e \<leftarrow> at es i;
     n \<leftarrow> get_file_size fs (img_name e);
     case n of
       None \<Rightarrow> Some (False, t)
     | Some len \<Rightarrow> do {
         old \<leftarrow> at t i;
         t \<leftarrow> upd i (old\<lparr>sg_len := len, sg_src_addr_low := img_addr_low e, sg_dst_addr := img_dst_addr e\<rparr>) t;
         fill_sg_table fs es k (Suc i) t } }"

text \<open>The first entry for the table of further keys.\<close>

definition add_ie_entry :: "g_data_t \<Rightarrow> g_data_t option" where
  "add_ie_entry g = do {
     es \<leftarrow> shift_entries (unat (num_entries g - 1)) 0 (entries g);
     es \<leftarrow> upd 0 \<lparr>img_name = DEFAULT_IE_FILE_NAME, img_addr_low = hdr_addr g + ie_table_offset g, img_addr_high = 0, img_dst_addr = 0xFFFFFFFF\<rparr> es;
     Some (g\<lparr>entries := es\<rparr>) }"

text \<open>The table of further keys is created, and becomes an entry of the scatter-gather table.\<close>

definition add_ie_table :: "cst_env \<Rightarrow> tool \<Rightarrow> (bool \<times> tool) option" where
  "add_ie_table E s = (if \<not> iek_flag (gd s) then Some (True, s) else do {
     (ok, s) \<leftarrow> create_ie_file E DEFAULT_IE_FILE_NAME s;
     if \<not> ok then Some (False, s)
     else do {
       n \<leftarrow> get_file_size (files s) DEFAULT_IE_FILE_NAME;
       Some (True, s\<lparr>gd := (gd s)\<lparr>ie_table_size := (case n of None \<Rightarrow> -1 | Some n \<Rightarrow> n), num_entries := num_entries (gd s) + 1\<rparr>\<rparr>) } })"

definition place_entries :: "g_data_t \<Rightarrow> g_data_t option" where
  "place_entries g =
     (let g = calculate_offset_size (g\<lparr>hdr_size := 64\<rparr>) in if iek_flag g then add_ie_entry g else Some g)"

definition fill_structure_ta_2_1 :: "cst_env \<Rightarrow> tool \<Rightarrow> (bool \<times> tool) option" where
  "fill_structure_ta_2_1 E s = do {
     h \<leftarrow> poke (hdr_struct (gd s)) 0 (replicate 64 0);
     (ok, s) \<leftarrow> add_ie_table E (s\<lparr>gd := (gd s)\<lparr>hdr_struct := h\<rparr>\<rparr>);
     if \<not> ok then Some (False, s)
     else do {
       g \<leftarrow> place_entries (gd s);
       (ok, t) \<leftarrow> fill_sg_table (files s) (entries g) (unat (num_entries g)) 0 (sg_table g);
       let g = g\<lparr>sg_table := t\<rparr>;
       if \<not> ok then Some (False, s\<lparr>gd := g\<rparr>)
       else do {
         h \<leftarrow> poke (hdr_struct g) 0 (isbc_hdr_ta_2_1 g);
         Some (True, s\<lparr>gd := g\<lparr>hdr_struct := h\<rparr>\<rparr>) } } }"

section \<open>Files and signature\<close>

primrec hash_files :: "(string \<Rightarrow> byte list option) \<Rightarrow> sg_input list \<Rightarrow> byte list option" where
  "hash_files fs [] = Some []"
| "hash_files fs (e # es) = do { bs \<leftarrow> fs (img_name e); rest \<leftarrow> hash_files fs es; Some (bs @ rest) }"

definition calc_img_hash_ta_2_x :: "cst_env \<Rightarrow> tool \<Rightarrow> (bool \<times> tool) option" where
  "calc_img_hash_ta_2_x E s =
     (let g = gd s in
      if unat (hdr_size g) > length (hdr_struct g) \<or> unat (sg_size g) > length (sg_bytes (sg_table g)) \<or> unat (num_entries g) > length (entries g) then None
      else case hash_files (files s) (take (unat (num_entries g)) (entries g)) of
        None \<Rightarrow> Some (False, s)
      | Some images \<Rightarrow>
          Some (True, s\<lparr>gd := g\<lparr>img_hash := SHA256_fn E (take (unat (hdr_size g)) (hdr_struct g) @ srk_part g @
            take (unat (sg_size g)) (sg_bytes (sg_table g)) @ images)\<rparr>\<rparr>))"

text \<open>The contents of a file into the buffer, at an offset.\<close>

definition read_file_in_buffer :: "(string \<Rightarrow> byte list option) \<Rightarrow> byte list \<Rightarrow> nat \<Rightarrow> string \<Rightarrow> (bool \<times> byte list) option" where
  "read_file_in_buffer fs b off name =
     (case fs name of None \<Rightarrow> Some (False, b) | Some c \<Rightarrow> do { b \<leftarrow> poke b off c; Some (True, b) })"

definition put_ie_table :: "(string \<Rightarrow> byte list option) \<Rightarrow> g_data_t \<Rightarrow> byte list \<Rightarrow> (bool \<times> byte list) option" where
  "put_ie_table fs g b = (if iek_flag g then do {
     e \<leftarrow> at (entries g) 0;
     read_file_in_buffer fs b (unat (ie_table_offset g)) (img_name e) } else Some (True, b))"

definition create_header_ta_2_x :: "cst_env \<Rightarrow> tool \<Rightarrow> (bool \<times> tool) option" where
  "create_header_ta_2_x E s =
     (let g = gd s; hdrlen = unat (rsa_offset g) in
      if \<not> can_malloc E hdrlen then Some (False, s)
      else do {
        b \<leftarrow> poke (replicate hdrlen 0) 0 (take (unat (hdr_size g)) (hdr_struct g));
        b \<leftarrow> poke b (unat (srk_offset g)) (srk_part g);
        b \<leftarrow> poke b (unat (sg_offset g)) (take (unat (sg_size g)) (sg_bytes (sg_table g)));
        (ok, b) \<leftarrow> put_ie_table (files s) g b;
        if \<not> ok then Some (False, s)
        else Some (write_file E (hdr_file_name g) b s) })"

definition calculate_signature :: "cst_env \<Rightarrow> tool \<Rightarrow> (bool \<times> tool) option" where
  "calculate_signature E s = do {
     let g = gd s;
     name \<leftarrow> at (pri_fname g) (unat (srk_sel g - 1));
     case Option.bind (files s name) (\<lambda>key. RSA_sign_fn E key (take 32 (img_hash g))) of
       None \<Rightarrow> Some (False, s)
     | Some sig \<Rightarrow> do {
         b \<leftarrow> poke (rsa_sign g) 0 sig;
         Some (True, s\<lparr>gd := g\<lparr>rsa_sign := b, rsa_size := of_nat (length sig)\<rparr>\<rparr>) } }"

text \<open>The bytes are put one by one, without a look at the results.\<close>

definition append_signature :: "cst_env \<Rightarrow> tool \<Rightarrow> (bool \<times> tool) option" where
  "append_signature E s =
     (let g = gd s; n = hdr_file_name g in
      if \<not> can_write E n then Some (False, s)
      else if unat (rsa_size g) > length (rsa_sign g) then None
      else Some (True, s\<lparr>files := (files s)(n \<mapsto> (case files s n of None \<Rightarrow> [] | Some b \<Rightarrow> b) @ fwrite_fn E n (take (unat (rsa_size g)) (rsa_sign g)))\<rparr>))"

definition create_img_hash_file :: "cst_env \<Rightarrow> tool \<Rightarrow> (bool \<times> tool) option" where
  "create_img_hash_file E s = Some (write_file E (img_hash_file_name (gd s)) (take 32 (img_hash (gd s))) s)"

text \<open>A step after one that has succeeded.\<close>

definition and_then :: "(bool \<times> tool) option \<Rightarrow> (tool \<Rightarrow> (bool \<times> tool) option) \<Rightarrow> (bool \<times> tool) option" where
  "and_then m f = do { (ok, s) \<leftarrow> m; if ok then f s else Some (False, s) }"

text \<open>\<open>create_hdr\<close> for trust architecture 2.1 once the input file is read, without the option \<open>--hash\<close> and images to append.\<close>

definition create_hdr :: "cst_env \<Rightarrow> tool \<Rightarrow> (bool \<times> tool) option" where
  "create_hdr E s =
     and_then (create_srk_calc_hash E 4 s) (\<lambda>s.
     and_then (fill_structure_ta_2_1 E s) (\<lambda>s.
     and_then (calc_img_hash_ta_2_x E s) (\<lambda>s.
     and_then (create_header_ta_2_x E s) (\<lambda>s.
       if option_img_hash (gd s) then create_img_hash_file E s
       else and_then (calculate_signature E s) (append_signature E)))))"


section \<open>Layout\<close>

lemma align_parts: "(x AND NOT 0x1FF) + (x AND 0x1FF) = (x :: u32)" "unat (x AND 0x1FF) < 512"
proof -
  have "(x AND NOT 0x1FF) + (x AND 0x1FF) = (x AND NOT 0x1FF) OR (x AND 0x1FF)"
    by (rule disjunctive_add_eq_or) (auto simp: bit_eq_iff bit_simps)
  also have "\<dots> = x" by (auto simp: bit_eq_iff bit_simps)
  finally show "(x AND NOT 0x1FF) + (x AND 0x1FF) = x" .
  have m: "(0x1FF :: u32) = mask 9" by (simp add: mask_eq_exp_minus_1)
  show "unat (x AND 0x1FF) < 512"
    unfolding m take_bit_eq_mask [symmetric] unsigned_take_bit_eq using take_bit_nat_less_exp [of 9 "unat x"] by simp
qed

lemma align_bounds:
  assumes "unat x < 2147483648"
  shows "unat x \<le> unat (OFFSET_ALIGN x)" and "unat (OFFSET_ALIGN x) \<le> unat x + 512"
proof -
  have n: "unat (x AND NOT 0x1FF) + unat (x AND 0x1FF) = unat x"
  proof -
    have "unat (x AND NOT 0x1FF) \<le> unat x" by (simp add: word_le_nat_alt [symmetric] word_and_le1 word_and_le2)
    then have "unat (x AND NOT 0x1FF) + unat (x AND 0x1FF) < 4294967296" using assms align_parts(2) [of x] by linarith
    then have "unat ((x AND NOT 0x1FF) + (x AND 0x1FF)) = unat (x AND NOT 0x1FF) + unat (x AND 0x1FF)" by (simp add: unat_word_ariths)
    then show ?thesis unfolding align_parts(1) by simp
  qed
  have u: "unat ((x AND NOT 0x1FF) + 0x200) = unat (x AND NOT 0x1FF) + 512" using n assms by (simp add: unat_word_ariths)
  show "unat x \<le> unat (OFFSET_ALIGN x)" "unat (OFFSET_ALIGN x) \<le> unat x + 512"
    using n u align_parts(2) [of x] by (simp_all add: OFFSET_ALIGN_def)
qed

text \<open>What is known of the global structure: the sizes of its arrays.\<close>

definition arrays_ok :: "g_data_t \<Rightarrow> bool" where
  "arrays_ok g \<longleftrightarrow> length (key_table g) = 8 \<and> list_all (\<lambda>k. length (srk_pkey k) = 1024) (key_table g) \<and>
     length (ie_srk_table g) = 32 \<and> list_all (\<lambda>k. length (srk_pkey k) = 1024) (ie_srk_table g) \<and>
     length (sg_table g) = 8 \<and> length (entries g) = 8 \<and> length (hdr_struct g) = 4096 \<and> length (rsa_sign g) = 1024"

lemma at_Some: "at xs i = Some x \<longleftrightarrow> i < length xs \<and> x = xs ! i"
  by (auto simp: at_def)

lemma upd_Some: "upd i x xs = Some ys \<longleftrightarrow> i < length xs \<and> ys = xs[i := x]"
  by (auto simp: upd_def)


lemma load_keys_keeps:
  "load_keys E fs h c names k i t = Some (ok, t') \<Longrightarrow> length t' = length t \<and>
     (list_all (\<lambda>x. length (srk_pkey x) = 1024) t \<longrightarrow> list_all (\<lambda>x. length (srk_pkey x) = 1024) t')"
proof (induction k arbitrary: i t)
  case (Suc k)
  then obtain name old r where a: "at names i = Some name" "at t i = Some old" "crypto_extract_pub_key E fs name (srk_pkey old) = Some r"
    by (auto split: bind_splits)
  show ?case
  proof (cases r)
    case None
    then show ?thesis using Suc.prems a by (auto simp: upd_Some at_Some list_all_length nth_list_update split: bind_splits)
  next
    case (Some q)
    obtain len pkey where q: "q = (len, pkey)" by (cases q)
    have l: "length pkey = length (srk_pkey old)"
      using a(3) unfolding Some q
      by (auto simp: crypto_extract_pub_key_def Let_def split: option.splits if_splits bind_splits dest!: poke_SomeD(1))
    let ?t = "t[i := \<lparr>srk_key_len = hton_if h len, srk_pkey = pkey\<rparr>]"
    have "load_keys E fs h c names k (Suc i) ?t = Some (ok, t')" "i < length t" "old = t ! i"
      using Suc.prems a Some q by (auto simp: upd_def at_Some split: if_splits)
    from Suc.IH [OF this(1)] this(2,3) l show ?thesis by (auto simp: list_all_length nth_list_update)
  qed
qed simp


section \<open>The steps\<close>

lemma fill_sg_table_spec:
  "fill_sg_table fs es k i t = Some (True, t') \<Longrightarrow> length t' = length t \<and> (0 < k \<longrightarrow> i + k \<le> length t \<and> i + k \<le> length es) \<and>
     (\<forall>j < i. t' ! j = t ! j) \<and>
     (\<forall>j. i \<le> j \<and> j < i + k \<longrightarrow> (\<exists>bs. fs (img_name (es ! j)) = Some bs \<and> length bs < 2 ^ 31 \<and>
        t' ! j = (t ! j)\<lparr>sg_len := of_nat (length bs), sg_src_addr_low := img_addr_low (es ! j), sg_dst_addr := img_dst_addr (es ! j)\<rparr>))"
proof (induction k arbitrary: i t)
  case (Suc k)
  let ?e = "es ! i"
  obtain bs where i: "i < length es" "i < length t" "fs (img_name ?e) = Some bs" "length bs < 2 ^ 31"
    and r: "fill_sg_table fs es k (Suc i) (t[i := (t ! i)\<lparr>sg_len := of_nat (length bs), sg_src_addr_low := img_addr_low ?e, sg_dst_addr := img_dst_addr ?e\<rparr>]) = Some (True, t')"
    using Suc.prems by (auto simp: at_Some upd_Some get_file_size_def split: bind_splits option.splits if_splits)
  note IH = Suc.IH [OF r, simplified]
  show ?case
  proof (intro conjI allI impI)
    show "length t' = length t" "i + Suc k \<le> length t" "i + Suc k \<le> length es" using IH i by (cases k; auto)+
    fix j
    show "j < i \<Longrightarrow> t' ! j = t ! j" using IH by simp
    assume j: "i \<le> j \<and> j < i + Suc k"
    show "\<exists>bs. fs (img_name (es ! j)) = Some bs \<and> length bs < 2 ^ 31 \<and>
        t' ! j = (t ! j)\<lparr>sg_len := of_nat (length bs), sg_src_addr_low := img_addr_low (es ! j), sg_dst_addr := img_dst_addr (es ! j)\<rparr>"
    proof (cases "j = i")
      case True
      then show ?thesis using IH i by auto
    next
      case False
      then have "Suc i \<le> j \<and> j < Suc (i + k)" "i \<noteq> j" using j by auto
      then show ?thesis using IH by auto
    qed
  qed
qed auto

lemma load_keys_spec:
  "load_keys E fs h c names k i t = Some (True, t') \<Longrightarrow> (\<forall>j < i. t' ! j = t ! j) \<and> (0 < k \<longrightarrow> i + k \<le> length names \<and> i + k \<le> length t) \<and>
     (\<forall>j. i \<le> j \<and> j < i + k \<longrightarrow> (\<exists>key n e. fs (names ! j) = Some key \<and> PEM_pub E key = Some (n, e) \<and>
        srk_key_len (t' ! j) = hton_if h (of_nat (2 * length (BN_bn2bin n))) \<and>
        length (BN_bn2bin e) \<le> 2 * length (BN_bn2bin n) \<and> 2 * length (BN_bn2bin n) \<le> length (srk_pkey (t ! j)) \<and>
        slice (srk_pkey (t' ! j)) (2 * length (BN_bn2bin n) - length (BN_bn2bin e)) (length (BN_bn2bin e)) = BN_bn2bin e \<and>
        (length (BN_bn2bin e) \<le> length (BN_bn2bin n) \<longrightarrow> take (length (BN_bn2bin n)) (srk_pkey (t' ! j)) = BN_bn2bin n)))"
proof (induction k arbitrary: i t)
  case (Suc k)
  obtain len pkey where i: "i < length names" "i < length t" "crypto_extract_pub_key E fs (names ! i) (srk_pkey (t ! i)) = Some (Some (len, pkey))"
    and r: "load_keys E fs h c names k (Suc i) (t[i := \<lparr>srk_key_len = hton_if h len, srk_pkey = pkey\<rparr>]) = Some (True, t')"
    using Suc.prems by (auto simp: at_Some upd_Some split: bind_splits option.splits)
  note IH = Suc.IH [OF r]
  obtain key n e b where k: "fs (names ! i) = Some key" "PEM_pub E key = Some (n, e)" "len = of_nat (2 * length (BN_bn2bin n))"
      "length (BN_bn2bin e) \<le> 2 * length (BN_bn2bin n)"
    and b: "poke (srk_pkey (t ! i)) 0 (BN_bn2bin n) = Some b" "poke b (2 * length (BN_bn2bin n) - length (BN_bn2bin e)) (BN_bn2bin e) = Some pkey"
    using i(3) by (auto simp: crypto_extract_pub_key_def Let_def split: bind_splits option.splits if_splits)
  have l: "2 * length (BN_bn2bin n) \<le> length (srk_pkey (t ! i))"
    using b(2) k(4) poke_SomeD(1) [OF b(1)] by (auto simp: poke_def split: if_splits)
  have n: "take (length (BN_bn2bin n)) pkey = BN_bn2bin n" if "length (BN_bn2bin e) \<le> length (BN_bn2bin n)"
  proof -
    have "0 + length (BN_bn2bin n) \<le> 2 * length (BN_bn2bin n) - length (BN_bn2bin e)" using that by linarith
    then show ?thesis using poke_SomeD(3) [OF b(2) disjI1, of 0 "length (BN_bn2bin n)"] poke_SomeD(2) [OF b(1)] by (simp add: slice_def)
  qed
  have t: "t' ! i = \<lparr>srk_key_len = hton_if h len, srk_pkey = pkey\<rparr>" using IH i(2) by simp
  show ?case
  proof (intro conjI allI impI)
    show "i + Suc k \<le> length names" "i + Suc k \<le> length t" using IH i by (cases k; auto)+
    fix j
    show "j < i \<Longrightarrow> t' ! j = t ! j" using IH by simp
    assume j: "i \<le> j \<and> j < i + Suc k"
    show "\<exists>key n e. fs (names ! j) = Some key \<and> PEM_pub E key = Some (n, e) \<and>
        srk_key_len (t' ! j) = hton_if h (of_nat (2 * length (BN_bn2bin n))) \<and>
        length (BN_bn2bin e) \<le> 2 * length (BN_bn2bin n) \<and> 2 * length (BN_bn2bin n) \<le> length (srk_pkey (t ! j)) \<and>
        slice (srk_pkey (t' ! j)) (2 * length (BN_bn2bin n) - length (BN_bn2bin e)) (length (BN_bn2bin e)) = BN_bn2bin e \<and>
        (length (BN_bn2bin e) \<le> length (BN_bn2bin n) \<longrightarrow> take (length (BN_bn2bin n)) (srk_pkey (t' ! j)) = BN_bn2bin n)"
    proof (cases "j = i")
      case True
      then show ?thesis using k l n poke_SomeD(2) [OF b(2)] t by auto
    next
      case False
      then have "Suc i \<le> j \<and> j < Suc i + k" "t[i := \<lparr>srk_key_len = hton_if h len, srk_pkey = pkey\<rparr>] ! j = t ! j" using j by auto
      then show ?thesis using IH by metis
    qed
  qed
qed auto

text \<open>The public key that is hashed has the length that the layout gives it.\<close>

definition key_size :: "g_data_t \<Rightarrow> nat" where
  "key_size g = unat (if srk_flag g = 1 then srk_size g else key_len g)"

text \<open>The keys are in the table; the rest is as before.\<close>

lemma create_srk_calc_hash_spec:
  assumes "create_srk_calc_hash E 4 s = Some (True, s')" and "arrays_ok (gd s)" and "\<not> hton_flag (gd s)"
  obtains t kl h where
    "load_keys E (files s) False True (pub_fname (gd s)) (unat (num_srk_entries (gd s))) 0 (key_table (gd s)) = Some (True, t)"
    "s' = s\<lparr>gd := (gd s)\<lparr>key_table := t, srk_size := num_srk_entries (gd s) * 1028, key_len := kl,
        srk_hash := h, srk_hash_flag := True\<rparr>\<rparr>"
    "srk_hash (gd s') = SHA256_fn E (srk_part (gd s'))"
    "srk_flag (gd s) \<noteq> 1 \<Longrightarrow> kl = srk_key_len (t ! 0)"
    "arrays_ok (gd s')" "length (srk_part (gd s')) = key_size (gd s')" "key_size (gd s') \<le> 4112"
    "0 < srk_sel (gd s)" "srk_sel (gd s) \<le> num_srk_entries (gd s)" "num_srk_entries (gd s) \<le> (if srk_flag (gd s) = 0 then 1 else 4)"
proof -
  let ?g = "gd s" and ?n = "num_srk_entries (gd s)"
  obtain t where n: "?n \<le> (if srk_flag ?g = 0 then 1 else 4)" "0 < srk_sel ?g" "srk_sel ?g \<le> ?n"
    and t: "load_keys E (files s) False True (pub_fname ?g) (unat ?n) 0 (key_table ?g) = Some (True, t)"
    using assms(1,3) by (auto simp: create_srk_calc_hash_def Let_def word_gt_0 not_less split: bind_splits if_splits)
  define kl where "kl = (if srk_flag ?g = 1 then key_len ?g else srk_key_len (t ! 0))"
  define g where "g = ?g\<lparr>key_table := t, srk_size := ?n * 1028, key_len := kl\<rparr>"
  have g: "s' = s\<lparr>gd := g\<lparr>srk_hash := SHA256_fn E (srk_part g), srk_hash_flag := True\<rparr>\<rparr>"
    and l: "key_size g \<le> length (if srk_flag g = 1 then srk_bytes t else srk_pkey (t ! 0))"
    using assms(1,3) t n unfolding g_def kl_def
    by (auto simp: create_srk_calc_hash_def Let_def key_size_def hton_if_def srk_part_def split: bind_splits if_splits)
  have a: "arrays_ok (gd s')" "length t = 8" "list_all (\<lambda>x. length (srk_pkey x) = 1024) t"
    using assms(2) load_keys_keeps [OF t] by (auto simp: arrays_ok_def g g_def)
  have p: "srk_part (gd s') = srk_part g" "key_size (gd s') = key_size g" by (simp_all add: g srk_part_def key_size_def)
  have "length (srk_part g) = key_size g" using l by (auto simp: srk_part_def key_size_def g_def)
  moreover have "key_size g \<le> 4112"
  proof (cases "srk_flag ?g = 1")
    case True
    then have "unat ?n \<le> 4" using n(1) by (simp add: word_le_nat_alt)
    then show ?thesis using True by (simp add: key_size_def g_def unat_word_ariths)
  next
    case False
    then show ?thesis using l a(2,3) by (cases t) (auto simp: g_def)
  qed
  ultimately have k: "length (srk_part (gd s')) = key_size (gd s')" "key_size (gd s') \<le> 4112" unfolding p by simp_all
  have e: "s' = s\<lparr>gd := (gd s)\<lparr>key_table := t, srk_size := ?n * 1028, key_len := kl, srk_hash := SHA256_fn E (srk_part g), srk_hash_flag := True\<rparr>\<rparr>"
    using g unfolding g_def by simp
  have hash: "srk_hash (gd s') = SHA256_fn E (srk_part (gd s'))" unfolding p by (simp add: g)
  show thesis by (rule that [OF t e hash _ a(1) k n(2,3,1)]) (simp_all add: p kl_def)
qed

text \<open>The parts of the file follow each other.\<close>

definition laid_out :: "g_data_t \<Rightarrow> bool" where
  "laid_out g \<longleftrightarrow> unat (hdr_size g) = 64 \<and> unat (srk_offset g) = 512 \<and> 512 + key_size g \<le> unat (sg_offset g) \<and>
     unat (sg_size g) = 16 * unat (num_entries g) \<and> unat (num_entries g) \<le> 8 \<and>
     unat (sg_offset g) + unat (sg_size g) \<le> unat (ie_table_offset g) \<and>
     unat (ie_table_offset g) + unat (ie_table_size g) \<le> unat (rsa_offset g) \<and> unat (rsa_offset g) < 2147483648 \<and>
     rsa_size g = srk_key_len (key_table g ! unat (srk_sel g - 1)) div 2 \<and> length (hdr_struct g) = 4096 \<and> take 64 (hdr_struct g) = isbc_hdr_ta_2_1 g"

lemma layout:
  assumes "key_size g \<le> 4112" and "unat (num_entries g) \<le> 8" and "unat (ie_table_size g) \<le> 32904"
  defines "g' \<equiv> calculate_offset_size (g\<lparr>hdr_size := 64\<rparr>)"
  shows "unat (srk_offset g') = 512" and "512 + key_size g \<le> unat (sg_offset g')" and "unat (sg_size g') = 16 * unat (num_entries g)"
    and "unat (sg_offset g') + 16 * unat (num_entries g) \<le> unat (ie_table_offset g')"
    and "unat (ie_table_offset g') + unat (ie_table_size g) \<le> unat (rsa_offset g')" and "unat (rsa_offset g') < 2147483648"
proof -
  let ?k = "if srk_flag g = 1 then srk_size g else key_len g"
  have add: "unat (x + y) = unat x + unat y" if "unat x + unat y < 2147483648" for x y :: u32
    using that by (simp add: unat_word_ariths)
  have 1: "OFFSET_ALIGN 64 = 512" by (simp add: OFFSET_ALIGN_def)
  then show s: "unat (srk_offset g') = 512" by (simp add: g'_def calculate_offset_size_def Let_def)
  have sz: "unat (num_entries g * 16) = 16 * unat (num_entries g)" using assms(2) by (simp add: unat_word_ariths)
  then show "unat (sg_size g') = 16 * unat (num_entries g)" by (simp add: g'_def calculate_offset_size_def Let_def)
  have k: "unat (512 + ?k) = 512 + key_size g" using assms(1) by (subst add) (auto simp: key_size_def)
  define o1 where "o1 = OFFSET_ALIGN (512 + ?k)"
  have b1: "512 + key_size g \<le> unat o1" "unat o1 \<le> 5136" using align_bounds [of "512 + ?k"] k assms(1) unfolding o1_def by auto
  define o2 where "o2 = OFFSET_ALIGN (o1 + num_entries g * 16)"
  have a2: "unat (o1 + num_entries g * 16) = unat o1 + 16 * unat (num_entries g)" using b1 sz assms(2) by (subst add) auto
  have b2: "unat o1 + 16 * unat (num_entries g) \<le> unat o2" "unat o2 \<le> 5776"
    using align_bounds [of "o1 + num_entries g * 16"] a2 b1 assms(2) unfolding o2_def by auto
  define o3 where "o3 = OFFSET_ALIGN (o2 + ie_table_size g)"
  have a3: "unat (o2 + ie_table_size g) = unat o2 + unat (ie_table_size g)" using b2 assms(3) by (subst add) auto
  have b3: "unat o2 + unat (ie_table_size g) \<le> unat o3" "unat o3 < 2147483648"
    using align_bounds [of "o2 + ie_table_size g"] a3 b2 assms(3) unfolding o3_def by auto
  have g: "sg_offset g' = o1" "ie_table_offset g' = o2" "rsa_offset g' = o3"
    by (simp_all add: g'_def calculate_offset_size_def Let_def 1 o1_def o2_def o3_def)
  show "512 + key_size g \<le> unat (sg_offset g')" "unat (sg_offset g') + 16 * unat (num_entries g) \<le> unat (ie_table_offset g')"
    "unat (ie_table_offset g') + unat (ie_table_size g) \<le> unat (rsa_offset g')" "unat (rsa_offset g') < 2147483648"
    unfolding g using b1 b2 b3 by auto
qed

lemma length_header: "length (isbc_hdr_ta_2_1 g) = 64"
  by (simp add: isbc_hdr_ta_2_1_def BARKER_def)

text \<open>What the signature depends on apart from the header and the images.\<close>

definition signing_data :: "g_data_t \<Rightarrow> (srk_table_t list \<times> byte \<times> u32 \<times> u32 \<times> u32 \<times> u32) \<times> string list \<times> string \<times> byte list \<times> byte list \<times> bool \<times> bool \<times> bool" where
  "signing_data g = ((key_table g, srk_flag g, srk_size g, key_len g, srk_sel g, num_srk_entries g),
     pri_fname g, hdr_file_name g, srk_hash g, rsa_sign g, option_img_hash g, iek_flag g, hton_flag g)"

lemma signing_data_eqD:
  assumes "signing_data g' = signing_data g"
  shows "srk_part g' = srk_part g" and "key_size g' = key_size g"
  using assms by (auto simp: signing_data_def srk_part_def key_size_def)

lemma create_ie_file_spec:
  assumes "create_ie_file E n s = Some (True, s')" and "arrays_ok (gd s)" and "\<And>n b. fwrite_fn E n b = b"
  shows "arrays_ok (gd s')" and "signing_data (gd s') = signing_data (gd s)" and "entries (gd s') = entries (gd s)"
    and "hdr_struct (gd s') = hdr_struct (gd s)" and "num_entries (gd s') = num_entries (gd s)"
    and "\<exists>b. files s' = (files s)(n \<mapsto> b) \<and> length b \<le> 32904"
proof -
  let ?g = "gd s"
  obtain m t where t: "load_keys E (files s) (hton_flag ?g) False (iek_fname ?g) (unat (num_ie_key ?g)) 0 (ie_srk_table ?g) = Some (True, t)"
    and s': "write_file E n (take (unat (8 + 1028 * num_ie_key ?g)) (ie_table_bytes (?g\<lparr>ie_num_keys := hton_if (hton_flag ?g) (num_ie_key ?g),
        ie_key_revok := hton_if (hton_flag ?g) m, ie_srk_table := t, ie_table_size := 8 + 1028 * num_ie_key ?g\<rparr>)))
      (s\<lparr>gd := ?g\<lparr>ie_num_keys := hton_if (hton_flag ?g) (num_ie_key ?g),
        ie_key_revok := hton_if (hton_flag ?g) m, ie_srk_table := t, ie_table_size := 8 + 1028 * num_ie_key ?g\<rparr>\<rparr>) = (True, s')"
    using assms(1) by (auto simp: create_ie_file_def Let_def split: bind_splits if_splits option.splits)
  have l: "length t = 32" "list_all (\<lambda>x. length (srk_pkey x) = 1024) t"
    using assms(2) load_keys_keeps [OF t] by (auto simp: arrays_ok_def)
  show "arrays_ok (gd s')" "signing_data (gd s') = signing_data (gd s)" "entries (gd s') = entries (gd s)"
    "hdr_struct (gd s') = hdr_struct (gd s)" "num_entries (gd s') = num_entries (gd s)"
    using s' l assms(2) by (auto simp: write_file_def Let_def arrays_ok_def signing_data_def split: if_splits)
  have "unat (num_ie_key ?g) \<le> 32" using load_keys_spec [OF t] assms(2) by (cases "unat (num_ie_key ?g)") (auto simp: arrays_ok_def)
  then have "unat (8 + 1028 * num_ie_key ?g) \<le> 32904" by (simp add: unat_word_ariths)
  then show "\<exists>b. files s' = (files s)(n \<mapsto> b) \<and> length b \<le> 32904"
    using s' assms(3) by (auto simp: write_file_def Let_def split: if_splits)
qed

lemma add_ie_table_spec:
  assumes "add_ie_table E s = Some (True, s')" and "arrays_ok (gd s)" and "\<And>n b. fwrite_fn E n b = b"
    and i: "\<not> iek_flag (gd s) \<Longrightarrow> ie_table_size (gd s) = 0"
  shows "arrays_ok (gd s')" and "signing_data (gd s') = signing_data (gd s)" and "entries (gd s') = entries (gd s)"
    and "unat (ie_table_size (gd s')) \<le> 32904" and "\<not> iek_flag (gd s) \<Longrightarrow> s' = s"
proof -
  have "arrays_ok (gd s') \<and> signing_data (gd s') = signing_data (gd s) \<and> entries (gd s') = entries (gd s) \<and> unat (ie_table_size (gd s')) \<le> 32904"
  proof (cases "iek_flag (gd s)")
    case True
    obtain s1 n where 1: "create_ie_file E DEFAULT_IE_FILE_NAME s = Some (True, s1)" "get_file_size (files s1) DEFAULT_IE_FILE_NAME = Some n"
      and s': "s' = s1\<lparr>gd := (gd s1)\<lparr>ie_table_size := (case n of None \<Rightarrow> -1 | Some n \<Rightarrow> n), num_entries := num_entries (gd s1) + 1\<rparr>\<rparr>"
      using assms(1) True by (auto simp: add_ie_table_def split: bind_splits if_splits)
    note c = create_ie_file_spec [OF 1(1) assms(2,3)]
    obtain b where "files s1 DEFAULT_IE_FILE_NAME = Some b" "length b \<le> 32904" using c(6) by auto
    then have "n = Some (of_nat (length b))" "unat (of_nat (length b) :: u32) \<le> 32904"
      using 1(2) by (auto simp: get_file_size_def unat_of_nat)
    then show ?thesis using c unfolding s' by (auto simp: arrays_ok_def signing_data_def)
  next
    case False
    then show ?thesis using assms by (auto simp: add_ie_table_def)
  qed
  then show "arrays_ok (gd s')" "signing_data (gd s') = signing_data (gd s)" "entries (gd s') = entries (gd s)"
    "unat (ie_table_size (gd s')) \<le> 32904" by auto
  show "\<not> iek_flag (gd s) \<Longrightarrow> s' = s" using assms(1) by (auto simp: add_ie_table_def)
qed

lemma place_entries_spec:
  assumes "place_entries g = Some g'"
  obtains es where "g' = (calculate_offset_size (g\<lparr>hdr_size := 64\<rparr>))\<lparr>entries := es\<rparr>" "\<not> iek_flag g \<Longrightarrow> es = entries g"
proof -
  let ?c = "calculate_offset_size (g\<lparr>hdr_size := 64\<rparr>)"
  have c: "entries ?c = entries g" "iek_flag ?c = iek_flag g" by (simp_all add: calculate_offset_size_def Let_def)
  show thesis
  proof (cases "iek_flag g")
    case True
    then have "add_ie_entry ?c = Some g'" using assms c(2) by (simp add: place_entries_def)
    then obtain es where "g' = ?c\<lparr>entries := es\<rparr>" by (auto simp: add_ie_entry_def split: bind_splits)
    then show thesis by (rule that) (use True in simp)
  next
    case False
    then have "g' = ?c" using assms c(2) by (simp add: place_entries_def)
    then have "g' = ?c\<lparr>entries := entries ?c\<rparr>" by simp
    then show thesis by (rule that) (simp add: c(1))
  qed
qed

text \<open>The structures are filled for the images, which all exist.\<close>

lemma fill_structure_spec:
  assumes "fill_structure_ta_2_1 E s = Some (True, s')" and a: "arrays_ok (gd s)" and k: "key_size (gd s) \<le> 4112"
    and w: "\<And>n b. fwrite_fn E n b = b" and i: "\<not> iek_flag (gd s) \<Longrightarrow> ie_table_size (gd s) = 0" and e: "\<not> hton_flag (gd s)"
  shows "laid_out (gd s')" and "signing_data (gd s') = signing_data (gd s)"
    and "\<exists>t. length t = 8 \<and> fill_sg_table (files s') (entries (gd s')) (unat (num_entries (gd s'))) 0 t = Some (True, sg_table (gd s'))"
    and "\<not> iek_flag (gd s) \<Longrightarrow> entries (gd s') = entries (gd s) \<and> num_entries (gd s') = num_entries (gd s) \<and> files s' = files s"
proof -
  obtain h s1 g2 t h' where h: "poke (hdr_struct (gd s)) 0 (replicate 64 0) = Some h"
    and s1: "add_ie_table E (s\<lparr>gd := (gd s)\<lparr>hdr_struct := h\<rparr>\<rparr>) = Some (True, s1)" and g2: "place_entries (gd s1) = Some g2"
    and t: "fill_sg_table (files s1) (entries g2) (unat (num_entries g2)) 0 (sg_table g2) = Some (True, t)"
    and h': "poke (hdr_struct g2) 0 (isbc_hdr_ta_2_1 (g2\<lparr>sg_table := t\<rparr>)) = Some h'" and s': "s' = s1\<lparr>gd := g2\<lparr>sg_table := t, hdr_struct := h'\<rparr>\<rparr>"
    using assms(1) unfolding fill_structure_ta_2_1_def Let_def by (auto split: bind_splits if_splits)
  have "arrays_ok ((gd s)\<lparr>hdr_struct := h\<rparr>)" using a poke_SomeD(1) [OF h] by (simp add: arrays_ok_def)
  then have 1: "arrays_ok (gd s1)" "signing_data (gd s1) = signing_data (gd s)" "entries (gd s1) = entries (gd s)" "unat (ie_table_size (gd s1)) \<le> 32904"
      "\<not> iek_flag (gd s) \<Longrightarrow> s1 = s\<lparr>gd := (gd s)\<lparr>hdr_struct := h\<rparr>\<rparr>"
    using add_ie_table_spec [OF s1 _ w] i by (auto simp: signing_data_def)
  obtain es where es: "g2 = (calculate_offset_size ((gd s1)\<lparr>hdr_size := 64\<rparr>))\<lparr>entries := es\<rparr>" "\<not> iek_flag (gd s1) \<Longrightarrow> es = entries (gd s1)"
    using place_entries_spec [OF g2] by metis
  have f: "iek_flag (gd s1) = iek_flag (gd s)" using 1(2) by (simp add: signing_data_def)
  have g: "signing_data g2 = signing_data (gd s1)" "num_entries g2 = num_entries (gd s1)" "sg_table g2 = sg_table (gd s1)" "hdr_struct g2 = hdr_struct (gd s1)"
      "hdr_size g2 = 64" "ie_table_size g2 = ie_table_size (gd s1)" "entries g2 = es"
    by (simp_all add: es(1) calculate_offset_size_def Let_def signing_data_def)
  have n: "unat (num_entries g2) \<le> 8" using fill_sg_table_spec [OF t] 1(1) g(3) by (cases "unat (num_entries g2)") (auto simp: arrays_ok_def)
  have k2: "key_size (gd s1) = key_size (gd s)" "key_size g2 = key_size (gd s)" using signing_data_eqD(2) 1(2) g(1) by metis+
  have L: "unat (srk_offset g2) = 512" "512 + key_size g2 \<le> unat (sg_offset g2)" "unat (sg_size g2) = 16 * unat (num_entries g2)"
      "unat (sg_offset g2) + unat (sg_size g2) \<le> unat (ie_table_offset g2)"
      "unat (ie_table_offset g2) + unat (ie_table_size g2) \<le> unat (rsa_offset g2)" "unat (rsa_offset g2) < 2147483648"
    using layout [of "gd s1"] k k2 n g(2,6) 1(4) by (simp_all add: es(1))
  have R: "rsa_size g2 = srk_key_len (key_table g2 ! unat (srk_sel g2 - 1)) div 2"
    using e 1(2) by (simp add: es(1) calculate_offset_size_def Let_def hton_if_def signing_data_def)
  have H: "length h' = 4096" "take 64 h' = isbc_hdr_ta_2_1 (g2\<lparr>sg_table := t\<rparr>)"
    using poke_SomeD(1,2) [OF h'] g(4) 1(1) by (simp_all add: arrays_ok_def length_header slice_def)
  have I: "isbc_hdr_ta_2_1 (g2\<lparr>sg_table := t, hdr_struct := h'\<rparr>) = isbc_hdr_ta_2_1 (g2\<lparr>sg_table := t\<rparr>)"
    by (simp add: isbc_hdr_ta_2_1_def get_uid_flags_def)
  have K: "key_size (g2\<lparr>sg_table := t, hdr_struct := h'\<rparr>) = key_size g2" by (simp add: key_size_def)
  show "laid_out (gd s')" using L n H I K R g(5) by (simp add: laid_out_def s')
  show "signing_data (gd s') = signing_data (gd s)" using g(1) 1(2) by (simp add: s' signing_data_def)
  show "\<exists>t. length t = 8 \<and> fill_sg_table (files s') (entries (gd s')) (unat (num_entries (gd s'))) 0 t = Some (True, sg_table (gd s'))"
    using t g(3) 1(1) by (auto simp: s' arrays_ok_def)
  show "\<not> iek_flag (gd s) \<Longrightarrow> entries (gd s') = entries (gd s) \<and> num_entries (gd s') = num_entries (gd s) \<and> files s' = files s"
    using 1(3,5) es(2) g(2,7) f by (simp add: s')
qed

lemma calc_img_hash_spec:
  assumes "calc_img_hash_ta_2_x E s = Some (True, s')"
  obtains images where "hash_files (files s) (take (unat (num_entries (gd s))) (entries (gd s))) = Some images"
    "s' = s\<lparr>gd := (gd s)\<lparr>img_hash := SHA256_fn E (take (unat (hdr_size (gd s))) (hdr_struct (gd s)) @ srk_part (gd s) @
       take (unat (sg_size (gd s))) (sg_bytes (sg_table (gd s))) @ images)\<rparr>\<rparr>"
  using assms by (auto simp: calc_img_hash_ta_2_x_def Let_def split: if_splits option.splits)

lemma length_sg_bytes: "length (sg_bytes t) = 16 * length t"
  by (induction t) (auto simp: sg_bytes_def)

text \<open>The file has every part at its place.\<close>

lemma create_header_spec:
  assumes c: "create_header_ta_2_x E s = Some (True, s')" and l: "laid_out (gd s)" and k: "length (srk_part (gd s)) = key_size (gd s)"
    and t: "length (sg_table (gd s)) = 8" and w: "\<And>n b. fwrite_fn E n b = b"
  obtains b where "s' = s\<lparr>files := (files s)(hdr_file_name (gd s) \<mapsto> b)\<rparr>" "length b = unat (rsa_offset (gd s))"
    "take 64 b = isbc_hdr_ta_2_1 (gd s)" "slice b 512 (key_size (gd s)) = srk_part (gd s)"
    "slice b (unat (sg_offset (gd s))) (unat (sg_size (gd s))) = take (unat (sg_size (gd s))) (sg_bytes (sg_table (gd s)))"
proof -
  let ?g = "gd s" and ?sg = "take (unat (sg_size (gd s))) (sg_bytes (sg_table (gd s)))"
  have u: "unat (hdr_size ?g) = 64" "unat (srk_offset ?g) = 512" using l by (simp_all add: laid_out_def)
  obtain b1 b2 b3 b where b1: "poke (replicate (unat (rsa_offset ?g)) 0) 0 (take 64 (hdr_struct ?g)) = Some b1"
    and b2: "poke b1 512 (srk_part ?g) = Some b2" and b3: "poke b2 (unat (sg_offset ?g)) ?sg = Some b3"
    and b: "put_ie_table (files s) ?g b3 = Some (True, b)" and s': "write_file E (hdr_file_name ?g) b s = (True, s')"
    using c by (auto simp: create_header_ta_2_x_def Let_def u split: bind_splits if_splits)
  have B: "length b = length b3 \<and> (\<forall>x n. x + n \<le> unat (ie_table_offset ?g) \<longrightarrow> slice b x n = slice b3 x n)"
  proof (cases "iek_flag ?g")
    case True
    then obtain ie where "poke b3 (unat (ie_table_offset ?g)) ie = Some b" using b by (auto simp: put_ie_table_def read_file_in_buffer_def split: bind_splits option.splits)
    then show ?thesis using poke_SomeD(1,3) by blast
  qed (use b in \<open>simp add: put_ie_table_def\<close>)
  have sg: "length ?sg = unat (sg_size ?g)" using l t by (simp add: length_sg_bytes laid_out_def)
  have hd: "length (take 64 (hdr_struct ?g)) = 64" using l by (simp add: laid_out_def length_header)
  have o: "512 + key_size ?g \<le> unat (sg_offset ?g)" "unat (sg_offset ?g) + unat (sg_size ?g) \<le> unat (ie_table_offset ?g)"
    using l by (auto simp: laid_out_def)
  show thesis
  proof (rule that)
    show "s' = s\<lparr>files := (files s)(hdr_file_name ?g \<mapsto> b)\<rparr>" using s' w by (auto simp: write_file_def Let_def split: if_splits)
    show "length b = unat (rsa_offset ?g)" using B poke_SomeD(1) [OF b1] poke_SomeD(1) [OF b2] poke_SomeD(1) [OF b3] by simp
    have "slice b 0 64 = slice b1 0 64" using B o poke_SomeD(3) [OF b3, of 0 64] poke_SomeD(3) [OF b2, of 0 64] by simp
    also have "\<dots> = take 64 (hdr_struct ?g)" using poke_SomeD(2) [OF b1] hd by simp
    finally show "take 64 b = isbc_hdr_ta_2_1 ?g" using l by (simp add: slice_def laid_out_def)
    have "slice b 512 (key_size ?g) = slice b2 512 (key_size ?g)" using B o poke_SomeD(3) [OF b3, of 512 "key_size ?g"] by simp
    then show "slice b 512 (key_size ?g) = srk_part ?g" using poke_SomeD(2) [OF b2] k by simp
    show "slice b (unat (sg_offset ?g)) (unat (sg_size ?g)) = ?sg" using B o poke_SomeD(2) [OF b3] unfolding sg by simp
  qed
qed

lemma signature_spec:
  assumes "and_then (calculate_signature E s) (append_signature E) = Some (True, s')" and w: "\<And>n b. fwrite_fn E n b = b"
    and "length (rsa_sign (gd s)) = 1024" and "files s (hdr_file_name (gd s)) = Some b" and "length (img_hash (gd s)) = 32"
  obtains key sig r where "files s (pri_fname (gd s) ! unat (srk_sel (gd s) - 1)) = Some key" "RSA_sign_fn E key (img_hash (gd s)) = Some sig"
    "s' = \<lparr>gd = (gd s)\<lparr>rsa_sign := r, rsa_size := of_nat (length sig)\<rparr>, files = (files s)(hdr_file_name (gd s) \<mapsto> b @ sig)\<rparr>"
proof -
  let ?g = "gd s"
  obtain s1 where s1: "calculate_signature E s = Some (True, s1)" "append_signature E s1 = Some (True, s')"
    using assms(1) by (auto simp: and_then_def split: bind_splits if_splits)
  then obtain key sig r where k: "files s (pri_fname ?g ! unat (srk_sel ?g - 1)) = Some key" "RSA_sign_fn E key (take 32 (img_hash ?g)) = Some sig"
    and r: "poke (rsa_sign ?g) 0 sig = Some r" and e: "s1 = s\<lparr>gd := ?g\<lparr>rsa_sign := r, rsa_size := of_nat (length sig)\<rparr>\<rparr>"
    by (auto simp: calculate_signature_def at_Some Let_def split: bind_splits option.splits)
  have "length sig \<le> 1024" using r assms(3) by (auto simp: poke_def split: if_splits)
  then have u: "unat (of_nat (length sig) :: u32) = length sig" by (simp add: unat_of_nat)
  have t: "take (length sig) r = sig" using poke_SomeD(2) [OF r] by (simp add: slice_def)
  have "s' = \<lparr>gd = ?g\<lparr>rsa_sign := r, rsa_size := of_nat (length sig)\<rparr>, files = (files s)(hdr_file_name ?g \<mapsto> b @ sig)\<rparr>"
    using s1(2) assms(4) w u t by (auto simp: append_signature_def e Let_def split: if_splits)
  then show thesis using that k assms(5) by simp
qed

section \<open>What a reader of the header finds\<close>

text \<open>The fields by their offsets, and the parts of the file that they describe.\<close>

definition hdr_word :: "byte list \<Rightarrow> nat \<Rightarrow> nat" where
  "hdr_word F off = unat (get_u32 (slice F off 4))"

definition hdr_key :: "byte list \<Rightarrow> byte list" where
  "hdr_key F = slice F (hdr_word F 0x04) (if hdr_word F 0x08 mod 256 = 1 then 1028 * (hdr_word F 0x08 div 65536) else hdr_word F 0x08)"

definition hdr_table :: "byte list \<Rightarrow> byte list" where
  "hdr_table F = slice F (hdr_word F 0x14) (16 * hdr_word F 0x18)"

definition hdr_signature :: "byte list \<Rightarrow> byte list" where
  "hdr_signature F = slice F (hdr_word F 0x0c) (hdr_word F 0x10)"

text \<open>The modulus of the key that the header selects.\<close>

definition hdr_modulus :: "byte list \<Rightarrow> byte list" where
  "hdr_modulus F =
     (if hdr_word F 0x08 mod 256 = 1
      then let e = 1028 * (hdr_word F 0x08 div 256 mod 256 - 1) in slice (hdr_key F) (e + 4) (hdr_word (hdr_key F) e div 2)
      else take (hdr_word F 0x08 div 2) (hdr_key F))"

lemma header_fields:
  assumes "take 64 F = isbc_hdr_ta_2_1 g"
  shows "take 4 F = BARKER" "hdr_word F 0x04 = unat (srk_offset g)" "hdr_word F 0x0c = unat (rsa_offset g)" "hdr_word F 0x10 = unat (rsa_size g)"
    "hdr_word F 0x14 = unat (sg_offset g)" "hdr_word F 0x18 = unat (num_entries g)" "hdr_word F 0x1c = unat (entry_addr_low g)"
    "srk_flag g \<noteq> 1 \<Longrightarrow> hdr_word F 0x08 = unat (key_len g)"
    "srk_flag g = 1 \<Longrightarrow> unat (srk_sel g) < 256 \<Longrightarrow> unat (num_srk_entries g) < 65536 \<Longrightarrow>
       hdr_word F 0x08 = 1 + 256 * unat (srk_sel g) + 65536 * unat (num_srk_entries g)"
proof -
  define rest where "rest = drop 64 F"
  have F: "F = isbc_hdr_ta_2_1 g @ rest" using append_take_drop_id [of 64 F] assms by (simp add: rest_def)
  note d = F isbc_hdr_ta_2_1_def BARKER_def hdr_word_def slice_def
  show "take 4 F = BARKER" "hdr_word F 0x04 = unat (srk_offset g)" "hdr_word F 0x0c = unat (rsa_offset g)" "hdr_word F 0x10 = unat (rsa_size g)"
    "hdr_word F 0x14 = unat (sg_offset g)" "hdr_word F 0x18 = unat (num_entries g)" "hdr_word F 0x1c = unat (entry_addr_low g)"
    by (simp_all add: d)
  show "srk_flag g \<noteq> 1 \<Longrightarrow> hdr_word F 0x08 = unat (key_len g)" by (simp add: d)
  assume f: "srk_flag g = 1" "unat (srk_sel g) < 256" "unat (num_srk_entries g) < 65536"
  have p: "le_encode 4 x = [of_nat x, of_nat (x div 256), of_nat (x div 65536), of_nat (x div 16777216)]" for x
  proof -
    have 4: "4 = Suc (Suc (Suc (Suc 0)))" by simp
    show ?thesis unfolding 4 le_encode.simps by (simp add: div_mult2_eq [symmetric])
  qed
  have "hdr_word F 0x08 = unat (get_u32 ([1, ucast (srk_sel g)] @ take 2 (put_u32 (num_srk_entries g))))"
    using f(1) by (simp add: d)
  also have "\<dots> = 1 + 256 * unat (srk_sel g) + 65536 * unat (num_srk_entries g)"
  proof -
    let ?n = "unat (num_srk_entries g)"
    have a: "unat (ucast (srk_sel g) :: byte) = unat (srk_sel g)" using f(2) by (simp add: unsigned_ucast_eq take_bit_eq_mod)
    have b: "unat (of_nat (?n div 256) :: byte) = ?n div 256"
      using f(3) by (simp only: unat_of_nat) (simp add: less_mult_imp_div_less)
    have c: "unat (of_nat ?n :: byte) = ?n mod 256" by (simp only: unat_of_nat) simp
    have "le_decode (take 4 ([1, ucast (srk_sel g)] @ take 2 (put_u32 (num_srk_entries g)))) =
        1 + 256 * (unat (srk_sel g) + 256 * (?n mod 256 + 256 * (?n div 256)))"
      unfolding put_u32_def p using a b c by (simp del: of_nat_unat)
    also have "\<dots> = 1 + 256 * unat (srk_sel g) + 65536 * ?n" by simp
    finally have d: "get_u32 ([1, ucast (srk_sel g)] @ take 2 (put_u32 (num_srk_entries g))) = of_nat (1 + 256 * unat (srk_sel g) + 65536 * ?n)"
      unfolding get_u32_def by (rule arg_cong)
    show ?thesis unfolding d by (subst unat_of_nat) (use f(2,3) in simp)
  qed
  finally show "hdr_word F 0x08 = 1 + 256 * unat (srk_sel g) + 65536 * unat (num_srk_entries g)" .
qed

lemma slice_append_left: "x + n \<le> length b \<Longrightarrow> slice (b @ c) x n = slice b x n"
  by (simp add: slice_def)

lemma drop_concat:
  "list_all (\<lambda>x. length (f x) = c) t \<Longrightarrow> i \<le> length t \<Longrightarrow> drop (c * i) (concat (map f t)) = concat (map f (drop i t))"
proof (induction t arbitrary: i)
  case (Cons x t)
  then show ?case by (cases i) auto
qed simp

lemma word_in_slice: "x + 4 \<le> n \<Longrightarrow> hdr_word (take n b) x = hdr_word b x"
  by (simp add: hdr_word_def slice_def take_drop min_def)

text \<open>A word of an entry of a table of structures.\<close>

lemma word_of_entry:
  assumes "list_all (\<lambda>x. length (f x) = c) t" and "j < length t" and "f (t ! j) = a @ put_u32 v @ d" and "length a = k"
  shows "hdr_word (concat (map f t)) (c * j + k) = unat v"
proof -
  have "drop (c * j) (concat (map f t)) = f (t ! j) @ concat (map f (drop (Suc j) t))"
    using drop_concat [OF assms(1), of j] assms(2) by (simp add: Cons_nth_drop_Suc [symmetric])
  then have "drop (c * j + k) (concat (map f t)) = put_u32 v @ d @ concat (map f (drop (Suc j) t))"
    using assms(3,4) drop_drop [of k "c * j" "concat (map f t)"] by (simp add: add.commute)
  then show ?thesis by (simp add: hdr_word_def slice_def)
qed

text \<open>The parts as the header describes them.\<close>

lemma hdr_parts:
  assumes h: "take 64 F = isbc_hdr_ta_2_1 g" and l: "laid_out g" and k: "slice F 512 (key_size g) = srk_part g"
    and t: "slice F (unat (sg_offset g)) (unat (sg_size g)) = take (unat (sg_size g)) (sg_bytes (sg_table g))"
    and f: "srk_flag g = 1 \<Longrightarrow> unat (srk_size g) = 1028 * unat (num_srk_entries g) \<and> unat (srk_sel g) < 256 \<and> unat (num_srk_entries g) < 65536"
    and e: "srk_flag g \<noteq> 1 \<Longrightarrow> even (unat (key_len g))"
  shows "hdr_key F = srk_part g" and "hdr_table F = take (16 * unat (num_entries g)) (sg_bytes (sg_table g))"
    and "hdr_word F 0x08 mod 256 = 1 \<longleftrightarrow> srk_flag g = 1"
proof -
  note w = header_fields [OF h]
  have m: "x mod 256 \<noteq> 1" if "even x" for x :: nat using that dvd_mod_iff [of 2 256 x] by auto
  show i: "hdr_word F 0x08 mod 256 = 1 \<longleftrightarrow> srk_flag g = 1"
  proof (cases "srk_flag g = 1")
    case True
    then have "hdr_word F 0x08 = 1 + 256 * (unat (srk_sel g) + 256 * unat (num_srk_entries g))" using w(9) f by simp
    then have "hdr_word F 0x08 mod 256 = 1" by (simp only: mod_mult_self2) simp
    then show ?thesis using True by simp
  next
    case False
    then show ?thesis using w(8) m [OF e] by simp
  qed
  show "hdr_key F = srk_part g"
  proof (cases "srk_flag g = 1")
    case True
    then have v: "hdr_word F 0x08 = 1 + 256 * unat (srk_sel g) + 65536 * unat (num_srk_entries g)" "unat (srk_sel g) < 256" using w(9) f by simp_all
    have "hdr_word F 0x08 div 65536 = unat (num_srk_entries g)" by (rule div_nat_eqI) (use v in simp_all)
    then show ?thesis using True i k f l w(2) by (simp add: hdr_key_def key_size_def laid_out_def)
  next
    case False
    then show ?thesis using i k l w(2,8) by (simp add: hdr_key_def key_size_def laid_out_def)
  qed
  show "hdr_table F = take (16 * unat (num_entries g)) (sg_bytes (sg_table g))"
    using t l w(5,6) by (simp add: hdr_table_def laid_out_def)
qed

lemma hdr_modulus_eq:
  assumes h: "take 64 F = isbc_hdr_ta_2_1 g" and k: "hdr_key F = srk_part g" and i: "hdr_word F 0x08 mod 256 = 1 \<longleftrightarrow> srk_flag g = 1"
    and t: "list_all (\<lambda>k. length (srk_pkey k) = 1024) (key_table g)" "unat (num_srk_entries g) \<le> length (key_table g)"
    and f: "srk_flag g = 1 \<Longrightarrow> unat (srk_size g) = 1028 * unat (num_srk_entries g) \<and> unat (num_srk_entries g) \<le> 4"
    and e: "srk_flag g \<noteq> 1 \<Longrightarrow> srk_sel g = 1 \<and> key_len g = srk_key_len (key_table g ! 0)"
    and s: "0 < srk_sel g" "srk_sel g \<le> num_srk_entries g"
  defines "j \<equiv> unat (srk_sel g - 1)"
  assumes n: "srk_key_len (key_table g ! j) = of_nat (2 * length N)" "2 * length N \<le> 1024" "take (length N) (srk_pkey (key_table g ! j)) = N"
  shows "hdr_modulus F = N"
proof -
  have v: "unat (of_nat (2 * length N) :: u32) = 2 * length N" by (subst unat_of_nat) (use n(2) in simp)
  show ?thesis
  proof (cases "srk_flag g = 1")
    case True
    let ?f = "\<lambda>k. put_u32 (srk_key_len k) @ srk_pkey k" and ?t = "key_table g"
    have j: "unat (srk_sel g) = Suc j" "Suc j \<le> unat (num_srk_entries g)"
      using s by (auto simp: j_def word_le_nat_alt unat_minus_one word_gt_0 unat_eq_0 [symmetric])
    have w: "hdr_word F 0x08 = 1 + 256 * Suc j + 65536 * unat (num_srk_entries g)"
      using header_fields(9) [OF h True] j f [OF True] by simp
    have a: "hdr_word F 0x08 div 256 mod 256 - 1 = j"
    proof -
      have "hdr_word F 0x08 div 256 = Suc j + 256 * unat (num_srk_entries g)" unfolding w by (rule div_nat_eqI) simp_all
      then show ?thesis using j f [OF True] by simp
    qed
    have b: "list_all (\<lambda>k. length (?f k) = 1028) ?t" using t(1) by (simp add: list_all_iff)
    have K: "hdr_key F = take (1028 * unat (num_srk_entries g)) (concat (map ?f ?t))"
      using k True f by (simp add: srk_part_def srk_bytes_def)
    have l: "j < length ?t" "1028 * j + 1028 \<le> 1028 * unat (num_srk_entries g)" using j t(2) by auto
    have "hdr_word (concat (map ?f ?t)) (1028 * j + 0) = unat (srk_key_len (?t ! j))"
      by (rule word_of_entry [OF b l(1), where a = "[]"]) auto
    then have len: "hdr_word (hdr_key F) (1028 * j) = 2 * length N"
      unfolding K using word_in_slice [of "1028 * j"] l(2) v [folded n(1)] by simp
    have "drop (1028 * j) (concat (map ?f ?t)) = ?f (?t ! j) @ concat (map ?f (drop (Suc j) ?t))"
      using drop_concat [OF b, of j] l(1) by (simp add: Cons_nth_drop_Suc [symmetric])
    then have "slice (concat (map ?f ?t)) (1028 * j + 4) (length N) = take (length N) (srk_pkey (?t ! j) @ concat (map ?f (drop (Suc j) ?t)))"
      unfolding slice_def using drop_drop [of 4 "1028 * j" "concat (map ?f ?t)"] by (simp add: add.commute)
    also have "\<dots> = N" using n(2,3) t(1) l(1) by (simp add: list_all_length)
    finally have "slice (hdr_key F) (1028 * j + 4) (length N) = N" unfolding K using l(2) n(2) by (simp add: slice_def take_drop min_def)
    then show ?thesis using True i a len by (simp add: hdr_modulus_def Let_def)
  next
    case False
    have j: "j = 0" using e [OF False] by (simp add: j_def)
    have w: "hdr_word F 0x08 = 2 * length N" using header_fields(8) [OF h False] e [OF False] v [folded n(1)] j by simp
    have "srk_part g = take (2 * length N) (srk_pkey (key_table g ! 0))" using False e [OF False] v [folded n(1)] j by (simp add: srk_part_def)
    then have "take (length N) (hdr_key F) = N" using k n(3) j by (simp add: min_def)
    then show ?thesis using False i w by (simp add: hdr_modulus_def)
  qed
qed

lemma and_then_SomeD: "and_then m f = Some (True, s') \<Longrightarrow> \<exists>s. m = Some (True, s) \<and> f s = Some (True, s')"
  by (auto simp: and_then_def split: bind_splits if_splits)

lemma hash_files_cong: "(\<And>e. e \<in> set es \<Longrightarrow> fs (img_name e) = fs' (img_name e)) \<Longrightarrow> hash_files fs es = hash_files fs' es"
  by (induction es) auto

lemma img_hash_keeps [simp]:
  "srk_part (g\<lparr>img_hash := x\<rparr>) = srk_part g" "key_size (g\<lparr>img_hash := x\<rparr>) = key_size g"
  "isbc_hdr_ta_2_1 (g\<lparr>img_hash := x\<rparr>) = isbc_hdr_ta_2_1 g" "laid_out (g\<lparr>img_hash := x\<rparr>) = laid_out g"
proof -
  show 1: "srk_part (g\<lparr>img_hash := x\<rparr>) = srk_part g" "key_size (g\<lparr>img_hash := x\<rparr>) = key_size g"
    "isbc_hdr_ta_2_1 (g\<lparr>img_hash := x\<rparr>) = isbc_hdr_ta_2_1 g"
    by (simp_all add: srk_part_def key_size_def isbc_hdr_ta_2_1_def get_uid_flags_def)
  show "laid_out (g\<lparr>img_hash := x\<rparr>) = laid_out g" unfolding laid_out_def 1 by simp
qed

text \<open>A run that signs, in its intermediate states.\<close>

lemma create_hdr_steps:
  assumes "create_hdr E s = Some (True, s')" and "\<not> option_img_hash (gd s)" and a: "arrays_ok (gd s)" and h: "\<not> hton_flag (gd s)"
    and w: "\<And>n b. fwrite_fn E n b = b" and i: "\<not> iek_flag (gd s) \<Longrightarrow> ie_table_size (gd s) = 0" and sha: "\<And>b. length (SHA256_fn E b) = 32"
  obtains s1 s2 images b key sig where
    "create_srk_calc_hash E 4 s = Some (True, s1)" "fill_structure_ta_2_1 E s1 = Some (True, s2)"
    "hash_files (files s2) (take (unat (num_entries (gd s2))) (entries (gd s2))) = Some images"
    "length b = unat (rsa_offset (gd s2))" "take 64 b = isbc_hdr_ta_2_1 (gd s2)" "slice b 512 (key_size (gd s2)) = srk_part (gd s2)"
    "slice b (unat (sg_offset (gd s2))) (unat (sg_size (gd s2))) = take (unat (sg_size (gd s2))) (sg_bytes (sg_table (gd s2)))"
    "((files s2)(hdr_file_name (gd s) \<mapsto> b)) (pri_fname (gd s) ! unat (srk_sel (gd s) - 1)) = Some key"
    "RSA_sign_fn E key (SHA256_fn E (take 64 b @ srk_part (gd s2) @ take (unat (sg_size (gd s2))) (sg_bytes (sg_table (gd s2))) @ images)) = Some sig"
    "files s' = (files s2)(hdr_file_name (gd s) \<mapsto> b @ sig)" "entries (gd s') = entries (gd s2)" "srk_hash (gd s') = srk_hash (gd s1)"
proof -
  obtain s1 s2 s3 s4 where s1: "create_srk_calc_hash E 4 s = Some (True, s1)" and s2: "fill_structure_ta_2_1 E s1 = Some (True, s2)"
    and s3: "calc_img_hash_ta_2_x E s2 = Some (True, s3)" and s4: "create_header_ta_2_x E s3 = Some (True, s4)"
    and s5: "(if option_img_hash (gd s4) then create_img_hash_file E s4 else and_then (calculate_signature E s4) (append_signature E)) = Some (True, s')"
    using assms(1) unfolding create_hdr_def by (blast dest: and_then_SomeD)
  note f1 = create_srk_calc_hash_spec [OF s1 a h]
  have 1: "arrays_ok (gd s1)" "length (srk_part (gd s1)) = key_size (gd s1)" "key_size (gd s1) \<le> 4112" by (rule f1; assumption)+
  obtain t kl h where e1: "s1 = s\<lparr>gd := (gd s)\<lparr>key_table := t, srk_size := num_srk_entries (gd s) * 1028, key_len := kl,
        srk_hash := h, srk_hash_flag := True\<rparr>\<rparr>" by (rule f1)
  have d1: "iek_flag (gd s1) = iek_flag (gd s)" "ie_table_size (gd s1) = ie_table_size (gd s)" "hton_flag (gd s1) = hton_flag (gd s)"
    "option_img_hash (gd s1) = option_img_hash (gd s)" "hdr_file_name (gd s1) = hdr_file_name (gd s)" "pri_fname (gd s1) = pri_fname (gd s)"
    "srk_sel (gd s1) = srk_sel (gd s)" "rsa_sign (gd s1) = rsa_sign (gd s)" by (simp_all add: e1)
  have 2: "laid_out (gd s2)" "signing_data (gd s2) = signing_data (gd s1)"
      "\<exists>t. length t = 8 \<and> fill_sg_table (files s2) (entries (gd s2)) (unat (num_entries (gd s2))) 0 t = Some (True, sg_table (gd s2))"
    using fill_structure_spec [OF s2 1(1,3) w] i h d1 by simp_all
  obtain images where im: "hash_files (files s2) (take (unat (num_entries (gd s2))) (entries (gd s2))) = Some images"
    and e3: "s3 = s2\<lparr>gd := (gd s2)\<lparr>img_hash := SHA256_fn E (take (unat (hdr_size (gd s2))) (hdr_struct (gd s2)) @ srk_part (gd s2) @
       take (unat (sg_size (gd s2))) (sg_bytes (sg_table (gd s2))) @ images)\<rparr>\<rparr>"
    by (rule calc_img_hash_spec [OF s3])
  have same: "srk_part (gd s3) = srk_part (gd s2)" "key_size (gd s3) = key_size (gd s2)" "isbc_hdr_ta_2_1 (gd s3) = isbc_hdr_ta_2_1 (gd s2)"
    by (simp_all add: e3)
  have "laid_out (gd s3)" using 2(1) by (simp add: e3)
  moreover have "length (srk_part (gd s3)) = key_size (gd s3)" using 1(2) signing_data_eqD [OF 2(2)] same by simp
  moreover have "length (sg_table (gd s3)) = 8" using 2(3) fill_sg_table_spec by (fastforce simp: e3)
  ultimately obtain b where e4: "s4 = s3\<lparr>files := (files s3)(hdr_file_name (gd s3) \<mapsto> b)\<rparr>" and b: "length b = unat (rsa_offset (gd s3))"
    "take 64 b = isbc_hdr_ta_2_1 (gd s3)" "slice b 512 (key_size (gd s3)) = srk_part (gd s3)"
    "slice b (unat (sg_offset (gd s3))) (unat (sg_size (gd s3))) = take (unat (sg_size (gd s3))) (sg_bytes (sg_table (gd s3)))"
    by (rule create_header_spec [OF s4 _ _ _ w])
  have d: "hdr_file_name (gd s2) = hdr_file_name (gd s)" "pri_fname (gd s2) = pri_fname (gd s)" "srk_sel (gd s2) = srk_sel (gd s)"
    "rsa_sign (gd s2) = rsa_sign (gd s)" "option_img_hash (gd s2) = option_img_hash (gd s)" "srk_hash (gd s2) = srk_hash (gd s1)"
    using 2(2) d1 by (simp_all add: signing_data_def)
  have H: "take (unat (hdr_size (gd s2))) (hdr_struct (gd s2)) = take 64 b" using 2(1) b(2) same by (simp add: laid_out_def)
  have e: "and_then (calculate_signature E s4) (append_signature E) = Some (True, s')" using s5 assms(2) d by (simp add: e4 e3)
  have p: "length (rsa_sign (gd s4)) = 1024" "files s4 (hdr_file_name (gd s4)) = Some b" "length (img_hash (gd s4)) = 32"
    using a d sha by (simp_all add: e4 e3 arrays_ok_def)
  obtain key sig r where k: "files s4 (pri_fname (gd s4) ! unat (srk_sel (gd s4) - 1)) = Some key" "RSA_sign_fn E key (img_hash (gd s4)) = Some sig"
    and e5: "s' = \<lparr>gd = (gd s4)\<lparr>rsa_sign := r, rsa_size := of_nat (length sig)\<rparr>, files = (files s4)(hdr_file_name (gd s4) \<mapsto> b @ sig)\<rparr>"
    by (rule signature_spec [OF e w p])
  have q: "rsa_offset (gd s3) = rsa_offset (gd s2)" "sg_offset (gd s3) = sg_offset (gd s2)" "sg_size (gd s3) = sg_size (gd s2)" "sg_table (gd s3) = sg_table (gd s2)"
    by (simp_all add: e3)
  have r: "files s4 = (files s2)(hdr_file_name (gd s) \<mapsto> b)" "gd s4 = gd s3" using d(1) by (simp_all add: e4 e3)
  have g: "pri_fname (gd s3) = pri_fname (gd s)" "srk_sel (gd s3) = srk_sel (gd s)" "hdr_file_name (gd s3) = hdr_file_name (gd s)"
    "entries (gd s3) = entries (gd s2)" "srk_hash (gd s3) = srk_hash (gd s1)"
    "img_hash (gd s3) = SHA256_fn E (take 64 b @ srk_part (gd s2) @ take (unat (sg_size (gd s2))) (sg_bytes (sg_table (gd s2))) @ images)"
    using d by (simp_all add: e3 H)
  show thesis
  proof (rule that [OF s1 s2 im b [unfolded same q] k [unfolded r g]])
    show "files s' = (files s2)(hdr_file_name (gd s) \<mapsto> b @ sig)" by (simp add: e5 r g)
    show "entries (gd s') = entries (gd s2)" "srk_hash (gd s') = srk_hash (gd s1)" by (simp_all add: e5 r g)
  qed
qed

section \<open>Properties\<close>

text \<open>
  What the tool relies on: data is written completely, a hash has 32 bytes, and a signature is as long as the modulus of the public
  key that belongs to the private key. The first is the successful case of \<open>fwrite\<close>, the others are OpenSSL's.
\<close>

definition env_ok :: "cst_env \<Rightarrow> bool" where
  "env_ok E \<longleftrightarrow> (\<forall>n b. fwrite_fn E n b = b) \<and> (\<forall>b. length (SHA256_fn E b) = 32)"

definition key_pair :: "cst_env \<Rightarrow> byte list option \<Rightarrow> byte list option \<Rightarrow> bool" where
  "key_pair E pub priv \<longleftrightarrow> (\<forall>p q n e d sig. pub = Some p \<and> PEM_pub E p = Some (n, e) \<longrightarrow> length (BN_bn2bin e) \<le> length (BN_bn2bin n) \<and>
     (priv = Some q \<and> RSA_sign_fn E q d = Some sig \<longrightarrow> length sig = length (BN_bn2bin n)))"

text \<open>The global structure before a run: the sizes of its arrays, little-endian words, a flag that is 0 or 1, and no table of further keys yet.\<close>

definition parsed :: "g_data_t \<Rightarrow> bool" where
  "parsed g \<longleftrightarrow> arrays_ok g \<and> \<not> hton_flag g \<and> srk_flag g \<le> 1 \<and> ie_table_size g = 0"

text \<open>
  What the file says of itself: it starts with the barker code, the hash of the public key is \<open>srkh\<close>, the modulus of the selected key is
  \<open>n\<close>, the table gives the size and the addresses of every image, and the signature is that of \<open>key\<close> over the header, the public key, the
  table and the contents of all the image files of the table, in its order.
\<close>

definition signed_file ::
    "cst_env \<Rightarrow> (string \<Rightarrow> byte list option) \<Rightarrow> sg_input list \<Rightarrow> byte list \<Rightarrow> nat \<Rightarrow> byte list \<Rightarrow> byte list \<Rightarrow> bool" where
  "signed_file E fs es srkh n key F \<longleftrightarrow>
     take 4 F = [0x68, 0x39, 0x27, 0x81] \<and> SHA256_fn E (hdr_key F) = srkh \<and> hdr_modulus F = BN_bn2bin n \<and>
     hdr_word F 0x18 \<le> length es \<and>
     (\<forall>j < hdr_word F 0x18. \<exists>bs. fs (img_name (es ! j)) = Some bs \<and> hdr_word (hdr_table F) (16 * j) = length bs \<and>
        hdr_word (hdr_table F) (16 * j + 8) = unat (img_addr_low (es ! j)) \<and>
        hdr_word (hdr_table F) (16 * j + 12) = unat (img_dst_addr (es ! j))) \<and>
     (\<exists>images. list_all2 (\<lambda>e bs. fs (img_name e) = Some bs) (take (hdr_word F 0x18) es) images \<and>
        RSA_sign_fn E key (SHA256_fn E (take 64 F @ hdr_key F @ hdr_table F @ concat images)) = Some (hdr_signature F))"

text \<open>What is hashed after the table is the contents of the files, one after the other.\<close>

lemma hash_files_images:
  "hash_files fs es = Some b \<Longrightarrow> \<exists>images. list_all2 (\<lambda>e bs. fs (img_name e) = Some bs) es images \<and> b = concat images"
proof (induction es arbitrary: b)
  case (Cons e es)
  then obtain bs rest where "fs (img_name e) = Some bs" "hash_files fs es = Some rest" "b = bs @ rest"
    by (auto split: bind_splits)
  moreover from Cons.IH obtain images where "list_all2 (\<lambda>e bs. fs (img_name e) = Some bs) es images" "rest = concat images"
    using calculation(2) by blast
  ultimately show ?case by (intro exI [of _ "bs # images"]) simp
qed simp

lemma hdr_table_words:
  assumes f: "fill_sg_table fs es n 0 t0 = Some (True, t)" and t: "hdr_table F = take (16 * n) (sg_bytes t)" and j: "j < n"
  shows "\<exists>bs. fs (img_name (es ! j)) = Some bs \<and> hdr_word (hdr_table F) (16 * j) = length bs \<and>
     hdr_word (hdr_table F) (16 * j + 8) = unat (img_addr_low (es ! j)) \<and>
     hdr_word (hdr_table F) (16 * j + 12) = unat (img_dst_addr (es ! j))"
proof -
  let ?f = "\<lambda>e. put_u32 (sg_len e) @ put_u32 (sg_target e) @ put_u32 (sg_src_addr_low e) @ put_u32 (sg_dst_addr e)"
  obtain bs where b: "fs (img_name (es ! j)) = Some bs" "length bs < 2 ^ 31" "j < length t"
      "sg_len (t ! j) = of_nat (length bs)" "sg_src_addr_low (t ! j) = img_addr_low (es ! j)"
      "sg_dst_addr (t ! j) = img_dst_addr (es ! j)"
    using fill_sg_table_spec [OF f] j by fastforce
  have l: "list_all (\<lambda>x. length (?f x) = 16) t" by (simp add: list_all_iff)
  have "hdr_word (concat (map ?f t)) (16 * j + 0) = unat (sg_len (t ! j))"
    by (rule word_of_entry [OF l b(3), where a = "[]"]) auto
  moreover have "hdr_word (concat (map ?f t)) (16 * j + 8) = unat (sg_src_addr_low (t ! j))"
    by (rule word_of_entry [OF l b(3), where a = "put_u32 (sg_len (t ! j)) @ put_u32 (sg_target (t ! j))"]) auto
  moreover have "hdr_word (concat (map ?f t)) (16 * j + 12) = unat (sg_dst_addr (t ! j))"
    by (rule word_of_entry [OF l b(3), where a = "put_u32 (sg_len (t ! j)) @ put_u32 (sg_target (t ! j)) @ put_u32 (sg_src_addr_low (t ! j))"]) auto
  moreover have "unat (of_nat (length bs) :: u32) = length bs" using b(2) by (simp add: unat_of_nat)
  ultimately show ?thesis using b t j word_in_slice [of "16 * j" "16 * n" "sg_bytes t"] word_in_slice [of "16 * j + 8" "16 * n" "sg_bytes t"]
      word_in_slice [of "16 * j + 12" "16 * n" "sg_bytes t"]
    by (simp add: sg_bytes_def)
qed

text \<open>The selected key is among those that were read.\<close>

lemma selected_key:
  assumes s1: "create_srk_calc_hash E 4 s = Some (True, s1)" and p: "parsed (gd s)"
  defines "j \<equiv> unat (srk_sel (gd s) - 1)"
  obtains pub n e where "files s (pub_fname (gd s) ! j) = Some pub" "PEM_pub E pub = Some (n, e)"
    "srk_key_len (key_table (gd s1) ! j) = of_nat (2 * length (BN_bn2bin n))" "2 * length (BN_bn2bin n) \<le> 1024"
    "length (BN_bn2bin e) \<le> length (BN_bn2bin n) \<Longrightarrow> take (length (BN_bn2bin n)) (srk_pkey (key_table (gd s1) ! j)) = BN_bn2bin n"
    "srk_flag (gd s) \<noteq> 1 \<Longrightarrow> srk_sel (gd s) = 1 \<and> key_len (gd s1) = srk_key_len (key_table (gd s1) ! 0)"
    "0 < srk_sel (gd s)" "srk_sel (gd s) \<le> num_srk_entries (gd s)" "unat (num_srk_entries (gd s)) \<le> 4"
    "unat (num_srk_entries (gd s)) \<le> length (key_table (gd s1))"
proof -
  have a: "arrays_ok (gd s)" "\<not> hton_flag (gd s)" "srk_flag (gd s) \<le> 1" using p by (simp_all add: parsed_def)
  obtain t kl h where t: "load_keys E (files s) False True (pub_fname (gd s)) (unat (num_srk_entries (gd s))) 0 (key_table (gd s)) = Some (True, t)"
    and e: "s1 = s\<lparr>gd := (gd s)\<lparr>key_table := t, srk_size := num_srk_entries (gd s) * 1028, key_len := kl, srk_hash := h, srk_hash_flag := True\<rparr>\<rparr>"
    and k: "srk_flag (gd s) \<noteq> 1 \<Longrightarrow> kl = srk_key_len (t ! 0)"
    and n: "0 < srk_sel (gd s)" "srk_sel (gd s) \<le> num_srk_entries (gd s)" "num_srk_entries (gd s) \<le> (if srk_flag (gd s) = 0 then 1 else 4)"
    by (rule create_srk_calc_hash_spec [OF s1 a(1,2)]) blast
  have n4: "unat (num_srk_entries (gd s)) \<le> 4" using n(3) by (auto simp: word_le_nat_alt split: if_splits)
  have j: "unat (srk_sel (gd s)) = Suc j" "j < unat (num_srk_entries (gd s))"
    using n(1,2) by (auto simp: j_def word_le_nat_alt unat_minus_one word_gt_0 unat_eq_0 [symmetric])
  have l: "length (srk_pkey (key_table (gd s) ! j)) = 1024" using a(1) j(2) n4 by (auto simp: arrays_ok_def list_all_length)
  have f: "srk_flag (gd s) = 0" if "srk_flag (gd s) \<noteq> 1"
  proof -
    have "unat (srk_flag (gd s)) \<le> 1" using a(3) by (simp add: word_le_nat_alt)
    then have "unat (srk_flag (gd s)) = 0 \<or> unat (srk_flag (gd s)) = 1" by linarith
    then show ?thesis using that by (auto simp: word_unat_eq_iff)
  qed
  have sel: "srk_sel (gd s) = 1" if "srk_flag (gd s) \<noteq> 1"
  proof -
    have "unat (num_srk_entries (gd s)) \<le> 1" using n(3) f [OF that] by (simp add: word_le_nat_alt)
    then have "unat (srk_sel (gd s)) = 1" using j by simp
    then show ?thesis by (simp add: word_unat_eq_iff)
  qed
  obtain pub m x where "files s (pub_fname (gd s) ! j) = Some pub" "PEM_pub E pub = Some (m, x)"
    "srk_key_len (t ! j) = of_nat (2 * length (BN_bn2bin m))" "2 * length (BN_bn2bin m) \<le> 1024"
    "length (BN_bn2bin x) \<le> length (BN_bn2bin m) \<longrightarrow> take (length (BN_bn2bin m)) (srk_pkey (t ! j)) = BN_bn2bin m"
    using load_keys_spec [OF t] j(2) unfolding hton_if_def if_False l [symmetric] by (metis add_0 zero_le)
  moreover have "unat (num_srk_entries (gd s)) \<le> length t" using a(1) load_keys_keeps [OF t] n4 by (simp add: arrays_ok_def)
  ultimately show thesis using that [of pub m x] sel k n n4 by (simp add: e)
qed

lemma files_before_header:
  assumes "fill_structure_ta_2_1 E s1 = Some (True, s2)" and "n \<noteq> DEFAULT_IE_FILE_NAME"
  shows "files s2 n = files s1 n"
proof -
  obtain h s where s: "add_ie_table E (s1\<lparr>gd := (gd s1)\<lparr>hdr_struct := h\<rparr>\<rparr>) = Some (True, s)" and f: "files s2 = files s"
    using assms(1) unfolding fill_structure_ta_2_1_def Let_def by (auto split: bind_splits if_splits)
  show ?thesis
  proof (cases "iek_flag (gd s1)")
    case True
    then obtain s3 where c: "create_ie_file E DEFAULT_IE_FILE_NAME (s1\<lparr>gd := (gd s1)\<lparr>hdr_struct := h\<rparr>\<rparr>) = Some (True, s3)" and "files s = files s3"
      using s by (auto simp: add_ie_table_def split: bind_splits if_splits)
    moreover have "files s3 n = files s1 n"
      using c assms(2) by (auto simp: create_ie_file_def write_file_def Let_def split: bind_splits if_splits option.splits)
    ultimately show ?thesis using f by simp
  qed (use s f in \<open>auto simp: add_ie_table_def\<close>)
qed

lemma create_srk_files: "create_srk_calc_hash E m s = Some (ok, s') \<Longrightarrow> files s' = files s"
  by (auto simp: create_srk_calc_hash_def Let_def split: bind_splits if_splits)

lemma laid_out_fill:
  assumes s1: "create_srk_calc_hash E 4 s = Some (True, s1)" and s2: "fill_structure_ta_2_1 E s1 = Some (True, s2)" and p: "parsed (gd s)" and E: "env_ok E"
  shows "laid_out (gd s2)"
    and "\<exists>t. length t = 8 \<and> fill_sg_table (files s2) (entries (gd s2)) (unat (num_entries (gd s2))) 0 t = Some (True, sg_table (gd s2))"
    and "signing_data (gd s2) = signing_data (gd s1)"
proof -
  have a: "arrays_ok (gd s)" "\<not> hton_flag (gd s)" "ie_table_size (gd s) = 0" using p by (simp_all add: parsed_def)
  have w: "\<And>n b. fwrite_fn E n b = b" using E by (simp add: env_ok_def)
  have 1: "arrays_ok (gd s1)" "key_size (gd s1) \<le> 4112" by (rule create_srk_calc_hash_spec [OF s1 a(1,2)]; assumption)+
  obtain t kl h where e1: "s1 = s\<lparr>gd := (gd s)\<lparr>key_table := t, srk_size := num_srk_entries (gd s) * 1028, key_len := kl,
      srk_hash := h, srk_hash_flag := True\<rparr>\<rparr>" by (rule create_srk_calc_hash_spec [OF s1 a(1,2)])
  show "laid_out (gd s2)" "signing_data (gd s2) = signing_data (gd s1)"
    "\<exists>t. length t = 8 \<and> fill_sg_table (files s2) (entries (gd s2)) (unat (num_entries (gd s2))) 0 t = Some (True, sg_table (gd s2))"
    using fill_structure_spec [OF s2 1 w] a by (simp_all add: e1)
qed

text \<open>The parts of the file, by the states in which they were made.\<close>

lemma filled_header:
  assumes s1: "create_srk_calc_hash E 4 s = Some (True, s1)" and s2: "fill_structure_ta_2_1 E s1 = Some (True, s2)" and p: "parsed (gd s)" and E: "env_ok E"
    and b: "take 64 F = isbc_hdr_ta_2_1 (gd s2)" "slice F 512 (key_size (gd s2)) = srk_part (gd s2)"
      "slice F (unat (sg_offset (gd s2))) (unat (sg_size (gd s2))) = take (unat (sg_size (gd s2))) (sg_bytes (sg_table (gd s2)))"
    and n: "PEM_pub E pub = Some (n, e)" "files s (pub_fname (gd s) ! unat (srk_sel (gd s) - 1)) = Some pub" "length (BN_bn2bin e) \<le> length (BN_bn2bin n)"
  shows "hdr_key F = srk_part (gd s2)" and "SHA256_fn E (hdr_key F) = srk_hash (gd s1)" and "hdr_table F = take (unat (sg_size (gd s2))) (sg_bytes (sg_table (gd s2)))"
    and "hdr_word F 0x0c = unat (rsa_offset (gd s2))" and "hdr_word F 0x10 = length (BN_bn2bin n)" and "hdr_modulus F = BN_bn2bin n"
proof -
  let ?j = "unat (srk_sel (gd s) - 1)"
  have a: "arrays_ok (gd s)" "\<not> hton_flag (gd s)" "ie_table_size (gd s) = 0" using p by (simp_all add: parsed_def)
  have 1: "arrays_ok (gd s1)" "srk_hash (gd s1) = SHA256_fn E (srk_part (gd s1))"
    by (rule create_srk_calc_hash_spec [OF s1 a(1,2)]; assumption)+
  obtain t kl h where e1: "s1 = s\<lparr>gd := (gd s)\<lparr>key_table := t, srk_size := num_srk_entries (gd s) * 1028, key_len := kl,
      srk_hash := h, srk_hash_flag := True\<rparr>\<rparr>" by (rule create_srk_calc_hash_spec [OF s1 a(1,2)])
  note 2 = laid_out_fill [OF s1 s2 p E]
  have d: "srk_sel (gd s2) = srk_sel (gd s)" "num_srk_entries (gd s2) = num_srk_entries (gd s)" "srk_flag (gd s2) = srk_flag (gd s)"
      "srk_size (gd s2) = num_srk_entries (gd s) * 1028" "key_len (gd s2) = key_len (gd s1)" "key_table (gd s2) = key_table (gd s1)"
    using 2(3) by (simp_all add: signing_data_def e1)
  obtain pub' n' e' where k: "files s (pub_fname (gd s) ! ?j) = Some pub'" "PEM_pub E pub' = Some (n', e')"
    "srk_key_len (key_table (gd s1) ! ?j) = of_nat (2 * length (BN_bn2bin n'))" "2 * length (BN_bn2bin n') \<le> 1024"
    "length (BN_bn2bin e') \<le> length (BN_bn2bin n') \<Longrightarrow> take (length (BN_bn2bin n')) (srk_pkey (key_table (gd s1) ! ?j)) = BN_bn2bin n'"
    "srk_flag (gd s) \<noteq> 1 \<Longrightarrow> srk_sel (gd s) = 1 \<and> key_len (gd s1) = srk_key_len (key_table (gd s1) ! 0)"
    "0 < srk_sel (gd s)" "srk_sel (gd s) \<le> num_srk_entries (gd s)" "unat (num_srk_entries (gd s)) \<le> 4" "unat (num_srk_entries (gd s)) \<le> length (key_table (gd s1))"
    by (rule selected_key [OF s1 p]) blast
  have same: "n' = n" "e' = e" using k(1,2) n(1,2) by simp_all
  note k = k [unfolded same]
  have v: "unat (of_nat (2 * length (BN_bn2bin n)) :: u32) = 2 * length (BN_bn2bin n)" by (subst unat_of_nat) (use k(4) in simp)
  have sz: "unat (srk_size (gd s2)) = 1028 * unat (num_srk_entries (gd s2))" using k(9) d by (simp add: unat_word_ariths)
  have sel: "unat (srk_sel (gd s)) \<le> 4" using k(8,9) by (simp add: word_le_nat_alt)
  have ev: "even (unat (key_len (gd s2)))" if "srk_flag (gd s2) \<noteq> 1"
    using k(3,6) v d that by simp
  note parts = hdr_parts [OF b(1) 2(1) b(2,3)]
  show K: "hdr_key F = srk_part (gd s2)" by (rule parts) (use sz sel k(9) d ev in simp_all)
  show "SHA256_fn E (hdr_key F) = srk_hash (gd s1)" unfolding K 1(2) signing_data_eqD(1) [OF 2(3)] ..
  have "hdr_table F = take (16 * unat (num_entries (gd s2))) (sg_bytes (sg_table (gd s2)))" by (rule parts) (use sz sel k(9) d ev in simp_all)
  then show "hdr_table F = take (unat (sg_size (gd s2))) (sg_bytes (sg_table (gd s2)))" using 2(1) by (simp add: laid_out_def)
  show "hdr_word F 0x0c = unat (rsa_offset (gd s2))" by (rule header_fields(3) [OF b(1)])
  have "rsa_size (gd s2) = of_nat (2 * length (BN_bn2bin n)) div 2" using 2(1) k(3) d by (simp add: laid_out_def)
  then show "hdr_word F 0x10 = length (BN_bn2bin n)" using header_fields(4) [OF b(1)] v by (simp add: unat_div)
  have I: "hdr_word F 0x08 mod 256 = 1 \<longleftrightarrow> srk_flag (gd s2) = 1" by (rule parts) (use sz sel k(9) d ev in simp_all)
  show "hdr_modulus F = BN_bn2bin n"
    by (rule hdr_modulus_eq [OF b(1) K I]) (use 1(1) k sz n(3) d in \<open>simp_all add: arrays_ok_def\<close>)
qed

lemma create_hdr_signs:
  assumes c: "create_hdr E s = Some (True, s')" and img: "\<not> option_img_hash (gd s)" and p: "parsed (gd s)" and E: "env_ok E"
    and pair: "key_pair E (files s (pub_fname (gd s) ! unat (srk_sel (gd s) - 1))) (files s (pri_fname (gd s) ! unat (srk_sel (gd s) - 1)))"
    and names: "hdr_file_name (gd s) \<notin> img_name ` set (entries (gd s'))"
      "pri_fname (gd s) ! unat (srk_sel (gd s) - 1) \<notin> {hdr_file_name (gd s), ''ie_table.out''}"
  shows "\<exists>pub n e key F. files s (pub_fname (gd s) ! unat (srk_sel (gd s) - 1)) = Some pub \<and> PEM_pub E pub = Some (n, e) \<and>
     files s (pri_fname (gd s) ! unat (srk_sel (gd s) - 1)) = Some key \<and> files s' (hdr_file_name (gd s)) = Some F \<and>
     signed_file E (files s') (entries (gd s')) (srk_hash (gd s')) n key F"
proof -
  let ?j = "unat (srk_sel (gd s) - 1)"
  have a: "arrays_ok (gd s)" "\<not> hton_flag (gd s)" "ie_table_size (gd s) = 0" using p by (simp_all add: parsed_def)
  have w: "\<And>n b. fwrite_fn E n b = b" "\<And>b. length (SHA256_fn E b) = 32" using E by (simp_all add: env_ok_def)
  obtain s1 s2 images b key sig where s1: "create_srk_calc_hash E 4 s = Some (True, s1)" and s2: "fill_structure_ta_2_1 E s1 = Some (True, s2)"
    and im: "hash_files (files s2) (take (unat (num_entries (gd s2))) (entries (gd s2))) = Some images"
    and b: "length b = unat (rsa_offset (gd s2))" "take 64 b = isbc_hdr_ta_2_1 (gd s2)" "slice b 512 (key_size (gd s2)) = srk_part (gd s2)"
      "slice b (unat (sg_offset (gd s2))) (unat (sg_size (gd s2))) = take (unat (sg_size (gd s2))) (sg_bytes (sg_table (gd s2)))"
    and k: "((files s2)(hdr_file_name (gd s) \<mapsto> b)) (pri_fname (gd s) ! ?j) = Some key"
      "RSA_sign_fn E key (SHA256_fn E (take 64 b @ srk_part (gd s2) @ take (unat (sg_size (gd s2))) (sg_bytes (sg_table (gd s2))) @ images)) = Some sig"
    and f: "files s' = (files s2)(hdr_file_name (gd s) \<mapsto> b @ sig)" "entries (gd s') = entries (gd s2)" "srk_hash (gd s') = srk_hash (gd s1)"
    by (rule create_hdr_steps [OF c img a(1,2) w(1) a(3) w(2)])
  define F where "F = b @ sig"
  obtain pub n e where n: "files s (pub_fname (gd s) ! ?j) = Some pub" "PEM_pub E pub = Some (n, e)" by (rule selected_key [OF s1 p]) blast
  have key: "files s (pri_fname (gd s) ! ?j) = Some key"
    using k(1) names(2) files_before_header [OF s2] create_srk_files [OF s1] by simp
  have len: "length (BN_bn2bin e) \<le> length (BN_bn2bin n)" "length sig = length (BN_bn2bin n)" using pair n key k(2) by (auto simp: key_pair_def)
  note l = laid_out_fill [OF s1 s2 p E]
  have u: "unat (sg_offset (gd s2)) + unat (sg_size (gd s2)) \<le> length b" "512 + key_size (gd s2) \<le> length b" "64 \<le> length b" using l(1) b(1) by (auto simp: laid_out_def)
  have F: "take 64 F = take 64 b" "slice F 512 (key_size (gd s2)) = slice b 512 (key_size (gd s2))"
      "slice F (unat (sg_offset (gd s2))) (unat (sg_size (gd s2))) = slice b (unat (sg_offset (gd s2))) (unat (sg_size (gd s2)))"
    using u by (simp_all add: F_def slice_append_left)
  note H = filled_header [OF s1 s2 p E b(2-4) [folded F] n(2,1) len(1)]
  have num: "hdr_word F 0x18 = unat (num_entries (gd s2))" by (rule header_fields(6) [OF b(2) [folded F(1)]])
  have same: "files s' (img_name x) = files s2 (img_name x)" if "x \<in> set (entries (gd s2))" for x
  proof -
    have "img_name x \<noteq> hdr_file_name (gd s)" using that names(1) f(2) by (metis imageI)
    then show ?thesis by (simp add: f(1))
  qed
  have "slice F (unat (rsa_offset (gd s2))) (length sig) = sig" by (simp add: F_def slice_def b(1) [symmetric])
  then have sig: "hdr_signature F = sig" unfolding hdr_signature_def H(4,5) len(2) .
  have "signed_file E (files s') (entries (gd s')) (srk_hash (gd s')) n key F"
    unfolding signed_file_def f(2,3)
  proof (intro conjI allI impI)
    show "take 4 F = [0x68, 0x39, 0x27, 0x81]" using header_fields(1) [OF b(2) [folded F(1)]] by (simp add: BARKER_def)
    show "SHA256_fn E (hdr_key F) = srk_hash (gd s1)" "hdr_modulus F = BN_bn2bin n" by (fact H)+
    show le: "hdr_word F 0x18 \<le> length (entries (gd s2))" using l(2) fill_sg_table_spec num by (cases "unat (num_entries (gd s2))") fastforce+
    obtain t where t: "fill_sg_table (files s2) (entries (gd s2)) (unat (num_entries (gd s2))) 0 t = Some (True, sg_table (gd s2))" using l(2) by blast
    have T: "hdr_table F = take (16 * unat (num_entries (gd s2))) (sg_bytes (sg_table (gd s2)))" using H(3) l(1) by (simp add: laid_out_def)
    fix j assume j: "j < hdr_word F 0x18"
    then have "entries (gd s2) ! j \<in> set (entries (gd s2))" using le by simp
    then show "\<exists>bs. files s' (img_name (entries (gd s2) ! j)) = Some bs \<and> hdr_word (hdr_table F) (16 * j) = length bs \<and>
        hdr_word (hdr_table F) (16 * j + 8) = unat (img_addr_low (entries (gd s2) ! j)) \<and>
        hdr_word (hdr_table F) (16 * j + 12) = unat (img_dst_addr (entries (gd s2) ! j))"
      using hdr_table_words [OF t T] j num same by simp
  next
    have "hash_files (files s') (take (hdr_word F 0x18) (entries (gd s2))) = Some images"
      unfolding num im [symmetric] by (rule hash_files_cong) (use same in \<open>auto dest: in_set_takeD\<close>)
    then obtain imgs where "list_all2 (\<lambda>e bs. files s' (img_name e) = Some bs) (take (hdr_word F 0x18) (entries (gd s2))) imgs"
        "images = concat imgs"
      using hash_files_images by blast
    then show "\<exists>images. list_all2 (\<lambda>e bs. files s' (img_name e) = Some bs) (take (hdr_word F 0x18) (entries (gd s2))) images \<and>
        RSA_sign_fn E key (SHA256_fn E (take 64 F @ hdr_key F @ hdr_table F @ concat images)) = Some (hdr_signature F)"
      using k(2) unfolding H(1,3) sig F(1) by blast
  qed
  then show ?thesis using n key f(1) by (auto simp: F_def)
qed

section \<open>Success\<close>

text \<open>A public key that can be read and fits in its buffer.\<close>

definition key_file_ok :: "cst_env \<Rightarrow> (string \<Rightarrow> byte list option) \<Rightarrow> string \<Rightarrow> bool" where
  "key_file_ok E fs name \<longleftrightarrow> (case Option.bind (fs name) (PEM_pub E) of None \<Rightarrow> False
     | Some (n, e) \<Rightarrow> length (BN_bn2bin e) \<le> length (BN_bn2bin n) \<and> length (BN_bn2bin n) \<le> 512)"

text \<open>Inputs with which a header without further keys can be created and signed.\<close>

definition inputs_ok :: "cst_env \<Rightarrow> tool \<Rightarrow> bool" where
  "inputs_ok E s \<longleftrightarrow> (let g = gd s; fs = files s in
     parsed g \<and> \<not> iek_flag g \<and> \<not> option_img_hash g \<and>
     0 < srk_sel g \<and> srk_sel g \<le> num_srk_entries g \<and> num_srk_entries g \<le> (if srk_flag g = 0 then 1 else 4) \<and>
     num_pri_key g = num_srk_entries g \<and> unat (num_srk_entries g) \<le> length (pub_fname g) \<and> unat (num_srk_entries g) \<le> length (pri_fname g) \<and>
     (\<forall>i < unat (num_srk_entries g). key_file_ok E fs (pub_fname g ! i)) \<and>
     unat (num_entries g) \<le> 8 \<and> (\<forall>i < unat (num_entries g). \<exists>bs. fs (img_name (entries g ! i)) = Some bs \<and> length bs < 2 ^ 31) \<and>
     can_write E (hdr_file_name g) \<and> (\<forall>n. can_malloc E n) \<and>
     pri_fname g ! unat (srk_sel g - 1) \<notin> {hdr_file_name g, ''ie_table.out''} \<and> hdr_file_name g \<notin> img_name ` set (entries g) \<and>
     key_pair E (fs (pub_fname g ! unat (srk_sel g - 1))) (fs (pri_fname g ! unat (srk_sel g - 1))) \<and>
     (\<exists>key. fs (pri_fname g ! unat (srk_sel g - 1)) = Some key \<and> (\<forall>d. \<exists>sig. RSA_sign_fn E key d = Some sig)))"

lemma load_keys_succeeds:
  "\<forall>j. i \<le> j \<and> j < i + k \<longrightarrow> key_file_ok E fs (names ! j) \<Longrightarrow> i + k \<le> length names \<Longrightarrow> i + k \<le> length t \<Longrightarrow>
   list_all (\<lambda>x. length (srk_pkey x) = 1024) t \<Longrightarrow> \<exists>t'. load_keys E fs h c names k i t = Some (True, t')"
proof (induction k arbitrary: i t)
  case (Suc k)
  have i: "i < length names" "i < length t" "length (srk_pkey (t ! i)) = 1024" using Suc.prems by (auto simp: list_all_length)
  have "key_file_ok E fs (names ! i)" using Suc.prems(1) by simp
  then obtain n e where k: "Option.bind (fs (names ! i)) (PEM_pub E) = Some (n, e)"
      "length (BN_bn2bin e) \<le> length (BN_bn2bin n)" "length (BN_bn2bin n) \<le> 512"
    by (auto simp: key_file_ok_def split: option.splits)
  obtain b where b: "poke (srk_pkey (t ! i)) 0 (BN_bn2bin n) = Some b" "length b = 1024"
    using poke_Some [of 0 "BN_bn2bin n" "srk_pkey (t ! i)"] i(3) k(3) by auto
  obtain p where p: "poke b (2 * length (BN_bn2bin n) - length (BN_bn2bin e)) (BN_bn2bin e) = Some p" "length p = 1024"
    using poke_Some [of "2 * length (BN_bn2bin n) - length (BN_bn2bin e)" "BN_bn2bin e" b] b(2) k(2,3) by auto
  have c: "crypto_extract_pub_key E fs (names ! i) (srk_pkey (t ! i)) = Some (Some (of_nat (2 * length (BN_bn2bin n)), p))"
    using k b(1) p(1) by (simp add: crypto_extract_pub_key_def Let_def)
  let ?t = "t[i := \<lparr>srk_key_len = hton_if h (of_nat (2 * length (BN_bn2bin n))), srk_pkey = p\<rparr>]"
  have "list_all (\<lambda>x. length (srk_pkey x) = 1024) ?t" using Suc.prems(4) p(2) i(2) by (auto simp: list_all_length nth_list_update)
  then have "\<exists>t'. load_keys E fs h c names k (Suc i) ?t = Some (True, t')" using Suc.prems by (intro Suc.IH) auto
  then show ?case using i c by (simp add: at_def upd_def)
qed simp

lemma fill_sg_table_succeeds:
  "\<forall>j. i \<le> j \<and> j < i + k \<longrightarrow> (\<exists>bs. fs (img_name (es ! j)) = Some bs \<and> length bs < 2 ^ 31) \<Longrightarrow> i + k \<le> length es \<Longrightarrow> i + k \<le> length t \<Longrightarrow>
   \<exists>t'. fill_sg_table fs es k i t = Some (True, t')"
proof (induction k arbitrary: i t)
  case (Suc k)
  obtain bs where b: "fs (img_name (es ! i)) = Some bs" "length bs < 2 ^ 31" using Suc.prems(1) by auto
  let ?t = "t[i := (t ! i)\<lparr>sg_len := of_nat (length bs), sg_src_addr_low := img_addr_low (es ! i), sg_dst_addr := img_dst_addr (es ! i)\<rparr>]"
  have "\<exists>t'. fill_sg_table fs es k (Suc i) ?t = Some (True, t')" using Suc.prems by (intro Suc.IH) auto
  then show ?case using b Suc.prems(2,3) by (simp add: at_def upd_def get_file_size_def)
qed simp

lemma hash_files_succeeds: "\<forall>e \<in> set es. fs (img_name e) \<noteq> None \<Longrightarrow> \<exists>b. hash_files fs es = Some b"
  by (induction es) auto

lemma length_srk_bytes: "list_all (\<lambda>x. length (srk_pkey x) = 1024) t \<Longrightarrow> length (srk_bytes t) = 1028 * length t"
  by (induction t) (auto simp: srk_bytes_def)

lemma create_srk_succeeds:
  assumes "inputs_ok E s"
  shows "\<exists>s1. create_srk_calc_hash E 4 s = Some (True, s1)"
proof -
  let ?g = "gd s"
  have p: "arrays_ok ?g" "\<not> hton_flag ?g" "srk_flag ?g \<le> 1" "0 < srk_sel ?g" "srk_sel ?g \<le> num_srk_entries ?g" "num_srk_entries ?g \<le> (if srk_flag ?g = 0 then 1 else 4)"
    "num_pri_key ?g = num_srk_entries ?g" "unat (num_srk_entries ?g) \<le> length (pub_fname ?g)" "\<forall>i < unat (num_srk_entries ?g). key_file_ok E (files s) (pub_fname ?g ! i)"
    using assms by (auto simp: inputs_ok_def parsed_def Let_def)
  have n4: "unat (num_srk_entries ?g) \<le> 4" "0 < unat (num_srk_entries ?g)" "num_srk_entries ?g \<noteq> 0"
    using p(4-6) by (auto simp: word_le_nat_alt word_less_nat_alt split: if_splits)
  obtain t where t: "load_keys E (files s) False True (pub_fname ?g) (unat (num_srk_entries ?g)) 0 (key_table ?g) = Some (True, t)"
    using load_keys_succeeds [of 0 "unat (num_srk_entries ?g)" E "files s" "pub_fname ?g" "key_table ?g" False True] p(1,8,9) n4 by (auto simp: arrays_ok_def)
  have l: "length t = 8" "list_all (\<lambda>x. length (srk_pkey x) = 1024) t" using load_keys_keeps [OF t] p(1) by (auto simp: arrays_ok_def)
  have "unat (num_srk_entries ?g * 1028) \<le> length (srk_bytes t)" using n4 l by (simp add: length_srk_bytes unat_word_ariths)
  moreover have "unat (srk_key_len (t ! 0)) \<le> length (srk_pkey (t ! 0))"
  proof -
    have "length (srk_pkey (key_table ?g ! 0)) = 1024" using p(1) by (auto simp: arrays_ok_def list_all_length)
    then obtain n where "srk_key_len (t ! 0) = of_nat (2 * length (BN_bn2bin n))" "2 * length (BN_bn2bin n) \<le> 1024"
      using load_keys_spec [OF t, THEN conjunct2, THEN conjunct2, rule_format, of 0] n4(2) by (auto simp: hton_if_def)
    then obtain m :: nat where m: "srk_key_len (t ! 0) = of_nat m" "m \<le> 1024" by blast
    have "unat (of_nat m :: u32) = m" by (subst unat_of_nat) (use m(2) in simp)
    then show ?thesis using m l by (cases t) auto
  qed
  ultimately show ?thesis using p n4(3) t by (auto simp: create_srk_calc_hash_def Let_def hton_if_def not_less)
qed

lemma fill_structure_succeeds:
  assumes "arrays_ok (gd s)" and "\<not> iek_flag (gd s)" and "unat (num_entries (gd s)) \<le> 8"
    and "\<forall>i < unat (num_entries (gd s)). \<exists>bs. files s (img_name (entries (gd s) ! i)) = Some bs \<and> length bs < 2 ^ 31"
  shows "\<exists>s'. fill_structure_ta_2_1 E s = Some (True, s')"
proof -
  obtain h where h: "poke (hdr_struct (gd s)) 0 (replicate 64 0) = Some h" "length h = 4096"
    using poke_Some [of 0 "replicate 64 0" "hdr_struct (gd s)"] assms(1) by (auto simp: arrays_ok_def)
  let ?g = "(gd s)\<lparr>hdr_struct := h\<rparr>"
  let ?c = "calculate_offset_size (?g\<lparr>hdr_size := 64\<rparr>)"
  have c: "entries ?c = entries (gd s)" "num_entries ?c = num_entries (gd s)" "sg_table ?c = sg_table (gd s)" "iek_flag ?c = iek_flag (gd s)" "hdr_struct ?c = h"
    by (simp_all add: calculate_offset_size_def Let_def)
  obtain t where t: "fill_sg_table (files s) (entries (gd s)) (unat (num_entries (gd s))) 0 (sg_table (gd s)) = Some (True, t)"
    using fill_sg_table_succeeds [of 0 "unat (num_entries (gd s))" "files s" "entries (gd s)" "sg_table (gd s)"] assms by (auto simp: arrays_ok_def)
  obtain h' where "poke h 0 (isbc_hdr_ta_2_1 (?c\<lparr>sg_table := t\<rparr>)) = Some h'"
    using poke_Some [of 0 "isbc_hdr_ta_2_1 (?c\<lparr>sg_table := t\<rparr>)" h] h(2) by (auto simp: length_header)
  then show ?thesis using assms(2) h(1) t c
    by (simp add: fill_structure_ta_2_1_def add_ie_table_def place_entries_def Let_def)
qed

lemma fill_structure_keeps:
  assumes "fill_structure_ta_2_1 E s = Some (True, s')" and "\<not> iek_flag (gd s)"
  shows "entries (gd s') = entries (gd s)" and "num_entries (gd s') = num_entries (gd s)" and "files s' = files s"
  using assms by (auto simp: fill_structure_ta_2_1_def add_ie_table_def place_entries_def calculate_offset_size_def Let_def split: bind_splits if_splits)

lemma calc_img_hash_succeeds:
  assumes l: "laid_out (gd s)" and t: "length (sg_table (gd s)) = 8" "unat (num_entries (gd s)) \<le> length (entries (gd s))"
    and f: "\<forall>i < unat (num_entries (gd s)). files s (img_name (entries (gd s) ! i)) \<noteq> None"
  shows "\<exists>s'. calc_img_hash_ta_2_x E s = Some (True, s')"
proof -
  have "\<forall>e \<in> set (take (unat (num_entries (gd s))) (entries (gd s))). files s (img_name e) \<noteq> None" using f t(2) by (auto simp: set_conv_nth)
  then obtain b where "hash_files (files s) (take (unat (num_entries (gd s))) (entries (gd s))) = Some b" using hash_files_succeeds by blast
  then show ?thesis using l t by (auto simp: calc_img_hash_ta_2_x_def Let_def laid_out_def length_sg_bytes)
qed

lemma create_header_succeeds:
  assumes l: "laid_out (gd s)" and k: "length (srk_part (gd s)) = key_size (gd s)" and t: "length (sg_table (gd s)) = 8"
    and "\<not> iek_flag (gd s)" and "env_ok E" and "\<forall>n. can_malloc E n" and "can_write E (hdr_file_name (gd s))"
  shows "\<exists>s'. create_header_ta_2_x E s = Some (True, s')"
proof -
  let ?g = "gd s"
  have u: "unat (hdr_size ?g) = 64" "unat (srk_offset ?g) = 512" "512 + key_size ?g \<le> unat (sg_offset ?g)"
    "unat (sg_offset ?g) + unat (sg_size ?g) \<le> unat (rsa_offset ?g)" "length (take 64 (hdr_struct ?g)) = 64"
    "length (take (unat (sg_size ?g)) (sg_bytes (sg_table ?g))) = unat (sg_size ?g)"
    using l t by (auto simp: laid_out_def length_header length_sg_bytes)
  obtain b1 where b1: "poke (replicate (unat (rsa_offset ?g)) 0) 0 (take 64 (hdr_struct ?g)) = Some b1" "length b1 = unat (rsa_offset ?g)"
    using poke_Some [of 0 "take 64 (hdr_struct ?g)" "replicate (unat (rsa_offset ?g)) 0"] u by auto
  obtain b2 where b2: "poke b1 512 (srk_part ?g) = Some b2" "length b2 = unat (rsa_offset ?g)"
    using poke_Some [of 512 "srk_part ?g" b1] u k b1(2) by auto
  obtain b3 where b3: "poke b2 (unat (sg_offset ?g)) (take (unat (sg_size ?g)) (sg_bytes (sg_table ?g))) = Some b3" "length b3 = unat (rsa_offset ?g)"
    using poke_Some [of "unat (sg_offset ?g)" "take (unat (sg_size ?g)) (sg_bytes (sg_table ?g))" b2] u b2(2) by auto
  have "b3 \<noteq> []" using b3(2) u(3,4) by auto
  then show ?thesis using b1(1) b2(1) b3(1) u(1,2) assms(4-7)
    by (simp add: create_header_ta_2_x_def Let_def put_ie_table_def write_file_def env_ok_def)
qed

lemma signature_succeeds:
  assumes "RSA_sign_fn E key (take 32 (img_hash (gd s))) = Some sig" and "files s (pri_fname (gd s) ! unat (srk_sel (gd s) - 1)) = Some key"
    and "unat (srk_sel (gd s) - 1) < length (pri_fname (gd s))" and "length sig \<le> length (rsa_sign (gd s))" and "can_write E (hdr_file_name (gd s))"
    and "length (rsa_sign (gd s)) = 1024"
  shows "\<exists>s'. and_then (calculate_signature E s) (append_signature E) = Some (True, s')"
proof -
  obtain b where b: "poke (rsa_sign (gd s)) 0 sig = Some b" "length b = 1024" using poke_Some [of 0 sig "rsa_sign (gd s)"] assms(4,6) by auto
  have "unat (of_nat (length sig) :: u32) \<le> 1024" using assms(4,6) by (simp add: unat_of_nat)
  then show ?thesis using assms b by (simp add: and_then_def calculate_signature_def append_signature_def at_def Let_def)
qed

lemma create_hdr_succeeds:
  assumes i: "inputs_ok E s" and E: "env_ok E"
  shows "\<exists>s'. create_hdr E s = Some (True, s') \<and> entries (gd s') = entries (gd s)"
proof -
  let ?g = "gd s" and ?j = "unat (srk_sel (gd s) - 1)"
  have p: "parsed ?g" "\<not> iek_flag ?g" "\<not> option_img_hash ?g" "unat (num_entries ?g) \<le> 8" "can_write E (hdr_file_name ?g)" "\<forall>n. can_malloc E n"
    "\<forall>i < unat (num_entries ?g). \<exists>bs. files s (img_name (entries ?g ! i)) = Some bs \<and> length bs < 2 ^ 31"
    "unat (num_srk_entries ?g) \<le> length (pri_fname ?g)" "pri_fname ?g ! ?j \<noteq> hdr_file_name ?g"
    and pair: "key_pair E (files s (pub_fname ?g ! ?j)) (files s (pri_fname ?g ! ?j))"
    and key: "\<exists>key. files s (pri_fname ?g ! ?j) = Some key \<and> (\<forall>d. \<exists>sig. RSA_sign_fn E key d = Some sig)"
    using i by (simp_all add: inputs_ok_def Let_def)
  have a: "arrays_ok ?g" "\<not> hton_flag ?g" using p(1) by (simp_all add: parsed_def)
  have w: "\<And>n b. fwrite_fn E n b = b" "\<And>b. length (SHA256_fn E b) = 32" using E by (simp_all add: env_ok_def)
  obtain s1 where s1: "create_srk_calc_hash E 4 s = Some (True, s1)" using create_srk_succeeds [OF i] by blast
  note spec = create_srk_calc_hash_spec [OF s1 a]
  have 1: "arrays_ok (gd s1)" "length (srk_part (gd s1)) = key_size (gd s1)" by (rule spec; assumption)+
  obtain t kl h where e1: "s1 = s\<lparr>gd := ?g\<lparr>key_table := t, srk_size := num_srk_entries ?g * 1028, key_len := kl, srk_hash := h, srk_hash_flag := True\<rparr>\<rparr>" by (rule spec)
  obtain s2 where s2: "fill_structure_ta_2_1 E s1 = Some (True, s2)"
    using fill_structure_succeeds [OF 1(1)] p(2,4,7) by (auto simp: e1)
  note 2 = laid_out_fill [OF s1 s2 p(1) E]
  have f2: "entries (gd s2) = entries ?g" "num_entries (gd s2) = num_entries ?g" "files s2 = files s"
    using fill_structure_keeps [OF s2] p(2) by (simp_all add: e1)
  have d2: "hdr_file_name (gd s2) = hdr_file_name ?g" "pri_fname (gd s2) = pri_fname ?g" "srk_sel (gd s2) = srk_sel ?g" "rsa_sign (gd s2) = rsa_sign ?g"
    "option_img_hash (gd s2) = option_img_hash ?g" "iek_flag (gd s2) = iek_flag ?g"
    using 2(3) by (simp_all add: signing_data_def e1)
  have t2: "length (sg_table (gd s2)) = 8" using 2(2) fill_sg_table_spec by fastforce
  obtain s3 where s3: "calc_img_hash_ta_2_x E s2 = Some (True, s3)"
    using calc_img_hash_succeeds [OF 2(1) t2] f2 p(4,7) a(1) by (fastforce simp: arrays_ok_def)
  then obtain x where e3: "s3 = s2\<lparr>gd := (gd s2)\<lparr>img_hash := SHA256_fn E x\<rparr>\<rparr>" by (rule calc_img_hash_spec)
  have l3: "laid_out (gd s3)" "length (srk_part (gd s3)) = key_size (gd s3)"
    using 2(1) 1(2) signing_data_eqD [OF 2(3)]
    by (simp_all add: e3)
  obtain s4 where s4: "create_header_ta_2_x E s3 = Some (True, s4)"
    using create_header_succeeds [OF l3 _ _ E p(6)] t2 d2 p(2,5) by (auto simp: e3)
  obtain b where e4: "s4 = s3\<lparr>files := (files s3)(hdr_file_name (gd s3) \<mapsto> b)\<rparr>"
    using create_header_spec [OF s4 l3 _ w(1)] t2 by (auto simp: e3)
  obtain key sig where k: "files s (pri_fname ?g ! ?j) = Some key" "RSA_sign_fn E key (SHA256_fn E x) = Some sig" using key by blast
  obtain pub n e where "files s (pub_fname ?g ! ?j) = Some pub" "PEM_pub E pub = Some (n, e)" "2 * length (BN_bn2bin n) \<le> 1024"
    and sel: "0 < srk_sel ?g" "srk_sel ?g \<le> num_srk_entries ?g" by (rule selected_key [OF s1 p(1)]) blast
  then have len: "length sig \<le> 1024" using pair k by (fastforce simp: key_pair_def)
  have j: "?j < length (pri_fname ?g)" using sel p(8) by (auto simp: word_le_nat_alt unat_minus_one word_gt_0 unat_eq_0 [symmetric])
  obtain s5 where s5: "and_then (calculate_signature E s4) (append_signature E) = Some (True, s5)"
    using signature_succeeds [of E key s4 sig] k j len p(5,9) a(1) d2 f2 w(2) by (auto simp: e4 e3 arrays_ok_def)
  have "create_hdr E s = Some (True, s5)"
    using s1 s2 s3 s4 s5 p(3) d2 by (simp add: create_hdr_def and_then_def [of "Some _"] e4 e3)
  moreover have "entries (gd s5) = entries ?g"
    using s5 f2 by (auto simp: and_then_def calculate_signature_def append_signature_def Let_def e4 e3 split: bind_splits if_splits option.splits)
  ultimately show ?thesis by blast
qed

text \<open>
  C12: A run that succeeds with a signature leaves a file that a reader of the header finds consistent: the file starts with the Barker code; the public
  key that the header points to has the printed hash and contains the modulus of the selected public key; the table at its offset has
  the size and the load and destination addresses of every image; and at the signature's offset, with the header's length, is the signature
  by the private key of the same number over the header, the key, the table and the bytes of every image file of the table, in order.
\<close>

theorem header_is_signed:
  assumes c: "create_hdr E s = Some (True, s')" and img: "\<not> option_img_hash (gd s)" and p: "parsed (gd s)" and E: "env_ok E"
    and pair: "key_pair E (files s (pub_fname (gd s) ! unat (srk_sel (gd s) - 1))) (files s (pri_fname (gd s) ! unat (srk_sel (gd s) - 1)))"
    and names: "hdr_file_name (gd s) \<notin> img_name ` set (entries (gd s'))"
      "pri_fname (gd s) ! unat (srk_sel (gd s) - 1) \<notin> {hdr_file_name (gd s), ''ie_table.out''}"
  shows "\<exists>pub n e key F. files s (pub_fname (gd s) ! unat (srk_sel (gd s) - 1)) = Some pub \<and> PEM_pub E pub = Some (n, e) \<and>
     files s (pri_fname (gd s) ! unat (srk_sel (gd s) - 1)) = Some key \<and> files s' (hdr_file_name (gd s)) = Some F \<and>
     signed_file E (files s') (entries (gd s')) (srk_hash (gd s')) n key F"
  by (rule create_hdr_signs [OF assms])


section \<open>The first image in place of the others\<close>

lemma shift_entries_eq:
  "i + k < length es \<Longrightarrow> shift_entries k i es = Some (take (Suc i) es @ replicate k (es ! i) @ drop (Suc (i + k)) es)"
proof (induction k arbitrary: i es)
  case 0
  then show ?case by simp
next
  case (Suc k)
  let ?es = "es[Suc i := es ! i]"
  have "shift_entries k (Suc i) ?es = Some (take (Suc (Suc i)) ?es @ replicate k (?es ! Suc i) @ drop (Suc (Suc i + k)) ?es)"
    using Suc.prems by (intro Suc.IH) simp
  moreover have "take (Suc (Suc i)) ?es = take (Suc i) es @ [es ! i]" using Suc.prems by (simp add: take_Suc_conv_app_nth)
  ultimately show ?case using Suc.prems by (simp add: at_def upd_def)
qed

lemma shift_entries_fault: "i < length es \<Longrightarrow> length es \<le> i + k \<Longrightarrow> shift_entries k i es = None"
proof (induction k arbitrary: i es)
  case (Suc k)
  then show ?case by (cases "Suc i < length es") (auto simp: at_def upd_def)
qed simp

text \<open>
  C14: When keys for further images are given, the entries are moved up in the wrong order: every image after the first
  is replaced by the first, so that only the first is described and signed; and with eight images the ninth entry is outside of the array.
\<close>

theorem further_keys_lose_images:
  assumes "length (entries g) = 8" and "0 < unat (num_entries g)"
  shows "add_ie_entry g =
     (if unat (num_entries g) \<le> 8
      then Some (g\<lparr>entries := \<lparr>img_name = ''ie_table.out'', img_addr_low = hdr_addr g + ie_table_offset g, img_addr_high = 0, img_dst_addr = 0xFFFFFFFF\<rparr> #
        replicate (unat (num_entries g) - 1) (entries g ! 0) @ drop (unat (num_entries g)) (entries g)\<rparr>)
      else None)"
proof -
  have u: "unat (num_entries g - 1) = unat (num_entries g) - 1" using assms(2) by (simp add: unat_minus_one unat_eq_0 [symmetric])
  obtain e es where es: "entries g = e # es" using assms(1) by (cases "entries g") auto
  show ?thesis
  proof (cases "unat (num_entries g) \<le> 8")
    case True
    have "shift_entries (unat (num_entries g - 1)) 0 (entries g) =
        Some (take (Suc 0) (entries g) @ replicate (unat (num_entries g - 1)) (entries g ! 0) @ drop (Suc (0 + unat (num_entries g - 1))) (entries g))"
      by (rule shift_entries_eq) (use True assms u in simp)
    then show ?thesis using True assms(2) by (simp add: add_ie_entry_def u es upd_def)
  next
    case False
    then have "shift_entries (unat (num_entries g - 1)) 0 (entries g) = None" by (intro shift_entries_fault) (use assms u in auto)
    then show ?thesis using False by (simp add: add_ie_entry_def)
  qed
qed

section \<open>Witnesses\<close>

definition sample_cst :: cst_env where
  "sample_cst = \<lparr>PEM_pub = (\<lambda>b. Some (17, 3)), RSA_sign_fn = (\<lambda>k d. Some [5]), SHA256_fn = (\<lambda>b. take 32 (b @ replicate 32 0)),
     can_write = (\<lambda>n. True), fwrite_fn = (\<lambda>n b. b), can_malloc = (\<lambda>n. True)\<rparr>"

definition sample_srk :: srk_table_t where
  "sample_srk = \<lparr>srk_key_len = 0, srk_pkey = replicate 1024 0\<rparr>"

definition sample_image :: sg_input where
  "sample_image = \<lparr>img_name = ''u-boot.bin'', img_addr_low = 0x40100000, img_addr_high = 0, img_dst_addr = 0xFFFFFFFF\<rparr>"

definition sample_gd :: g_data_t where
  "sample_gd = \<lparr>srk_sel = 1, num_srk_entries = 1, num_pri_key = 1, num_ie_key = 0, srk_flag = 0, srk_hash_flag = False,
     pub_fname = [''srk.pub''], pri_fname = [''srk.pri''], iek_fname = [], iek_revok = [], num_iek_revok = 0, key_len = 0,
     entry_addr_low = 0x40100000, num_entries = 1, entries = replicate 8 sample_image,
     fsluid = [0, 0], oemuid = [0, 0], fsluid_flag = [False, False], oemuid_flag = [False, False],
     hdr_file_name = ''hdr.out'', img_hash_file_name = ''hash.out'', hton_flag = False, mp_flag = 0, wp_flag = 0, sec_image_flag = 0, iek_flag = False,
     srk_hash = [], img_hash = [], rsa_sign = replicate 1024 0, key_table = replicate 8 sample_srk,
     ie_key_revok = 0, ie_num_keys = 0, ie_srk_table = replicate 32 sample_srk,
     sg_table = replicate 8 \<lparr>sg_len = 0, sg_target = 0, sg_src_addr_low = 0, sg_dst_addr = 0\<rparr>,
     hdr_struct = replicate 4096 0, hdr_size = 0, srk_offset = 0, srk_size = 0, ie_table_size = 0, ie_table_offset = 0,
     sg_offset = 0, sg_size = 0, rsa_offset = 0, rsa_size = 0, hdr_addr = 0, option_img_hash = False\<rparr>"

definition sample_tool :: tool where
  "sample_tool = \<lparr>gd = sample_gd, files = [''srk.pub'' \<mapsto> [1], ''srk.pri'' \<mapsto> [2], ''u-boot.bin'' \<mapsto> [3, 4]]\<rparr>"

lemma sample_bytes: "BN_bn2bin 17 = [17]" "BN_bn2bin 3 = [3]"
  by (simp_all add: BN_bn2bin_def le_bytes.simps [of 17] le_bytes.simps [of 3] le_bytes.simps [of 0])

lemma sample_parsed: "parsed sample_gd"
  by (simp add: parsed_def arrays_ok_def sample_gd_def sample_srk_def list_all_iff)

lemma sample_cst_ok: "env_ok sample_cst"
  by (auto simp: env_ok_def sample_cst_def min_def)

lemma sample_inputs: "inputs_ok sample_cst sample_tool"
proof -
  have g: "gd sample_tool = sample_gd" by (simp add: sample_tool_def)
  show ?thesis unfolding inputs_ok_def Let_def g
    by (simp add: sample_parsed) (simp add: sample_gd_def sample_tool_def sample_cst_def sample_image_def key_file_ok_def key_pair_def sample_bytes)
qed


theorem header_is_signed_witness:
  "\<exists>s'. create_hdr sample_cst sample_tool = Some (True, s') \<and>
     (\<exists>pub n e key F. files sample_tool ''srk.pub'' = Some pub \<and> PEM_pub sample_cst pub = Some (n, e) \<and>
       files sample_tool ''srk.pri'' = Some key \<and> files s' ''hdr.out'' = Some F \<and>
       signed_file sample_cst (files s') (entries (gd s')) (srk_hash (gd s')) n key F)"
proof -
  obtain s' where s': "create_hdr sample_cst sample_tool = Some (True, s')" "entries (gd s') = entries (gd sample_tool)"
    using create_hdr_succeeds [OF sample_inputs sample_cst_ok] by blast
  have g: "pub_fname (gd sample_tool) ! unat (srk_sel (gd sample_tool) - 1) = ''srk.pub''" "pri_fname (gd sample_tool) ! unat (srk_sel (gd sample_tool) - 1) = ''srk.pri''"
      "hdr_file_name (gd sample_tool) = ''hdr.out''"
    by (simp_all add: sample_tool_def sample_gd_def)
  show ?thesis using header_is_signed [OF s'(1) _ _ sample_cst_ok] sample_inputs s' unfolding inputs_ok_def Let_def g by metis
qed

theorem further_keys_lose_images_witness:
  "let kernel = sample_image\<lparr>img_name := ''kernel''\<rparr>;
       g = sample_gd\<lparr>num_entries := 3, ie_table_offset := 0x800, hdr_addr := 0x40000000, entries := sample_image # replicate 7 kernel\<rparr>
   in add_ie_entry g = Some (g\<lparr>entries :=
     \<lparr>img_name = ''ie_table.out'', img_addr_low = 0x40000800, img_addr_high = 0, img_dst_addr = 0xFFFFFFFF\<rparr> #
     replicate 2 sample_image @ replicate 5 kernel\<rparr>)"
  using further_keys_lose_images [of "sample_gd\<lparr>num_entries := 3, ie_table_offset := 0x800, hdr_addr := 0x40000000,
    entries := sample_image # replicate 7 (sample_image\<lparr>img_name := ''kernel''\<rparr>)\<rparr>"]
  by (simp add: sample_gd_def)


end
