(* ===== verification/Cst_Crc.thy ===== *)
theory Cst_Crc
  imports SO_Prelude
begin

text \<open>
  The checks over the reset configuration word and the pre-boot instructions, \<open>crypto_utils.c\<close> of the code signing tool: the CRC-32
  with a table and the checksum. The specification of the CRC is the shift register of IEEE 802.3, one bit at a time.
\<close>

unbundle bit_operations_syntax

section \<open>The code\<close>

definition crc32_lookup :: "u32 list" where
  "crc32_lookup = concat [
     [0x00000000, 0x77073096, 0xEE0E612C, 0x990951BA],
     [0x076DC419, 0x706AF48F, 0xE963A535, 0x9E6495A3],
     [0x0EDB8832, 0x79DCB8A4, 0xE0D5E91E, 0x97D2D988],
     [0x09B64C2B, 0x7EB17CBD, 0xE7B82D07, 0x90BF1D91],
     [0x1DB71064, 0x6AB020F2, 0xF3B97148, 0x84BE41DE],
     [0x1ADAD47D, 0x6DDDE4EB, 0xF4D4B551, 0x83D385C7],
     [0x136C9856, 0x646BA8C0, 0xFD62F97A, 0x8A65C9EC],
     [0x14015C4F, 0x63066CD9, 0xFA0F3D63, 0x8D080DF5],
     [0x3B6E20C8, 0x4C69105E, 0xD56041E4, 0xA2677172],
     [0x3C03E4D1, 0x4B04D447, 0xD20D85FD, 0xA50AB56B],
     [0x35B5A8FA, 0x42B2986C, 0xDBBBC9D6, 0xACBCF940],
     [0x32D86CE3, 0x45DF5C75, 0xDCD60DCF, 0xABD13D59],
     [0x26D930AC, 0x51DE003A, 0xC8D75180, 0xBFD06116],
     [0x21B4F4B5, 0x56B3C423, 0xCFBA9599, 0xB8BDA50F],
     [0x2802B89E, 0x5F058808, 0xC60CD9B2, 0xB10BE924],
     [0x2F6F7C87, 0x58684C11, 0xC1611DAB, 0xB6662D3D],
     [0x76DC4190, 0x01DB7106, 0x98D220BC, 0xEFD5102A],
     [0x71B18589, 0x06B6B51F, 0x9FBFE4A5, 0xE8B8D433],
     [0x7807C9A2, 0x0F00F934, 0x9609A88E, 0xE10E9818],
     [0x7F6A0DBB, 0x086D3D2D, 0x91646C97, 0xE6635C01],
     [0x6B6B51F4, 0x1C6C6162, 0x856530D8, 0xF262004E],
     [0x6C0695ED, 0x1B01A57B, 0x8208F4C1, 0xF50FC457],
     [0x65B0D9C6, 0x12B7E950, 0x8BBEB8EA, 0xFCB9887C],
     [0x62DD1DDF, 0x15DA2D49, 0x8CD37CF3, 0xFBD44C65],
     [0x4DB26158, 0x3AB551CE, 0xA3BC0074, 0xD4BB30E2],
     [0x4ADFA541, 0x3DD895D7, 0xA4D1C46D, 0xD3D6F4FB],
     [0x4369E96A, 0x346ED9FC, 0xAD678846, 0xDA60B8D0],
     [0x44042D73, 0x33031DE5, 0xAA0A4C5F, 0xDD0D7CC9],
     [0x5005713C, 0x270241AA, 0xBE0B1010, 0xC90C2086],
     [0x5768B525, 0x206F85B3, 0xB966D409, 0xCE61E49F],
     [0x5EDEF90E, 0x29D9C998, 0xB0D09822, 0xC7D7A8B4],
     [0x59B33D17, 0x2EB40D81, 0xB7BD5C3B, 0xC0BA6CAD],
     [0xEDB88320, 0x9ABFB3B6, 0x03B6E20C, 0x74B1D29A],
     [0xEAD54739, 0x9DD277AF, 0x04DB2615, 0x73DC1683],
     [0xE3630B12, 0x94643B84, 0x0D6D6A3E, 0x7A6A5AA8],
     [0xE40ECF0B, 0x9309FF9D, 0x0A00AE27, 0x7D079EB1],
     [0xF00F9344, 0x8708A3D2, 0x1E01F268, 0x6906C2FE],
     [0xF762575D, 0x806567CB, 0x196C3671, 0x6E6B06E7],
     [0xFED41B76, 0x89D32BE0, 0x10DA7A5A, 0x67DD4ACC],
     [0xF9B9DF6F, 0x8EBEEFF9, 0x17B7BE43, 0x60B08ED5],
     [0xD6D6A3E8, 0xA1D1937E, 0x38D8C2C4, 0x4FDFF252],
     [0xD1BB67F1, 0xA6BC5767, 0x3FB506DD, 0x48B2364B],
     [0xD80D2BDA, 0xAF0A1B4C, 0x36034AF6, 0x41047A60],
     [0xDF60EFC3, 0xA867DF55, 0x316E8EEF, 0x4669BE79],
     [0xCB61B38C, 0xBC66831A, 0x256FD2A0, 0x5268E236],
     [0xCC0C7795, 0xBB0B4703, 0x220216B9, 0x5505262F],
     [0xC5BA3BBE, 0xB2BD0B28, 0x2BB45A92, 0x5CB36A04],
     [0xC2D7FFA7, 0xB5D0CF31, 0x2CD99E8B, 0x5BDEAE1D],
     [0x9B64C2B0, 0xEC63F226, 0x756AA39C, 0x026D930A],
     [0x9C0906A9, 0xEB0E363F, 0x72076785, 0x05005713],
     [0x95BF4A82, 0xE2B87A14, 0x7BB12BAE, 0x0CB61B38],
     [0x92D28E9B, 0xE5D5BE0D, 0x7CDCEFB7, 0x0BDBDF21],
     [0x86D3D2D4, 0xF1D4E242, 0x68DDB3F8, 0x1FDA836E],
     [0x81BE16CD, 0xF6B9265B, 0x6FB077E1, 0x18B74777],
     [0x88085AE6, 0xFF0F6A70, 0x66063BCA, 0x11010B5C],
     [0x8F659EFF, 0xF862AE69, 0x616BFFD3, 0x166CCF45],
     [0xA00AE278, 0xD70DD2EE, 0x4E048354, 0x3903B3C2],
     [0xA7672661, 0xD06016F7, 0x4969474D, 0x3E6E77DB],
     [0xAED16A4A, 0xD9D65ADC, 0x40DF0B66, 0x37D83BF0],
     [0xA9BCAE53, 0xDEBB9EC5, 0x47B2CF7F, 0x30B5FFE9],
     [0xBDBDF21C, 0xCABAC28A, 0x53B39330, 0x24B4A3A6],
     [0xBAD03605, 0xCDD70693, 0x54DE5729, 0x23D967BF],
     [0xB3667A2E, 0xC4614AB8, 0x5D681B02, 0x2A6F2B94],
     [0xB40BBE37, 0xC30C8EA1, 0x5A05DF1B, 0x2D02EF8D]]"

definition crc_step :: "u32 \<Rightarrow> byte \<Rightarrow> u32" where
  "crc_step crc b = (let index = (crc XOR ucast b) AND 0xFF in drop_bit 8 crc XOR (crc32_lookup ! unat index))"

definition crypto_calculate_crc :: "byte list \<Rightarrow> u32" where
  "crypto_calculate_crc data = foldl crc_step 0xFFFFFFFF data XOR 0xFFFFFFFF"

text \<open>The sum has 64 bits and is cut to 32 after every addition.\<close>

definition checksum_step :: "u64 \<Rightarrow> u32 \<Rightarrow> u64" where
  "checksum_step s w = (s + ucast w) AND 0xFFFFFFFF"

definition crypto_calculate_checksum :: "u32 list \<Rightarrow> u32" where
  "crypto_calculate_checksum ws = ucast (foldl checksum_step 0 ws AND 0xFFFFFFFF)"

section \<open>The shift register\<close>

definition crc_bit :: "u32 \<Rightarrow> u32" where
  "crc_bit x = drop_bit 1 x XOR (if bit x 0 then 0xEDB88320 else 0)"

definition crc_byte :: "u32 \<Rightarrow> byte \<Rightarrow> u32" where
  "crc_byte c b = (crc_bit ^^ 8) (c XOR ucast b)"

definition crc32 :: "byte list \<Rightarrow> u32" where
  "crc32 data = foldl crc_byte 0xFFFFFFFF data XOR 0xFFFFFFFF"

lemma funpow_8: "(f ^^ 8) x = f (f (f (f (f (f (f (f x)))))))"
  by (simp add: numeral_eq_Suc)

lemma crc_table: "crc32_lookup = map (\<lambda>i. (crc_bit ^^ 8) (of_nat i)) [0..<256]"
proof -
  define entry where "entry = (\<lambda>i :: nat. (crc_bit ^^ 8) (of_nat i))"
  have e: "entry 0 = crc_bit (crc_bit (crc_bit (crc_bit (crc_bit (crc_bit (crc_bit (crc_bit 0)))))))"
    "entry (Suc 0) = crc_bit (crc_bit (crc_bit (crc_bit (crc_bit (crc_bit (crc_bit (crc_bit 1)))))))"
    "entry (numeral k) = crc_bit (crc_bit (crc_bit (crc_bit (crc_bit (crc_bit (crc_bit (crc_bit (numeral k))))))))" for k
    by (simp_all add: entry_def funpow_8)
  have b: "crc_bit 0 = 0" "crc_bit 1 = 0xEDB88320" "crc_bit (numeral w) = drop_bit 1 (numeral w) XOR (if bit (numeral w :: u32) 0 then 0xEDB88320 else 0)" for w
    by (simp_all add: crc_bit_def)
  have u: "[0..<256] = 0 # Suc 0 # [2..<256]" by (simp add: upt_conv_Cons [of 0] upt_conv_Cons [of "Suc 0"] numeral_2_eq_2)
  have "crc32_lookup = map entry [0..<256]" unfolding u by (simp add: crc32_lookup_def upt_rec_numeral e b)
  then show ?thesis by (simp only: entry_def)
qed

lemma crc_bit_xor: "crc_bit (x XOR y) = crc_bit x XOR crc_bit y"
  by (auto simp: crc_bit_def bit_xor_iff xor.assoc xor.left_commute drop_bit_xor)

lemma crc_bits_xor: "(crc_bit ^^ n) (x XOR y) = (crc_bit ^^ n) x XOR (crc_bit ^^ n) y"
  by (induction n) (simp_all add: crc_bit_xor)

text \<open>Zeros at the low end are only shifted out.\<close>

lemma crc_bits_zeros: "(\<And>m. m < n \<Longrightarrow> \<not> bit x m) \<Longrightarrow> (crc_bit ^^ n) x = drop_bit n x"
proof (induction n arbitrary: x)
  case (Suc n)
  have "crc_bit x = drop_bit 1 x" using Suc.prems [of 0] by (simp add: crc_bit_def)
  then have "(crc_bit ^^ Suc n) x = (crc_bit ^^ n) (drop_bit 1 x)" by (simp add: funpow_swap1)
  also have "\<dots> = drop_bit n (drop_bit 1 x)" by (rule Suc.IH) (use Suc.prems in \<open>simp add: bit_drop_bit_eq\<close>)
  finally show ?case by simp
qed simp

lemma no_bit: "LENGTH('a) \<le> n \<Longrightarrow> \<not> bit (w :: 'a::len word) n"
  using bit_imp_le_length [of w n] by auto

lemma bit_ucast_byte: "bit (ucast (b :: byte) :: u32) n \<longleftrightarrow> n < 8 \<and> bit b n"
  by (auto simp: bit_ucast_iff dest: bit_imp_le_length)

lemma crc_step_eq: "crc_step c b = crc_byte c b"
proof -
  let ?x = "c XOR ucast b" and ?m = "0xFF :: u32"
  have m: "?m = mask 8" by (simp add: mask_eq_exp_minus_1)
  have i: "unat (?x AND ?m) < 256"
    unfolding m take_bit_eq_mask [symmetric] unsigned_take_bit_eq using take_bit_nat_less_exp [of 8 "unat ?x"] by simp
  have "?x = (?x AND NOT ?m) XOR (?x AND ?m)" by (rule bit_eqI) (auto simp: bit_simps)
  then have "crc_byte c b = (crc_bit ^^ 8) (?x AND NOT ?m) XOR (crc_bit ^^ 8) (?x AND ?m)" unfolding crc_byte_def by (metis crc_bits_xor)
  also have "(crc_bit ^^ 8) (?x AND NOT ?m) = drop_bit 8 (?x AND NOT ?m)"
    by (rule crc_bits_zeros) (auto simp: m bit_simps)
  also have "drop_bit 8 (?x AND NOT ?m) = drop_bit 8 c"
    by (rule bit_eqI) (auto simp: m bit_drop_bit_eq bit_and_iff bit_xor_iff bit_not_iff bit_mask_iff bit_ucast_byte dest: bit_imp_le_length)
  also have "(crc_bit ^^ 8) (?x AND ?m) = crc32_lookup ! unat (?x AND ?m)"
    using i by (simp add: crc_table)
  finally show ?thesis by (simp add: crc_step_def Let_def)
qed

text \<open>
  C15: The table-driven routine computes the CRC-32 of IEEE 802.3, in which every byte goes through the shift register one bit at a time.
\<close>

theorem crc_is_ieee: "crypto_calculate_crc data = crc32 data"
  by (simp add: crypto_calculate_crc_def crc32_def crc_step_eq [abs_def])

text \<open>The checksum is the sum of the words.\<close>

lemma checksum_is_sum: "crypto_calculate_checksum ws = sum_list ws"
proof -
  have m: "(0xFFFFFFFF :: u64) = mask 32" by (simp add: mask_eq_exp_minus_1)
  have cut: "ucast (take_bit 32 x :: u64) = (ucast x :: u32)" for x
    by (rule bit_eqI) (auto simp: bit_ucast_iff bit_take_bit_iff)
  have f: "(ucast (foldl checksum_step s ws) :: u32) = ucast s + sum_list ws" for s
  proof (induction ws arbitrary: s)
    case (Cons w ws)
    have "(ucast (checksum_step s w) :: u32) = ucast (s + ucast w)" by (simp add: checksum_step_def m cut flip: take_bit_eq_mask)
    also have "\<dots> = ucast s + w" 
      by (simp add: word_unat_eq_iff unsigned_ucast_eq take_bit_eq_mod unat_word_ariths mod_mod_cancel mod_simps)
    finally show ?case using Cons by (simp add: add.assoc)
  qed simp
  show ?thesis using f [of 0] unfolding crypto_calculate_checksum_def m by (simp add: cut flip: take_bit_eq_mask)
qed

section \<open>Detection of errors\<close>

lemma xor_cancel: "(x XOR z = y XOR z) = (x = y)" "(z XOR x = z XOR y) = (x = y)" for x y z :: u32
proof -
  have u: "(v XOR z) XOR z = v" "z XOR (z XOR v) = v" for v by (simp add: xor.assoc) (simp flip: xor.assoc)
  show "(x XOR z = y XOR z) = (x = y)" by (metis u(1))
  show "(z XOR x = z XOR y) = (x = y)" by (metis u(2))
qed

text \<open>The register loses nothing: the highest bit tells whether the polynomial was added.\<close>

lemma crc_bit_inj: "crc_bit x = crc_bit y \<Longrightarrow> x = y"
proof -
  assume e: "crc_bit x = crc_bit y"
  have "bit (crc_bit z) 31 = bit z 0" for z using no_bit [of 32 z] by (simp add: crc_bit_def bit_simps)
  then have 0: "bit x 0 = bit y 0" using e by metis
  then have d: "drop_bit 1 x = drop_bit 1 y" using e by (cases "bit y 0") (simp_all add: crc_bit_def xor_cancel)
  show "x = y"
  proof (rule bit_eqI)
    fix n
    show "bit x n = bit y n"
    proof (cases n)
      case (Suc k)
      have "bit (drop_bit 1 x) k = bit (drop_bit 1 y) k" using d by simp
      then show ?thesis by (simp add: bit_drop_bit_eq Suc)
    qed (use 0 in simp)
  qed
qed

lemma crc_bits_inj: "(crc_bit ^^ n) x = (crc_bit ^^ n) y \<Longrightarrow> x = y"
  by (induction n) (auto dest: crc_bit_inj)

lemma crc_bytes_inj: "foldl crc_byte c bs = foldl crc_byte d bs \<Longrightarrow> c = d"
proof (induction bs arbitrary: c d)
  case (Cons b bs)
  have "crc_byte c b = crc_byte d b" by (rule Cons.IH) (use Cons.prems in simp)
  then have "c XOR ucast b = d XOR ucast b" unfolding crc_byte_def by (rule crc_bits_inj)
  then show ?case by (simp only: xor_cancel)
qed simp

text \<open>Up to four bytes go into the register as one word.\<close>

primrec word_of :: "byte list \<Rightarrow> u32" where
  "word_of [] = 0"
| "word_of (b # bs) = ucast b XOR push_bit 8 (word_of bs)"

lemma bit_word_of: "bit (word_of bs) n \<longleftrightarrow> n < 32 \<and> n < 8 * length bs \<and> bit (bs ! (n div 8)) (n mod 8)"
proof (induction bs arbitrary: n)
  case (Cons b bs)
  show ?case
  proof (cases "n < 8")
    case True
    then show ?thesis by (simp add: bit_xor_iff bit_push_bit_iff bit_ucast_byte)
  next
    case False
    then have "n div 8 = Suc ((n - 8) div 8)" "n mod 8 = (n - 8) mod 8" by (simp_all add: le_div_geq le_mod_geq)
    then show ?thesis using False Cons.IH [of "n - 8"] by (auto simp: bit_xor_iff bit_push_bit_iff bit_ucast_byte)
  qed
qed simp

lemma shift_back: "length bs \<le> 3 \<Longrightarrow> drop_bit 8 (push_bit 8 (word_of bs)) = word_of bs"
  by (rule bit_eqI) (auto simp: bit_drop_bit_eq bit_push_bit_iff bit_word_of)

lemma crc_of_word: "length bs \<le> 4 \<Longrightarrow> foldl crc_byte c bs = (crc_bit ^^ (8 * length bs)) (c XOR word_of bs)"
proof (induction bs arbitrary: c)
  case (Cons b bs)
  have h: "(crc_bit ^^ 8) (push_bit 8 (word_of bs)) = word_of bs"
    using Cons.prems crc_bits_zeros [of 8 "push_bit 8 (word_of bs)"] by (simp add: shift_back bit_push_bit_iff)
  have w: "crc_byte c b XOR word_of bs = (crc_bit ^^ 8) (c XOR word_of (b # bs))"
    by (simp only: crc_byte_def word_of.simps crc_bits_xor xor.assoc h)
  have "foldl crc_byte c (b # bs) = (crc_bit ^^ (8 * length bs)) (crc_byte c b XOR word_of bs)" using Cons by simp
  moreover have "8 * length (b # bs) = 8 * length bs + 8" by simp
  ultimately show ?case unfolding w by (simp only: funpow_add comp_def)
qed simp

lemma word_of_inj:
  assumes "length bs = length cs" and "length bs \<le> 4" and "word_of bs = word_of cs"
  shows "bs = cs"
proof (rule nth_equalityI [OF assms(1)])
  fix i assume i: "i < length bs"
  show "bs ! i = cs ! i"
  proof (rule bit_word_eqI)
    fix n assume n: "n < LENGTH(8)"
    have "8 * i + n < 32" "8 * i + n < 8 * length bs" "(8 * i + n) div 8 = i" "(8 * i + n) mod 8 = n" using i n assms(2) by auto
    then show "bit (bs ! i) n = bit (cs ! i) n" using assms(1,3) bit_word_of [of bs "8 * i + n"] bit_word_of [of cs "8 * i + n"] by simp
  qed
qed

text \<open>
  C16: The CRC of the tool detects every error that is confined to four consecutive bytes, wherever they are in the data.
\<close>

theorem crc_detects_bursts:
  assumes "length bs = length cs" and "length bs \<le> 4" and "bs \<noteq> cs"
  shows "crypto_calculate_crc (pre @ bs @ post) \<noteq> crypto_calculate_crc (pre @ cs @ post)"
proof
  let ?c = "foldl crc_byte 0xFFFFFFFF pre"
  assume "crypto_calculate_crc (pre @ bs @ post) = crypto_calculate_crc (pre @ cs @ post)"
  then have "foldl crc_byte (foldl crc_byte ?c bs) post XOR 0xFFFFFFFF = foldl crc_byte (foldl crc_byte ?c cs) post XOR 0xFFFFFFFF"
    by (simp add: crypto_calculate_crc_def crc_step_eq [abs_def])
  then have "foldl crc_byte (foldl crc_byte ?c bs) post = foldl crc_byte (foldl crc_byte ?c cs) post" by (simp only: xor_cancel)
  then have "foldl crc_byte ?c bs = foldl crc_byte ?c cs" by (rule crc_bytes_inj)
  then have "(crc_bit ^^ (8 * length bs)) (?c XOR word_of bs) = (crc_bit ^^ (8 * length bs)) (?c XOR word_of cs)"
    using crc_of_word assms(1,2) by simp
  then have "?c XOR word_of bs = ?c XOR word_of cs" by (rule crc_bits_inj)
  then have "word_of bs = word_of cs" by (simp only: xor_cancel)
  then show False using word_of_inj assms by blast
qed

theorem crc_detects_bursts_witness:
  "crypto_calculate_crc ([1] @ [2, 3] @ [4, 5]) \<noteq> crypto_calculate_crc ([1] @ [7, 3] @ [4, 5])"
  by (rule crc_detects_bursts) simp_all

end
